(* ===== verification/RM_Prelude.thy ===== *)
theory RM_Prelude
  imports Main "HOL-Library.Word"
begin

text \<open>
  Shared vocabulary of the RealmMesh model: machine integers at their width, the
  clock, result types, and the list and word lemmas that the component theories use.

  Clock values are nanosecond counts since the Unix epoch, as
  \<open>std::chrono::system_clock::time_point\<close> is on the supported platforms; they are
  mathematical integers here, so the overflow of the 64-bit count (year 2262) is outside
  the model. A \<open>duration_cast\<close> to seconds truncates towards zero, as C++ does.
\<close>

unbundle bit_operations_syntax

type_synonym u8 = "8 word"
type_synonym u32 = "32 word"
type_synonym u64 = "64 word"
type_synonym time_point = int
type_synonym duration = int

named_theorems clock_defs "definitions that unfold clock arithmetic"
named_theorems shape_simps "size and shape facts about encoded data"

text \<open>Exceptions are values: the standard exception classes the code throws, with their
  messages. A function that may throw returns \<open>error + 'a\<close>.\<close>

datatype error =
  Invalid_argument string | Runtime_error string | Logic_error string | Json_error string

section \<open>Clock arithmetic\<close>

definition ns_per_second :: int where
  "ns_per_second = 1000000000"

definition seconds :: "int \<Rightarrow> duration" where
  "seconds n = n * ns_per_second"

definition epoch_seconds :: "time_point \<Rightarrow> int" where
  "epoch_seconds t =
     (if 0 \<le> t then t div ns_per_second else - ((- t) div ns_per_second))"

text \<open>The common clock tolerance of every credential check.\<close>

definition jws_clock_leeway :: duration where
  "jws_clock_leeway = seconds 60"

declare ns_per_second_def [clock_defs] seconds_def [clock_defs]

lemma epoch_seconds_seconds [simp]: "epoch_seconds (seconds n) = n"
proof -
  have "(- (n * 1000000000)) div 1000000000 = - n"
    using nonzero_mult_div_cancel_right [of "1000000000 :: int" "- n"] by simp
  then show ?thesis
    by (simp add: epoch_seconds_def clock_defs)
qed

lemma seconds_le_iff [simp]: "seconds a \<le> seconds b \<longleftrightarrow> a \<le> b"
  by (simp add: clock_defs)

lemma seconds_less_iff [simp]: "seconds a < seconds b \<longleftrightarrow> a < b"
  by (simp add: clock_defs)

lemma seconds_epoch_le: "0 \<le> t \<Longrightarrow> seconds (epoch_seconds t) \<le> t"
  by (simp add: epoch_seconds_def clock_defs)

lemma seconds_epoch_gt: "0 \<le> t \<Longrightarrow> t < seconds (epoch_seconds t) + seconds 1"
  by (simp add: epoch_seconds_def clock_defs)

lemma epoch_seconds_mono: "s \<le> t \<Longrightarrow> epoch_seconds s \<le> epoch_seconds t"
  by (auto simp: epoch_seconds_def clock_defs intro: zdiv_mono1 order_trans [of _ 0]
      pos_imp_zdiv_nonneg_iff [THEN iffD2])

lemma jws_clock_leeway_pos [simp]: "0 < jws_clock_leeway"
  by (simp add: jws_clock_leeway_def clock_defs)

section \<open>Unsigned 64-bit counters\<close>

lemma u64_less_Suc:
  fixes x y :: u64
  assumes "x < y"
  shows "unat (x + 1) = Suc (unat x)"
proof -
  have "x + 1 \<noteq> 0"
    using assms by (metis add_diff_cancel_right' diff_0 word_order.extremum_strict)
  then show ?thesis
    by (simp add: unatSuc add.commute)
qed

lemma u64_add_unat:
  fixes x y :: u64
  assumes "unat x + unat y < 2 ^ 64"
  shows "unat (x + y) = unat x + unat y"
  using assms by (simp add: unat_word_ariths)

lemma u64_diff_unat:
  fixes x y :: u64
  assumes "y \<le> x"
  shows "unat (x - y) = unat x - unat y"
  using assms by (rule unat_sub)

lemma u64_unat_lt [simp]: "unat (x :: u64) < 18446744073709551616"
  using unsigned_less [of x] by simp

lemma u64_unat_pow: "unat (x :: u64) < 2 ^ 64"
  by simp

section \<open>Results that may be refused\<close>

lemma case_option_None_iff:
  "(case x of None \<Rightarrow> None | Some y \<Rightarrow> f y) = None \<longleftrightarrow> (\<forall>y. x = Some y \<longrightarrow> f y = None)"
  by (cases x) auto

lemma case_option_Some_iff:
  "(case x of None \<Rightarrow> None | Some y \<Rightarrow> f y) = Some z \<longleftrightarrow> (\<exists>y. x = Some y \<and> f y = Some z)"
  by (cases x) auto

section \<open>Lists\<close>

lemma take_append_drop_add: "take a xs @ take b (drop a xs) = take (a + b) xs"
  by (simp add: take_add)

lemma prefix_take_drop: "length ys \<le> length xs \<Longrightarrow> take (length ys) xs = ys \<longleftrightarrow>
    (\<exists>zs. xs = ys @ zs)"
  by (metis append_eq_conv_conj append_take_drop_id)

section \<open>Decimal digits\<close>

definition is_digit :: "char \<Rightarrow> bool" where
  "is_digit c \<longleftrightarrow> 48 \<le> (of_char c :: nat) \<and> (of_char c :: nat) \<le> 57"

definition digit_value :: "char \<Rightarrow> nat" where
  "digit_value c = of_char c - 48"

text \<open>
  The overflow-checked decimal loop that the code repeats for account ids, queue
  numbers and JSON integers: it refuses a non-digit and any value above the limit, so the
  unsigned accumulator never wraps.
\<close>

fun decimal_loop :: "nat \<Rightarrow> nat \<Rightarrow> string \<Rightarrow> nat option" where
  "decimal_loop limit acc [] = Some acc"
| "decimal_loop limit acc (c # cs) =
     (if \<not> is_digit c then None
      else if (limit - digit_value c) div 10 < acc then None
      else decimal_loop limit (acc * 10 + digit_value c) cs)"

text \<open>\<open>std::to_string\<close> on an unsigned value.\<close>

fun show_nat :: "nat \<Rightarrow> string" where
  "show_nat n =
     (if n < 10 then [char_of (48 + n)] else show_nat (n div 10) @ [char_of (48 + n mod 10)])"

declare show_nat.simps [simp del]

definition show_int :: "int \<Rightarrow> string" where
  "show_int i = (if i < 0 then CHR ''-'' # show_nat (nat (- i)) else show_nat (nat i))"

lemma is_digit_char_of [simp]: "(n :: nat) < 10 \<Longrightarrow> is_digit (char_of (48 + n))"
  by (simp add: is_digit_def of_char_of take_bit_eq_mod)

lemma digit_value_char_of [simp]: "n < 10 \<Longrightarrow> digit_value (char_of (48 + n)) = n"
  by (simp add: digit_value_def of_char_of take_bit_eq_mod)

lemma digit_value_lt: "is_digit c \<Longrightarrow> digit_value c < 10"
  unfolding is_digit_def digit_value_def by linarith

lemma decimal_loop_append:
  "decimal_loop limit acc (xs @ ys) =
     (case decimal_loop limit acc xs of None \<Rightarrow> None | Some n \<Rightarrow> decimal_loop limit n ys)"
  by (induction xs arbitrary: acc) simp_all

lemma decimal_step_ok:
  assumes "acc * 10 + v \<le> limit" and "v < (10 :: nat)"
  shows "\<not> (limit - v) div 10 < acc"
proof -
  have "acc * 10 \<le> limit - v"
    using assms by linarith
  then have "acc * 10 div 10 \<le> (limit - v) div 10"
    by (rule div_le_mono)
  then show ?thesis by simp
qed

lemma decimal_step_bound:
  assumes "\<not> (limit - v) div 10 < acc" and "v \<le> limit"
  shows "acc * 10 + v \<le> (limit :: nat)"
proof -
  have "acc * 10 \<le> (limit - v) div 10 * 10"
    using assms(1) by simp
  also have "\<dots> \<le> limit - v"
    by simp
  finally show ?thesis using assms(2) by linarith
qed

lemma decimal_loop_bound:
  "acc \<le> limit \<Longrightarrow> 9 \<le> limit \<Longrightarrow> decimal_loop limit acc cs = Some n \<Longrightarrow> n \<le> limit"
proof (induction limit acc cs rule: decimal_loop.induct)
  case (2 limit acc c cs)
  then show ?case
    using decimal_step_bound [of limit "digit_value c" acc] digit_value_lt [of c]
    by (auto split: if_splits)
qed simp

lemma decimal_loop_show_nat [simp]: "n \<le> limit \<Longrightarrow> decimal_loop limit 0 (show_nat n) = Some n"
proof (induction n rule: show_nat.induct)
  case (1 n)
  show ?case
  proof (cases "n < 10")
    case True
    then show ?thesis by (simp add: show_nat.simps [of n])
  next
    case False
    have "n div 10 \<le> limit"
      using "1.prems" by (rule order_trans [OF div_le_dividend])
    then have "decimal_loop limit 0 (show_nat (n div 10)) = Some (n div 10)"
      using "1.IH" False by simp
    then show ?thesis
      using False decimal_step_ok [of "n div 10" "n mod 10" limit] "1.prems"
      by (simp add: show_nat.simps [of n] decimal_loop_append)
  qed
qed

lemma show_nat_digits: "list_all is_digit (show_nat n)"
proof (induction n rule: show_nat.induct)
  case (1 n)
  then show ?case
    by (subst show_nat.simps) simp
qed

lemma show_nat_nonempty [simp]: "show_nat n \<noteq> []"
  by (subst show_nat.simps) simp

lemma char_of_48_add: "n < 10 \<Longrightarrow> char_of (48 + n) = CHR ''0'' \<longleftrightarrow> n = (0 :: nat)"
proof -
  assume "n < 10"
  have "char_of (48 + n) = CHR ''0'' \<longleftrightarrow> (of_char (char_of (48 + n :: nat) :: char) :: nat) = of_char CHR ''0''"
    by (simp only: of_char_eq_iff)
  with \<open>n < 10\<close> show ?thesis by (simp add: of_char_of take_bit_eq_mod)
qed

lemma hd_show_nat: "hd (show_nat n) = CHR ''0'' \<longleftrightarrow> n = 0"
proof (induction n rule: show_nat.induct)
  case (1 n)
  then show ?case
    by (subst show_nat.simps) (auto simp: char_of_48_add)
qed

lemma show_nat_0 [simp]: "show_nat 0 = ''0''"
  using char_of_48_add [of 0] by (subst show_nat.simps) simp

lemma length_show_nat: "n < 10 ^ k \<Longrightarrow> 0 < k \<Longrightarrow> length (show_nat n) \<le> k"
proof (induction k arbitrary: n)
  case (Suc k)
  show ?case
  proof (cases "n < 10")
    case False
    then have "0 < k"
      using Suc.prems(1) by (cases k) simp_all
    moreover have "n div 10 < 10 ^ k"
      using Suc.prems(1) by (simp add: less_mult_imp_div_less mult.commute)
    ultimately show ?thesis
      using Suc.IH False by (simp add: show_nat.simps [of n])
  qed (simp add: show_nat.simps [of n])
qed simp

lemma length_show_u64: "length (show_nat (unat (a :: u64))) \<le> 20"
  by (rule length_show_nat [OF less_trans [OF u64_unat_lt]]) simp_all

text \<open>Canonical decimal text is the text of its value.\<close>

lemma show_nat_step:
  assumes "is_digit c"
  shows "show_nat (n * 10 + digit_value c) = (if n = 0 then [c] else show_nat n @ [c])"
proof -
  have "char_of (48 + digit_value c) = c"
    using assms by (simp add: is_digit_def digit_value_def)
  then show ?thesis
    using digit_value_lt [OF assms] by (subst show_nat.simps) simp
qed

lemma show_nat_decimal:
  "decimal_loop limit 0 cs = Some n \<Longrightarrow> cs \<noteq> [] \<Longrightarrow> length cs = 1 \<or> hd cs \<noteq> CHR ''0'' \<Longrightarrow>
     show_nat n = cs"
proof (induction cs arbitrary: n rule: rev_induct)
  case (snoc c cs)
  obtain m where m: "decimal_loop limit 0 cs = Some m" "is_digit c" "n = m * 10 + digit_value c"
    using snoc.prems(1) by (auto simp: decimal_loop_append split: option.splits if_splits)
  show ?case
  proof (cases "cs = []")
    case True
    then show ?thesis
      using m show_nat_step [OF m(2), of 0] by simp
  next
    case False
    have hd: "hd cs \<noteq> CHR ''0''"
      using snoc.prems(3) False by simp
    then have "show_nat m = cs"
      using snoc.IH m(1) False by simp
    then show ?thesis
      using show_nat_step [OF m(2), of m] m(3) hd hd_show_nat [of m] by auto
  qed
qed simp

section \<open>Bytes and text\<close>

definition as_bytes :: "string \<Rightarrow> u8 list" where
  "as_bytes text = map (\<lambda>c. word_of_nat (of_char c)) text"

definition as_string_view :: "u8 list \<Rightarrow> string" where
  "as_string_view bytes = map (\<lambda>b. char_of (unat b)) bytes"

lemma as_string_view_as_bytes [simp]: "as_string_view (as_bytes text) = text"
  by (simp add: as_string_view_def as_bytes_def comp_def unsigned_of_nat take_bit_eq_mod)

lemma byte_of_char_of [simp]: "word_of_nat (of_char (char_of (unat b) :: char)) = (b :: u8)"
  using unsigned_less [where ?'a = nat and w = b] by simp

lemma as_bytes_as_string_view [simp]: "as_bytes (as_string_view bytes) = bytes"
  by (simp only: as_string_view_def as_bytes_def map_map comp_def byte_of_char_of map_idI)

lemma length_as_bytes [simp]: "length (as_bytes text) = length text"
  by (simp add: as_bytes_def)

section \<open>Searching in strings\<close>

text \<open>\<open>s.find(c, from)\<close>; \<open>None\<close> is \<open>npos\<close>.\<close>

definition find_from :: "char \<Rightarrow> string \<Rightarrow> nat \<Rightarrow> nat option" where
  "find_from c s from = find (\<lambda>i. s ! i = c) [from..<length s]"

definition substr :: "string \<Rightarrow> nat \<Rightarrow> nat \<Rightarrow> string" where
  "substr s from n = take n (drop from s)"

lemma find_upt_skip:
  "(\<And>i. m \<le> i \<Longrightarrow> i < n \<Longrightarrow> \<not> P i) \<Longrightarrow> m \<le> n \<Longrightarrow> n \<le> k \<Longrightarrow> find P [m..<k] = find P [n..<k]"
proof (induction "n - m" arbitrary: m)
  case (Suc d)
  then show ?case
    using Suc.hyps(1) [of "Suc m"] by (simp add: upt_conv_Cons)
qed simp

lemma find_from_hit:
  assumes "c \<notin> set a"
  shows "find_from c (p @ a @ c # b) (length p) = Some (length p + length a)"
proof -
  let ?s = "p @ a @ c # b" and ?n = "length p + length a"
  have "find (\<lambda>i. ?s ! i = c) [length p..<length ?s] = find (\<lambda>i. ?s ! i = c) [?n..<length ?s]"
    using assms by (intro find_upt_skip) (auto simp: nth_append)
  also have "[?n..<length ?s] = ?n # [Suc ?n..<length ?s]"
    by (simp add: upt_conv_Cons del: upt_Suc)
  finally show ?thesis
    by (simp add: find_from_def nth_append)
qed

lemma find_from_miss: "c \<notin> set a \<Longrightarrow> find_from c (p @ a) (length p) = None"
  by (auto simp: find_from_def find_None_iff nth_append)

lemma find_from_Some:
  assumes "find_from c s from = Some i"
  shows "from \<le> i \<and> i < length s \<and> s ! i = c"
proof -
  have "i \<in> set [from..<length s]" "s ! i = c"
    using assms by (auto simp: find_from_def find_Some_iff)
  then show ?thesis by simp
qed

lemma split_at_index:
  "i < length s \<Longrightarrow> s = take i s @ s ! i # drop (i + 1) s"
  by (simp add: id_take_nth_drop)

end
