(* ===== verification/Wire_Envelope.thy ===== *)
theory Wire_Envelope
  imports RM_Prelude
begin

text \<open>
  The envelope of every business message (\<open>envelope_codec.hpp\<close>, \<open>envelope.proto\<close>) and the interface
  of a protocol: what its encoders seal, its decoders open, and no other protocol claims.

  Protobuf is outside the repository: its codec for the messages of a protocol is an argument. A
  protocol is one datatype with a constructor per message; the message type of a parse is the one
  whose number is asked for. What the code relies on is that a parse of a serialised message gives the
  message back; for messages with text this needs valid UTF-8, which the protocol states.
\<close>

record envelope =
  ev_version :: u32
  ev_message_id :: u32
  ev_request_id :: u64
  ev_payload :: "u8 list"

record envelope_codec =
  ec_serialize :: "envelope \<Rightarrow> u8 list option"
  ec_parse :: "u8 list \<Rightarrow> envelope option"

record 'm protobuf =
  pb_serialize :: "'m \<Rightarrow> u8 list option"
  pb_parse :: "u32 \<Rightarrow> u8 list \<Rightarrow> 'm option"
  pb_byte_size :: "'m \<Rightarrow> nat"

type_synonym 'm wire = "envelope_codec \<times> 'm protobuf"

definition envelope_laws :: "envelope_codec \<Rightarrow> bool" where
  "envelope_laws E \<longleftrightarrow> (\<forall>e bytes. ec_serialize E e = Some bytes \<longrightarrow> ec_parse E bytes = Some e)"

definition protobuf_laws :: "('m \<Rightarrow> u32) \<Rightarrow> ('m \<Rightarrow> bool) \<Rightarrow> 'm protobuf \<Rightarrow> bool" where
  "protobuf_laws kind text_ok P \<longleftrightarrow>
     (\<forall>m bytes. pb_serialize P m = Some bytes \<and> text_ok m \<longrightarrow> pb_parse P (kind m) bytes = Some m) \<and>
     (\<forall>k bytes m. pb_parse P k bytes = Some m \<longrightarrow> kind m = k)"

definition int_max :: nat where
  "int_max = 2147483647"

definition edge_protocol_version :: u32 where
  "edge_protocol_version = 1"

definition parse_envelope :: "envelope_codec \<Rightarrow> u8 list \<Rightarrow> envelope option" where
  "parse_envelope E payload =
     (if int_max < length payload then None
      else case ec_parse E payload of
             None \<Rightarrow> None
           | Some e \<Rightarrow> if ev_version e \<noteq> edge_protocol_version then None else Some e)"

definition encode_message :: "'m wire \<Rightarrow> 'm \<Rightarrow> u32 \<Rightarrow> u64 \<Rightarrow> error + u8 list" where
  "encode_message W m message_id request_id =
     (case pb_serialize (snd W) m of
        None \<Rightarrow> Inl (Runtime_error ''failed to serialize protobuf message'')
      | Some serialized \<Rightarrow>
          (case ec_serialize (fst W)
              \<lparr>ev_version = edge_protocol_version, ev_message_id = message_id,
               ev_request_id = request_id, ev_payload = serialized\<rparr> of
             None \<Rightarrow> Inl (Runtime_error ''failed to serialize protobuf envelope'')
           | Some bytes \<Rightarrow> Inr bytes))"

definition decode_message :: "'m wire \<Rightarrow> u8 list \<Rightarrow> u32 \<Rightarrow> 'm option" where
  "decode_message W payload expected =
     (case parse_envelope (fst W) payload of
        None \<Rightarrow> None
      | Some e \<Rightarrow>
          if ev_message_id e \<noteq> expected \<or> int_max < length (ev_payload e) then None
          else pb_parse (snd W) expected (ev_payload e))"

text \<open>The size limit of a sealed message that fits the frames of the transports.\<close>

definition wire_laws :: "('m \<Rightarrow> u32) \<Rightarrow> ('m \<Rightarrow> bool) \<Rightarrow> 'm wire \<Rightarrow> bool" where
  "wire_laws kind text_ok W \<longleftrightarrow> envelope_laws (fst W) \<and> protobuf_laws kind text_ok (snd W) \<and>
     (\<forall>e bytes. ec_serialize (fst W) e = Some bytes \<longrightarrow> length (ev_payload e) \<le> length bytes)"

lemma encode_message_Inr:
  "encode_message W m k r = Inr bytes \<longleftrightarrow>
   (\<exists>payload. pb_serialize (snd W) m = Some payload \<and>
     ec_serialize (fst W) \<lparr>ev_version = edge_protocol_version, ev_message_id = k, ev_request_id = r,
       ev_payload = payload\<rparr> = Some bytes)"
  by (auto simp: encode_message_def split: option.splits)

lemma parse_envelope_encoded:
  assumes "wire_laws kind text_ok W" "encode_message W m k r = Inr bytes" "length bytes \<le> int_max"
  shows "\<exists>payload. parse_envelope (fst W) bytes = Some \<lparr>ev_version = edge_protocol_version, ev_message_id = k,
      ev_request_id = r, ev_payload = payload\<rparr> \<and> pb_serialize (snd W) m = Some payload \<and>
      length payload \<le> int_max"
proof -
  obtain payload where p: "pb_serialize (snd W) m = Some payload"
    "ec_serialize (fst W) \<lparr>ev_version = edge_protocol_version, ev_message_id = k, ev_request_id = r,
       ev_payload = payload\<rparr> = Some bytes"
    using assms(2) by (auto simp: encode_message_Inr)
  with assms(1) have "ec_parse (fst W) bytes = Some \<lparr>ev_version = edge_protocol_version, ev_message_id = k,
      ev_request_id = r, ev_payload = payload\<rparr>" "length payload \<le> length bytes"
    by (fastforce simp: wire_laws_def envelope_laws_def)+
  with p(1) assms(3) show ?thesis by (auto simp: parse_envelope_def)
qed

lemma decode_sealed:
  assumes "wire_laws kind text_ok W" "encode_message W m (kind m) r = Inr bytes" "length bytes \<le> int_max"
    and "text_ok m"
  shows "decode_message W bytes (kind m) = Some m"
proof -
  obtain payload where "parse_envelope (fst W) bytes = Some \<lparr>ev_version = edge_protocol_version,
      ev_message_id = kind m, ev_request_id = r, ev_payload = payload\<rparr>" "pb_serialize (snd W) m = Some payload"
    "length payload \<le> int_max"
    using parse_envelope_encoded [OF assms(1-3)] by auto
  with assms(1,4) show ?thesis by (simp add: decode_message_def wire_laws_def protobuf_laws_def)
qed

lemma decode_message_kind:
  "wire_laws kind text_ok W \<Longrightarrow> decode_message W bytes k = Some m \<Longrightarrow> kind m = k"
  by (auto simp: decode_message_def wire_laws_def protobuf_laws_def split: option.splits if_splits)

lemma decode_message_envelope:
  "decode_message W bytes k = Some m \<Longrightarrow> \<exists>e. parse_envelope (fst W) bytes = Some e \<and> ev_message_id e = k"
  by (auto simp: decode_message_def split: option.splits if_splits)

section \<open>Checked messages\<close>

text \<open>The encoder and decoder of the protocols that validate their messages and bound their size;
  they differ in the texts of their exceptions.\<close>

definition envelope_max :: nat where
  "envelope_max = 64 * 1024"

definition encode_checked ::
  "string \<Rightarrow> string \<Rightarrow> 'm wire \<Rightarrow> 'm \<Rightarrow> u32 \<Rightarrow> u64 \<Rightarrow> ('m \<Rightarrow> u64 \<Rightarrow> bool) \<Rightarrow> error + u8 list" where
  "encode_checked invalid too_large W m number request_id validator =
     (if envelope_max < pb_byte_size (snd W) m \<or> \<not> validator m request_id
      then Inl (Invalid_argument invalid)
      else case encode_message W m number request_id of
             Inl e \<Rightarrow> Inl e
           | Inr payload \<Rightarrow>
               if envelope_max < length payload
               then Inl (Invalid_argument too_large)
               else Inr payload)"

definition decode_checked ::
  "'m wire \<Rightarrow> u8 list \<Rightarrow> u32 \<Rightarrow> ('m \<Rightarrow> u64 \<Rightarrow> bool) \<Rightarrow> 'm option" where
  "decode_checked W payload number validator =
     (if envelope_max < length payload then None
      else case parse_envelope (fst W) payload of
             None \<Rightarrow> None
           | Some e \<Rightarrow>
               if ev_message_id e \<noteq> number then None
               else case decode_message W payload number of
                      None \<Rightarrow> None
                    | Some m \<Rightarrow> if \<not> validator m (ev_request_id e) then None else Some m)"

lemma encode_checked_Inr:
  "encode_checked invalid too_large W m number r validator = Inr bytes \<longleftrightarrow>
   pb_byte_size (snd W) m \<le> envelope_max \<and> validator m r \<and>
   encode_message W m number r = Inr bytes \<and> length bytes \<le> envelope_max"
  by (auto simp: encode_checked_def split: sum.splits)

lemma decode_checked_Some:
  "decode_checked W bytes number validator = Some m \<longleftrightarrow>
   length bytes \<le> envelope_max \<and> decode_message W bytes number = Some m \<and>
   (\<exists>e. parse_envelope (fst W) bytes = Some e \<and> ev_message_id e = number \<and> validator m (ev_request_id e))"
  by (auto simp: decode_checked_def split: option.splits)

lemma decode_checked_encoded:
  assumes "wire_laws kind text_ok W" "encode_checked invalid too_large W m (kind m) r validator = Inr bytes" "text_ok m"
  shows "decode_checked W bytes (kind m) validator = Some m"
proof -
  have e: "encode_message W m (kind m) r = Inr bytes" "length bytes \<le> envelope_max" "validator m r"
    using assms(2) by (simp_all add: encode_checked_Inr)
  then have "length bytes \<le> int_max" by (simp add: envelope_max_def int_max_def)
  with decode_sealed [OF assms(1) e(1) _ assms(3)] parse_envelope_encoded [OF assms(1) e(1)] e(2,3)
  show ?thesis by (auto simp: decode_checked_Some)
qed

text \<open>The number of a message in a range, as the checked protocols look it up.\<close>

definition ranged_message_id :: "envelope_codec \<Rightarrow> u32 \<Rightarrow> u32 \<Rightarrow> u8 list \<Rightarrow> u32 option" where
  "ranged_message_id E first final payload =
     (if envelope_max < length payload then None
      else case parse_envelope E payload of
             None \<Rightarrow> None
           | Some e \<Rightarrow>
               if ev_message_id e < first \<or> final < ev_message_id e then None else Some (ev_message_id e))"

definition ranged_request_id :: "envelope_codec \<Rightarrow> u32 \<Rightarrow> u32 \<Rightarrow> u8 list \<Rightarrow> u64 option" where
  "ranged_request_id E first final payload =
     (case ranged_message_id E first final payload of
        None \<Rightarrow> None
      | Some _ \<Rightarrow> map_option ev_request_id (parse_envelope E payload))"

lemma ranged_encoded:
  assumes "wire_laws kind text_ok W" "encode_checked invalid too_large W m (kind m) r validator = Inr bytes"
    and "first \<le> kind m" "kind m \<le> final"
  shows "ranged_message_id (fst W) first final bytes = Some (kind m) \<and>
    ranged_request_id (fst W) first final bytes = Some r"
proof -
  have e: "encode_message W m (kind m) r = Inr bytes" "length bytes \<le> envelope_max"
    using assms(2) by (simp_all add: encode_checked_Inr)
  then have "length bytes \<le> int_max" by (simp add: envelope_max_def int_max_def)
  with parse_envelope_encoded [OF assms(1) e(1)] e(2) assms(3,4) show ?thesis
    by (auto simp: ranged_message_id_def ranged_request_id_def)
qed

lemma ranged_number:
  "ranged_message_id E first final bytes = Some k \<Longrightarrow> k \<in> {first..final} \<and>
   (\<exists>e. parse_envelope E bytes = Some e \<and> ev_message_id e = k)"
  by (auto simp: ranged_message_id_def split: option.splits if_splits)

lemma checked_kind: "wire_laws kind text_ok W \<Longrightarrow> decode_checked W bytes k validator = Some m \<Longrightarrow> kind m = k"
  by (auto simp: decode_checked_Some intro: decode_message_kind)

section \<open>The interface of a protocol\<close>

text \<open>\<open>seal\<close> is the family of encoders, \<open>unseal\<close> that of decoders, \<open>claimed\<close> the function that
  recognises the messages of the protocol by their number, and \<open>asked\<close> the one that reads the
  number of the request.\<close>

locale message_protocol =
  fixes kind :: "'m \<Rightarrow> u32"
    and lawful :: "'m wire \<Rightarrow> bool"
    and good :: "'m \<Rightarrow> bool"
    and numbers :: "u32 set"
    and seal :: "'m wire \<Rightarrow> 'm \<Rightarrow> u64 \<Rightarrow> error + u8 list"
    and unseal :: "'m wire \<Rightarrow> u32 \<Rightarrow> u8 list \<Rightarrow> 'm option"
    and claimed :: "envelope_codec \<Rightarrow> u8 list \<Rightarrow> u32 option"
    and asked :: "envelope_codec \<Rightarrow> u8 list \<Rightarrow> u64 option"
  assumes sealed_opens:
      "lawful W \<Longrightarrow> good m \<Longrightarrow> seal W m r = Inr bytes \<Longrightarrow> length bytes \<le> int_max \<Longrightarrow>
       unseal W (kind m) bytes = Some m"
    and sealed_claimed:
      "lawful W \<Longrightarrow> seal W m r = Inr bytes \<Longrightarrow> length bytes \<le> int_max \<Longrightarrow>
       claimed (fst W) bytes = Some (kind m) \<and> asked (fst W) bytes = Some r"
    and opened_kind: "lawful W \<Longrightarrow> unseal W k bytes = Some m \<Longrightarrow> kind m = k"
    and claimed_number: "claimed E bytes = Some k \<Longrightarrow> k \<in> numbers \<and>
       (\<exists>e. parse_envelope E bytes = Some e \<and> ev_message_id e = k)"
begin

text \<open>A receiver looks at the number and calls the decoder for it.\<close>

definition receive :: "'m wire \<Rightarrow> u8 list \<Rightarrow> 'm option" where
  "receive W bytes = (case claimed (fst W) bytes of None \<Rightarrow> None | Some k \<Rightarrow> unseal W k bytes)"

lemma received:
  assumes "lawful W" "good m" "seal W m r = Inr bytes" "length bytes \<le> int_max"
  shows "receive W bytes = Some m \<and> asked (fst W) bytes = Some r"
  using sealed_opens [OF assms] sealed_claimed [OF assms(1,3,4)] by (simp add: receive_def)

lemma unmistakable:
  assumes "lawful W" "good m" "good m'" "seal W m r = Inr bytes" "seal W m' r' = Inr bytes" "length bytes \<le> int_max"
  shows "m = m' \<and> r = r'"
  using received [OF assms(1,2,4,6)] received [OF assms(1,3,5,6)] by simp

lemma not_in_another:
  assumes "claimed E bytes = Some k" "parse_envelope E bytes = Some e" "ev_message_id e \<notin> numbers"
  shows False
  using claimed_number [OF assms(1)] assms(2,3) by auto

end

end
