(* ===== verification/Scene_Messages.thy ===== *)
theory Scene_Messages
  imports RM_Prelude
begin

text \<open>
  The messages between Realm and Scene (\<open>scene.proto\<close>, \<open>scene_internal.proto\<close>) and their validation
  (\<open>scene_protocol_validation.hpp\<close>, \<open>scene_internal_protocol.cpp\<close>). A message is a record with the
  fields of the schema, a sub-message an option; the accessor of an absent one gives its
  default. The protobuf enumerations are open, so each has a constructor for any other number.
  Coordinates are 32-bit signed in the schema and mathematical integers here: every location that
  passes validation lies between 0 and 10000.
\<close>

datatype scene_operation =
  Op_unspecified | Op_prepare | Op_propose_move | Op_confirm | Op_activate | Op_snapshot | Op_remove |
  Op_set_draining | Op_status | Op_other nat

datatype scene_status =
  St_unspecified | St_ok | St_invalid | St_stale_binding | St_busy | St_draining | St_not_found |
  St_unavailable | St_other nat

datatype drain_phase =
  Drain_unspecified | Drain_idle | Drain_running | Drain_complete | Drain_failed | Drain_other nat

datatype scene_event_kind = Kind_unspecified | Kind_join | Kind_move | Kind_leave | Kind_other nat

record scene_location =
  sl_shard :: u64
  sl_x :: int
  sl_y :: int

record scene_route =
  ro_realm :: u32
  ro_character :: u64
  ro_epoch :: u64
  ro_session :: u64
  ro_shard :: u64
  ro_version :: u64

record scene_member =
  me_character :: u64
  me_epoch :: u64
  me_location :: "scene_location option"

record scene_snapshot =
  sn_shard :: u64
  sn_incarnation :: string
  sn_event_seq :: u64
  sn_members :: "scene_member list"

record scene_event =
  se_shard :: u64
  se_incarnation :: string
  se_seq :: u64
  se_kind :: scene_event_kind
  se_member :: "scene_member option"

record shard_status =
  sh_realm :: u32
  sh_shard :: u64
  sh_version :: u64
  sh_active :: u32
  sh_prepared :: u32

record scene_request =
  rq_realm_incarnation :: string
  rq_instance :: string
  rq_incarnation :: string
  rq_operation :: scene_operation
  rq_route_opt :: "scene_route option"
  rq_seq :: u64
  rq_location_opt :: "scene_location option"
  rq_digest :: string
  rq_shard :: u64
  rq_draining :: bool
  rq_shard_version :: u64
  rq_drain_id :: string
  rq_drain_timeout :: u32

record scene_reply =
  rp_realm_incarnation :: string
  rp_instance :: string
  rp_incarnation :: string
  rp_operation :: scene_operation
  rp_status :: scene_status
  rp_route :: "scene_route option"
  rp_seq :: u64
  rp_location :: "scene_location option"
  rp_snapshot :: "scene_snapshot option"
  rp_draining :: bool
  rp_active :: u32
  rp_prepared :: u32
  rp_dynamic :: bool
  rp_business_ready :: bool
  rp_drain_phase :: drain_phase
  rp_drain_id :: string
  rp_shards :: "shard_status list"

record scene_push =
  pu_realm_incarnation :: string
  pu_instance :: string
  pu_incarnation :: string
  pu_event :: "scene_event option"

text \<open>The accessors of optional sub-messages.\<close>

definition default_route :: scene_route where
  "default_route = \<lparr>ro_realm = 0, ro_character = 0, ro_epoch = 0, ro_session = 0, ro_shard = 0, ro_version = 0\<rparr>"

definition default_location :: scene_location where
  "default_location = \<lparr>sl_shard = 0, sl_x = 0, sl_y = 0\<rparr>"

definition rq_route :: "scene_request \<Rightarrow> scene_route" where
  "rq_route m = (case rq_route_opt m of None \<Rightarrow> default_route | Some r \<Rightarrow> r)"

definition rq_location :: "scene_request \<Rightarrow> scene_location" where
  "rq_location m = (case rq_location_opt m of None \<Rightarrow> default_location | Some l \<Rightarrow> l)"

section \<open>Validation of values\<close>

definition scene_counter_max :: u64 where
  "scene_counter_max = 0x7FFFFFFFFFFFFFFF"

definition scene_counter :: "u64 \<Rightarrow> bool" where
  "scene_counter v \<longleftrightarrow> 0 < v \<and> v \<le> scene_counter_max"

definition graphic_char :: "char \<Rightarrow> bool" where
  "graphic_char c \<longleftrightarrow> 33 \<le> (of_char c :: nat) \<and> (of_char c :: nat) \<le> 126"

definition scene_identity_text :: "string \<Rightarrow> bool" where
  "scene_identity_text v \<longleftrightarrow> v \<noteq> [] \<and> length v \<le> 128 \<and> list_all graphic_char v"

definition scene_coordinate_max :: int where
  "scene_coordinate_max = 10000"

definition scene_xy :: "int \<Rightarrow> int \<Rightarrow> bool" where
  "scene_xy x y \<longleftrightarrow> 0 \<le> x \<and> x \<le> scene_coordinate_max \<and> 0 \<le> y \<and> y \<le> scene_coordinate_max"

definition valid_scene_location :: "scene_location \<Rightarrow> bool" where
  "valid_scene_location l \<longleftrightarrow> sl_shard l \<noteq> 0 \<and> scene_xy (sl_x l) (sl_y l)"

definition valid_scene_member :: "scene_member \<Rightarrow> bool" where
  "valid_scene_member m \<longleftrightarrow> me_character m \<noteq> 0 \<and> scene_counter (me_epoch m) \<and>
     (case me_location m of None \<Rightarrow> False | Some l \<Rightarrow> valid_scene_location l)"

definition scene_snapshot_members_max :: nat where
  "scene_snapshot_members_max = 16"

definition member_shard :: "scene_member \<Rightarrow> u64" where
  "member_shard m = (case me_location m of None \<Rightarrow> 0 | Some l \<Rightarrow> sl_shard l)"

fun valid_members :: "u64 \<Rightarrow> u64 set \<Rightarrow> scene_member list \<Rightarrow> bool" where
  "valid_members shard seen [] = True"
| "valid_members shard seen (m # ms) =
     (valid_scene_member m \<and> member_shard m = shard \<and> me_character m \<notin> seen \<and>
      valid_members shard (insert (me_character m) seen) ms)"

definition valid_scene_snapshot :: "scene_snapshot \<Rightarrow> bool" where
  "valid_scene_snapshot s \<longleftrightarrow>
     sn_shard s \<noteq> 0 \<and> scene_identity_text (sn_incarnation s) \<and> sn_event_seq s \<le> scene_counter_max \<and>
     length (sn_members s) \<le> scene_snapshot_members_max \<and> valid_members (sn_shard s) {} (sn_members s)"

definition valid_event_kind :: "scene_event_kind \<Rightarrow> bool" where
  "valid_event_kind k \<longleftrightarrow> k \<in> {Kind_join, Kind_move, Kind_leave}"

definition valid_scene_event :: "scene_event \<Rightarrow> bool" where
  "valid_scene_event e \<longleftrightarrow>
     se_shard e \<noteq> 0 \<and> scene_identity_text (se_incarnation e) \<and> scene_counter (se_seq e) \<and>
     valid_event_kind (se_kind e) \<and>
     (case se_member e of None \<Rightarrow> False
      | Some m \<Rightarrow> valid_scene_member m \<and> member_shard m = se_shard e)"

section \<open>Validation of messages\<close>

definition valid_route :: "scene_route \<Rightarrow> bool" where
  "valid_route r \<longleftrightarrow> ro_realm r \<noteq> 0 \<and> ro_character r \<noteq> 0 \<and> scene_counter (ro_epoch r) \<and>
     ro_session r \<noteq> 0 \<and> ro_shard r \<noteq> 0 \<and> ro_version r \<le> scene_counter_max"

definition valid_identity :: "string \<Rightarrow> string \<Rightarrow> string \<Rightarrow> bool" where
  "valid_identity realm_incarnation instance_id incarnation \<longleftrightarrow>
     scene_identity_text realm_incarnation \<and> scene_identity_text instance_id \<and>
     scene_identity_text incarnation"

definition valid_operation :: "scene_operation \<Rightarrow> bool" where
  "valid_operation op \<longleftrightarrow>
     op \<in> {Op_prepare, Op_propose_move, Op_confirm, Op_activate, Op_snapshot, Op_remove,
           Op_set_draining, Op_status}"

definition valid_control_request :: "scene_request \<Rightarrow> bool" where
  "valid_control_request m \<longleftrightarrow>
     \<not> (rq_operation m = Op_status \<and> (rq_draining m \<or> rq_drain_id m \<noteq> [] \<or> rq_drain_timeout m \<noteq> 0)) \<and>
     (rq_drain_id m = [] \<or> scene_identity_text (rq_drain_id m)) \<and> rq_drain_timeout m \<le> 60000 \<and>
     rq_route_opt m = None \<and> rq_location_opt m = None \<and> rq_seq m = 0 \<and> rq_shard m = 0 \<and>
     rq_shard_version m = 0 \<and> rq_digest m = []"

definition valid_scene_request :: "scene_request \<Rightarrow> u64 \<Rightarrow> bool" where
  "valid_scene_request m request_id \<longleftrightarrow>
     request_id \<noteq> 0 \<and> valid_identity (rq_realm_incarnation m) (rq_instance m) (rq_incarnation m) \<and>
     valid_operation (rq_operation m) \<and> rq_shard_version m \<le> scene_counter_max \<and>
     (if rq_operation m = Op_set_draining \<or> rq_operation m = Op_status then valid_control_request m
      else \<not> rq_draining m \<and> rq_drain_id m = [] \<and> rq_drain_timeout m = 0 \<and>
       (if rq_operation m = Op_snapshot
        then rq_shard m \<noteq> 0 \<and> rq_route_opt m = None \<and> rq_location_opt m = None \<and> rq_seq m = 0 \<and>
             rq_digest m = []
        else rq_shard m = 0 \<and> rq_shard_version m = 0 \<and> rq_route_opt m \<noteq> None \<and> valid_route (rq_route m) \<and>
         (if rq_operation m = Op_remove
          then rq_seq m = 0 \<and> rq_digest m = [] \<and> rq_location_opt m = None
          else scene_counter (rq_seq m) \<and> length (rq_digest m) = 32 \<and>
           (if rq_operation m = Op_activate then rq_location_opt m = None
            else rq_location_opt m \<noteq> None \<and> valid_scene_location (rq_location m) \<and>
                 ro_shard (rq_route m) = sl_shard (rq_location m)))))"

definition refusal_empty :: "scene_reply \<Rightarrow> bool" where
  "refusal_empty m \<longleftrightarrow>
     rp_route m = None \<and> rp_location m = None \<and> rp_snapshot m = None \<and> rp_seq m = 0 \<and>
     rp_active m = 0 \<and> \<not> rp_draining m \<and> rp_prepared m = 0 \<and> \<not> rp_dynamic m \<and>
     \<not> rp_business_ready m \<and> rp_drain_phase m = Drain_unspecified \<and> rp_drain_id m = [] \<and>
     rp_shards m = []"

fun valid_shards :: "u64 set \<Rightarrow> u32 \<Rightarrow> u32 \<Rightarrow> shard_status list \<Rightarrow> (u32 \<times> u32) option" where
  "valid_shards seen active prepared [] = Some (active, prepared)"
| "valid_shards seen active prepared (s # ss) =
     (if sh_realm s = 0 \<or> sh_shard s = 0 \<or> \<not> scene_counter (sh_version s) \<or> 16 < sh_active s \<or>
         16 < sh_prepared s \<or> sh_shard s \<in> seen
      then None
      else valid_shards (insert (sh_shard s) seen) (active + sh_active s) (prepared + sh_prepared s) ss)"

definition valid_drain_phase :: "drain_phase \<Rightarrow> bool" where
  "valid_drain_phase p \<longleftrightarrow> p \<in> {Drain_unspecified, Drain_idle, Drain_running, Drain_complete, Drain_failed}"

definition valid_control_reply :: "scene_reply \<Rightarrow> bool" where
  "valid_control_reply m \<longleftrightarrow>
     rp_active m \<le> 32 \<and> rp_prepared m \<le> 32 \<and> length (rp_shards m) \<le> 2 \<and>
     valid_drain_phase (rp_drain_phase m) \<and>
     (rp_drain_id m = [] \<or> scene_identity_text (rp_drain_id m)) \<and>
     (case valid_shards {} 0 0 (rp_shards m) of
        None \<Rightarrow> False
      | Some (active, prepared) \<Rightarrow>
          (rp_dynamic m \<longrightarrow>
             rp_drain_phase m \<noteq> Drain_unspecified \<and> active = rp_active m \<and> prepared = rp_prepared m \<and>
             \<not> (rp_drain_phase m = Drain_idle \<and> rp_draining m) \<and>
             \<not> (rp_drain_phase m \<noteq> Drain_idle \<and> \<not> rp_draining m) \<and>
             \<not> (rp_drain_phase m = Drain_complete \<and>
                (active \<noteq> 0 \<or> prepared \<noteq> 0 \<or> rp_shards m \<noteq> [] \<or> rp_business_ready m)))) \<and>
     rp_route m = None \<and> rp_location m = None \<and> rp_snapshot m = None \<and> rp_seq m = 0"

definition has_valid_snapshot :: "scene_reply \<Rightarrow> bool" where
  "has_valid_snapshot m \<longleftrightarrow> (case rp_snapshot m of None \<Rightarrow> False | Some s \<Rightarrow> valid_scene_snapshot s)"

definition valid_character_reply :: "scene_reply \<Rightarrow> bool" where
  "valid_character_reply m \<longleftrightarrow>
     (case rp_route m of
        None \<Rightarrow> False
      | Some route \<Rightarrow>
          valid_route route \<and>
          (if rp_operation m = Op_remove
           then rp_seq m = 0 \<and> rp_location m = None \<and> rp_snapshot m = None
           else scene_counter (rp_seq m) \<and>
            (if rp_operation m = Op_activate
             then rp_location m = None \<and> has_valid_snapshot m \<and>
                  (case rp_snapshot m of None \<Rightarrow> False | Some s \<Rightarrow> sn_shard s = ro_shard route)
             else rp_snapshot m = None \<and>
                  (case rp_location m of None \<Rightarrow> False
                   | Some l \<Rightarrow> valid_scene_location l \<and> sl_shard l = ro_shard route))))"

definition valid_status :: "scene_status \<Rightarrow> bool" where
  "valid_status s \<longleftrightarrow>
     s \<in> {St_ok, St_invalid, St_stale_binding, St_busy, St_draining, St_not_found, St_unavailable}"

definition valid_scene_reply :: "scene_reply \<Rightarrow> u64 \<Rightarrow> bool" where
  "valid_scene_reply m request_id \<longleftrightarrow>
     request_id \<noteq> 0 \<and> valid_identity (rp_realm_incarnation m) (rp_instance m) (rp_incarnation m) \<and>
     valid_operation (rp_operation m) \<and> valid_status (rp_status m) \<and>
     (if rp_status m \<noteq> St_ok then refusal_empty m
      else if rp_operation m = Op_set_draining \<or> rp_operation m = Op_status then valid_control_reply m
      else \<not> rp_draining m \<and> rp_active m = 0 \<and> rp_prepared m = 0 \<and> \<not> rp_dynamic m \<and>
           \<not> rp_business_ready m \<and> rp_drain_phase m = Drain_unspecified \<and> rp_drain_id m = [] \<and>
           rp_shards m = [] \<and>
       (if rp_operation m = Op_snapshot
        then rp_route m = None \<and> rp_location m = None \<and> rp_seq m = 0 \<and> has_valid_snapshot m
        else valid_character_reply m))"

definition valid_scene_push :: "scene_push \<Rightarrow> u64 \<Rightarrow> bool" where
  "valid_scene_push m request_id \<longleftrightarrow>
     request_id = 0 \<and> valid_identity (pu_realm_incarnation m) (pu_instance m) (pu_incarnation m) \<and>
     (case pu_event m of None \<Rightarrow> False | Some e \<Rightarrow> valid_scene_event e)"

end
