(* ===== verification/Utf8_Text.thy ===== *)
theory Utf8_Text
  imports RM_Prelude
begin

text \<open>
  The two UTF-8 decoders of the game code: the text of a chat message (\<open>valid_chat_text\<close> of
  \<open>chat_protocol.cpp\<close>) and the name of a character (\<open>character_name.cpp\<close>). They are written
  differently; each is shown to accept exactly the encodings of the code points that it allows, with
  the encoder of the standard as the specification.
\<close>

section \<open>The loops\<close>

text \<open>The continuation bytes of one code point.\<close>

fun continuation :: "nat \<Rightarrow> u32 \<Rightarrow> u8 list \<Rightarrow> (u32 \<times> u8 list) option" where
  "continuation 0 point bytes = Some (point, bytes)"
| "continuation (Suc n) point [] = None"
| "continuation (Suc n) point (b # bytes) =
     (if b AND 0xC0 \<noteq> 0x80 then None
      else continuation n (push_bit 6 point OR (ucast b AND 0x3F)) bytes)"

definition refused_point :: "u32 \<Rightarrow> u32 \<Rightarrow> bool" where
  "refused_point minimum point \<longleftrightarrow>
     point < minimum \<or> 0x10FFFF < point \<or> (0xD800 \<le> point \<and> point \<le> 0xDFFF)"

text \<open>What follows a lead byte: the number of continuation bytes, the bits of the lead byte and the
  least code point of that length.\<close>

definition multi_byte :: "(u8 \<Rightarrow> (nat \<times> u32 \<times> u32) option) \<Rightarrow> u8 \<Rightarrow> u8 list \<Rightarrow> (u32 \<times> u8 list) option" where
  "multi_byte lead b bytes =
     (case lead b of
        None \<Rightarrow> None
      | Some (extra, bits, minimum) \<Rightarrow>
          if length bytes < extra then None
          else case continuation extra bits bytes of
                 None \<Rightarrow> None
               | Some (point, rest) \<Rightarrow>
                   if refused_point minimum point then None else Some (point, rest))"

definition chat_lead :: "u8 \<Rightarrow> (nat \<times> u32 \<times> u32) option" where
  "chat_lead b =
     (if 0xC2 \<le> b \<and> b \<le> 0xDF then Some (1, ucast b AND 0x1F, 0x80)
      else if 0xE0 \<le> b \<and> b \<le> 0xEF then Some (2, ucast b AND 0x0F, 0x800)
      else if 0xF0 \<le> b \<and> b \<le> 0xF4 then Some (3, ucast b AND 0x07, 0x10000)
      else None)"

definition name_lead :: "u8 \<Rightarrow> (nat \<times> u32 \<times> u32) option" where
  "name_lead b =
     (if b AND 0xE0 = 0xC0 then Some (1, ucast b AND 0x1F, 0x80)
      else if b AND 0xF0 = 0xE0 then Some (2, ucast b AND 0x0F, 0x800)
      else if b AND 0xF8 = 0xF0 then Some (3, ucast b AND 0x07, 0x10000)
      else None)"

lemma continuation_length [dest]:
  "continuation n point bytes = Some (q, rest) \<Longrightarrow> length rest \<le> length bytes"
  by (induction n point bytes rule: continuation.induct) (auto split: if_splits)

lemma multi_byte_length: "multi_byte lead b bytes = Some (q, rest) \<Longrightarrow> length rest \<le> length bytes"
  by (auto simp: multi_byte_def continuation_length split: option.splits if_splits)

function chat_text_loop :: "u8 list \<Rightarrow> bool" where
  "chat_text_loop [] = True"
| "chat_text_loop (b # bytes) =
     (if b < 0x80 then \<not> (b < 0x20 \<or> b = 0x7F) \<and> chat_text_loop bytes
      else case multi_byte chat_lead b bytes of
             None \<Rightarrow> False
           | Some (point, rest) \<Rightarrow> chat_text_loop rest)"
  by pat_completeness auto
termination
  by (relation "measure length") (auto dest: multi_byte_length)

definition chat_text_bytes_max :: nat where
  "chat_text_bytes_max = 512"

definition valid_chat_text :: "string \<Rightarrow> bool" where
  "valid_chat_text text_bytes \<longleftrightarrow>
     text_bytes \<noteq> [] \<and> length text_bytes \<le> chat_text_bytes_max \<and> chat_text_loop (as_bytes text_bytes)"

definition next_code_point :: "u8 list \<Rightarrow> (u32 \<times> u8 list) option" where
  "next_code_point bytes =
     (case bytes of
        [] \<Rightarrow> None
      | b # rest \<Rightarrow> if b < 0x80 then Some (ucast b, rest) else multi_byte name_lead b rest)"

definition is_control :: "u32 \<Rightarrow> bool" where
  "is_control v \<longleftrightarrow> v < 0x20 \<or> (0x7F \<le> v \<and> v \<le> 0x9F)"

definition is_white_space :: "u32 \<Rightarrow> bool" where
  "is_white_space v \<longleftrightarrow>
     (0x09 \<le> v \<and> v \<le> 0x0D) \<or> v = 0x20 \<or> v = 0x85 \<or> v = 0xA0 \<or> v = 0x1680 \<or>
     (0x2000 \<le> v \<and> v \<le> 0x200A) \<or> v = 0x2028 \<or> v = 0x2029 \<or> v = 0x202F \<or> v = 0x205F \<or> v = 0x3000"

definition max_character_name_code_points :: nat where
  "max_character_name_code_points = 16"

lemma next_code_point_length: "next_code_point bytes = Some (q, rest) \<Longrightarrow> length rest < length bytes"
  by (auto simp: next_code_point_def dest: multi_byte_length split: list.splits if_splits)

text \<open>The loop over the name; \<open>seen\<close>, \<open>first\<close> and \<open>last\<close> are its variables.\<close>

function name_loop :: "u8 list \<Rightarrow> nat \<Rightarrow> u32 \<Rightarrow> u32 \<Rightarrow> bool" where
  "name_loop bytes seen front rear =
     (if bytes = [] then 0 < seen \<and> \<not> is_white_space front \<and> \<not> is_white_space rear
      else case next_code_point bytes of
             None \<Rightarrow> False
           | Some (v, rest) \<Rightarrow>
               \<not> is_control v \<and> \<not> max_character_name_code_points < seen + 1 \<and>
               name_loop rest (seen + 1) (if seen + 1 = 1 then v else front) v)"
  by pat_completeness auto
termination
  by (relation "measure (\<lambda>(bytes, _). length bytes)") (auto dest: next_code_point_length)

declare name_loop.simps [simp del]

definition is_valid_character_name :: "string \<Rightarrow> bool" where
  "is_valid_character_name name \<longleftrightarrow> name_loop (as_bytes name) 0 0 0"

section \<open>The encoder of the standard\<close>

definition scalar_value :: "nat \<Rightarrow> bool" where
  "scalar_value p \<longleftrightarrow> p \<le> 0x10FFFF \<and> \<not> (0xD800 \<le> p \<and> p \<le> 0xDFFF)"

definition utf8 :: "nat \<Rightarrow> nat list" where
  "utf8 p =
     (if p < 0x80 then [p]
      else if p < 0x800 then [192 + p div 64, 128 + p mod 64]
      else if p < 0x10000 then [224 + p div 64 div 64, 128 + p div 64 mod 64, 128 + p mod 64]
      else [240 + p div 64 div 64 div 64, 128 + p div 64 div 64 mod 64, 128 + p div 64 mod 64, 128 + p mod 64])"

section \<open>Bytes as numbers\<close>

lemma byte_bound [simp]: "unat (b :: u8) < 256"
proof -
  have "unat b < 2 ^ LENGTH(8)" by (rule unsigned_less)
  then show ?thesis by simp
qed

lemma int_bytes: "i \<in> set [0..255] \<longleftrightarrow> (0 \<le> i \<and> i \<le> (255 :: int))"
  by (simp only: set_upto) simp

lemma every_byte:
  assumes "\<forall>i \<in> set [0..255]. P (word_of_int i :: u8) i"
  shows "P b (uint b)"
proof -
  have "uint b \<in> set [0..255]" unfolding int_bytes using uint_bounded [of b] by simp
  then show ?thesis using assms by (metis word_of_int_uint)
qed

lemma uint_byte_masks:
  "(b AND 0xC0 = 0x80) = (uint (b :: u8) div 64 = 2)"
  "(b AND 0xE0 = 0xC0) = (192 \<le> uint b \<and> uint b \<le> 223)"
  "(b AND 0xF0 = 0xE0) = (224 \<le> uint b \<and> uint b \<le> 239)"
  "(b AND 0xF8 = 0xF0) = (240 \<le> uint b \<and> uint b \<le> 247)"
  using every_byte [of "\<lambda>b i. (b AND 0xC0 = 0x80) = (i div 64 = 2)" b]
    every_byte [of "\<lambda>b i. (b AND 0xE0 = 0xC0) = (192 \<le> i \<and> i \<le> 223)" b]
    every_byte [of "\<lambda>b i. (b AND 0xF0 = 0xE0) = (224 \<le> i \<and> i \<le> 239)" b]
    every_byte [of "\<lambda>b i. (b AND 0xF8 = 0xF0) = (240 \<le> i \<and> i \<le> 247)" b]
  apply -
  subgoal premises p by (rule p(1)) code_simp
  subgoal premises p by (rule p(2)) code_simp
  subgoal premises p by (rule p(3)) code_simp
  subgoal premises p by (rule p(4)) code_simp
  done

lemma byte_masks:
  "(b AND 0xC0 = 0x80) = (unat (b :: u8) div 64 = 2)"
  "(b AND 0xE0 = 0xC0) = (192 \<le> unat b \<and> unat b \<le> 223)"
  "(b AND 0xF0 = 0xE0) = (224 \<le> unat b \<and> unat b \<le> 239)"
  "(b AND 0xF8 = 0xF0) = (240 \<le> unat b \<and> unat b \<le> 247)"
  unfolding uint_byte_masks using uint_nat [of b] by linarith+

lemma unat_byte_u32: "unat (ucast (b :: u8) :: u32) = unat b"
proof -
  have "unat b < 2 ^ 32" by (rule order.strict_trans [OF byte_bound]) simp
  then show ?thesis by (simp only: unsigned_ucast_eq) (simp add: take_bit_nat_eq_self)
qed

lemma unat_low_bits: "unat (ucast (b :: u8) AND mask k :: u32) = unat b mod 2 ^ k"
  by (simp add: unsigned_take_bit_eq unat_byte_u32 flip: take_bit_eq_mask) (simp add: take_bit_eq_mod)

lemma byte_low_bits:
  "unat (ucast b AND 0x3F :: u32) = unat (b :: u8) mod 64"
  "unat (ucast b AND 0x1F :: u32) = unat b mod 32"
  "unat (ucast b AND 0x0F :: u32) = unat b mod 16"
  "unat (ucast b AND 0x07 :: u32) = unat b mod 8"
  using unat_low_bits [of b 6] unat_low_bits [of b 5] unat_low_bits [of b 4] unat_low_bits [of b 3]
  by (simp_all add: mask_eq_exp_minus_1)

lemma shifted_point:
  assumes "unat p < 2 ^ 26"
  shows "unat (push_bit 6 p OR (ucast (b :: u8) AND 0x3F) :: u32) = unat p * 64 + unat b mod 64"
proof -
  have mask6: "(0x3F :: u32) = mask 6" by (simp add: mask_eq_exp_minus_1)
  have "push_bit 6 p AND (ucast b AND 0x3F) = (0 :: u32)"
    unfolding mask6 by (rule bit_word_eqI) (auto simp: bit_simps)
  then have "push_bit 6 p OR (ucast b AND 0x3F) = push_bit 6 p + (ucast b AND 0x3F)"
    using disjunctive_add_eq_or [of "push_bit 6 p" "ucast b AND 0x3F"] by simp
  moreover have "unat (push_bit 6 p) = unat p * 64"
    using assms by (simp add: push_bit_eq_mult unat_word_ariths(2))
  ultimately show ?thesis using assms byte_low_bits(1) [of b] by (simp add: unat_word_ariths(1))
qed

section \<open>One code point\<close>

text \<open>The loop over the continuation bytes, on numbers.\<close>

definition joined :: "nat \<Rightarrow> u8 list \<Rightarrow> nat" where
  "joined p cs = foldl (\<lambda>a c. a * 64 + unat c mod 64) p cs"

lemma continuation_iff:
  "(unat p + 1) * 64 ^ n \<le> 4294967296 \<Longrightarrow>
   continuation n p bytes = Some (q, rest) \<longleftrightarrow>
   (\<exists>cs. bytes = cs @ rest \<and> length cs = n \<and> (\<forall>c \<in> set cs. unat c div 64 = 2) \<and> unat q = joined (unat p) cs)"
proof (induction n p bytes rule: continuation.induct)
  case (3 n p b bytes)
  let ?p = "push_bit 6 p OR (ucast b AND 0x3F) :: u32"
  have "(unat p + 1) * 64 * 1 \<le> (unat p + 1) * 64 * 64 ^ n" by (rule mult_le_mono2) simp
  also have "\<dots> = (unat p + 1) * 64 ^ Suc n" by (simp only: power_Suc mult.assoc)
  finally have "(unat p + 1) * 64 * 1 \<le> 4294967296" using 3(2) by (rule le_trans)
  then have p: "unat p < 2 ^ 26" by simp
  then have p': "unat ?p = unat p * 64 + unat b mod 64" by (rule shifted_point)
  have "(unat ?p + 1) * 64 ^ n \<le> (unat p + 1) * 64 * 64 ^ n"
  proof (intro mult_le_mono1)
    have "unat b mod 64 < 64" by simp
    then show "unat ?p + 1 \<le> (unat p + 1) * 64" unfolding p' by simp
  qed
  also have "\<dots> = (unat p + 1) * 64 ^ Suc n" by (simp only: power_Suc mult.assoc)
  finally have small: "(unat ?p + 1) * 64 ^ n \<le> 4294967296" using 3(2) by (rule le_trans)
  have IH: "unat b div 64 = 2 \<Longrightarrow> continuation n ?p bytes = Some (q, rest) \<longleftrightarrow>
      (\<exists>cs. bytes = cs @ rest \<and> length cs = n \<and> (\<forall>c \<in> set cs. unat c div 64 = 2) \<and>
        unat q = joined (unat p * 64 + unat b mod 64) cs)"
    using 3(1) [OF _ small] unfolding p' byte_masks by simp
  show ?case
  proof (cases "unat b div 64 = 2")
    case True
    show ?thesis
      by (auto simp: byte_masks True IH joined_def length_Suc_conv intro: exI [of _ "b # _"])
  next
    case False
    then show ?thesis by (auto simp: byte_masks length_Suc_conv)
  qed
qed (auto simp: joined_def word_unat_eq_iff)

text \<open>What the standard says of two, three and four bytes.\<close>

lemma base64_digit:
  fixes q r x :: nat
  assumes "q = r * 64 + x mod 64"
  shows "q div 64 = r" "q mod 64 = x mod 64"
  by (simp_all add: assms)

lemma continuation_byte: "(c :: nat) div 64 = 2 \<Longrightarrow> 128 + c mod 64 = c"
  using div_mult_mod_eq [of c 64] by simp

lemma lead_bits:
  fixes b :: nat
  shows "192 \<le> b \<Longrightarrow> b \<le> 223 \<Longrightarrow> 192 + b mod 32 = b" "224 \<le> b \<Longrightarrow> b \<le> 239 \<Longrightarrow> 224 + b mod 16 = b"
    "240 \<le> b \<Longrightarrow> b \<le> 247 \<Longrightarrow> 240 + b mod 8 = b"
proof -
  have "k + (k + x) mod m = k + x" if "k mod m = 0" "x < m" for k m x :: nat
    using that mod_add_left_eq [of k m x] by simp
  from this [of 192 32] this [of 224 16] this [of 240 8]
  show "192 \<le> b \<Longrightarrow> b \<le> 223 \<Longrightarrow> 192 + b mod 32 = b" "224 \<le> b \<Longrightarrow> b \<le> 239 \<Longrightarrow> 224 + b mod 16 = b"
    "240 \<le> b \<Longrightarrow> b \<le> 247 \<Longrightarrow> 240 + b mod 8 = b"
    by (auto dest!: le_Suc_ex)
qed

lemma two_bytes:
  fixes b c q :: nat
  assumes "q = (b mod 32) * 64 + c mod 64" "c div 64 = 2" "192 \<le> b" "b \<le> 223"
  shows "q < 0x800 \<and> b = 192 + q div 64 \<and> c = 128 + q mod 64"
proof -
  have "192 + b mod 32 = b" using lead_bits assms(3,4) by simp
  moreover have "q < 0x800"
    using assms(1) mod_less_divisor [of 64 c, OF zero_less_numeral] mod_less_divisor [of 32 b, OF zero_less_numeral] by linarith
  ultimately show ?thesis
    using base64_digit [OF assms(1)] continuation_byte [OF assms(2)] by simp
qed

lemma three_bytes:
  fixes b c d q r :: nat
  assumes "q = r * 64 + d mod 64" "r = (b mod 16) * 64 + c mod 64" "c div 64 = 2" "d div 64 = 2"
    and "224 \<le> b" "b \<le> 239"
  shows "q < 0x10000 \<and> b = 224 + q div 64 div 64 \<and> c = 128 + q div 64 mod 64 \<and> d = 128 + q mod 64"
proof -
  note q = base64_digit [OF assms(1)] and r = base64_digit [OF assms(2)]
    and d = continuation_byte [OF assms(3)] continuation_byte [OF assms(4)]
  have b: "224 + b mod 16 = b" using lead_bits assms(5,6) by simp
  have "q < 0x10000"
    using assms(1,2) mod_less_divisor [of 64 d, OF zero_less_numeral] mod_less_divisor [of 64 c, OF zero_less_numeral] mod_less_divisor [of 16 b, OF zero_less_numeral] by linarith
  with q r d b show ?thesis by simp
qed

lemma four_bytes:
  fixes b c d e q r t :: nat
  assumes "q = t * 64 + e mod 64" "t = r * 64 + d mod 64" "r = (b mod 8) * 64 + c mod 64"
    and "c div 64 = 2" "d div 64 = 2" "e div 64 = 2" "240 \<le> b" "b \<le> 247"
  shows "b = 240 + q div 64 div 64 div 64 \<and> c = 128 + q div 64 div 64 mod 64 \<and> d = 128 + q div 64 mod 64 \<and>
    e = 128 + q mod 64"
proof -
  note q = base64_digit [OF assms(1)] base64_digit [OF assms(2)] base64_digit [OF assms(3)]
    and d = continuation_byte [OF assms(4)] continuation_byte [OF assms(5)] continuation_byte [OF assms(6)]
  have b: "240 + b mod 8 = b" using lead_bits assms(7,8) by simp
  with q d show ?thesis by simp
qed

lemma rejoined:
  fixes q :: nat
  shows "q div 64 * 64 + (128 + q mod 64) mod 64 = q" "(128 + q mod 64) div 64 = 2"
  using mod_mult_self4 [of 64 2 "q mod 64"] div_mult_self4 [of 64 2 "q mod 64"] by simp_all

text \<open>A lead byte decoder for which the shortest-form and range checks make up the difference.\<close>

definition proper_lead :: "(u8 \<Rightarrow> (nat \<times> u32 \<times> u32) option) \<Rightarrow> bool" where
  "proper_lead lead \<longleftrightarrow> (\<forall>b.
     (\<forall>extra bits minimum. lead b = Some (extra, bits, minimum) \<longrightarrow>
        (extra = 1 \<and> 192 \<le> unat b \<and> unat b \<le> 223 \<and> unat bits = unat b mod 32 \<and> minimum = 0x80) \<or>
        (extra = 2 \<and> 224 \<le> unat b \<and> unat b \<le> 239 \<and> unat bits = unat b mod 16 \<and> minimum = 0x800) \<or>
        (extra = 3 \<and> 240 \<le> unat b \<and> unat b \<le> 247 \<and> unat bits = unat b mod 8 \<and> minimum = 0x10000)) \<and>
     (194 \<le> unat b \<and> unat b \<le> 244 \<longrightarrow> lead b \<noteq> None))"

lemma name_lead_proper: "proper_lead name_lead"
  unfolding proper_lead_def name_lead_def byte_masks by (auto simp: byte_low_bits)

lemma chat_lead_proper: "proper_lead chat_lead"
  unfolding proper_lead_def chat_lead_def word_le_nat_alt by (auto simp: byte_low_bits)

lemma lead_continuation:
  assumes "proper_lead lead" "lead b = Some (extra, bits, minimum)"
  shows "(unat bits + 1) * 64 ^ extra \<le> 4294967296"
proof -
  have "unat b mod 32 < 32" "unat b mod 16 < 16" "unat b mod 8 < 8" by simp_all
  then show ?thesis using assms by (fastforce simp: proper_lead_def)
qed

lemma multi_byte_decodes:
  assumes "proper_lead lead" "multi_byte lead b bytes = Some (q, rest)"
  shows "0x80 \<le> unat q \<and> scalar_value (unat q) \<and> map unat (b # bytes) = utf8 (unat q) @ map unat rest"
proof -
  obtain extra bits minimum where l: "lead b = Some (extra, bits, minimum)"
    and c: "continuation extra bits bytes = Some (q, rest)" and ok: "\<not> refused_point minimum q"
    using assms(2) by (auto simp: multi_byte_def split: option.splits if_splits)
  then obtain cs where cs: "bytes = cs @ rest" "length cs = extra" "\<forall>c \<in> set cs. unat c div 64 = 2"
    "unat q = joined (unat bits) cs"
    using continuation_iff [OF lead_continuation [OF assms(1) l], of bytes q rest] by auto
  have range: "scalar_value (unat q)" "unat minimum \<le> unat q"
    using ok by (auto simp: refused_point_def scalar_value_def word_less_nat_alt word_le_nat_alt)
  consider "extra = 1" "192 \<le> unat b" "unat b \<le> 223" "unat bits = unat b mod 32" "minimum = 0x80"
    | "extra = 2" "224 \<le> unat b" "unat b \<le> 239" "unat bits = unat b mod 16" "minimum = 0x800"
    | "extra = 3" "240 \<le> unat b" "unat b \<le> 247" "unat bits = unat b mod 8" "minimum = 0x10000"
    using assms(1) l by (auto simp: proper_lead_def)
  then show ?thesis
  proof cases
    case 1
    then obtain c where c: "cs = [c]" using cs(2) by (auto simp: length_Suc_conv)
    have "unat q < 0x800 \<and> unat b = 192 + unat q div 64 \<and> unat c = 128 + unat q mod 64"
      using cs 1 c by (intro two_bytes) (auto simp: joined_def)
    then show ?thesis using range 1 cs(1) c by (simp add: utf8_def)
  next
    case 2
    then obtain c d where c: "cs = [c, d]" using cs(2) by (auto simp: length_Suc_conv numeral_2_eq_2)
    have "unat q < 0x10000 \<and> unat b = 224 + unat q div 64 div 64 \<and> unat c = 128 + unat q div 64 mod 64 \<and>
        unat d = 128 + unat q mod 64"
      using cs 2 c by (intro three_bytes [OF _ refl]) (auto simp: joined_def)
    then show ?thesis using range 2 cs(1) c by (simp add: utf8_def)
  next
    case 3
    then obtain c d e where c: "cs = [c, d, e]" using cs(2) by (auto simp: length_Suc_conv numeral_3_eq_3)
    have "unat b = 240 + unat q div 64 div 64 div 64 \<and> unat c = 128 + unat q div 64 div 64 mod 64 \<and>
        unat d = 128 + unat q div 64 mod 64 \<and> unat e = 128 + unat q mod 64"
      using cs 3 c by (intro four_bytes [OF _ refl refl]) (auto simp: joined_def)
    then show ?thesis using range 3 cs(1) c by (simp add: utf8_def)
  qed
qed

lemma utf8_split:
  assumes "map unat (b # bytes) = utf8 p @ map unat rest" "0x80 \<le> p"
  shows "\<exists>cs. bytes = cs @ (rest :: u8 list) \<and> unat b # map unat cs = utf8 p"
proof -
  have "utf8 p \<noteq> []" by (simp add: utf8_def)
  then obtain ys where ys: "utf8 p = unat b # ys" "map unat bytes = ys @ map unat rest"
    using assms(1) by (cases "utf8 p") auto
  then obtain cs vs where "bytes = cs @ vs" "ys = map unat cs" "map unat rest = map unat vs"
    by (auto simp: map_eq_append_conv)
  moreover have "inj (unat :: u8 \<Rightarrow> nat)" by (rule injI) (simp add: word_unat_eq_iff)
  ultimately show ?thesis using ys by (metis map_injective)
qed

lemma lead_of_bits:
  fixes x :: nat
  shows "x < 32 \<Longrightarrow> (192 + x) mod 32 = x" "x < 16 \<Longrightarrow> (224 + x) mod 16 = x" "x < 8 \<Longrightarrow> (240 + x) mod 8 = x"
  using mod_mult_self4 [of 32 6 x] mod_mult_self4 [of 16 14 x] mod_mult_self4 [of 8 30 x] by simp_all

lemma encoded_shape:
  assumes "unat b # map unat cs = utf8 p" "0x80 \<le> p" "p \<le> 0x10FFFF"
  obtains
    (two) "length cs = 1" "194 \<le> unat b" "unat b \<le> 223" "joined (unat b mod 32) cs = p" "p < 0x800"
      "\<forall>c \<in> set cs. unat (c :: u8) div 64 = 2"
  | (three) "length cs = 2" "224 \<le> unat b" "unat b \<le> 239" "joined (unat b mod 16) cs = p" "0x800 \<le> p"
      "p < 0x10000" "\<forall>c \<in> set cs. unat (c :: u8) div 64 = 2"
  | (four) "length cs = 3" "240 \<le> unat b" "unat b \<le> 244" "joined (unat b mod 8) cs = p" "0x10000 \<le> p"
      "\<forall>c \<in> set cs. unat (c :: u8) div 64 = 2"
proof -
  consider "p < 0x800" | "0x800 \<le> p" "p < 0x10000" | "0x10000 \<le> p" by linarith
  then show thesis
  proof cases
    case 1
    then obtain c where c: "cs = [c]" "unat b = 192 + p div 64" "unat c = 128 + p mod 64"
      using assms(1,2) by (auto simp: utf8_def map_eq_Cons_conv)
    have small: "p div 64 < 32" using 1 by (simp add: less_mult_imp_div_less)
    have large: "2 \<le> p div 64" using div_le_mono [of 128 p 64] assms(2) by simp
    have "joined (unat b mod 32) cs = p"
      by (simp only: c joined_def foldl.simps lead_of_bits(1) [OF small] rejoined)
    moreover have "\<forall>c \<in> set cs. unat c div 64 = 2" by (simp only: c list.set ball_simps rejoined)
    moreover have "length cs = 1" "194 \<le> unat b" "unat b \<le> 223"
      using c(1,2) small large by simp_all
    ultimately show ?thesis using 1 by (intro two)
  next
    case 2
    then obtain c d where c: "cs = [c, d]" "unat b = 224 + p div 64 div 64" "unat c = 128 + p div 64 mod 64"
      "unat d = 128 + p mod 64"
      using assms(1) by (auto simp: utf8_def map_eq_Cons_conv)
    have small: "p div 64 div 64 < 16" using 2 by (simp add: less_mult_imp_div_less)
    have "joined (unat b mod 16) cs = p"
      by (simp only: c joined_def foldl.simps lead_of_bits(2) [OF small] rejoined)
    moreover have "\<forall>c \<in> set cs. unat c div 64 = 2" by (simp only: c list.set ball_simps rejoined)
    moreover have "length cs = 2" "224 \<le> unat b" "unat b \<le> 239"
      using c(1,2) small by simp_all
    ultimately show ?thesis using 2 by (intro three)
  next
    case 3
    then obtain c d e where c: "cs = [c, d, e]" "unat b = 240 + p div 64 div 64 div 64"
      "unat c = 128 + p div 64 div 64 mod 64" "unat d = 128 + p div 64 mod 64" "unat e = 128 + p mod 64"
      using assms(1) by (auto simp: utf8_def map_eq_Cons_conv)
    have "p div 64 div 64 div 64 = p div 262144" by (simp flip: div_mult2_eq)
    then have small: "p div 64 div 64 div 64 \<le> 4" using div_le_mono [OF assms(3), of 262144] by simp
    then have small': "p div 64 div 64 div 64 < 8" by linarith
    have "joined (unat b mod 8) cs = p"
      by (simp only: c joined_def foldl.simps lead_of_bits(3) [OF small'] rejoined)
    moreover have "\<forall>c \<in> set cs. unat c div 64 = 2" by (simp only: c list.set ball_simps rejoined)
    moreover have "length cs = 3" "240 \<le> unat b" "unat b \<le> 244"
      using c(1,2) small by simp_all
    ultimately show ?thesis using 3 by (intro four)
  qed
qed

lemma multi_byte_encoded:
  assumes "proper_lead lead" "0x80 \<le> p" "scalar_value p" "map unat (b # bytes) = utf8 p @ map unat rest"
  shows "multi_byte lead b bytes = Some (word_of_nat p, rest)"
proof -
  obtain cs where cs: "bytes = cs @ rest" "unat b # map unat cs = utf8 p"
    using utf8_split [OF assms(4,2)] by blast
  have q: "unat (word_of_nat p :: u32) = p"
    using assms(3) by (simp add: scalar_value_def unsigned_of_nat take_bit_nat_eq_self)
  have p: "p \<le> 0x10FFFF" using assms(3) by (simp add: scalar_value_def)
  have done_one: ?thesis
    if lead: "lead b = Some (extra, bits, minimum)" and "length cs = extra" "\<forall>c \<in> set cs. unat c div 64 = 2"
      "joined (unat bits) cs = p" "unat minimum \<le> p" for extra bits minimum
  proof -
    have "continuation extra bits bytes = Some (word_of_nat p, rest)"
      unfolding continuation_iff [OF lead_continuation [OF assms(1) lead]] using cs(1) that q by auto
    moreover have "\<not> refused_point minimum (word_of_nat p)"
      using that(5) assms(3) by (auto simp: refused_point_def scalar_value_def word_less_nat_alt word_le_nat_alt q)
    ultimately show ?thesis using lead that(2) cs(1) by (simp add: multi_byte_def)
  qed
  have known: "194 \<le> unat b \<and> unat b \<le> 244"
    using cs(2) assms(2) p by (rule encoded_shape) auto
  then obtain extra bits minimum where lead: "lead b = Some (extra, bits, minimum)"
    using assms(1) by (auto simp: proper_lead_def)
  then have "(extra = 1 \<and> 192 \<le> unat b \<and> unat b \<le> 223 \<and> unat bits = unat b mod 32 \<and> minimum = 0x80) \<or>
      (extra = 2 \<and> 224 \<le> unat b \<and> unat b \<le> 239 \<and> unat bits = unat b mod 16 \<and> minimum = 0x800) \<or>
      (extra = 3 \<and> 240 \<le> unat b \<and> unat b \<le> 247 \<and> unat bits = unat b mod 8 \<and> minimum = 0x10000)"
    using assms(1) by (auto simp: proper_lead_def)
  note kinds = this
  show ?thesis
    by (rule encoded_shape [OF cs(2) assms(2) p]; rule done_one [OF lead]) (use kinds assms(2) in auto)
qed

section \<open>The decoders and the standard\<close>

lemma chat_text_loop_iff:
  "chat_text_loop bytes \<longleftrightarrow>
   (\<exists>ps. map unat bytes = concat (map utf8 ps) \<and> (\<forall>p \<in> set ps. scalar_value p \<and> 0x20 \<le> p \<and> p \<noteq> 0x7F))"
proof
  show "chat_text_loop bytes \<Longrightarrow>
      \<exists>ps. map unat bytes = concat (map utf8 ps) \<and> (\<forall>p \<in> set ps. scalar_value p \<and> 0x20 \<le> p \<and> p \<noteq> 0x7F)"
  proof (induction bytes rule: chat_text_loop.induct)
    case (2 b bytes)
    show ?case
    proof (cases "b < 0x80")
      case True
      then obtain ps where "map unat bytes = concat (map utf8 ps)"
        "\<forall>p \<in> set ps. scalar_value p \<and> 0x20 \<le> p \<and> p \<noteq> 0x7F"
        using 2 by auto
      moreover have "utf8 (unat b) = [unat b]" "scalar_value (unat b) \<and> 0x20 \<le> unat b \<and> unat b \<noteq> 0x7F"
        using True 2(3) by (auto simp: utf8_def scalar_value_def word_less_nat_alt word_unat_eq_iff)
      ultimately show ?thesis by (intro exI [of _ "unat b # ps"]) simp
    next
      case False
      then obtain q rest where m: "multi_byte chat_lead b bytes = Some (q, rest)" and r: "chat_text_loop rest"
        using 2(3) by (auto split: option.splits)
      obtain ps where "map unat rest = concat (map utf8 ps)"
        "\<forall>p \<in> set ps. scalar_value p \<and> 0x20 \<le> p \<and> p \<noteq> 0x7F"
        using 2(2) [OF False m refl r] by auto
      then show ?thesis
        using multi_byte_decodes [OF chat_lead_proper m] by (intro exI [of _ "unat q # ps"]) auto
    qed
  qed (rule exI [of _ "[]"], simp)
next
  have "chat_text_loop bytes" if "map unat bytes = concat (map utf8 ps)"
    "\<forall>p \<in> set ps. scalar_value p \<and> 0x20 \<le> p \<and> p \<noteq> 0x7F" for ps
    using that
  proof (induction ps arbitrary: bytes)
    case (Cons p ps)
    have p: "scalar_value p" "0x20 \<le> p" "p \<noteq> 0x7F" using Cons.prems by auto
    have "bytes \<noteq> []" using Cons.prems(1) by (auto simp: utf8_def split: if_splits)
    then obtain b bs where b: "bytes = b # bs" by (cases bytes) auto
    obtain us rest where "bytes = us @ rest" "utf8 p = map unat us" "map unat rest = concat (map utf8 ps)"
      using Cons.prems(1) by (auto simp: map_eq_append_conv)
    note rest = this
    have r: "chat_text_loop rest" using Cons.IH [OF rest(3)] Cons.prems(2) by simp
    show ?case
    proof (cases "p < 0x80")
      case True
      then have "us = [b]" "bs = rest" "unat b = p"
        using rest(1,2) b by (auto simp: utf8_def map_eq_Cons_conv)
      then show ?thesis using r p True b by (auto simp: word_less_nat_alt word_unat_eq_iff)
    next
      case False
      have m: "multi_byte chat_lead b bs = Some (word_of_nat p, rest)"
        using chat_lead_proper _ p(1) by (rule multi_byte_encoded) (use False rest b in auto)
      have "\<not> b < 0x80"
        using m by (auto simp: multi_byte_def chat_lead_def word_less_nat_alt word_le_nat_alt split: if_splits)
      then show ?thesis using m r b by simp
    qed
  qed simp
  then show "\<exists>ps. map unat bytes = concat (map utf8 ps) \<and>
      (\<forall>p \<in> set ps. scalar_value p \<and> 0x20 \<le> p \<and> p \<noteq> 0x7F) \<Longrightarrow> chat_text_loop bytes" by blast
qed

text \<open>The code points that a name may use, and the two places where white space is refused.\<close>

definition name_point :: "nat \<Rightarrow> bool" where
  "name_point p \<longleftrightarrow> scalar_value p \<and> 0x20 \<le> p \<and> \<not> (0x7F \<le> p \<and> p \<le> 0x9F)"

definition white_space_points :: "nat set" where
  "white_space_points = {0x09..0x0D} \<union> {0x20, 0x85, 0xA0, 0x1680} \<union> {0x2000..0x200A} \<union>
     {0x2028, 0x2029, 0x202F, 0x205F, 0x3000}"

lemma is_white_space_iff: "is_white_space v \<longleftrightarrow> unat v \<in> white_space_points"
  by (auto simp: is_white_space_def white_space_points_def word_le_nat_alt word_unat_eq_iff)

lemma name_point_iff: "scalar_value (unat v) \<Longrightarrow> \<not> is_control v \<longleftrightarrow> name_point (unat v)"
  by (auto simp: is_control_def name_point_def word_le_nat_alt word_less_nat_alt)

lemma next_code_point_decodes:
  assumes "next_code_point bytes = Some (v, rest)"
  shows "scalar_value (unat v) \<and> map unat bytes = utf8 (unat v) @ map unat rest"
proof (cases bytes)
  case (Cons b bs)
  show ?thesis
  proof (cases "b < 0x80")
    case True
    then have "v = ucast b" "rest = bs" using assms Cons by (auto simp: next_code_point_def)
    with True show ?thesis
      by (simp add: Cons unat_byte_u32 utf8_def scalar_value_def word_less_nat_alt)
  next
    case False
    then show ?thesis
      using assms multi_byte_decodes [OF name_lead_proper, of b bs v rest] by (simp add: Cons next_code_point_def)
  qed
qed (use assms in \<open>simp add: next_code_point_def\<close>)

lemma next_code_point_encoded:
  assumes "scalar_value p" "map unat bytes = utf8 p @ map unat rest"
  shows "next_code_point bytes = Some (word_of_nat p, rest)"
proof -
  have "bytes \<noteq> []" using assms(2) by (auto simp: utf8_def split: if_splits)
  then obtain b bs where b: "bytes = b # bs" by (cases bytes) auto
  show ?thesis
  proof (cases "p < 0x80")
    case True
    then have p: "unat b = p" and r: "map unat bs = map unat rest" using assms(2) b by (simp_all add: utf8_def)
    have "bs = rest"
      using r by (rule map_injective) (rule injI, simp add: word_unat_eq_iff)
    moreover have "word_of_nat p = (ucast b :: u32)"
      using p True by (simp add: word_unat_eq_iff unat_byte_u32 unsigned_of_nat take_bit_nat_eq_self)
    ultimately show ?thesis using True p by (simp add: b next_code_point_def word_less_nat_alt)
  next
    case False
    have m: "multi_byte name_lead b bs = Some (word_of_nat p, rest)"
      using name_lead_proper _ assms(1) by (rule multi_byte_encoded) (use False assms(2) b in auto)
    then have "\<not> b < 0x80"
      by (auto simp: multi_byte_def name_lead_def byte_masks word_less_nat_alt split: if_splits)
    then show ?thesis using m by (simp add: b next_code_point_def)
  qed
qed

definition good_name :: "nat list \<Rightarrow> nat \<Rightarrow> u32 \<Rightarrow> u32 \<Rightarrow> bool" where
  "good_name ps seen front rear \<longleftrightarrow>
     (\<forall>p \<in> set ps. name_point p) \<and> (ps \<noteq> [] \<longrightarrow> seen + length ps \<le> 16) \<and> 0 < seen + length ps \<and>
     (if seen = 0 \<and> ps \<noteq> [] then hd ps else unat front) \<notin> white_space_points \<and>
     (if ps = [] then unat rear else last ps) \<notin> white_space_points"

lemma good_name_Cons:
  "good_name (unat v # ps) seen front rear \<longleftrightarrow>
   name_point (unat v) \<and> seen < 16 \<and> good_name ps (seen + 1) (if seen + 1 = 1 then v else front) v"
  by (auto simp: good_name_def)

lemma name_loop_iff:
  "name_loop bytes seen front rear \<longleftrightarrow>
   (\<exists>ps. map unat bytes = concat (map utf8 ps) \<and> good_name ps seen front rear)"
proof (induction bytes seen front rear rule: name_loop.induct)
  case (1 bytes seen front rear)
  show ?case
  proof (cases "bytes = []")
    case True
    have "utf8 p \<noteq> []" for p by (simp add: utf8_def)
    then have "[] = concat (map utf8 ps) \<longleftrightarrow> ps = []" for ps by (cases ps) auto
    then show ?thesis
      using True by (simp add: name_loop.simps [of "[]"] good_name_def is_white_space_iff)
  next
    case False
    have step: "name_loop bytes seen front rear \<longleftrightarrow> (\<exists>v rest. next_code_point bytes = Some (v, rest) \<and>
        \<not> is_control v \<and> seen < 16 \<and> name_loop rest (seen + 1) (if seen + 1 = 1 then v else front) v)"
      using False by (auto simp: name_loop.simps [of bytes] max_character_name_code_points_def split: option.splits)
    show ?thesis
    proof
      assume "name_loop bytes seen front rear"
      then obtain v rest ps where v: "next_code_point bytes = Some (v, rest)" "\<not> is_control v" "seen < 16"
        "map unat rest = concat (map utf8 ps)" "good_name ps (seen + 1) (if seen + 1 = 1 then v else front) v"
        using step 1(1) [OF False] by auto
      then show "\<exists>ps. map unat bytes = concat (map utf8 ps) \<and> good_name ps seen front rear"
        using next_code_point_decodes [OF v(1)] name_point_iff
        by (intro exI [of _ "unat v # ps"]) (simp add: good_name_Cons)
    next
      assume "\<exists>ps. map unat bytes = concat (map utf8 ps) \<and> good_name ps seen front rear"
      then obtain p ps where p: "map unat bytes = utf8 p @ concat (map utf8 ps)" "good_name (p # ps) seen front rear"
        using False by (metis concat.simps(1) list.exhaust list.map(1) map_is_Nil_conv concat.simps(2) list.map(2))
      then have scalar: "scalar_value p" by (simp add: good_name_def name_point_def)
      obtain us rest where r: "map unat rest = concat (map utf8 ps)" "map unat bytes = utf8 p @ map unat (rest :: u8 list)"
        using p(1) by (auto simp: map_eq_append_conv)
      define v where "v = (word_of_nat p :: u32)"
      have v: "p = unat v" using scalar by (simp add: v_def scalar_value_def unsigned_of_nat take_bit_nat_eq_self)
      have n: "next_code_point bytes = Some (v, rest)"
        using next_code_point_encoded [OF scalar r(2)] by (simp add: v_def)
      moreover have "name_point (unat v)" "seen < 16" "good_name ps (seen + 1) (if seen + 1 = 1 then v else front) v"
        using p(2) unfolding v good_name_Cons by auto
      moreover have "\<not> is_control v" using \<open>name_point (unat v)\<close> scalar name_point_iff v by simp
      ultimately show "name_loop bytes seen front rear"
        using step 1(1) [OF False n] r(1) by auto
    qed
  qed
qed

section \<open>What is accepted\<close>

lemma chat_text_exact:
  "valid_chat_text t \<longleftrightarrow> t \<noteq> [] \<and> length t \<le> 512 \<and>
   (\<exists>ps. map of_char t = concat (map utf8 ps) \<and> (\<forall>p \<in> set ps. scalar_value p \<and> 0x20 \<le> p \<and> p \<noteq> 0x7F))"
proof -
  have "map unat (as_bytes t) = map of_char t"
    by (simp add: as_bytes_def unsigned_of_nat take_bit_nat_eq_self)
  then show ?thesis
    by (simp add: valid_chat_text_def chat_text_bytes_max_def chat_text_loop_iff)
qed

lemma character_name_exact:
  "is_valid_character_name name \<longleftrightarrow>
   (\<exists>ps. map of_char name = concat (map utf8 ps) \<and> ps \<noteq> [] \<and> length ps \<le> 16 \<and>
     (\<forall>p \<in> set ps. name_point p) \<and> hd ps \<notin> white_space_points \<and> last ps \<notin> white_space_points)"
proof -
  have "map unat (as_bytes name) = map of_char name"
    by (simp add: as_bytes_def unsigned_of_nat take_bit_nat_eq_self)
  then show ?thesis
    by (auto simp: is_valid_character_name_def name_loop_iff good_name_def)
qed

text \<open>
  C37. The two hand-written UTF-8 decoders agree with the standard: the text of a chat message is accepted
  exactly if it is the shortest-form encoding of Unicode scalar values without ASCII control
  characters, of 1 to 512 bytes; the name of a character exactly if it is the encoding of 1 to 16 scalar
  values without control characters that neither begins nor ends with white space.
\<close>

theorem text_checks_exact:
  "(valid_chat_text t \<longleftrightarrow> t \<noteq> [] \<and> length t \<le> 512 \<and>
     (\<exists>ps. map of_char t = concat (map utf8 ps) \<and> list_all (\<lambda>p. scalar_value p \<and> 0x20 \<le> p \<and> p \<noteq> 0x7F) ps)) \<and>
   (is_valid_character_name name \<longleftrightarrow>
     (\<exists>ps. map of_char name = concat (map utf8 ps) \<and> ps \<noteq> [] \<and> length ps \<le> 16 \<and>
       list_all name_point ps \<and> hd ps \<notin> white_space_points \<and> last ps \<notin> white_space_points))"
  by (simp only: chat_text_exact character_name_exact list_all_iff simp_thms)

end
