(* ===== verification/Wire_Protocols.thy ===== *)
theory Wire_Protocols
  imports Wire_Envelope Scene_Messages Utf8_Text
begin

text \<open>
  The protocols of the client and of the scene connection: edge (\<open>edge_protocol.cpp\<close>), realm
  (\<open>realm_protocol.cpp\<close>), scene (\<open>scene_protocol.cpp\<close>) and scene-internal
  (\<open>scene_internal_protocol.cpp\<close>). The overloaded encoders of a protocol are one function over its
  messages, and the decoders one function of the number of the message type.
\<close>

definition utf8_text :: "string \<Rightarrow> bool" where
  "utf8_text s \<longleftrightarrow> (\<exists>ps. map of_char s = concat (map utf8 ps) \<and> list_all scalar_value ps)"

lemma ascii_utf8:
  assumes "list_all (\<lambda>c. (of_char c :: nat) < 128) s"
  shows "utf8_text s"
proof -
  have "concat (map (\<lambda>c. utf8 (of_char c)) s) = map of_char s"
    using assms by (induction s) (simp_all add: utf8_def)
  then have "map of_char s = concat (map utf8 (map of_char s))" by (simp add: comp_def)
  moreover have "list_all scalar_value (map of_char s)"
    using assms by (auto simp: list_all_iff scalar_value_def)
  ultimately show ?thesis unfolding utf8_text_def by blast
qed

section \<open>Edge\<close>

datatype wire_transport = Transport_unspecified | Transport_quic | Transport_tls_tcp | Transport_other nat

record wire_endpoint =
  we_address :: string
  we_port :: u32
  we_protocol :: wire_transport
  we_priority :: u32

datatype edge_message =
  Heartbeat_request
| Heartbeat_response
| Edge_attach string string
| Edge_attach_accepted u64
| Enter_realm_granted "u8 list" "wire_endpoint list"
| Enter_realm "u8 list"
| Enter_realm_accepted u64
| Edge_error u32 string u32

fun edge_kind :: "edge_message \<Rightarrow> u32" where
  "edge_kind Heartbeat_request = 1105"
| "edge_kind Heartbeat_response = 1106"
| "edge_kind (Edge_attach _ _) = 1301"
| "edge_kind (Edge_attach_accepted _) = 1302"
| "edge_kind (Enter_realm_granted _ _) = 1303"
| "edge_kind (Enter_realm _) = 1304"
| "edge_kind (Enter_realm_accepted _) = 1305"
| "edge_kind (Edge_error _ _ _) = 1999"

fun edge_texts_ok :: "edge_message \<Rightarrow> bool" where
  "edge_texts_ok (Edge_attach token grant) = (utf8_text token \<and> utf8_text grant)"
| "edge_texts_ok (Enter_realm_granted _ endpoints) = (\<forall>e \<in> set endpoints. utf8_text (we_address e))"
| "edge_texts_ok (Edge_error _ explanation _) = utf8_text explanation"
| "edge_texts_ok _ = True"

definition is_known_message_id :: "u32 \<Rightarrow> bool" where
  "is_known_message_id v \<longleftrightarrow> v \<in> {1105, 1106, 1301, 1302, 1303, 1304, 1305, 1999}"

definition parse_edge_envelope :: "envelope_codec \<Rightarrow> u8 list \<Rightarrow> envelope option" where
  "parse_edge_envelope E payload =
     (case parse_envelope E payload of
        None \<Rightarrow> None
      | Some e \<Rightarrow> if \<not> is_known_message_id (ev_message_id e) then None else Some e)"

definition edge_message_id :: "envelope_codec \<Rightarrow> u8 list \<Rightarrow> u32 option" where
  "edge_message_id E payload = map_option ev_message_id (parse_edge_envelope E payload)"

definition edge_request_id :: "envelope_codec \<Rightarrow> u8 list \<Rightarrow> u64 option" where
  "edge_request_id E payload = map_option ev_request_id (parse_edge_envelope E payload)"

definition encode_edge :: "edge_message wire \<Rightarrow> edge_message \<Rightarrow> u64 \<Rightarrow> error + u8 list" where
  "encode_edge W m request_id = encode_message W m (edge_kind m) request_id"

definition decode_edge :: "edge_message wire \<Rightarrow> u32 \<Rightarrow> u8 list \<Rightarrow> edge_message option" where
  "decode_edge W number payload = decode_message W payload number"

lemma edge_kind_known: "is_known_message_id (edge_kind m)"
  by (cases m) (simp_all add: is_known_message_id_def)

section \<open>Realm\<close>

record character_summary =
  cs_character :: u64
  cs_name :: string
  cs_exp :: u64
  cs_level :: u32

datatype realm_message =
  List_characters
| Character_list "character_summary list" u64
| Create_character string
| Character_created "character_summary option"
| Select_character u64
| Character_selected "character_summary option" u64
| Train_message u64
| Train_result u64 u64 u32 u64 bool
| Session_displaced

fun realm_kind :: "realm_message \<Rightarrow> u32" where
  "realm_kind List_characters = 1401"
| "realm_kind (Character_list _ _) = 1402"
| "realm_kind (Create_character _) = 1403"
| "realm_kind (Character_created _) = 1404"
| "realm_kind (Select_character _) = 1405"
| "realm_kind (Character_selected _ _) = 1406"
| "realm_kind (Train_message _) = 1407"
| "realm_kind (Train_result _ _ _ _ _) = 1408"
| "realm_kind Session_displaced = 1409"

fun realm_texts_ok :: "realm_message \<Rightarrow> bool" where
  "realm_texts_ok (Character_list cs _) = (\<forall>c \<in> set cs. utf8_text (cs_name c))"
| "realm_texts_ok (Create_character name) = utf8_text name"
| "realm_texts_ok (Character_created c) = (\<forall>s \<in> set_option c. utf8_text (cs_name s))"
| "realm_texts_ok (Character_selected c _) = (\<forall>s \<in> set_option c. utf8_text (cs_name s))"
| "realm_texts_ok _ = True"

definition is_realm_message_id :: "u32 \<Rightarrow> bool" where
  "is_realm_message_id v \<longleftrightarrow> v \<in> {1401, 1402, 1403, 1404, 1405, 1406, 1407, 1408, 1409}"

definition parse_realm_envelope :: "envelope_codec \<Rightarrow> u8 list \<Rightarrow> envelope option" where
  "parse_realm_envelope E payload =
     (case parse_envelope E payload of
        None \<Rightarrow> None
      | Some e \<Rightarrow> if \<not> is_realm_message_id (ev_message_id e) then None else Some e)"

definition realm_message_id :: "envelope_codec \<Rightarrow> u8 list \<Rightarrow> u32 option" where
  "realm_message_id E payload = map_option ev_message_id (parse_realm_envelope E payload)"

definition realm_request_id :: "envelope_codec \<Rightarrow> u8 list \<Rightarrow> u64 option" where
  "realm_request_id E payload = map_option ev_request_id (parse_realm_envelope E payload)"

definition encode_realm :: "realm_message wire \<Rightarrow> realm_message \<Rightarrow> u64 \<Rightarrow> error + u8 list" where
  "encode_realm W m request_id = encode_message W m (realm_kind m) request_id"

definition decode_realm :: "realm_message wire \<Rightarrow> u32 \<Rightarrow> u8 list \<Rightarrow> realm_message option" where
  "decode_realm W number payload = decode_message W payload number"

lemma realm_kind_known: "is_realm_message_id (realm_kind m)"
  by (cases m) (simp_all add: is_realm_message_id_def)

section \<open>Scene\<close>

definition encode_scene_message ::
  "'m wire \<Rightarrow> 'm \<Rightarrow> u32 \<Rightarrow> u64 \<Rightarrow> ('m \<Rightarrow> u64 \<Rightarrow> bool) \<Rightarrow> error + u8 list" where
  "encode_scene_message = encode_checked ''invalid scene message'' ''scene envelope exceeds 64KiB''"

definition decode_scene_message ::
  "'m wire \<Rightarrow> u8 list \<Rightarrow> u32 \<Rightarrow> ('m \<Rightarrow> u64 \<Rightarrow> bool) \<Rightarrow> 'm option" where
  "decode_scene_message = decode_checked"

datatype scene_command =
  Cmd_unspecified | Cmd_enter | Cmd_move | Cmd_transfer | Cmd_other nat

datatype scene_phase =
  Phase_unspecified | Phase_outside | Phase_entering | Phase_active | Phase_transferring |
  Phase_unavailable | Phase_other nat

record command_result =
  cr_kind :: scene_command
  cr_seq :: u64
  cr_location :: "scene_location option"
  cr_epoch :: u64
  cr_replayed :: bool

record scene_state =
  st_phase :: scene_phase
  st_last_seq :: u64
  st_last_result :: "command_result option"
  st_location :: "scene_location option"
  st_epoch :: u64
  st_snapshot :: "scene_snapshot option"

datatype scene_message =
  Enter_scene u64
| Command_result_message command_result
| Move_in_scene u64 int int
| Get_scene_state
| Scene_state_message scene_state
| Scene_event_message scene_event
| Transfer_scene u64 u64
| Scene_unavailable u64 u64 u32

fun scene_kind :: "scene_message \<Rightarrow> u32" where
  "scene_kind (Enter_scene _) = 1501"
| "scene_kind (Command_result_message _) = 1502"
| "scene_kind (Move_in_scene _ _ _) = 1503"
| "scene_kind Get_scene_state = 1504"
| "scene_kind (Scene_state_message _) = 1505"
| "scene_kind (Scene_event_message _) = 1506"
| "scene_kind (Transfer_scene _ _) = 1507"
| "scene_kind (Scene_unavailable _ _ _) = 1508"

definition has_valid_location :: "scene_location option \<Rightarrow> bool" where
  "has_valid_location l \<longleftrightarrow> (case l of None \<Rightarrow> False | Some v \<Rightarrow> valid_scene_location v)"

definition valid_scene_result :: "command_result \<Rightarrow> bool" where
  "valid_scene_result r \<longleftrightarrow>
     cr_kind r \<in> {Cmd_enter, Cmd_move, Cmd_transfer} \<and> scene_counter (cr_seq r) \<and>
     scene_counter (cr_epoch r) \<and> has_valid_location (cr_location r)"

definition same_scene_location :: "scene_location \<Rightarrow> scene_location \<Rightarrow> bool" where
  "same_scene_location a b \<longleftrightarrow> sl_shard a = sl_shard b \<and> sl_x a = sl_x b \<and> sl_y a = sl_y b"

definition location_of :: "scene_location option \<Rightarrow> scene_location" where
  "location_of l = (case l of None \<Rightarrow> default_location | Some v \<Rightarrow> v)"

definition valid_last_result :: "scene_state \<Rightarrow> bool" where
  "valid_last_result m \<longleftrightarrow>
     (case st_last_result m of
        None \<Rightarrow> False
      | Some r \<Rightarrow>
          valid_scene_result r \<and> cr_seq r = st_last_seq m \<and> cr_epoch r \<le> st_epoch m \<and>
          st_location m \<noteq> None \<and> same_scene_location (location_of (st_location m)) (location_of (cr_location r)))"

definition valid_scene_state :: "scene_state \<Rightarrow> u64 \<Rightarrow> bool" where
  "valid_scene_state m request_id \<longleftrightarrow>
     request_id \<noteq> 0 \<and>
     st_phase m \<in> {Phase_outside, Phase_entering, Phase_active, Phase_transferring, Phase_unavailable} \<and>
     st_epoch m \<le> scene_counter_max \<and> st_last_seq m \<le> scene_counter_max \<and>
     (if st_last_seq m = 0
      then st_last_result m = None \<and> st_location m = None \<and> st_epoch m = 0
      else valid_last_result m) \<and>
     (case st_snapshot m of
        None \<Rightarrow> True
      | Some s \<Rightarrow> valid_scene_snapshot s \<and> st_location m \<noteq> None \<and>
          sn_shard s = sl_shard (location_of (st_location m))) \<and>
     (st_phase m \<noteq> Phase_active \<or> (st_snapshot m \<noteq> None \<and> st_last_seq m \<noteq> 0))"

fun valid_scene_message :: "scene_message \<Rightarrow> u64 \<Rightarrow> bool" where
  "valid_scene_message (Enter_scene n) request_id = (request_id \<noteq> 0 \<and> scene_counter n)"
| "valid_scene_message (Move_in_scene n x y) request_id = (request_id \<noteq> 0 \<and> scene_counter n \<and> scene_xy x y)"
| "valid_scene_message (Transfer_scene n target) request_id =
     (request_id \<noteq> 0 \<and> scene_counter n \<and> target \<noteq> 0)"
| "valid_scene_message Get_scene_state request_id = (request_id \<noteq> 0)"
| "valid_scene_message (Command_result_message r) request_id = (request_id \<noteq> 0 \<and> valid_scene_result r)"
| "valid_scene_message (Scene_event_message e) request_id = (request_id = 0 \<and> valid_scene_event e)"
| "valid_scene_message (Scene_unavailable shard epoch retry) request_id =
     (request_id = 0 \<and> shard \<noteq> 0 \<and> scene_counter epoch \<and> 0 < retry \<and> retry \<le> 5)"
| "valid_scene_message (Scene_state_message m) request_id = valid_scene_state m request_id"

fun scene_texts_ok :: "scene_message \<Rightarrow> bool" where
  "scene_texts_ok (Scene_state_message m) = (\<forall>s \<in> set_option (st_snapshot m). utf8_text (sn_incarnation s))"
| "scene_texts_ok (Scene_event_message e) = utf8_text (se_incarnation e)"
| "scene_texts_ok _ = True"

definition scene_message_id :: "envelope_codec \<Rightarrow> u8 list \<Rightarrow> u32 option" where
  "scene_message_id E payload = ranged_message_id E 1501 1508 payload"

definition scene_request_id :: "envelope_codec \<Rightarrow> u8 list \<Rightarrow> u64 option" where
  "scene_request_id E payload = ranged_request_id E 1501 1508 payload"

definition encode_scene :: "scene_message wire \<Rightarrow> scene_message \<Rightarrow> u64 \<Rightarrow> error + u8 list" where
  "encode_scene W m request_id = encode_scene_message W m (scene_kind m) request_id valid_scene_message"

definition decode_scene :: "scene_message wire \<Rightarrow> u32 \<Rightarrow> u8 list \<Rightarrow> scene_message option" where
  "decode_scene W number payload = decode_scene_message W payload number valid_scene_message"

section \<open>Scene-internal\<close>

datatype scene_internal_message =
  Internal_request scene_request | Internal_reply scene_reply | Internal_push scene_push

fun scene_internal_kind :: "scene_internal_message \<Rightarrow> u32" where
  "scene_internal_kind (Internal_request _) = 1601"
| "scene_internal_kind (Internal_reply _) = 1602"
| "scene_internal_kind (Internal_push _) = 1603"

fun valid_internal_message :: "scene_internal_message \<Rightarrow> u64 \<Rightarrow> bool" where
  "valid_internal_message (Internal_request m) request_id = valid_scene_request m request_id"
| "valid_internal_message (Internal_reply m) request_id = valid_scene_reply m request_id"
| "valid_internal_message (Internal_push m) request_id = valid_scene_push m request_id"

fun scene_internal_texts_ok :: "scene_internal_message \<Rightarrow> bool" where
  "scene_internal_texts_ok (Internal_request m) =
     (utf8_text (rq_realm_incarnation m) \<and> utf8_text (rq_instance m) \<and> utf8_text (rq_incarnation m) \<and>
      utf8_text (rq_drain_id m))"
| "scene_internal_texts_ok (Internal_reply m) =
     (utf8_text (rp_realm_incarnation m) \<and> utf8_text (rp_instance m) \<and> utf8_text (rp_incarnation m) \<and>
      utf8_text (rp_drain_id m) \<and> (\<forall>s \<in> set_option (rp_snapshot m). utf8_text (sn_incarnation s)))"
| "scene_internal_texts_ok (Internal_push m) =
     (utf8_text (pu_realm_incarnation m) \<and> utf8_text (pu_instance m) \<and> utf8_text (pu_incarnation m) \<and>
      (\<forall>e \<in> set_option (pu_event m). utf8_text (se_incarnation e)))"

definition scene_internal_message_id :: "envelope_codec \<Rightarrow> u8 list \<Rightarrow> u32 option" where
  "scene_internal_message_id E payload = ranged_message_id E 1601 1603 payload"

definition scene_internal_request_id :: "envelope_codec \<Rightarrow> u8 list \<Rightarrow> u64 option" where
  "scene_internal_request_id E payload = ranged_request_id E 1601 1603 payload"

definition encode_scene_internal ::
  "scene_internal_message wire \<Rightarrow> scene_internal_message \<Rightarrow> u64 \<Rightarrow> error + u8 list" where
  "encode_scene_internal W m request_id =
     encode_scene_message W m (scene_internal_kind m) request_id valid_internal_message"

definition decode_scene_internal ::
  "scene_internal_message wire \<Rightarrow> u32 \<Rightarrow> u8 list \<Rightarrow> scene_internal_message option" where
  "decode_scene_internal W number payload =
     decode_scene_message W payload number valid_internal_message"

section \<open>The protocols meet the interface\<close>

lemma identity_text_utf8: "scene_identity_text s \<Longrightarrow> utf8_text s"
  by (rule ascii_utf8) (auto simp: scene_identity_text_def graphic_char_def list_all_iff)

lemma empty_text_utf8 [simp]: "utf8_text []"
  by (simp add: utf8_text_def) (rule exI [of _ "[]"], simp)

lemma scene_message_texts: "valid_scene_message m r \<Longrightarrow> scene_texts_ok m"
  by (cases m)
    (auto simp: valid_scene_state_def valid_scene_snapshot_def valid_scene_event_def intro: identity_text_utf8
      split: option.splits)

lemma scene_internal_texts:
  assumes "valid_internal_message m r"
  shows "scene_internal_texts_ok m"
proof (cases m)
  case (Internal_request x)
  then show ?thesis
    using assms identity_text_utf8
    by (auto simp: valid_scene_request_def valid_identity_def valid_control_request_def split: if_splits)
next
  case (Internal_reply x)
  have ids: "utf8_text (rp_realm_incarnation x)" "utf8_text (rp_instance x)" "utf8_text (rp_incarnation x)"
    using assms identity_text_utf8 by (auto simp: Internal_reply valid_scene_reply_def valid_identity_def)
  have "utf8_text (rp_drain_id x)"
    using assms identity_text_utf8
    by (auto simp: Internal_reply valid_scene_reply_def refusal_empty_def valid_control_reply_def split: if_splits)
  moreover have "\<forall>s \<in> set_option (rp_snapshot x). scene_identity_text (sn_incarnation s)"
    using assms
    by (auto simp: Internal_reply valid_scene_reply_def refusal_empty_def valid_control_reply_def
        has_valid_snapshot_def valid_character_reply_def valid_scene_snapshot_def
        split: if_splits option.splits)
  ultimately show ?thesis using ids identity_text_utf8 by (auto simp: Internal_reply)
next
  case (Internal_push x)
  then show ?thesis
    using assms identity_text_utf8
    by (auto simp: valid_scene_push_def valid_identity_def valid_scene_event_def split: option.splits)
qed

interpretation edge: message_protocol edge_kind "wire_laws edge_kind edge_texts_ok" edge_texts_ok
  "{v. is_known_message_id v}" encode_edge decode_edge edge_message_id edge_request_id
proof unfold_locales
  fix W :: "edge_message wire" and m r bytes
  assume W: "wire_laws edge_kind edge_texts_ok W" and e: "encode_edge W m r = Inr bytes" "length bytes \<le> int_max"
  show "edge_texts_ok m \<Longrightarrow> decode_edge W (edge_kind m) bytes = Some m"
    using decode_sealed [OF W _ e(2)] e(1) by (simp add: decode_edge_def encode_edge_def)
  show "edge_message_id (fst W) bytes = Some (edge_kind m) \<and> edge_request_id (fst W) bytes = Some r"
    using parse_envelope_encoded [OF W e(1) [unfolded encode_edge_def] e(2)] edge_kind_known [of m]
    by (auto simp: edge_message_id_def edge_request_id_def parse_edge_envelope_def)
qed (auto simp: decode_edge_def edge_message_id_def parse_edge_envelope_def intro: decode_message_kind
    split: option.splits if_splits)

interpretation realm: message_protocol realm_kind "wire_laws realm_kind realm_texts_ok" realm_texts_ok
  "{v. is_realm_message_id v}" encode_realm decode_realm realm_message_id realm_request_id
proof unfold_locales
  fix W :: "realm_message wire" and m r bytes
  assume W: "wire_laws realm_kind realm_texts_ok W" and e: "encode_realm W m r = Inr bytes" "length bytes \<le> int_max"
  show "realm_texts_ok m \<Longrightarrow> decode_realm W (realm_kind m) bytes = Some m"
    using decode_sealed [OF W _ e(2)] e(1) by (simp add: decode_realm_def encode_realm_def)
  show "realm_message_id (fst W) bytes = Some (realm_kind m) \<and> realm_request_id (fst W) bytes = Some r"
    using parse_envelope_encoded [OF W e(1) [unfolded encode_realm_def] e(2)] realm_kind_known [of m]
    by (auto simp: realm_message_id_def realm_request_id_def parse_realm_envelope_def)
qed (auto simp: decode_realm_def realm_message_id_def parse_realm_envelope_def intro: decode_message_kind
    split: option.splits if_splits)

lemma scene_kind_range: "1501 \<le> scene_kind m \<and> scene_kind m \<le> 1508"
  by (cases m) simp_all

lemma scene_internal_kind_range: "1601 \<le> scene_internal_kind m \<and> scene_internal_kind m \<le> 1603"
  by (cases m) simp_all

interpretation scene: message_protocol scene_kind "wire_laws scene_kind scene_texts_ok" "\<lambda>_. True"
  "{1501..1508}" encode_scene decode_scene scene_message_id scene_request_id
proof unfold_locales
  fix W :: "scene_message wire" and m r bytes
  assume W: "wire_laws scene_kind scene_texts_ok W" and e: "encode_scene W m r = Inr bytes"
  have "scene_texts_ok m"
    using e scene_message_texts by (auto simp: encode_scene_def encode_scene_message_def encode_checked_Inr)
  then show "decode_scene W (scene_kind m) bytes = Some m"
    using decode_checked_encoded [OF W] e
    by (simp add: decode_scene_def encode_scene_def encode_scene_message_def decode_scene_message_def)
  show "scene_message_id (fst W) bytes = Some (scene_kind m) \<and> scene_request_id (fst W) bytes = Some r"
    using ranged_encoded [OF W] e scene_kind_range
    by (simp add: encode_scene_def encode_scene_message_def scene_message_id_def scene_request_id_def)
qed (auto simp: decode_scene_def decode_scene_message_def scene_message_id_def intro: checked_kind dest: ranged_number)

interpretation scene_internal: message_protocol scene_internal_kind
  "wire_laws scene_internal_kind scene_internal_texts_ok" "\<lambda>_. True"
  "{1601..1603}" encode_scene_internal decode_scene_internal scene_internal_message_id scene_internal_request_id
proof unfold_locales
  fix W :: "scene_internal_message wire" and m r bytes
  assume W: "wire_laws scene_internal_kind scene_internal_texts_ok W" and e: "encode_scene_internal W m r = Inr bytes"
  have "scene_internal_texts_ok m"
    using e scene_internal_texts by (auto simp: encode_scene_internal_def encode_scene_message_def encode_checked_Inr)
  then show "decode_scene_internal W (scene_internal_kind m) bytes = Some m"
    using decode_checked_encoded [OF W] e
    by (simp add: decode_scene_internal_def encode_scene_internal_def encode_scene_message_def decode_scene_message_def)
  show "scene_internal_message_id (fst W) bytes = Some (scene_internal_kind m) \<and>
      scene_internal_request_id (fst W) bytes = Some r"
    using ranged_encoded [OF W] e scene_internal_kind_range
    by (simp add: encode_scene_internal_def encode_scene_message_def scene_internal_message_id_def scene_internal_request_id_def)
qed (auto simp: decode_scene_internal_def decode_scene_message_def scene_internal_message_id_def intro: checked_kind dest: ranged_number)

end
