(* ===== verification/Double_Arith.thy ===== *)
theory Double_Arith
  imports Complex_Main "HOL-Library.Log_Nat"
begin

text \<open>
  The C++ type \<open>double\<close> where the program computes with it: a double is the rational number it stands for,
  and every operation is the exact one followed by rounding to the nearest double, ties to even (IEEE 754
  binary64, 53 significant bits, no contraction of operations). Subnormal numbers, infinities and NaN do not occur:
  the values here are 0 or lie far inside the normal range.
\<close>

section \<open>Rounding\<close>

definition nearest_even :: "rat \<Rightarrow> int" where
  "nearest_even x =
     (let n = \<lfloor>x\<rfloor>; d = x - of_int n
      in if d < 1 / 2 then n else if 1 / 2 < d then n + 1 else if even n then n else n + 1)"

text \<open>The exponent \<open>e\<close> with \<open>2 ^ e \<le> x < 2 ^ (e + 1)\<close>, from the bit lengths of numerator and denominator.\<close>

definition binary_exponent :: "rat \<Rightarrow> int" where
  "binary_exponent x =
     (case quotient_of x of (p, q) \<Rightarrow>
        (let e = int (floorlog 2 (nat p)) - int (floorlog 2 (nat q))
         in if 2 powi e \<le> x then e else e - 1))"

definition round_double :: "rat \<Rightarrow> rat" where
  "round_double x =
     (if x = 0 then 0
      else let unit = 2 powi (binary_exponent \<bar>x\<bar> - 52) in of_int (nearest_even (x / unit)) * unit)"

text \<open>\<open>duration<double>\<close> of a count of nanoseconds: the count as a double, divided by the period.\<close>

definition double_seconds :: "int \<Rightarrow> rat" where
  "double_seconds n = round_double (round_double (of_int n) / 1000000000)"

section \<open>The error of rounding\<close>

lemma nearest_even_error: "\<bar>of_int (nearest_even x) - x\<bar> \<le> 1 / 2"
proof -
  define d where "d = x - of_int \<lfloor>x\<rfloor>"
  have d: "0 \<le> d" "d < 1" unfolding d_def by linarith+
  have x: "of_int \<lfloor>x\<rfloor> - x = - d" "of_int (\<lfloor>x\<rfloor> + 1) - x = 1 - d" by (simp_all add: d_def)
  show ?thesis
    unfolding nearest_even_def Let_def d_def [symmetric] using d by (auto simp del: of_int_add simp: x abs_le_iff)
qed

lemma nearest_even_nonneg: "0 \<le> x \<Longrightarrow> 0 \<le> nearest_even x"
  by (auto simp: nearest_even_def Let_def)

lemma binary_exponent_le:
  assumes "0 < x"
  shows "2 powi binary_exponent x \<le> x"
proof -
  obtain p q where pq: "quotient_of x = (p, q)" by (cases "quotient_of x")
  have x: "x = of_int p / of_int q" and q: "0 < q"
    using pq quotient_of_div quotient_of_denom_pos by blast+
  then have p: "0 < p" using assms by (simp add: zero_less_divide_iff)
  let ?a = "floorlog 2 (nat p)" and ?b = "floorlog 2 (nat q)"
  have a: "2 ^ (?a - 1) \<le> nat p" "0 < ?a"
    using floorlog_bounds [of "nat p" 2] floorlog_eq_zero_iff [of 2 "nat p"] p by auto
  have b: "nat q < 2 ^ ?b" using floorlog_bounds [of "nat q" 2] q by auto
  have "(2 :: rat) ^ (?a - 1) \<le> of_int p"
  proof -
    have "(of_nat (2 ^ (?a - 1)) :: rat) \<le> of_nat (nat p)" using a(1) by (simp only: of_nat_le_iff)
    then show ?thesis using p by simp
  qed
  moreover have "of_int q \<le> (2 :: rat) ^ ?b"
  proof -
    have "(of_nat (nat q) :: rat) \<le> of_nat (2 ^ ?b)" using b by (simp only: of_nat_le_iff less_imp_le)
    then show ?thesis using q by simp
  qed
  ultimately have "(2 :: rat) ^ (?a - 1) / 2 ^ ?b \<le> x"
    unfolding x using p q by (intro frac_le) simp_all
  moreover have "2 powi (int ?a - int ?b - 1) = (2 :: rat) ^ (?a - 1) / 2 ^ ?b"
    using a(2) by (simp add: power_int_diff of_nat_diff flip: power_int_of_nat)
  ultimately show ?thesis
    by (simp add: binary_exponent_def pq Let_def)
qed

lemma round_double_error: "\<bar>round_double x - x\<bar> \<le> \<bar>x\<bar> / 2 ^ 53"
proof (cases "x = 0")
  case False
  define unit :: rat where "unit = 2 powi (binary_exponent \<bar>x\<bar> - 52)"
  have pos: "0 < unit" by (simp add: unit_def)
  have "2 powi binary_exponent \<bar>x\<bar> = unit * 2 ^ 52"
    by (simp add: unit_def power_int_diff)
  then have small: "unit * 2 ^ 52 \<le> \<bar>x\<bar>" using binary_exponent_le [of "\<bar>x\<bar>"] False by simp
  have "round_double x - x = (of_int (nearest_even (x / unit)) - x / unit) * unit"
    using False pos by (simp add: round_double_def unit_def [symmetric] left_diff_distrib)
  then have "\<bar>round_double x - x\<bar> = \<bar>of_int (nearest_even (x / unit)) - x / unit\<bar> * unit"
    using pos by (simp add: abs_mult)
  also have "\<dots> \<le> 1 / 2 * unit"
    using nearest_even_error pos by (intro mult_right_mono) simp_all
  also have "\<dots> \<le> \<bar>x\<bar> / 2 ^ 53" using small by simp
  finally show ?thesis .
qed (simp add: round_double_def)

lemma round_double_nonneg: "0 \<le> x \<Longrightarrow> 0 \<le> round_double x"
  by (simp add: round_double_def Let_def nearest_even_nonneg)

lemma round_double_le: "0 \<le> x \<Longrightarrow> round_double x \<le> x * (1 + 1 / 2 ^ 53)"
proof -
  assume "0 \<le> x"
  then have "round_double x - x \<le> x / 2 ^ 53" using round_double_error [of x] by (simp only: abs_le_iff abs_of_nonneg)
  then show ?thesis by (simp only: distrib_left mult_1_right times_divide_eq_right)
qed

lemma round_double_zero [simp]: "round_double 0 = 0"
  by (simp add: round_double_def)

lemma round_double_one [simp]: "round_double 1 = 1"
  by code_simp

end
