(* ===== verification/Gateway_Ingress.thy ===== *)
theory Gateway_Ingress
  imports Wire_Protocols Double_Arith "HOL-Library.AList"
begin

text \<open>
  The credential ingress of the gateway (\<open>game/gateway/src/gateway_credential_ingress.cpp\<close>): what is
  checked of an attach message before any signature is verified: sizes, a token bucket for each source
  address, attempts of the session, the shape of both tokens, and the number of verifications in flight.
  Tokens are doubles. The map of buckets is a list of entries; the code
  leaves open which of several oldest buckets it evicts, here it is the first of the list.
\<close>

section \<open>Configuration\<close>

record ingress_config =
  ig_envelope_bytes :: nat
  ig_identity_bytes :: nat
  ig_grant_bytes :: nat
  ig_decoded_bytes :: nat
  ig_rate :: u32
  ig_burst :: u32
  ig_close_after :: u32
  ig_attempts :: u32
  ig_verifications :: u32
  ig_tracked :: nat

definition validate_ingress_config :: "ingress_config \<Rightarrow> error + unit" where
  "validate_ingress_config c =
     (if ig_envelope_bytes c = 0 \<or> 16384 < ig_envelope_bytes c \<or> ig_identity_bytes c = 0 \<or> 4096 < ig_identity_bytes c \<or>
         ig_grant_bytes c = 0 \<or> 4096 < ig_grant_bytes c \<or> ig_decoded_bytes c = 0 \<or> 3072 < ig_decoded_bytes c \<or>
         ig_rate c = 0 \<or> 10000 < ig_rate c \<or> ig_burst c = 0 \<or> 20000 < ig_burst c \<or>
         ig_close_after c = 0 \<or> 16 < ig_close_after c \<or> ig_attempts c = 0 \<or> 16 < ig_attempts c \<or>
         ig_verifications c = 0 \<or> 4096 < ig_verifications c \<or> ig_tracked c = 0 \<or> 65536 < ig_tracked c
      then Inl (Invalid_argument ''gateway credential ingress setting exceeds protocol bounds'')
      else if ig_burst c < ig_rate c
      then Inl (Invalid_argument ''gateway source burst must be at least the per-second rate'')
      else Inr ())"

section \<open>Shape of a token\<close>

definition segment_char :: "char \<Rightarrow> bool" where
  "segment_char c \<longleftrightarrow>
     (let v = of_char c :: nat
      in 48 \<le> v \<and> v \<le> 57 \<or> 65 \<le> v \<and> v \<le> 90 \<or> 97 \<le> v \<and> v \<le> 122) \<or> c = CHR ''-'' \<or> c = CHR ''_''"

definition valid_base64url_segment :: "string \<Rightarrow> bool" where
  "valid_base64url_segment s \<longleftrightarrow> s \<noteq> [] \<and> list_all segment_char s"

definition decoded_upper_bound :: "nat \<Rightarrow> nat" where
  "decoded_upper_bound n = n div 4 * 3 + (n mod 4 * 3 + 3) div 4"

definition cut_at_dot :: "string \<Rightarrow> (string \<times> string) option" where
  "cut_at_dot s =
     (case dropWhile (\<lambda>c. c \<noteq> CHR ''.'') s of
        [] \<Rightarrow> None
      | _ # rest \<Rightarrow> Some (takeWhile (\<lambda>c. c \<noteq> CHR ''.'') s, rest))"

fun segments_bounded :: "nat \<Rightarrow> nat \<Rightarrow> string list \<Rightarrow> bool" where
  "segments_bounded limit decoded [] = (decoded \<le> limit)"
| "segments_bounded limit decoded (s # rest) =
     (if \<not> valid_base64url_segment s then False
      else if limit - min decoded limit < decoded_upper_bound (length s) then False
      else segments_bounded limit (decoded + decoded_upper_bound (length s)) rest)"

definition bounded_compact_jws :: "string \<Rightarrow> nat \<Rightarrow> nat \<Rightarrow> bool" where
  "bounded_compact_jws token encoded_limit decoded_limit =
     (if token = [] \<or> encoded_limit < length token then False
      else case cut_at_dot token of
             None \<Rightarrow> False
           | Some (header, rest) \<Rightarrow>
               (case cut_at_dot rest of
                  None \<Rightarrow> False
                | Some (payload, signature) \<Rightarrow>
                    if CHR ''.'' \<in> set signature \<or> length signature \<noteq> 86 then False
                    else segments_bounded decoded_limit 0 [header, payload, signature]))"

section \<open>Buckets\<close>

datatype ingress_status =
  Ingress_allowed | Ingress_oversized | Ingress_malformed | Source_throttled | Sustained_abuse | Session_limited |
  Verification_saturated

record source_bucket =
  bk_tokens :: rat
  bk_updated_at :: time_point
  bk_last_seen :: time_point
  bk_throttles :: u32

type_synonym buckets = "(string \<times> source_bucket) list"

text \<open>\<open>min_element\<close> by the time a source was last seen.\<close>

fun oldest_bucket :: "buckets \<Rightarrow> (string \<times> source_bucket) option" where
  "oldest_bucket [] = None"
| "oldest_bucket (e # es) =
     (case oldest_bucket es of
        None \<Rightarrow> Some e
      | Some f \<Rightarrow> if bk_last_seen (snd f) < bk_last_seen (snd e) then Some f else Some e)"

definition make_room :: "ingress_config \<Rightarrow> buckets \<Rightarrow> buckets" where
  "make_room c bs =
     (if ig_tracked c \<le> length bs
      then case oldest_bucket bs of None \<Rightarrow> bs | Some (source, _) \<Rightarrow> AList.delete source bs
      else bs)"

definition fresh_bucket :: "ingress_config \<Rightarrow> time_point \<Rightarrow> source_bucket" where
  "fresh_bucket c now =
     \<lparr>bk_tokens = of_nat (unat (ig_burst c)), bk_updated_at = now, bk_last_seen = now, bk_throttles = 0\<rparr>"

definition refill_bucket :: "ingress_config \<Rightarrow> time_point \<Rightarrow> source_bucket \<Rightarrow> source_bucket" where
  "refill_bucket c now b =
     b\<lparr>bk_tokens := min (of_nat (unat (ig_burst c)))
         (round_double (bk_tokens b +
            round_double (max 0 (double_seconds (now - bk_updated_at b)) * of_nat (unat (ig_rate c))))),
       bk_updated_at := now, bk_last_seen := now\<rparr>"

definition take_token :: "ingress_config \<Rightarrow> source_bucket \<Rightarrow> (ingress_status \<times> int) \<times> source_bucket" where
  "take_token c b =
     (if 1 \<le> bk_tokens b
      then ((Ingress_allowed, 0), b\<lparr>bk_tokens := round_double (bk_tokens b - 1), bk_throttles := 0\<rparr>)
      else (let b' = b\<lparr>bk_throttles := bk_throttles b + 1\<rparr>
            in if ig_close_after c \<le> bk_throttles b' then ((Sustained_abuse, 0), b')
               else ((Source_throttled,
                      max 1 \<lceil>round_double (round_double (1 - bk_tokens b) / of_nat (unat (ig_rate c)))\<rceil>), b')))"

definition consume_source ::
  "ingress_config \<Rightarrow> string \<Rightarrow> time_point \<Rightarrow> buckets \<Rightarrow> (ingress_status \<times> int) \<times> buckets" where
  "consume_source c source now bs =
     (let entered = (case map_of bs source of
                       Some b \<Rightarrow> (b, bs)
                     | None \<Rightarrow> (fresh_bucket c now, AList.update source (fresh_bucket c now) (make_room c bs)));
          (decision, b) = take_token c (refill_bucket c now (fst entered))
      in (decision, AList.update source b (snd entered)))"

section \<open>An attach message\<close>

record ingress_counters =
  in_oversized :: u64
  in_malformed :: u64
  in_throttled :: u64
  in_abuse :: u64
  in_limited :: u64
  in_saturated :: u64
  in_flight :: u64

record credential_ingress =
  ci_config :: ingress_config
  ci_buckets :: buckets
  ci_counters :: ingress_counters

record ingress_check =
  ik_status :: ingress_status
  ik_attach :: "(string \<times> string) option"
  ik_retry_after :: int

definition new_credential_ingress :: "ingress_config \<Rightarrow> error + credential_ingress" where
  "new_credential_ingress c =
     (case validate_ingress_config c of
        Inl e \<Rightarrow> Inl e
      | Inr _ \<Rightarrow> Inr \<lparr>ci_config = c, ci_buckets = [],
          ci_counters = \<lparr>in_oversized = 0, in_malformed = 0, in_throttled = 0, in_abuse = 0, in_limited = 0,
            in_saturated = 0, in_flight = 0\<rparr>\<rparr>)"

fun count_rejection :: "ingress_status \<Rightarrow> ingress_counters \<Rightarrow> ingress_counters" where
  "count_rejection Ingress_oversized n = n\<lparr>in_oversized := in_oversized n + 1\<rparr>"
| "count_rejection Ingress_malformed n = n\<lparr>in_malformed := in_malformed n + 1\<rparr>"
| "count_rejection Source_throttled n = n\<lparr>in_throttled := in_throttled n + 1\<rparr>"
| "count_rejection Sustained_abuse n = n\<lparr>in_abuse := in_abuse n + 1\<rparr>"
| "count_rejection Session_limited n = n\<lparr>in_limited := in_limited n + 1\<rparr>"
| "count_rejection Verification_saturated n = n\<lparr>in_saturated := in_saturated n + 1\<rparr>"
| "count_rejection Ingress_allowed n = n"

definition reject_attach :: "ingress_status \<Rightarrow> int \<Rightarrow> credential_ingress \<Rightarrow> ingress_check \<times> credential_ingress" where
  "reject_attach status_code retry_after s =
     (\<lparr>ik_status = status_code, ik_attach = None, ik_retry_after = retry_after\<rparr>,
      s\<lparr>ci_counters := count_rejection status_code (ci_counters s)\<rparr>)"

definition decode_attach :: "edge_message wire \<Rightarrow> u8 list \<Rightarrow> (string \<times> string) option" where
  "decode_attach W payload =
     (case decode_edge W 1301 payload of Some (Edge_attach token grant) \<Rightarrow> Some (token, grant) | _ \<Rightarrow> None)"

definition inspect_attach ::
  "edge_message wire \<Rightarrow> string \<Rightarrow> u32 \<Rightarrow> u8 list \<Rightarrow> time_point \<Rightarrow> credential_ingress \<Rightarrow>
   ingress_check \<times> credential_ingress" where
  "inspect_attach W source session_attempt payload now s0 =
     (let c = ci_config s0
      in if source = [] then reject_attach Ingress_malformed 0 s0
         else if ig_envelope_bytes c < length payload then reject_attach Ingress_oversized 0 s0
         else (let (throttle, bs) = consume_source c source now (ci_buckets s0);
                   s = s0\<lparr>ci_buckets := bs\<rparr>
               in if fst throttle \<noteq> Ingress_allowed then reject_attach (fst throttle) (snd throttle) s
                  else if ig_attempts c < session_attempt then reject_attach Session_limited 0 s
                  else case decode_attach W payload of
                         None \<Rightarrow> reject_attach Ingress_malformed 0 s
                       | Some (token, grant) \<Rightarrow>
                           if ig_identity_bytes c < length token \<or> ig_grant_bytes c < length grant
                           then reject_attach Ingress_oversized 0 s
                           else if \<not> bounded_compact_jws token (ig_identity_bytes c) (ig_decoded_bytes c) \<or>
                                   \<not> bounded_compact_jws grant (ig_grant_bytes c) (ig_decoded_bytes c)
                           then reject_attach Ingress_malformed 0 s
                           else if in_flight (ci_counters s) < ucast (ig_verifications c)
                           then (\<lparr>ik_status = Ingress_allowed, ik_attach = Some (token, grant), ik_retry_after = 0\<rparr>,
                                 s\<lparr>ci_counters := (ci_counters s)\<lparr>in_flight := in_flight (ci_counters s) + 1\<rparr>\<rparr>)
                           else reject_attach Verification_saturated 1 s))"

text \<open>The end of a lease.\<close>

definition release_verification :: "credential_ingress \<Rightarrow> credential_ingress" where
  "release_verification s = s\<lparr>ci_counters := (ci_counters s)\<lparr>in_flight := in_flight (ci_counters s) - 1\<rparr>\<rparr>"

section \<open>The shape check is exact\<close>

lemma cut_at_dot_append: "CHR ''.'' \<notin> set a \<Longrightarrow> cut_at_dot (a @ CHR ''.'' # b) = Some (a, b)"
  by (induction a) (auto simp: cut_at_dot_def split: list.splits)

lemma cut_at_dot_Some: "cut_at_dot s = Some (a, b) \<Longrightarrow> s = a @ CHR ''.'' # b \<and> CHR ''.'' \<notin> set a"
  using takeWhile_dropWhile_id [of "\<lambda>c. c \<noteq> CHR ''.''" s]
  by (auto simp: cut_at_dot_def dropWhile_eq_Cons_conv dest: set_takeWhileD split: list.splits)

lemma segments_bounded_iff:
  "decoded \<le> limit \<Longrightarrow> segments_bounded limit decoded ss \<longleftrightarrow>
     list_all valid_base64url_segment ss \<and> decoded + sum_list (map (decoded_upper_bound \<circ> length) ss) \<le> limit"
proof (induction limit decoded ss rule: segments_bounded.induct)
  case (2 limit decoded s rest)
  then show ?case by (auto simp: min_def)
qed simp

lemma segment_no_dot: "valid_base64url_segment s \<Longrightarrow> CHR ''.'' \<notin> set s"
  by (auto simp: valid_base64url_segment_def list_all_iff segment_char_def Let_def)

lemma bounded_compact_jws_iff:
  "bounded_compact_jws token encoded_limit decoded_limit \<longleftrightarrow>
   length token \<le> encoded_limit \<and>
   (\<exists>header payload signature. token = header @ ''.'' @ payload @ ''.'' @ signature \<and>
      list_all valid_base64url_segment [header, payload, signature] \<and> length signature = 86 \<and>
      decoded_upper_bound (length header) + decoded_upper_bound (length payload) + decoded_upper_bound (length signature)
        \<le> decoded_limit)"
  (is "?lhs \<longleftrightarrow> ?rhs")
proof
  assume ?lhs
  then obtain header rest payload signature where parts:
    "length token \<le> encoded_limit" "cut_at_dot token = Some (header, rest)" "cut_at_dot rest = Some (payload, signature)"
    "length signature = 86" "segments_bounded decoded_limit 0 [header, payload, signature]"
    by (auto simp: bounded_compact_jws_def simp del: segments_bounded.simps split: if_splits option.splits)
  then have "token = header @ ''.'' @ payload @ ''.'' @ signature"
    using cut_at_dot_Some [OF parts(2)] cut_at_dot_Some [OF parts(3)] by simp
  moreover have "list_all valid_base64url_segment [header, payload, signature]"
    "decoded_upper_bound (length header) + decoded_upper_bound (length payload) + decoded_upper_bound (length signature)
      \<le> decoded_limit"
    using parts(5) segments_bounded_iff [of 0 decoded_limit "[header, payload, signature]"]
    by (simp_all del: segments_bounded.simps)
  ultimately show ?rhs using parts(1,4) by blast
next
  assume ?rhs
  then obtain header payload signature where t: "length token \<le> encoded_limit"
    "token = header @ ''.'' @ payload @ ''.'' @ signature" "list_all valid_base64url_segment [header, payload, signature]"
    "length signature = 86" "decoded_upper_bound (length header) + decoded_upper_bound (length payload) +
       decoded_upper_bound (length signature) \<le> decoded_limit"
    by blast
  have cuts: "cut_at_dot token = Some (header, payload @ ''.'' @ signature)"
    "cut_at_dot (payload @ ''.'' @ signature) = Some (payload, signature)" "CHR ''.'' \<notin> set signature"
    using t(3) cut_at_dot_append [of header "payload @ ''.'' @ signature"] cut_at_dot_append [of payload signature]
    by (simp_all add: t(2) segment_no_dot)
  have "segments_bounded decoded_limit 0 [header, payload, signature]"
    using t(3,5) segments_bounded_iff [of 0 decoded_limit "[header, payload, signature]"]
    by (simp del: segments_bounded.simps)
  then show ?lhs using t(1,2,4) cuts by (simp add: bounded_compact_jws_def del: segments_bounded.simps)
qed

section \<open>Rate of a source\<close>

fun consume_all ::
  "ingress_config \<Rightarrow> (string \<times> time_point) list \<Rightarrow> buckets \<Rightarrow> (ingress_status \<times> int) list \<times> buckets" where
  "consume_all c [] bs = ([], bs)"
| "consume_all c ((source, now) # calls) bs =
     (case consume_source c source now bs of
        (decision, bs') \<Rightarrow> (case consume_all c calls bs' of (ds, bs'') \<Rightarrow> (decision # ds, bs'')))"

definition allowed_of :: "string \<Rightarrow> (string \<times> time_point) list \<Rightarrow> (ingress_status \<times> int) list \<Rightarrow> nat" where
  "allowed_of source calls ds =
     length (filter (\<lambda>(call, d). fst call = source \<and> fst d = Ingress_allowed) (zip calls ds))"

text \<open>What the rate grants for a time, with the error that four roundings can add.\<close>

definition refilled :: "ingress_config \<Rightarrow> int \<Rightarrow> rat" where
  "refilled c elapsed = of_int elapsed / 1000000000 * of_nat (unat (ig_rate c)) * (1 + 1 / 2 ^ 50)"

lemma refilled_mono: "a \<le> b \<Longrightarrow> refilled c a \<le> refilled c b"
  unfolding refilled_def by (intro mult_right_mono divide_right_mono of_nat_0_le_iff) simp_all

lemma refilled_add: "refilled c (a + b) = refilled c a + refilled c b"
  by (simp only: refilled_def add_divide_distrib distrib_right of_int_add)

lemma refilled_zero [simp]: "refilled c 0 = 0"
  by (simp add: refilled_def)

text \<open>The error of one rounding of a count of tokens.\<close>

abbreviation rounding :: "ingress_config \<Rightarrow> rat" where
  "rounding c \<equiv> of_nat (unat (ig_burst c)) / 2 ^ 53"

definition credit :: "ingress_config \<Rightarrow> string \<Rightarrow> time_point \<Rightarrow> time_point \<Rightarrow> buckets \<Rightarrow> rat" where
  "credit c source start finish bs =
     (case map_of bs source of
        Some b \<Rightarrow> bk_tokens b + refilled c (finish - bk_updated_at b)
      | None \<Rightarrow> of_nat (unat (ig_burst c)) + refilled c (finish - start))"

definition bucket_ok :: "ingress_config \<Rightarrow> time_point \<Rightarrow> source_bucket \<Rightarrow> bool" where
  "bucket_ok c now b \<longleftrightarrow> bk_updated_at b \<le> now \<and> 0 \<le> bk_tokens b \<and> bk_tokens b \<le> of_nat (unat (ig_burst c))"

lemma unsigned_rat_nonneg [simp]: "0 \<le> (unsigned (w :: u32) :: rat)"
  using of_nat_0_le_iff [of "unat w", where 'a = rat] by simp

lemma fresh_bucket_ok: "bucket_ok c now (fresh_bucket c now)"
  by (simp add: bucket_ok_def fresh_bucket_def)

lemma bucket_ok_later: "bucket_ok c now b \<Longrightarrow> now \<le> later \<Longrightarrow> bucket_ok c later b"
  by (simp add: bucket_ok_def)

lemma double_seconds_le:
  assumes "0 \<le> n"
  shows "0 \<le> double_seconds n" "double_seconds n \<le> of_int n / 1000000000 * (1 + 1 / 2 ^ 53) ^ 2"
proof -
  let ?r = "round_double (of_int n)"
  have r: "0 \<le> ?r" "?r \<le> of_int n * (1 + 1 / 2 ^ 53)"
    using assms round_double_nonneg round_double_le by simp_all
  have "double_seconds n \<le> ?r / 1000000000 * (1 + 1 / 2 ^ 53)"
    unfolding double_seconds_def using r(1) by (intro round_double_le) simp
  also have "\<dots> \<le> of_int n * (1 + 1 / 2 ^ 53) / 1000000000 * (1 + 1 / 2 ^ 53)"
    using r(2) by (intro mult_right_mono divide_right_mono) simp_all
  finally show "double_seconds n \<le> of_int n / 1000000000 * (1 + 1 / 2 ^ 53) ^ 2"
    by (simp only: power2_eq_square mult.assoc times_divide_eq_left)
  show "0 \<le> double_seconds n" using r(1) by (simp add: double_seconds_def round_double_nonneg)
qed

lemma refill_tokens_le:
  assumes "0 \<le> tokens" "tokens \<le> burst" "0 \<le> n" "0 \<le> rate"
  shows "round_double (tokens + round_double (double_seconds n * rate)) \<le>
    tokens + burst / 2 ^ 53 + of_int n / 1000000000 * rate * (1 + 1 / 2 ^ 50)"
proof -
  let ?e = "1 + 1 / 2 ^ 53 :: rat" and ?g = "of_int n / 1000000000 * rate :: rat"
  let ?p = "round_double (double_seconds n * rate)"
  note s = double_seconds_le [OF assms(3)]
  have g: "0 \<le> ?g" using assms(3,4) by simp
  have "?p \<le> double_seconds n * rate * ?e"
    using s(1) assms(4) by (intro round_double_le) simp
  also have "\<dots> \<le> (of_int n / 1000000000 * ?e ^ 2) * rate * ?e"
    using s(2) assms(4) by (intro mult_right_mono) simp_all
  also have "\<dots> = ?g * ?e ^ 3" by (simp only: power2_eq_square power3_eq_cube ac_simps times_divide_eq_left)
  finally have p: "?p \<le> ?g * ?e ^ 3" .
  have p0: "0 \<le> ?p" using s(1) assms(4) by (intro round_double_nonneg) simp
  have "round_double (tokens + ?p) \<le> (tokens + ?p) * ?e"
    using p0 assms(1) by (intro round_double_le) simp
  also have "\<dots> = tokens + tokens / 2 ^ 53 + ?p * ?e" by (simp add: distrib_left distrib_right)
  also have "\<dots> \<le> tokens + burst / 2 ^ 53 + ?g * ?e ^ 3 * ?e"
    using assms(2) p by (intro add_mono mult_right_mono divide_right_mono) simp_all
  also have "?g * ?e ^ 3 * ?e \<le> ?g * (1 + 1 / 2 ^ 50)"
  proof -
    have "?e ^ 3 * ?e \<le> 1 + 1 / 2 ^ 50" by (simp add: power3_eq_cube)
    then show ?thesis using g unfolding mult.assoc [of ?g] by (rule mult_left_mono)
  qed
  finally show ?thesis by simp
qed

lemma refill_bucket_tokens:
  assumes "bucket_ok c now b" "now \<le> finish"
  shows "bk_tokens (refill_bucket c now b) + refilled c (finish - now) \<le>
      bk_tokens b + rounding c + refilled c (finish - bk_updated_at b)"
    "bucket_ok c now (refill_bucket c now b)"
proof -
  let ?n = "now - bk_updated_at b"
  have b: "0 \<le> ?n" "0 \<le> bk_tokens b" "bk_tokens b \<le> of_nat (unat (ig_burst c))"
    using assms(1) by (simp_all add: bucket_ok_def)
  have elapsed: "max 0 (double_seconds ?n) = double_seconds ?n" using double_seconds_le(1) [OF b(1)] by simp
  have fields: "bk_tokens (refill_bucket c now b) = min (of_nat (unat (ig_burst c)))
      (round_double (bk_tokens b + round_double (double_seconds ?n * of_nat (unat (ig_rate c)))))"
    by (simp add: refill_bucket_def elapsed)
  have "bk_tokens (refill_bucket c now b) \<le> bk_tokens b + rounding c + refilled c ?n"
    using refill_tokens_le [OF b(2,3,1) of_nat_0_le_iff, of "unat (ig_rate c)"]
    unfolding fields refilled_def by (rule min.coboundedI2)
  moreover have "refilled c (finish - bk_updated_at b) = refilled c ?n + refilled c (finish - now)"
    using refilled_add [of c ?n "finish - now"] by simp
  ultimately show "bk_tokens (refill_bucket c now b) + refilled c (finish - now) \<le>
      bk_tokens b + rounding c + refilled c (finish - bk_updated_at b)" by linarith
  have "0 \<le> bk_tokens b + round_double (double_seconds ?n * of_nat (unat (ig_rate c)))"
    using b(2) double_seconds_le(1) [OF b(1)] by (intro add_nonneg_nonneg round_double_nonneg) simp_all
  then show "bucket_ok c now (refill_bucket c now b)"
    by (simp add: bucket_ok_def refill_bucket_def elapsed round_double_nonneg)
qed

lemma take_token_credit:
  assumes "take_token c b = (d, b')" "bucket_ok c now b"
  shows "bk_tokens b' + (if fst d = Ingress_allowed then 1 else 0) \<le> bk_tokens b + rounding c"
    "bk_updated_at b' = bk_updated_at b" "bucket_ok c now b'"
proof -
  have b: "0 \<le> bk_tokens b" "bk_tokens b \<le> of_nat (unat (ig_burst c))" using assms(2) by (simp_all add: bucket_ok_def)
  have taken: "0 \<le> round_double (bk_tokens b - 1)" "round_double (bk_tokens b - 1) + 1 \<le> bk_tokens b + rounding c"
    "round_double (bk_tokens b - 1) \<le> of_nat (unat (ig_burst c))" if one: "1 \<le> bk_tokens b"
  proof -
    have "round_double (bk_tokens b - 1) \<le> (bk_tokens b - 1) * (1 + 1 / 2 ^ 53)"
      using one by (intro round_double_le) simp
    also have "\<dots> = bk_tokens b - 1 + (bk_tokens b - 1) / 2 ^ 53" by (simp only: distrib_left mult_1_right times_divide_eq_right)
    finally have r: "round_double (bk_tokens b - 1) \<le> bk_tokens b - 1 + (bk_tokens b - 1) / 2 ^ 53" .
    have "(bk_tokens b - 1) / 2 ^ 53 \<le> rounding c" using b(2) by (intro divide_right_mono) simp_all
    then show "round_double (bk_tokens b - 1) + 1 \<le> bk_tokens b + rounding c" using r by linarith
    have "rounding c < 1"
    proof -
      have "unat (ig_burst c) < 2 ^ 53" using unsigned_less [of "ig_burst c", where 'a = nat] by simp
      then have "of_nat (unat (ig_burst c)) < (of_nat (2 ^ 53) :: rat)" by (simp only: of_nat_less_iff)
      then show ?thesis by simp
    qed
    with r \<open>(bk_tokens b - 1) / 2 ^ 53 \<le> rounding c\<close> b(2) show "round_double (bk_tokens b - 1) \<le> of_nat (unat (ig_burst c))"
      by linarith
    show "0 \<le> round_double (bk_tokens b - 1)" using one by (intro round_double_nonneg) simp
  qed
  have "0 \<le> rounding c" by simp
  then show "bk_tokens b' + (if fst d = Ingress_allowed then 1 else 0) \<le> bk_tokens b + rounding c"
    "bk_updated_at b' = bk_updated_at b" "bucket_ok c now b'"
    using assms taken by (auto simp: take_token_def Let_def bucket_ok_def split: if_splits)
qed

lemma consume_source_parts:
  assumes "consume_source c source now bs = (d, bs')" "map_of bs source = None \<Longrightarrow> length bs < ig_tracked c"
  obtains b b' where "take_token c (refill_bucket c now b) = (d, b')"
    "map_of bs source = Some b \<or> map_of bs source = None \<and> b = fresh_bucket c now"
    "map_of bs' = (map_of bs)(source \<mapsto> b')"
proof (cases "map_of bs source")
  case None
  then have "make_room c bs = bs" using assms(2) by (simp add: make_room_def)
  with assms(1) None show thesis
    by (intro that [of "fresh_bucket c now" "snd (take_token c (refill_bucket c now (fresh_bucket c now)))"])
      (auto simp: consume_source_def Let_def update_conv' split: prod.splits)
next
  case (Some b)
  with assms(1) show thesis
    by (intro that [of b "snd (take_token c (refill_bucket c now b))"])
      (auto simp: consume_source_def Let_def update_conv' split: prod.splits)
qed

lemma keys_of_map: "fst ` set bs = dom (map_of bs)"
  by (simp add: dom_map_of_conv_image_fst)

lemma consume_source_distinct: "distinct (map fst bs) \<Longrightarrow> distinct (map fst (snd (consume_source c source now bs)))"
  by (auto simp: consume_source_def Let_def make_room_def distinct_update distinct_delete split: option.splits prod.splits)

text \<open>What two roundings can add when a call looks at the bucket of the source.\<close>

definition gained :: "ingress_config \<Rightarrow> nat \<Rightarrow> rat" where
  "gained c calls = of_nat calls * (2 * rounding c)"

lemma consume_source_credit:
  assumes "consume_source c s now bs = (d, bs')" "map_of bs s = None \<Longrightarrow> length bs < ig_tracked c"
    and "start \<le> now" "now \<le> finish" "\<forall>b. map_of bs source = Some b \<longrightarrow> bucket_ok c now b"
  shows "(if s = source \<and> fst d = Ingress_allowed then 1 else 0) + credit c source start finish bs' \<le>
      credit c source start finish bs + gained c (if s = source then 1 else 0)"
    "\<forall>b. map_of bs' source = Some b \<longrightarrow> bucket_ok c now b"
proof -
  obtain b b' where b: "take_token c (refill_bucket c now b) = (d, b')"
    "map_of bs s = Some b \<or> map_of bs s = None \<and> b = fresh_bucket c now" "map_of bs' = (map_of bs)(s \<mapsto> b')"
    using consume_source_parts [OF assms(1,2)] by blast
  have ok: "bucket_ok c now b" if "s = source"
    using b(2) assms(5) fresh_bucket_ok that by auto
  note refill = refill_bucket_tokens [OF ok assms(4)]
  note tokens = take_token_credit [OF b(1) refill(2)]
  show "\<forall>b. map_of bs' source = Some b \<longrightarrow> bucket_ok c now b"
    using assms(5) tokens(3) by (simp add: b(3))
  show "(if s = source \<and> fst d = Ingress_allowed then 1 else 0) + credit c source start finish bs' \<le>
      credit c source start finish bs + gained c (if s = source then 1 else 0)"
  proof (cases "s = source")
    case True
    have "bk_tokens (refill_bucket c now b) + refilled c (finish - now) \<le> credit c source start finish bs + rounding c"
    proof (cases "map_of bs s")
      case None
      have "refilled c (finish - now) \<le> refilled c (finish - start)"
        using assms(3) by (intro refilled_mono) simp
      moreover have "bk_tokens (refill_bucket c now b) \<le> of_nat (unat (ig_burst c))"
        using refill(2) [OF True] by (simp add: bucket_ok_def)
      moreover have "credit c source start finish bs = of_nat (unat (ig_burst c)) + refilled c (finish - start)"
        using None True by (simp add: credit_def)
      moreover have "0 \<le> rounding c" by simp
      ultimately show ?thesis by linarith
    next
      case (Some b0)
      then have "credit c source start finish bs = bk_tokens b + refilled c (finish - bk_updated_at b)"
        using b(2) True by (simp add: credit_def)
      then show ?thesis using refill(1) [OF True] by linarith
    qed
    moreover have "credit c source start finish bs' = bk_tokens b' + refilled c (finish - now)"
      using tokens(2) [OF True] True by (simp add: credit_def b(3) refill_bucket_def)
    moreover have "gained c 1 = 2 * rounding c" by (simp only: gained_def of_nat_1 mult_1)
    ultimately show ?thesis using tokens(1) [OF True] True by simp
  next
    case False
    then show ?thesis by (simp add: credit_def b(3) gained_def)
  qed
qed

lemma allowed_of_Cons:
  "allowed_of source ((s, now) # calls) (d # ds) =
     (if s = source \<and> fst d = Ingress_allowed then 1 else 0) + allowed_of source calls ds"
  by (simp add: allowed_of_def)

lemma tracked_room:
  assumes "distinct (map fst bs)" "map_of bs s = None" "card (fst ` set bs \<union> insert s (set ss)) \<le> ig_tracked c"
  shows "length bs < ig_tracked c"
proof -
  have "s \<notin> fst ` set bs" using assms(2) by (simp add: map_of_eq_None_iff)
  then have "Suc (length bs) = card (insert s (fst ` set bs))"
    using distinct_card [OF assms(1)] by simp
  also have "\<dots> \<le> card (fst ` set bs \<union> insert s (set ss))"
    by (intro card_mono) auto
  finally show ?thesis using assms(3) by linarith
qed

lemma consume_all_credit:
  assumes "consume_all c calls bs = (ds, bs')" "sorted (map snd calls)" "distinct (map fst bs)"
    and "card (fst ` set bs \<union> set (map fst calls)) \<le> ig_tracked c"
    and "\<forall>call \<in> set calls. start \<le> snd call \<and> snd call \<le> finish"
    and "\<forall>b call. map_of bs source = Some b \<and> call \<in> set calls \<longrightarrow> bucket_ok c (snd call) b"
  shows "of_nat (allowed_of source calls ds) + credit c source start finish bs' \<le>
    credit c source start finish bs + gained c (count_list (map fst calls) source)"
  using assms
proof (induction calls arbitrary: bs ds)
  case Nil
  then show ?case by (simp add: allowed_of_def gained_def)
next
  case (Cons call calls)
  obtain s now where call: "call = (s, now)" by (cases call)
  obtain d bs1 where one: "consume_source c s now bs = (d, bs1)" by (cases "consume_source c s now bs")
  obtain es where rest: "consume_all c calls bs1 = (es, bs')" "ds = d # es"
    using Cons.prems(1) by (auto simp: call one split: prod.splits)
  have room: "length bs < ig_tracked c" if "map_of bs s = None"
    using tracked_room [OF Cons.prems(3) that, of "map fst calls" c] Cons.prems(4) by (simp add: call)
  obtain b' where "map_of bs1 = (map_of bs)(s \<mapsto> b')" using consume_source_parts [OF one room] by metis
  then have keys: "fst ` set bs1 = insert s (fst ` set bs)" by (simp add: keys_of_map)
  have "start \<le> now" "now \<le> finish" "\<forall>b. map_of bs source = Some b \<longrightarrow> bucket_ok c now b"
    using Cons.prems(5,6) by (auto simp: call)
  note step = consume_source_credit [OF one room this]
  have "of_nat (allowed_of source calls es) + credit c source start finish bs' \<le>
    credit c source start finish bs1 + gained c (count_list (map fst calls) source)"
  proof (rule Cons.IH [OF rest(1)])
    show "distinct (map fst bs1)" using consume_source_distinct [OF Cons.prems(3), of c s now] one by simp
    show "card (fst ` set bs1 \<union> set (map fst calls)) \<le> ig_tracked c"
      using Cons.prems(4) by (simp add: keys call)
    show "\<forall>b call. map_of bs1 source = Some b \<and> call \<in> set calls \<longrightarrow> bucket_ok c (snd call) b"
      using step(2) Cons.prems(2) bucket_ok_later [of c now] by (fastforce simp: call)
  qed (use Cons.prems in auto)
  moreover have "gained c (count_list (map fst (call # calls)) source) =
      gained c (if s = source then 1 else 0) + gained c (count_list (map fst calls) source)"
    by (simp add: call gained_def distrib_right)
  ultimately show ?case
    using step(1) unfolding call rest(2) allowed_of_Cons by (cases "s = source \<and> fst d = Ingress_allowed") auto
qed

lemma consume_all_ok:
  assumes "consume_all c calls bs = (ds, bs')" "distinct (map fst bs)" "sorted (map snd calls)"
    and "card (fst ` set bs \<union> set (map fst calls)) \<le> ig_tracked c" "\<forall>call \<in> set calls. snd call \<le> finish"
    and "\<forall>b call. map_of bs source = Some b \<and> call \<in> set calls \<longrightarrow> bucket_ok c (snd call) b"
    and "\<forall>b. map_of bs source = Some b \<longrightarrow> bucket_ok c finish b"
  shows "\<forall>b. map_of bs' source = Some b \<longrightarrow> bucket_ok c finish b"
  using assms
proof (induction calls arbitrary: bs ds)
  case (Cons call calls)
  obtain s now where call: "call = (s, now)" by (cases call)
  obtain d bs1 where one: "consume_source c s now bs = (d, bs1)" by (cases "consume_source c s now bs")
  obtain es where rest: "consume_all c calls bs1 = (es, bs')"
    using Cons.prems(1) by (auto simp: call one split: prod.splits)
  have room: "length bs < ig_tracked c" if "map_of bs s = None"
    using tracked_room [OF Cons.prems(2) that, of "map fst calls" c] Cons.prems(4) by (simp add: call)
  obtain b' where b': "map_of bs1 = (map_of bs)(s \<mapsto> b')" using consume_source_parts [OF one room] by metis
  have "now \<le> finish" "\<forall>b. map_of bs source = Some b \<longrightarrow> bucket_ok c now b"
    using Cons.prems(5,6) by (auto simp: call)
  note step = consume_source_credit(2) [OF one room order.refl this]
  show ?case
  proof (rule Cons.IH [OF rest])
    show "distinct (map fst bs1)" using consume_source_distinct [OF Cons.prems(2), of c s now] one by simp
    show "card (fst ` set bs1 \<union> set (map fst calls)) \<le> ig_tracked c"
      using Cons.prems(4) by (simp add: keys_of_map b' call)
    show "\<forall>b call. map_of bs1 source = Some b \<and> call \<in> set calls \<longrightarrow> bucket_ok c (snd call) b"
      using step Cons.prems(3) bucket_ok_later [of c now] by (fastforce simp: call)
    show "\<forall>b. map_of bs1 source = Some b \<longrightarrow> bucket_ok c finish b"
      using step bucket_ok_later [OF _ \<open>now \<le> finish\<close>] by blast
  qed (use Cons.prems in auto)
qed simp

lemma credit_nonneg:
  assumes "\<forall>b. map_of bs source = Some b \<longrightarrow> bucket_ok c finish b" "start \<le> finish"
  shows "0 \<le> credit c source start finish bs"
proof -
  have "0 \<le> refilled c n" if "0 \<le> n" for n
    using refilled_mono [OF that, of c] by simp
  then show ?thesis using assms by (auto simp: credit_def bucket_ok_def split: option.splits)
qed

text \<open>
  C40. However an attacker spaces its attach messages, the gateway looks at no more of them from one source
  than the burst and the rate grant for the time from the first to the last, as long as the sources seen fit
  the table, so that no bucket is forgotten. The tokens are doubles, so that rounding can add to this: the rate
  by a factor of less than \<open>1 + 1 / 2 ^ 50\<close>, and each message of the source by less than \<open>1 / 2 ^ 52\<close> of the burst.
\<close>

theorem source_rate_bounded:
  assumes "sorted (map snd calls)" "card (set (map fst calls)) \<le> ig_tracked c"
    and "\<forall>call \<in> set calls. start \<le> snd call \<and> snd call \<le> finish" "start \<le> finish"
  shows "(of_nat (allowed_of source calls (fst (consume_all c calls []))) :: rat) \<le>
    of_nat (unat (ig_burst c)) + of_int (finish - start) / 1000000000 * of_nat (unat (ig_rate c)) * (1 + 1 / 2 ^ 50) +
    of_nat (count_list (map fst calls) source) * (of_nat (unat (ig_burst c)) / 2 ^ 52)"
proof -
  obtain ds bs where all: "consume_all c calls [] = (ds, bs)" by (cases "consume_all c calls []")
  have "of_nat (allowed_of source calls ds) + credit c source start finish bs \<le>
      credit c source start finish [] + gained c (count_list (map fst calls) source)"
    using assms by (intro consume_all_credit [OF all]) simp_all
  moreover have "0 \<le> credit c source start finish bs"
    using assms by (intro credit_nonneg consume_all_ok [OF all]) simp_all
  moreover have "2 * rounding c = of_nat (unat (ig_burst c)) / 2 ^ 52" by simp
  ultimately show ?thesis using all by (simp only: credit_def refilled_def gained_def map_of.simps option.case fst_conv)
qed

text \<open>One source of three calls in a second, with one token a second and a burst of one.\<close>

definition sample_ingress :: ingress_config where
  "sample_ingress = \<lparr>ig_envelope_bytes = 1000, ig_identity_bytes = 500, ig_grant_bytes = 500, ig_decoded_bytes = 400,
     ig_rate = 1, ig_burst = 1, ig_close_after = 3, ig_attempts = 2, ig_verifications = 4, ig_tracked = 2\<rparr>"

theorem source_rate_bounded_witness:
  "of_nat (allowed_of ''a'' [(''a'', 0), (''b'', 10), (''a'', 500000000), (''a'', 1000000000)]
     (fst (consume_all sample_ingress [(''a'', 0), (''b'', 10), (''a'', 500000000), (''a'', 1000000000)] []))) \<le> (2 :: rat)"
proof -
  have "set (map fst [(''a'', 0 :: int), (''b'', 10), (''a'', 500000000), (''a'', 1000000000)]) = {''a'', ''b''}"
    by auto
  then have "card (set (map fst [(''a'', 0 :: int), (''b'', 10), (''a'', 500000000), (''a'', 1000000000)])) \<le> ig_tracked sample_ingress"
    by (simp only:) (simp add: sample_ingress_def)
  then show ?thesis
    using source_rate_bounded [of "[(''a'', 0), (''b'', 10), (''a'', 500000000), (''a'', 1000000000)]" sample_ingress 0 1000000000 "''a''"]
    by (simp add: sample_ingress_def)
qed

section \<open>What passes the ingress\<close>

definition buckets_ok :: "credential_ingress \<Rightarrow> bool" where
  "buckets_ok s \<longleftrightarrow> distinct (map fst (ci_buckets s)) \<and> length (ci_buckets s) \<le> ig_tracked (ci_config s) \<and>
     0 < ig_tracked (ci_config s)"

lemma oldest_bucket_mem: "bs \<noteq> [] \<Longrightarrow> \<exists>e \<in> set bs. oldest_bucket bs = Some e"
proof (induction bs)
  case (Cons e es)
  then show ?case by (cases "es = []") (auto split: option.splits)
qed simp

lemma length_delete: "distinct (map fst bs) \<Longrightarrow> k \<in> fst ` set bs \<Longrightarrow> Suc (length (AList.delete k bs)) = length bs"
proof (induction bs)
  case (Cons e bs)
  show ?case
  proof (cases "fst e = k")
    case True
    then have "k \<notin> fst ` set bs" using Cons.prems(1) by auto
    then have "AList.delete k bs = bs" by (metis delete_id)
    then show ?thesis using True by (cases e) simp
  next
    case False
    then show ?thesis using Cons by (cases e) auto
  qed
qed simp

lemma length_update_absent: "k \<notin> fst ` set bs \<Longrightarrow> length (AList.update k v bs) = Suc (length bs)"
  by (induction bs) auto

lemma length_update_present: "k \<in> fst ` set bs \<Longrightarrow> length (AList.update k v bs) = length bs"
  by (induction bs) auto

lemma make_room_length:
  assumes "distinct (map fst bs)" "length bs \<le> ig_tracked c" "0 < ig_tracked c"
  shows "length (make_room c bs) < ig_tracked c"
proof (cases "ig_tracked c \<le> length bs")
  case True
  then have "bs \<noteq> []" using assms(3) by auto
  then obtain f where f: "f \<in> set bs" "oldest_bucket bs = Some f" using oldest_bucket_mem by blast
  obtain s b where "f = (s, b)" by (cases f)
  with f have e: "(s, b) \<in> set bs" "oldest_bucket bs = Some (s, b)" by simp_all
  then have "s \<in> fst ` set bs" by (auto intro: rev_image_eqI)
  note length_delete [OF assms(1) this]
  moreover have "make_room c bs = AList.delete s bs" using True e(2) by (simp add: make_room_def)
  ultimately show ?thesis using assms(2) by simp
qed (simp add: make_room_def)

lemma consume_source_tracked:
  assumes "distinct (map fst bs)" "length bs \<le> ig_tracked c" "0 < ig_tracked c"
  shows "length (snd (consume_source c source now bs)) \<le> ig_tracked c"
proof (cases "map_of bs source")
  case (Some b)
  then have "source \<in> fst ` set bs" by (metis domI dom_map_of_conv_image_fst)
  then show ?thesis
    using assms(2) Some by (auto simp: consume_source_def Let_def length_update_present split: prod.splits)
next
  case None
  have "source \<notin> fst ` set bs" using None by (simp add: map_of_eq_None_iff)
  then have "source \<notin> fst ` set (make_room c bs)"
    by (auto simp: make_room_def AList.delete_eq split: option.splits if_splits)
  then have "length (AList.update source b (make_room c bs)) \<le> ig_tracked c" for b
    using make_room_length [OF assms] by (simp add: length_update_absent)
  then show ?thesis
    using None by (auto simp: consume_source_def Let_def split: prod.splits)
qed

lemma inspect_attach_buckets:
  assumes "buckets_ok s"
  shows "buckets_ok (snd (inspect_attach W source n payload now s))" "buckets_ok (release_verification s)"
proof -
  have "distinct (map fst (snd (consume_source (ci_config s) source now (ci_buckets s))))"
    "length (snd (consume_source (ci_config s) source now (ci_buckets s))) \<le> ig_tracked (ci_config s)"
    using assms consume_source_distinct consume_source_tracked by (simp_all add: buckets_ok_def)
  then show "buckets_ok (snd (inspect_attach W source n payload now s))"
    using assms by (auto simp: inspect_attach_def buckets_ok_def reject_attach_def Let_def
        split: prod.splits option.splits if_splits)
qed (use assms in \<open>simp add: buckets_ok_def release_verification_def\<close>)

text \<open>A signature is verified only for an attach message that passed every bound: its envelope and both tokens
  are within their sizes, both tokens are three dotted base64url segments with a signature of 86 characters
  and a bounded decoded size, the session has attempts left, and fewer verifications than allowed are in
  flight; and the message is then counted as one more in flight.
\<close>

lemma allowed_attach_bounded:
  assumes "inspect_attach W source n payload now s = (check, s')" "ik_status check = Ingress_allowed"
  shows "\<exists>token grant. ik_attach check = Some (token, grant) \<and> decode_attach W payload = Some (token, grant) \<and>
    source \<noteq> [] \<and> length payload \<le> ig_envelope_bytes (ci_config s) \<and> n \<le> ig_attempts (ci_config s) \<and>
    (\<forall>(t, limit) \<in> {(token, ig_identity_bytes (ci_config s)), (grant, ig_grant_bytes (ci_config s))}.
       length t \<le> limit \<and>
       (\<exists>header body signature. t = header @ ''.'' @ body @ ''.'' @ signature \<and> length signature = 86 \<and>
          list_all valid_base64url_segment [header, body, signature] \<and>
          decoded_upper_bound (length header) + decoded_upper_bound (length body) + decoded_upper_bound (length signature)
            \<le> ig_decoded_bytes (ci_config s))) \<and>
    in_flight (ci_counters s) < ucast (ig_verifications (ci_config s)) \<and>
    in_flight (ci_counters s') = in_flight (ci_counters s) + 1"
proof -
  have checked: "\<exists>token grant. ik_attach check = Some (token, grant) \<and> decode_attach W payload = Some (token, grant) \<and>
    source \<noteq> [] \<and> length payload \<le> ig_envelope_bytes (ci_config s) \<and> n \<le> ig_attempts (ci_config s) \<and>
    bounded_compact_jws token (ig_identity_bytes (ci_config s)) (ig_decoded_bytes (ci_config s)) \<and>
    bounded_compact_jws grant (ig_grant_bytes (ci_config s)) (ig_decoded_bytes (ci_config s)) \<and>
    in_flight (ci_counters s) < ucast (ig_verifications (ci_config s)) \<and>
    in_flight (ci_counters s') = in_flight (ci_counters s) + 1"
    using assms
    by (auto simp: inspect_attach_def reject_attach_def Let_def split: if_splits prod.splits option.splits)
  have shape: "length t \<le> limit \<and>
       (\<exists>header body signature. t = header @ ''.'' @ body @ ''.'' @ signature \<and> length signature = 86 \<and>
          list_all valid_base64url_segment [header, body, signature] \<and>
          decoded_upper_bound (length header) + decoded_upper_bound (length body) + decoded_upper_bound (length signature)
            \<le> decoded)"
    if "bounded_compact_jws t limit decoded" for t limit decoded
    using that unfolding bounded_compact_jws_iff by blast
  from checked show ?thesis
  proof (elim exE conjE, intro exI conjI)
    fix token grant
    assume jws: "bounded_compact_jws token (ig_identity_bytes (ci_config s)) (ig_decoded_bytes (ci_config s))"
      "bounded_compact_jws grant (ig_grant_bytes (ci_config s)) (ig_decoded_bytes (ci_config s))"
    show "\<forall>(t, limit) \<in> {(token, ig_identity_bytes (ci_config s)), (grant, ig_grant_bytes (ci_config s))}.
       length t \<le> limit \<and>
       (\<exists>header body signature. t = header @ ''.'' @ body @ ''.'' @ signature \<and> length signature = 86 \<and>
          list_all valid_base64url_segment [header, body, signature] \<and>
          decoded_upper_bound (length header) + decoded_upper_bound (length body) + decoded_upper_bound (length signature)
            \<le> ig_decoded_bytes (ci_config s))"
      using shape [OF jws(1)] shape [OF jws(2)] by blast
  qed assumption+
qed

definition sample_token :: string where
  "sample_token = ''a.b.'' @ replicate 86 (CHR ''c'')"

definition attach_wire :: "edge_message wire" where
  "attach_wire =
     (\<lparr>ec_serialize = \<lambda>e. None,
       ec_parse = \<lambda>bytes. Some \<lparr>ev_version = 1, ev_message_id = 1301, ev_request_id = 5, ev_payload = []\<rparr>\<rparr>,
      \<lparr>pb_serialize = \<lambda>m. None, pb_parse = \<lambda>k bytes. Some (Edge_attach sample_token sample_token), pb_byte_size = \<lambda>m. 0\<rparr>)"

definition fresh_ingress :: credential_ingress where
  "fresh_ingress = \<lparr>ci_config = sample_ingress, ci_buckets = [],
     ci_counters = \<lparr>in_oversized = 0, in_malformed = 0, in_throttled = 0, in_abuse = 0, in_limited = 0, in_saturated = 0,
       in_flight = 0\<rparr>\<rparr>"

lemma sample_token_bounded: "bounded_compact_jws sample_token 500 400"
proof -
  have "sample_token = ''a'' @ ''.'' @ ''b'' @ ''.'' @ replicate 86 (CHR ''c'')" by (simp add: sample_token_def)
  moreover have "valid_base64url_segment (replicate 86 (CHR ''c''))" "valid_base64url_segment ''a''" "valid_base64url_segment ''b''"
    by (simp_all add: valid_base64url_segment_def segment_char_def list_all_iff)
  moreover have "length sample_token \<le> 500" by (simp add: sample_token_def)
  ultimately show ?thesis
    unfolding bounded_compact_jws_iff
    by (intro conjI exI [of _ "''a''"] exI [of _ "''b''"] exI [of _ "replicate 86 (CHR ''c'')"])
      (simp_all add: decoded_upper_bound_def)
qed

lemma sample_attach_allowed:
  "\<exists>check s'. inspect_attach attach_wire ''h'' 1 [] 0 fresh_ingress = (check, s') \<and> ik_status check = Ingress_allowed"
proof -
  have "consume_source sample_ingress ''h'' 0 [] =
      ((Ingress_allowed, 0), [(''h'', \<lparr>bk_tokens = 0, bk_updated_at = 0, bk_last_seen = 0, bk_throttles = 0\<rparr>)])"
    using round_double_one by (simp add: Let_def double_seconds_def
        consume_source_def make_room_def sample_ingress_def fresh_bucket_def refill_bucket_def take_token_def)
  moreover have "decode_attach attach_wire [] = Some (sample_token, sample_token)"
    by (simp add: decode_attach_def decode_edge_def decode_message_def parse_envelope_def attach_wire_def
        edge_protocol_version_def)
  moreover have "length sample_token = 90" by (simp add: sample_token_def)
  ultimately show ?thesis
    using sample_token_bounded by (simp add: inspect_attach_def fresh_ingress_def sample_ingress_def Let_def)
qed

lemma allowed_attach_bounded_witness:
  "\<exists>check s'. inspect_attach attach_wire ''h'' 1 [] 0 fresh_ingress = (check, s') \<and>
     in_flight (ci_counters s') = in_flight (ci_counters fresh_ingress) + 1"
proof -
  obtain check s' where c: "inspect_attach attach_wire ''h'' 1 [] 0 fresh_ingress = (check, s')"
    "ik_status check = Ingress_allowed"
    using sample_attach_allowed by blast
  from allowed_attach_bounded [OF c] c(1) show ?thesis by blast
qed

end
