(* ===== verification/Base64_Url.thy ===== *)
theory Base64_Url
  imports RM_Prelude
begin

text \<open>
  The unpadded base64url alphabet of the credential tokens
  (game/common/src/base64url.cpp) and the hex digit decoder (game/common/src/hex.hpp).
  Bytes are 8-bit words, text is a string; the accumulator is a 32-bit word, as in the
  code, so the bits shifted out of it are lost there too.
\<close>

definition alphabet :: string where
  "alphabet = ''ABCDEFGHIJKLMNOPQRSTUVWXYZabcdefghijklmnopqrstuvwxyz0123456789-_''"

definition alphabet_index :: "char \<Rightarrow> int" where
  "alphabet_index c =
     (let v = of_char c :: int in
      if 65 \<le> v \<and> v \<le> 90 then v - 65
      else if 97 \<le> v \<and> v \<le> 122 then v - 97 + 26
      else if 48 \<le> v \<and> v \<le> 57 then v - 48 + 52
      else if v = 45 then 62
      else if v = 95 then 63
      else - 1)"

definition alphabet_char :: "u32 \<Rightarrow> char" where
  "alphabet_char w = alphabet ! unat (w AND 0x3F)"

fun base64url_encode :: "u8 list \<Rightarrow> string" where
  "base64url_encode (x # y # z # rest) =
     (let g = push_bit 16 (ucast x) OR push_bit 8 (ucast y) OR (ucast z :: u32) in
      alphabet_char (drop_bit 18 g) # alphabet_char (drop_bit 12 g) #
      alphabet_char (drop_bit 6 g) # alphabet_char g # base64url_encode rest)"
| "base64url_encode [x] =
     (let v = ucast x :: u32 in
      [alphabet_char (drop_bit 2 v), alphabet_char (push_bit 4 v)])"
| "base64url_encode [x, y] =
     (let v = push_bit 8 (ucast x) OR (ucast y :: u32) in
      [alphabet_char (drop_bit 10 v), alphabet_char (drop_bit 4 v),
       alphabet_char (push_bit 2 v)])"
| "base64url_encode [] = []"

fun decode_loop :: "string \<Rightarrow> u32 \<Rightarrow> nat \<Rightarrow> u8 list \<Rightarrow> (u32 \<times> nat \<times> u8 list) option" where
  "decode_loop [] buffer pending decoded = Some (buffer, pending, decoded)"
| "decode_loop (c # cs) buffer pending decoded =
     (let digit = alphabet_index c in
      if digit < 0 then None
      else let buffer' = push_bit 6 buffer OR word_of_int digit;
               pending' = pending + 6
           in if 8 \<le> pending'
              then decode_loop cs buffer' (pending' - 8)
                     (decoded @ [ucast (drop_bit (pending' - 8) buffer' AND 0xFF)])
              else decode_loop cs buffer' pending' decoded)"

definition base64url_decode :: "string \<Rightarrow> u8 list option" where
  "base64url_decode text =
     (if length text mod 4 = 1 then None
      else case decode_loop text 0 0 [] of
             None \<Rightarrow> None
           | Some (buffer, pending, decoded) \<Rightarrow>
               if 0 < pending \<and> buffer AND (push_bit pending 1 - 1) \<noteq> 0 then None
               else Some decoded)"

definition nibble :: "char \<Rightarrow> int" where
  "nibble c =
     (let v = of_char c :: int in
      if 48 \<le> v \<and> v \<le> 57 then v - 48
      else if 97 \<le> v \<and> v \<le> 102 then v - 97 + 10
      else if 65 \<le> v \<and> v \<le> 70 then v - 65 + 10
      else - 1)"

section \<open>The alphabet\<close>

lemma length_alphabet [simp]: "length alphabet = 64"
  by (simp add: alphabet_def)

lemma alphabet_index_all: "list_all (\<lambda>k. alphabet_index (alphabet ! k) = int k) [0..<64]"
  by code_simp

lemma alphabet_index_nth [simp]: "k < 64 \<Longrightarrow> alphabet_index (alphabet ! k) = int k"
  using alphabet_index_all by (simp add: list_all_iff del: upt_rec_numeral)

lemma alphabet_index_range: "alphabet_index c < 64"
  by (auto simp: alphabet_index_def Let_def)

lemma alphabet_index_inj:
  assumes "alphabet_index c = alphabet_index d" and "0 \<le> alphabet_index d"
  shows "c = d"
proof -
  have "(of_char c :: int) = of_char d"
    using assms by (simp add: alphabet_index_def Let_def del: of_char_eq_iff split: if_splits)
  then show ?thesis
    by simp
qed

lemma alphabet_nth_index:
  assumes "0 \<le> alphabet_index c"
  shows "alphabet ! nat (alphabet_index c) = c"
  using assms alphabet_index_range [of c] by (intro alphabet_index_inj) simp_all

lemma mask6: "(0x3F :: u32) = mask 6"
  by (simp add: mask_eq_exp_minus_1)

lemma mask8: "(0xFF :: u32) = mask 8"
  by (simp add: mask_eq_exp_minus_1)

lemma unat_mask6: "unat (w AND 0x3F :: u32) < 64"
  using take_bit_nat_less_exp [of 6 "unat w"]
  by (simp add: mask6 unsigned_take_bit_eq flip: take_bit_eq_mask)

lemma alphabet_index_char [simp]: "alphabet_index (alphabet_char w) = uint (w AND 0x3F)"
  using unat_mask6 [of w] by (simp add: alphabet_char_def)

section \<open>Decoding undoes encoding\<close>

lemma decode_loop_char:
  "decode_loop (alphabet_char w # cs) buffer pending decoded =
     (let buffer' = push_bit 6 buffer OR (w AND 0x3F); pending' = pending + 6
      in if 8 \<le> pending'
         then decode_loop cs buffer' (pending' - 8)
                (decoded @ [ucast (drop_bit (pending' - 8) buffer' AND 0xFF)])
         else decode_loop cs buffer' pending' decoded)"
  by (simp add: Let_def)

definition push6 :: "u32 \<Rightarrow> u32 \<Rightarrow> u32" where
  "push6 b w = push_bit 6 b OR (w AND 0x3F)"

lemma bit_push6: "n < 32 \<Longrightarrow> bit (push6 b w) n \<longleftrightarrow> (if n < 6 then bit w n else bit b (n - 6))"
  by (auto simp: push6_def mask6 bit_simps)

lemma bit_byte_of: "n < 8 \<Longrightarrow> k \<le> 8 \<Longrightarrow>
    bit (ucast (drop_bit k (w :: u32) AND 0xFF) :: u8) n \<longleftrightarrow> bit w (k + n)"
  by (auto simp: mask8 bit_simps)

lemma bit_byte_low: "n < 8 \<Longrightarrow> bit (ucast ((w :: u32) AND 0xFF) :: u8) n \<longleftrightarrow> bit w n"
  by (auto simp: mask8 bit_simps)

lemma bit_of_byte: "n < 32 \<Longrightarrow> bit (ucast (x :: u8) :: u32) n \<longleftrightarrow> bit x n"
  by (auto simp: bit_simps dest: bit_imp_le_length)

lemma bit_shifted: "n < 32 \<Longrightarrow> bit (push_bit k (w :: u32)) n \<longleftrightarrow> k \<le> n \<and> bit w (n - k)"
  by (auto simp: bit_simps)

lemma bit_group:
  fixes x y z :: u8
  assumes "n < 32"
  shows "bit (push_bit 16 (ucast x) OR push_bit 8 (ucast y) OR (ucast z :: u32)) n \<longleftrightarrow>
     (if n < 8 then bit z n else if n < 16 then bit y (n - 8) else bit x (n - 16))"
  using assms by (auto simp: bit_simps dest: bit_imp_le_length)

lemmas sextet_bits = bit_push6 bit_byte_of bit_byte_low bit_drop_bit_eq bit_of_byte bit_shifted

lemma group_bytes:
  fixes x y z :: u8 and b :: u32
  defines "g \<equiv> push_bit 16 (ucast x) OR push_bit 8 (ucast y) OR (ucast z :: u32)"
  defines "b1 \<equiv> push6 b (drop_bit 18 g)"
  defines "b2 \<equiv> push6 b1 (drop_bit 12 g)"
  defines "b3 \<equiv> push6 b2 (drop_bit 6 g)"
  defines "b4 \<equiv> push6 b3 g"
  shows "ucast (drop_bit 4 b2 AND 0xFF) = x" and "ucast (drop_bit 2 b3 AND 0xFF) = y"
    and "ucast (b4 AND 0xFF) = z"
proof -
  have gb: "bit g n \<longleftrightarrow>
      (if n < 8 then bit z n else if n < 16 then bit y (n - 8) else bit x (n - 16))"
    if "n < 32" for n
    unfolding g_def using that by (rule bit_group)
  show "ucast (drop_bit 4 b2 AND 0xFF) = x"
    by (rule bit_word_eqI) (auto simp: sextet_bits gb b1_def b2_def)
  show "ucast (drop_bit 2 b3 AND 0xFF) = y"
    by (rule bit_word_eqI) (auto simp: sextet_bits gb b1_def b2_def b3_def)
  show "ucast (b4 AND 0xFF) = z"
    by (rule bit_word_eqI) (auto simp: sextet_bits gb b3_def b4_def)
qed

lemma tail_byte_1:
  fixes x :: u8 and b :: u32
  defines "b2 \<equiv> push6 (push6 b (drop_bit 2 (ucast x))) (push_bit 4 (ucast x))"
  shows "ucast (drop_bit 4 b2 AND 0xFF) = x" and "b2 AND mask 4 = 0"
proof -
  show "ucast (drop_bit 4 b2 AND 0xFF) = x"
    by (rule bit_word_eqI) (auto simp: sextet_bits b2_def simp del: add_2_eq_Suc)
  show "b2 AND mask 4 = 0"
    by (rule bit_word_eqI) (auto simp: sextet_bits b2_def bit_and_iff bit_mask_iff)
qed

lemma tail_byte_2:
  fixes x y :: u8 and b :: u32
  defines "v \<equiv> push_bit 8 (ucast x) OR (ucast y :: u32)"
  defines "b2 \<equiv> push6 (push6 b (drop_bit 10 v)) (drop_bit 4 v)"
  defines "b3 \<equiv> push6 b2 (push_bit 2 v)"
  shows "ucast (drop_bit 4 b2 AND 0xFF) = x" and "ucast (drop_bit 2 b3 AND 0xFF) = y"
    and "b3 AND mask 2 = 0"
proof -
  have vb: "bit v n \<longleftrightarrow> (if n < 8 then bit y n else bit x (n - 8))" if "n < 32" for n
    unfolding v_def using that by (auto simp: bit_simps dest: bit_imp_le_length)
  show "ucast (drop_bit 4 b2 AND 0xFF) = x"
    by (rule bit_word_eqI) (auto simp: sextet_bits vb b2_def)
  show "ucast (drop_bit 2 b3 AND 0xFF) = y"
    by (rule bit_word_eqI) (auto simp: sextet_bits vb b2_def b3_def)
  show "b3 AND mask 2 = 0"
    by (rule bit_word_eqI) (auto simp: sextet_bits b3_def bit_and_iff bit_mask_iff)
qed

lemmas decode_char = decode_loop_char [folded push6_def]

declare decode_loop.simps(2) [simp del]

lemma mask_pending: "push_bit n 1 - 1 = (mask n :: u32)"
  by (simp add: mask_eq_exp_minus_1 push_bit_eq_mult)

lemma decode_loop_encode:
  "\<exists>buffer' pending'. decode_loop (base64url_encode bs) buffer 0 acc =
       Some (buffer', pending', acc @ bs) \<and> buffer' AND mask pending' = 0"
proof (induction bs arbitrary: buffer acc rule: base64url_encode.induct)
  case (1 x y z rest)
  have "\<exists>buffer' pending'. decode_loop (base64url_encode rest) b 0 (acc @ [x, y, z]) =
      Some (buffer', pending', (acc @ [x, y, z]) @ rest) \<and> buffer' AND mask pending' = 0" for b
    by (rule "1") (rule refl)
  then show ?case
    by (simp add: Let_def decode_char group_bytes del: drop_bit_or)
next
  case (2 x)
  show ?case
    using tail_byte_1 [of buffer x] by (simp add: Let_def decode_char)
next
  case (3 x y)
  show ?case
    using tail_byte_2 [of buffer x y] by (simp add: Let_def decode_char del: drop_bit_or)
qed simp

lemma length_encode_mod: "length (base64url_encode bs) mod 4 \<noteq> 1"
  by (induction bs rule: base64url_encode.induct) (simp_all add: Let_def)

lemma base64url_decode_mask:
  "base64url_decode text =
     (if length text mod 4 = 1 then None
      else case decode_loop text 0 0 [] of
             None \<Rightarrow> None
           | Some (buffer, pending, decoded) \<Rightarrow>
               if 0 < pending \<and> buffer AND mask pending \<noteq> 0 then None else Some decoded)"
  unfolding base64url_decode_def mask_pending ..

lemma decode_encode [simp]: "base64url_decode (base64url_encode bs) = Some bs"
  using decode_loop_encode [of bs 0 "[]"] length_encode_mod [of bs]
  by (auto simp: base64url_decode_mask)

lemma set_encode: "set (base64url_encode bs) \<subseteq> set alphabet"
proof -
  have "alphabet_char w \<in> set alphabet" for w
    using unat_mask6 [of w] by (simp add: alphabet_char_def)
  then show ?thesis
    by (induction bs rule: base64url_encode.induct) (simp_all add: Let_def)
qed

section \<open>Only the canonical text decodes\<close>

lemma alphabet_char_cong:
  assumes "\<And>n. n < 6 \<Longrightarrow> bit v n \<longleftrightarrow> bit (w :: u32) n"
  shows "alphabet_char v = alphabet_char w"
proof -
  have "v AND 0x3F = w AND 0x3F"
    unfolding mask6 by (rule bit_word_eqI) (use assms in \<open>auto simp: bit_and_iff bit_mask_iff\<close>)
  then show ?thesis
    by (simp add: alphabet_char_def)
qed

lemma char_is_digit:
  assumes "decode_loop (c # cs) b p acc = Some r"
  obtains d where "c = alphabet_char d"
proof
  have pos: "0 \<le> alphabet_index c"
    using assms by (simp add: decode_loop.simps Let_def split: if_splits)
  let ?d = "word_of_int (alphabet_index c) :: u32"
  have "uint (?d AND 0x3F) = alphabet_index c"
    using pos alphabet_index_range [of c]
    by (simp add: mask6 unsigned_take_bit_eq uint_word_of_int_eq take_bit_int_eq_self flip: take_bit_eq_mask)
  then show "c = alphabet_char ?d"
    using alphabet_nth_index [OF pos] by (simp add: alphabet_char_def unat_eq_nat_uint)
qed

lemma canonical_quad:
  fixes b d1 d2 d3 d4 :: u32
  defines "b2 \<equiv> push6 (push6 b d1) d2"
  defines "b3 \<equiv> push6 b2 d3"
  defines "x \<equiv> ucast (drop_bit 4 b2 AND 0xFF) :: u8" and "y \<equiv> ucast (drop_bit 2 b3 AND 0xFF) :: u8"
    and "z \<equiv> ucast (push6 b3 d4 AND 0xFF) :: u8"
  shows "base64url_encode (x # y # z # bs) =
     alphabet_char d1 # alphabet_char d2 # alphabet_char d3 # alphabet_char d4 # base64url_encode bs"
proof -
  define g where "g = push_bit 16 (ucast x) OR push_bit 8 (ucast y) OR (ucast z :: u32)"
  have gb: "bit g n \<longleftrightarrow>
      (if n < 8 then bit z n else if n < 16 then bit y (n - 8) else bit x (n - 16))"
    if "n < 32" for n
    unfolding g_def using that by (rule bit_group)
  have "alphabet_char (drop_bit 18 g) = alphabet_char d1"
    by (rule alphabet_char_cong) (auto simp: sextet_bits gb x_def b2_def)
  moreover have "alphabet_char (drop_bit 12 g) = alphabet_char d2"
    by (rule alphabet_char_cong) (auto simp: sextet_bits gb x_def y_def b2_def b3_def)
  moreover have "alphabet_char (drop_bit 6 g) = alphabet_char d3"
    by (rule alphabet_char_cong) (auto simp: sextet_bits gb z_def y_def b2_def b3_def simp del: add_2_eq_Suc)
  moreover have "alphabet_char g = alphabet_char d4"
    by (rule alphabet_char_cong) (auto simp: sextet_bits gb z_def)
  ultimately show ?thesis
    by (simp add: Let_def g_def [symmetric] del: drop_bit_or)
qed

lemma canonical_tail_2:
  fixes b d1 d2 :: u32
  defines "b2 \<equiv> push6 (push6 b d1) d2"
  assumes "b2 AND mask 4 = 0"
  shows "base64url_encode [ucast (drop_bit 4 b2 AND 0xFF)] = [alphabet_char d1, alphabet_char d2]"
proof -
  define x where "x = (ucast (drop_bit 4 b2 AND 0xFF) :: u8)"
  have low: "\<not> bit b2 n" if "n < 4" for n
    using arg_cong [OF assms(2), of "\<lambda>w. bit w n"] that by (simp add: bit_and_iff bit_mask_iff)
  have "alphabet_char (drop_bit 2 (ucast x)) = alphabet_char d1"
    by (rule alphabet_char_cong)
      (auto simp: sextet_bits x_def b2_def simp del: add_2_eq_Suc)
  moreover have "alphabet_char (push_bit 4 (ucast x)) = alphabet_char d2"
  proof (rule alphabet_char_cong)
    fix n :: nat assume "n < 6"
    then show "bit (push_bit 4 (ucast x) :: u32) n \<longleftrightarrow> bit d2 n"
      using low [of n] by (cases "n < 4") (auto simp: sextet_bits x_def b2_def)
  qed
  ultimately show ?thesis
    by (simp add: Let_def x_def)
qed

lemma canonical_tail_3:
  fixes b d1 d2 d3 :: u32
  defines "b2 \<equiv> push6 (push6 b d1) d2"
  defines "b3 \<equiv> push6 b2 d3"
  assumes "b3 AND mask 2 = 0"
  shows "base64url_encode [ucast (drop_bit 4 b2 AND 0xFF), ucast (drop_bit 2 b3 AND 0xFF)] =
    [alphabet_char d1, alphabet_char d2, alphabet_char d3]"
proof -
  define x y where "x = (ucast (drop_bit 4 b2 AND 0xFF) :: u8)"
    and "y = (ucast (drop_bit 2 b3 AND 0xFF) :: u8)"
  define v where "v = push_bit 8 (ucast x) OR (ucast y :: u32)"
  have vb: "bit v n \<longleftrightarrow> (if n < 8 then bit y n else bit x (n - 8))" if "n < 32" for n
    unfolding v_def using that by (auto simp: bit_simps dest: bit_imp_le_length)
  have low: "\<not> bit b3 n" if "n < 2" for n
    using arg_cong [OF assms(3), of "\<lambda>w. bit w n"] that by (simp add: bit_and_iff bit_mask_iff)
  have "alphabet_char (drop_bit 10 v) = alphabet_char d1"
    by (rule alphabet_char_cong) (auto simp: sextet_bits vb x_def b2_def simp del: add_2_eq_Suc)
  moreover have "alphabet_char (drop_bit 4 v) = alphabet_char d2"
    by (rule alphabet_char_cong)
      (auto simp: sextet_bits vb x_def y_def b2_def b3_def simp del: add_2_eq_Suc)
  moreover have "alphabet_char (push_bit 2 v) = alphabet_char d3"
  proof (rule alphabet_char_cong)
    fix n :: nat assume "n < 6"
    then show "bit (push_bit 2 v) n \<longleftrightarrow> bit d3 n"
      using low [of n]
      by (cases "n < 2") (auto simp: sextet_bits vb y_def b3_def simp del: add_2_eq_Suc)
  qed
  ultimately show ?thesis
    by (simp add: Let_def x_def [symmetric] y_def [symmetric] v_def [symmetric] del: drop_bit_or)
qed

lemma decode_loop_canonical:
  "decode_loop t b 0 acc = Some (b', p', out) \<Longrightarrow> p' = 0 \<or> b' AND mask p' = 0 \<Longrightarrow>
   length t mod 4 \<noteq> 1 \<Longrightarrow> \<exists>bs. out = acc @ bs \<and> base64url_encode bs = t"
proof (induction "length t" arbitrary: t b acc rule: less_induct)
  case less
  note run = less.prems(1)
  show ?case
  proof (cases t)
    case Nil
    with run show ?thesis by simp
  next
    case (Cons c1 t1)
    obtain d1 where d1: "c1 = alphabet_char d1"
      using run Cons by (auto elim: char_is_digit)
    have t1: "t1 \<noteq> []"
      using less.prems(3) Cons by auto
    then obtain c2 t2 where t2: "t1 = c2 # t2"
      by (cases t1) auto
    have run2: "decode_loop (c2 # t2) (push6 b d1) 6 acc = Some (b', p', out)"
      using run Cons d1 t2 by (simp add: decode_char)
    obtain d2 where d2: "c2 = alphabet_char d2"
      using run2 by (rule char_is_digit)
    let ?b2 = "push6 (push6 b d1) d2" and ?x = "ucast (drop_bit 4 (push6 (push6 b d1) d2) AND 0xFF) :: u8"
    have run3: "decode_loop t2 ?b2 4 (acc @ [?x]) = Some (b', p', out)"
      using run2 d2 by (simp add: decode_char Let_def)
    show ?thesis
    proof (cases t2)
      case Nil
      then have "b' = ?b2" "p' = 4" "out = acc @ [?x]"
        using run3 by auto
      then show ?thesis
        using canonical_tail_2 [of b d1 d2] less.prems(2) Nil Cons t2 d1 d2 by auto
    next
      case t3: (Cons c3 t3)
      obtain d3 where d3: "c3 = alphabet_char d3"
        using run3 t3 by (auto elim: char_is_digit)
      let ?b3 = "push6 ?b2 d3" and ?y = "ucast (drop_bit 2 (push6 ?b2 d3) AND 0xFF) :: u8"
      have run4: "decode_loop t3 ?b3 2 (acc @ [?x, ?y]) = Some (b', p', out)"
        using run3 t3 d3 by (simp add: decode_char Let_def)
      show ?thesis
      proof (cases t3)
        case Nil
        then have "b' = ?b3" "p' = 2" "out = acc @ [?x, ?y]"
          using run4 by auto
        then show ?thesis
          using canonical_tail_3 [of b d1 d2 d3] less.prems(2) Nil t3 Cons t2 d1 d2 d3 by auto
      next
        case t4: (Cons c4 t4)
        obtain d4 where d4: "c4 = alphabet_char d4"
          using run4 t4 by (auto elim: char_is_digit)
        let ?b4 = "push6 ?b3 d4" and ?z = "ucast (push6 ?b3 d4 AND 0xFF) :: u8"
        have run5: "decode_loop t4 ?b4 0 (acc @ [?x, ?y, ?z]) = Some (b', p', out)"
          using run4 t4 d4 by (simp add: decode_char Let_def)
        have "length t mod 4 = length t4 mod 4"
          using Cons t2 t3 t4 by simp
        then obtain bs where "out = (acc @ [?x, ?y, ?z]) @ bs" "base64url_encode bs = t4"
          using less.hyps [OF _ run5] less.prems(2,3) Cons t2 t3 t4 by auto
        then show ?thesis
          using canonical_quad [of b d1 d2 d3 d4 bs] Cons t2 t3 t4 d1 d2 d3 d4 by auto
      qed
    qed
  qed
qed

lemma encode_decode:
  assumes "base64url_decode t = Some bs"
  shows "base64url_encode bs = t"
  using assms decode_loop_canonical [of t 0 "[]"]
  by (auto simp: base64url_decode_mask split: if_splits option.splits prod.splits)

section \<open>Properties\<close>

text \<open>Decoding and encoding are inverse: a text decodes to some bytes exactly when it is
  the encoding of these bytes, so padding, foreign characters and non-zero trailing bits are
  refused and no two texts stand for the same bytes.\<close>

lemma base64url_canonical:
  "base64url_decode text_in = Some bs \<longleftrightarrow> text_in = base64url_encode bs"
  using encode_decode by auto

end
