(* ===== verification/Flat_Json.thy ===== *)
theory Flat_Json
  imports RM_Prelude "HOL-Library.List_Lexorder" "HOL-Library.Char_ord"
    "HOL-Library.Multiset"
begin

text \<open>
  The minimal JSON codec of the credential claims (game/common/src/json.cpp): flat
  objects of strings, 64-bit integers and booleans. A \<open>std::map\<close> ordered by key is an
  association list with strictly increasing keys (bytewise order, which is the order of
  \<open>std::string\<close>); the index cursor of the parser is the suffix of the input still to be
  read; unsigned magnitudes are naturals below the limits the code checks.
\<close>

datatype json_value = Jstring string | Jint int | Jbool bool

type_synonym json_object = "(string \<times> json_value) list"

definition int64_max :: nat where
  "int64_max = 9223372036854775807"

definition int64_min_magnitude :: nat where
  "int64_min_magnitude = 9223372036854775808"

section \<open>Encoding\<close>

abbreviation (input) "backslash \<equiv> CHR 0x5C"
abbreviation (input) "quote \<equiv> CHR 0x22"

definition hex_digits :: string where
  "hex_digits = ''0123456789abcdef''"

text \<open>The control character and the letter after the backslash in its escape text.\<close>

definition escapes :: "(char \<times> char) list" where
  "escapes =
     [(quote, quote), (backslash, backslash), (CHR 0x08, CHR ''b''), (CHR 0x0C, CHR ''f''),
      (CHR 0x0A, CHR ''n''), (CHR 0x0D, CHR ''r''), (CHR 0x09, CHR ''t'')]"

definition find_escape_text :: "char \<Rightarrow> string option" where
  "find_escape_text c = map_option (\<lambda>l. [backslash, l]) (map_of escapes c)"

definition encode_char :: "char \<Rightarrow> string" where
  "encode_char c =
     (case find_escape_text c of
        Some escaped \<Rightarrow> escaped
      | None \<Rightarrow>
          (let byte = of_char c :: nat in
           if byte < 0x20
           then [backslash, CHR ''u'', CHR ''0'', CHR ''0'',
                 hex_digits ! (drop_bit 4 byte), hex_digits ! (byte AND 0x0F)]
           else [c]))"

definition encode_string :: "string \<Rightarrow> string" where
  "encode_string value = quote # concat (map encode_char value) @ [quote]"

fun encode_value :: "json_value \<Rightarrow> string" where
  "encode_value (Jstring text) = encode_string text"
| "encode_value (Jint number) = show_int number"
| "encode_value (Jbool b) = (if b then ''true'' else ''false'')"

fun encode_members :: "bool \<Rightarrow> json_object \<Rightarrow> string" where
  "encode_members first [] = ''''"
| "encode_members first ((k, v) # rest) =
     (if first then '''' else '','') @ encode_string k @ '':'' @ encode_value v @
     encode_members False rest"

definition json_encode :: "json_object \<Rightarrow> string" where
  "json_encode obj = ''{'' @ encode_members True obj @ ''}''"

section \<open>The ordered object\<close>

text \<open>\<open>std::map::emplace\<close>: no change, and \<open>False\<close>, when the key is present.\<close>

fun emplace :: "string \<Rightarrow> json_value \<Rightarrow> json_object \<Rightarrow> json_object \<times> bool" where
  "emplace k v [] = ([(k, v)], True)"
| "emplace k v ((k', v') # rest) =
     (if k < k' then ((k, v) # (k', v') # rest, True)
      else if k = k' then ((k', v') # rest, False)
      else case emplace k v rest of (rest', ok) \<Rightarrow> ((k', v') # rest', ok))"

text \<open>Brace initialisation inserts the members one by one.\<close>

definition json_object_of :: "(string \<times> json_value) list \<Rightarrow> json_object" where
  "json_object_of members = foldl (\<lambda>obj (k, v). fst (emplace k v obj)) [] members"

definition json_string_member :: "json_object \<Rightarrow> string \<Rightarrow> string option" where
  "json_string_member obj k =
     (case map_of obj k of Some (Jstring s) \<Rightarrow> Some s | _ \<Rightarrow> None)"

definition json_int_member :: "json_object \<Rightarrow> string \<Rightarrow> int option" where
  "json_int_member obj k = (case map_of obj k of Some (Jint i) \<Rightarrow> Some i | _ \<Rightarrow> None)"

section \<open>Parsing\<close>

definition is_hex :: "char \<Rightarrow> bool" where
  "is_hex c \<longleftrightarrow> is_digit c \<or> (97 \<le> (of_char c :: nat) \<and> (of_char c :: nat) \<le> 102)"

definition hex_value :: "char \<Rightarrow> nat" where
  "hex_value c = (if is_digit c then of_char c - 48 else of_char c - 97 + 10)"

definition is_space :: "char \<Rightarrow> bool" where
  "is_space c \<longleftrightarrow> c = CHR 0x20 \<or> c = CHR 0x09 \<or> c = CHR 0x0A \<or> c = CHR 0x0D"

definition skip_whitespace :: "string \<Rightarrow> string" where
  "skip_whitespace cs = dropWhile is_space cs"

fun consume :: "char \<Rightarrow> string \<Rightarrow> string option" where
  "consume expected [] = None"
| "consume expected (c # cs) = (if c = expected then Some cs else None)"

definition parse_unicode_escape :: "string \<Rightarrow> string \<Rightarrow> (string \<times> string) option" where
  "parse_unicode_escape cs out =
     (if length cs < 4 then None
      else if \<not> list_all is_hex (take 4 cs) then None
      else let code = foldl (\<lambda>code c. push_bit 4 code OR hex_value c) (0 :: nat) (take 4 cs);
               rest = drop 4 cs
           in if 0xD800 \<le> code \<and> code \<le> 0xDFFF then None
              else if code < 0x80 then Some (out @ [char_of code], rest)
              else if code < 0x800
              then Some (out @ [char_of (0xC0 OR drop_bit 6 code),
                                char_of (0x80 OR (code AND 0x3F))], rest)
              else Some (out @ [char_of (0xE0 OR drop_bit 12 code),
                                char_of (0x80 OR (drop_bit 6 code AND 0x3F)),
                                char_of (0x80 OR (code AND 0x3F))], rest))"

fun parse_escape :: "string \<Rightarrow> string \<Rightarrow> (string \<times> string) option" where
  "parse_escape [] out = None"
| "parse_escape (c # cs) out =
     (case find (\<lambda>(control, l). l = c) escapes of
        Some (control, l) \<Rightarrow> Some (out @ [control], cs)
      | None \<Rightarrow> if c = CHR ''u'' then parse_unicode_escape cs out else None)"

lemma parse_escape_decreases:
  "parse_escape cs out = Some (out', rest) \<Longrightarrow> length rest < length cs"
  by (cases cs) (auto simp: parse_unicode_escape_def Let_def split: option.splits if_splits)

function parse_chars :: "string \<Rightarrow> string \<Rightarrow> (string \<times> string) option" where
  "parse_chars [] out = None"
| "parse_chars (c # cs) out =
     (if c = quote then Some (out, cs)
      else if c = backslash
      then (case parse_escape cs out of
              None \<Rightarrow> None
            | Some (out', cs') \<Rightarrow> parse_chars cs' out')
      else if (of_char c :: nat) < 0x20 then None
      else parse_chars cs (out @ [c]))"
  by pat_completeness auto
termination
  by (relation "measure (\<lambda>(cs, out). length cs)") (auto dest: parse_escape_decreases)

definition parse_string :: "string \<Rightarrow> (string \<times> string) option" where
  "parse_string cs = (case consume quote cs of None \<Rightarrow> None | Some cs' \<Rightarrow> parse_chars cs' [])"

definition parse_bool_word :: "string \<Rightarrow> bool \<Rightarrow> string \<Rightarrow> (json_value \<times> string) option" where
  "parse_bool_word word b cs =
     (if take (length word) cs = word then Some (Jbool b, drop (length word) cs) else None)"

definition is_rejected_number_char :: "char \<Rightarrow> bool" where
  "is_rejected_number_char c \<longleftrightarrow> c = CHR ''.'' \<or> c = CHR ''e'' \<or> c = CHR ''E''"

text \<open>The digits were checked by the scan; the accumulation repeats no test on them.\<close>

definition parse_number :: "string \<Rightarrow> (json_value \<times> string) option" where
  "parse_number cs =
     (let (negative, ds) = (case consume CHR ''-'' cs of None \<Rightarrow> (False, cs) | Some r \<Rightarrow> (True, r))
      in if ds = [] \<or> \<not> is_digit (hd ds) then None
         else let (digits, rest) =
                (if hd ds = CHR ''0'' then (''0'', tl ds)
                 else (takeWhile is_digit ds, dropWhile is_digit ds))
              in if hd ds = CHR ''0'' \<and> rest \<noteq> [] \<and> is_digit (hd rest) then None
                 else if rest \<noteq> [] \<and> is_rejected_number_char (hd rest) then None
                 else (let limit = (if negative then int64_min_magnitude else int64_max)
                       in case decimal_loop limit 0 digits of
                            None \<Rightarrow> None
                          | Some magnitude \<Rightarrow>
                              Some (Jint (if negative then - int magnitude else int magnitude),
                                    rest)))"

definition parse_value :: "string \<Rightarrow> (json_value \<times> string) option" where
  "parse_value cs =
     (case cs of
        [] \<Rightarrow> None
      | c # _ \<Rightarrow>
          if c = quote then map_option (\<lambda>(s, rest). (Jstring s, rest)) (parse_string cs)
          else if c = CHR ''t'' then parse_bool_word ''true'' True cs
          else if c = CHR ''f'' then parse_bool_word ''false'' False cs
          else if c = CHR ''-'' \<or> is_digit c then parse_number cs
          else None)"

lemma skip_length: "length (skip_whitespace cs) \<le> length cs"
  by (simp add: skip_whitespace_def length_dropWhile_le)

lemma consume_length: "consume c cs = Some rest \<Longrightarrow> length rest < length cs"
  by (cases cs) (auto split: if_splits)

lemma parse_chars_length: "parse_chars cs out = Some (s, rest) \<Longrightarrow> length rest < length cs"
proof (induction cs out rule: parse_chars.induct)
  case (2 c cs out)
  then show ?case
    by (fastforce split: if_splits option.splits dest: parse_escape_decreases)
qed simp

lemma parse_string_length: "parse_string cs = Some (s, rest) \<Longrightarrow> length rest < length cs"
  by (fastforce simp: parse_string_def split: option.splits
      dest: consume_length parse_chars_length)

lemma parse_number_length: "parse_number cs = Some (v, rest) \<Longrightarrow> length rest \<le> length cs"
  by (auto simp: parse_number_def Let_def neq_Nil_conv split: option.splits if_splits prod.splits
      dest!: consume_length intro: le_trans less_imp_le le_trans [OF length_dropWhile_le])

lemma parse_value_length: "parse_value cs = Some (v, rest) \<Longrightarrow> length rest \<le> length cs"
  by (auto simp: parse_value_def parse_bool_word_def split: list.splits if_splits
      dest: parse_string_length parse_number_length)

text \<open>One turn of the member loop: key, colon, value; then the separator.\<close>

definition parse_member :: "string \<Rightarrow> json_object \<Rightarrow> (json_object \<times> string) option" where
  "parse_member cs obj =
     (case parse_string (skip_whitespace cs) of
        None \<Rightarrow> None
      | Some (k, cs1) \<Rightarrow>
        (case consume CHR '':'' (skip_whitespace cs1) of
           None \<Rightarrow> None
         | Some cs2 \<Rightarrow>
           (case parse_value (skip_whitespace cs2) of
              None \<Rightarrow> None
            | Some (v, cs3) \<Rightarrow>
                (let (obj', inserted) = emplace k v obj
                 in if inserted then Some (obj', skip_whitespace cs3) else None))))"

lemma parse_member_length: "parse_member cs obj = Some (obj', rest) \<Longrightarrow> length rest < length cs"
  by (auto simp: parse_member_def Let_def split: option.splits prod.splits if_splits
      dest!: parse_string_length consume_length parse_value_length
      intro: le_less_trans [OF skip_length])
    (meson le_less_trans less_le_trans less_or_eq_imp_le order.trans skip_length)

function parse_members :: "string \<Rightarrow> json_object \<Rightarrow> (json_object \<times> string) option" where
  "parse_members cs obj =
     (case parse_member cs obj of
        None \<Rightarrow> None
      | Some (obj', cs') \<Rightarrow>
          (case consume CHR '','' cs' of
             Some rest \<Rightarrow> parse_members rest obj'
           | None \<Rightarrow>
               (case consume CHR ''}'' cs' of
                  Some rest \<Rightarrow> Some (obj', rest)
                | None \<Rightarrow> None)))"
  by pat_completeness auto
termination
  by (relation "measure (\<lambda>(cs, obj). length cs)")
    (auto dest!: parse_member_length consume_length)

declare parse_members.simps [simp del]

definition default_max_input_size :: nat where
  "default_max_input_size = 4 * 1024"

definition json_decode_max :: "string \<Rightarrow> nat \<Rightarrow> json_object option" where
  "json_decode_max input max_input_size =
     (if max_input_size < length input then None
      else case consume CHR ''{'' (skip_whitespace input) of
             None \<Rightarrow> None
           | Some cs \<Rightarrow>
               (case consume CHR ''}'' (skip_whitespace cs) of
                  Some rest \<Rightarrow> if skip_whitespace rest = [] then Some [] else None
                | None \<Rightarrow>
                    (case parse_members (skip_whitespace cs) [] of
                       None \<Rightarrow> None
                     | Some (obj, rest) \<Rightarrow>
                         if skip_whitespace rest = [] then Some obj else None)))"

definition json_decode :: "string \<Rightarrow> json_object option" where
  "json_decode input = json_decode_max input default_max_input_size"

section \<open>Objects keep their keys strictly increasing\<close>

definition json_wf :: "json_object \<Rightarrow> bool" where
  "json_wf obj \<longleftrightarrow> sorted_wrt (<) (map fst obj)"

fun value_ok :: "json_value \<Rightarrow> bool" where
  "value_ok (Jint i) \<longleftrightarrow> - int int64_min_magnitude \<le> i \<and> i \<le> int int64_max"
| "value_ok _ \<longleftrightarrow> True"

definition json_ok :: "json_object \<Rightarrow> bool" where
  "json_ok obj \<longleftrightarrow> json_wf obj \<and> (\<forall>(k, v) \<in> set obj. value_ok v)"

lemma emplace_keys:
  "json_wf obj \<Longrightarrow> emplace k v obj = (obj', True) \<Longrightarrow>
     set obj' = insert (k, v) (set obj) \<and> k \<notin> fst ` set obj"
proof (induction k v obj arbitrary: obj' rule: emplace.induct)
  case (2 k v k' v' rest)
  have wf: "json_wf rest" "\<forall>x \<in> fst ` set rest. k' < x"
    using "2.prems"(1) by (auto simp: json_wf_def)
  show ?case
  proof (cases "k < k'")
    case True
    then show ?thesis
      using "2.prems"(2) wf(2) by (auto dest: less_trans less_asym)
  next
    case False
    obtain rest' where "k \<noteq> k'" "emplace k v rest = (rest', True)" "obj' = (k', v') # rest'"
      using "2.prems"(2) False by (auto split: if_splits prod.splits)
    then show ?thesis
      using "2.IH" [OF False _ wf(1)] by auto
  qed
qed auto

lemma emplace_set: "set (fst (emplace k v obj)) \<subseteq> insert (k, v) (set obj)"
  by (induction k v obj rule: emplace.induct) (auto split: prod.splits)

lemma emplace_fresh:
  "k \<notin> fst ` set obj \<Longrightarrow> set (fst (emplace k v obj)) = insert (k, v) (set obj)"
  by (induction k v obj rule: emplace.induct) (auto split: prod.splits)

lemma emplace_wf: "json_wf obj \<Longrightarrow> json_wf (fst (emplace k v obj))"
proof (induction k v obj rule: emplace.induct)
  case (2 k v k' v' rest)
  then show ?case
    using emplace_set [of k v rest]
    by (fastforce simp: json_wf_def split: prod.splits)
qed (simp add: json_wf_def)

lemma emplace_last:
  "\<forall>k' \<in> fst ` set obj. k' < k \<Longrightarrow> emplace k v obj = (obj @ [(k, v)], True)"
proof (induction k v obj rule: emplace.induct)
  case (2 k v k' v' rest)
  then have "\<not> k < k'" "k \<noteq> k'" "emplace k v rest = (rest @ [(k, v)], True)"
    by (auto dest: less_asym)
  then show ?case by simp
qed simp

section \<open>Strings survive the round trip\<close>

lemma hex_digit_value:
  "n < 16 \<Longrightarrow> is_hex (hex_digits ! n) \<and> hex_value (hex_digits ! n) = n"
proof -
  have "list_all (\<lambda>n. is_hex (hex_digits ! n) \<and> hex_value (hex_digits ! n) = n) [0..<16]"
    by code_simp
  then show "n < 16 \<Longrightarrow> is_hex (hex_digits ! n) \<and> hex_value (hex_digits ! n) = n"
    by (simp add: list_all_iff del: upt_rec_numeral)
qed

lemma control_char_parse:
  assumes "(of_char c :: nat) < 0x20"
  shows "parse_unicode_escape
     (CHR ''0'' # CHR ''0'' # hex_digits ! (of_char c div 16) # hex_digits ! (of_char c mod 16) # rest)
     out = Some (out @ [c], rest)"
proof -
  let ?b = "of_char c :: nat"
  have b: "?b div 16 < 16" "?b mod 16 < 16"
    using assms by simp_all
  have zero: "is_hex CHR ''0''" "hex_value CHR ''0'' = 0"
    by (simp_all add: is_hex_def hex_value_def is_digit_def)
  have "push_bit 4 (?b div 16) OR ?b mod 16 = push_bit 4 (drop_bit 4 ?b) OR take_bit 4 ?b"
    by (simp add: drop_bit_eq_div take_bit_eq_mod)
  also have "\<dots> = ?b"
  proof (rule bit_eqI)
    fix n :: nat
    show "bit (push_bit 4 (drop_bit 4 ?b) OR take_bit 4 ?b) n \<longleftrightarrow> bit ?b n"
      by (cases "n < 4") (auto simp: bit_simps)
  qed
  finally have code: "foldl (\<lambda>code c. push_bit 4 code OR hex_value c) (0 :: nat)
      [CHR ''0'', CHR ''0'', hex_digits ! (?b div 16), hex_digits ! (?b mod 16)] = ?b"
    using hex_digit_value [OF b(1)] hex_digit_value [OF b(2)] zero by simp
  have hex: "list_all is_hex
      [CHR ''0'', CHR ''0'', hex_digits ! (?b div 16), hex_digits ! (?b mod 16)]"
    using hex_digit_value [OF b(1)] hex_digit_value [OF b(2)] zero by simp
  show ?thesis
    using code hex assms by (simp add: parse_unicode_escape_def Let_def del: foldl.simps)
qed

lemma escapes_find:
  assumes "map_of escapes c = Some l"
  shows "find (\<lambda>(control, l'). l' = l) escapes = Some (c, l)"
proof -
  have "list_all (\<lambda>(c, l). find (\<lambda>(control, l'). l' = l) escapes = Some (c, l)) escapes"
    by (simp add: escapes_def)
  then show ?thesis
    using map_of_SomeD [OF assms] by (auto simp: list_all_iff)
qed

lemma escapes_none: "map_of escapes c = None \<Longrightarrow> c \<noteq> quote \<and> c \<noteq> backslash"
  by (auto simp: escapes_def split: if_splits)

lemma escapes_not_u: "find (\<lambda>(control, l'). l' = CHR ''u'') escapes = None"
  by (simp add: escapes_def)

lemma parse_encoded_char:
  "parse_chars (encode_char c @ rest) out = parse_chars rest (out @ [c])"
proof (cases "map_of escapes c")
  case (Some l)
  then show ?thesis
    using escapes_find [OF Some] by (simp add: encode_char_def find_escape_text_def)
next
  case None
  have nibbles: "drop_bit 4 (of_char c :: nat) = of_char c div 16"
      "(of_char c :: nat) AND 15 = of_char c mod 16"
    using take_bit_eq_mask [of 4 "of_char c :: nat"]
    by (simp_all add: drop_bit_eq_div take_bit_eq_mod mask_eq_exp_minus_1)
  show ?thesis
    using escapes_none [OF None] None escapes_not_u control_char_parse [of c rest out]
    by (auto simp: encode_char_def find_escape_text_def Let_def nibbles)
qed

lemma parse_encoded_chars:
  "parse_chars (concat (map encode_char s) @ quote # rest) out = Some (out @ s, rest)"
  by (induction s arbitrary: out) (simp_all add: parse_encoded_char)

lemma parse_encoded_string [simp]: "parse_string (encode_string s @ rest) = Some (s, rest)"
  by (simp add: parse_string_def encode_string_def parse_encoded_chars)

section \<open>Values survive the round trip\<close>

lemma hd_show_nat_digit [simp]: "is_digit (hd (show_nat n))"
  using show_nat_digits [of n] hd_in_set [OF show_nat_nonempty, of n] by (simp add: list_all_iff)

lemma digit_not_space: "is_digit c \<Longrightarrow> \<not> is_space c"
  by (auto simp: is_digit_def is_space_def)

definition ends_value :: "string \<Rightarrow> bool" where
  "ends_value rest \<longleftrightarrow> rest \<noteq> [] \<and> \<not> is_digit (hd rest) \<and> \<not> is_rejected_number_char (hd rest)"

lemma span_digits:
  assumes "list_all is_digit ds" and "ends_value rest"
  shows "takeWhile is_digit (ds @ rest) = ds" and "dropWhile is_digit (ds @ rest) = rest"
  using assms by (auto simp: ends_value_def list_all_iff takeWhile_append dropWhile_append
      neq_Nil_conv)

lemma parse_shown_nat:
  assumes "ends_value rest" and "n \<le> (if negative then int64_min_magnitude else int64_max)"
  shows "parse_number ((if negative then [CHR ''-''] else []) @ show_nat n @ rest) =
     Some (Jint (if negative then - int n else int n), rest)"
proof -
  let ?ds = "show_nat n @ rest"
  have dig: "list_all is_digit (show_nat n)" "hd ?ds = hd (show_nat n)" "is_digit (hd (show_nat n))"
    using show_nat_digits [of n] by simp_all
  have split: "consume CHR ''-'' ?ds = None"
    using dig by (cases "show_nat n") (auto simp: is_digit_def)
  have start: "(case consume CHR ''-'' ((if negative then [CHR ''-''] else []) @ ?ds) of
      None \<Rightarrow> (False, (if negative then [CHR ''-''] else []) @ ?ds) | Some r \<Rightarrow> (True, r)) =
      (negative, ?ds)"
    using split by simp
  show ?thesis
  proof (cases "n = 0")
    case True
    then show ?thesis
      using assms start by (auto simp: parse_number_def Let_def ends_value_def is_digit_def
          digit_value_def int64_max_def int64_min_magnitude_def)
  next
    case False
    then show ?thesis
      using assms start dig span_digits [OF dig(1) assms(1)]
      by (auto simp: parse_number_def Let_def hd_show_nat ends_value_def)
  qed
qed

lemma parse_value_digits:
  "cs \<noteq> [] \<Longrightarrow> hd cs = CHR ''-'' \<or> is_digit (hd cs) \<Longrightarrow> parse_value cs = parse_number cs"
  by (auto simp: parse_value_def is_digit_def split: list.split)

lemma parse_encoded_value:
  assumes "value_ok v" and "ends_value rest"
  shows "parse_value (encode_value v @ rest) = Some (v, rest)"
proof (cases v)
  case (Jstring s)
  then show ?thesis
    using parse_encoded_string [of s rest]
    by (simp add: parse_value_def encode_string_def)
next
  case (Jbool b)
  then show ?thesis
    by (simp add: parse_value_def parse_bool_word_def)
next
  case (Jint i)
  have dig: "is_digit (hd (show_nat n @ rest))" for n
    by simp
  have "parse_number (show_int i @ rest) = Some (Jint i, rest)"
    using parse_shown_nat [OF assms(2), of "nat (- i)" True]
      parse_shown_nat [OF assms(2), of "nat i" False] assms(1) Jint
    by (auto simp: show_int_def)
  then show ?thesis
    using Jint dig parse_value_digits [of "show_int i @ rest"] by (auto simp: show_int_def)
qed

section \<open>Objects survive the round trip\<close>

lemma skip_not_space: "cs \<noteq> [] \<Longrightarrow> \<not> is_space (hd cs) \<Longrightarrow> skip_whitespace cs = cs"
  by (cases cs) (simp_all add: skip_whitespace_def)

lemma skip_encoded_string [simp]: "skip_whitespace (encode_string s @ rest) = encode_string s @ rest"
  by (rule skip_not_space) (simp_all add: encode_string_def is_space_def)

lemma encode_value_start: "encode_value v \<noteq> [] \<and> \<not> is_space (hd (encode_value v @ rest))"
proof (cases v)
  case (Jint i)
  have "\<not> is_space (hd (show_nat n))" for n
    by (simp add: digit_not_space)
  then show ?thesis
    using Jint by (simp add: show_int_def is_space_def)
qed (auto simp: encode_string_def is_space_def)

lemma skip_encoded_value [simp]: "skip_whitespace (encode_value v @ rest) = encode_value v @ rest"
  using encode_value_start [of v rest] by (intro skip_not_space) auto

lemma parse_encoded_member:
  assumes "value_ok v" and "ends_value rest" and "skip_whitespace rest = rest"
    and "\<forall>k' \<in> fst ` set obj. k' < k"
  shows "parse_member (encode_string k @ CHR '':'' # encode_value v @ rest) obj =
     Some (obj @ [(k, v)], rest)"
  using assms parse_encoded_value [OF assms(1,2)] emplace_last [OF assms(4)]
  by (simp add: parse_member_def skip_not_space is_space_def)

lemma ends_comma [simp]: "ends_value (CHR '','' # cs)" and ends_brace [simp]: "ends_value (CHR ''}'' # cs)"
  by (simp_all add: ends_value_def is_digit_def is_rejected_number_char_def)

lemma skip_comma [simp]: "skip_whitespace (CHR '','' # cs) = CHR '','' # cs"
  and skip_brace [simp]: "skip_whitespace (CHR ''}'' # cs) = CHR ''}'' # cs"
  by (simp_all add: skip_whitespace_def is_space_def)

lemma parse_encoded_members:
  "members \<noteq> [] \<Longrightarrow> json_ok (obj @ members) \<Longrightarrow>
   parse_members (encode_members True members @ CHR ''}'' # rest) obj = Some (obj @ members, rest)"
proof (induction members arbitrary: obj)
  case (Cons m members)
  obtain k v where m: "m = (k, v)"
    by (cases m)
  have ok: "value_ok v" "\<forall>k' \<in> fst ` set obj. k' < k"
    using Cons.prems(2) by (auto simp: m json_ok_def json_wf_def sorted_wrt_append)
  show ?case
  proof (cases members)
    case Nil
    then show ?thesis
      using parse_encoded_member [OF ok(1) _ _ ok(2), of "CHR ''}'' # rest"]
      by (simp add: m parse_members.simps)
  next
    case (Cons m' members')
    obtain k' v' where m': "m' = (k', v')"
      by (cases m')
    let ?tail = "encode_members True members @ CHR ''}'' # rest"
    have tail: "encode_members False members @ CHR ''}'' # rest = CHR '','' # ?tail"
      by (simp add: Cons m')
    have "parse_members ?tail (obj @ [m]) = Some ((obj @ [m]) @ members, rest)"
      by (rule Cons.IH) (use Cons.prems Cons in simp_all)
    moreover have "parse_member (encode_string k @ CHR '':'' # encode_value v @ CHR '','' # ?tail) obj =
        Some (obj @ [m], CHR '','' # ?tail)"
      using parse_encoded_member [OF ok(1) _ _ ok(2)] by (simp add: m)
    ultimately have "parse_members (encode_string k @ CHR '':'' # encode_value v @ CHR '','' # ?tail) obj =
        Some (obj @ m # members, rest)"
      by (subst parse_members.simps) simp
    then show ?thesis
      using tail by (simp add: m)
  qed
qed simp

lemma json_decode_encode:
  assumes "json_ok obj" and "length (json_encode obj) \<le> limit"
  shows "json_decode_max (json_encode obj) limit = Some obj"
proof (cases obj)
  case Nil
  then show ?thesis
    using assms by (simp add: json_decode_max_def json_encode_def skip_whitespace_def is_space_def)
next
  case (Cons m members)
  obtain k v where m: "m = (k, v)"
    by (cases m)
  let ?body = "encode_members True obj @ ''}''"
  have quote: "skip_whitespace ?body = ?body" "consume CHR ''}'' ?body = None"
    by (simp_all add: Cons m) (simp add: encode_string_def)
  have "parse_members ?body [] = Some (obj, [])"
    using parse_encoded_members [of obj "[]" "[]"] assms(1) Cons by simp
  then show ?thesis
    using assms(2) quote
    by (simp add: json_decode_max_def json_encode_def skip_not_space is_space_def)
      (simp add: skip_whitespace_def)
qed

section \<open>What is decoded is well formed\<close>

lemma magnitude_ok:
  assumes "decimal_loop (if negative then int64_min_magnitude else int64_max) 0 digits = Some n"
  shows "value_ok (Jint (if negative then - int n else int n))"
proof -
  have "n \<le> (if negative then int64_min_magnitude else int64_max)"
    by (rule decimal_loop_bound [OF _ _ assms])
      (simp_all add: int64_max_def int64_min_magnitude_def)
  then show ?thesis
    by (cases negative) (simp_all add: int64_max_def int64_min_magnitude_def)
qed

lemma parse_number_ok:
  assumes "parse_number cs = Some (v, rest)"
  shows "value_ok v"
proof -
  obtain negative ds where sign:
    "(case consume CHR ''-'' cs of None \<Rightarrow> (False, cs) | Some r \<Rightarrow> (True, r)) = (negative, ds)"
    by (rule prod.exhaust)
  obtain digits rest' where digits:
    "(if hd ds = CHR ''0'' then (''0'', tl ds)
      else (takeWhile is_digit ds, dropWhile is_digit ds)) = (digits, rest')"
    by (rule prod.exhaust)
  show ?thesis
    using assms unfolding parse_number_def sign digits Let_def prod.case
    by (simp only: option.distinct option.inject prod.inject split: if_split_asm option.split_asm)
      (use magnitude_ok [of negative digits] in \<open>auto simp del: decimal_loop.simps value_ok.simps\<close>)
qed

lemma parse_value_ok: "parse_value cs = Some (v, rest) \<Longrightarrow> value_ok v"
  by (auto simp: parse_value_def parse_bool_word_def split: list.splits if_splits
      dest: parse_number_ok)

lemma parse_member_ok: "parse_member cs obj = Some (obj', rest) \<Longrightarrow> json_ok obj \<Longrightarrow> json_ok obj'"
proof -
  assume run: "parse_member cs obj = Some (obj', rest)" and ok: "json_ok obj"
  from run obtain k v where e: "emplace k v obj = (obj', True)" and v: "value_ok v"
    by (auto simp: parse_member_def Let_def split: option.splits prod.splits if_splits
        dest: parse_value_ok)
  have "json_wf obj'"
    using emplace_wf [of obj k v] e ok by (simp add: json_ok_def)
  moreover have "set obj' = insert (k, v) (set obj)"
    using emplace_keys [OF _ e] ok by (simp add: json_ok_def)
  ultimately show "json_ok obj'"
    using ok v by (auto simp: json_ok_def)
qed

lemma parse_members_ok: "parse_members cs obj = Some (obj', rest) \<Longrightarrow> json_ok obj \<Longrightarrow> json_ok obj'"
proof (induction cs obj rule: parse_members.induct)
  case (1 cs obj)
  from "1.prems"(1) obtain o1 cs1 where m: "parse_member cs obj = Some (o1, cs1)"
    by (subst (asm) parse_members.simps) (auto split: option.splits)
  note ok1 = parse_member_ok [OF m "1.prems"(2)]
  show ?case
  proof (cases "consume CHR '','' cs1")
    case None
    then show ?thesis
      using "1.prems"(1) m ok1 by (subst (asm) parse_members.simps) (auto split: option.splits)
  next
    case (Some cs2)
    then have "parse_members cs2 o1 = Some (obj', rest)"
      using "1.prems"(1) m by (subst (asm) parse_members.simps) simp
    then show ?thesis
      using "1.IH" [OF m refl Some] ok1 by simp
  qed
qed

lemma json_decode_ok: "json_decode_max input limit = Some obj \<Longrightarrow> json_ok obj"
  by (auto simp: json_decode_max_def json_ok_def [of "[]"] json_wf_def split: if_splits option.splits
      dest!: parse_members_ok)

section \<open>Sizes\<close>

lemma length_encode_char: "length (encode_char c) \<le> 6"
  by (auto simp: encode_char_def find_escape_text_def Let_def split: option.splits)

lemma length_encode_string: "length (encode_string s) \<le> 6 * length s + 2"
proof -
  have "length (concat (map encode_char s)) \<le> 6 * length s"
    by (induction s) (use length_encode_char in \<open>auto intro: add_mono\<close>)
  then show ?thesis
    by (simp add: encode_string_def)
qed

lemma length_show_int: "value_ok (Jint i) \<Longrightarrow> length (show_int i) \<le> 20"
  using length_show_nat [of "nat i" 19] length_show_nat [of "nat (- i)" 19]
  by (cases "i < 0") (simp_all add: show_int_def int64_max_def int64_min_magnitude_def nat_less_iff)

fun value_size :: "json_value \<Rightarrow> nat" where
  "value_size (Jstring s) = 6 * length s + 2"
| "value_size (Jint i) = 20"
| "value_size (Jbool b) = 5"

lemma length_encode_value: "value_ok v \<Longrightarrow> length (encode_value v) \<le> value_size v"
  using length_encode_string length_show_int
  by (cases v) (simp_all del: value_ok.simps add: numeral_2_eq_2 [symmetric])

definition object_size :: "json_object \<Rightarrow> nat" where
  "object_size obj = sum_list (map (\<lambda>(k, v). 6 * length k + value_size v + 4) obj)"

lemma object_size_simps [simp]:
  "object_size [] = 0"
  "object_size ((k, v) # obj) = 6 * length k + value_size v + 4 + object_size obj"
  by (simp_all add: object_size_def)

lemma length_encode_members:
  "\<forall>(k, v) \<in> set obj. value_ok v \<Longrightarrow> length (encode_members first obj) \<le> object_size obj"
proof (induction first obj rule: encode_members.induct)
  case (2 first k v rest)
  then show ?case
    using length_encode_string [of k] length_encode_value [of v]
    by (simp add: object_size_def)
qed (simp add: object_size_def)

lemma length_json_encode: "json_ok obj \<Longrightarrow> length (json_encode obj) \<le> object_size obj + 2"
  using length_encode_members [of obj True] by (simp add: json_encode_def json_ok_def)

section \<open>Objects from a member list\<close>

lemma json_object_of_aux:
  "json_wf obj \<Longrightarrow> distinct (map fst members) \<Longrightarrow> fst ` set obj \<inter> fst ` set members = {} \<Longrightarrow>
     json_wf (foldl (\<lambda>obj (k, v). fst (emplace k v obj)) obj members) \<and>
     set (foldl (\<lambda>obj (k, v). fst (emplace k v obj)) obj members) = set obj \<union> set members"
proof (induction members arbitrary: obj)
  case (Cons m members)
  obtain k v where m: "m = (k, v)" by (cases m)
  then have "k \<notin> fst ` set obj"
    using Cons.prems(3) by auto
  then have "set (fst (emplace k v obj)) = insert (k, v) (set obj)"
    by (rule emplace_fresh)
  moreover have "json_wf (fst (emplace k v obj))"
    using Cons.prems(1) by (rule emplace_wf)
  moreover have "insert k (fst ` set obj) \<inter> fst ` set members = {}" "distinct (map fst members)"
    using Cons.prems(2,3) m by auto
  ultimately show ?case
    using Cons.IH [of "fst (emplace k v obj)"] m by simp
qed simp

lemma json_wf_distinct: "json_wf obj \<Longrightarrow> distinct (map fst obj)"
  by (simp add: json_wf_def strict_sorted_iff)

lemma json_object_of_wf: "distinct (map fst members) \<Longrightarrow> json_wf (json_object_of members)"
  using json_object_of_aux [of "[]" members] by (simp add: json_object_of_def json_wf_def)

lemma json_object_of_set:
  "distinct (map fst members) \<Longrightarrow> set (json_object_of members) = set members"
  using json_object_of_aux [of "[]" members] by (simp add: json_object_of_def json_wf_def)

lemma json_object_of_map:
  assumes "distinct (map fst members)"
  shows "map_of (json_object_of members) = map_of members"
  using json_object_of_wf [OF assms] json_object_of_set [OF assms] assms
  by (simp add: json_wf_distinct map_of_inject_set)

lemma json_object_of_perm:
  assumes "distinct (map fst members)"
  shows "mset (json_object_of members) = mset members"
  using json_object_of_wf [OF assms] json_object_of_set [OF assms] assms
  by (metis distinct_map json_wf_distinct set_eq_iff_mset_eq_distinct)

lemma json_object_of_length:
  "distinct (map fst members) \<Longrightarrow> length (json_object_of members) = length members"
  by (metis json_object_of_perm size_mset)

lemma json_object_of_ok:
  "distinct (map fst members) \<Longrightarrow> \<forall>(k, v) \<in> set members. value_ok v \<Longrightarrow>
     json_ok (json_object_of members)"
  by (simp add: json_ok_def json_object_of_wf json_object_of_set)

lemma object_size_of:
  assumes "distinct (map fst members)"
  shows "object_size (json_object_of members) = object_size members"
proof -
  let ?weight = "\<lambda>(k, v). 6 * length k + value_size v + 4"
  have "sum_mset (image_mset ?weight (mset (json_object_of members))) =
      sum_mset (image_mset ?weight (mset members))"
    by (simp only: json_object_of_perm [OF assms])
  then show ?thesis
    by (simp only: object_size_def mset_map [symmetric] sum_mset_sum_list)
qed

lemma payload_shape:
  assumes "json_wf payload" "length payload = length members" "distinct (map fst members)"
    and present: "\<And>k v. (k, v) \<in> set members \<Longrightarrow> map_of payload k = Some v"
  shows "payload = json_object_of members"
proof -
  have d: "distinct payload" "distinct members" "distinct (map fst payload)"
    using json_wf_distinct [OF assms(1)] assms(3) by (auto simp: distinct_map)
  have "set members \<subseteq> set payload"
    using present by (auto dest: map_of_SomeD)
  then have sets: "set payload = set members"
    using d assms(2) by (metis List.finite_set card_subset_eq distinct_card)
  have "map fst payload = map fst (json_object_of members)"
    using assms(1) json_object_of_wf [OF assms(3)] sets json_object_of_set [OF assms(3)]
    by (intro sorted_distinct_set_unique) (auto simp: json_wf_def strict_sorted_iff)
  moreover have "set payload = set (json_object_of members)"
    by (simp add: sets json_object_of_set [OF assms(3)])
  ultimately show ?thesis
    using d(3) by (intro map_sorted_distinct_set_unique [where f = fst])
      (use assms(1) json_object_of_wf [OF assms(3)] in
        \<open>auto simp: json_wf_def strict_sorted_iff distinct_map\<close>)
qed

lemma json_string_member_iff: "json_string_member obj k = Some s \<longleftrightarrow> map_of obj k = Some (Jstring s)"
  by (auto simp: json_string_member_def split: option.splits json_value.splits)

lemma json_int_member_iff: "json_int_member obj k = Some i \<longleftrightarrow> map_of obj k = Some (Jint i)"
  by (auto simp: json_int_member_def split: option.splits json_value.splits)

lemmas json_member_iffs = json_string_member_iff json_int_member_iff

text \<open>64-bit words and the signed integers of a payload.\<close>

lemma uint_value_ok:
  assumes "unat (w :: u64) \<le> int64_max"
  shows "value_ok (Jint (uint w))"
proof -
  have "uint w \<le> int int64_max" "- int int64_min_magnitude \<le> 0" "0 \<le> uint w"
    using assms by (simp_all only: uint_nat zle_int neg_le_0_iff_le of_nat_0_le_iff)
  then show ?thesis
    unfolding value_ok.simps by linarith
qed

lemma int64_word:
  assumes "0 < i" "value_ok (Jint i)"
  shows "uint (word_of_int i :: u64) = i" "(word_of_int i :: u64) \<noteq> 0"
    "unat (word_of_int i :: u64) \<le> int64_max"
proof -
  show *: "uint (word_of_int i :: u64) = i"
    using assms by (simp add: uint_word_of_int take_bit_eq_mod int64_max_def)
  then show "(word_of_int i :: u64) \<noteq> 0"
    using assms(1) by auto
  show "unat (word_of_int i :: u64) \<le> int64_max"
    using assms * by (simp add: unat_eq_nat_uint)
qed

section \<open>Properties\<close>

text \<open>The decoder returns only objects with strictly increasing keys and 64-bit
  integers, and every such object within the input limit is read back unchanged from its
  encoding.\<close>

lemma json_round_trip:
  "(json_decode_max input limit = Some obj \<longrightarrow> json_ok obj) \<and>
   (json_ok obj \<and> length (json_encode obj) \<le> limit \<longrightarrow>
      json_decode_max (json_encode obj) limit = Some obj)"
  using json_decode_ok json_decode_encode by blast

lemma json_round_trip_witness:
  "json_decode_max
     (json_encode [(''a'', Jint (- 7)), (''b'', Jstring [CHR 0x22, CHR 0x0A]), (''c'', Jbool True)]) 100 =
     Some [(''a'', Jint (- 7)), (''b'', Jstring [CHR 0x22, CHR 0x0A]), (''c'', Jbool True)]"
proof -
  let ?obj = "[(''a'', Jint (- 7)), (''b'', Jstring [CHR 0x22, CHR 0x0A]), (''c'', Jbool True)]"
  have ok: "json_ok ?obj"
    by (simp add: json_ok_def json_wf_def int64_max_def int64_min_magnitude_def less_char_def)
  have fits: "length (json_encode ?obj) \<le> 100"
    using length_json_encode [OF ok] by simp
  with ok fits show ?thesis
    using json_round_trip [of _ 100 ?obj] by blast
qed

end
