(* ===== verification/Compact_Jws.thy ===== *)
theory Compact_Jws
  imports Base64_Url Flat_Json
begin

text \<open>
  The compact JWS core of the credentials (game/common/src/compact_jws.cpp): three
  base64url segments, a controlled header and a detached Ed25519 signature. libsodium is
  outside the repository: its functions are the fields of a record, an argument of every
  definition that calls it, and what the code relies on is the hypothesis
  \<open>sodium_laws\<close>, the documented behaviour of key derivation and detached signing.
\<close>

section \<open>libsodium\<close>

text \<open>\<open>crypto_sign_seed_keypair\<close>, \<open>crypto_sign_detached\<close>,
  \<open>crypto_sign_verify_detached\<close>, \<open>crypto_core_ed25519_is_valid_point\<close> and the keyed
  hash \<open>crypto_auth_hmacsha256\<close> with its verification;
  \<open>init_ok\<close> is \<open>sodium_init() >= 0\<close>.\<close>

record sodium =
  init_ok :: bool
  seed_keypair :: "u8 list \<Rightarrow> u8 list \<times> u8 list"
  sign_detached :: "u8 list \<Rightarrow> u8 list \<Rightarrow> u8 list"
  verify_detached :: "u8 list \<Rightarrow> u8 list \<Rightarrow> u8 list \<Rightarrow> bool"
  is_valid_point :: "u8 list \<Rightarrow> bool"
  hmacsha256 :: "u8 list \<Rightarrow> u8 list \<Rightarrow> u8 list"
  hmacsha256_verify :: "u8 list \<Rightarrow> u8 list \<Rightarrow> u8 list \<Rightarrow> bool"

definition signature_size :: nat where
  "signature_size = 64"

definition ed25519_seed_size :: nat where
  "ed25519_seed_size = 32"

definition hmac_size :: nat where
  "hmac_size = 32"

definition sodium_laws :: "sodium \<Rightarrow> bool" where
  "sodium_laws na \<longleftrightarrow>
     init_ok na \<and>
     (\<forall>seed message. length (sign_detached na message (snd (seed_keypair na seed))) = signature_size) \<and>
     (\<forall>seed message.
        verify_detached na (sign_detached na message (snd (seed_keypair na seed))) message
          (fst (seed_keypair na seed))) \<and>
     (\<forall>seed. length seed = ed25519_seed_size \<longrightarrow> is_valid_point na (fst (seed_keypair na seed))) \<and>
     (\<forall>message key. length (hmacsha256 na message key) = hmac_size) \<and>
     (\<forall>message key. hmacsha256_verify na (hmacsha256 na message key) message key)"

section \<open>Issuing and verifying\<close>

record compact_jws =
  jws_public_key :: "u8 list"
  jws_secret_key :: "u8 list"

definition sodium_failure :: error where
  "sodium_failure = Runtime_error ''failed to initialize libsodium''"

definition new_compact_jws :: "sodium \<Rightarrow> u8 list \<Rightarrow> error + compact_jws" where
  "new_compact_jws na seed =
     (if \<not> init_ok na then Inl sodium_failure
      else Inr \<lparr>jws_public_key = fst (seed_keypair na seed),
                jws_secret_key = snd (seed_keypair na seed)\<rparr>)"

definition jws_encode :: "sodium \<Rightarrow> compact_jws \<Rightarrow> json_object \<Rightarrow> json_object \<Rightarrow> string" where
  "jws_encode na jws header payload =
     (let signing_input = base64url_encode (as_bytes (json_encode header)) @ ''.'' @
                          base64url_encode (as_bytes (json_encode payload));
          signature = sign_detached na (as_bytes signing_input) (jws_secret_key jws)
      in signing_input @ ''.'' @ base64url_encode signature)"

text \<open>The controlled header: exactly \<open>alg\<close>, \<open>typ\<close> and \<open>kid\<close>.\<close>

definition header_kid :: "json_object \<Rightarrow> string option" where
  "header_kid header =
     (if length header \<noteq> 3 \<or> json_string_member header ''alg'' \<noteq> Some ''EdDSA'' \<or>
         json_string_member header ''typ'' \<noteq> Some ''JWT''
      then None else json_string_member header ''kid'')"

definition decode_with_public_key ::
  "sodium \<Rightarrow> string \<Rightarrow> string \<Rightarrow> u8 list \<Rightarrow> json_object option" where
  "decode_with_public_key na token expected_kid public_key =
     (case find_from CHR ''.'' token 0 of
        None \<Rightarrow> None
      | Some first \<Rightarrow>
     (case find_from CHR ''.'' token (first + 1) of
        None \<Rightarrow> None
      | Some second \<Rightarrow>
        if find_from CHR ''.'' token (second + 1) \<noteq> None then None
        else
     (case (base64url_decode (substr token 0 first),
            base64url_decode (substr token (first + 1) (second - first - 1)),
            base64url_decode (drop (second + 1) token)) of
        (Some header_bytes, Some payload_bytes, Some signature_bytes) \<Rightarrow>
          if length signature_bytes \<noteq> signature_size then None
          else (case json_decode (as_string_view header_bytes) of
                  None \<Rightarrow> None
                | Some header \<Rightarrow>
                    if header_kid header \<noteq> Some expected_kid then None
                    else if \<not> verify_detached na signature_bytes
                                (as_bytes (take second token)) public_key then None
                    else json_decode (as_string_view payload_bytes))
      | _ \<Rightarrow> None)))"

definition compact_jws_key_id :: "string \<Rightarrow> string option" where
  "compact_jws_key_id token =
     (case find_from CHR ''.'' token 0 of
        None \<Rightarrow> None
      | Some first \<Rightarrow>
          (case base64url_decode (substr token 0 first) of
             None \<Rightarrow> None
           | Some header_bytes \<Rightarrow>
               (case json_decode (as_string_view header_bytes) of
                  None \<Rightarrow> None
                | Some header \<Rightarrow>
                    (case header_kid header of
                       None \<Rightarrow> None
                     | Some kid \<Rightarrow> if kid = [] then None else Some kid))))"

definition jws_decode :: "sodium \<Rightarrow> compact_jws \<Rightarrow> string \<Rightarrow> string \<Rightarrow> json_object option" where
  "jws_decode na jws token expected_kid =
     decode_with_public_key na token expected_kid (jws_public_key jws)"

text \<open>\<open>CompactJwsVerifier\<close> holds only a public key; its constructor checks the point.\<close>

definition new_verifier :: "sodium \<Rightarrow> u8 list \<Rightarrow> error + u8 list" where
  "new_verifier na public_key =
     (if \<not> init_ok na then Inl sodium_failure
      else if \<not> is_valid_point na public_key
      then Inl (Invalid_argument ''invalid Ed25519 public key'')
      else Inr public_key)"

definition verifier_decode :: "sodium \<Rightarrow> u8 list \<Rightarrow> string \<Rightarrow> string \<Rightarrow> json_object option" where
  "verifier_decode na verifier token expected_kid =
     decode_with_public_key na token expected_kid verifier"

definition ed25519_public_key_from_seed :: "sodium \<Rightarrow> u8 list \<Rightarrow> error + u8 list" where
  "ed25519_public_key_from_seed na seed =
     (if \<not> init_ok na then Inl sodium_failure else Inr (fst (seed_keypair na seed)))"

section \<open>Keys in hexadecimal\<close>

fun parse_hex_bytes :: "string \<Rightarrow> u8 list option" where
  "parse_hex_bytes (high # low # rest) =
     (if nibble high < 0 \<or> nibble low < 0 then None
      else map_option (\<lambda>bytes. word_of_int (push_bit 4 (nibble high) OR nibble low) # bytes)
             (parse_hex_bytes rest))"
| "parse_hex_bytes _ = Some []"

definition parse_ed25519_public_key_hex :: "sodium \<Rightarrow> string \<Rightarrow> error + u8 list" where
  "parse_ed25519_public_key_hex na value =
     (if length value \<noteq> ed25519_seed_size * 2
      then Inl (Invalid_argument ''Ed25519 public key must contain 64 hex characters'')
      else case parse_hex_bytes value of
             None \<Rightarrow> Inl (Invalid_argument ''Ed25519 public key contains non-hex data'')
           | Some key \<Rightarrow>
               if \<not> init_ok na then Inl sodium_failure
               else if \<not> is_valid_point na key
               then Inl (Invalid_argument ''invalid Ed25519 public key'')
               else Inr key)"

definition parse_identity_seed_hex :: "string \<Rightarrow> error + u8 list" where
  "parse_identity_seed_hex value =
     (if length value \<noteq> ed25519_seed_size * 2
      then Inl (Invalid_argument ''identity seed must contain 64 hex characters'')
      else case parse_hex_bytes value of
             None \<Rightarrow> Inl (Invalid_argument ''identity seed contains non-hex data'')
           | Some seed \<Rightarrow> Inr seed)"

text \<open>The environment is an argument; an unset variable is \<open>None\<close>.\<close>

definition seed_from_environment ::
  "(string \<Rightarrow> string option) \<Rightarrow> string \<Rightarrow> error + u8 list" where
  "seed_from_environment env name =
     (case env name of
        None \<Rightarrow> Inl (Runtime_error (name @ '' is not set''))
      | Some value \<Rightarrow>
          if value = [] then Inl (Runtime_error (name @ '' is not set''))
          else parse_identity_seed_hex value)"

section \<open>Segments\<close>

lemma dot_not_in_encode [simp]: "CHR ''.'' \<notin> set (base64url_encode bs)"
  using set_encode [of bs] by (auto simp: alphabet_def dest!: subsetD)

lemma three_segments:
  assumes "CHR ''.'' \<notin> set a" "CHR ''.'' \<notin> set b" "CHR ''.'' \<notin> set c"
  shows
    "find_from CHR ''.'' (a @ ''.'' @ b @ ''.'' @ c) 0 = Some (length a)"
    "find_from CHR ''.'' (a @ ''.'' @ b @ ''.'' @ c) (length a + 1) = Some (length a + 1 + length b)"
    "find_from CHR ''.'' (a @ ''.'' @ b @ ''.'' @ c) (length a + 1 + length b + 1) = None"
  using find_from_hit [OF assms(1), of "[]" "b @ ''.'' @ c"]
    find_from_hit [OF assms(2), of "a @ ''.''" c]
    find_from_miss [OF assms(3), of "a @ ''.'' @ b @ ''.''"]
  by simp_all

text \<open>The header every issuer writes.\<close>

definition controlled_header :: "string \<Rightarrow> json_object" where
  "controlled_header kid =
     json_object_of [(''alg'', Jstring ''EdDSA''), (''typ'', Jstring ''JWT''), (''kid'', Jstring kid)]"

lemma header_kid_controlled [simp]: "header_kid (controlled_header kid) = Some kid"
  by (simp add: header_kid_def controlled_header_def json_object_of_length json_string_member_def
      json_object_of_map)

lemma json_ok_controlled: "json_ok (controlled_header kid)"
  by (simp add: controlled_header_def json_object_of_ok)

lemma controlled_header_fits:
  "length kid \<le> 512 \<Longrightarrow> length (json_encode (controlled_header kid)) \<le> default_max_input_size"
  using length_json_encode [OF json_ok_controlled, of kid]
  by (simp add: controlled_header_def object_size_of default_max_input_size_def)

lemma json_decode_encode_fits:
  "json_ok obj \<Longrightarrow> length (json_encode obj) \<le> default_max_input_size \<Longrightarrow>
     json_decode (json_encode obj) = Some obj"
  by (simp add: json_decode_def json_decode_encode)

section \<open>What is issued is decoded\<close>

definition jws_of_seed :: "sodium \<Rightarrow> u8 list \<Rightarrow> compact_jws" where
  "jws_of_seed na seed =
     \<lparr>jws_public_key = fst (seed_keypair na seed), jws_secret_key = snd (seed_keypair na seed)\<rparr>"

lemma jws_of_seed_sel [simp]:
  "jws_public_key (jws_of_seed na seed) = fst (seed_keypair na seed)"
  "jws_secret_key (jws_of_seed na seed) = snd (seed_keypair na seed)"
  by (simp_all add: jws_of_seed_def)

lemma new_compact_jws_ok: "sodium_laws na \<Longrightarrow> new_compact_jws na seed = Inr (jws_of_seed na seed)"
  by (simp add: new_compact_jws_def sodium_laws_def jws_of_seed_def)

lemma decode_encoded:
  assumes "sodium_laws na" "json_ok payload" "length kid \<le> 512"
    "length (json_encode payload) \<le> default_max_input_size"
  shows "decode_with_public_key na (jws_encode na (jws_of_seed na seed) (controlled_header kid) payload)
           expected (fst (seed_keypair na seed)) = (if expected = kid then Some payload else None)"
proof -
  let ?h = "base64url_encode (as_bytes (json_encode (controlled_header kid)))"
  let ?p = "base64url_encode (as_bytes (json_encode payload))"
  let ?m = "as_bytes (?h @ ''.'' @ ?p)"
  let ?g = "sign_detached na ?m (snd (seed_keypair na seed))"
  let ?s = "base64url_encode ?g"
  have token: "jws_encode na (jws_of_seed na seed) (controlled_header kid) payload =
      ?h @ ''.'' @ ?p @ ''.'' @ ?s"
    by (simp add: jws_encode_def)
  note dots = three_segments [OF dot_not_in_encode dot_not_in_encode dot_not_in_encode]
  have sig: "length ?g = signature_size" "verify_detached na ?g ?m (fst (seed_keypair na seed))"
    using assms(1) by (simp_all add: sodium_laws_def)
  have parts: "json_decode (json_encode (controlled_header kid)) = Some (controlled_header kid)"
    "json_decode (json_encode payload) = Some payload"
    using assms by (simp_all add: json_decode_encode_fits json_ok_controlled controlled_header_fits)
  show ?thesis
    unfolding token decode_with_public_key_def
    using dots sig parts by (simp add: substr_def)
qed

text \<open>Under any key, an issued token decodes to its own payload or not at all.\<close>

lemma decode_three_payload:
  assumes "CHR ''.'' \<notin> set a" "CHR ''.'' \<notin> set b" "CHR ''.'' \<notin> set c"
    and "decode_with_public_key na (a @ ''.'' @ b @ ''.'' @ c) kid public_key = Some p"
  shows "Option.bind (base64url_decode b) (\<lambda>bytes. json_decode (as_string_view bytes)) = Some p"
proof -
  note dots = three_segments [OF assms(1-3)]
  have "substr (a @ ''.'' @ b @ ''.'' @ c) (length a + 1) (length a + 1 + length b - length a - 1) = b"
    by (simp add: substr_def)
  then show ?thesis
    using assms(4) unfolding decode_with_public_key_def dots option.case
    by (simp only: split: if_split_asm option.split_asm prod.split_asm) auto
qed

lemma decode_encoded_payload:
  assumes "json_ok payload" "length (json_encode payload) \<le> default_max_input_size"
    and "decode_with_public_key na (jws_encode na jws header payload) expected public_key = Some p"
  shows "p = payload"
  using decode_three_payload [OF dot_not_in_encode dot_not_in_encode dot_not_in_encode]
    assms(3) json_decode_encode_fits [OF assms(1,2)]
  by (fastforce simp: jws_encode_def Let_def)

lemma key_id_encoded:
  assumes "length kid \<le> 512" "kid \<noteq> []"
  shows "compact_jws_key_id (jws_encode na jws (controlled_header kid) payload) = Some kid"
proof -
  have "json_decode (json_encode (controlled_header kid)) = Some (controlled_header kid)"
    using assms(1) by (simp add: json_decode_encode_fits json_ok_controlled controlled_header_fits)
  then show ?thesis
    using assms(2) find_from_hit [where c = "CHR ''.''" and p = "[]"]
    by (simp add: compact_jws_key_id_def jws_encode_def substr_def)
qed

section \<open>What is decoded was signed\<close>

text \<open>An accepted token is the canonical text of its three parts, and the signature in it
  was checked over exactly the two segments in front of it.\<close>

lemma split_three:
  assumes "find_from c s 0 = Some first" "find_from c s (first + 1) = Some second"
  shows "s = (take first s @ [c] @ substr s (first + 1) (second - first - 1)) @ [c] @ drop (second + 1) s"
    and "take second s = take first s @ [c] @ substr s (first + 1) (second - first - 1)"
proof -
  have b: "first < second" "second < length s" "s ! first = c" "s ! second = c"
    using find_from_Some [OF assms(1)] find_from_Some [OF assms(2)] by simp_all
  have "take second s = take first (take second s) @ take second s ! first # drop (first + 1) (take second s)"
    by (rule split_at_index) (use b in simp)
  then show t: "take second s = take first s @ [c] @ substr s (first + 1) (second - first - 1)"
    using b by (simp add: substr_def drop_take min_def)
  show "s = (take first s @ [c] @ substr s (first + 1) (second - first - 1)) @ [c] @ drop (second + 1) s"
    unfolding t [symmetric] using split_at_index [OF b(2)] b(4) by simp
qed

lemma decode_sound:
  assumes "decode_with_public_key na token kid public_key = Some payload"
  shows "\<exists>header payload_text signature.
    token = base64url_encode (as_bytes header) @ ''.'' @ base64url_encode (as_bytes payload_text) @
            ''.'' @ base64url_encode signature \<and>
    length signature = signature_size \<and>
    verify_detached na signature
      (as_bytes (base64url_encode (as_bytes header) @ ''.'' @ base64url_encode (as_bytes payload_text)))
      public_key \<and>
    Option.bind (json_decode header) header_kid = Some kid \<and>
    json_decode payload_text = Some payload"
proof -
  from assms obtain first second where
    pos: "find_from CHR ''.'' token 0 = Some first"
      "find_from CHR ''.'' token (first + 1) = Some second"
    by (auto simp: decode_with_public_key_def split: option.splits)
  let ?h = "substr token 0 first" and ?p = "substr token (first + 1) (second - first - 1)"
  from assms pos obtain hb pb sb header where
    segments: "base64url_decode ?h = Some hb" "base64url_decode ?p = Some pb"
      "base64url_decode (drop (second + 1) token) = Some sb" "length sb = signature_size"
      "json_decode (as_string_view hb) = Some header" "header_kid header = Some kid"
      "verify_detached na sb (as_bytes (take second token)) public_key"
      "json_decode (as_string_view pb) = Some payload"
    by (auto simp: decode_with_public_key_def split: option.splits if_splits)
  note canonical = segments(1-3) [THEN encode_decode]
  have "?h = take first token"
    by (simp add: substr_def)
  then show ?thesis
    using segments(4-) split_three [OF pos] canonical
    by (intro exI [of _ "as_string_view hb"] exI [of _ "as_string_view pb"] exI [of _ sb])
      (simp add: append.assoc)
qed

section \<open>Key rings\<close>

text \<open>Verification keys by key identifier; the key of a token is selected by its header.\<close>

type_synonym key_ring = "string \<rightharpoonup> u8 list"

record verification_key =
  vk_kid :: string
  vk_public_key :: "u8 list"

record signing_key =
  sk_kid :: string
  sk_seed :: "u8 list"

definition kid_char :: "char \<Rightarrow> bool" where
  "kid_char c \<longleftrightarrow>
     (let n = of_char c :: nat in
      97 \<le> n \<and> n \<le> 122 \<or> 65 \<le> n \<and> n \<le> 90 \<or> is_digit c \<or>
      c = CHR ''-'' \<or> c = CHR ''_'' \<or> c = CHR ''.'')"

definition valid_kid :: "string \<Rightarrow> bool" where
  "valid_kid kid \<longleftrightarrow> kid \<noteq> [] \<and> length kid \<le> 64 \<and> list_all kid_char kid"

definition ring_decode :: "sodium \<Rightarrow> key_ring \<Rightarrow> string \<Rightarrow> json_object option" where
  "ring_decode na ring token =
     (case compact_jws_key_id token of
        None \<Rightarrow> None
      | Some kid \<Rightarrow>
          (case ring kid of
             None \<Rightarrow> None
           | Some verifier \<Rightarrow> verifier_decode na verifier token kid))"

lemma ring_decode_encoded:
  assumes "sodium_laws na" "json_ok payload" "valid_kid kid"
    "length (json_encode payload) \<le> default_max_input_size"
    "ring kid = Some (fst (seed_keypair na seed))"
  shows "ring_decode na ring (jws_encode na (jws_of_seed na seed) (controlled_header kid) payload) =
           Some payload"
  using assms decode_encoded [of na payload kid seed kid]
  by (simp add: ring_decode_def key_id_encoded valid_kid_def verifier_decode_def)

lemma ring_decode_encoded_payload:
  "json_ok payload \<Longrightarrow> length (json_encode payload) \<le> default_max_input_size \<Longrightarrow>
     ring_decode na ring (jws_encode na jws header payload) = Some p \<Longrightarrow> p = payload"
  by (auto simp: ring_decode_def verifier_decode_def split: option.splits
      dest: decode_encoded_payload)

text \<open>An accepted token was verified with the ring key that its header names.\<close>

definition signed_by_ring :: "sodium \<Rightarrow> key_ring \<Rightarrow> string \<Rightarrow> json_object \<Rightarrow> bool" where
  "signed_by_ring na ring token payload \<longleftrightarrow>
     (\<exists>header payload_text signature kid public_key.
        token = base64url_encode (as_bytes header) @ ''.'' @ base64url_encode (as_bytes payload_text) @
                ''.'' @ base64url_encode signature \<and>
        Option.bind (json_decode header) header_kid = Some kid \<and> ring kid = Some public_key \<and>
        verify_detached na signature
          (as_bytes (base64url_encode (as_bytes header) @ ''.'' @ base64url_encode (as_bytes payload_text)))
          public_key \<and>
        json_decode payload_text = Some payload)"

lemma ring_decode_sound:
  assumes "ring_decode na ring token = Some payload"
  shows "signed_by_ring na ring token payload \<and> json_wf payload"
proof -
  obtain kid public_key where ring: "ring kid = Some public_key"
    "decode_with_public_key na token kid public_key = Some payload"
    using assms by (auto simp: ring_decode_def verifier_decode_def split: option.splits)
  from decode_sound [OF ring(2)] have "signed_by_ring na ring token payload"
    unfolding signed_by_ring_def using ring(1) by blast
  then show ?thesis
    using json_decode_ok by (auto simp: signed_by_ring_def json_decode_def json_ok_def)
qed

section \<open>An instance of the signing interface\<close>

text \<open>A keyed checksum with the laws of \<open>sodium_laws\<close>, for evaluating the model.\<close>

definition checksum :: "u8 list \<Rightarrow> u8 list \<Rightarrow> u8" where
  "checksum key message = foldl (\<lambda>a b. a * 31 + b) 7 (key @ message)"

definition example_sodium :: sodium where
  "example_sodium =
     \<lparr>init_ok = True,
      seed_keypair = (\<lambda>seed. (seed, seed @ seed)),
      sign_detached = (\<lambda>message secret. replicate 64 (checksum (take (length secret div 2) secret) message)),
      verify_detached = (\<lambda>signature message public. signature = replicate 64 (checksum public message)),
      is_valid_point = (\<lambda>public. length public = 32),
      hmacsha256 = (\<lambda>message key. replicate 32 (checksum key message)),
      hmacsha256_verify = (\<lambda>tag message key. tag = replicate 32 (checksum key message))\<rparr>"

lemma sodium_laws_example [simp]: "sodium_laws example_sodium"
  by (simp add: sodium_laws_def example_sodium_def signature_size_def ed25519_seed_size_def
      hmac_size_def mult_2 [symmetric])

end
