(* ===== verification/Replay_Guard.thy ===== *)
theory Replay_Guard
  imports RM_Prelude
begin

text \<open>
  The interface of the single-consumption guards: a store that remembers a consumed key
  until a deadline that depends on the consumed item. The laws are proved for the identity
  token guard and for the session ticket guard in their own theories; the theorem about
  runs of presentations is proved once, here.
\<close>

text \<open>A run of presentations, each with the time at which it is made.\<close>

fun run_guard :: "('g \<Rightarrow> 'c \<Rightarrow> time_point \<Rightarrow> 'g \<times> bool) \<Rightarrow> 'g \<Rightarrow> ('c \<times> time_point) list \<Rightarrow> bool list" where
  "run_guard consume g [] = []"
| "run_guard consume g ((c, now) # events) =
     (case consume g c now of (g', accepted) \<Rightarrow> accepted # run_guard consume g' events)"

lemma length_run_guard [simp]: "length (run_guard consume g events) = length events"
  by (induction consume g events rule: run_guard.induct) (simp_all split: prod.splits)

locale replay_guard =
  fixes consume :: "'g \<Rightarrow> 'c \<Rightarrow> time_point \<Rightarrow> 'g \<times> bool"
    and key :: "'c \<Rightarrow> 'k"
    and live_until :: "'c \<Rightarrow> time_point"
    and live :: "'g \<Rightarrow> 'k \<Rightarrow> time_point \<Rightarrow> bool"
  assumes live_rejected: "live g (key c) now \<Longrightarrow> \<not> snd (consume g c now)"
    and accepted_live: "snd (consume g c now) \<Longrightarrow> now' \<le> live_until c \<Longrightarrow>
          live (fst (consume g c now)) (key c) now'"
    and live_kept: "live g k now' \<Longrightarrow> now \<le> now' \<Longrightarrow> live (fst (consume g c now)) k now'"
begin

lemma live_key_rejected:
  "live g (key (fst (events ! j))) (snd (events ! j)) \<Longrightarrow> sorted (map snd events) \<Longrightarrow>
     j < length events \<Longrightarrow> \<not> run_guard consume g events ! j"
proof (induction events arbitrary: g j)
  case (Cons e events)
  obtain c now where e: "e = (c, now)" by (cases e)
  show ?case
  proof (cases j)
    case 0
    then show ?thesis
      using Cons.prems live_rejected e by (simp add: case_prod_beta)
  next
    case (Suc i)
    then have "now \<le> snd (events ! i)"
      using Cons.prems(2,3) e by simp
    then have "live (fst (consume g c now)) (key (fst (events ! i))) (snd (events ! i))"
      using Cons.prems(1) Suc by (simp add: live_kept)
    then show ?thesis
      using Cons.IH [of "fst (consume g c now)" i] Cons.prems(2,3) Suc e
      by (simp add: case_prod_beta)
  qed
qed simp

lemma accepted_once:
  "run_guard consume g events ! i \<Longrightarrow> i < j \<Longrightarrow> j < length events \<Longrightarrow> sorted (map snd events) \<Longrightarrow>
     key (fst (events ! i)) = key (fst (events ! j)) \<Longrightarrow>
     snd (events ! j) \<le> live_until (fst (events ! i)) \<Longrightarrow>
     \<not> run_guard consume g events ! j"
proof (induction events arbitrary: g i j)
  case (Cons e events)
  obtain c now where e: "e = (c, now)" by (cases e)
  obtain j' where j: "j = Suc j'"
    using Cons.prems(2) by (cases j) simp_all
  show ?case
  proof (cases i)
    case 0
    then have "live (fst (consume g c now)) (key (fst (events ! j'))) (snd (events ! j'))"
      using Cons.prems e j accepted_live [of g c now] by (simp add: case_prod_beta)
    then show ?thesis
      using live_key_rejected [of "fst (consume g c now)" events j'] Cons.prems(3,4) e j
      by (simp add: case_prod_beta)
  next
    case (Suc i')
    then show ?thesis
      using Cons.IH [of "fst (consume g c now)" i' j'] Cons.prems e j
      by (simp add: case_prod_beta)
  qed
qed simp

end

end
