(* ===== verification/Identity_Token.thy ===== *)
theory Identity_Token
  imports Compact_Jws Replay_Guard
begin

text \<open>
  Identity tokens (game/common/src/identity_token.cpp): issuing and validating the claims
  of a compact JWS, the JWKS document of the public key, and the guard that consumes the
  token identifier once.
\<close>

section \<open>Claims\<close>

record identity_claims =
  ic_issuer :: string
  ic_account_id :: u64
  ic_jti :: string
  ic_issued_at :: time_point
  ic_expires_at :: time_point

record identity_codec =
  id_jws :: compact_jws
  id_kid :: string

definition identity_audience :: string where
  "identity_audience = ''realmmesh-access''"

definition identity_purpose :: string where
  "identity_purpose = ''access''"

definition jti_size :: nat where
  "jti_size = 32"

definition lower_hex :: "char \<Rightarrow> bool" where
  "lower_hex c \<longleftrightarrow> is_digit c \<or> (97 \<le> (of_char c :: nat) \<and> (of_char c :: nat) \<le> 102)"

definition valid_jti :: "string \<Rightarrow> bool" where
  "valid_jti jti \<longleftrightarrow> length jti = jti_size \<and> list_all lower_hex jti"

definition new_identity_codec :: "sodium \<Rightarrow> u8 list \<Rightarrow> string \<Rightarrow> error + identity_codec" where
  "new_identity_codec na seed kid =
     map_sum id (\<lambda>jws. \<lparr>id_jws = jws, id_kid = kid\<rparr>) (new_compact_jws na seed)"

definition identity_payload :: "identity_claims \<Rightarrow> json_object" where
  "identity_payload claims =
     json_object_of
       [(''iss'', Jstring (ic_issuer claims)),
        (''sub'', Jstring (show_nat (unat (ic_account_id claims)))),
        (''aud'', Jstring identity_audience),
        (''purpose'', Jstring identity_purpose),
        (''iat'', Jint (epoch_seconds (ic_issued_at claims))),
        (''exp'', Jint (epoch_seconds (ic_expires_at claims))),
        (''jti'', Jstring (ic_jti claims))]"

definition identity_issue :: "sodium \<Rightarrow> identity_codec \<Rightarrow> identity_claims \<Rightarrow> string" where
  "identity_issue na codec claims =
     jws_encode na (id_jws codec) (controlled_header (id_kid codec)) (identity_payload claims)"

text \<open>The account number: canonical decimal, at most 20 digits, within 64 bits.\<close>

definition parse_account :: "string \<Rightarrow> u64 option" where
  "parse_account sub =
     (if sub = [] \<or> 20 < length sub \<or> (1 < length sub \<and> hd sub = CHR ''0'') then None
      else map_option word_of_nat (decimal_loop (2 ^ 64 - 1) 0 sub))"

definition identity_claims_of ::
  "json_object \<Rightarrow> string \<Rightarrow> time_point \<Rightarrow> identity_claims option" where
  "identity_claims_of payload expected_issuer now =
     (case (json_string_member payload ''iss'', json_string_member payload ''sub'',
            json_string_member payload ''aud'', json_string_member payload ''purpose'',
            json_string_member payload ''jti'', json_int_member payload ''iat'',
            json_int_member payload ''exp'') of
        (Some issuer, Some sub, Some aud, Some purp, Some jti, Some issued_at, Some expires_at) \<Rightarrow>
          if length payload \<noteq> 7 then None
          else if issuer \<noteq> expected_issuer \<or> aud \<noteq> identity_audience \<or> purp \<noteq> identity_purpose
          then None
          else (case parse_account sub of
                  None \<Rightarrow> None
                | Some account_id \<Rightarrow>
                    if account_id = 0 \<or> \<not> valid_jti jti then None
                    else (let issued = seconds issued_at; expires = seconds expires_at
                          in if expires + jws_clock_leeway < now \<or> now + jws_clock_leeway < issued
                             then None
                             else Some \<lparr>ic_issuer = issuer, ic_account_id = account_id,
                                        ic_jti = jti, ic_issued_at = issued,
                                        ic_expires_at = expires\<rparr>))
      | _ \<Rightarrow> None)"

definition identity_validate ::
  "sodium \<Rightarrow> identity_codec \<Rightarrow> string \<Rightarrow> string \<Rightarrow> time_point \<Rightarrow> identity_claims option" where
  "identity_validate na codec token expected_issuer now =
     (case jws_decode na (id_jws codec) token (id_kid codec) of
        None \<Rightarrow> None
      | Some payload \<Rightarrow> identity_claims_of payload expected_issuer now)"

definition identity_jwks :: "identity_codec \<Rightarrow> string" where
  "identity_jwks codec =
     ''{'' @ [quote] @ ''keys'' @ [quote] @ '':['' @
     json_encode
       (json_object_of
          [(''kty'', Jstring ''OKP''), (''crv'', Jstring ''Ed25519''),
           (''x'', Jstring (base64url_encode (jws_public_key (id_jws codec)))),
           (''kid'', Jstring (id_kid codec))]) @ '']}''"

section \<open>The replay guard\<close>

text \<open>Consumed identifiers with their expiry; expired records are erased first.\<close>

type_synonym identity_guard = "string \<rightharpoonup> time_point"

definition erase_consumed :: "identity_guard \<Rightarrow> time_point \<Rightarrow> identity_guard" where
  "erase_consumed consumed now =
     (\<lambda>jti. case consumed jti of
              None \<Rightarrow> None
            | Some expires_at \<Rightarrow> if expires_at + jws_clock_leeway < now then None else Some expires_at)"

definition identity_consume ::
  "identity_guard \<Rightarrow> identity_claims \<Rightarrow> time_point \<Rightarrow> identity_guard \<times> bool" where
  "identity_consume consumed claims now =
     (let kept = erase_consumed consumed now
      in case kept (ic_jti claims) of
           Some _ \<Rightarrow> (kept, False)
         | None \<Rightarrow> (kept(ic_jti claims \<mapsto> ic_expires_at claims), True))"

definition identity_live :: "identity_guard \<Rightarrow> string \<Rightarrow> time_point \<Rightarrow> bool" where
  "identity_live consumed jti now \<longleftrightarrow>
     (case consumed jti of None \<Rightarrow> False | Some expires_at \<Rightarrow> now \<le> expires_at + jws_clock_leeway)"

interpretation identity_guard: replay_guard identity_consume ic_jti
  "\<lambda>claims. ic_expires_at claims + jws_clock_leeway" identity_live
  by unfold_locales
    (auto simp: identity_consume_def identity_live_def erase_consumed_def Let_def
      split: option.splits if_splits)

section \<open>Canonical account numbers\<close>

lemma parse_account_show [simp]: "parse_account (show_nat (unat (a :: u64))) = Some a"
proof -
  have "1 < length (show_nat (unat a)) \<Longrightarrow> hd (show_nat (unat a)) \<noteq> CHR ''0''"
    by (cases "a = 0") (simp_all add: hd_show_nat unat_0_iff)
  moreover have "decimal_loop 18446744073709551615 0 (show_nat (unat a)) = Some (unat a)"
    by (rule decimal_loop_show_nat) (use u64_unat_lt [of a] in linarith)
  ultimately show ?thesis
    using length_show_u64 [of a] by (auto simp: parse_account_def)
qed

lemma parse_account_canonical:
  assumes "parse_account sub = Some a"
  shows "show_nat (unat a) = sub"
proof -
  obtain n where n: "decimal_loop (2 ^ 64 - 1) 0 sub = Some n" "a = word_of_nat n" "sub \<noteq> []"
      "length sub = 1 \<or> hd sub \<noteq> CHR ''0''"
    using assms by (cases sub) (auto simp: parse_account_def split: if_splits)
  have "n \<le> 2 ^ 64 - 1"
    by (rule decimal_loop_bound [OF _ _ n(1)]) simp_all
  then have "unat a = n"
    by (simp add: n(2) unsigned_of_nat take_bit_eq_mod)
  then show ?thesis
    using show_nat_decimal [OF n(1,3,4)] by simp
qed

section \<open>Issue and validate\<close>

text \<open>The precondition the header file documents for \<open>issue\<close>, with the sizes that keep
  header and payload within the decoder's input limit.\<close>

definition claims_issuable :: "identity_claims \<Rightarrow> bool" where
  "claims_issuable claims \<longleftrightarrow>
     ic_account_id claims \<noteq> 0 \<and> valid_jti (ic_jti claims) \<and> length (ic_issuer claims) \<le> 512 \<and>
     value_ok (Jint (epoch_seconds (ic_issued_at claims))) \<and>
     value_ok (Jint (epoch_seconds (ic_expires_at claims)))"

text \<open>What a token carries of its claims: times at whole seconds.\<close>

definition carried_claims :: "identity_claims \<Rightarrow> identity_claims" where
  "carried_claims claims =
     claims\<lparr>ic_issued_at := seconds (epoch_seconds (ic_issued_at claims)),
            ic_expires_at := seconds (epoch_seconds (ic_expires_at claims))\<rparr>"

definition identity_window :: "identity_claims \<Rightarrow> time_point \<Rightarrow> bool" where
  "identity_window claims now \<longleftrightarrow>
     ic_issued_at claims - jws_clock_leeway \<le> now \<and> now \<le> ic_expires_at claims + jws_clock_leeway"

lemma identity_payload_members:
  "map_of (identity_payload claims) =
     map_of
       [(''iss'', Jstring (ic_issuer claims)),
        (''sub'', Jstring (show_nat (unat (ic_account_id claims)))),
        (''aud'', Jstring identity_audience),
        (''purpose'', Jstring identity_purpose),
        (''iat'', Jint (epoch_seconds (ic_issued_at claims))),
        (''exp'', Jint (epoch_seconds (ic_expires_at claims))),
        (''jti'', Jstring (ic_jti claims))]"
  "length (identity_payload claims) = 7"
  unfolding identity_payload_def by (simp_all add: json_object_of_map json_object_of_length)

lemma identity_payload_ok:
  assumes "claims_issuable claims"
  shows "json_ok (identity_payload claims)"
    and "length (json_encode (identity_payload claims)) \<le> default_max_input_size"
proof -
  show ok: "json_ok (identity_payload claims)"
    using assms unfolding identity_payload_def claims_issuable_def
    by (intro json_object_of_ok) (simp_all del: value_ok.simps(1))
  have "object_size (identity_payload claims) \<le> 4000"
    using assms length_show_u64 [of "ic_account_id claims"]
    by (simp add: identity_payload_def object_size_of claims_issuable_def valid_jti_def jti_size_def
        identity_audience_def identity_purpose_def)
  then show "length (json_encode (identity_payload claims)) \<le> default_max_input_size"
    using length_json_encode [OF ok] by (simp add: default_max_input_size_def)
qed

lemma identity_claims_of_payload:
  assumes "claims_issuable claims"
  shows "identity_claims_of (identity_payload claims) issuer now =
    (if issuer = ic_issuer claims \<and> identity_window (carried_claims claims) now
     then Some (carried_claims claims) else None)"
  using assms
  by (auto simp: identity_claims_of_def json_string_member_def json_int_member_def
      identity_payload_members claims_issuable_def identity_window_def carried_claims_def Let_def)

lemma identity_claims_of_shape:
  assumes "json_wf payload" "identity_claims_of payload issuer now = Some claims"
  shows "payload = identity_payload claims \<and> ic_issuer claims = issuer \<and>
    ic_account_id claims \<noteq> 0 \<and> valid_jti (ic_jti claims) \<and> identity_window claims now"
proof -
  obtain sub where parts:
    "map_of payload ''iss'' = Some (Jstring (ic_issuer claims))"
    "map_of payload ''sub'' = Some (Jstring sub)"
    "map_of payload ''aud'' = Some (Jstring identity_audience)"
    "map_of payload ''purpose'' = Some (Jstring identity_purpose)"
    "map_of payload ''jti'' = Some (Jstring (ic_jti claims))"
    "map_of payload ''iat'' = Some (Jint (epoch_seconds (ic_issued_at claims)))"
    "map_of payload ''exp'' = Some (Jint (epoch_seconds (ic_expires_at claims)))"
    "parse_account sub = Some (ic_account_id claims)" "length payload = 7"
    and checks: "ic_issuer claims = issuer" "ic_account_id claims \<noteq> 0" "valid_jti (ic_jti claims)"
      "identity_window claims now"
    using assms(2)
    by (auto simp: identity_claims_of_def json_member_iffs identity_window_def Let_def
        split: option.splits if_splits)
  have "payload = identity_payload claims"
    unfolding identity_payload_def
    using parts parse_account_canonical [OF parts(8)]
    by (intro payload_shape [OF assms(1)]) auto
  then show ?thesis using checks by simp
qed

lemma identity_validate_issued:
  assumes "sodium_laws na" "new_identity_codec na seed kid = Inr codec" "length kid \<le> 512"
    "claims_issuable claims"
  shows "identity_validate na codec (identity_issue na codec claims) issuer now =
    (if issuer = ic_issuer claims \<and> identity_window (carried_claims claims) now
     then Some (carried_claims claims) else None)"
proof -
  have codec: "codec = \<lparr>id_jws = jws_of_seed na seed, id_kid = kid\<rparr>"
    using assms(2) by (simp add: new_identity_codec_def new_compact_jws_ok [OF assms(1)])
  have "jws_decode na (jws_of_seed na seed) (identity_issue na codec claims) kid =
      Some (identity_payload claims)"
    unfolding jws_decode_def identity_issue_def codec
    using decode_encoded [OF assms(1) _ assms(3), of _ seed kid] identity_payload_ok [OF assms(4)]
    by simp
  then show ?thesis
    by (simp add: identity_validate_def codec identity_claims_of_payload [OF assms(4)])
qed

lemma identity_validate_signed:
  assumes "identity_validate na codec token issuer now = Some claims"
  shows "\<exists>header payload_text signature.
    token = base64url_encode (as_bytes header) @ ''.'' @ base64url_encode (as_bytes payload_text) @
            ''.'' @ base64url_encode signature \<and>
    verify_detached na signature
      (as_bytes (base64url_encode (as_bytes header) @ ''.'' @ base64url_encode (as_bytes payload_text)))
      (jws_public_key (id_jws codec)) \<and>
    Option.bind (json_decode header) header_kid = Some (id_kid codec) \<and>
    json_decode payload_text = Some (identity_payload claims) \<and>
    ic_issuer claims = issuer \<and> ic_account_id claims \<noteq> 0 \<and> valid_jti (ic_jti claims) \<and>
    identity_window claims now"
proof -
  obtain payload where decoded:
    "decode_with_public_key na token (id_kid codec) (jws_public_key (id_jws codec)) = Some payload"
    and claims: "identity_claims_of payload issuer now = Some claims"
    using assms by (auto simp: identity_validate_def jws_decode_def split: option.splits)
  from decode_sound [OF decoded] obtain header payload_text signature where token:
    "token = base64url_encode (as_bytes header) @ ''.'' @ base64url_encode (as_bytes payload_text) @
       ''.'' @ base64url_encode signature"
    "verify_detached na signature
      (as_bytes (base64url_encode (as_bytes header) @ ''.'' @ base64url_encode (as_bytes payload_text)))
      (jws_public_key (id_jws codec))"
    "Option.bind (json_decode header) header_kid = Some (id_kid codec)"
    "json_decode payload_text = Some payload"
    by blast
  have "json_wf payload"
    using json_decode_ok token(4) by (auto simp: json_decode_def json_ok_def)
  from identity_claims_of_shape [OF this claims] show ?thesis
    using token by blast
qed

section \<open>Properties\<close>

definition example_claims :: identity_claims where
  "example_claims =
     \<lparr>ic_issuer = ''realmmesh/login'', ic_account_id = 42,
      ic_jti = ''00112233445566778899aabbccddeeff'',
      ic_issued_at = seconds 1000, ic_expires_at = seconds 1900\<rparr>"

definition example_codec :: identity_codec where
  "example_codec = \<lparr>id_jws = jws_of_seed example_sodium (replicate 32 5), id_kid = ''k1''\<rparr>"

lemma example_codec_new: "new_identity_codec example_sodium (replicate 32 5) ''k1'' = Inr example_codec"
  by (simp add: new_identity_codec_def new_compact_jws_ok example_codec_def)

lemma claims_issuable_example: "claims_issuable example_claims"
  by (simp add: claims_issuable_def example_claims_def valid_jti_def jti_size_def lower_hex_def
      is_digit_def int64_max_def int64_min_magnitude_def)

lemma example_window:
  "identity_window (carried_claims example_claims) (seconds 1950)"
  "\<not> identity_window (carried_claims example_claims) (seconds 1961)"
  by (simp_all add: identity_window_def carried_claims_def example_claims_def jws_clock_leeway_def
      seconds_def ns_per_second_def epoch_seconds_def)

text \<open>A token that the codec issues for admissible claims validates exactly for the
  issuer it names and exactly within its lifetime widened by the clock leeway, and the
  claims returned are the issued ones with their times cut to whole seconds.\<close>

lemma identity_round_trip:
  assumes "sodium_laws na" "new_identity_codec na seed kid = Inr codec" "length kid \<le> 512"
    "claims_issuable claims"
  shows "identity_validate na codec (identity_issue na codec claims) issuer now =
    (if issuer = ic_issuer claims \<and> identity_window (carried_claims claims) now
     then Some (carried_claims claims) else None)"
  using assms by (rule identity_validate_issued)

lemma identity_round_trip_witness:
  "identity_validate example_sodium example_codec
     (identity_issue example_sodium example_codec example_claims) ''realmmesh/login'' (seconds 1950) =
     Some (carried_claims example_claims) \<and>
   identity_validate example_sodium example_codec
     (identity_issue example_sodium example_codec example_claims) ''realmmesh/login'' (seconds 1961) = None"
  using identity_round_trip [OF sodium_laws_example example_codec_new _ claims_issuable_example]
    example_window
  by (simp add: example_claims_def)

text \<open>Whatever the codec accepts was signed: the token is the canonical text of a
  controlled header with this key identifier and of the payload that the returned claims
  determine, its signature was verified over these two segments, and the claims satisfy the
  schema and the time window.\<close>

lemma identity_validate_sound:
  assumes "identity_validate na codec token issuer now = Some claims"
  shows "\<exists>header payload_text signature.
    token = base64url_encode (as_bytes header) @ ''.'' @ base64url_encode (as_bytes payload_text) @
            ''.'' @ base64url_encode signature \<and>
    verify_detached na signature
      (as_bytes (base64url_encode (as_bytes header) @ ''.'' @ base64url_encode (as_bytes payload_text)))
      (jws_public_key (id_jws codec)) \<and>
    Option.bind (json_decode header) header_kid = Some (id_kid codec) \<and>
    json_decode payload_text = Some (identity_payload claims) \<and>
    ic_issuer claims = issuer \<and> ic_account_id claims \<noteq> 0 \<and> valid_jti (ic_jti claims) \<and>
    identity_window claims now"
  using assms by (rule identity_validate_signed)

lemma identity_validate_sound_witness:
  "\<exists>header payload_text signature.
    identity_issue example_sodium example_codec example_claims =
      base64url_encode (as_bytes header) @ ''.'' @ base64url_encode (as_bytes payload_text) @
      ''.'' @ base64url_encode signature \<and>
    verify_detached example_sodium signature
      (as_bytes (base64url_encode (as_bytes header) @ ''.'' @ base64url_encode (as_bytes payload_text)))
      (jws_public_key (id_jws example_codec))"
  using identity_validate_sound
      [OF trans [OF identity_validate_issued
         [OF sodium_laws_example example_codec_new _ claims_issuable_example,
           where issuer = "''realmmesh/login''" and now = "seconds 1950"]]]
    example_window
  by (auto simp: example_claims_def)

text \<open>C11. In any sequence of presentations with non-decreasing clock, an identifier that
  was consumed is not consumed again while the first token is still within its validity
  window, so one token grants at most one consumption.\<close>

theorem identity_consumed_once:
  assumes "sorted (map snd events)" "i < j" "j < length events"
    "ic_jti (fst (events ! i)) = ic_jti (fst (events ! j))"
    "identity_window (fst (events ! i)) (snd (events ! j))"
    "run_guard identity_consume guard events ! i"
  shows "\<not> run_guard identity_consume guard events ! j"
  by (rule identity_guard.accepted_once [OF assms(6,2,3,1,4)])
    (use assms(5) in \<open>simp add: identity_window_def\<close>)

theorem identity_consumed_once_witness:
  "run_guard identity_consume Map.empty
     [(example_claims, seconds 1000), (example_claims, seconds 1960)] ! 0 \<and>
   \<not> run_guard identity_consume Map.empty
     [(example_claims, seconds 1000), (example_claims, seconds 1960)] ! 1"
proof -
  have "run_guard identity_consume Map.empty
     [(example_claims, seconds 1000), (example_claims, seconds 1960)] ! 0"
    by (simp add: identity_consume_def erase_consumed_def Let_def case_prod_beta)
  then show ?thesis
    using identity_consumed_once
      [of "[(example_claims, seconds 1000), (example_claims, seconds 1960)]" 0 1 Map.empty]
    by (simp add: identity_window_def example_claims_def jws_clock_leeway_def seconds_def
        ns_per_second_def)
qed

end
