(* ===== verification/Queue_Number.thy ===== *)
theory Queue_Number
  imports Identity_Token
begin

text \<open>
  Queue numbers, version 2 (game/common/src/queue_number_v2.cpp): a signed place in the
  login queue, bound to one identity token. The signing key and the ring of verification
  keys allow rotation: a number signed by an older key still validates while the ring
  holds that key. A \<open>std::chrono::seconds\<close> value is a count of seconds here.
\<close>

record queue_number_request =
  qni_identity_jti :: string
  qni_number :: u64
  qni_issued_at :: time_point
  qni_identity_expires_at :: time_point

record queue_number_claims =
  qn_identity_jti :: string
  qn_number :: u64
  qn_issued_at :: time_point
  qn_expires_at :: time_point

record queue_number_codec =
  qnc_signer :: compact_jws
  qnc_active_kid :: string
  qnc_ring :: key_ring
  qnc_ttl :: int

definition queue_number_v2_version :: int where "queue_number_v2_version = 2"
definition queue_number_v2_issuer :: string where "queue_number_v2_issuer = ''realmmesh/queue''"
definition queue_number_v2_audience :: string where "queue_number_v2_audience = ''realmmesh-queue''"
definition queue_number_v2_purpose :: string where "queue_number_v2_purpose = ''queue-position''"
definition queue_number_v2_max_ttl :: int where "queue_number_v2_max_ttl = 86400"

section \<open>Construction\<close>

text \<open>The loop over the verification keys: the ring and whether the active key was seen.\<close>

fun add_queue_keys ::
  "sodium \<Rightarrow> string \<Rightarrow> u8 list \<Rightarrow> verification_key list \<Rightarrow> key_ring \<Rightarrow> bool \<Rightarrow> error + key_ring \<times> bool" where
  "add_queue_keys na active_kid active_public [] ring present = Inr (ring, present)"
| "add_queue_keys na active_kid active_public (key # keys) ring present =
     (if \<not> valid_kid (vk_kid key)
      then Inl (Invalid_argument ''invalid Queue Number verification kid'')
      else if vk_kid key = active_kid \<and> vk_public_key key \<noteq> active_public
      then Inl (Invalid_argument ''Queue Number active kid does not match signing key'')
      else case new_verifier na (vk_public_key key) of
             Inl e \<Rightarrow> Inl e
           | Inr verifier \<Rightarrow>
               if ring (vk_kid key) \<noteq> None
               then Inl (Invalid_argument ''duplicate Queue Number verification kid'')
               else add_queue_keys na active_kid active_public keys
                      (ring(vk_kid key \<mapsto> verifier)) (present \<or> vk_kid key = active_kid))"

definition new_queue_number_codec ::
  "sodium \<Rightarrow> signing_key \<Rightarrow> verification_key list \<Rightarrow> int \<Rightarrow> error + queue_number_codec" where
  "new_queue_number_codec na active keys ttl =
     (case new_compact_jws na (sk_seed active) of
        Inl e \<Rightarrow> Inl e
      | Inr signer \<Rightarrow>
          if \<not> valid_kid (sk_kid active)
          then Inl (Invalid_argument ''invalid Queue Number signing kid'')
          else if ttl \<le> 0 \<or> queue_number_v2_max_ttl < ttl
          then Inl (Invalid_argument ''Queue Number TTL is outside protocol bounds'')
          else if keys = []
          then Inl (Invalid_argument ''Queue Number verification ring is empty'')
          else (case ed25519_public_key_from_seed na (sk_seed active) of
                  Inl e \<Rightarrow> Inl e
                | Inr active_public \<Rightarrow>
                    (case add_queue_keys na (sk_kid active) active_public keys Map.empty False of
                       Inl e \<Rightarrow> Inl e
                     | Inr (ring, present) \<Rightarrow>
                         if \<not> present
                         then Inl (Invalid_argument
                                ''Queue Number verification ring omits active signing key'')
                         else Inr \<lparr>qnc_signer = signer, qnc_active_kid = sk_kid active,
                                   qnc_ring = ring, qnc_ttl = ttl\<rparr>)))"

section \<open>Issue and validate\<close>

definition queue_number_payload :: "string \<Rightarrow> int \<Rightarrow> int \<Rightarrow> int \<Rightarrow> json_object" where
  "queue_number_payload identity_jti number issued expires =
     json_object_of
       [(''version'', Jint queue_number_v2_version),
        (''iss'', Jstring queue_number_v2_issuer),
        (''aud'', Jstring queue_number_v2_audience),
        (''purpose'', Jstring queue_number_v2_purpose),
        (''identity_jti'', Jstring identity_jti),
        (''number'', Jint number),
        (''iat'', Jint issued),
        (''exp'', Jint expires)]"

definition queue_number_issue :: "sodium \<Rightarrow> queue_number_codec \<Rightarrow> queue_number_request \<Rightarrow> error + string" where
  "queue_number_issue na codec inp =
     (if \<not> valid_jti (qni_identity_jti inp) \<or> qni_number inp = 0 \<or>
         word_of_nat int64_max < qni_number inp \<or>
         qni_identity_expires_at inp < qni_issued_at inp
      then Inl (Invalid_argument ''invalid Queue Number v2 issue input'')
      else let expires_at = min (qni_identity_expires_at inp)
                              (qni_issued_at inp + seconds (qnc_ttl codec))
           in Inr (jws_encode na (qnc_signer codec) (controlled_header (qnc_active_kid codec))
                (queue_number_payload (qni_identity_jti inp) (uint (qni_number inp))
                   (epoch_seconds (qni_issued_at inp)) (epoch_seconds expires_at))))"

definition queue_number_claims_of :: "int \<Rightarrow> json_object \<Rightarrow> time_point \<Rightarrow> queue_number_claims option" where
  "queue_number_claims_of ttl payload now =
     (case (json_int_member payload ''version'', json_string_member payload ''iss'',
            json_string_member payload ''aud'', json_string_member payload ''purpose'',
            json_string_member payload ''identity_jti'', json_int_member payload ''number'',
            json_int_member payload ''iat'', json_int_member payload ''exp'') of
        (Some version, Some issuer, Some aud, Some purp, Some identity_jti, Some number,
         Some issued_at, Some expires_at) \<Rightarrow>
          if length payload \<noteq> 8 then None
          else if version \<noteq> queue_number_v2_version \<or> issuer \<noteq> queue_number_v2_issuer \<or>
                  aud \<noteq> queue_number_v2_audience \<or> purp \<noteq> queue_number_v2_purpose \<or>
                  \<not> valid_jti identity_jti \<or> number \<le> 0
          then None
          else (let issued = seconds issued_at; expires = seconds expires_at
                in if expires < issued \<or> issued + seconds ttl < expires \<or>
                      expires + jws_clock_leeway < now \<or> now + jws_clock_leeway < issued
                   then None
                   else Some \<lparr>qn_identity_jti = identity_jti, qn_number = word_of_int number,
                              qn_issued_at = issued, qn_expires_at = expires\<rparr>)
      | _ \<Rightarrow> None)"

definition queue_number_validate ::
  "sodium \<Rightarrow> queue_number_codec \<Rightarrow> string \<Rightarrow> time_point \<Rightarrow> queue_number_claims option" where
  "queue_number_validate na codec token now =
     (case ring_decode na (qnc_ring codec) token of
        None \<Rightarrow> None
      | Some payload \<Rightarrow> queue_number_claims_of (qnc_ttl codec) payload now)"

definition queue_number_validate_identity ::
  "sodium \<Rightarrow> queue_number_codec \<Rightarrow> string \<Rightarrow> string \<Rightarrow> time_point \<Rightarrow> time_point \<Rightarrow> queue_number_claims option" where
  "queue_number_validate_identity na codec token expected_jti identity_expires_at now =
     (if \<not> valid_jti expected_jti then None
      else case queue_number_validate na codec token now of
             None \<Rightarrow> None
           | Some claims \<Rightarrow>
               if qn_identity_jti claims \<noteq> expected_jti \<or> identity_expires_at < qn_expires_at claims
               then None else Some claims)"

section \<open>The ring holds the active key\<close>

lemma add_queue_keys_ring:
  "add_queue_keys na kid public keys ring present = Inr (ring', present') \<Longrightarrow>
     (ring kid = (if present then Some public else None)) \<Longrightarrow>
     (ring' kid = (if present' then Some public else None)) \<and> ring \<subseteq>\<^sub>m ring'"
proof (induction na kid public keys ring present rule: add_queue_keys.induct)
  case (2 na kid public key keys ring present)
  from "2.prems"(1) obtain verifier where v:
    "new_verifier na (vk_public_key key) = Inr verifier" "valid_kid (vk_kid key)"
    "\<not> (vk_kid key = kid \<and> vk_public_key key \<noteq> public)" "ring (vk_kid key) = None"
    "add_queue_keys na kid public keys (ring(vk_kid key \<mapsto> verifier))
       (present \<or> vk_kid key = kid) = Inr (ring', present')"
    by (auto split: if_splits sum.splits)
  have same: "verifier = vk_public_key key"
    using v(1) by (auto simp: new_verifier_def split: if_splits)
  have "(ring(vk_kid key \<mapsto> verifier)) kid =
      (if present \<or> vk_kid key = kid then Some public else None)"
    using v(3,4) "2.prems"(2) same by auto
  from "2.IH" [OF _ _ v(1) _ v(5) this] v(2-4)
  have "(ring' kid = (if present' then Some public else None)) \<and>
      ring(vk_kid key \<mapsto> verifier) \<subseteq>\<^sub>m ring'"
    by blast
  moreover have "ring \<subseteq>\<^sub>m ring(vk_kid key \<mapsto> verifier)"
    using v(4) by (auto simp: map_le_def)
  ultimately show ?case
    using map_le_trans by blast
qed auto

lemma new_codec_parts:
  assumes "sodium_laws na" "new_queue_number_codec na active keys ttl = Inr codec"
  shows "qnc_signer codec = jws_of_seed na (sk_seed active) \<and> qnc_active_kid codec = sk_kid active \<and>
    qnc_ttl codec = ttl \<and> valid_kid (sk_kid active) \<and> 0 < ttl \<and> ttl \<le> queue_number_v2_max_ttl \<and>
    qnc_ring codec (sk_kid active) = Some (fst (seed_keypair na (sk_seed active)))"
proof -
  have public: "ed25519_public_key_from_seed na (sk_seed active) =
      Inr (fst (seed_keypair na (sk_seed active)))"
    using assms(1) by (simp add: ed25519_public_key_from_seed_def sodium_laws_def)
  obtain ring where ring:
    "add_queue_keys na (sk_kid active) (fst (seed_keypair na (sk_seed active))) keys Map.empty False =
       Inr (ring, True)"
    "codec = \<lparr>qnc_signer = jws_of_seed na (sk_seed active), qnc_active_kid = sk_kid active,
              qnc_ring = ring, qnc_ttl = ttl\<rparr>"
    "valid_kid (sk_kid active)" "0 < ttl" "ttl \<le> queue_number_v2_max_ttl"
    using assms(2)
    by (auto simp: new_queue_number_codec_def new_compact_jws_ok [OF assms(1)] public
        split: if_splits sum.splits prod.splits)
  then show ?thesis
    using add_queue_keys_ring [OF ring(1)] by simp
qed

section \<open>What is issued validates\<close>

text \<open>Cutting both ends of a lifetime to whole seconds keeps their order and never
  lengthens it.\<close>

lemma truncated_lifetime:
  assumes "i \<le> e" "e \<le> i + seconds n" "0 \<le> n"
  shows "seconds (epoch_seconds i) \<le> seconds (epoch_seconds e)"
    and "seconds (epoch_seconds e) \<le> seconds (epoch_seconds i) + seconds n"
proof -
  show "seconds (epoch_seconds i) \<le> seconds (epoch_seconds e)"
    using assms(1) by (simp add: epoch_seconds_mono)
  have "epoch_seconds e \<le> epoch_seconds i + n"
    using assms unfolding epoch_seconds_def clock_defs
    by (auto split: if_splits)
  then show "seconds (epoch_seconds e) \<le> seconds (epoch_seconds i) + seconds n"
    by (simp add: clock_defs algebra_simps)
qed

definition carried_queue_number :: "int \<Rightarrow> queue_number_request \<Rightarrow> queue_number_claims" where
  "carried_queue_number ttl inp =
     \<lparr>qn_identity_jti = qni_identity_jti inp, qn_number = qni_number inp,
      qn_issued_at = seconds (epoch_seconds (qni_issued_at inp)),
      qn_expires_at = seconds (epoch_seconds
        (min (qni_identity_expires_at inp) (qni_issued_at inp + seconds ttl)))\<rparr>"

definition queue_number_window :: "queue_number_claims \<Rightarrow> time_point \<Rightarrow> bool" where
  "queue_number_window claims now \<longleftrightarrow>
     qn_issued_at claims - jws_clock_leeway \<le> now \<and> now \<le> qn_expires_at claims + jws_clock_leeway"

text \<open>Clock values whose seconds fit the 64-bit integers of the payload.\<close>

definition clock_fits :: "time_point \<Rightarrow> bool" where
  "clock_fits t \<longleftrightarrow> value_ok (Jint (epoch_seconds t))"

lemma queue_number_payload_members:
  "map_of (queue_number_payload jti number issued expires) =
     map_of
       [(''version'', Jint queue_number_v2_version), (''iss'', Jstring queue_number_v2_issuer),
        (''aud'', Jstring queue_number_v2_audience), (''purpose'', Jstring queue_number_v2_purpose),
        (''identity_jti'', Jstring jti), (''number'', Jint number), (''iat'', Jint issued),
        (''exp'', Jint expires)]"
  "length (queue_number_payload jti number issued expires) = 8"
  unfolding queue_number_payload_def by (simp_all add: json_object_of_map json_object_of_length)

lemma queue_number_payload_ok:
  assumes "valid_jti jti" "value_ok (Jint number)" "value_ok (Jint issued)" "value_ok (Jint expires)"
  shows "json_ok (queue_number_payload jti number issued expires)"
    and "length (json_encode (queue_number_payload jti number issued expires)) \<le> default_max_input_size"
proof -
  show ok: "json_ok (queue_number_payload jti number issued expires)"
    unfolding queue_number_payload_def
    by (intro json_object_of_ok)
      (use assms in \<open>simp_all add: queue_number_v2_version_def int64_max_def int64_min_magnitude_def\<close>)
  have "object_size (queue_number_payload jti number issued expires) \<le> 4000"
    using assms(1)
    by (simp add: queue_number_payload_def object_size_of valid_jti_def jti_size_def
        queue_number_v2_issuer_def queue_number_v2_audience_def queue_number_v2_purpose_def)
  then show "length (json_encode (queue_number_payload jti number issued expires)) \<le> default_max_input_size"
    using length_json_encode [OF ok] by (simp add: default_max_input_size_def)
qed

text \<open>What a successful issue guarantees about its input, and the token it returns.\<close>

lemma queue_number_issued:
  assumes "queue_number_issue na codec inp = Inr token"
  shows "valid_jti (qni_identity_jti inp)" "qni_number inp \<noteq> 0"
    "unat (qni_number inp) \<le> int64_max" "qni_issued_at inp \<le> qni_identity_expires_at inp"
    "token = jws_encode na (qnc_signer codec) (controlled_header (qnc_active_kid codec))
       (queue_number_payload (qni_identity_jti inp) (uint (qni_number inp))
          (epoch_seconds (qni_issued_at inp))
          (epoch_seconds (min (qni_identity_expires_at inp) (qni_issued_at inp + seconds (qnc_ttl codec)))))"
  using assms
  by (auto simp: queue_number_issue_def Let_def word_less_nat_alt int64_max_def not_less
      split: if_splits)

lemma clock_fits_min: "clock_fits a \<Longrightarrow> clock_fits b \<Longrightarrow> clock_fits (min a b)"
  by (simp add: min_def)

lemma issued_payload_ok:
  assumes "queue_number_issue na codec inp = Inr token" "clock_fits (qni_issued_at inp)"
    "clock_fits (min (qni_identity_expires_at inp) (qni_issued_at inp + seconds (qnc_ttl codec)))"
  defines "payload \<equiv> queue_number_payload (qni_identity_jti inp) (uint (qni_number inp))
    (epoch_seconds (qni_issued_at inp))
    (epoch_seconds (min (qni_identity_expires_at inp) (qni_issued_at inp + seconds (qnc_ttl codec))))"
  shows "json_ok payload" "length (json_encode payload) \<le> default_max_input_size"
proof -
  note issued = queue_number_issued [OF assms(1)]
  note n = uint_value_ok [OF issued(3)]
  show "json_ok payload" "length (json_encode payload) \<le> default_max_input_size"
    unfolding payload_def
    by (rule queue_number_payload_ok [OF issued(1) n assms(2,3) [unfolded clock_fits_def]])+
qed

lemma queue_number_claims_of_payload:
  assumes "valid_jti (qni_identity_jti inp)" "qni_number inp \<noteq> 0"
    "qni_issued_at inp \<le> qni_identity_expires_at inp" "0 < ttl" "ttl \<le> ttl'"
  shows "queue_number_claims_of ttl'
      (queue_number_payload (qni_identity_jti inp) (uint (qni_number inp))
        (epoch_seconds (qni_issued_at inp))
        (epoch_seconds (min (qni_identity_expires_at inp) (qni_issued_at inp + seconds ttl)))) now =
    (if queue_number_window (carried_queue_number ttl inp) now
     then Some (carried_queue_number ttl inp) else None)"
proof -
  let ?i = "qni_issued_at inp" and ?e = "min (qni_identity_expires_at inp) (qni_issued_at inp + seconds ttl)"
  have "0 \<le> seconds ttl"
    using assms(4) by (simp add: clock_defs)
  then have life: "seconds (epoch_seconds ?i) \<le> seconds (epoch_seconds ?e)"
    "seconds (epoch_seconds ?e) \<le> seconds (epoch_seconds ?i) + seconds ttl"
    using assms(3,4) truncated_lifetime [of ?i ?e ttl] by auto
  have "seconds ttl \<le> seconds ttl'"
    using assms(5) by simp
  then have order: "\<not> seconds (epoch_seconds ?i) + seconds ttl' < seconds (epoch_seconds ?e)"
    "\<not> epoch_seconds ?e < epoch_seconds ?i"
    using life(2) life(1) by (linarith, simp)
  have "0 < uint (qni_number inp)"
    using assms(2) by (simp add: order_less_le uint_0_iff)
  then show ?thesis
    using assms(1) order
    by (auto simp: queue_number_claims_of_def json_string_member_def json_int_member_def
        queue_number_payload_members queue_number_window_def carried_queue_number_def Let_def)
qed

lemma queue_number_issue_validate:
  assumes "sodium_laws na" "new_queue_number_codec na active keys ttl = Inr codec"
    "queue_number_issue na codec inp = Inr token" "clock_fits (qni_issued_at inp)"
    "clock_fits (min (qni_identity_expires_at inp) (qni_issued_at inp + seconds (qnc_ttl codec)))"
    "qnc_ring codec' (sk_kid active) = Some (fst (seed_keypair na (sk_seed active)))"
    "ttl \<le> qnc_ttl codec'"
  shows "queue_number_validate na codec' token now =
    (if queue_number_window (carried_queue_number ttl inp) now
     then Some (carried_queue_number ttl inp) else None)"
proof -
  note parts = new_codec_parts [OF assms(1,2)]
  note issued = queue_number_issued [OF assms(3)]
  have "ring_decode na (qnc_ring codec') token = Some (queue_number_payload (qni_identity_jti inp)
      (uint (qni_number inp)) (epoch_seconds (qni_issued_at inp))
      (epoch_seconds (min (qni_identity_expires_at inp) (qni_issued_at inp + seconds ttl))))"
    unfolding issued(5) using parts issued_payload_ok [OF assms(3,4,5)]
    by (auto intro!: ring_decode_encoded [OF assms(1)] simp: assms(6))
  then show ?thesis
    using queue_number_claims_of_payload [OF issued(1,2,4) _ assms(7)] parts
    by (simp add: queue_number_validate_def)
qed

section \<open>What validates was issued\<close>

text \<open>The claims an accepted number carries, and the payload they determine.\<close>

definition queue_claims_ok :: "int \<Rightarrow> queue_number_claims \<Rightarrow> bool" where
  "queue_claims_ok ttl claims \<longleftrightarrow>
     valid_jti (qn_identity_jti claims) \<and> qn_number claims \<noteq> 0 \<and>
     unat (qn_number claims) \<le> int64_max \<and>
     qn_issued_at claims \<le> qn_expires_at claims \<and>
     qn_expires_at claims \<le> qn_issued_at claims + seconds ttl"

definition queue_claims_payload :: "queue_number_claims \<Rightarrow> json_object" where
  "queue_claims_payload claims =
     queue_number_payload (qn_identity_jti claims) (uint (qn_number claims))
       (epoch_seconds (qn_issued_at claims)) (epoch_seconds (qn_expires_at claims))"

lemma queue_number_claims_shape:
  assumes "json_ok payload" "queue_number_claims_of ttl payload now = Some claims"
  shows "payload = queue_claims_payload claims \<and> queue_claims_ok ttl claims \<and>
    queue_number_window claims now"
proof -
  obtain number where parts:
    "map_of payload ''version'' = Some (Jint queue_number_v2_version)"
    "map_of payload ''iss'' = Some (Jstring queue_number_v2_issuer)"
    "map_of payload ''aud'' = Some (Jstring queue_number_v2_audience)"
    "map_of payload ''purpose'' = Some (Jstring queue_number_v2_purpose)"
    "map_of payload ''identity_jti'' = Some (Jstring (qn_identity_jti claims))"
    "map_of payload ''number'' = Some (Jint number)"
    "map_of payload ''iat'' = Some (Jint (epoch_seconds (qn_issued_at claims)))"
    "map_of payload ''exp'' = Some (Jint (epoch_seconds (qn_expires_at claims)))"
    "length payload = 8" "0 < number" "qn_number claims = word_of_int number"
    and checks: "valid_jti (qn_identity_jti claims)" "queue_number_window claims now"
      "qn_issued_at claims \<le> qn_expires_at claims"
      "qn_expires_at claims \<le> qn_issued_at claims + seconds ttl"
    using assms(2)
    by (auto simp: queue_number_claims_of_def json_member_iffs queue_number_window_def Let_def
        simp del: seconds_le_iff seconds_less_iff split: option.splits if_splits)
  have "value_ok (Jint number)"
    using assms(1) map_of_SomeD [OF parts(6)] by (auto simp: json_ok_def simp del: value_ok.simps)
  note number = int64_word [OF parts(10) this]
  have "payload = queue_claims_payload claims"
    unfolding queue_claims_payload_def queue_number_payload_def
    using parts number assms(1) by (intro payload_shape) (auto simp: json_ok_def)
  then show ?thesis
    using checks number parts(11) by (simp add: queue_claims_ok_def)
qed

lemma queue_number_validate_signed:
  assumes "queue_number_validate na codec token now = Some claims"
  shows "signed_by_ring na (qnc_ring codec) token (queue_claims_payload claims) \<and>
    queue_claims_ok (qnc_ttl codec) claims \<and> queue_number_window claims now"
proof -
  obtain payload where p: "ring_decode na (qnc_ring codec) token = Some payload"
    "queue_number_claims_of (qnc_ttl codec) payload now = Some claims"
    using assms by (auto simp: queue_number_validate_def split: option.splits)
  have sound: "signed_by_ring na (qnc_ring codec) token payload" "json_ok payload"
    using ring_decode_sound [OF p(1)] json_decode_ok by (auto simp: signed_by_ring_def json_decode_def)
  show ?thesis
    using queue_number_claims_shape [OF sound(2) p(2)] sound(1) by auto
qed

section \<open>Properties\<close>

definition example_signing_key :: signing_key where
  "example_signing_key = \<lparr>sk_kid = ''q1'', sk_seed = replicate 32 9\<rparr>"

definition example_verification_key :: verification_key where
  "example_verification_key =
     \<lparr>vk_kid = ''q1'', vk_public_key = fst (seed_keypair example_sodium (replicate 32 9))\<rparr>"

definition example_queue_codec :: queue_number_codec where
  "example_queue_codec =
     \<lparr>qnc_signer = jws_of_seed example_sodium (replicate 32 9), qnc_active_kid = ''q1'',
      qnc_ring = [''q1'' \<mapsto> replicate 32 9], qnc_ttl = 600\<rparr>"

lemma example_queue_codec_new:
  "new_queue_number_codec example_sodium example_signing_key [example_verification_key] 600 =
     Inr example_queue_codec"
  by (simp add: new_queue_number_codec_def new_compact_jws_ok ed25519_public_key_from_seed_def
      example_signing_key_def example_verification_key_def valid_kid_def kid_char_def is_digit_def
      queue_number_v2_max_ttl_def new_verifier_def example_queue_codec_def)
    (simp add: example_sodium_def)

definition example_queue_issue :: queue_number_request where
  "example_queue_issue =
     \<lparr>qni_identity_jti = ''00112233445566778899aabbccddeeff'', qni_number = 17,
      qni_issued_at = seconds 1000, qni_identity_expires_at = seconds 1900\<rparr>"

lemma valid_jti_example [simp]: "valid_jti ''00112233445566778899aabbccddeeff''"
  by (simp add: valid_jti_def jti_size_def lower_hex_def is_digit_def)

lemma example_queue_issued:
  "\<exists>token. queue_number_issue example_sodium example_queue_codec example_queue_issue = Inr token"
  by (simp add: queue_number_issue_def example_queue_issue_def Let_def int64_max_def)

lemma example_clock_fits:
  "clock_fits (qni_issued_at example_queue_issue)"
  "clock_fits (min (qni_identity_expires_at example_queue_issue)
     (qni_issued_at example_queue_issue + seconds (qnc_ttl example_queue_codec)))"
  by (simp_all add: clock_fits_def example_queue_issue_def example_queue_codec_def int64_max_def
      int64_min_magnitude_def clock_defs epoch_seconds_def)

lemma example_queue_ring:
  "qnc_ring example_queue_codec (sk_kid example_signing_key) =
     Some (fst (seed_keypair example_sodium (sk_seed example_signing_key)))"
  "qnc_ttl example_queue_codec = 600"
  by (simp_all add: example_queue_codec_def example_signing_key_def example_sodium_def)

lemma example_queue_window:
  "queue_number_window (carried_queue_number 600 example_queue_issue) (seconds 1660)"
  "\<not> queue_number_window (carried_queue_number 600 example_queue_issue) (seconds 1661)"
  by (simp_all add: queue_number_window_def carried_queue_number_def example_queue_issue_def
      clock_defs epoch_seconds_def jws_clock_leeway_def)

text \<open>A queue number issued by one codec validates at every codec whose ring holds the
  signing key under its identifier and whose lifetime bound is no smaller, exactly within
  its lifetime widened by the leeway, and returns the issued identity and number; its
  lifetime ends with the identity or after the configured seconds, whichever is first.\<close>

lemma queue_number_round_trip:
  assumes "sodium_laws na" "new_queue_number_codec na active keys ttl = Inr codec"
    "queue_number_issue na codec inp = Inr token" "clock_fits (qni_issued_at inp)"
    "clock_fits (min (qni_identity_expires_at inp) (qni_issued_at inp + seconds (qnc_ttl codec)))"
    "qnc_ring codec' (sk_kid active) = Some (fst (seed_keypair na (sk_seed active)))"
    "ttl \<le> qnc_ttl codec'"
  shows "queue_number_validate na codec' token now =
    (if queue_number_window (carried_queue_number ttl inp) now
     then Some (carried_queue_number ttl inp) else None)"
  using assms by (rule queue_number_issue_validate)

lemma queue_number_round_trip_witness:
  "\<exists>token. queue_number_issue example_sodium example_queue_codec example_queue_issue = Inr token \<and>
     queue_number_validate example_sodium example_queue_codec token (seconds 1660) =
       Some (carried_queue_number 600 example_queue_issue) \<and>
     queue_number_validate example_sodium example_queue_codec token (seconds 1661) = None"
proof -
  obtain token where
    token: "queue_number_issue example_sodium example_queue_codec example_queue_issue = Inr token"
    using example_queue_issued by blast
  note run = queue_number_round_trip [OF sodium_laws_example example_queue_codec_new token
      example_clock_fits example_queue_ring(1)]
  show ?thesis
    using token run [of "seconds 1660"] run [of "seconds 1661"] example_queue_window
    by (simp add: example_queue_ring)
qed

text \<open>A queue number accepted together with an identity was signed with the ring key
  its header names, over the payload that the returned claims determine; it carries that
  identity, a positive number within 63 bits, a lifetime within the bound that ends no
  later than the identity, and is within its time window.\<close>

lemma queue_number_identity_sound:
  assumes "queue_number_validate_identity na codec token jti identity_expires_at now = Some claims"
  shows "signed_by_ring na (qnc_ring codec) token (queue_claims_payload claims) \<and>
    queue_claims_ok (qnc_ttl codec) claims \<and> queue_number_window claims now \<and>
    qn_identity_jti claims = jti \<and> qn_expires_at claims \<le> identity_expires_at"
  using assms queue_number_validate_signed [of na codec token now]
  by (auto simp: queue_number_validate_identity_def split: if_splits option.splits)

lemma queue_number_identity_sound_witness:
  "\<exists>token. signed_by_ring example_sodium (qnc_ring example_queue_codec) token
     (queue_claims_payload (carried_queue_number 600 example_queue_issue))"
proof -
  obtain token where
    token: "queue_number_issue example_sodium example_queue_codec example_queue_issue = Inr token"
    using example_queue_issued by blast
  have "queue_number_validate example_sodium example_queue_codec token (seconds 1660) =
      Some (carried_queue_number 600 example_queue_issue)"
    using queue_number_issue_validate [OF sodium_laws_example example_queue_codec_new token
        example_clock_fits example_queue_ring(1)] example_queue_window
    by (simp add: example_queue_ring)
  then have "queue_number_validate_identity example_sodium example_queue_codec token
      ''00112233445566778899aabbccddeeff'' (seconds 1900) (seconds 1660) =
      Some (carried_queue_number 600 example_queue_issue)"
    by (simp add: queue_number_validate_identity_def carried_queue_number_def example_queue_issue_def
        clock_defs epoch_seconds_def)
  from queue_number_identity_sound [OF this] show ?thesis by blast
qed

end
