(* ===== verification/Admission_Grant.thy ===== *)
theory Admission_Grant
  imports Queue_Number
begin

text \<open>
  Admission grants (game/common/src/admission_grant.cpp): the signed permission to pass the
  gateway, issued by the queue for one identity and one released queue number. The issuer
  holds one signing key; the verifier holds only public keys.
\<close>

definition admission_grant_version :: int where "admission_grant_version = 1"
definition admission_grant_audience :: string where "admission_grant_audience = ''realmmesh-gateway''"
definition admission_grant_purpose :: string where "admission_grant_purpose = ''gateway-admission''"
definition admission_grant_max_window :: int where "admission_grant_max_window = 600"

record grant_policy =
  gp_issuer :: string
  gp_deployment_id :: string
  gp_window :: int

record grant_issue =
  gi_grant_jti :: string
  gi_identity_jti :: string
  gi_queue_number :: u64
  gi_released_at :: time_point
  gi_issued_at :: time_point
  gi_identity_expires_at :: time_point

record grant_claims =
  gc_issuer :: string
  gc_grant_jti :: string
  gc_identity_jti :: string
  gc_queue_number :: u64
  gc_deployment_id :: string
  gc_released_at :: time_point
  gc_issued_at :: time_point
  gc_expires_at :: time_point

record grant_issuer =
  gis_signer :: compact_jws
  gis_active_kid :: string
  gis_policy :: grant_policy

record grant_verifier =
  gv_ring :: key_ring
  gv_policy :: grant_policy

section \<open>Policy and construction\<close>

definition printable :: "char \<Rightarrow> bool" where
  "printable c \<longleftrightarrow> 33 \<le> (of_char c :: nat) \<and> (of_char c :: nat) \<le> 126"

definition valid_identifier :: "string \<Rightarrow> nat \<Rightarrow> bool" where
  "valid_identifier s maximum \<longleftrightarrow> s \<noteq> [] \<and> length s \<le> maximum \<and> list_all printable s"

definition policy_validate :: "grant_policy \<Rightarrow> error + unit" where
  "policy_validate policy =
     (if \<not> valid_identifier (gp_issuer policy) 128 \<or> \<not> valid_identifier (gp_deployment_id policy) 128
      then Inl (Invalid_argument ''Admission Grant issuer and deployment must be bounded identifiers'')
      else if gp_window policy \<le> 0 \<or> admission_grant_max_window < gp_window policy
      then Inl (Invalid_argument ''Admission Grant window is outside protocol bounds'')
      else Inr ())"

definition new_grant_issuer :: "sodium \<Rightarrow> signing_key \<Rightarrow> grant_policy \<Rightarrow> error + grant_issuer" where
  "new_grant_issuer na active policy =
     (case new_compact_jws na (sk_seed active) of
        Inl e \<Rightarrow> Inl e
      | Inr signer \<Rightarrow>
          (case policy_validate policy of
             Inl e \<Rightarrow> Inl e
           | Inr _ \<Rightarrow>
               if \<not> valid_kid (sk_kid active)
               then Inl (Invalid_argument ''invalid Admission Grant signing kid'')
               else Inr \<lparr>gis_signer = signer, gis_active_kid = sk_kid active, gis_policy = policy\<rparr>))"

fun add_grant_keys :: "sodium \<Rightarrow> verification_key list \<Rightarrow> key_ring \<Rightarrow> error + key_ring" where
  "add_grant_keys na [] ring = Inr ring"
| "add_grant_keys na (key # keys) ring =
     (if \<not> valid_kid (vk_kid key)
      then Inl (Invalid_argument ''invalid Admission Grant verification kid'')
      else case new_verifier na (vk_public_key key) of
             Inl e \<Rightarrow> Inl e
           | Inr verifier \<Rightarrow>
               if ring (vk_kid key) \<noteq> None
               then Inl (Invalid_argument ''duplicate Admission Grant verification kid'')
               else add_grant_keys na keys (ring(vk_kid key \<mapsto> verifier)))"

definition new_grant_verifier ::
  "sodium \<Rightarrow> verification_key list \<Rightarrow> grant_policy \<Rightarrow> error + grant_verifier" where
  "new_grant_verifier na keys policy =
     (case policy_validate policy of
        Inl e \<Rightarrow> Inl e
      | Inr _ \<Rightarrow>
          if keys = [] then Inl (Invalid_argument ''Admission Grant verification ring is empty'')
          else case add_grant_keys na keys Map.empty of
                 Inl e \<Rightarrow> Inl e
               | Inr ring \<Rightarrow> Inr \<lparr>gv_ring = ring, gv_policy = policy\<rparr>)"

section \<open>Issue and validate\<close>

definition grant_payload ::
  "grant_policy \<Rightarrow> string \<Rightarrow> string \<Rightarrow> int \<Rightarrow> int \<Rightarrow> int \<Rightarrow> int \<Rightarrow> json_object" where
  "grant_payload policy grant_jti identity_jti number released issued expires =
     json_object_of
       [(''version'', Jint admission_grant_version),
        (''iss'', Jstring (gp_issuer policy)),
        (''aud'', Jstring admission_grant_audience),
        (''purpose'', Jstring admission_grant_purpose),
        (''grant_jti'', Jstring grant_jti),
        (''identity_jti'', Jstring identity_jti),
        (''queue_number'', Jint number),
        (''deployment_id'', Jstring (gp_deployment_id policy)),
        (''released_at'', Jint released),
        (''iat'', Jint issued),
        (''exp'', Jint expires)]"

definition grant_expiry :: "grant_policy \<Rightarrow> grant_issue \<Rightarrow> time_point" where
  "grant_expiry policy inp =
     min (gi_identity_expires_at inp) (gi_released_at inp + seconds (gp_window policy))"

definition grant_issue_token :: "sodium \<Rightarrow> grant_issuer \<Rightarrow> grant_issue \<Rightarrow> error + string" where
  "grant_issue_token na issuer inp =
     (if \<not> valid_jti (gi_grant_jti inp) \<or> \<not> valid_jti (gi_identity_jti inp) \<or>
         gi_queue_number inp = 0 \<or> word_of_nat int64_max < gi_queue_number inp \<or>
         gi_issued_at inp < gi_released_at inp
      then Inl (Invalid_argument ''invalid Admission Grant issue input'')
      else let expires_at = grant_expiry (gis_policy issuer) inp
           in if expires_at < gi_issued_at inp
              then Inl (Invalid_argument
                     ''Admission Grant cannot outlive its identity or release window'')
              else Inr (jws_encode na (gis_signer issuer) (controlled_header (gis_active_kid issuer))
                     (grant_payload (gis_policy issuer) (gi_grant_jti inp) (gi_identity_jti inp)
                        (uint (gi_queue_number inp)) (epoch_seconds (gi_released_at inp))
                        (epoch_seconds (gi_issued_at inp)) (epoch_seconds expires_at))))"

definition grant_claims_of ::
  "grant_policy \<Rightarrow> json_object \<Rightarrow> string \<Rightarrow> time_point \<Rightarrow> time_point \<Rightarrow> grant_claims option" where
  "grant_claims_of policy payload expected_identity_jti identity_expires_at now =
     (case (json_int_member payload ''version'', json_string_member payload ''iss'',
            json_string_member payload ''aud'', json_string_member payload ''purpose'',
            json_string_member payload ''grant_jti'', json_string_member payload ''identity_jti'',
            json_int_member payload ''queue_number'', json_string_member payload ''deployment_id'',
            json_int_member payload ''released_at'', json_int_member payload ''iat'',
            json_int_member payload ''exp'') of
        (Some version, Some issuer, Some aud, Some purp, Some grant_jti, Some identity_jti,
         Some number, Some deployment_id, Some released_at, Some issued_at, Some expires_at) \<Rightarrow>
          if length payload \<noteq> 11 then None
          else if version \<noteq> admission_grant_version \<or> issuer \<noteq> gp_issuer policy \<or>
                  aud \<noteq> admission_grant_audience \<or> purp \<noteq> admission_grant_purpose \<or>
                  identity_jti \<noteq> expected_identity_jti \<or> \<not> valid_jti identity_jti \<or>
                  \<not> valid_jti grant_jti \<or> number \<le> 0 \<or> deployment_id \<noteq> gp_deployment_id policy
          then None
          else (let released = seconds released_at; issued = seconds issued_at;
                    expires = seconds expires_at
                in if issued < released \<or> expires < issued \<or>
                      released + seconds (gp_window policy) < expires \<or>
                      identity_expires_at < expires \<or>
                      expires + jws_clock_leeway < now \<or> now + jws_clock_leeway < issued
                   then None
                   else Some \<lparr>gc_issuer = issuer, gc_grant_jti = grant_jti,
                              gc_identity_jti = identity_jti, gc_queue_number = word_of_int number,
                              gc_deployment_id = deployment_id, gc_released_at = released,
                              gc_issued_at = issued, gc_expires_at = expires\<rparr>)
      | _ \<Rightarrow> None)"

definition grant_validate ::
  "sodium \<Rightarrow> grant_verifier \<Rightarrow> string \<Rightarrow> string \<Rightarrow> time_point \<Rightarrow> time_point \<Rightarrow> grant_claims option" where
  "grant_validate na verifier token expected_identity_jti identity_expires_at now =
     (if \<not> valid_jti expected_identity_jti then None
      else case ring_decode na (gv_ring verifier) token of
             None \<Rightarrow> None
           | Some payload \<Rightarrow>
               grant_claims_of (gv_policy verifier) payload expected_identity_jti identity_expires_at now)"

section \<open>Construction facts\<close>

lemma policy_validate_iff:
  "policy_validate policy = Inr () \<longleftrightarrow>
     valid_identifier (gp_issuer policy) 128 \<and> valid_identifier (gp_deployment_id policy) 128 \<and>
     0 < gp_window policy \<and> gp_window policy \<le> admission_grant_max_window"
  by (auto simp: policy_validate_def)

lemma new_issuer_parts:
  assumes "sodium_laws na" "new_grant_issuer na active policy = Inr issuer"
  shows "gis_signer issuer = jws_of_seed na (sk_seed active) \<and> gis_active_kid issuer = sk_kid active \<and>
    gis_policy issuer = policy \<and> valid_kid (sk_kid active) \<and> policy_validate policy = Inr ()"
  using assms(2)
  by (auto simp: new_grant_issuer_def new_compact_jws_ok [OF assms(1)] split: sum.splits if_splits)

section \<open>Payloads\<close>

lemma grant_payload_members:
  "map_of (grant_payload policy grant_jti identity_jti number released issued expires) =
     map_of
       [(''version'', Jint admission_grant_version), (''iss'', Jstring (gp_issuer policy)),
        (''aud'', Jstring admission_grant_audience), (''purpose'', Jstring admission_grant_purpose),
        (''grant_jti'', Jstring grant_jti), (''identity_jti'', Jstring identity_jti),
        (''queue_number'', Jint number), (''deployment_id'', Jstring (gp_deployment_id policy)),
        (''released_at'', Jint released), (''iat'', Jint issued), (''exp'', Jint expires)]"
  "length (grant_payload policy grant_jti identity_jti number released issued expires) = 11"
  unfolding grant_payload_def by (simp_all add: json_object_of_map json_object_of_length)

lemma grant_payload_ok:
  assumes "policy_validate policy = Inr ()" "valid_jti grant_jti" "valid_jti identity_jti"
    "value_ok (Jint number)" "value_ok (Jint released)" "value_ok (Jint issued)" "value_ok (Jint expires)"
  shows "json_ok (grant_payload policy grant_jti identity_jti number released issued expires)"
    and "length (json_encode (grant_payload policy grant_jti identity_jti number released issued expires))
           \<le> default_max_input_size"
proof -
  let ?p = "grant_payload policy grant_jti identity_jti number released issued expires"
  show ok: "json_ok ?p"
    unfolding grant_payload_def
    by (intro json_object_of_ok)
      (use assms in \<open>simp_all add: admission_grant_version_def int64_max_def int64_min_magnitude_def\<close>)
  have "object_size ?p \<le> 4000"
    using assms(1-3)
    by (simp add: grant_payload_def object_size_of valid_jti_def jti_size_def policy_validate_iff
        valid_identifier_def admission_grant_audience_def admission_grant_purpose_def)
  then show "length (json_encode ?p) \<le> default_max_input_size"
    using length_json_encode [OF ok] by (simp add: default_max_input_size_def)
qed

lemma grant_issued:
  assumes "grant_issue_token na issuer inp = Inr token"
  shows "valid_jti (gi_grant_jti inp)" "valid_jti (gi_identity_jti inp)" "gi_queue_number inp \<noteq> 0"
    "unat (gi_queue_number inp) \<le> int64_max" "gi_released_at inp \<le> gi_issued_at inp"
    "gi_issued_at inp \<le> grant_expiry (gis_policy issuer) inp"
    "token = jws_encode na (gis_signer issuer) (controlled_header (gis_active_kid issuer))
       (grant_payload (gis_policy issuer) (gi_grant_jti inp) (gi_identity_jti inp)
          (uint (gi_queue_number inp)) (epoch_seconds (gi_released_at inp))
          (epoch_seconds (gi_issued_at inp)) (epoch_seconds (grant_expiry (gis_policy issuer) inp)))"
  using assms
  by (auto simp: grant_issue_token_def Let_def word_less_nat_alt int64_max_def not_less
      split: if_splits)

section \<open>What is issued validates\<close>

definition carried_grant :: "grant_policy \<Rightarrow> grant_issue \<Rightarrow> grant_claims" where
  "carried_grant policy inp =
     \<lparr>gc_issuer = gp_issuer policy, gc_grant_jti = gi_grant_jti inp,
      gc_identity_jti = gi_identity_jti inp, gc_queue_number = gi_queue_number inp,
      gc_deployment_id = gp_deployment_id policy,
      gc_released_at = seconds (epoch_seconds (gi_released_at inp)),
      gc_issued_at = seconds (epoch_seconds (gi_issued_at inp)),
      gc_expires_at = seconds (epoch_seconds (grant_expiry policy inp))\<rparr>"

definition grant_window :: "grant_claims \<Rightarrow> time_point \<Rightarrow> bool" where
  "grant_window claims now \<longleftrightarrow>
     gc_issued_at claims - jws_clock_leeway \<le> now \<and> now \<le> gc_expires_at claims + jws_clock_leeway"

lemma grant_claims_of_payload:
  assumes "valid_jti (gi_grant_jti inp)" "valid_jti (gi_identity_jti inp)" "gi_queue_number inp \<noteq> 0"
    "gi_released_at inp \<le> gi_issued_at inp" "gi_issued_at inp \<le> grant_expiry policy inp"
    "0 < gp_window policy" "0 \<le> grant_expiry policy inp"
    and ids: "gp_issuer policy' = gp_issuer policy" "gp_deployment_id policy' = gp_deployment_id policy"
      "gp_window policy \<le> gp_window policy'" "jti = gi_identity_jti inp"
      "gi_identity_expires_at inp \<le> identity_expires_at"
  shows "grant_claims_of policy'
      (grant_payload policy (gi_grant_jti inp) (gi_identity_jti inp) (uint (gi_queue_number inp))
        (epoch_seconds (gi_released_at inp)) (epoch_seconds (gi_issued_at inp))
        (epoch_seconds (grant_expiry policy inp))) jti identity_expires_at now =
    (if grant_window (carried_grant policy inp) now then Some (carried_grant policy inp) else None)"
proof -
  let ?r = "gi_released_at inp" and ?i = "gi_issued_at inp" and ?e = "grant_expiry policy inp"
  have "?e \<le> ?r + seconds (gp_window policy)"
    by (simp add: grant_expiry_def)
  then have "seconds (epoch_seconds ?e) \<le> seconds (epoch_seconds ?r) + seconds (gp_window policy)"
    using assms(4,5,6) truncated_lifetime(2) [of ?r ?e "gp_window policy"] by linarith
  moreover have "seconds (gp_window policy) \<le> seconds (gp_window policy')"
    using ids(3) by simp
  moreover have "seconds (epoch_seconds ?e) \<le> ?e" "?e \<le> gi_identity_expires_at inp"
    using assms(7) by (rule seconds_epoch_le, simp add: grant_expiry_def)
  ultimately have order: "\<not> seconds (epoch_seconds ?r) + seconds (gp_window policy') < seconds (epoch_seconds ?e)"
    "\<not> identity_expires_at < seconds (epoch_seconds ?e)"
    using ids(5) by linarith+
  have mono: "\<not> epoch_seconds ?i < epoch_seconds ?r" "\<not> epoch_seconds ?e < epoch_seconds ?i"
    using assms(4,5) by (simp_all add: not_less epoch_seconds_mono)
  have "0 < uint (gi_queue_number inp)"
    using assms(3) by (simp add: order_less_le uint_0_iff)
  then show ?thesis
    using assms(1,2) order mono ids
    by (auto simp: grant_claims_of_def json_string_member_def json_int_member_def
        grant_payload_members grant_window_def carried_grant_def Let_def)
qed

text \<open>The clock values of a grant: non-negative and within the payload integers.\<close>

definition grant_clock_ok :: "grant_policy \<Rightarrow> grant_issue \<Rightarrow> bool" where
  "grant_clock_ok policy inp \<longleftrightarrow>
     clock_fits (gi_released_at inp) \<and> clock_fits (gi_issued_at inp) \<and>
     clock_fits (grant_expiry policy inp) \<and> 0 \<le> grant_expiry policy inp"

lemma grant_issue_validate:
  assumes "sodium_laws na" "new_grant_issuer na active policy = Inr issuer"
    "grant_issue_token na issuer inp = Inr token" "grant_clock_ok policy inp"
    "gv_ring verifier (sk_kid active) = Some (fst (seed_keypair na (sk_seed active)))"
    "gv_policy verifier = policy" "gi_identity_expires_at inp \<le> identity_expires_at"
  shows "grant_validate na verifier token jti identity_expires_at now =
    (if jti = gi_identity_jti inp \<and> grant_window (carried_grant policy inp) now
     then Some (carried_grant policy inp) else None)"
proof -
  note parts = new_issuer_parts [OF assms(1,2)]
  note issued = grant_issued [OF assms(3)]
  let ?p = "grant_payload policy (gi_grant_jti inp) (gi_identity_jti inp) (uint (gi_queue_number inp))
    (epoch_seconds (gi_released_at inp)) (epoch_seconds (gi_issued_at inp))
    (epoch_seconds (grant_expiry policy inp))"
  have payload: "json_ok ?p" "length (json_encode ?p) \<le> default_max_input_size"
    using parts issued(1,2) uint_value_ok [OF issued(4)] assms(4)
    by (intro grant_payload_ok; simp only: grant_clock_ok_def clock_fits_def)+
  have decoded: "ring_decode na (gv_ring verifier) token = Some ?p"
    unfolding issued(7) using parts payload
    by (auto intro!: ring_decode_encoded [OF assms(1)] simp: assms(5))
  have other: "jti \<noteq> gi_identity_jti inp \<Longrightarrow> grant_claims_of policy ?p jti identity_expires_at now = None"
    by (auto simp: grant_claims_of_def json_string_member_def json_int_member_def grant_payload_members)
  have policy: "gis_policy issuer = policy" "0 < gp_window policy" "0 \<le> grant_expiry policy inp"
    using parts assms(4) by (auto simp: grant_clock_ok_def policy_validate_iff)
  have run: "grant_validate na verifier token jti identity_expires_at now =
      (if valid_jti jti then grant_claims_of policy ?p jti identity_expires_at now else None)"
    using decoded assms(6) by (simp add: grant_validate_def)
  show ?thesis
  proof (cases "jti = gi_identity_jti inp")
    case True
    note issued' = issued(1-3,5) issued(6) [unfolded policy(1)]
    show ?thesis
      unfolding run
      using grant_claims_of_payload [OF issued' policy(2,3) refl refl order_refl True assms(7)] True issued(2)
      by simp
  next
    case False
    then show ?thesis
      unfolding run using other by simp
  qed
qed

section \<open>What validates was issued\<close>

definition grant_claims_ok :: "grant_policy \<Rightarrow> grant_claims \<Rightarrow> bool" where
  "grant_claims_ok policy claims \<longleftrightarrow>
     gc_issuer claims = gp_issuer policy \<and> gc_deployment_id claims = gp_deployment_id policy \<and>
     valid_jti (gc_grant_jti claims) \<and> valid_jti (gc_identity_jti claims) \<and>
     gc_queue_number claims \<noteq> 0 \<and> unat (gc_queue_number claims) \<le> int64_max \<and>
     gc_released_at claims \<le> gc_issued_at claims \<and> gc_issued_at claims \<le> gc_expires_at claims \<and>
     gc_expires_at claims \<le> gc_released_at claims + seconds (gp_window policy)"

definition grant_claims_payload :: "grant_policy \<Rightarrow> grant_claims \<Rightarrow> json_object" where
  "grant_claims_payload policy claims =
     grant_payload policy (gc_grant_jti claims) (gc_identity_jti claims)
       (uint (gc_queue_number claims)) (epoch_seconds (gc_released_at claims))
       (epoch_seconds (gc_issued_at claims)) (epoch_seconds (gc_expires_at claims))"

lemma grant_claims_shape:
  assumes "json_ok payload" "grant_claims_of policy payload jti identity_expires_at now = Some claims"
  shows "payload = grant_claims_payload policy claims \<and> grant_claims_ok policy claims \<and>
    grant_window claims now \<and> gc_identity_jti claims = jti \<and> gc_expires_at claims \<le> identity_expires_at"
proof -
  obtain number where parts:
    "map_of payload ''version'' = Some (Jint admission_grant_version)"
    "map_of payload ''iss'' = Some (Jstring (gp_issuer policy))"
    "map_of payload ''aud'' = Some (Jstring admission_grant_audience)"
    "map_of payload ''purpose'' = Some (Jstring admission_grant_purpose)"
    "map_of payload ''grant_jti'' = Some (Jstring (gc_grant_jti claims))"
    "map_of payload ''identity_jti'' = Some (Jstring (gc_identity_jti claims))"
    "map_of payload ''queue_number'' = Some (Jint number)"
    "map_of payload ''deployment_id'' = Some (Jstring (gp_deployment_id policy))"
    "map_of payload ''released_at'' = Some (Jint (epoch_seconds (gc_released_at claims)))"
    "map_of payload ''iat'' = Some (Jint (epoch_seconds (gc_issued_at claims)))"
    "map_of payload ''exp'' = Some (Jint (epoch_seconds (gc_expires_at claims)))"
    "length payload = 11" "0 < number" "gc_queue_number claims = word_of_int number"
    and checks: "gc_issuer claims = gp_issuer policy" "gc_deployment_id claims = gp_deployment_id policy"
      "valid_jti (gc_grant_jti claims)" "valid_jti (gc_identity_jti claims)"
      "gc_released_at claims \<le> gc_issued_at claims" "gc_issued_at claims \<le> gc_expires_at claims"
      "gc_expires_at claims \<le> gc_released_at claims + seconds (gp_window policy)"
      "grant_window claims now" "gc_identity_jti claims = jti" "gc_expires_at claims \<le> identity_expires_at"
    using assms(2)
    by (auto simp: grant_claims_of_def json_member_iffs grant_window_def Let_def
        simp del: seconds_le_iff seconds_less_iff split: option.splits if_splits)
  have "value_ok (Jint number)"
    using assms(1) map_of_SomeD [OF parts(7)] by (auto simp: json_ok_def simp del: value_ok.simps)
  note number = int64_word [OF parts(13) this]
  have "payload = grant_claims_payload policy claims"
    unfolding grant_claims_payload_def grant_payload_def
    using parts number assms(1) by (intro payload_shape) (auto simp: json_ok_def)
  then show ?thesis
    using checks number parts(14) by (simp add: grant_claims_ok_def)
qed

lemma grant_validate_signed:
  assumes "grant_validate na verifier token jti identity_expires_at now = Some claims"
  shows "signed_by_ring na (gv_ring verifier) token (grant_claims_payload (gv_policy verifier) claims) \<and>
    grant_claims_ok (gv_policy verifier) claims \<and> grant_window claims now \<and>
    gc_identity_jti claims = jti \<and> gc_expires_at claims \<le> identity_expires_at"
proof -
  obtain payload where p: "ring_decode na (gv_ring verifier) token = Some payload"
    "grant_claims_of (gv_policy verifier) payload jti identity_expires_at now = Some claims"
    using assms by (auto simp: grant_validate_def split: option.splits if_splits)
  have sound: "signed_by_ring na (gv_ring verifier) token payload" "json_ok payload"
    using ring_decode_sound [OF p(1)] json_decode_ok by (auto simp: signed_by_ring_def json_decode_def)
  show ?thesis
    using grant_claims_shape [OF sound(2) p(2)] sound(1) by auto
qed

section \<open>The three credentials are not interchangeable\<close>

lemma claims_of_size:
  "length payload \<noteq> 7 \<Longrightarrow> identity_claims_of payload issuer now = None"
  "length payload \<noteq> 8 \<Longrightarrow> queue_number_claims_of ttl payload now = None"
  "length payload \<noteq> 11 \<Longrightarrow> grant_claims_of policy payload jti identity_expires_at now = None"
  by (simp_all add: identity_claims_of_def queue_number_claims_of_def grant_claims_of_def
      split: option.split)

lemma foreign_payload_refused:
  assumes "json_ok payload" "length (json_encode payload) \<le> default_max_input_size"
    "token = jws_encode na jws header payload"
  shows "length payload \<noteq> 7 \<Longrightarrow> identity_validate na codec token issuer now = None"
    and "length payload \<noteq> 8 \<Longrightarrow> queue_number_validate na qcodec token now = None"
    and "length payload \<noteq> 11 \<Longrightarrow> grant_validate na verifier token jti expires now = None"
  unfolding assms(3)
  by (auto simp: identity_validate_def jws_decode_def queue_number_validate_def grant_validate_def
      claims_of_size split: option.split
      dest!: decode_encoded_payload [OF assms(1,2)] ring_decode_encoded_payload [OF assms(1,2)])

section \<open>Properties\<close>

definition example_policy :: grant_policy where
  "example_policy = \<lparr>gp_issuer = ''queue'', gp_deployment_id = ''eu1'', gp_window = 300\<rparr>"

definition example_grant_issuer :: grant_issuer where
  "example_grant_issuer =
     \<lparr>gis_signer = jws_of_seed example_sodium (replicate 32 9), gis_active_kid = ''q1'',
      gis_policy = example_policy\<rparr>"

lemma example_issuer_new:
  "new_grant_issuer example_sodium example_signing_key example_policy = Inr example_grant_issuer"
  by (simp add: new_grant_issuer_def new_compact_jws_ok example_signing_key_def valid_kid_def
      kid_char_def is_digit_def policy_validate_def valid_identifier_def printable_def
      example_policy_def admission_grant_max_window_def example_grant_issuer_def)

definition example_grant_verifier :: grant_verifier where
  "example_grant_verifier = \<lparr>gv_ring = [''q1'' \<mapsto> replicate 32 9], gv_policy = example_policy\<rparr>"

definition example_grant_issue :: grant_issue where
  "example_grant_issue =
     \<lparr>gi_grant_jti = ''ffeeddccbbaa99887766554433221100'',
      gi_identity_jti = ''00112233445566778899aabbccddeeff'', gi_queue_number = 17,
      gi_released_at = seconds 1000, gi_issued_at = seconds 1010,
      gi_identity_expires_at = seconds 1900\<rparr>"

lemma example_grant_issued:
  "\<exists>token. grant_issue_token example_sodium example_grant_issuer example_grant_issue = Inr token"
  by (simp add: grant_issue_token_def example_grant_issue_def Let_def int64_max_def valid_jti_def
      jti_size_def lower_hex_def is_digit_def grant_expiry_def example_grant_issuer_def
      example_policy_def clock_defs)

lemma example_grant_clock: "grant_clock_ok example_policy example_grant_issue"
  by (simp add: grant_clock_ok_def clock_fits_def grant_expiry_def example_grant_issue_def
      example_policy_def clock_defs epoch_seconds_def int64_max_def int64_min_magnitude_def)

lemma example_grant_verifier_ring:
  "gv_ring example_grant_verifier (sk_kid example_signing_key) =
     Some (fst (seed_keypair example_sodium (sk_seed example_signing_key)))"
  "gv_policy example_grant_verifier = example_policy"
  by (simp_all add: example_grant_verifier_def example_signing_key_def example_sodium_def)

lemma example_grant_window:
  "grant_window (carried_grant example_policy example_grant_issue) (seconds 1360)"
  "\<not> grant_window (carried_grant example_policy example_grant_issue) (seconds 1361)"
  by (simp_all add: grant_window_def carried_grant_def grant_expiry_def example_grant_issue_def
      example_policy_def clock_defs epoch_seconds_def jws_clock_leeway_def)

text \<open>C12. A grant issued under a policy validates at a verifier with the same policy and the
  signing key in its ring, for exactly the identity it was issued to and exactly from its
  issue to its expiry, both widened by the leeway; the expiry is the earlier of the end of
  the identity and the end of the release window.\<close>

theorem grant_round_trip:
  assumes "sodium_laws na" "new_grant_issuer na active policy = Inr issuer"
    "grant_issue_token na issuer inp = Inr token" "grant_clock_ok policy inp"
    "gv_ring verifier (sk_kid active) = Some (fst (seed_keypair na (sk_seed active)))"
    "gv_policy verifier = policy" "gi_identity_expires_at inp \<le> identity_expires_at"
  shows "grant_validate na verifier token jti identity_expires_at now =
    (if jti = gi_identity_jti inp \<and> grant_window (carried_grant policy inp) now
     then Some (carried_grant policy inp) else None)"
  using assms by (rule grant_issue_validate)

theorem grant_round_trip_witness:
  "\<exists>token. grant_issue_token example_sodium example_grant_issuer example_grant_issue = Inr token \<and>
     grant_validate example_sodium example_grant_verifier token
       ''00112233445566778899aabbccddeeff'' (seconds 1900) (seconds 1360) =
       Some (carried_grant example_policy example_grant_issue) \<and>
     grant_validate example_sodium example_grant_verifier token
       ''00112233445566778899aabbccddeeff'' (seconds 1900) (seconds 1361) = None"
proof -
  obtain token where
    token: "grant_issue_token example_sodium example_grant_issuer example_grant_issue = Inr token"
    using example_grant_issued by blast
  have "gi_identity_expires_at example_grant_issue \<le> seconds 1900"
    "gi_identity_jti example_grant_issue = ''00112233445566778899aabbccddeeff''"
    by (simp_all add: example_grant_issue_def)
  then show ?thesis
    using token example_grant_window grant_round_trip [OF sodium_laws_example example_issuer_new token
        example_grant_clock example_grant_verifier_ring]
    by simp
qed

text \<open>C9. A grant accepted by the verifier was signed with the ring key its header names,
  over the payload that the returned claims determine; it carries the verifier's issuer and
  deployment, the expected identity, a positive queue number, a lifetime that starts at or
  after the release and ends within the policy window and the identity, and the clock is
  within it.\<close>

theorem grant_validate_sound:
  assumes "grant_validate na verifier token jti identity_expires_at now = Some claims"
  shows "signed_by_ring na (gv_ring verifier) token (grant_claims_payload (gv_policy verifier) claims) \<and>
    grant_claims_ok (gv_policy verifier) claims \<and> grant_window claims now \<and>
    gc_identity_jti claims = jti \<and> gc_expires_at claims \<le> identity_expires_at"
  using assms by (rule grant_validate_signed)

theorem grant_validate_sound_witness:
  "\<exists>token. signed_by_ring example_sodium (gv_ring example_grant_verifier) token
     (grant_claims_payload example_policy (carried_grant example_policy example_grant_issue))"
proof -
  obtain token where
    token: "grant_issue_token example_sodium example_grant_issuer example_grant_issue = Inr token"
    using example_grant_issued by blast
  have "gi_identity_expires_at example_grant_issue \<le> seconds 1900"
    by (simp add: example_grant_issue_def)
  then have "grant_validate example_sodium example_grant_verifier token
      (gi_identity_jti example_grant_issue) (seconds 1900) (seconds 1360) =
      Some (carried_grant example_policy example_grant_issue)"
    using example_grant_window grant_issue_validate [OF sodium_laws_example example_issuer_new token
        example_grant_clock example_grant_verifier_ring]
    by simp
  from grant_validate_sound [OF this] show ?thesis
    by (auto simp: example_grant_verifier_ring)
qed

text \<open>C2. Credentials are not interchangeable: whatever keys, identifiers and policies are
  configured, even the same key for all three, an identity token, a queue number and an
  admission grant are each refused by the validators of the other two.\<close>

theorem credentials_not_interchangeable:
  assumes "claims_issuable claims"
    "queue_number_issue na qcodec qinp = Inr queue_token" "clock_fits (qni_issued_at qinp)"
    "clock_fits (min (qni_identity_expires_at qinp) (qni_issued_at qinp + seconds (qnc_ttl qcodec)))"
    "new_grant_issuer na active policy = Inr issuer" "sodium_laws na"
    "grant_issue_token na issuer ginp = Inr grant_token" "grant_clock_ok policy ginp"
  shows "queue_number_validate na qcodec' (identity_issue na icodec claims) now = None \<and>
    grant_validate na verifier (identity_issue na icodec claims) jti expires now = None \<and>
    identity_validate na icodec' queue_token iss now = None \<and>
    grant_validate na verifier queue_token jti expires now = None \<and>
    identity_validate na icodec' grant_token iss now = None \<and>
    queue_number_validate na qcodec' grant_token now = None"
proof -
  note identity = foreign_payload_refused [OF identity_payload_ok [OF assms(1)] identity_issue_def]
  note queue = foreign_payload_refused
    [OF issued_payload_ok [OF assms(2,3,4)] queue_number_issued(5) [OF assms(2)]]
  note parts = new_issuer_parts [OF assms(6,5)]
  note issued = grant_issued [OF assms(7)]
  let ?p = "grant_payload policy (gi_grant_jti ginp) (gi_identity_jti ginp) (uint (gi_queue_number ginp))
    (epoch_seconds (gi_released_at ginp)) (epoch_seconds (gi_issued_at ginp))
    (epoch_seconds (grant_expiry policy ginp))"
  have payload: "json_ok ?p" "length (json_encode ?p) \<le> default_max_input_size"
    using parts issued(1,2) uint_value_ok [OF issued(4)] assms(8)
    by (intro grant_payload_ok; simp only: grant_clock_ok_def clock_fits_def)+
  have token: "grant_token = jws_encode na (gis_signer issuer) (controlled_header (gis_active_kid issuer)) ?p"
    using issued(7) parts by simp
  note grant = foreign_payload_refused [OF payload token]
  show ?thesis
    using identity queue grant
    by (simp add: identity_payload_members(2) queue_number_payload_members(2) grant_payload_members(2))
qed

theorem credentials_not_interchangeable_witness:
  "\<exists>token. grant_issue_token example_sodium example_grant_issuer example_grant_issue = Inr token \<and>
     queue_number_validate example_sodium example_queue_codec token (seconds 1010) = None"
proof -
  obtain token qtoken where
    token: "grant_issue_token example_sodium example_grant_issuer example_grant_issue = Inr token"
    and qtoken: "queue_number_issue example_sodium example_queue_codec example_queue_issue = Inr qtoken"
    using example_grant_issued example_queue_issued by blast
  show ?thesis
    using token credentials_not_interchangeable [OF claims_issuable_example qtoken example_clock_fits
        example_issuer_new sodium_laws_example token example_grant_clock]
    by blast
qed

end
