(* ===== verification/Queue_Core.thy ===== *)
theory Queue_Core
  imports RM_Prelude
begin

text \<open>
  The queue's domain core (game/queue/src/queue_core.cpp): two watermarks, the ledger of
  release batches that can still be redeemed, and the budgets that bound a release. Queue
  numbers are 64-bit words; windows of type \<open>std::chrono::seconds\<close> are counts of seconds.
  The atomics of the watermarks are plain fields: every operation runs on the frame thread.
\<close>

section \<open>State\<close>

record gateway_budget =
  gw_conn_free :: u64
  gw_fetch_free :: u64

record realm_budget =
  rb_conn_free :: u64

record budget_aggregate =
  gateway_admission :: u64
  realm_connections :: u64

record queue_release_batch =
  rb_first :: u64
  rb_last :: u64
  rb_released_at :: time_point

record queue_snapshot =
  qs_released :: u64
  qs_next :: u64
  qs_admit_rate :: u64
  qs_pruned :: u64
  qs_batches :: "queue_release_batch list"

datatype release_status = Not_released | Eligible | Expired

record queue_release_eligibility =
  re_status :: release_status
  re_released_at :: time_point

record queue_core =
  qc_step :: u64
  qc_rate_window :: int
  qc_grant_window :: int
  qc_released :: u64
  qc_next :: u64
  qc_pruned :: u64
  qc_batches :: "queue_release_batch list"

section \<open>Snapshot validation\<close>

text \<open>The loop over the batches: \<open>expected\<close> is the next first number and \<open>previous\<close> the
  release time before, none for the first batch.\<close>

fun check_batches :: "u64 \<Rightarrow> queue_release_batch list \<Rightarrow> u64 \<Rightarrow> time_point option \<Rightarrow> u64 option" where
  "check_batches released [] expected previous = Some expected"
| "check_batches released (b # bs) expected previous =
     (if rb_first b \<noteq> expected \<or> rb_last b < rb_first b \<or> released < rb_last b \<or>
         (case previous of None \<Rightarrow> False | Some t \<Rightarrow> rb_released_at b < t)
      then None
      else check_batches released bs (rb_last b + 1) (Some (rb_released_at b)))"

definition snapshot_validate :: "queue_snapshot \<Rightarrow> error + unit" where
  "snapshot_validate s =
     (if qs_next s \<le> qs_released s \<or> qs_released s < qs_pruned s
      then Inl (Invalid_argument ''inconsistent queue snapshot watermarks'')
      else case check_batches (qs_released s) (qs_batches s) (qs_pruned s + 1) None of
             None \<Rightarrow> Inl (Invalid_argument ''inconsistent queue release ledger'')
           | Some expected \<Rightarrow>
               if expected \<noteq> qs_released s + 1
               then Inl (Invalid_argument ''queue release ledger does not cover watermark'')
               else Inr ())"

section \<open>Operations\<close>

definition aggregate_budgets :: "gateway_budget list \<Rightarrow> realm_budget list \<Rightarrow> budget_aggregate" where
  "aggregate_budgets gateways realms =
     \<lparr>gateway_admission = foldl (\<lambda>sum g. sum + min (gw_conn_free g) (gw_fetch_free g)) 0 gateways,
      realm_connections = foldl (\<lambda>sum r. sum + rb_conn_free r) 0 realms\<rparr>"

definition grant_max_window :: int where
  "grant_max_window = 600"

definition new_queue_core :: "u64 \<Rightarrow> int \<Rightarrow> int \<Rightarrow> error + queue_core" where
  "new_queue_core step rate_window grant_window =
     (if rate_window \<le> 0 then Inl (Invalid_argument ''rate window must be positive'')
      else if grant_window \<le> 0 \<or> grant_max_window < grant_window
      then Inl (Invalid_argument ''grant window is outside protocol bounds'')
      else Inr \<lparr>qc_step = step, qc_rate_window = rate_window, qc_grant_window = grant_window,
                qc_released = 0, qc_next = 1, qc_pruned = 0, qc_batches = []\<rparr>)"

definition admit_rate :: "queue_core \<Rightarrow> time_point \<Rightarrow> u64" where
  "admit_rate core now =
     foldl (\<lambda>total b. if rb_released_at b \<le> now - seconds (qc_rate_window core) then total
                      else total + (rb_last b - rb_first b + 1)) 0 (qc_batches core)
     div word_of_int (qc_rate_window core)"

definition batch_expired :: "queue_core \<Rightarrow> time_point \<Rightarrow> time_point \<Rightarrow> bool" where
  "batch_expired core released_at now \<longleftrightarrow>
     released_at + seconds (qc_grant_window core) + jws_clock_leeway < now"

function prune_release_batches :: "queue_core \<Rightarrow> time_point \<Rightarrow> queue_core" where
  "prune_release_batches core now =
     (case qc_batches core of
        [] \<Rightarrow> core
      | b # bs \<Rightarrow>
          if batch_expired core (rb_released_at b) now
          then prune_release_batches (core\<lparr>qc_pruned := rb_last b, qc_batches := bs\<rparr>) now
          else core)"
  by pat_completeness auto
termination
  by (relation "measure (\<lambda>(core, now). length (qc_batches core))") auto

declare prune_release_batches.simps [simp del]

definition release_amount :: "queue_core \<Rightarrow> budget_aggregate \<Rightarrow> u64" where
  "release_amount core budgets =
     (let allowance = min (min (gateway_admission budgets) (realm_connections budgets)) (qc_step core);
          issued_ahead = qc_next core - 1 - qc_released core
      in min allowance issued_ahead)"

definition release_batch ::
  "queue_core \<Rightarrow> budget_aggregate \<Rightarrow> time_point \<Rightarrow> error + u64 \<times> queue_core" where
  "release_batch core budgets now =
     (let batch = release_amount core budgets;
          released_at = seconds (epoch_seconds now)
      in if batch = 0 then Inr (0, prune_release_batches core now)
         else if qc_batches core \<noteq> [] \<and> released_at < rb_released_at (last (qc_batches core))
         then Inl (Runtime_error ''system clock moved backwards across queue release batches'')
         else let previous = qc_released core;
                  entry = \<lparr>rb_first = previous + 1, rb_last = previous + batch,
                           rb_released_at = released_at\<rparr>
              in Inr (batch, prune_release_batches
                   (core\<lparr>qc_released := previous + batch, qc_batches := qc_batches core @ [entry]\<rparr>) now))"

fun find_batch :: "queue_core \<Rightarrow> queue_release_batch list \<Rightarrow> u64 \<Rightarrow> time_point \<Rightarrow> queue_release_eligibility" where
  "find_batch core [] number now = \<lparr>re_status = Expired, re_released_at = 0\<rparr>"
| "find_batch core (b # bs) number now =
     (if number < rb_first b then \<lparr>re_status = Expired, re_released_at = 0\<rparr>
      else if number \<le> rb_last b
      then \<lparr>re_status = (if batch_expired core (rb_released_at b) now then Expired else Eligible),
            re_released_at = rb_released_at b\<rparr>
      else find_batch core bs number now)"

definition release_eligibility :: "queue_core \<Rightarrow> u64 \<Rightarrow> time_point \<Rightarrow> queue_release_eligibility" where
  "release_eligibility core number now =
     (if number = 0 \<or> qc_released core < number
      then \<lparr>re_status = Not_released, re_released_at = 0\<rparr>
      else if number \<le> qc_pruned core then \<lparr>re_status = Expired, re_released_at = 0\<rparr>
      else find_batch core (qc_batches core) number now)"

definition core_restore :: "queue_core \<Rightarrow> queue_snapshot \<Rightarrow> time_point \<Rightarrow> error + queue_core" where
  "core_restore core s now =
     (case snapshot_validate s of
        Inl e \<Rightarrow> Inl e
      | Inr _ \<Rightarrow>
          if list_ex (\<lambda>b. now + jws_clock_leeway < rb_released_at b) (qs_batches s)
          then Inl (Invalid_argument ''queue snapshot contains a future release'')
          else Inr (prune_release_batches
                 (core\<lparr>qc_released := qs_released s, qc_next := qs_next s,
                       qc_pruned := qs_pruned s, qc_batches := qs_batches s\<rparr>) now))"

definition core_snapshot :: "queue_core \<Rightarrow> time_point \<Rightarrow> queue_snapshot" where
  "core_snapshot core now =
     \<lparr>qs_released = qc_released core, qs_next = qc_next core, qs_admit_rate = admit_rate core now,
      qs_pruned = qc_pruned core, qs_batches = qc_batches core\<rparr>"

section \<open>The ledger as a tiling\<close>

definition batch_numbers :: "queue_release_batch \<Rightarrow> nat list" where
  "batch_numbers b = [unat (rb_first b)..<Suc (unat (rb_last b))]"

definition tiles :: "queue_release_batch list \<Rightarrow> nat \<Rightarrow> nat \<Rightarrow> bool" where
  "tiles bs pruned released \<longleftrightarrow>
     (\<forall>b \<in> set bs. rb_first b \<le> rb_last b) \<and>
     concat (map batch_numbers bs) = [Suc pruned..<Suc released]"

definition ledger_valid :: "queue_snapshot \<Rightarrow> bool" where
  "ledger_valid s \<longleftrightarrow>
     qs_released s < qs_next s \<and> qs_pruned s \<le> qs_released s \<and>
     tiles (qs_batches s) (unat (qs_pruned s)) (unat (qs_released s)) \<and>
     sorted (map rb_released_at (qs_batches s))"

lemma upt_split:
  assumes "[a..<Suc l] @ xs = [e..<r]" "a \<le> l"
  shows "a = e" "Suc l \<le> r" "xs = [Suc l..<r]"
proof -
  have e: "e < r"
    using assms by (cases "e < r") auto
  have "hd ([a..<Suc l] @ xs) = a" "hd [e..<r] = e"
    using assms(2) e by (simp_all add: upt_conv_Cons del: upt_Suc)
  then show a: "a = e"
    using assms(1) by simp
  have "Suc l - a + length xs = r - e"
    using arg_cong [OF assms(1), of length] by (simp del: upt_Suc)
  then show l: "Suc l \<le> r"
    using a assms(2) e by linarith
  have "[e..<r] = [e..<Suc l] @ [Suc l..<r]"
    using l a assms(2) upt_add_eq_append [of e "Suc l" "r - Suc l"] by simp
  then show "xs = [Suc l..<r]"
    using assms(1) a by simp
qed

lemma upt_join: "a \<le> l \<Longrightarrow> Suc l \<le> r \<Longrightarrow> [a..<Suc l] @ [Suc l..<r] = [a..<r]"
  using upt_add_eq_append [of a "Suc l" "r - Suc l"] by simp

lemma word_le_unat: "(a :: u64) \<le> b \<longleftrightarrow> unat a \<le> unat b"
  by (simp add: word_le_nat_alt)

lemma check_batches_iff:
  assumes "released < next" "unat expected \<le> Suc (unat released)"
  shows "check_batches released bs expected previous = Some (released + 1) \<longleftrightarrow>
    (\<forall>b \<in> set bs. rb_first b \<le> rb_last b) \<and>
    concat (map batch_numbers bs) = [unat expected..<Suc (unat released)] \<and>
    sorted (case previous of None \<Rightarrow> map rb_released_at bs | Some t \<Rightarrow> t # map rb_released_at bs)"
  using assms(2)
proof (induction bs arbitrary: expected previous)
  case Nil
  have "unat (released + 1) = Suc (unat released)"
    by (rule u64_less_Suc [OF assms(1)])
  then have "expected = released + 1 \<longleftrightarrow> unat expected = Suc (unat released)"
    by (simp add: word_unat_eq_iff)
  then show ?case
    using Nil by (cases previous) auto
next
  case (Cons b bs)
  let ?sorted = "sorted (case previous of None \<Rightarrow> map rb_released_at (b # bs)
    | Some t \<Rightarrow> t # map rb_released_at (b # bs))"
  let ?late = "case previous of None \<Rightarrow> False | Some t \<Rightarrow> rb_released_at b < t"
  have sorted_step: "?sorted \<longleftrightarrow> \<not> ?late \<and> sorted (rb_released_at b # map rb_released_at bs)"
    by (cases previous) auto
  show ?case
  proof (cases "rb_first b = expected \<and> rb_first b \<le> rb_last b \<and> rb_last b \<le> released \<and> \<not> ?late")
    case True
    then have "unat (rb_last b + 1) = Suc (unat (rb_last b))"
      by (intro u64_less_Suc [of _ "next"]) (use assms(1) in auto)
    moreover have last: "unat (rb_last b) \<le> unat released" "unat (rb_first b) \<le> unat (rb_last b)"
      using True by (auto simp: word_le_unat)
    ultimately have IH: "check_batches released bs (rb_last b + 1) (Some (rb_released_at b)) = Some (released + 1) \<longleftrightarrow>
        (\<forall>b \<in> set bs. rb_first b \<le> rb_last b) \<and>
        concat (map batch_numbers bs) = [Suc (unat (rb_last b))..<Suc (unat released)] \<and>
        sorted (rb_released_at b # map rb_released_at bs)"
      using Cons.IH [of "rb_last b + 1" "Some (rb_released_at b)"] by simp
    have "batch_numbers b @ concat (map batch_numbers bs) = [unat expected..<Suc (unat released)] \<longleftrightarrow>
        concat (map batch_numbers bs) = [Suc (unat (rb_last b))..<Suc (unat released)]"
    proof
      assume "batch_numbers b @ concat (map batch_numbers bs) = [unat expected..<Suc (unat released)]"
      then show "concat (map batch_numbers bs) = [Suc (unat (rb_last b))..<Suc (unat released)]"
        using upt_split(3) [OF _ last(2)] by (simp only: batch_numbers_def)
    next
      assume "concat (map batch_numbers bs) = [Suc (unat (rb_last b))..<Suc (unat released)]"
      then show "batch_numbers b @ concat (map batch_numbers bs) = [unat expected..<Suc (unat released)]"
        using upt_join [OF last(2), of "Suc (unat released)"] last(1) True
        by (simp only: batch_numbers_def Suc_le_mono)
    qed
    then show ?thesis
      using True IH sorted_step by auto
  next
    case False
    then have "check_batches released (b # bs) expected previous = None"
      by (auto simp: not_le)
    moreover have "\<not> ((\<forall>b \<in> set (b # bs). rb_first b \<le> rb_last b) \<and>
        concat (map batch_numbers (b # bs)) = [unat expected..<Suc (unat released)] \<and> ?sorted)"
    proof
      assume tiled: "(\<forall>b \<in> set (b # bs). rb_first b \<le> rb_last b) \<and>
        concat (map batch_numbers (b # bs)) = [unat expected..<Suc (unat released)] \<and> ?sorted"
      then have "[unat (rb_first b)..<Suc (unat (rb_last b))] @ concat (map batch_numbers bs) =
          [unat expected..<Suc (unat released)]" "unat (rb_first b) \<le> unat (rb_last b)"
        by (simp_all only: batch_numbers_def word_le_unat list.map concat.simps list.set_intros)
      from upt_split(1,2) [OF this] False tiled sorted_step show False
        by (auto simp: word_le_unat word_unat_eq_iff)
    qed
    ultimately show ?thesis
      by simp
  qed
qed

lemma snapshot_validate_iff: "snapshot_validate s = Inr () \<longleftrightarrow> ledger_valid s"
proof (cases "qs_released s < qs_next s \<and> qs_pruned s \<le> qs_released s")
  case True
  then have "unat (qs_pruned s + 1) = Suc (unat (qs_pruned s))"
    by (intro u64_less_Suc [of _ "qs_next s"]) auto
  moreover have "unat (qs_pruned s) \<le> unat (qs_released s)"
    using True by (simp add: word_le_unat)
  ultimately show ?thesis
    using True check_batches_iff [of "qs_released s" "qs_next s" "qs_pruned s + 1" "qs_batches s" None]
    by (auto simp: snapshot_validate_def ledger_valid_def tiles_def not_le not_less split: option.splits)
next
  case False
  then show ?thesis
    by (auto simp: snapshot_validate_def ledger_valid_def not_le not_less)
qed

lemma tiles_Nil [simp]: "tiles [] p r \<longleftrightarrow> r \<le> p"
proof -
  have "[] = [Suc p..<Suc r] \<longleftrightarrow> r \<le> p"
    by (metis Suc_le_mono upt_eq_Nil_conv le_zero_eq nat.distinct(1))
  then show ?thesis
    by (simp add: tiles_def del: upt_Suc)
qed

lemma tiles_Cons:
  "tiles (b # bs) p r \<longleftrightarrow>
     unat (rb_first b) = Suc p \<and> rb_first b \<le> rb_last b \<and> unat (rb_last b) \<le> r \<and>
     tiles bs (unat (rb_last b)) r"
proof
  assume t: "tiles (b # bs) p r"
  then have parts: "[unat (rb_first b)..<Suc (unat (rb_last b))] @ concat (map batch_numbers bs) = [Suc p..<Suc r]"
    "unat (rb_first b) \<le> unat (rb_last b)"
    by (simp_all only: tiles_def batch_numbers_def word_le_unat list.map concat.simps list.set_intros)
  show "unat (rb_first b) = Suc p \<and> rb_first b \<le> rb_last b \<and> unat (rb_last b) \<le> r \<and>
      tiles bs (unat (rb_last b)) r"
    using upt_split [OF parts] t by (simp add: tiles_def del: upt_Suc)
next
  assume t: "unat (rb_first b) = Suc p \<and> rb_first b \<le> rb_last b \<and> unat (rb_last b) \<le> r \<and>
      tiles bs (unat (rb_last b)) r"
  then have "[unat (rb_first b)..<Suc (unat (rb_last b))] @ [Suc (unat (rb_last b))..<Suc r] = [Suc p..<Suc r]"
    using upt_join [of "unat (rb_first b)" "unat (rb_last b)" "Suc r"]
    by (simp add: word_le_unat del: upt_Suc)
  then show "tiles (b # bs) p r"
    using t by (simp add: tiles_def batch_numbers_def del: upt_Suc)
qed

lemma tiles_bound: "tiles bs p r \<Longrightarrow> b \<in> set bs \<Longrightarrow> p < unat (rb_first b) \<and> unat (rb_last b) \<le> r"
proof (induction bs arbitrary: p)
  case (Cons c bs)
  then show ?case
    by (fastforce simp: tiles_Cons word_le_unat)
qed simp

lemma tiles_snoc:
  "tiles bs p r \<Longrightarrow> p \<le> r \<Longrightarrow> unat (rb_first b) = Suc r \<Longrightarrow> rb_first b \<le> rb_last b \<Longrightarrow>
     unat (rb_last b) = r' \<Longrightarrow> tiles (bs @ [b]) p r'"
proof (induction bs arbitrary: p)
  case (Cons c bs)
  then show ?case
    by (auto simp: tiles_Cons word_le_unat)
qed (simp add: tiles_Cons)

section \<open>The invariant\<close>

definition core_ok :: "queue_core \<Rightarrow> bool" where
  "core_ok core \<longleftrightarrow>
     qc_released core < qc_next core \<and> qc_pruned core \<le> qc_released core \<and>
     tiles (qc_batches core) (unat (qc_pruned core)) (unat (qc_released core)) \<and>
     sorted (map rb_released_at (qc_batches core))"

lemma core_ok_snapshot: "core_ok core \<longleftrightarrow> snapshot_validate (core_snapshot core now) = Inr ()"
  by (simp add: snapshot_validate_iff ledger_valid_def core_ok_def core_snapshot_def)

lemma prune_preserves [simp]:
  "qc_released (prune_release_batches core now) = qc_released core"
  "qc_next (prune_release_batches core now) = qc_next core"
  "qc_step (prune_release_batches core now) = qc_step core"
  "qc_rate_window (prune_release_batches core now) = qc_rate_window core"
  "qc_grant_window (prune_release_batches core now) = qc_grant_window core"
  by (induction core now rule: prune_release_batches.induct;
      subst prune_release_batches.simps; simp split: list.split)+

lemma batch_expired_window:
  "qc_grant_window core = qc_grant_window core' \<Longrightarrow> batch_expired core t now = batch_expired core' t now"
  by (simp add: batch_expired_def)

lemma prune_batches:
  "\<exists>old. qc_batches core = old @ qc_batches (prune_release_batches core now) \<and>
     (\<forall>b \<in> set old. batch_expired core (rb_released_at b) now)"
proof (induction core now rule: prune_release_batches.induct)
  case (1 core now)
  show ?case
  proof (cases "qc_batches core")
    case (Cons b bs)
    show ?thesis
    proof (cases "batch_expired core (rb_released_at b) now")
      case True
      let ?core' = "core\<lparr>qc_pruned := rb_last b, qc_batches := bs\<rparr>"
      obtain old where "bs = old @ qc_batches (prune_release_batches ?core' now)"
        "\<forall>b \<in> set old. batch_expired ?core' (rb_released_at b) now"
        using "1.IH" [OF Cons True] by auto
      then have "qc_batches core = (b # old) @ qc_batches (prune_release_batches core now) \<and>
          (\<forall>b \<in> set (b # old). batch_expired core (rb_released_at b) now)"
        using Cons True
        by (subst prune_release_batches.simps) (simp add: batch_expired_def)
      then show ?thesis by blast
    qed (use Cons in \<open>simp add: prune_release_batches.simps [of core]\<close>)
  qed (simp add: prune_release_batches.simps [of core])
qed

lemma prune_ok: "core_ok core \<Longrightarrow> core_ok (prune_release_batches core now)"
proof (induction core now rule: prune_release_batches.induct)
  case (1 core now)
  show ?case
  proof (cases "qc_batches core")
    case (Cons b bs)
    then have "core_ok (core\<lparr>qc_pruned := rb_last b, qc_batches := bs\<rparr>)"
      using "1.prems" by (auto simp: core_ok_def tiles_Cons word_le_unat)
    then show ?thesis
      using "1.IH" [OF Cons] "1.prems" Cons by (subst prune_release_batches.simps) simp
  qed (use "1.prems" in \<open>simp add: prune_release_batches.simps [of core]\<close>)
qed

section \<open>Releases\<close>

lemma release_amount_bounds:
  assumes "core_ok core"
  shows "unat (release_amount core budgets) =
      min (min (min (unat (gateway_admission budgets)) (unat (realm_connections budgets)))
            (unat (qc_step core)))
          (unat (qc_next core) - 1 - unat (qc_released core))"
    and "unat (qc_released core + release_amount core budgets) =
      unat (qc_released core) + unat (release_amount core budgets)"
    and "unat (qc_released core) + unat (release_amount core budgets) < unat (qc_next core)"
proof -
  have less: "unat (qc_released core) < unat (qc_next core)"
    using assms by (simp add: core_ok_def word_less_nat_alt)
  then have ahead: "unat (qc_next core - 1 - qc_released core) = unat (qc_next core) - 1 - unat (qc_released core)"
    using u64_unat_lt [of "qc_next core"]
    by (simp add: unat_sub word_le_nat_alt unat_gt_0 [symmetric])
  have unat_min: "\<And>a b :: u64. unat (min a b) = min (unat a) (unat b)"
    by (simp add: min_def word_le_nat_alt)
  show amount: "unat (release_amount core budgets) =
      min (min (min (unat (gateway_admission budgets)) (unat (realm_connections budgets)))
            (unat (qc_step core)))
          (unat (qc_next core) - 1 - unat (qc_released core))"
    by (simp add: release_amount_def Let_def unat_min ahead)
  then show bound: "unat (qc_released core) + unat (release_amount core budgets) < unat (qc_next core)"
    using less by linarith
  from less_trans [OF this u64_unat_lt]
  show "unat (qc_released core + release_amount core budgets) =
      unat (qc_released core) + unat (release_amount core budgets)"
    by (intro u64_add_unat) simp
qed

text \<open>A successful release that moves the watermark appends one batch, then prunes.\<close>

definition released_core :: "queue_core \<Rightarrow> u64 \<Rightarrow> time_point \<Rightarrow> queue_core" where
  "released_core core batch now =
     (if batch = 0 then core
      else core\<lparr>qc_released := qc_released core + batch,
                qc_batches := qc_batches core @
                  [\<lparr>rb_first = qc_released core + 1, rb_last = qc_released core + batch,
                    rb_released_at = seconds (epoch_seconds now)\<rparr>]\<rparr>)"

lemma release_batch_cases:
  assumes "release_batch core budgets now = Inr (batch, core')"
  shows "batch = release_amount core budgets"
    "core' = prune_release_batches (released_core core batch now) now"
    "batch \<noteq> 0 \<Longrightarrow> qc_batches core \<noteq> [] \<Longrightarrow>
       rb_released_at (last (qc_batches core)) \<le> seconds (epoch_seconds now)"
  using assms by (auto simp: release_batch_def released_core_def Let_def split: if_splits)

lemma sorted_snoc_last:
  assumes "sorted xs" "xs \<noteq> [] \<Longrightarrow> last xs \<le> y"
  shows "sorted (xs @ [y])"
proof (cases xs rule: rev_cases)
  case (snoc ys z)
  then show ?thesis
    using assms by (auto simp: sorted_append)
qed simp

lemma released_core_ok:
  assumes "core_ok core" "batch = release_amount core budgets"
    "batch \<noteq> 0 \<Longrightarrow> qc_batches core \<noteq> [] \<Longrightarrow>
       rb_released_at (last (qc_batches core)) \<le> seconds (epoch_seconds now)"
  shows "core_ok (released_core core batch now)"
proof (cases "batch = 0")
  case False
  note amount = release_amount_bounds [OF assms(1), of budgets, folded assms(2)]
  have ok: "qc_released core < qc_next core" "qc_pruned core \<le> qc_released core"
    "tiles (qc_batches core) (unat (qc_pruned core)) (unat (qc_released core))"
    "sorted (map rb_released_at (qc_batches core))"
    using assms(1) by (simp_all add: core_ok_def)
  have first: "unat (qc_released core + 1) = Suc (unat (qc_released core))"
    using ok(1) by (rule u64_less_Suc)
  have pos: "0 < unat batch"
    using False by (simp add: unat_gt_0)
  have "tiles (qc_batches (released_core core batch now)) (unat (qc_pruned core))
      (unat (qc_released core + batch))"
    using False first amount(2) pos ok(2)
    by (simp add: released_core_def) (intro tiles_snoc [OF ok(3)]; simp add: word_le_unat)
  moreover have "sorted (map rb_released_at (qc_batches core) @ [seconds (epoch_seconds now)])"
    using assms(3) False ok(4) by (intro sorted_snoc_last) (auto simp: last_map)
  ultimately show ?thesis
    using False amount(2,3) ok(2)
    by (simp add: core_ok_def released_core_def word_less_nat_alt word_le_unat)
qed (use assms(1) in \<open>simp add: released_core_def\<close>)

lemma release_batch_ok:
  assumes "core_ok core" "release_batch core budgets now = Inr (batch, core')"
  shows "core_ok core'"
  using release_batch_cases [OF assms(2)] released_core_ok [OF assms(1)] prune_ok by metis

lemma core_restore_cases:
  assumes "core_restore core s now = Inr core'"
  shows "ledger_valid s" "\<forall>b \<in> set (qs_batches s). rb_released_at b \<le> now + jws_clock_leeway"
    "core' = prune_release_batches
       (core\<lparr>qc_released := qs_released s, qc_next := qs_next s, qc_pruned := qs_pruned s,
             qc_batches := qs_batches s\<rparr>) now"
  using assms
  by (auto simp: core_restore_def snapshot_validate_iff [symmetric] list_ex_iff split: sum.splits if_splits)

lemma core_restore_ok:
  assumes "core_restore core s now = Inr core'"
  shows "core_ok core'"
  unfolding core_restore_cases(3) [OF assms]
  by (rule prune_ok) (use core_restore_cases(1) [OF assms] in \<open>simp add: ledger_valid_def core_ok_def\<close>)

section \<open>Steps of the core\<close>

inductive core_step :: "queue_core \<Rightarrow> queue_core \<Rightarrow> bool" where
  release: "release_batch core budgets now = Inr (batch, core') \<Longrightarrow> core_step core core'"
| restore: "core_restore core s now = Inr core' \<Longrightarrow> core_step core core'"

inductive core_reachable :: "queue_core \<Rightarrow> bool" where
  initial: "new_queue_core step rate_window grant_window = Inr core \<Longrightarrow> core_reachable core"
| step: "core_reachable core \<Longrightarrow> core_step core core' \<Longrightarrow> core_reachable core'"

lemma new_core_ok: "new_queue_core step rate_window grant_window = Inr core \<Longrightarrow> core_ok core"
  by (auto simp: new_queue_core_def core_ok_def split: if_splits)

lemma core_reachable_ok: "core_reachable core \<Longrightarrow> core_ok core"
proof (induction rule: core_reachable.induct)
  case (step core core')
  from step.hyps(2) step.IH show ?case
    by (cases rule: core_step.cases) (auto intro: release_batch_ok core_restore_ok)
qed (rule new_core_ok)

section \<open>Eligibility\<close>

lemma find_batch_hit:
  assumes "tiles bs p r" "b \<in> set bs" "rb_first b \<le> number" "number \<le> rb_last b"
  shows "find_batch core bs number now =
    \<lparr>re_status = (if batch_expired core (rb_released_at b) now then Expired else Eligible),
     re_released_at = rb_released_at b\<rparr>"
  using assms
proof (induction bs arbitrary: p)
  case (Cons c bs)
  show ?case
  proof (cases "b = c")
    case False
    then have b: "b \<in> set bs" "tiles bs (unat (rb_last c)) r"
      using Cons.prems by (simp_all add: tiles_Cons)
    have "unat (rb_last c) < unat number" "unat (rb_first c) \<le> unat (rb_last c)"
      using tiles_bound [OF b(2,1)] Cons.prems(1,3) by (auto simp: tiles_Cons word_le_unat)
    then show ?thesis
      using Cons.IH [OF b(2,1) Cons.prems(3,4)] by (simp add: word_le_unat word_less_nat_alt)
  qed (use Cons.prems in \<open>auto dest: leD\<close>)
qed simp

lemma tiles_covers:
  assumes "tiles bs p r" "p < unat number" "unat number \<le> r"
  shows "\<exists>b \<in> set bs. rb_first b \<le> number \<and> number \<le> rb_last b"
  using assms
proof (induction bs arbitrary: p)
  case (Cons c bs)
  then show ?case
    by (cases "number \<le> rb_last c") (auto simp: tiles_Cons word_le_unat)
qed simp

lemma released_not_zero: "0 < unat n \<Longrightarrow> n \<noteq> (0 :: u64)"
  by auto

lemma eligibility_hit:
  assumes "core_ok core" "b \<in> set (qc_batches core)" "rb_first b \<le> number" "number \<le> rb_last b"
  shows "release_eligibility core number now =
    \<lparr>re_status = (if batch_expired core (rb_released_at b) now then Expired else Eligible),
     re_released_at = rb_released_at b\<rparr>"
proof -
  have t: "tiles (qc_batches core) (unat (qc_pruned core)) (unat (qc_released core))"
    using assms(1) by (simp add: core_ok_def)
  have "unat (qc_pruned core) < unat number" "unat number \<le> unat (qc_released core)"
    using tiles_bound [OF t assms(2)] assms(3,4) by (simp_all add: word_le_unat)
  then show ?thesis
    using find_batch_hit [OF t assms(2-4)] released_not_zero [of number]
    by (simp add: release_eligibility_def word_le_unat word_less_nat_alt)
qed

lemma eligibility_pruned:
  assumes "core_ok core" "number \<noteq> 0" "number \<le> qc_pruned core"
  shows "release_eligibility core number now = \<lparr>re_status = Expired, re_released_at = 0\<rparr>"
  using assms by (auto simp: release_eligibility_def core_ok_def not_less)

text \<open>For a released number: eligible exactly while the batch that holds it is kept and
  its window is open.\<close>

lemma eligible_iff:
  assumes "core_ok core" "number \<noteq> 0" "number \<le> qc_released core"
  shows "re_status (release_eligibility core number now) =
    (if \<exists>b \<in> set (qc_batches core). rb_first b \<le> number \<and> number \<le> rb_last b \<and>
          \<not> batch_expired core (rb_released_at b) now
     then Eligible else Expired)"
proof (cases "number \<le> qc_pruned core")
  case True
  have "\<not> (\<exists>b \<in> set (qc_batches core). rb_first b \<le> number)"
    using tiles_bound [of "qc_batches core"] assms(1) True
    by (fastforce simp: core_ok_def word_le_unat)
  then show ?thesis
    using eligibility_pruned [OF assms(1,2) True] by auto
next
  case False
  then have "unat (qc_pruned core) < unat number" "unat number \<le> unat (qc_released core)"
    using assms(3) by (simp_all add: word_le_unat)
  then obtain b where b: "b \<in> set (qc_batches core)" "rb_first b \<le> number" "number \<le> rb_last b"
    using tiles_covers [of "qc_batches core" "unat (qc_pruned core)" "unat (qc_released core)" number]
      assms(1) by (auto simp: core_ok_def)
  show ?thesis
  proof (cases "batch_expired core (rb_released_at b) now")
    case True
    have "\<not> (\<exists>c \<in> set (qc_batches core). rb_first c \<le> number \<and> number \<le> rb_last c \<and>
        \<not> batch_expired core (rb_released_at c) now)"
      using eligibility_hit [OF assms(1)] b True by (metis queue_release_eligibility.ext_inject release_status.distinct(5))
    then show ?thesis
      using eligibility_hit [OF assms(1) b] True by simp
  qed (use eligibility_hit [OF assms(1) b] b in auto)
qed

lemma eligible_time: "re_status (release_eligibility core number now) = Eligible \<Longrightarrow>
  now \<le> re_released_at (release_eligibility core number now) + seconds (qc_grant_window core) + jws_clock_leeway"
proof -
  have "re_status (find_batch core bs number now) = Eligible \<Longrightarrow>
      now \<le> re_released_at (find_batch core bs number now) + seconds (qc_grant_window core) + jws_clock_leeway"
    for bs
    by (induction core bs number now rule: find_batch.induct)
      (auto simp: batch_expired_def split: if_splits)
  then show "re_status (release_eligibility core number now) = Eligible \<Longrightarrow> ?thesis"
    by (auto simp: release_eligibility_def split: if_splits)
qed

section \<open>The window of a released number does not move\<close>

lemma expired_later: "batch_expired core t now \<Longrightarrow> now \<le> now' \<Longrightarrow> batch_expired core t now'"
  by (simp add: batch_expired_def)

lemma eligible_batch:
  "core_ok core \<Longrightarrow> number \<noteq> 0 \<Longrightarrow> number \<le> qc_released core \<Longrightarrow>
     re_status (release_eligibility core number now) = Eligible \<longleftrightarrow>
     (\<exists>b \<in> set (qc_batches core). rb_first b \<le> number \<and> number \<le> rb_last b \<and>
        \<not> batch_expired core (rb_released_at b) now)"
  by (simp add: eligible_iff)

lemma eligibility_same_batches:
  assumes "core_ok core" "core_ok core'" "number \<noteq> 0" "number \<le> qc_released core"
    "number \<le> qc_released core'" "qc_grant_window core' = qc_grant_window core"
    and open_batches: "\<And>b. rb_first b \<le> number \<Longrightarrow> number \<le> rb_last b \<Longrightarrow>
      \<not> batch_expired core (rb_released_at b) now \<Longrightarrow>
      b \<in> set (qc_batches core') \<longleftrightarrow> b \<in> set (qc_batches core)"
  shows "re_status (release_eligibility core' number now) = re_status (release_eligibility core number now)"
    "re_status (release_eligibility core number now) = Eligible \<Longrightarrow>
       release_eligibility core' number now = release_eligibility core number now"
proof -
  note window = batch_expired_window [OF assms(6)]
  show "re_status (release_eligibility core' number now) = re_status (release_eligibility core number now)"
    unfolding eligible_iff [OF assms(1,3,4)] eligible_iff [OF assms(2,3,5)] window
    using open_batches by (intro if_cong) blast+
next
  assume "re_status (release_eligibility core number now) = Eligible"
  then obtain b where b: "b \<in> set (qc_batches core)" "rb_first b \<le> number" "number \<le> rb_last b"
    "\<not> batch_expired core (rb_released_at b) now"
    using eligible_batch [OF assms(1,3,4)] by auto
  then show "release_eligibility core' number now = release_eligibility core number now"
    using eligibility_hit [OF assms(1) b(1-3)] eligibility_hit [OF assms(2) _ b(2,3)]
      open_batches [OF b(2-4)] batch_expired_window [OF assms(6)] by simp
qed

lemma prune_open_batches:
  assumes "now \<le> now'" "\<not> batch_expired core (rb_released_at b) now'"
  shows "b \<in> set (qc_batches (prune_release_batches core now)) \<longleftrightarrow> b \<in> set (qc_batches core)"
  using prune_batches [of core now] assms by (auto dest: expired_later)

text \<open>Runs of release frames.\<close>

fun run_releases :: "queue_core \<Rightarrow> (budget_aggregate \<times> time_point) list \<Rightarrow> error + queue_core" where
  "run_releases core [] = Inr core"
| "run_releases core ((budgets, now) # frames) =
     (case release_batch core budgets now of
        Inl e \<Rightarrow> Inl e
      | Inr (batch, core') \<Rightarrow> run_releases core' frames)"

lemma release_step_eligibility:
  assumes "core_ok core" "release_batch core budgets t = Inr (batch, core')" "t \<le> now"
    "number \<noteq> 0" "number \<le> qc_released core"
  shows "core_ok core'" "qc_released core \<le> qc_released core'"
    "qc_grant_window core' = qc_grant_window core"
    "re_status (release_eligibility core' number now) = re_status (release_eligibility core number now)"
    "re_status (release_eligibility core number now) = Eligible \<Longrightarrow>
       release_eligibility core' number now = release_eligibility core number now"
proof -
  note parts = release_batch_cases [OF assms(2)]
  note amount = release_amount_bounds [OF assms(1), of budgets, folded parts(1)]
  show ok: "core_ok core'"
    using assms(1,2) by (rule release_batch_ok)
  have released: "unat (qc_released core') = unat (qc_released core) + unat batch"
    using amount(2) by (simp add: parts(2) released_core_def)
  then show mono: "qc_released core \<le> qc_released core'"
    by (simp add: word_le_unat)
  show window: "qc_grant_window core' = qc_grant_window core"
    by (simp add: parts(2) released_core_def)
  have middle: "b \<in> set (qc_batches (released_core core batch t)) \<longleftrightarrow> b \<in> set (qc_batches core)"
    if "rb_first b \<le> number" for b
    using that assms(5) u64_less_Suc [of "qc_released core" "qc_next core"] assms(1)
    by (auto simp: released_core_def core_ok_def word_le_unat)
  have "b \<in> set (qc_batches core') \<longleftrightarrow> b \<in> set (qc_batches core)"
    if "rb_first b \<le> number" "\<not> batch_expired core (rb_released_at b) now" for b
    using prune_open_batches [OF assms(3), of "released_core core batch t" b] middle [OF that(1)] that(2)
      batch_expired_window [of core "released_core core batch t"]
    by (simp add: parts(2) released_core_def)
  then show "re_status (release_eligibility core' number now) = re_status (release_eligibility core number now)"
    "re_status (release_eligibility core number now) = Eligible \<Longrightarrow>
       release_eligibility core' number now = release_eligibility core number now"
    using eligibility_same_batches [OF assms(1) ok assms(4,5) _ window] mono assms(5) by auto
qed

lemma run_releases_eligibility:
  assumes "core_ok core" "run_releases core frames = Inr core'" "\<forall>(budgets, t) \<in> set frames. t \<le> now"
    "number \<noteq> 0" "number \<le> qc_released core"
  shows "core_ok core' \<and> qc_released core \<le> qc_released core' \<and>
    re_status (release_eligibility core' number now) = re_status (release_eligibility core number now) \<and>
    (re_status (release_eligibility core number now) = Eligible \<longrightarrow>
       release_eligibility core' number now = release_eligibility core number now)"
  using assms
proof (induction core frames rule: run_releases.induct)
  case (2 core budgets t frames)
  obtain batch mid where step: "release_batch core budgets t = Inr (batch, mid)"
    "run_releases mid frames = Inr core'"
    using "2.prems"(2) by (auto split: sum.splits prod.splits)
  have "t \<le> now" "\<forall>(budgets, t) \<in> set frames. t \<le> now"
    using "2.prems"(3) by auto
  note one = release_step_eligibility [OF "2.prems"(1) step(1) this(1) "2.prems"(4,5)]
  have "number \<le> qc_released mid"
    using one(2) "2.prems"(5) by (rule order_trans [rotated])
  from "2.IH" [OF step(1) refl one(1) step(2) \<open>\<forall>(budgets, t) \<in> set frames. t \<le> now\<close> "2.prems"(4) this]
  show ?case
    using one(2,4,5) by auto
qed simp

section \<open>Snapshot and restore\<close>

definition same_config :: "queue_core \<Rightarrow> queue_core \<Rightarrow> bool" where
  "same_config a b \<longleftrightarrow>
     qc_step a = qc_step b \<and> qc_rate_window a = qc_rate_window b \<and> qc_grant_window a = qc_grant_window b"

lemma restore_snapshot:
  assumes "core_ok core" "same_config fresh core"
    "\<forall>b \<in> set (qc_batches core). rb_released_at b \<le> now' + jws_clock_leeway"
  shows "core_restore fresh (core_snapshot core now) now' = Inr (prune_release_batches core now')"
proof -
  have "fresh\<lparr>qc_released := qc_released core, qc_next := qc_next core, qc_pruned := qc_pruned core,
      qc_batches := qc_batches core\<rparr> = core"
    using assms(2) by (simp add: same_config_def)
  moreover have "\<not> list_ex (\<lambda>b. now' + jws_clock_leeway < rb_released_at b) (qc_batches core)"
    using assms(3) by (auto simp: list_ex_iff)
  ultimately show ?thesis
    using core_ok_snapshot [THEN iffD1, OF assms(1), of now]
    by (simp add: core_restore_def) (simp add: core_snapshot_def)
qed

lemma prune_eligibility:
  assumes "core_ok core" "now \<le> now'" "number \<noteq> 0" "number \<le> qc_released core"
  shows "re_status (release_eligibility (prune_release_batches core now) number now') =
      re_status (release_eligibility core number now')"
    "re_status (release_eligibility core number now') = Eligible \<Longrightarrow>
       release_eligibility (prune_release_batches core now) number now' = release_eligibility core number now'"
  using eligibility_same_batches [OF assms(1) prune_ok [OF assms(1)] assms(3,4)]
    prune_open_batches [OF assms(2)] assms(4)
  by simp_all

section \<open>The measured rate\<close>

text \<open>The numbers released within the rate window, counted without wrap-around.\<close>

definition recent_numbers :: "queue_core \<Rightarrow> time_point \<Rightarrow> nat" where
  "recent_numbers core now =
     length (concat (map batch_numbers
       (filter (\<lambda>b. now - seconds (qc_rate_window core) < rb_released_at b) (qc_batches core))))"

lemma batch_size:
  assumes "rb_first b \<le> rb_last b" "0 < unat (rb_first b)"
  shows "unat (rb_last b - rb_first b + 1) = length (batch_numbers b)"
proof -
  have d: "unat (rb_last b - rb_first b) = unat (rb_last b) - unat (rb_first b)"
    using assms(1) by (rule u64_diff_unat)
  have "unat (rb_last b) - unat (rb_first b) + 1 < 2 ^ 64"
    using assms(2) assms(1) [unfolded word_le_unat]
    by (intro le_less_trans [OF _ u64_unat_pow [of "rb_last b"]]) linarith
  then have "unat (rb_last b - rb_first b + 1) = unat (rb_last b) - unat (rb_first b) + 1"
    using u64_add_unat [of "rb_last b - rb_first b" 1] d by simp
  then show ?thesis
    using assms by (simp add: batch_numbers_def word_le_unat Suc_diff_le)
qed

lemma rate_sum:
  assumes "tiles bs p r" "r < 2 ^ 64" "unat acc + (r - p) < 2 ^ 64"
  shows "unat (foldl (\<lambda>acc b. if rb_released_at b \<le> cutoff then acc
                                else acc + (rb_last b - rb_first b + 1)) acc bs) =
     unat acc + length (concat (map batch_numbers (filter (\<lambda>b. cutoff < rb_released_at b) bs)))"
  using assms
proof (induction bs arbitrary: p acc)
  case (Cons b bs)
  have t: "unat (rb_first b) = Suc p" "rb_first b \<le> rb_last b" "unat (rb_last b) \<le> r"
    "tiles bs (unat (rb_last b)) r"
    using Cons.prems(1) by (simp_all add: tiles_Cons)
  have le: "Suc p \<le> unat (rb_last b)"
    using t(1,2) by (simp add: word_le_unat)
  have n: "unat (rb_last b - rb_first b + 1) = length (batch_numbers b)" "length (batch_numbers b) = unat (rb_last b) - p"
    using batch_size [OF t(2)] t(1) le by (simp_all add: batch_numbers_def)
  show ?case
  proof (cases "rb_released_at b \<le> cutoff")
    case True
    then show ?thesis
      using Cons.IH [OF t(4) Cons.prems(2), of acc] Cons.prems(3) le by simp
  next
    case False
    have sum: "unat (acc + (rb_last b - rb_first b + 1)) = unat acc + length (batch_numbers b)"
      using Cons.prems(3) n t(3) by (subst u64_add_unat) simp_all
    then show ?thesis
      using Cons.IH [OF t(4) Cons.prems(2), of "acc + (rb_last b - rb_first b + 1)"]
        Cons.prems(3) n(2) t(3) le False by simp
  qed
qed simp

lemma admit_rate_exact:
  assumes "core_ok core" "0 < qc_rate_window core" "qc_rate_window core < 2 ^ 63"
  shows "unat (admit_rate core now) = recent_numbers core now div nat (qc_rate_window core)"
proof -
  have t: "tiles (qc_batches core) (unat (qc_pruned core)) (unat (qc_released core))"
    using assms(1) by (simp add: core_ok_def)
  have "unat (word_of_int (qc_rate_window core) :: u64) = nat (qc_rate_window core)"
    using assms(2,3) by (simp add: unat_eq_nat_uint uint_word_of_int take_bit_eq_mod)
  moreover have "unat (0 :: u64) + (unat (qc_released core) - unat (qc_pruned core)) < 2 ^ 64"
    using le_less_trans [OF diff_le_self u64_unat_pow] by simp
  ultimately show ?thesis
    using rate_sum [OF t u64_unat_pow, of 0 "now - seconds (qc_rate_window core)"]
    by (simp add: admit_rate_def recent_numbers_def unat_div_distrib)
qed

section \<open>Properties\<close>

text \<open>The start-up validation of a snapshot accepts exactly the consistent ledgers: the
  batches are non-empty intervals that tile the numbers after the pruned prefix up to the
  released watermark without gap or overlap, their times do not decrease, and the watermark
  is below the next number.\<close>

lemma snapshot_validate_exact: "snapshot_validate s = Inr () \<longleftrightarrow> ledger_valid s"
  by (rule snapshot_validate_iff)

text \<open>C1. Every state the core reaches from its construction by release frames and
  restores, whatever the budgets, the clock and the snapshots offered, has a consistent
  ledger, so its own snapshot passes validation.\<close>

theorem queue_ledger_invariant:
  assumes "core_reachable core"
  shows "ledger_valid (core_snapshot core now) \<and> snapshot_validate (core_snapshot core now) = Inr ()"
  using core_ok_snapshot [THEN iffD1, OF core_reachable_ok [OF assms], of now]
  by (simp add: snapshot_validate_iff)

definition example_core :: queue_core where
  "example_core =
     \<lparr>qc_step = 5, qc_rate_window = 10, qc_grant_window = 300, qc_released = 0, qc_next = 9,
      qc_pruned = 0, qc_batches = []\<rparr>"

definition example_budgets :: budget_aggregate where
  "example_budgets = aggregate_budgets
     [\<lparr>gw_conn_free = 3, gw_fetch_free = 9\<rparr>, \<lparr>gw_conn_free = 4, gw_fetch_free = 1\<rparr>]
     [\<lparr>rb_conn_free = 100\<rparr>]"

definition example_released :: queue_core where
  "example_released = example_core\<lparr>qc_released := 4, qc_batches :=
     [\<lparr>rb_first = 1, rb_last = 4, rb_released_at = seconds 1000\<rparr>]\<rparr>"

lemma example_release: "release_batch example_core example_budgets (seconds 1000 + 7) = Inr (4, example_released)"
  by (simp add: release_batch_def release_amount_def example_core_def example_budgets_def
      aggregate_budgets_def min_def Let_def prune_release_batches.simps batch_expired_def
      example_released_def clock_defs epoch_seconds_def jws_clock_leeway_def word_le_nat_alt)

lemma example_core_ok: "core_ok example_core" "core_ok example_released"
  by (simp_all add: core_ok_def example_core_def example_released_def tiles_Cons)

lemma example_reachable: "core_reachable example_released"
proof -
  let ?new = "\<lparr>qc_step = 5, qc_rate_window = 10, qc_grant_window = 300, qc_released = 0, qc_next = 1,
      qc_pruned = 0, qc_batches = []\<rparr>"
  let ?s = "\<lparr>qs_released = 0, qs_next = 9, qs_admit_rate = 0, qs_pruned = 0, qs_batches = []\<rparr>"
  have "new_queue_core 5 10 300 = Inr ?new"
    by (simp add: new_queue_core_def grant_max_window_def)
  then have "core_reachable ?new" by (rule core_reachable.initial)
  moreover have "core_restore ?new ?s 0 = Inr example_core"
    by (simp add: core_restore_def snapshot_validate_def example_core_def prune_release_batches.simps)
  ultimately have "core_reachable example_core"
    by (blast intro: core_reachable.step core_step.restore)
  then show ?thesis
    using example_release by (blast intro: core_reachable.step core_step.release)
qed

theorem queue_ledger_invariant_witness:
  "ledger_valid (core_snapshot example_released 0) \<and>
   qc_released example_released = 4"
  using queue_ledger_invariant [OF example_reachable] by (simp add: example_released_def)

text \<open>A release frame releases the smallest of the gateway budget, the realm budget, the
  configured step and the numbers issued but not yet released; the watermark advances by
  exactly that and stays below the next number, so a side without budget stops the frame.\<close>

lemma release_batch_amount:
  assumes "core_ok core" "release_batch core budgets now = Inr (batch, core')"
  shows "unat batch =
      min (min (min (unat (gateway_admission budgets)) (unat (realm_connections budgets)))
            (unat (qc_step core)))
          (unat (qc_next core) - 1 - unat (qc_released core)) \<and>
    unat (qc_released core') = unat (qc_released core) + unat batch \<and>
    qc_next core' = qc_next core \<and> qc_released core' < qc_next core'"
proof -
  note parts = release_batch_cases [OF assms(2)]
  note amount = release_amount_bounds [OF assms(1), of budgets, folded parts(1)]
  have "unat (qc_released core') = unat (qc_released core) + unat batch" "qc_next core' = qc_next core"
    using amount(2) by (simp_all add: parts(2) released_core_def)
  then show ?thesis
    using amount(1,3) by (simp add: word_less_nat_alt)
qed

lemma release_batch_amount_witness:
  "unat (qc_released example_released) = 4 \<and> qc_released example_released < qc_next example_released"
  using release_batch_amount [OF example_core_ok(1) example_release]
  by (simp add: example_core_def example_released_def)

text \<open>C7. The window of a released number is fixed when it is released: later release frames,
  with the prunings they do, neither shorten, extend nor move it, as long as the clock has
  not passed the time of the query.\<close>

theorem release_window_stable:
  assumes "core_ok core" "run_releases core frames = Inr core'" "\<forall>(budgets, t) \<in> set frames. t \<le> now"
    "number \<noteq> 0" "number \<le> qc_released core"
  shows "re_status (release_eligibility core' number now) = re_status (release_eligibility core number now) \<and>
    (re_status (release_eligibility core number now) = Eligible \<longrightarrow>
       release_eligibility core' number now = release_eligibility core number now)"
  using run_releases_eligibility [OF assms] by blast

lemma example_eligible:
  "release_eligibility example_released 3 (seconds 1360) = \<lparr>re_status = Eligible, re_released_at = seconds 1000\<rparr>"
  by (simp add: release_eligibility_def example_released_def example_core_def batch_expired_def
      clock_defs jws_clock_leeway_def)

theorem release_window_stable_witness:
  "\<exists>core'. run_releases example_released [(example_budgets, seconds 1200)] = Inr core' \<and>
     release_eligibility core' 3 (seconds 1360) = \<lparr>re_status = Eligible, re_released_at = seconds 1000\<rparr>"
proof -
  have "\<exists>core'. run_releases example_released [(example_budgets, seconds 1200)] = Inr core'"
    by (simp add: release_batch_def example_released_def example_core_def Let_def clock_defs
        epoch_seconds_def split: sum.split)
  then obtain core' where run: "run_releases example_released [(example_budgets, seconds 1200)] = Inr core'"
    by blast
  have "3 \<le> qc_released example_released"
    by (simp add: example_released_def)
  with release_window_stable [OF example_core_ok(2) run, of "seconds 1360" 3] example_eligible run
  show ?thesis by simp
qed

text \<open>The scan of the ledger is a lookup of the batch that covers the number: a number not
  yet released is refused, a released number of no kept batch has expired, and any other is
  eligible until the release time of its batch plus the grant window and the clock leeway.\<close>

lemma eligibility_exact:
  assumes "core_ok core"
  shows "release_eligibility core number now =
    (if number = 0 \<or> qc_released core < number
     then \<lparr>re_status = Not_released, re_released_at = 0\<rparr>
     else case find (\<lambda>b. rb_first b \<le> number \<and> number \<le> rb_last b) (qc_batches core) of
            None \<Rightarrow> \<lparr>re_status = Expired, re_released_at = 0\<rparr>
          | Some b \<Rightarrow> \<lparr>re_status =
              (if rb_released_at b + seconds (qc_grant_window core) + jws_clock_leeway < now
               then Expired else Eligible), re_released_at = rb_released_at b\<rparr>)"
proof (cases "find (\<lambda>b. rb_first b \<le> number \<and> number \<le> rb_last b) (qc_batches core)")
  case None
  then have "\<not> (\<exists>b \<in> set (qc_batches core). rb_first b \<le> number \<and> number \<le> rb_last b)"
    by (auto simp: find_None_iff)
  then have "\<not> (unat (qc_pruned core) < unat number \<and> unat number \<le> unat (qc_released core))"
    using tiles_covers assms unfolding core_ok_def by blast
  then show ?thesis
    using None by (auto simp: release_eligibility_def word_le_unat word_less_nat_alt)
next
  case (Some b)
  then have b: "b \<in> set (qc_batches core)" "rb_first b \<le> number" "number \<le> rb_last b"
    by (auto simp: find_Some_iff)
  have "\<not> (number = 0 \<or> qc_released core < number)"
    using tiles_bound [OF _ b(1)] assms b(2,3) released_not_zero [of number]
    by (fastforce simp: core_ok_def word_le_unat word_less_nat_alt)
  then show ?thesis
    using Some eligibility_hit [OF assms b] by (simp add: batch_expired_def)
qed

lemma eligibility_exact_witness:
  "release_eligibility example_released 3 (seconds 1361) = \<lparr>re_status = Expired, re_released_at = seconds 1000\<rparr>"
  using eligibility_exact [OF example_core_ok(2), of 3 "seconds 1361"]
  by (simp add: example_released_def example_core_def clock_defs jws_clock_leeway_def)

text \<open>Restoring the snapshot of a consistent core into a core with the same configuration
  succeeds while the clock is not more than the leeway behind the releases, and gives the
  same core up to the pruning of closed windows: every released number keeps its status.\<close>

lemma restore_round_trip:
  assumes "core_ok core" "same_config fresh core"
    "\<forall>b \<in> set (qc_batches core). rb_released_at b \<le> now' + jws_clock_leeway"
  shows "\<exists>core'. core_restore fresh (core_snapshot core now) now' = Inr core' \<and>
    qc_released core' = qc_released core \<and> qc_next core' = qc_next core \<and>
    (\<forall>number. number \<noteq> 0 \<and> number \<le> qc_released core \<longrightarrow>
       re_status (release_eligibility core' number now') = re_status (release_eligibility core number now'))"
  using restore_snapshot [OF assms] prune_eligibility [OF assms(1) order_refl] by simp

lemma restore_round_trip_witness:
  "\<exists>core'. core_restore example_core (core_snapshot example_released 0) (seconds 1100) = Inr core' \<and>
     re_status (release_eligibility core' 3 (seconds 1100)) = re_status (release_eligibility example_released 3 (seconds 1100))"
proof -
  have "same_config example_core example_released" "(3 :: u64) \<le> qc_released example_released"
    "\<forall>b \<in> set (qc_batches example_released). rb_released_at b \<le> seconds 1100 + jws_clock_leeway"
    by (simp_all add: same_config_def example_released_def example_core_def clock_defs jws_clock_leeway_def)
  then show ?thesis
    using restore_round_trip [OF example_core_ok(2), of example_core "seconds 1100" 0] by fastforce
qed

text \<open>The measured rate is the number of queue numbers released within the rate window,
  divided by the window in seconds; the 64-bit sum does not wrap around.\<close>

lemma admit_rate_counts_releases:
  assumes "core_ok core" "0 < qc_rate_window core" "qc_rate_window core < 2 ^ 63"
  shows "unat (admit_rate core now) = recent_numbers core now div nat (qc_rate_window core)"
  using assms by (rule admit_rate_exact)

lemma admit_rate_counts_releases_witness:
  "unat (admit_rate example_released (seconds 1005)) = recent_numbers example_released (seconds 1005) div 10"
  using admit_rate_counts_releases [OF example_core_ok(2), of "seconds 1005"]
  by (simp add: example_released_def example_core_def)

end
