(* ===== verification/Session_Ticket.thy ===== *)
theory Session_Ticket
  imports Compact_Jws Replay_Guard
begin

text \<open>
  Session tickets (game/common/src/session_ticket.cpp): a fixed binary layout with an
  HMAC-SHA256 tag that hands a player from the gateway to a realm, and the service that
  issues and redeems them. Byte vectors are lists; \<open>randombytes_buf\<close> supplies the ticket
  identifier as an argument.
\<close>

section \<open>Layout\<close>

definition session_ticket_key_size :: nat where "session_ticket_key_size = 32"
definition session_ticket_id_size :: nat where "session_ticket_id_size = 16"
definition correlation_id_size :: nat where "correlation_id_size = 16"
definition ticket_version_v1 :: u8 where "ticket_version_v1 = 1"
definition ticket_version_v2 :: u8 where "ticket_version_v2 = 2"

definition signed_size_v1 :: nat where
  "signed_size_v1 = 1 + 1 + session_ticket_id_size + 8 + 4 + 8"

definition signed_size_v2 :: nat where
  "signed_size_v2 = 1 + 1 + session_ticket_id_size + correlation_id_size + 8 + 4 + 8"

definition ticket_size_v1 :: nat where "ticket_size_v1 = signed_size_v1 + hmac_size"
definition ticket_size_v2 :: nat where "ticket_size_v2 = signed_size_v2 + hmac_size"

lemmas layout_defs = session_ticket_id_size_def correlation_id_size_def signed_size_v1_def
  signed_size_v2_def ticket_size_v1_def ticket_size_v2_def ticket_version_v1_def
  ticket_version_v2_def hmac_size_def

datatype ticket_purpose = Enter_realm

fun purpose_byte :: "ticket_purpose \<Rightarrow> u8" where
  "purpose_byte Enter_realm = 3"

record ticket_claims =
  tc_purpose :: ticket_purpose
  tc_ticket_id :: "u8 list"
  tc_account_id :: u64
  tc_realm_id :: u32
  tc_correlation_id :: "u8 list option"
  tc_expires_at :: time_point

definition write_unsigned :: "nat \<Rightarrow> u64 \<Rightarrow> u8 list" where
  "write_unsigned n value =
     map (\<lambda>index. ucast (drop_bit ((n - index - 1) * 8) value AND 0xFF)) [0..<n]"

definition read_unsigned :: "u8 list \<Rightarrow> u64" where
  "read_unsigned input = foldl (\<lambda>value byte. push_bit 8 value OR ucast byte) 0 input"

text \<open>\<open>duration_cast<milliseconds>\<close> of a time point, truncating towards zero.\<close>

definition ns_per_milli :: int where "ns_per_milli = 1000000"

definition epoch_millis :: "time_point \<Rightarrow> int" where
  "epoch_millis t = (if 0 \<le> t then t div ns_per_milli else - ((- t) div ns_per_milli))"

section \<open>Issue and validate\<close>

definition ticket_body ::
  "ticket_purpose \<Rightarrow> u8 list \<Rightarrow> u8 list option \<Rightarrow> u64 \<Rightarrow> u32 \<Rightarrow> int \<Rightarrow> u8 list" where
  "ticket_body purpose ticket_id correlation_id account_id realm_id expiry =
     [case correlation_id of None \<Rightarrow> ticket_version_v1 | Some _ \<Rightarrow> ticket_version_v2,
      purpose_byte purpose] @
     ticket_id @
     (case correlation_id of None \<Rightarrow> [] | Some cid \<Rightarrow> cid) @
     write_unsigned 8 account_id @
     write_unsigned 4 (ucast realm_id) @
     write_unsigned 8 (word_of_int expiry)"

definition issue_ticket ::
  "sodium \<Rightarrow> u8 list \<Rightarrow> u8 list \<Rightarrow> ticket_purpose \<Rightarrow> u64 \<Rightarrow> u32 \<Rightarrow> u8 list option \<Rightarrow> int \<Rightarrow>
     time_point \<Rightarrow> error + u8 list" where
  "issue_ticket na key random purpose account_id realm_id correlation_id ttl now =
     (if ttl \<le> 0 \<or> account_id = 0
      then Inl (Invalid_argument ''ticket TTL and account id must be positive'')
      else let expiry = epoch_millis (now + seconds ttl)
           in if expiry < 0
              then Inl (Invalid_argument ''ticket expiry cannot precede Unix epoch'')
              else let body = ticket_body purpose random correlation_id account_id realm_id expiry
                   in Inr (body @ hmacsha256 na body key))"

definition new_ticket_codec :: "sodium \<Rightarrow> u8 list \<Rightarrow> error + u8 list" where
  "new_ticket_codec na key =
     (if \<not> init_ok na then Inl sodium_failure
      else if list_all (\<lambda>b. b = 0) key
      then Inl (Invalid_argument ''session ticket key cannot be all zero'')
      else Inr key)"

definition subspan :: "u8 list \<Rightarrow> nat \<Rightarrow> nat \<Rightarrow> u8 list" where
  "subspan bytes offset n = take n (drop offset bytes)"

definition ticket_validate ::
  "sodium \<Rightarrow> u8 list \<Rightarrow> u8 list \<Rightarrow> ticket_purpose \<Rightarrow> time_point \<Rightarrow> ticket_claims option" where
  "ticket_validate na key ticket expected_purpose now =
     (if ticket = [] then None
      else let v1 = (ticket ! 0 = ticket_version_v1); v2 = (ticket ! 0 = ticket_version_v2);
               signed_size = (if v2 then signed_size_v2 else signed_size_v1);
               ticket_size = (if v2 then ticket_size_v2 else ticket_size_v1)
           in if (\<not> v1 \<and> \<not> v2) \<or> length ticket \<noteq> ticket_size \<or>
                 ticket ! 1 \<noteq> purpose_byte expected_purpose
              then None
              else if \<not> hmacsha256_verify na (drop signed_size ticket) (take signed_size ticket) key
              then None
              else let offset = 2 + session_ticket_id_size;
                       correlation_id = (if v2 then Some (subspan ticket offset correlation_id_size) else None);
                       offset = (if v2 then offset + correlation_id_size else offset);
                       account_id = read_unsigned (subspan ticket offset 8);
                       realm_id = ucast (read_unsigned (subspan ticket (offset + 8) 4));
                       expiry_ms = read_unsigned (subspan ticket (offset + 12) 8);
                       expires_at = uint expiry_ms * ns_per_milli
                   in if word_of_nat int64_max < expiry_ms then None
                      else if account_id = 0 \<or> expires_at + jws_clock_leeway < now then None
                      else Some \<lparr>tc_purpose = expected_purpose,
                                 tc_ticket_id = subspan ticket 2 session_ticket_id_size,
                                 tc_account_id = account_id, tc_realm_id = realm_id,
                                 tc_correlation_id = correlation_id, tc_expires_at = expires_at\<rparr>)"

section \<open>The service: issue and redeem\<close>

type_synonym ticket_guard = "u8 list \<rightharpoonup> time_point"

definition erase_tickets :: "ticket_guard \<Rightarrow> time_point \<Rightarrow> ticket_guard" where
  "erase_tickets consumed now =
     (\<lambda>ticket_id. case consumed ticket_id of
                   None \<Rightarrow> None
                 | Some expires_at \<Rightarrow>
                     if expires_at + jws_clock_leeway < now then None else Some expires_at)"

definition ticket_consume :: "ticket_guard \<Rightarrow> ticket_claims \<Rightarrow> time_point \<Rightarrow> ticket_guard \<times> bool" where
  "ticket_consume consumed claims now =
     (let kept = erase_tickets consumed now
      in case kept (tc_ticket_id claims) of
           Some _ \<Rightarrow> (kept, False)
         | None \<Rightarrow> (kept(tc_ticket_id claims \<mapsto> tc_expires_at claims), True))"

record session_tickets =
  st_key :: "u8 list"
  st_consumed :: ticket_guard

datatype redeem_status = Redeem_accepted ticket_claims | Redeem_invalid_ticket | Redeem_replayed

definition new_session_tickets :: "sodium \<Rightarrow> u8 list \<Rightarrow> error + session_tickets" where
  "new_session_tickets na key =
     map_sum id (\<lambda>key. \<lparr>st_key = key, st_consumed = Map.empty\<rparr>) (new_ticket_codec na key)"

definition redeem ::
  "sodium \<Rightarrow> session_tickets \<Rightarrow> u8 list \<Rightarrow> ticket_purpose \<Rightarrow> time_point \<Rightarrow>
     session_tickets \<times> redeem_status" where
  "redeem na tickets ticket expected_purpose now =
     (case ticket_validate na (st_key tickets) ticket expected_purpose now of
        None \<Rightarrow> (tickets, Redeem_invalid_ticket)
      | Some claims \<Rightarrow>
          (case ticket_consume (st_consumed tickets) claims now of
             (consumed, fresh) \<Rightarrow>
               (tickets\<lparr>st_consumed := consumed\<rparr>,
                if fresh then Redeem_accepted claims else Redeem_replayed)))"

definition parse_ticket_key_hex :: "string \<Rightarrow> error + u8 list" where
  "parse_ticket_key_hex value =
     (if length value \<noteq> session_ticket_key_size * 2
      then Inl (Invalid_argument ''session ticket key must contain 64 hex characters'')
      else case parse_hex_bytes value of
             None \<Rightarrow> Inl (Invalid_argument ''session ticket key contains non-hex data'')
           | Some key \<Rightarrow> Inr key)"

definition correlation_id_hex :: "u8 list \<Rightarrow> string" where
  "correlation_id_hex value =
     concat (map (\<lambda>byte. [hex_digits ! unat (drop_bit 4 byte AND 0x0F), hex_digits ! unat (byte AND 0x0F)])
       value)"

section \<open>Numbers in the layout\<close>

lemma length_write_unsigned [simp]: "length (write_unsigned n v) = n"
  by (simp add: write_unsigned_def)

lemma write_unsigned_Suc:
  "write_unsigned (Suc n) v = ucast (drop_bit (n * 8) v AND 0xFF) # write_unsigned n v"
  by (rule nth_equalityI) (auto simp: write_unsigned_def nth_Cons split: nat.split simp del: upt_Suc)

lemma mask_byte: "(0xFF :: u64) = mask 8"
  by (simp add: mask_eq_exp_minus_1)

lemma read_step:
  "push_bit (n * 8) (push_bit 8 acc OR ucast (ucast (drop_bit (n * 8) v AND 0xFF) :: u8)) OR
     take_bit (n * 8) v = push_bit (Suc n * 8) acc OR take_bit (Suc n * 8) (v :: u64)"
  by (rule bit_word_eqI) (auto simp: mask_byte bit_simps add.commute [of "n * 8" 8])

lemma read_write_aux:
  "foldl (\<lambda>value byte. push_bit 8 value OR ucast byte) acc (write_unsigned n v) =
     push_bit (n * 8) acc OR take_bit (n * 8) (v :: u64)"
proof (induction n arbitrary: acc)
  case (Suc n)
  then show ?case
    using read_step [of n acc v] by (simp add: write_unsigned_Suc)
qed (simp add: write_unsigned_def)

lemma read_write_8 [simp]: "read_unsigned (write_unsigned 8 v) = v"
  unfolding read_unsigned_def read_write_aux by (simp add: take_bit_word_eq_self)

lemma read_write_4 [simp]: "ucast (read_unsigned (write_unsigned 4 (ucast (r :: u32)))) = r"
  unfolding read_unsigned_def read_write_aux
  by (rule bit_word_eqI) (simp add: bit_simps)

section \<open>What is issued validates\<close>

text \<open>The claims of an issued ticket; the expiry is carried in whole milliseconds.\<close>

definition issued_claims ::
  "u8 list \<Rightarrow> u64 \<Rightarrow> u32 \<Rightarrow> u8 list option \<Rightarrow> int \<Rightarrow> time_point \<Rightarrow> ticket_claims" where
  "issued_claims random account_id realm_id correlation_id ttl now =
     \<lparr>tc_purpose = Enter_realm, tc_ticket_id = random, tc_account_id = account_id,
      tc_realm_id = realm_id, tc_correlation_id = correlation_id,
      tc_expires_at = epoch_millis (now + seconds ttl) * ns_per_milli\<rparr>"

lemma issue_ticket_body:
  assumes "issue_ticket na key random purpose account_id realm_id cid ttl now = Inr ticket"
  shows "ticket = (let body = ticket_body purpose random cid account_id realm_id
           (epoch_millis (now + seconds ttl)) in body @ hmacsha256 na body key)"
    "0 < ttl" "account_id \<noteq> 0" "0 \<le> epoch_millis (now + seconds ttl)"
  using assms by (auto simp: issue_ticket_def Let_def split: if_splits)

lemma expiry_word:
  assumes "0 \<le> e" "e \<le> int int64_max"
  shows "uint (word_of_int e :: u64) = e" "\<not> word_of_nat int64_max < (word_of_int e :: u64)"
proof -
  show *: "uint (word_of_int e :: u64) = e"
    using assms by (simp add: uint_word_of_int take_bit_eq_mod int64_max_def)
  show "\<not> word_of_nat int64_max < (word_of_int e :: u64)"
    using assms unfolding word_less_def * by (simp add: int64_max_def)
qed

definition id_length_ok :: "u8 list \<Rightarrow> u8 list option \<Rightarrow> bool" where
  "id_length_ok random cid \<longleftrightarrow>
     length random = session_ticket_id_size \<and>
     (case cid of None \<Rightarrow> True | Some c \<Rightarrow> length c = correlation_id_size)"

lemma length_ticket_body:
  "id_length_ok random cid \<Longrightarrow>
     length (ticket_body purpose random cid account_id realm_id e) =
       (if cid = None then signed_size_v1 else signed_size_v2)"
  by (auto simp: ticket_body_def id_length_ok_def layout_defs split: option.splits)

lemma ticket_body_fields:
  assumes "id_length_ok random cid"
  shows "subspan (ticket_body purpose random cid account_id realm_id e @ tag) 2 session_ticket_id_size = random"
    "cid = None \<Longrightarrow> subspan (ticket_body purpose random cid account_id realm_id e @ tag)
       (2 + session_ticket_id_size) 8 = write_unsigned 8 account_id"
    "cid = None \<Longrightarrow> subspan (ticket_body purpose random cid account_id realm_id e @ tag)
       (2 + session_ticket_id_size + 8) 4 = write_unsigned 4 (ucast realm_id)"
    "cid = None \<Longrightarrow> subspan (ticket_body purpose random cid account_id realm_id e @ tag)
       (2 + session_ticket_id_size + 12) 8 = write_unsigned 8 (word_of_int e)"
    "cid = Some c \<Longrightarrow> subspan (ticket_body purpose random cid account_id realm_id e @ tag)
       (2 + session_ticket_id_size) correlation_id_size = c"
    "cid = Some c \<Longrightarrow> subspan (ticket_body purpose random cid account_id realm_id e @ tag)
       (2 + session_ticket_id_size + correlation_id_size) 8 = write_unsigned 8 account_id"
    "cid = Some c \<Longrightarrow> subspan (ticket_body purpose random cid account_id realm_id e @ tag)
       (2 + session_ticket_id_size + correlation_id_size + 8) 4 = write_unsigned 4 (ucast realm_id)"
    "cid = Some c \<Longrightarrow> subspan (ticket_body purpose random cid account_id realm_id e @ tag)
       (2 + session_ticket_id_size + correlation_id_size + 12) 8 = write_unsigned 8 (word_of_int e)"
  using assms
  by (auto simp: subspan_def ticket_body_def id_length_ok_def session_ticket_id_size_def
      correlation_id_size_def split: option.splits)

lemma ticket_validate_issued:
  assumes "sodium_laws na" "id_length_ok random cid"
    "issue_ticket na key random purpose account_id realm_id cid ttl now = Inr ticket"
    "epoch_millis (now + seconds ttl) \<le> int int64_max"
  shows "ticket_validate na key ticket expected now' =
    (if now' \<le> epoch_millis (now + seconds ttl) * ns_per_milli + jws_clock_leeway
     then Some (issued_claims random account_id realm_id cid ttl now) else None)"
proof -
  note issued = issue_ticket_body [OF assms(3)]
  let ?e = "epoch_millis (now + seconds ttl)"
  let ?b = "ticket_body purpose random cid account_id realm_id ?e"
  let ?tag = "hmacsha256 na ?b key"
  have ticket: "ticket = ?b @ ?tag"
    using issued(1) by (simp add: Let_def)
  have tag: "length ?tag = hmac_size" "hmacsha256_verify na ?tag ?b key"
    using assms(1) by (simp_all add: sodium_laws_def)
  have head: "?b \<noteq> []" "?b ! 0 = (if cid = None then 1 else 2)" "?b ! 1 = 3" "2 \<le> length ?b"
    by (cases purpose; simp add: ticket_body_def layout_defs split: option.split)+
  have len: "length ?b = (if cid = None then signed_size_v1 else signed_size_v2)"
    by (rule length_ticket_body [OF assms(2)])
  note e = expiry_word [OF issued(4) assms(4)]
  show ?thesis
  proof (cases cid)
    case None
    note fields = ticket_body_fields(1-4) [OF assms(2), where tag = ?tag]
    show ?thesis
      using head len tag fields e issued(3) unfolding ticket None
      by (cases expected) (auto simp: ticket_validate_def Let_def nth_append ticket_version_v1_def
          ticket_version_v2_def ticket_size_v1_def issued_claims_def)
  next
    case (Some c)
    note fields = ticket_body_fields(1,5-8) [OF assms(2), where tag = ?tag]
    show ?thesis
      using head len tag fields e issued(3) unfolding ticket Some
      by (cases expected) (auto simp: ticket_validate_def Let_def nth_append ticket_version_v1_def
          ticket_version_v2_def ticket_size_v2_def issued_claims_def)
  qed
qed

section \<open>The guard behind redemption\<close>

text \<open>What a ticket's bytes say about its identifier and expiry, whatever key checks them.\<close>

definition ticket_key_of :: "u8 list \<Rightarrow> u8 list" where
  "ticket_key_of ticket = subspan ticket 2 session_ticket_id_size"

definition ticket_expiry_of :: "u8 list \<Rightarrow> time_point" where
  "ticket_expiry_of ticket =
     uint (read_unsigned (subspan ticket
       (2 + session_ticket_id_size + (if ticket ! 0 = ticket_version_v2 then correlation_id_size else 0) + 12)
       8)) * ns_per_milli"

definition ticket_live :: "session_tickets \<Rightarrow> u8 list \<Rightarrow> time_point \<Rightarrow> bool" where
  "ticket_live tickets ticket_id now \<longleftrightarrow>
     (case st_consumed tickets ticket_id of
        None \<Rightarrow> False
      | Some expires_at \<Rightarrow> now \<le> expires_at + jws_clock_leeway)"

definition redeem_event ::
  "sodium \<Rightarrow> session_tickets \<Rightarrow> u8 list \<times> ticket_purpose \<Rightarrow> time_point \<Rightarrow> session_tickets \<times> bool" where
  "redeem_event na tickets event now =
     (case redeem na tickets (fst event) (snd event) now of
        (tickets', status) \<Rightarrow> (tickets', case status of Redeem_accepted _ \<Rightarrow> True | _ \<Rightarrow> False))"

lemma ticket_validate_fields:
  assumes "ticket_validate na key ticket purpose now = Some claims"
  shows "tc_ticket_id claims = ticket_key_of ticket" "tc_expires_at claims = ticket_expiry_of ticket"
    "now \<le> ticket_expiry_of ticket + jws_clock_leeway" "tc_account_id claims \<noteq> 0"
  using assms
  by (auto simp: ticket_validate_def Let_def ticket_key_of_def ticket_expiry_of_def split: if_splits)

interpretation redemption: replay_guard "redeem_event na" "\<lambda>event. ticket_key_of (fst event)"
  "\<lambda>event. ticket_expiry_of (fst event) + jws_clock_leeway" ticket_live
  for na
  by unfold_locales
    (auto simp: redeem_event_def redeem_def ticket_consume_def ticket_live_def erase_tickets_def Let_def
      dest: ticket_validate_fields split: option.splits if_splits)

lemma redeemed_window:
  "snd (redeem_event na tickets event now) \<Longrightarrow> now \<le> ticket_expiry_of (fst event) + jws_clock_leeway"
  by (auto simp: redeem_event_def redeem_def dest: ticket_validate_fields
      split: option.splits prod.splits redeem_status.splits if_splits)

lemma run_guard_accepted:
  "run_guard f g events ! j \<Longrightarrow> j < length events \<Longrightarrow>
     \<exists>g'. snd (f g' (fst (events ! j)) (snd (events ! j)))"
proof (induction f g events arbitrary: j rule: run_guard.induct)
  case (2 f g c now events)
  then show ?case
    by (cases j) (auto simp: case_prod_beta prod_eq_iff)
qed simp

section \<open>Correlation identifiers in hexadecimal\<close>

lemma nibble_hex_digit: "n < 16 \<Longrightarrow> nibble (hex_digits ! n) = int n"
proof -
  have "list_all (\<lambda>n. nibble (hex_digits ! n) = int n) [0..<16]"
    by code_simp
  then show "n < 16 \<Longrightarrow> nibble (hex_digits ! n) = int n"
    by (simp add: list_all_iff del: upt_rec_numeral)
qed

lemma join_nibbles:
  "(word_of_int (push_bit 4 (uint (drop_bit 4 b AND 0x0F)) OR uint (b AND 0x0F)) :: u8) = b"
proof -
  have mask: "(0x0F :: u8) = mask 4" by (simp add: mask_eq_exp_minus_1)
  show ?thesis
    unfolding mask by (rule bit_word_eqI) (auto simp: bit_simps)
qed

lemma unat_nibble: "unat (w AND 0x0F :: u8) < 16"
proof -
  have "w AND 0x0F < (16 :: u8)"
    by (rule le_less_trans [OF word_and_le1]) simp
  then show ?thesis
    by (simp add: word_less_nat_alt)
qed

lemma parse_correlation_id_hex: "parse_hex_bytes (correlation_id_hex value) = Some value"
proof (induction "value")
  case (Cons b bytes)
  have digits: "correlation_id_hex (b # bytes) = hex_digits ! unat (drop_bit 4 b AND 0x0F) #
      hex_digits ! unat (b AND 0x0F) # correlation_id_hex bytes"
    by (simp add: correlation_id_hex_def)
  show ?case
    unfolding digits using Cons join_nibbles [of b]
    by (simp add: nibble_hex_digit unat_nibble flip: uint_nat)
qed (simp add: correlation_id_hex_def)

section \<open>Properties\<close>

definition example_key :: "u8 list" where
  "example_key = replicate 32 7"

definition example_ticket :: "u8 list" where
  "example_ticket =
     (case issue_ticket example_sodium example_key (replicate 16 1) Enter_realm 42 7 None 30 (seconds 1000) of
        Inr ticket \<Rightarrow> ticket | Inl _ \<Rightarrow> [])"

lemma example_ticket_issued:
  "issue_ticket example_sodium example_key (replicate 16 1) Enter_realm 42 7 None 30 (seconds 1000) =
     Inr example_ticket"
  by (simp add: issue_ticket_def example_ticket_def Let_def epoch_millis_def clock_defs ns_per_milli_def)

lemma example_ticket_clock:
  "epoch_millis (seconds 1000 + seconds 30) = 1030000"
  "id_length_ok (replicate 16 1) None"
  by (simp_all add: epoch_millis_def clock_defs ns_per_milli_def id_length_ok_def
      session_ticket_id_size_def)

lemma example_ticket_fits: "epoch_millis (seconds 1000 + seconds 30) \<le> int int64_max"
  unfolding example_ticket_clock by (simp add: int64_max_def)

lemma example_ticket_times:
  "seconds 1001 \<le> 1030000 * ns_per_milli + jws_clock_leeway"
  "seconds 1090 \<le> 1030000 * ns_per_milli + jws_clock_leeway"
  "\<not> seconds 1091 \<le> 1030000 * ns_per_milli + jws_clock_leeway"
  by (simp_all add: clock_defs ns_per_milli_def jws_clock_leeway_def)

text \<open>A ticket issued with a key validates under that key exactly until its expiry plus
  the clock leeway, and the claims are the issued identifier, account, realm, correlation
  identifier and the expiry in whole milliseconds, for both layouts.\<close>

lemma ticket_round_trip:
  assumes "sodium_laws na" "id_length_ok random cid"
    "issue_ticket na key random purpose account_id realm_id cid ttl now = Inr ticket"
    "epoch_millis (now + seconds ttl) \<le> int int64_max"
  shows "ticket_validate na key ticket expected now' =
    (if now' \<le> epoch_millis (now + seconds ttl) * ns_per_milli + jws_clock_leeway
     then Some (issued_claims random account_id realm_id cid ttl now) else None)"
  using assms by (rule ticket_validate_issued)

lemma ticket_round_trip_witness:
  "ticket_validate example_sodium example_key example_ticket Enter_realm (seconds 1090) =
     Some (issued_claims (replicate 16 1) 42 7 None 30 (seconds 1000)) \<and>
   ticket_validate example_sodium example_key example_ticket Enter_realm (seconds 1091) = None"
  unfolding ticket_round_trip [OF sodium_laws_example example_ticket_clock(2) example_ticket_issued
      example_ticket_fits] example_ticket_clock
  by (simp add: example_ticket_times)

text \<open>C10. However often the bytes of a ticket are presented, interleaved with any other
  redemptions and under a non-decreasing clock, at most one presentation is accepted.\<close>

theorem ticket_redeemed_once:
  assumes "sorted (map snd events)" "i < j" "j < length events"
    "fst (fst (events ! i)) = fst (fst (events ! j))"
    "run_guard (redeem_event na) tickets events ! i"
  shows "\<not> run_guard (redeem_event na) tickets events ! j"
proof
  assume accepted: "run_guard (redeem_event na) tickets events ! j"
  obtain tickets' where "snd (redeem_event na tickets' (fst (events ! j)) (snd (events ! j)))"
    using run_guard_accepted [OF accepted assms(3)] by blast
  then have "snd (events ! j) \<le> ticket_expiry_of (fst (fst (events ! i))) + jws_clock_leeway"
    using redeemed_window assms(4) by simp
  then show False
    using redemption.accepted_once [OF assms(5,2,3,1)] assms(4) accepted by simp
qed

theorem ticket_redeemed_once_witness:
  "run_guard (redeem_event example_sodium) \<lparr>st_key = example_key, st_consumed = Map.empty\<rparr>
     [((example_ticket, Enter_realm), seconds 1001), ((example_ticket, Enter_realm), seconds 1090)] =
   [True, False]"
proof -
  let ?events = "[((example_ticket, Enter_realm), seconds 1001), ((example_ticket, Enter_realm), seconds 1090)]"
  let ?run = "run_guard (redeem_event example_sodium) \<lparr>st_key = example_key, st_consumed = Map.empty\<rparr> ?events"
  have "\<exists>claims. ticket_validate example_sodium example_key example_ticket Enter_realm (seconds 1001) = Some claims"
    unfolding ticket_validate_issued [OF sodium_laws_example example_ticket_clock(2)
        example_ticket_issued example_ticket_fits] example_ticket_clock
    by (simp add: example_ticket_times)
  then have first: "?run ! 0"
    by (auto simp: redeem_event_def redeem_def ticket_consume_def erase_tickets_def Let_def case_prod_beta)
  have "\<not> ?run ! 1"
    by (rule ticket_redeemed_once [OF _ _ _ _ first]) simp_all
  moreover have "?run = [?run ! 0, ?run ! 1]"
    by (simp add: case_prod_beta)
  ultimately show ?thesis
    using first by (metis (full_types))
qed

end
