(* ===== verification/Queue_Ticketing.thy ===== *)
theory Queue_Ticketing
  imports Admission_Grant Queue_Core Session_Ticket
begin

text \<open>
  The ticketing module of the queue (\<open>game/queue/src/queue_ticketing.cpp\<close>): it turns a
  validated identity into a queue number, and a queue number together with the release ledger
  into an admission grant. The store behind it is an argument \<open>store_issue\<close>, a state
  transformer that may throw; \<open>crypto_generichash\<close> is an argument \<open>hash\<close> that maps the output
  length and the input to a digest, or to \<open>None\<close> where the call reports a failure.
\<close>

datatype queue_issue_status = Queue_issued | Queue_recovered | Queue_unavailable

record queue_issue_request =
  qir_identity_jti :: string
  qir_issued_at :: time_point
  qir_identity_expires_at :: time_point
  qir_snapshot :: queue_snapshot

record queue_issue_result =
  qis_status :: queue_issue_status
  qis_number :: u64
  qis_issued_at :: time_point
  qis_snapshot :: queue_snapshot

record issued_queue_ticket =
  iqt_status :: queue_issue_status
  iqt_token :: string
  iqt_number :: u64
  iqt_wait :: u64

datatype ticket_query_status = Query_queued | Query_admitted | Query_invalid_number | Query_expired

record ticket_query =
  tkq_status :: ticket_query_status
  tkq_number :: u64
  tkq_position :: u64
  tkq_wait :: u64
  tkq_grant :: "string option"
  tkq_expires_in :: u64

record queue_ticketing =
  tq_core :: queue_core
  tq_numbers :: queue_number_codec
  tq_grants :: grant_issuer

type_synonym generic_hash = "nat \<Rightarrow> u8 list \<Rightarrow> u8 list option"

section \<open>Helpers\<close>

definition estimate_wait :: "u64 \<Rightarrow> u64 \<Rightarrow> u64" where
  "estimate_wait position rate =
     (if position = 0 \<or> rate = 0 then 0 else (position + rate - 1) div rate)"

definition big_endian_bytes :: "u64 \<Rightarrow> u8 list" where
  "big_endian_bytes n =
     map (\<lambda>shift. ucast (drop_bit shift n AND 0xFF)) [56, 48, 40, 32, 24, 16, 8, 0]"

definition digest_hex :: "u8 list \<Rightarrow> string" where
  "digest_hex digest =
     concat (map (\<lambda>byte. [hex_digits ! unat (drop_bit 4 byte), hex_digits ! unat (byte AND 0x0F)])
       digest)"

definition deterministic_grant_jti ::
  "sodium \<Rightarrow> generic_hash \<Rightarrow> string \<Rightarrow> u64 \<Rightarrow> time_point \<Rightarrow> error + string" where
  "deterministic_grant_jti na hash identity_jti number released_at =
     (if \<not> init_ok na then Inl sodium_failure
      else case hash 16
             (as_bytes ''realmmesh/admission-grant-jti/v1'' @ [0] @ as_bytes identity_jti @
              big_endian_bytes number @
              big_endian_bytes (word_of_int (epoch_seconds released_at))) of
             None \<Rightarrow> Inl (Runtime_error ''failed to derive Admission Grant jti'')
           | Some digest \<Rightarrow> Inr (digest_hex digest))"

section \<open>Operations\<close>

definition no_ticket :: issued_queue_ticket where
  "no_ticket = \<lparr>iqt_status = Queue_unavailable, iqt_token = [], iqt_number = 0, iqt_wait = 0\<rparr>"

text \<open>A thrown exception leaves the states as they are at that point.\<close>

definition ticketing_issue ::
  "sodium \<Rightarrow> (queue_issue_request \<Rightarrow> 's \<Rightarrow> (error + queue_issue_result) \<times> 's) \<Rightarrow>
     queue_ticketing \<Rightarrow> 's \<Rightarrow> identity_claims \<Rightarrow> time_point \<Rightarrow>
     (error + issued_queue_ticket) \<times> queue_ticketing \<times> 's" where
  "ticketing_issue na store_issue t s identity now =
     (case store_issue
             \<lparr>qir_identity_jti = ic_jti identity, qir_issued_at = now,
              qir_identity_expires_at = ic_expires_at identity,
              qir_snapshot = core_snapshot (tq_core t) now\<rparr> s of
        (Inl e, s') \<Rightarrow> (Inl e, t, s')
      | (Inr issued, s') \<Rightarrow>
          if qis_status issued = Queue_unavailable then (Inr no_ticket, t, s')
          else case core_restore (tq_core t) (qis_snapshot issued) now of
                 Inl e \<Rightarrow> (Inl e, t, s')
               | Inr core \<Rightarrow>
                   let t' = t\<lparr>tq_core := core\<rparr>
                   in case queue_number_issue na (tq_numbers t)
                             \<lparr>qni_identity_jti = ic_jti identity, qni_number = qis_number issued,
                              qni_issued_at = qis_issued_at issued,
                              qni_identity_expires_at = ic_expires_at identity\<rparr> of
                        Inl e \<Rightarrow> (Inl e, t', s')
                      | Inr token \<Rightarrow>
                          let released = qc_released core;
                              position = (if released < qis_number issued
                                          then qis_number issued - released else 0)
                          in (Inr \<lparr>iqt_status = qis_status issued, iqt_token = token,
                                   iqt_number = qis_number issued,
                                   iqt_wait = estimate_wait position (admit_rate core now)\<rparr>, t', s'))"

definition no_query :: "ticket_query_status \<Rightarrow> u64 \<Rightarrow> ticket_query" where
  "no_query st number =
     \<lparr>tkq_status = st, tkq_number = number, tkq_position = 0, tkq_wait = 0, tkq_grant = None,
      tkq_expires_in = 0\<rparr>"

definition ticketing_query ::
  "sodium \<Rightarrow> generic_hash \<Rightarrow> queue_ticketing \<Rightarrow> string \<Rightarrow> time_point \<Rightarrow> error + ticket_query" where
  "ticketing_query na hash t token now =
     (case queue_number_validate na (tq_numbers t) token now of
        None \<Rightarrow> Inr (no_query Query_invalid_number 0)
      | Some claims \<Rightarrow>
          let number = qn_number claims;
              eligibility = release_eligibility (tq_core t) number now
          in if re_status eligibility = Not_released
             then let position = number - qc_released (tq_core t)
                  in Inr ((no_query Query_queued number)\<lparr>tkq_position := position,
                        tkq_wait := estimate_wait position (admit_rate (tq_core t) now)\<rparr>)
             else if re_status eligibility = Expired \<or> qn_expires_at claims < re_released_at eligibility
             then Inr (no_query Query_expired number)
             else case deterministic_grant_jti na hash (qn_identity_jti claims) number
                         (re_released_at eligibility) of
                    Inl e \<Rightarrow> Inl e
                  | Inr jti \<Rightarrow>
                      (case grant_issue_token na (tq_grants t)
                              \<lparr>gi_grant_jti = jti, gi_identity_jti = qn_identity_jti claims,
                               gi_queue_number = number, gi_released_at = re_released_at eligibility,
                               gi_issued_at = re_released_at eligibility,
                               gi_identity_expires_at = qn_expires_at claims\<rparr> of
                         Inl e \<Rightarrow> Inl e
                       | Inr grant \<Rightarrow>
                           let grant_expires_at = min (qn_expires_at claims)
                                 (re_released_at eligibility +
                                  seconds (gp_window (gis_policy (tq_grants t))));
                               remaining = epoch_seconds (grant_expires_at - now)
                           in Inr ((no_query Query_admitted number)\<lparr>tkq_grant := Some grant,
                                 tkq_expires_in := (if 0 < remaining then word_of_int remaining else 0)\<rparr>)))"

section \<open>Waiting times\<close>

lemma recent_numbers_released:
  assumes "core_ok core"
  shows "recent_numbers core now \<le> unat (qc_released core) - unat (qc_pruned core)"
proof -
  have t: "concat (map batch_numbers (qc_batches core)) = [Suc (unat (qc_pruned core))..<Suc (unat (qc_released core))]"
    using assms by (simp add: core_ok_def tiles_def)
  have "length (concat (map batch_numbers (filter P bs))) \<le> length (concat (map batch_numbers bs))" for P bs
    by (induction bs) auto
  then show ?thesis
    unfolding recent_numbers_def by (metis (no_types, lifting) t diff_Suc_Suc length_upt)
qed

lemma estimate_wait_ceiling:
  assumes "unat position + unat rate < 2 ^ 64"
  shows "unat (estimate_wait position rate) =
    (if rate = 0 then 0 else (unat position + unat rate - 1) div unat rate)"
proof (cases "position = 0 \<or> rate = 0")
  case True
  moreover have "0 < unat rate" if "rate \<noteq> 0"
    using that by (simp add: unat_gt_0)
  ultimately show ?thesis
    by (auto simp: estimate_wait_def)
next
  case False
  have sum: "unat (position + rate) = unat position + unat rate"
    using assms by (rule u64_add_unat)
  have "unat (position + rate - 1) = unat position + unat rate - 1"
    using False sum u64_diff_unat [of 1 "position + rate"]
    by (simp add: word_le_nat_alt unat_gt_0 Suc_le_eq)
  then show ?thesis
    using False by (simp add: estimate_wait_def unat_div_distrib)
qed

section \<open>Grant identifiers\<close>

definition hash_laws :: "generic_hash \<Rightarrow> bool" where
  "hash_laws hash \<longleftrightarrow> (\<forall>input. \<exists>digest. hash 16 input = Some digest \<and> length digest = 16)"

lemma length_digest_hex: "length (digest_hex digest) = 2 * length digest"
  by (induction digest) (simp_all add: digest_hex_def)

lemma hex_digit_lower: "n < 16 \<Longrightarrow> lower_hex (hex_digits ! n)"
proof -
  have "list_all (\<lambda>n. lower_hex (hex_digits ! n)) [0..<16]"
    by code_simp
  then show "n < 16 \<Longrightarrow> lower_hex (hex_digits ! n)"
    by (simp add: list_all_iff del: upt_rec_numeral)
qed

lemma digest_hex_lower: "list_all lower_hex (digest_hex digest)"
proof (induction digest)
  case (Cons byte digest)
  have "unat byte < 256"
    by (rule order_less_le_trans [OF unsigned_less]) simp
  then have "unat (drop_bit 4 byte) < 16" "unat (byte AND 0x0F) < 16"
    using unat_nibble [of byte]
    by (simp_all add: unat_drop_bit_eq) (simp add: drop_bit_eq_div less_mult_imp_div_less)
  then show ?case
    using Cons by (simp add: digest_hex_def hex_digit_lower)
qed (simp add: digest_hex_def)

lemma grant_jti_ok:
  assumes "sodium_laws na" "hash_laws hash"
  obtains jti where "deterministic_grant_jti na hash identity_jti number released_at = Inr jti"
    "valid_jti jti"
proof -
  let ?input = "as_bytes ''realmmesh/admission-grant-jti/v1'' @ [0] @ as_bytes identity_jti @
    big_endian_bytes number @ big_endian_bytes (word_of_int (epoch_seconds released_at))"
  obtain digest where "hash 16 ?input = Some digest" "length digest = 16"
    using assms(2) unfolding hash_laws_def by blast
  then have "deterministic_grant_jti na hash identity_jti number released_at = Inr (digest_hex digest)"
    "valid_jti (digest_hex digest)"
    using assms(1) digest_hex_lower
    by (simp_all add: deterministic_grant_jti_def sodium_laws_def valid_jti_def jti_size_def
        length_digest_hex)
  then show thesis ..
qed

section \<open>Queries\<close>

text \<open>The grant a query issues for a released number.\<close>

definition query_grant :: "queue_number_claims \<Rightarrow> time_point \<Rightarrow> string \<Rightarrow> grant_issue" where
  "query_grant claims released_at jti =
     \<lparr>gi_grant_jti = jti, gi_identity_jti = qn_identity_jti claims, gi_queue_number = qn_number claims,
      gi_released_at = released_at, gi_issued_at = released_at,
      gi_identity_expires_at = qn_expires_at claims\<rparr>"

lemma query_grant_issued:
  assumes "sodium_laws na" "new_grant_issuer na active policy = Inr issuer" "valid_jti jti"
    "queue_claims_ok ttl claims" "released_at \<le> qn_expires_at claims"
  obtains grant where "grant_issue_token na issuer (query_grant claims released_at jti) = Inr grant"
proof -
  note parts = new_issuer_parts [OF assms(1,2)]
  have "\<not> word_of_nat int64_max < qn_number claims"
    using assms(4) by (simp add: queue_claims_ok_def word_less_nat_alt int64_max_def)
  moreover have "0 < seconds (gp_window policy)"
    using parts by (simp add: policy_validate_iff clock_defs)
  then have "\<not> grant_expiry (gis_policy issuer) (query_grant claims released_at jti) < released_at"
    using parts assms(5) by (simp add: grant_expiry_def query_grant_def)
  ultimately have "\<exists>grant. grant_issue_token na issuer (query_grant claims released_at jti) = Inr grant"
    using assms(3,4)
    by (simp add: grant_issue_token_def query_grant_def queue_claims_ok_def Let_def)
  then show thesis using that by blast
qed

lemma ticketing_query_cases:
  assumes "sodium_laws na" "hash_laws hash" "new_grant_issuer na active policy = Inr (tq_grants t)"
  obtains (invalid) "queue_number_validate na (tq_numbers t) token now = None"
      "ticketing_query na hash t token now = Inr (no_query Query_invalid_number 0)"
  | (queued) claims where "queue_number_validate na (tq_numbers t) token now = Some claims"
      "re_status (release_eligibility (tq_core t) (qn_number claims) now) = Not_released"
      "ticketing_query na hash t token now =
         Inr ((no_query Query_queued (qn_number claims))
           \<lparr>tkq_position := qn_number claims - qc_released (tq_core t),
            tkq_wait := estimate_wait (qn_number claims - qc_released (tq_core t))
                          (admit_rate (tq_core t) now)\<rparr>)"
  | (expired) claims where "queue_number_validate na (tq_numbers t) token now = Some claims"
      "re_status (release_eligibility (tq_core t) (qn_number claims) now) = Expired \<or>
       qn_expires_at claims < re_released_at (release_eligibility (tq_core t) (qn_number claims) now)"
      "ticketing_query na hash t token now = Inr (no_query Query_expired (qn_number claims))"
  | (admitted) claims released_at jti grant expires_in where
      "queue_number_validate na (tq_numbers t) token now = Some claims"
      "release_eligibility (tq_core t) (qn_number claims) now =
         \<lparr>re_status = Eligible, re_released_at = released_at\<rparr>"
      "released_at \<le> qn_expires_at claims"
      "deterministic_grant_jti na hash (qn_identity_jti claims) (qn_number claims) released_at = Inr jti"
      "valid_jti jti"
      "grant_issue_token na (tq_grants t) (query_grant claims released_at jti) = Inr grant"
      "expires_in = epoch_seconds
         (min (qn_expires_at claims) (released_at + seconds (gp_window policy)) - now)"
      "ticketing_query na hash t token now =
         Inr ((no_query Query_admitted (qn_number claims))
           \<lparr>tkq_grant := Some grant,
            tkq_expires_in := (if 0 < expires_in then word_of_int expires_in else 0)\<rparr>)"
proof (cases "queue_number_validate na (tq_numbers t) token now")
  case None
  then show thesis
    by (intro invalid) (simp_all add: ticketing_query_def)
next
  case (Some claims)
  let ?e = "release_eligibility (tq_core t) (qn_number claims) now"
  have ok: "queue_claims_ok (qnc_ttl (tq_numbers t)) claims"
    using queue_number_validate_signed [OF Some] by simp
  consider "re_status ?e = Not_released"
    | "re_status ?e \<noteq> Not_released" "re_status ?e = Expired \<or> qn_expires_at claims < re_released_at ?e"
    | "re_status ?e = Eligible" "re_released_at ?e \<le> qn_expires_at claims"
    by (cases "re_status ?e") (auto intro: leI)
  then show thesis
  proof cases
    case 1
    then show thesis
      using queued [OF Some] Some by (simp add: ticketing_query_def Let_def)
  next
    case 2
    then show thesis
      using expired [OF Some 2(2)] Some by (simp add: ticketing_query_def Let_def)
  next
    case 3
    obtain jti where jti: "deterministic_grant_jti na hash (qn_identity_jti claims) (qn_number claims)
        (re_released_at ?e) = Inr jti" "valid_jti jti"
      using grant_jti_ok [OF assms(1,2)] .
    obtain grant where grant:
      "grant_issue_token na (tq_grants t) (query_grant claims (re_released_at ?e) jti) = Inr grant"
      using query_grant_issued [OF assms(1,3) jti(2) ok 3(2)] .
    have e: "?e = \<lparr>re_status = Eligible, re_released_at = re_released_at ?e\<rparr>"
      using 3(1) by (cases ?e) simp
    show thesis
      using admitted [OF Some e 3(2) jti grant refl] Some 3 jti(1) grant
        new_issuer_parts [OF assms(1,3)]
      by (simp add: ticketing_query_def query_grant_def Let_def)
  qed
qed

text \<open>The releases of the ledger as the clock of a grant sees them.\<close>

definition releases_fit :: "queue_core \<Rightarrow> int \<Rightarrow> bool" where
  "releases_fit core window \<longleftrightarrow>
     (\<forall>b \<in> set (qc_batches core). 0 \<le> rb_released_at b \<and> clock_fits (rb_released_at b + seconds window))"

lemma clock_fits_between:
  assumes "0 \<le> s" "s \<le> t" "clock_fits t"
  shows "clock_fits s"
proof -
  have "0 \<le> epoch_seconds s" "epoch_seconds s \<le> epoch_seconds t"
    using assms(1) epoch_seconds_mono [of 0 s] epoch_seconds_mono [OF assms(2)]
    by (simp_all add: epoch_seconds_def)
  then show ?thesis
    using assms(3) by (auto simp: clock_fits_def)
qed

lemma eligible_release:
  assumes "release_eligibility core number now = \<lparr>re_status = Eligible, re_released_at = released_at\<rparr>"
  shows "\<exists>b \<in> set (qc_batches core). rb_released_at b = released_at"
proof -
  have "find_batch core bs number now = \<lparr>re_status = Eligible, re_released_at = released_at\<rparr> \<Longrightarrow>
      \<exists>b \<in> set bs. rb_released_at b = released_at" for bs
    by (induction core bs number now rule: find_batch.induct) (auto split: if_splits)
  then show ?thesis
    using assms by (auto simp: release_eligibility_def split: if_splits)
qed

lemma query_grant_clock:
  assumes "releases_fit core (gp_window policy)" "0 < gp_window policy"
    "release_eligibility core number now = \<lparr>re_status = Eligible, re_released_at = released_at\<rparr>"
    "released_at \<le> qn_expires_at claims"
  shows "grant_clock_ok policy (query_grant claims released_at jti)"
proof -
  have r: "0 \<le> released_at" "clock_fits (released_at + seconds (gp_window policy))"
    using eligible_release [OF assms(3)] assms(1) by (auto simp: releases_fit_def)
  have e: "released_at \<le> grant_expiry policy (query_grant claims released_at jti)"
    "grant_expiry policy (query_grant claims released_at jti) \<le> released_at + seconds (gp_window policy)"
    using assms(2,4) by (simp_all add: grant_expiry_def query_grant_def clock_defs)
  have "clock_fits (grant_expiry policy (query_grant claims released_at jti))"
    using clock_fits_between [OF order_trans [OF r(1) e(1)] e(2) r(2)] .
  moreover have "clock_fits released_at"
    using clock_fits_between [OF r(1) order_trans [OF e] r(2)] .
  ultimately show ?thesis
    using r(1) e(1) by (simp add: grant_clock_ok_def) (simp add: query_grant_def)
qed

lemma query_admittedD:
  assumes "sodium_laws na" "hash_laws hash" "new_grant_issuer na active policy = Inr (tq_grants t)"
    "ticketing_query na hash t token now = Inr q" "tkq_status q = Query_admitted"
  obtains claims released_at jti grant where
    "queue_number_validate na (tq_numbers t) token now = Some claims"
    "release_eligibility (tq_core t) (qn_number claims) now =
       \<lparr>re_status = Eligible, re_released_at = released_at\<rparr>"
    "released_at \<le> qn_expires_at claims"
    "deterministic_grant_jti na hash (qn_identity_jti claims) (qn_number claims) released_at = Inr jti"
    "grant_issue_token na (tq_grants t) (query_grant claims released_at jti) = Inr grant"
    "tkq_grant q = Some grant" "tkq_number q = qn_number claims"
    "unat (tkq_expires_in q) = (let left = epoch_seconds
       (min (qn_expires_at claims) (released_at + seconds (gp_window policy)) - now)
      in if 0 < left then unat (word_of_int left :: u64) else 0)"
  using ticketing_query_cases [OF assms(1-3), of token now] assms(4,5)
  by cases (auto simp: no_query_def Let_def)

lemma validate_same_token:
  assumes "queue_number_validate na codec token now = Some claims"
    "queue_number_validate na codec token now' = Some claims'"
  shows "claims' = claims"
  using assms
  by (auto simp: queue_number_validate_def queue_number_claims_of_def Let_def
      split: option.splits if_splits)

lemma eligible_released_at:
  assumes "core_ok core"
    "release_eligibility core number now = \<lparr>re_status = Eligible, re_released_at = r\<rparr>"
    "release_eligibility core number now' = \<lparr>re_status = Eligible, re_released_at = r'\<rparr>"
  shows "r' = r"
proof -
  have n: "number \<noteq> 0" "number \<le> qc_released core"
    using assms(2) by (auto simp: release_eligibility_def not_less split: if_splits)
  then obtain b where "b \<in> set (qc_batches core)" "rb_first b \<le> number" "number \<le> rb_last b"
    using eligible_batch [OF assms(1), of number now] assms(2) by auto
  then show ?thesis
    using eligibility_hit [OF assms(1), of b number] assms(2,3) by simp
qed

lemma ticketing_issue_core:
  assumes "ticketing_issue na store_issue t s identity now = (r, t', s')" "core_ok (tq_core t)"
  shows "core_ok (tq_core t')"
  using assms core_restore_ok
  by (auto simp: ticketing_issue_def Let_def split: prod.splits sum.splits if_splits)

section \<open>Examples\<close>

definition example_hash :: generic_hash where
  "example_hash n input = Some (replicate n (checksum [] input))"

definition example_ticketing :: queue_ticketing where
  "example_ticketing =
     \<lparr>tq_core = example_released, tq_numbers = example_queue_codec, tq_grants = example_grant_issuer\<rparr>"

lemma example_ticketing_parts:
  "hash_laws example_hash" "core_ok (tq_core example_ticketing)"
  "new_grant_issuer example_sodium example_signing_key example_policy = Inr (tq_grants example_ticketing)"
  "releases_fit (tq_core example_ticketing) (gp_window example_policy)"
proof -
  show "core_ok (tq_core example_ticketing)"
    "new_grant_issuer example_sodium example_signing_key example_policy = Inr (tq_grants example_ticketing)"
    by (simp_all add: example_ticketing_def example_core_ok example_issuer_new)
qed (simp_all add: hash_laws_def example_hash_def example_ticketing_def releases_fit_def
    example_policy_def clock_fits_def example_released_def clock_defs epoch_seconds_def
    int64_max_def int64_min_magnitude_def)

definition example_number :: "u64 \<Rightarrow> queue_number_request" where
  "example_number n = example_queue_issue\<lparr>qni_number := n\<rparr>"

lemma example_number_validates:
  assumes "n \<in> {3, 7}" "now \<in> {1100, 1200}"
  obtains token where "queue_number_issue example_sodium example_queue_codec (example_number n) = Inr token"
    "queue_number_validate example_sodium (tq_numbers example_ticketing) token (seconds now) =
       Some (carried_queue_number 600 (example_number n))"
proof -
  have "\<exists>token. queue_number_issue example_sodium example_queue_codec (example_number n) = Inr token"
    using assms(1) by (auto simp: queue_number_issue_def example_number_def example_queue_issue_def
        Let_def int64_max_def)
  then obtain token where
    token: "queue_number_issue example_sodium example_queue_codec (example_number n) = Inr token" ..
  have fits: "clock_fits (qni_issued_at (example_number n))"
    "clock_fits (min (qni_identity_expires_at (example_number n))
       (qni_issued_at (example_number n) + seconds (qnc_ttl example_queue_codec)))"
    using example_clock_fits by (simp_all add: example_number_def)
  have "queue_number_window (carried_queue_number 600 (example_number n)) (seconds now)"
    using assms(2) by (auto simp: queue_number_window_def carried_queue_number_def example_number_def
        example_queue_issue_def clock_defs epoch_seconds_def jws_clock_leeway_def)
  then show thesis
    using that [OF token] queue_number_issue_validate [OF sodium_laws_example example_queue_codec_new
        token fits example_queue_ring(1)] by (simp add: example_ticketing_def example_queue_ring)
qed

lemma example_number_claims:
  "qn_number (carried_queue_number 600 (example_number n)) = n"
  "qn_identity_jti (carried_queue_number 600 (example_number n)) = ''00112233445566778899aabbccddeeff''"
  "qn_expires_at (carried_queue_number 600 (example_number n)) = seconds 1600"
  by (simp_all add: carried_queue_number_def example_number_def example_queue_issue_def clock_defs
      epoch_seconds_def)

section \<open>Properties\<close>

text \<open>Polling never raises: with a correctly constructed issuer, a query answers for
  every token, every clock and every state of the release ledger.\<close>

lemma query_total:
  assumes "sodium_laws na" "hash_laws hash" "new_grant_issuer na active policy = Inr (tq_grants t)"
  shows "\<exists>q. ticketing_query na hash t token now = Inr q"
  using ticketing_query_cases [OF assms, of token now] by cases simp_all

lemma query_total_witness:
  "\<exists>q. ticketing_query example_sodium example_hash example_ticketing ''a.b.c'' 0 = Inr q"
  using query_total [OF sodium_laws_example example_ticketing_parts(1,3)] .

text \<open>C14. The grant of an admitted query is one that every gateway with the same policy and
  the signing key accepts, for the identity the queue number was issued to, from the release
  to the earlier of the end of the number and the end of the release window, both widened by
  the leeway.\<close>

theorem admitted_grant_accepted:
  assumes "sodium_laws na" "hash_laws hash" "new_grant_issuer na active policy = Inr (tq_grants t)"
    "ticketing_query na hash t token now = Inr q" "tkq_status q = Query_admitted"
    "releases_fit (tq_core t) (gp_window policy)"
    "gv_ring verifier (sk_kid active) = Some (fst (seed_keypair na (sk_seed active)))"
    "gv_policy verifier = policy"
  shows "\<exists>claims released_at jti grant.
    queue_number_validate na (tq_numbers t) token now = Some claims \<and>
    release_eligibility (tq_core t) (qn_number claims) now =
      \<lparr>re_status = Eligible, re_released_at = released_at\<rparr> \<and>
    tkq_grant q = Some grant \<and>
    (\<forall>identity_expires_at now'. qn_expires_at claims \<le> identity_expires_at \<longrightarrow>
       grant_validate na verifier grant (qn_identity_jti claims) identity_expires_at now' =
         (if grant_window (carried_grant policy (query_grant claims released_at jti)) now'
          then Some (carried_grant policy (query_grant claims released_at jti)) else None))"
proof -
  obtain claims released_at jti grant where p:
    "queue_number_validate na (tq_numbers t) token now = Some claims"
    "release_eligibility (tq_core t) (qn_number claims) now =
       \<lparr>re_status = Eligible, re_released_at = released_at\<rparr>"
    "released_at \<le> qn_expires_at claims"
    "grant_issue_token na (tq_grants t) (query_grant claims released_at jti) = Inr grant"
    "tkq_grant q = Some grant"
    using query_admittedD [OF assms(1-5)] .
  have "0 < gp_window policy"
    using new_issuer_parts [OF assms(1,3)] by (simp add: policy_validate_iff)
  note clock = query_grant_clock [OF assms(6) this p(2,3)]
  have "grant_validate na verifier grant (qn_identity_jti claims) identity_expires_at now' =
      (if grant_window (carried_grant policy (query_grant claims released_at jti)) now'
       then Some (carried_grant policy (query_grant claims released_at jti)) else None)"
    if "qn_expires_at claims \<le> identity_expires_at" for identity_expires_at now'
    using grant_issue_validate [OF assms(1,3) p(4) clock assms(7,8)] that
    by (simp add: query_grant_def)
  then show ?thesis
    using p(1,2,5) by blast
qed

lemma example_admitted:
  obtains token q where
    "ticketing_query example_sodium example_hash example_ticketing token (seconds 1100) = Inr q"
    "tkq_status q = Query_admitted"
    "queue_number_validate example_sodium (tq_numbers example_ticketing) token (seconds 1100) =
       Some (carried_queue_number 600 (example_number 3))"
    "queue_number_issue example_sodium example_queue_codec (example_number 3) = Inr token"
proof -
  obtain token where token: "queue_number_issue example_sodium example_queue_codec (example_number 3) = Inr token"
    "queue_number_validate example_sodium (tq_numbers example_ticketing) token (seconds 1100) =
       Some (carried_queue_number 600 (example_number 3))"
    using example_number_validates [of 3 1100] by auto
  have e: "release_eligibility (tq_core example_ticketing) 3 (seconds 1100) =
      \<lparr>re_status = Eligible, re_released_at = seconds 1000\<rparr>"
    by (simp add: example_ticketing_def release_eligibility_def example_released_def example_core_def
        batch_expired_def clock_defs jws_clock_leeway_def)
  show thesis
  proof (cases rule: ticketing_query_cases [OF sodium_laws_example example_ticketing_parts(1,3),
        where token = token and now = "seconds 1100", case_names invalid queued expired admitted])
    case (admitted claims released_at jti grant expires_in)
    show thesis
      by (rule that [OF admitted(8) _ token(2,1)]) (simp add: no_query_def)
  qed (use token(2) e in \<open>simp_all add: example_number_claims\<close>)
qed

theorem admitted_grant_accepted_witness:
  "\<exists>token q grant claims.
     ticketing_query example_sodium example_hash example_ticketing token (seconds 1100) = Inr q \<and>
     tkq_grant q = Some grant \<and>
     grant_validate example_sodium example_grant_verifier grant
       ''00112233445566778899aabbccddeeff'' (seconds 1900) (seconds 1360) = Some claims \<and>
     gc_queue_number claims = 3"
proof -
  obtain token q where run:
    "ticketing_query example_sodium example_hash example_ticketing token (seconds 1100) = Inr q"
    "tkq_status q = Query_admitted"
    "queue_number_validate example_sodium (tq_numbers example_ticketing) token (seconds 1100) =
       Some (carried_queue_number 600 (example_number 3))"
    using example_admitted by blast
  let ?claims = "carried_queue_number 600 (example_number 3)"
  obtain released_at jti grant where a:
    "release_eligibility (tq_core example_ticketing) 3 (seconds 1100) =
       \<lparr>re_status = Eligible, re_released_at = released_at\<rparr>"
    "tkq_grant q = Some grant"
    "\<forall>identity_expires_at now'. seconds 1600 \<le> identity_expires_at \<longrightarrow>
       grant_validate example_sodium example_grant_verifier grant ''00112233445566778899aabbccddeeff''
         identity_expires_at now' =
         (if grant_window (carried_grant example_policy (query_grant ?claims released_at jti)) now'
          then Some (carried_grant example_policy (query_grant ?claims released_at jti)) else None)"
    using admitted_grant_accepted [OF sodium_laws_example example_ticketing_parts(1,3) run(1,2)
        example_ticketing_parts(4) example_grant_verifier_ring] run(3)
    by (auto simp: example_number_claims)
  have "released_at = seconds 1000"
    using a(1) by (simp add: example_ticketing_def release_eligibility_def example_released_def
        example_core_def batch_expired_def clock_defs jws_clock_leeway_def)
  then have "grant_window (carried_grant example_policy (query_grant ?claims released_at jti)) (seconds 1360)"
    by (simp add: grant_window_def carried_grant_def query_grant_def grant_expiry_def
        example_number_claims example_policy_def) (simp add: clock_defs epoch_seconds_def jws_clock_leeway_def)
  moreover have "gc_queue_number (carried_grant example_policy (query_grant ?claims released_at jti)) = 3"
    by (simp add: carried_grant_def query_grant_def example_number_claims)
  ultimately show ?thesis
    using run(1) a(2,3) by fastforce
qed

text \<open>One number, one grant: however often a client polls while its window is open, and
  whatever is released in between, every admitted answer carries the same grant text, so
  polling again cannot extend a window.\<close>

lemma same_grant:
  assumes "sodium_laws na" "hash_laws hash" "new_grant_issuer na active policy = Inr (tq_grants t)"
    "core_ok (tq_core t)" "run_releases (tq_core t) frames = Inr core'"
    "\<forall>(budgets, at) \<in> set frames. at \<le> now'"
    "ticketing_query na hash t token now = Inr q" "tkq_status q = Query_admitted"
    "ticketing_query na hash (t\<lparr>tq_core := core'\<rparr>) token now' = Inr q'" "tkq_status q' = Query_admitted"
  shows "tkq_grant q' = tkq_grant q \<and> tkq_number q' = tkq_number q"
proof -
  obtain claims r jti grant where p:
    "queue_number_validate na (tq_numbers t) token now = Some claims"
    "release_eligibility (tq_core t) (qn_number claims) now = \<lparr>re_status = Eligible, re_released_at = r\<rparr>"
    "deterministic_grant_jti na hash (qn_identity_jti claims) (qn_number claims) r = Inr jti"
    "grant_issue_token na (tq_grants t) (query_grant claims r jti) = Inr grant"
    "tkq_grant q = Some grant" "tkq_number q = qn_number claims"
    using query_admittedD [OF assms(1-3,7,8)] .
  let ?t = "t\<lparr>tq_core := core'\<rparr>"
  have issuer: "new_grant_issuer na active policy = Inr (tq_grants ?t)"
    using assms(3) by simp
  obtain claims' r' jti' grant' where
    "queue_number_validate na (tq_numbers ?t) token now' = Some claims'"
    "release_eligibility (tq_core ?t) (qn_number claims') now' =
       \<lparr>re_status = Eligible, re_released_at = r'\<rparr>"
    "deterministic_grant_jti na hash (qn_identity_jti claims') (qn_number claims') r' = Inr jti'"
    "grant_issue_token na (tq_grants ?t) (query_grant claims' r' jti') = Inr grant'"
    "tkq_grant q' = Some grant'" "tkq_number q' = qn_number claims'"
    using query_admittedD [OF assms(1,2) issuer assms(9,10)] .
  then have p': "queue_number_validate na (tq_numbers t) token now' = Some claims'"
    "release_eligibility core' (qn_number claims') now' = \<lparr>re_status = Eligible, re_released_at = r'\<rparr>"
    "deterministic_grant_jti na hash (qn_identity_jti claims') (qn_number claims') r' = Inr jti'"
    "grant_issue_token na (tq_grants t) (query_grant claims' r' jti') = Inr grant'"
    "tkq_grant q' = Some grant'" "tkq_number q' = qn_number claims'"
    by simp_all
  have same: "claims' = claims"
    using p(1) p'(1) by (rule validate_same_token)
  have "qn_number claims \<noteq> 0" "qn_number claims \<le> qc_released (tq_core t)"
    using p(2) by (auto simp: release_eligibility_def not_less split: if_splits)
  from run_releases_eligibility [OF assms(4-6) this] p'(2)
  have "release_eligibility (tq_core t) (qn_number claims) now' = \<lparr>re_status = Eligible, re_released_at = r'\<rparr>"
    by (simp add: same)
  from eligible_released_at [OF assms(4) p(2) this] p p'
  show ?thesis
    by (simp add: same)
qed

lemma example_admitted_later:
  assumes "run_releases example_released [(example_budgets, seconds 1150)] = Inr core'"
    "queue_number_issue example_sodium example_queue_codec (example_number 3) = Inr token"
  obtains q where "ticketing_query example_sodium example_hash (example_ticketing\<lparr>tq_core := core'\<rparr>)
      token (seconds 1200) = Inr q" "tkq_status q = Query_admitted"
proof -
  have token: "queue_number_validate example_sodium (tq_numbers example_ticketing) token (seconds 1200) =
       Some (carried_queue_number 600 (example_number 3))"
    using example_number_validates [of 3 1200] assms(2) by fastforce
  have "(3 :: u64) \<noteq> 0" "3 \<le> qc_released example_released"
    by (simp_all add: example_released_def)
  moreover have e: "release_eligibility example_released 3 (seconds 1200) =
      \<lparr>re_status = Eligible, re_released_at = seconds 1000\<rparr>"
    by (simp add: release_eligibility_def example_released_def example_core_def
        batch_expired_def clock_defs jws_clock_leeway_def)
  moreover have "\<forall>(budgets, t) \<in> set [(example_budgets, seconds 1150)]. t \<le> seconds 1200"
    by simp
  ultimately have later: "release_eligibility core' 3 (seconds 1200) = \<lparr>re_status = Eligible, re_released_at = seconds 1000\<rparr>"
    using run_releases_eligibility [OF example_core_ok(2) assms(1)] by fastforce
  have issuer: "new_grant_issuer example_sodium example_signing_key example_policy =
      Inr (tq_grants (example_ticketing\<lparr>tq_core := core'\<rparr>))"
    using example_ticketing_parts(3) by simp
  show thesis
  proof (cases rule: ticketing_query_cases [OF sodium_laws_example example_ticketing_parts(1) issuer,
        where token = token and now = "seconds 1200", case_names invalid queued expired admitted])
    case (admitted claims released_at jti grant expires_in)
    show thesis
      by (rule that [OF admitted(8)]) (simp add: no_query_def)
  qed (use token later in \<open>simp_all add: example_number_claims\<close>)
qed

lemma same_grant_witness:
  "\<exists>core' token q q'. run_releases example_released [(example_budgets, seconds 1150)] = Inr core' \<and>
     ticketing_query example_sodium example_hash example_ticketing token (seconds 1100) = Inr q \<and>
     ticketing_query example_sodium example_hash (example_ticketing\<lparr>tq_core := core'\<rparr>) token (seconds 1200) = Inr q' \<and>
     tkq_status q' = Query_admitted \<and> tkq_grant q' = tkq_grant q"
proof -
  have "\<exists>core'. run_releases example_released [(example_budgets, seconds 1150)] = Inr core'"
    by (simp add: release_batch_def example_released_def example_core_def Let_def clock_defs
        epoch_seconds_def split: sum.split)
  then obtain core' where run: "run_releases example_released [(example_budgets, seconds 1150)] = Inr core'" ..
  obtain token q where q: "ticketing_query example_sodium example_hash example_ticketing token (seconds 1100) = Inr q"
    "tkq_status q = Query_admitted" "queue_number_issue example_sodium example_queue_codec (example_number 3) = Inr token"
    using example_admitted by blast
  obtain q' where q': "ticketing_query example_sodium example_hash (example_ticketing\<lparr>tq_core := core'\<rparr>)
      token (seconds 1200) = Inr q'" "tkq_status q' = Query_admitted"
    using example_admitted_later [OF run q(3)] .
  have "run_releases (tq_core example_ticketing) [(example_budgets, seconds 1150)] = Inr core'"
    "\<forall>(budgets, at) \<in> set [(example_budgets, seconds 1150)]. at \<le> seconds 1200"
    using run by (simp_all add: example_ticketing_def)
  from same_grant [OF sodium_laws_example example_ticketing_parts(1,3,2) this q(1,2) q'] run q q'
  show ?thesis by blast
qed

text \<open>A queued answer gives the exact distance to the released watermark, at least one,
  and the waiting time is that distance divided by the measured rate, rounded up; none of
  the 64-bit operations wraps around.\<close>

lemma queued_position:
  assumes "core_ok (tq_core t)" "0 < qc_rate_window (tq_core t)" "qc_rate_window (tq_core t) < 2 ^ 63"
    "ticketing_query na hash t token now = Inr q" "tkq_status q = Query_queued"
  shows "qc_released (tq_core t) < tkq_number q \<and>
    unat (tkq_position q) = unat (tkq_number q) - unat (qc_released (tq_core t)) \<and>
    unat (tkq_wait q) = (let rate = unat (admit_rate (tq_core t) now)
      in if rate = 0 then 0 else (unat (tkq_position q) + rate - 1) div rate)"
proof -
  obtain claims where v: "queue_number_validate na (tq_numbers t) token now = Some claims"
    and e: "re_status (release_eligibility (tq_core t) (qn_number claims) now) = Not_released"
    and q: "tkq_number q = qn_number claims" "tkq_position q = qn_number claims - qc_released (tq_core t)"
      "tkq_wait q = estimate_wait (tkq_position q) (admit_rate (tq_core t) now)"
    using assms(4,5) by (auto simp: ticketing_query_def no_query_def Let_def
        split: option.splits sum.splits if_splits)
  have ok: "qn_number claims \<noteq> 0" "unat (qn_number claims) \<le> int64_max"
    using queue_number_validate_signed [OF v] by (simp_all add: queue_claims_ok_def)
  have "re_status (find_batch core bs n now) \<noteq> Not_released" for core bs n
    by (induction core bs n now rule: find_batch.induct) auto
  then have above: "qc_released (tq_core t) < qn_number claims"
    using e ok(1) by (auto simp: release_eligibility_def split: if_splits)
  then have pos: "unat (tkq_position q) = unat (tkq_number q) - unat (qc_released (tq_core t))"
    using u64_diff_unat [of "qc_released (tq_core t)" "qn_number claims"] by (simp add: q less_imp_le)
  have "unat (admit_rate (tq_core t) now) \<le> recent_numbers (tq_core t) now"
    unfolding admit_rate_exact [OF assms(1-3)] by (rule div_le_dividend)
  then have "unat (admit_rate (tq_core t) now) \<le> unat (qc_released (tq_core t))"
    using recent_numbers_released [OF assms(1), of now] by linarith
  then have "unat (tkq_position q) + unat (admit_rate (tq_core t) now) < 2 ^ 64"
    using pos ok(2) above by (simp add: q(1) int64_max_def word_less_nat_alt)
  from estimate_wait_ceiling [OF this] show ?thesis
    using above pos q(1,3) by (simp add: Let_def unat_eq_0)
qed

lemma queued_position_witness:
  "\<exists>token q. ticketing_query example_sodium example_hash example_ticketing token (seconds 1100) = Inr q \<and>
     tkq_status q = Query_queued \<and> unat (tkq_position q) = 3"
proof -
  obtain token where token: "queue_number_validate example_sodium (tq_numbers example_ticketing) token (seconds 1100) =
       Some (carried_queue_number 600 (example_number 7))"
    using example_number_validates [of 7 1100] by auto
  have e: "re_status (release_eligibility (tq_core example_ticketing) 7 (seconds 1100)) = Not_released"
    by (simp add: example_ticketing_def release_eligibility_def example_released_def)
  obtain q where q: "ticketing_query example_sodium example_hash example_ticketing token (seconds 1100) = Inr q"
    "tkq_status q = Query_queued" "tkq_number q = 7"
    using token e by (auto simp: ticketing_query_def example_number_claims no_query_def Let_def)
  have "0 < qc_rate_window (tq_core example_ticketing)" "qc_rate_window (tq_core example_ticketing) < 2 ^ 63"
    by (simp_all add: example_ticketing_def example_released_def example_core_def)
  from queued_position [OF example_ticketing_parts(2) this q(1,2)] q show ?thesis
    by (intro exI [of _ token] exI [of _ q]) (simp add: example_ticketing_def example_released_def)
qed

text \<open>Issuing keeps the ledger consistent whatever the store answers: a damaged snapshot
  is refused before it replaces the state, and a failing store changes nothing.\<close>

lemma issue_keeps_ledger:
  assumes "core_ok (tq_core t)"
  shows "case ticketing_issue na store_issue t s identity now of
    (r, t', s') \<Rightarrow> core_ok (tq_core t') \<and>
      tq_numbers t' = tq_numbers t \<and> tq_grants t' = tq_grants t \<and>
      (r = Inr no_ticket \<longrightarrow> t' = t)"
proof -
  obtain r t' s' where run: "ticketing_issue na store_issue t s identity now = (r, t', s')"
    by (cases "ticketing_issue na store_issue t s identity now") auto
  have "tq_numbers t' = tq_numbers t" "tq_grants t' = tq_grants t" "r = Inr no_ticket \<longrightarrow> t' = t"
    using run by (auto simp: ticketing_issue_def no_ticket_def Let_def
        split: prod.splits sum.splits if_splits)
  then show ?thesis
    using ticketing_issue_core [OF run assms] run by simp
qed

lemma issue_keeps_ledger_witness:
  "core_ok (tq_core (fst (snd (ticketing_issue example_sodium
     (\<lambda>request s. (Inl (Runtime_error ''etcd''), s)) example_ticketing () example_claims 0))))"
  using issue_keeps_ledger [OF example_ticketing_parts(2),
      of example_sodium "\<lambda>request s. (Inl (Runtime_error ''etcd''), s)" "()" example_claims 0]
  by (cases "ticketing_issue example_sodium (\<lambda>request s. (Inl (Runtime_error ''etcd''), s))
      example_ticketing () example_claims 0") simp

end
