(* ===== verification/Etcd_Codec.thy ===== *)
theory Etcd_Codec
  imports RM_Prelude "HOL-Library.Countable"
begin

text \<open>
  What the etcd clients share: the standard base64 of keys and values, in the lenient decoder
  of the queue store (\<open>game/queue/src/queue_store.cpp\<close>) and the strict decoder of the
  admission store (\<open>game/gateway/src/admission_consumption_store.cpp\<close>), the end of a prefix
  range, and the JSON values of \<open>nlohmann::json\<close> with the accessors the code uses. Parsing and
  printing of JSON text is the library's: \<open>json_library\<close> is its contract, that printing and
  parsing gives the value back, with non-negative integers read as unsigned. No code reads a
  floating-point value, so \<open>J_float\<close> carries none.
\<close>

section \<open>Standard base64\<close>

definition std_alphabet :: string where
  "std_alphabet = ''ABCDEFGHIJKLMNOPQRSTUVWXYZabcdefghijklmnopqrstuvwxyz0123456789+/''"

definition std_char :: "u32 \<Rightarrow> char" where
  "std_char w = std_alphabet ! unat (w AND 0x3F)"

definition std_group :: "u8 \<Rightarrow> u8 \<Rightarrow> u8 \<Rightarrow> u32" where
  "std_group x y z = push_bit 16 (ucast x) OR push_bit 8 (ucast y) OR ucast z"

fun encode_groups :: "u8 list \<Rightarrow> string" where
  "encode_groups (x # y # z # rest) =
     (let v = std_group x y z
      in std_char (drop_bit 18 v) # std_char (drop_bit 12 v) # std_char (drop_bit 6 v) # std_char v #
         encode_groups rest)"
| "encode_groups [x, y] =
     (let v = std_group x y 0
      in [std_char (drop_bit 18 v), std_char (drop_bit 12 v), std_char (drop_bit 6 v), CHR ''=''])"
| "encode_groups [x] =
     (let v = std_group x 0 0
      in [std_char (drop_bit 18 v), std_char (drop_bit 12 v), CHR ''='', CHR ''=''])"
| "encode_groups [] = []"

definition base64_encode :: "string \<Rightarrow> string" where
  "base64_encode input = encode_groups (as_bytes input)"

definition std_index :: "char \<Rightarrow> int" where
  "std_index c =
     (let v = of_char c :: int in
      if 65 \<le> v \<and> v \<le> 90 then v - 65
      else if 97 \<le> v \<and> v \<le> 122 then v - 97 + 26
      else if 48 \<le> v \<and> v \<le> 57 then v - 48 + 52
      else if v = 43 then 62
      else if v = 47 then 63
      else - 1)"

definition std_value :: "int \<Rightarrow> int \<Rightarrow> int \<Rightarrow> int \<Rightarrow> u32" where
  "std_value first second third fourth =
     push_bit 18 (word_of_int first) OR push_bit 12 (word_of_int second) OR
     push_bit 6 (word_of_int third) OR word_of_int fourth"

text \<open>The bytes of one block of four characters.\<close>

definition std_bytes :: "bool \<Rightarrow> bool \<Rightarrow> u32 \<Rightarrow> u8 list" where
  "std_bytes third_padding fourth_padding v =
     [ucast (drop_bit 16 v AND 0xFF)] @
     (if third_padding then [] else [ucast (drop_bit 8 v AND 0xFF)]) @
     (if fourth_padding then [] else [ucast (v AND 0xFF)])"

fun decode_blocks :: "string \<Rightarrow> u8 list \<Rightarrow> u8 list option" where
  "decode_blocks (a # b # c # d # rest) output =
     (let first = std_index a; second = std_index b;
          third = (if c = CHR ''='' then 0 else std_index c);
          fourth = (if d = CHR ''='' then 0 else std_index d)
      in if first < 0 \<or> second < 0 \<or> third < 0 \<or> fourth < 0 then None
         else decode_blocks rest
                (output @ std_bytes (c = CHR ''='') (d = CHR ''='') (std_value first second third fourth)))"
| "decode_blocks _ output = Some output"

definition base64_decode :: "string \<Rightarrow> string option" where
  "base64_decode input =
     (if length input mod 4 \<noteq> 0 then None
      else map_option as_string_view (decode_blocks input []))"

text \<open>The strict decoder takes padding in the last block only and no stray bits before it.\<close>

fun strict_blocks :: "string \<Rightarrow> u8 list \<Rightarrow> u8 list option" where
  "strict_blocks (a # b # c # d # rest) output =
     (let third_padding = (c = CHR ''=''); fourth_padding = (d = CHR ''='')
      in if (rest \<noteq> [] \<and> (third_padding \<or> fourth_padding)) \<or> (third_padding \<and> \<not> fourth_padding)
         then None
         else let first = std_index a; second = std_index b;
                  third = (if third_padding then 0 else std_index c);
                  fourth = (if fourth_padding then 0 else std_index d)
              in if first < 0 \<or> second < 0 \<or> third < 0 \<or> fourth < 0 then None
                 else if (third_padding \<and> second AND 0x0F \<noteq> 0) \<or>
                         (fourth_padding \<and> \<not> third_padding \<and> third AND 0x03 \<noteq> 0)
                 then None
                 else strict_blocks rest
                        (output @ std_bytes third_padding fourth_padding
                           (std_value first second third fourth)))"
| "strict_blocks _ output = Some output"

definition base64_decode_strict :: "string \<Rightarrow> string option" where
  "base64_decode_strict input =
     (if length input mod 4 \<noteq> 0 then None
      else map_option as_string_view (strict_blocks input []))"

section \<open>Prefix ranges\<close>

fun bump_last :: "string \<Rightarrow> string option" where
  "bump_last [] = None"
| "bump_last (c # reversed) =
     (if (of_char c :: nat) \<noteq> 255 then Some (rev (char_of (of_char c + 1 :: nat) # reversed))
      else bump_last reversed)"

definition prefix_range_end :: "string \<Rightarrow> string" where
  "prefix_range_end key_prefix =
     (case bump_last (rev key_prefix) of None \<Rightarrow> [CHR 0x00] | Some end_key \<Rightarrow> end_key)"

section \<open>JSON values\<close>

datatype json =
    J_null
  | J_bool bool
  | J_unsigned u64
  | J_integer int
  | J_float
  | J_string string
  | J_array "json list"
  | J_object "(string \<times> json) list"

instance json :: countable
  by countable_datatype

fun json_find :: "json \<Rightarrow> string \<Rightarrow> json option" where
  "json_find (J_object members) key = map_of members key"
| "json_find _ key = None"

fun is_object :: "json \<Rightarrow> bool" where
  "is_object (J_object _) = True"
| "is_object _ = False"

fun json_size :: "json \<Rightarrow> nat" where
  "json_size (J_object members) = length members"
| "json_size (J_array values) = length values"
| "json_size J_null = 0"
| "json_size _ = 1"

text \<open>\<open>entry.value(key, "")\<close> throws on a value that is no object and on a member that is no
  string.\<close>

definition string_member :: "json \<Rightarrow> string \<Rightarrow> error + string" where
  "string_member entry key =
     (case entry of
        J_object members \<Rightarrow>
          (case map_of members key of
             None \<Rightarrow> Inr []
           | Some (J_string s) \<Rightarrow> Inr s
           | Some _ \<Rightarrow> Inl (Json_error ''type must be string''))
      | _ \<Rightarrow> Inl (Json_error ''cannot use value() with this type''))"

text \<open>What the parser makes of a printed value.\<close>

fun reread :: "json \<Rightarrow> json" where
  "reread (J_integer i) = (if 0 \<le> i then J_unsigned (word_of_int i) else J_integer i)"
| "reread (J_array values) = J_array (map reread values)"
| "reread (J_object members) = J_object (map (\<lambda>(key, member). (key, reread member)) members)"
| "reread j = j"

type_synonym json_parser = "string \<Rightarrow> json option"
type_synonym json_printer = "json \<Rightarrow> string"

text \<open>The values whose printing cannot fail: strings in ASCII (the library refuses text that is
  not UTF-8), integers of 64 bits, members with distinct names.\<close>

definition ascii :: "string \<Rightarrow> bool" where
  "ascii s \<longleftrightarrow> (\<forall>c \<in> set s. of_char c < (128 :: nat))"

fun json_plain :: "json \<Rightarrow> bool" where
  "json_plain J_null = True"
| "json_plain (J_bool _) = True"
| "json_plain (J_unsigned _) = True"
| "json_plain (J_integer i) = (- (2 ^ 63) \<le> i \<and> i < 2 ^ 63)"
| "json_plain J_float = False"
| "json_plain (J_string s) = ascii s"
| "json_plain (J_array values) = list_all json_plain values"
| "json_plain (J_object members) =
     (distinct (map fst members) \<and> list_all (\<lambda>(key, member). ascii key \<and> json_plain member) members)"

definition json_library :: "json_parser \<Rightarrow> json_printer \<Rightarrow> bool" where
  "json_library parse dump \<longleftrightarrow> (\<forall>j. json_plain j \<longrightarrow> parse (dump j) = Some (reread j))"

section \<open>The gateway\<close>

text \<open>The etcd JSON gateway answers a path and a body, or nothing when the request failed.\<close>

type_synonym 'w etcd_post = "string \<Rightarrow> string \<Rightarrow> 'w \<Rightarrow> string option \<times> 'w"

record 'w etcd =
  etcd_parse :: json_parser
  etcd_dump :: json_printer
  etcd_post :: "'w etcd_post"

section \<open>Base64 lemmas\<close>

lemma length_std_alphabet [simp]: "length std_alphabet = 64"
  by code_simp

lemma std_index_all: "list_all (\<lambda>k. std_index (std_alphabet ! k) = int k) [0..<64]"
  by code_simp

lemma std_alphabet_ascii: "list_all (\<lambda>c. of_char c < (128 :: nat) \<and> c \<noteq> CHR ''='') std_alphabet"
  by code_simp

lemma unat_sextet: "unat (w AND 0x3F :: u32) < 64"
  using word_and_le1 [of w "0x3F"] by (simp add: word_le_nat_alt)

lemma std_index_char [simp]: "std_index (std_char w) = uint (w AND 0x3F)"
  using std_index_all unat_sextet [of w] by (simp add: list_all_iff std_char_def)

lemma std_char_in: "std_char w \<in> set std_alphabet"
  using unat_sextet [of w] by (simp add: std_char_def)

lemma std_char_pad [simp]: "std_char w \<noteq> CHR ''=''"
  using std_char_in [of w] std_alphabet_ascii by (auto simp: list_all_iff)

lemma ascii_append [simp]: "ascii (a @ b) \<longleftrightarrow> ascii a \<and> ascii b"
  by (auto simp: ascii_def)

lemma ascii_encode [simp]: "ascii (base64_encode s)"
proof -
  have "of_char (std_char w) < (128 :: nat)" for w
    using std_char_in [of w] std_alphabet_ascii by (auto simp: list_all_iff)
  then have "ascii (encode_groups bs)" for bs
    by (induction bs rule: encode_groups.induct) (auto simp: ascii_def Let_def)
  then show ?thesis
    by (simp add: base64_encode_def)
qed

lemma sextet_mask: "(0x3F :: u32) = mask 6" "(0xFF :: u32) = mask 8"
  by (simp_all add: mask_eq_exp_minus_1)

lemma bit_std_group:
  "n < 32 \<Longrightarrow> bit (std_group x y z) n \<longleftrightarrow>
     (if n < 8 then bit z n else if n < 16 then bit y (n - 8) else if n < 24 then bit x (n - 16) else False)"
  by (auto simp: std_group_def bit_simps dest: bit_imp_le_length)

text \<open>Four sextets are the group again, and the group is its bytes.\<close>

definition std_join :: "u32 \<Rightarrow> u32 \<Rightarrow> u32 \<Rightarrow> u32 \<Rightarrow> u32" where
  "std_join a b c d =
     push_bit 18 (a AND 0x3F) OR push_bit 12 (b AND 0x3F) OR push_bit 6 (c AND 0x3F) OR (d AND 0x3F)"

lemma std_value_chars:
  "std_value (uint (a AND 0x3F)) (uint (b AND 0x3F)) (uint (c AND 0x3F)) (uint (d AND 0x3F)) = std_join a b c d"
  by (simp add: std_value_def std_join_def)

lemma std_value_0: "std_value i j k 0 = std_value i j k (uint (0 AND 0x3F :: u32))"
  "std_value i j 0 l = std_value i j (uint (0 AND 0x3F :: u32)) l"
  by simp_all

lemma std_join_group:
  "std_join (drop_bit 18 (std_group x y z)) (drop_bit 12 (std_group x y z)) (drop_bit 6 (std_group x y z))
     (std_group x y z) = std_group x y z" (is "?join = ?group")
  and std_join_two:
  "std_join (drop_bit 18 (std_group x y 0)) (drop_bit 12 (std_group x y 0)) (drop_bit 6 (std_group x y 0)) 0 =
     std_group x y 0" (is "?join2 = ?group2")
  and std_join_one:
  "std_join (drop_bit 18 (std_group x 0 0)) (drop_bit 12 (std_group x 0 0)) 0 0 = std_group x 0 0"
    (is "?join1 = ?group1")
proof -
  have shift: "Suc (Suc (n - 18)) = n - 16" if "18 \<le> n" for n :: nat
    using that by simp
  note bits = std_join_def sextet_mask bit_simps bit_std_group shift
  have "bit ?join n = bit ?group n \<and> bit ?join2 n = bit ?group2 n \<and> bit ?join1 n = bit ?group1 n"
    if "n < 32" for n
    using that by (cases "18 \<le> n") (auto simp: bits)
  then show "?join = ?group" "?join2 = ?group2" "?join1 = ?group1"
    by (auto intro!: bit_word_eqI)
qed

lemma std_sextets: "0 = uint (0 AND 0x3F :: u32)"
  by simp

lemma std_group_bytes [simp]:
  "ucast (drop_bit 16 (std_group x y z) AND 0xFF) = x"
  "ucast (drop_bit 8 (std_group x y z) AND 0xFF) = y"
  "ucast (std_group x y z AND 0xFF) = z"
  by (rule bit_word_eqI, auto simp: sextet_mask bit_simps bit_std_group)+

lemma std_value_chars2:
  "std_value (uint (a AND 0x3F)) (uint (b AND 0x3F)) (uint (c AND 0x3F)) 0 = std_join a b c 0"
  "std_value (uint (a AND 0x3F)) (uint (b AND 0x3F)) 0 0 = std_join a b 0 0"
  by (simp_all add: std_value_def std_join_def)

lemmas std_block = Let_def std_value_chars std_value_chars2 std_join_group std_join_two std_join_one std_bytes_def

lemma decode_encode_groups: "decode_blocks (encode_groups bs) acc = Some (acc @ bs)"
  by (induction bs arbitrary: acc rule: encode_groups.induct) (simp_all add: std_block)

text \<open>The encoder leaves no stray bits: the sextet before a padding has zeros there.\<close>

lemma std_stray_bits:
  "uint (drop_bit 12 (std_group x 0 0) AND 0x3F) AND 0x0F = 0"
  "uint (drop_bit 6 (std_group x y 0) AND 0x3F) AND 0x03 = 0"
proof -
  have masks: "(0x0F :: u32) = mask 4" "(0x03 :: u32) = mask 2"
    by (simp_all add: mask_eq_exp_minus_1)
  have w: "(drop_bit 12 (std_group x 0 0) AND 0x3F) AND 0x0F = 0"
    "(drop_bit 6 (std_group x y 0) AND 0x3F) AND 0x03 = 0"
    by (rule bit_word_eqI, auto simp: sextet_mask masks bit_simps bit_std_group)+
  have "uint (a AND 0x0F :: u32) = uint a AND 0x0F" "uint (a AND 0x03 :: u32) = uint a AND 0x03" for a
    by (simp_all add: unsigned_and_eq)
  then show "uint (drop_bit 12 (std_group x 0 0) AND 0x3F) AND 0x0F = 0"
    "uint (drop_bit 6 (std_group x y 0) AND 0x3F) AND 0x03 = 0"
    using w by (metis unsigned_0)+
qed

lemma encode_groups_Nil [simp]: "encode_groups bs = [] \<longleftrightarrow> bs = []"
  by (cases bs rule: encode_groups.cases) (simp_all add: Let_def)

lemma strict_encode_groups: "strict_blocks (encode_groups bs) acc = Some (acc @ bs)"
  by (induction bs arbitrary: acc rule: encode_groups.induct) (simp_all add: std_block std_stray_bits)

lemma length_encode_groups: "length (encode_groups bs) mod 4 = 0"
  by (induction bs rule: encode_groups.induct) (simp_all add: Let_def)

lemma base64_decode_encode [simp]: "base64_decode (base64_encode s) = Some s"
  by (simp add: base64_decode_def base64_encode_def length_encode_groups decode_encode_groups)

lemma base64_decode_strict_encode [simp]: "base64_decode_strict (base64_encode s) = Some s"
  by (simp add: base64_decode_strict_def base64_encode_def length_encode_groups strict_encode_groups)

text \<open>What the strict decoder takes, the lenient one takes too.\<close>

lemma strict_blocks_lenient: "strict_blocks s acc = Some bs \<Longrightarrow> decode_blocks s acc = Some bs"
  by (induction s acc rule: strict_blocks.induct) (auto simp: Let_def split: if_splits)

section \<open>A concrete JSON library\<close>

text \<open>The witnesses print a value as the decimal number that enumerates it.\<close>

definition numbered_dump :: json_printer where
  "numbered_dump j = show_nat (to_nat j)"

definition numbered_parse :: json_parser where
  "numbered_parse s = Some (reread (from_nat (foldl (\<lambda>n c. n * 10 + digit_value c) 0 s)))"

lemma foldl_show_nat: "foldl (\<lambda>n c. n * 10 + digit_value c) 0 (show_nat n) = n"
proof (induction n rule: show_nat.induct)
  case (1 n)
  then show ?case
    by (subst show_nat.simps) simp
qed

lemma numbered_library: "json_library numbered_parse numbered_dump"
  by (simp add: json_library_def numbered_parse_def numbered_dump_def foldl_show_nat)

end
