(* ===== verification/Etcd_Server.thy ===== *)
theory Etcd_Server
  imports Etcd_Codec
begin

text \<open>
  What the clients rely on of etcd: a revisioned map with leases, transactions of compares and
  operations, single-key ranges, and the answers of the JSON gateway. A request that gets no
  answer may have been executed or not. \<open>others\<close> is what happens to the map between the
  requests of one client: expiring leases and the writes of other clients. The laws state
  etcd's documented behaviour; \<open>small_etcd\<close> is a concrete server that satisfies them.
\<close>

section \<open>The store\<close>

record etcd_entry =
  en_value :: string
  en_revision :: nat
  en_lease :: nat

record etcd_state =
  es_revision :: nat
  es_map :: "string \<rightharpoonup> etcd_entry"

datatype etcd_compare = Version_zero string | Mod_equal string nat

datatype etcd_op = Op_get string | Op_put string string nat

record etcd_txn =
  tx_compare :: "etcd_compare list"
  tx_success :: "etcd_op list"
  tx_failure :: "etcd_op list"

fun compare_holds :: "etcd_state \<Rightarrow> etcd_compare \<Rightarrow> bool" where
  "compare_holds s (Version_zero key) \<longleftrightarrow> es_map s key = None"
| "compare_holds s (Mod_equal key revision) \<longleftrightarrow>
     (case es_map s key of None \<Rightarrow> revision = 0 | Some e \<Rightarrow> en_revision e = revision)"

definition txn_holds :: "etcd_txn \<Rightarrow> etcd_state \<Rightarrow> bool" where
  "txn_holds t s \<longleftrightarrow> list_all (compare_holds s) (tx_compare t)"

definition txn_branch :: "etcd_txn \<Rightarrow> etcd_state \<Rightarrow> etcd_op list" where
  "txn_branch t s = (if txn_holds t s then tx_success t else tx_failure t)"

fun apply_op :: "nat \<Rightarrow> etcd_op \<Rightarrow> (string \<rightharpoonup> etcd_entry) \<Rightarrow> (string \<rightharpoonup> etcd_entry)" where
  "apply_op revision (Op_get key) m = m"
| "apply_op revision (Op_put key v lease) m =
     m(key \<mapsto> \<lparr>en_value = v, en_revision = revision, en_lease = lease\<rparr>)"

fun is_put :: "etcd_op \<Rightarrow> bool" where
  "is_put (Op_put _ _ _) = True"
| "is_put (Op_get _) = False"

definition apply_ops :: "etcd_op list \<Rightarrow> etcd_state \<Rightarrow> etcd_state" where
  "apply_ops ops s =
     (if list_ex is_put ops
      then \<lparr>es_revision = es_revision s + 1, es_map = fold (apply_op (es_revision s + 1)) ops (es_map s)\<rparr>
      else s)"

definition apply_txn :: "etcd_txn \<Rightarrow> etcd_state \<Rightarrow> etcd_state" where
  "apply_txn t s = apply_ops (txn_branch t s) s"

section \<open>Requests\<close>

fun compare_json :: "etcd_compare \<Rightarrow> json" where
  "compare_json (Version_zero key) = J_object
     [(''key'', J_string (base64_encode key)), (''target'', J_string ''VERSION''),
      (''result'', J_string ''EQUAL''), (''version'', J_integer 0)]"
| "compare_json (Mod_equal key revision) = J_object
     [(''key'', J_string (base64_encode key)), (''target'', J_string ''MOD''),
      (''result'', J_string ''EQUAL''), (''mod_revision'', J_integer (int revision))]"

fun op_json :: "etcd_op \<Rightarrow> json" where
  "op_json (Op_get key) = J_object [(''requestRange'', J_object [(''key'', J_string (base64_encode key))])]"
| "op_json (Op_put key v lease) = J_object [(''requestPut'', J_object
     ([(''key'', J_string (base64_encode key)), (''value'', J_string (base64_encode v))] @
      (if lease = 0 then [] else [(''lease'', J_string (show_nat lease))])))]"

definition txn_json :: "etcd_txn \<Rightarrow> json" where
  "txn_json t = J_object
     ((if tx_compare t = [] then [] else [(''compare'', J_array (map compare_json (tx_compare t)))]) @
      [(''success'', J_array (map op_json (tx_success t)))] @
      (if tx_failure t = [] then [] else [(''failure'', J_array (map op_json (tx_failure t)))]))"

definition range_json :: "string \<Rightarrow> json" where
  "range_json key = J_object [(''key'', J_string (base64_encode key))]"

section \<open>Answers\<close>

definition entry_reports :: "json \<Rightarrow> string \<Rightarrow> etcd_entry \<Rightarrow> bool" where
  "entry_reports j key e \<longleftrightarrow>
     string_member j ''key'' = Inr (base64_encode key) \<and>
     string_member j ''value'' = Inr (base64_encode (en_value e)) \<and>
     json_find j ''mod_revision'' = Some (J_string (show_nat (en_revision e))) \<and>
     json_find j ''lease'' = (if en_lease e = 0 then None else Some (J_string (show_nat (en_lease e))))"

definition range_reports :: "json \<Rightarrow> string \<Rightarrow> etcd_entry option \<Rightarrow> bool" where
  "range_reports j key found \<longleftrightarrow>
     is_object j \<and> json_find j ''error'' = None \<and> json_find j ''more'' = None \<and>
     (case found of
        None \<Rightarrow> json_find j ''kvs'' = None
      | Some e \<Rightarrow> (\<exists>entry. json_find j ''kvs'' = Some (J_array [entry]) \<and> entry_reports entry key e))"

fun op_reports :: "etcd_state \<Rightarrow> json \<Rightarrow> etcd_op \<Rightarrow> bool" where
  "op_reports s j (Op_get key) \<longleftrightarrow>
     (\<exists>r. json_find j ''response_range'' = Some r \<and> range_reports r key (es_map s key))"
| "op_reports s j (Op_put _ _ _) \<longleftrightarrow> json_find j ''response_range'' = None"

text \<open>The gateway leaves out a \<open>succeeded\<close> that is false.\<close>

definition txn_reports :: "etcd_txn \<Rightarrow> etcd_state \<Rightarrow> json \<Rightarrow> bool" where
  "txn_reports t s j \<longleftrightarrow>
     is_object j \<and>
     (if txn_holds t s then json_find j ''succeeded'' = Some (J_bool True)
      else json_find j ''succeeded'' \<in> {None, Some (J_bool False)}) \<and>
     (\<exists>rs. json_find j ''responses'' = Some (J_array rs) \<and> list_all2 (op_reports s) rs (txn_branch t s))"

section \<open>The laws\<close>

definition put_json :: "string \<Rightarrow> string \<Rightarrow> json" where
  "put_json key v = J_object [(''key'', J_string (base64_encode key)), (''value'', J_string (base64_encode v))]"

definition etcd_answers_txn :: "'w etcd \<Rightarrow> ('w \<Rightarrow> etcd_state) \<Rightarrow> (etcd_state \<Rightarrow> etcd_state \<Rightarrow> bool) \<Rightarrow> bool" where
  "etcd_answers_txn env state others \<longleftrightarrow>
     (\<forall>t w answer w'. json_plain (txn_json t) \<longrightarrow>
        etcd_post env ''/v3/kv/txn'' (etcd_dump env (txn_json t)) w = (answer, w') \<longrightarrow>
        (\<exists>s. others (state w) s \<and> (state w' = s \<or> state w' = apply_txn t s) \<and>
           (\<forall>j. Option.bind answer (etcd_parse env) = Some j \<longrightarrow>
              state w' = apply_txn t s \<and> txn_reports t s j)))"

definition etcd_answers_range :: "'w etcd \<Rightarrow> ('w \<Rightarrow> etcd_state) \<Rightarrow> (etcd_state \<Rightarrow> etcd_state \<Rightarrow> bool) \<Rightarrow> bool" where
  "etcd_answers_range env state others \<longleftrightarrow>
     (\<forall>key w answer w'. etcd_post env ''/v3/kv/range'' (etcd_dump env (range_json key)) w = (answer, w') \<longrightarrow>
        others (state w) (state w') \<and>
        (\<forall>j. Option.bind answer (etcd_parse env) = Some j \<longrightarrow>
           range_reports j key (es_map (state w') key)))"

definition etcd_answers_put :: "'w etcd \<Rightarrow> ('w \<Rightarrow> etcd_state) \<Rightarrow> (etcd_state \<Rightarrow> etcd_state \<Rightarrow> bool) \<Rightarrow> bool" where
  "etcd_answers_put env state others \<longleftrightarrow>
     (\<forall>key v w answer w'. etcd_post env ''/v3/kv/put'' (etcd_dump env (put_json key v)) w = (answer, w') \<longrightarrow>
        (\<exists>s. others (state w) s \<and>
           (state w' = s \<and> answer = None \<or> state w' = apply_ops [Op_put key v 0] s)))"

definition etcd_grants_leases :: "'w etcd \<Rightarrow> ('w \<Rightarrow> etcd_state) \<Rightarrow> (etcd_state \<Rightarrow> etcd_state \<Rightarrow> bool) \<Rightarrow> bool" where
  "etcd_grants_leases env state others \<longleftrightarrow>
     (\<forall>body w answer w'. etcd_post env ''/v3/lease/grant'' body w = (answer, w') \<longrightarrow> others (state w) (state w'))"

definition etcd_laws :: "'w etcd \<Rightarrow> ('w \<Rightarrow> etcd_state) \<Rightarrow> (etcd_state \<Rightarrow> etcd_state \<Rightarrow> bool) \<Rightarrow> bool" where
  "etcd_laws env state others \<longleftrightarrow>
     json_library (etcd_parse env) (etcd_dump env) \<and> etcd_answers_txn env state others \<and>
     etcd_answers_range env state others \<and> etcd_answers_put env state others \<and>
     etcd_grants_leases env state others"

lemma ascii_show_nat [simp]: "ascii (show_nat n)"
  using show_nat_digits [of n] by (auto simp: ascii_def list_all_iff is_digit_def)

lemma answers_txnD:
  "etcd_answers_txn env state others \<Longrightarrow> json_plain (txn_json t) \<Longrightarrow>
     etcd_post env ''/v3/kv/txn'' (etcd_dump env (txn_json t)) w = (answer, w') \<Longrightarrow>
     \<exists>s. others (state w) s \<and> (state w' = s \<or> state w' = apply_txn t s) \<and>
       (\<forall>j. Option.bind answer (etcd_parse env) = Some j \<longrightarrow> state w' = apply_txn t s \<and> txn_reports t s j)"
  by (simp add: etcd_answers_txn_def)

section \<open>A concrete server\<close>

text \<open>\<open>small_etcd\<close> reads the requests back with the numbered JSON library, executes them and
  reports; every request gets its answer.\<close>

definition string_of :: "json option \<Rightarrow> string option" where
  "string_of j = (case j of Some (J_string s) \<Rightarrow> Some s | _ \<Rightarrow> None)"

definition key_of :: "json \<Rightarrow> string \<Rightarrow> string" where
  "key_of j field = the (Option.bind (string_of (json_find j field)) base64_decode)"

definition number_of :: "json option \<Rightarrow> nat" where
  "number_of j = (case j of Some (J_unsigned n) \<Rightarrow> unat n
     | Some (J_string s) \<Rightarrow> foldl (\<lambda>n c. n * 10 + digit_value c) 0 s | _ \<Rightarrow> 0)"

definition array_of :: "json option \<Rightarrow> json list" where
  "array_of j = (case j of Some (J_array js) \<Rightarrow> js | _ \<Rightarrow> [])"

definition read_compare :: "json \<Rightarrow> etcd_compare" where
  "read_compare j =
     (if string_of (json_find j ''target'') = Some ''VERSION'' then Version_zero (key_of j ''key'')
      else Mod_equal (key_of j ''key'') (number_of (json_find j ''mod_revision'')))"

definition read_op :: "json \<Rightarrow> etcd_op" where
  "read_op j =
     (case (json_find j ''requestRange'', json_find j ''requestPut'') of
        (Some r, _) \<Rightarrow> Op_get (key_of r ''key'')
      | (_, Some p) \<Rightarrow> Op_put (key_of p ''key'') (key_of p ''value'') (number_of (json_find p ''lease''))
      | _ \<Rightarrow> Op_get [])"

definition read_txn :: "json \<Rightarrow> etcd_txn" where
  "read_txn j =
     \<lparr>tx_compare = map read_compare (array_of (json_find j ''compare'')),
      tx_success = map read_op (array_of (json_find j ''success'')),
      tx_failure = map read_op (array_of (json_find j ''failure''))\<rparr>"

definition report_entry :: "string \<Rightarrow> etcd_entry \<Rightarrow> json" where
  "report_entry key e = J_object
     ([(''key'', J_string (base64_encode key)), (''value'', J_string (base64_encode (en_value e))),
       (''mod_revision'', J_string (show_nat (en_revision e)))] @
      (if en_lease e = 0 then [] else [(''lease'', J_string (show_nat (en_lease e)))]))"

definition report_range :: "string \<Rightarrow> etcd_entry option \<Rightarrow> json" where
  "report_range key found =
     J_object (case found of None \<Rightarrow> [] | Some e \<Rightarrow> [(''kvs'', J_array [report_entry key e])])"

fun report_op :: "etcd_state \<Rightarrow> etcd_op \<Rightarrow> json" where
  "report_op s (Op_get key) = J_object [(''response_range'', report_range key (es_map s key))]"
| "report_op s (Op_put _ _ _) = J_object [(''response_put'', J_object [])]"

definition report_txn :: "etcd_txn \<Rightarrow> etcd_state \<Rightarrow> json" where
  "report_txn t s = J_object
     ((if txn_holds t s then [(''succeeded'', J_bool True)] else []) @
      [(''responses'', J_array (map (report_op s) (txn_branch t s)))])"

definition small_post :: "etcd_state etcd_post" where
  "small_post path body s =
     (case numbered_parse body of
        None \<Rightarrow> (None, s)
      | Some j \<Rightarrow>
          if path = ''/v3/kv/txn''
          then (Some (numbered_dump (report_txn (read_txn j) s)), apply_txn (read_txn j) s)
          else if path = ''/v3/kv/range''
          then (Some (numbered_dump (report_range (key_of j ''key'') (es_map s (key_of j ''key'')))), s)
          else if path = ''/v3/kv/put''
          then (Some (numbered_dump (J_object [])), apply_ops [Op_put (key_of j ''key'') (key_of j ''value'') 0] s)
          else (Some (numbered_dump (J_object [(''ID'', J_string ''7'')])), s))"

definition small_etcd :: "etcd_state etcd" where
  "small_etcd = \<lparr>etcd_parse = numbered_parse, etcd_dump = numbered_dump, etcd_post = small_post\<rparr>"

lemma numbered [simp]: "numbered_parse (numbered_dump j) = Some (reread j)"
  by (simp add: numbered_parse_def numbered_dump_def foldl_show_nat)

lemma key_of_member [simp]:
  "json_find j field = Some (J_string (base64_encode key)) \<Longrightarrow> key_of j field = key"
  by (simp add: key_of_def string_of_def)

lemma read_op_json [simp]: "read_op (reread (op_json op)) = op"
  by (cases op) (simp_all add: read_op_def number_of_def foldl_show_nat)

lemma read_compare_json:
  assumes "json_plain (compare_json c)"
  shows "read_compare (reread (compare_json c)) = c"
proof (cases c)
  case (Mod_equal key revision)
  then have "revision < 2 ^ 64"
    using assms by simp
  then have "unat (word_of_nat revision :: u64) = revision"
    by (simp add: unsigned_of_nat take_bit_nat_eq_self)
  then show ?thesis
    using Mod_equal by (simp add: read_compare_def string_of_def number_of_def)
qed (simp add: read_compare_def string_of_def)

lemma read_txn_json: "json_plain (txn_json t) \<Longrightarrow> read_txn (reread (txn_json t)) = t"
  by (cases t) (auto simp: read_txn_def txn_json_def array_of_def comp_def list_all_iff read_compare_json
      split: if_splits intro: map_idI)

lemma reread_report [simp]:
  "reread (report_entry key e) = report_entry key e" "reread (report_range key found) = report_range key found"
  "reread (report_op s op) = report_op s op" "reread (report_txn t s) = report_txn t s"
proof -
  show entry: "reread (report_entry key e) = report_entry key e" for key e
    by (simp add: report_entry_def)
  show range: "reread (report_range key found) = report_range key found" for key found
    by (simp add: report_range_def entry split: option.splits)
  show op: "reread (report_op s op) = report_op s op" for op
    by (cases op) (simp_all add: range)
  show "reread (report_txn t s) = report_txn t s"
    by (simp add: report_txn_def op comp_def)
qed

lemma report_range_ok: "range_reports (report_range key found) key found"
  by (auto simp: range_reports_def report_range_def entry_reports_def report_entry_def string_member_def
      split: option.splits)

lemma report_op_ok: "op_reports s (report_op s op) op"
  by (cases op) (simp_all add: report_range_ok)

lemma report_txn_ok: "txn_reports t s (report_txn t s)"
  by (auto simp: txn_reports_def report_txn_def list_all2_map1 report_op_ok intro: list.rel_refl)

lemma small_etcd_laws: "etcd_laws small_etcd (\<lambda>s. s) (=)"
proof -
  have "etcd_answers_txn small_etcd (\<lambda>s. s) (=)"
    by (auto simp: etcd_answers_txn_def small_etcd_def small_post_def read_txn_json report_txn_ok)
  moreover have "etcd_answers_range small_etcd (\<lambda>s. s) (=)"
    by (auto simp: etcd_answers_range_def small_etcd_def small_post_def range_json_def report_range_ok)
  moreover have "etcd_answers_put small_etcd (\<lambda>s. s) (=)"
    by (auto simp: etcd_answers_put_def small_etcd_def small_post_def put_json_def)
  moreover have "etcd_grants_leases small_etcd (\<lambda>s. s) (=)"
    by (auto simp: etcd_grants_leases_def small_etcd_def small_post_def split: option.splits)
  ultimately show ?thesis
    using numbered_library by (simp add: etcd_laws_def small_etcd_def)
qed

lemma etcd_laws_mono:
  assumes "etcd_laws env state (=)" "\<And>s. others s s"
  shows "etcd_laws env state others"
proof -
  have parts: "json_library (etcd_parse env) (etcd_dump env)" "etcd_answers_txn env state (=)"
    "etcd_answers_range env state (=)" "etcd_answers_put env state (=)" "etcd_grants_leases env state (=)"
    using assms(1) by (simp_all add: etcd_laws_def)
  have "etcd_answers_txn env state others"
    unfolding etcd_answers_txn_def
  proof (intro allI impI)
    fix t w answer w'
    assume "json_plain (txn_json t)" "etcd_post env ''/v3/kv/txn'' (etcd_dump env (txn_json t)) w = (answer, w')"
    from answers_txnD [OF parts(2) this] show "\<exists>s. others (state w) s \<and> (state w' = s \<or> state w' = apply_txn t s) \<and>
        (\<forall>j. Option.bind answer (etcd_parse env) = Some j \<longrightarrow> state w' = apply_txn t s \<and> txn_reports t s j)"
      by (intro exI [of _ "state w"]) (auto simp: assms(2))
  qed
  moreover have "etcd_answers_range env state others"
    using parts(3) assms(2) by (auto simp: etcd_answers_range_def)
  moreover have "etcd_answers_put env state others"
    unfolding etcd_answers_put_def
  proof (intro allI impI)
    fix key v w answer w'
    assume "etcd_post env ''/v3/kv/put'' (etcd_dump env (put_json key v)) w = (answer, w')"
    then have "state w' = state w \<and> answer = None \<or> state w' = apply_ops [Op_put key v 0] (state w)"
      using parts(4) by (simp add: etcd_answers_put_def)
    then show "\<exists>s. others (state w) s \<and> (state w' = s \<and> answer = None \<or> state w' = apply_ops [Op_put key v 0] s)"
      by (intro exI [of _ "state w"]) (simp add: assms(2))
  qed
  moreover have "etcd_grants_leases env state others"
    using parts(5) assms(2) by (auto simp: etcd_grants_leases_def)
  ultimately show ?thesis
    using parts(1) by (simp add: etcd_laws_def)
qed

lemma small_txn:
  assumes "json_plain (txn_json t)"
  shows "etcd_post small_etcd ''/v3/kv/txn'' (numbered_dump (txn_json t)) s =
     (Some (numbered_dump (report_txn t s)), apply_txn t s)"
  using read_txn_json [OF assms] by (simp add: small_etcd_def small_post_def)

lemma small_range:
  "etcd_post small_etcd ''/v3/kv/range'' (numbered_dump (range_json key)) s =
     (Some (numbered_dump (report_range key (es_map s key))), s)"
  by (simp add: small_etcd_def small_post_def range_json_def)

lemma small_grant:
  "etcd_post small_etcd ''/v3/lease/grant'' (numbered_dump j) s =
     (Some (numbered_dump (J_object [(''ID'', J_string ''7'')])), s)"
  by (simp add: small_etcd_def small_post_def)

lemma small_codec [simp]: "etcd_parse small_etcd = numbered_parse" "etcd_dump small_etcd = numbered_dump"
  by (simp_all add: small_etcd_def)

definition empty_etcd :: etcd_state where
  "empty_etcd = \<lparr>es_revision = 0, es_map = Map.empty\<rparr>"

section \<open>Revisions\<close>

text \<open>Other clients write entries with fresh revisions and delete; so a key with an unchanged
  revision has an unchanged entry, which is what a compare-and-swap rests on.\<close>

definition state_wf :: "etcd_state \<Rightarrow> bool" where
  "state_wf s \<longleftrightarrow> (\<forall>key e. es_map s key = Some e \<longrightarrow> en_revision e \<le> es_revision s)"

definition evolves :: "etcd_state \<Rightarrow> etcd_state \<Rightarrow> bool" where
  "evolves s s' \<longleftrightarrow>
     es_revision s \<le> es_revision s' \<and> (state_wf s \<longrightarrow> state_wf s') \<and>
     (\<forall>key e. es_map s' key = Some e \<longrightarrow> es_map s key = Some e \<or> es_revision s < en_revision e)"

lemma evolves_refl [simp]: "evolves s s"
  by (simp add: evolves_def)

lemma evolves_trans: "evolves s s' \<Longrightarrow> evolves s' s'' \<Longrightarrow> evolves s s''"
  unfolding evolves_def by (meson le_less_trans order_trans)

lemma evolves_wf: "evolves s s' \<Longrightarrow> state_wf s \<Longrightarrow> state_wf s'"
  by (simp add: evolves_def)

lemma same_revision:
  assumes "evolves s s'" "state_wf s" "es_map s key = Some e" "es_map s' key = Some e'" "en_revision e' = en_revision e"
  shows "e' = e"
  using assms unfolding evolves_def state_wf_def by (metis leD option.inject)

lemma show_nat_inj: "show_nat m = show_nat n \<longleftrightarrow> m = n"
  by (metis foldl_show_nat)

lemma decimal_loop_show_nat_eq:
  assumes "decimal_loop limit 0 (show_nat n) = Some m"
  shows "m = n"
proof -
  have "length (show_nat n) = 1 \<or> hd (show_nat n) \<noteq> CHR ''0''"
    using hd_show_nat [of n] show_nat_0 by (cases "n = 0") simp_all
  then have "show_nat m = show_nat n"
    using show_nat_decimal [OF assms] by simp
  then show ?thesis
    by (simp add: show_nat_inj)
qed

end
