(* ===== verification/Admission_Store.thy ===== *)
theory Admission_Store
  imports Queue_Ticketing Etcd_Server "HOL-Library.Sublist"
begin

text \<open>
  The gateway's admission consumption store
  (\<open>game/gateway/src/admission_consumption_store.cpp\<close>): the two-phase consumption of an identity
  (reserve, then commit or release) in memory and in etcd. The keyed \<open>crypto_generichash\<close> is an
  argument: key, output length and input to a digest, or \<open>None\<close> where the call fails. The lock of
  the memory store makes each of its operations one step.
\<close>

section \<open>Data\<close>

datatype stored_state = Stored_reserved | Stored_consumed

record stored_record =
  sr_state :: stored_state
  sr_grant_digest :: string
  sr_owner :: string
  sr_fencing :: u64
  sr_lease_expires_at :: time_point
  sr_consume_until :: time_point

record loaded_record =
  lr_record :: "stored_record option"
  lr_mod_revision :: int
  lr_lease_id :: int

record consumption_options =
  co_key_prefix :: string
  co_reservation_ttl :: int
  co_digest_key :: "u8 list"

record admission_reserve_request =
  arq_identity_jti :: string
  arq_grant_jti :: string
  arq_owner :: string
  arq_now :: time_point
  arq_consume_until :: time_point

record admission_reservation =
  ar_identity_jti :: string
  ar_grant_jti :: string
  ar_owner :: string
  ar_fencing :: u64
  ar_lease_expires_at :: time_point
  ar_consume_until :: time_point

datatype reserve_status = Reserve_reserved | Reserve_in_progress | Reserve_consumed | Reserve_unavailable

record reserve_result =
  rr_status :: reserve_status
  rr_reservation :: "admission_reservation option"

datatype mutation_status = Mutation_applied | Mutation_lost | Mutation_unavailable

type_synonym keyed_hash = "u8 list \<Rightarrow> nat \<Rightarrow> u8 list \<Rightarrow> u8 list option"

section \<open>Checks\<close>

definition valid_lower_hex :: "string \<Rightarrow> nat \<Rightarrow> bool" where
  "valid_lower_hex s n \<longleftrightarrow> length s = n \<and> list_all lower_hex s"

definition valid_owner :: "string \<Rightarrow> bool" where
  "valid_owner s \<longleftrightarrow>
     s \<noteq> [] \<and> length s \<le> 128 \<and> list_all (\<lambda>c. 33 \<le> (of_char c :: nat) \<and> (of_char c :: nat) \<le> 126) s"

definition normalized :: "time_point \<Rightarrow> time_point" where
  "normalized t = seconds (epoch_seconds t)"

definition valid_time :: "time_point \<Rightarrow> bool" where
  "valid_time t \<longleftrightarrow> 0 \<le> epoch_seconds (normalized t)"

definition validate_request :: "admission_reserve_request \<Rightarrow> error + unit" where
  "validate_request r =
     (if \<not> valid_lower_hex (arq_identity_jti r) 32 \<or> \<not> valid_lower_hex (arq_grant_jti r) 32 \<or>
         \<not> valid_owner (arq_owner r) \<or> \<not> valid_time (arq_now r) \<or> \<not> valid_time (arq_consume_until r) \<or>
         normalized (arq_consume_until r) < normalized (arq_now r)
      then Inl (Invalid_argument ''invalid admission reservation request'')
      else Inr ())"

definition validate_reservation :: "admission_reservation \<Rightarrow> error + unit" where
  "validate_reservation r =
     (if \<not> valid_lower_hex (ar_identity_jti r) 32 \<or> \<not> valid_lower_hex (ar_grant_jti r) 32 \<or>
         \<not> valid_owner (ar_owner r) \<or> ar_fencing r = 0 \<or> \<not> valid_time (ar_lease_expires_at r) \<or>
         \<not> valid_time (ar_consume_until r)
      then Inl (Invalid_argument ''invalid admission reservation'')
      else Inr ())"

definition stable_digest :: "sodium \<Rightarrow> keyed_hash \<Rightarrow> string \<Rightarrow> u8 list \<Rightarrow> error + string" where
  "stable_digest na hash text_value key =
     (if \<not> init_ok na then Inl sodium_failure
      else case hash key 32 (as_bytes text_value) of
             None \<Rightarrow> Inl (Runtime_error ''failed to derive admission identifier digest'')
           | Some digest \<Rightarrow> Inr (digest_hex digest))"

definition reservation_from :: "admission_reserve_request \<Rightarrow> stored_record \<Rightarrow> admission_reservation" where
  "reservation_from request r =
     \<lparr>ar_identity_jti = arq_identity_jti request, ar_grant_jti = arq_grant_jti request,
      ar_owner = arq_owner request, ar_fencing = sr_fencing r,
      ar_lease_expires_at = sr_lease_expires_at r, ar_consume_until = sr_consume_until r\<rparr>"

definition reservation_matches :: "stored_record \<Rightarrow> admission_reservation \<Rightarrow> string \<Rightarrow> bool" where
  "reservation_matches r reservation grant_digest \<longleftrightarrow>
     sr_fencing r = ar_fencing reservation \<and> sr_owner r = ar_owner reservation \<and>
     sr_grant_digest r = grant_digest"

definition key_prefix_char :: "char \<Rightarrow> bool" where
  "key_prefix_char c \<longleftrightarrow>
     (let v = of_char c :: nat
      in 97 \<le> v \<and> v \<le> 122 \<or> 65 \<le> v \<and> v \<le> 90 \<or> 48 \<le> v \<and> v \<le> 57 \<or>
         c = CHR ''/'' \<or> c = CHR ''-'' \<or> c = CHR ''_'' \<or> c = CHR ''.'')"

definition options_validate :: "consumption_options \<Rightarrow> error + unit" where
  "options_validate opts =
     (let p = co_key_prefix opts
      in if p = [] \<or> hd p \<noteq> CHR ''/'' \<or> last p = CHR ''/'' \<or> 256 < length p \<or>
            sublist ''//'' p \<or> \<not> list_all key_prefix_char p
         then Inl (Invalid_argument ''invalid admission consumption key prefix'')
         else if co_reservation_ttl opts \<le> 0 \<or> 300 < co_reservation_ttl opts
         then Inl (Invalid_argument ''invalid admission reservation ttl'')
         else if list_all (\<lambda>b. b = 0) (co_digest_key opts)
         then Inl (Invalid_argument ''admission consumption digest key must not be all zero'')
         else Inr ())"

section \<open>The store in memory\<close>

record memory_store =
  ms_options :: consumption_options
  ms_records :: "string \<rightharpoonup> stored_record"
  ms_available :: bool

definition new_memory_store :: "consumption_options \<Rightarrow> error + memory_store" where
  "new_memory_store opts =
     (case options_validate opts of
        Inl e \<Rightarrow> Inl e
      | Inr _ \<Rightarrow> Inr \<lparr>ms_options = opts, ms_records = Map.empty, ms_available = True\<rparr>)"

definition refused :: "reserve_status \<Rightarrow> reserve_result" where
  "refused st = \<lparr>rr_status = st, rr_reservation = None\<rparr>"

definition reserved :: "admission_reserve_request \<Rightarrow> stored_record \<Rightarrow> reserve_result" where
  "reserved request r = \<lparr>rr_status = Reserve_reserved, rr_reservation = Some (reservation_from request r)\<rparr>"

definition memory_reserve ::
  "sodium \<Rightarrow> keyed_hash \<Rightarrow> admission_reserve_request \<Rightarrow> memory_store \<Rightarrow>
     (error + reserve_result) \<times> memory_store" where
  "memory_reserve na hash request m =
     (case validate_request request of
        Inl e \<Rightarrow> (Inl e, m)
      | Inr _ \<Rightarrow>
          if \<not> ms_available m then (Inr (refused Reserve_unavailable), m)
          else case stable_digest na hash (arq_identity_jti request) (co_digest_key (ms_options m)) of
                 Inl e \<Rightarrow> (Inl e, m)
               | Inr identity \<Rightarrow>
                   (case stable_digest na hash (arq_grant_jti request) (co_digest_key (ms_options m)) of
                      Inl e \<Rightarrow> (Inl e, m)
                    | Inr grant \<Rightarrow>
                        (let now = normalized (arq_now request);
                             consume_until = normalized (arq_consume_until request);
                             lease_expires_at = now + seconds (co_reservation_ttl (ms_options m))
                         in case ms_records m identity of
                              Some r \<Rightarrow>
                                if sr_state r = Stored_consumed \<and> now \<le> sr_consume_until r
                                then (Inr (refused Reserve_consumed), m)
                                else if sr_state r = Stored_reserved \<and> now < sr_lease_expires_at r
                                then if sr_owner r = arq_owner request \<and> sr_grant_digest r = grant
                                     then (Inr (reserved request r), m)
                                     else (Inr (refused Reserve_in_progress), m)
                                else if sr_fencing r = - 1
                                then (Inr (refused Reserve_unavailable), m\<lparr>ms_available := False\<rparr>)
                                else let r' = r\<lparr>sr_fencing := sr_fencing r + 1, sr_state := Stored_reserved,
                                                sr_grant_digest := grant, sr_owner := arq_owner request,
                                                sr_lease_expires_at := lease_expires_at,
                                                sr_consume_until := consume_until\<rparr>
                                     in (Inr (reserved request r'),
                                         m\<lparr>ms_records := (ms_records m)(identity \<mapsto> r')\<rparr>)
                            | None \<Rightarrow>
                                let r = \<lparr>sr_state = Stored_reserved, sr_grant_digest = grant,
                                         sr_owner = arq_owner request, sr_fencing = 1,
                                         sr_lease_expires_at = lease_expires_at,
                                         sr_consume_until = consume_until\<rparr>
                                in (Inr (reserved request r),
                                    m\<lparr>ms_records := (ms_records m)(identity \<mapsto> r)\<rparr>))))"

definition memory_commit ::
  "sodium \<Rightarrow> keyed_hash \<Rightarrow> admission_reservation \<Rightarrow> time_point \<Rightarrow> memory_store \<Rightarrow>
     (error + mutation_status) \<times> memory_store" where
  "memory_commit na hash reservation now m =
     (case validate_reservation reservation of
        Inl e \<Rightarrow> (Inl e, m)
      | Inr _ \<Rightarrow>
          if \<not> valid_time now then (Inl (Invalid_argument ''invalid commit time''), m)
          else if \<not> ms_available m then (Inr Mutation_unavailable, m)
          else case stable_digest na hash (ar_identity_jti reservation) (co_digest_key (ms_options m)) of
                 Inl e \<Rightarrow> (Inl e, m)
               | Inr identity \<Rightarrow>
                   (case stable_digest na hash (ar_grant_jti reservation) (co_digest_key (ms_options m)) of
                      Inl e \<Rightarrow> (Inl e, m)
                    | Inr grant \<Rightarrow>
                        (case ms_records m identity of
                           None \<Rightarrow> (Inr Mutation_lost, m)
                         | Some r \<Rightarrow>
                             if sr_state r = Stored_consumed
                             then (Inr (if sr_fencing r = ar_fencing reservation \<and> sr_grant_digest r = grant
                                        then Mutation_applied else Mutation_lost), m)
                             else if \<not> reservation_matches r reservation grant \<or>
                                     sr_lease_expires_at r \<le> normalized now \<or>
                                     sr_consume_until r < normalized now
                             then (Inr Mutation_lost, m)
                             else (Inr Mutation_applied,
                                   m\<lparr>ms_records := (ms_records m)(identity \<mapsto>
                                       r\<lparr>sr_state := Stored_consumed,
                                         sr_consume_until := normalized (ar_consume_until reservation)\<rparr>)\<rparr>))))"

definition memory_release ::
  "sodium \<Rightarrow> keyed_hash \<Rightarrow> admission_reservation \<Rightarrow> time_point \<Rightarrow> memory_store \<Rightarrow>
     (error + mutation_status) \<times> memory_store" where
  "memory_release na hash reservation now m =
     (case validate_reservation reservation of
        Inl e \<Rightarrow> (Inl e, m)
      | Inr _ \<Rightarrow>
          if \<not> valid_time now then (Inl (Invalid_argument ''invalid release time''), m)
          else if \<not> ms_available m then (Inr Mutation_unavailable, m)
          else case stable_digest na hash (ar_identity_jti reservation) (co_digest_key (ms_options m)) of
                 Inl e \<Rightarrow> (Inl e, m)
               | Inr identity \<Rightarrow>
                   (case stable_digest na hash (ar_grant_jti reservation) (co_digest_key (ms_options m)) of
                      Inl e \<Rightarrow> (Inl e, m)
                    | Inr grant \<Rightarrow>
                        (case ms_records m identity of
                           None \<Rightarrow> (Inr Mutation_lost, m)
                         | Some r \<Rightarrow>
                             if sr_state r \<noteq> Stored_reserved \<or> \<not> reservation_matches r reservation grant
                             then (Inr Mutation_lost, m)
                             else (Inr Mutation_applied,
                                   m\<lparr>ms_records := (ms_records m)(identity \<mapsto>
                                       r\<lparr>sr_lease_expires_at := normalized now\<rparr>)\<rparr>))))"

section \<open>Records in etcd\<close>

definition unsigned_integer :: "json \<Rightarrow> string \<Rightarrow> u64 option" where
  "unsigned_integer j key =
     (case json_find j key of
        Some (J_unsigned n) \<Rightarrow> Some n
      | Some (J_string digits) \<Rightarrow>
          (if digits = [] then None else map_option word_of_nat (decimal_loop (2 ^ 64 - 1) 0 digits))
      | _ \<Rightarrow> None)"

definition nonnegative_integer :: "json \<Rightarrow> string \<Rightarrow> int option" where
  "nonnegative_integer j key =
     (case unsigned_integer j key of
        None \<Rightarrow> None
      | Some n \<Rightarrow> if 2 ^ 63 - 1 < uint n then None else Some (uint n))"

definition retention_ttl :: "time_point \<Rightarrow> time_point \<Rightarrow> int option" where
  "retention_ttl now consume_until =
     (let n = epoch_seconds (normalized consume_until - normalized now)
      in if n < 0 \<or> n = 2 ^ 63 - 1 then None else Some (n + 1))"

definition encode_record :: "stored_record \<Rightarrow> json" where
  "encode_record r = J_object
     [(''state'', J_string (if sr_state r = Stored_reserved then ''reserved'' else ''consumed'')),
      (''grant'', J_string (sr_grant_digest r)), (''owner'', J_string (sr_owner r)),
      (''fencing'', J_unsigned (sr_fencing r)),
      (''lease_expires_at'', J_integer (epoch_seconds (sr_lease_expires_at r))),
      (''consume_until'', J_integer (epoch_seconds (sr_consume_until r)))]"

definition parse_state :: "string \<Rightarrow> stored_state option" where
  "parse_state s =
     (if s = ''reserved'' then Some Stored_reserved
      else if s = ''consumed'' then Some Stored_consumed else None)"

definition decode_record :: "json_parser \<Rightarrow> string \<Rightarrow> stored_record option" where
  "decode_record parse encoded =
     (case parse encoded of
        None \<Rightarrow> None
      | Some j \<Rightarrow>
          if \<not> is_object j \<or> json_size j \<noteq> 6 then None
          else case (json_find j ''state'', json_find j ''grant'', json_find j ''owner'',
                     unsigned_integer j ''fencing'', nonnegative_integer j ''lease_expires_at'',
                     nonnegative_integer j ''consume_until'') of
                 (Some (J_string state), Some (J_string grant), Some (J_string owner), Some fencing,
                  Some lease, Some consume_until) \<Rightarrow>
                   if fencing = 0 then None
                   else (case parse_state state of
                           None \<Rightarrow> None
                         | Some parsed_state \<Rightarrow>
                             if \<not> valid_lower_hex grant 64 \<or> \<not> valid_owner owner then None
                             else Some \<lparr>sr_state = parsed_state, sr_grant_digest = grant, sr_owner = owner,
                                    sr_fencing = fencing, sr_lease_expires_at = seconds lease,
                                    sr_consume_until = seconds consume_until\<rparr>)
               | _ \<Rightarrow> None)"

section \<open>The store in etcd\<close>

record etcd_store =
  es_options :: consumption_options
  es_available :: bool

definition new_etcd_store :: "consumption_options \<Rightarrow> error + etcd_store" where
  "new_etcd_store opts =
     (case options_validate opts of Inl e \<Rightarrow> Inl e | Inr _ \<Rightarrow> Inr \<lparr>es_options = opts, es_available = True\<rparr>)"

definition probe :: "'w etcd \<Rightarrow> etcd_store \<Rightarrow> 'w \<Rightarrow> bool \<times> etcd_store \<times> 'w" where
  "probe env store w =
     (case etcd_post env ''/v3/kv/range''
             (etcd_dump env (J_object
                [(''key'', J_string (base64_encode (co_key_prefix (es_options store)))),
                 (''limit'', J_string ''1'')])) w of
        (answer, w1) \<Rightarrow>
          (let ok = (case Option.bind answer (etcd_parse env) of
                       None \<Rightarrow> False
                     | Some response \<Rightarrow> is_object response \<and> json_find response ''error'' = None)
           in (ok, store\<lparr>es_available := ok\<rparr>, w1)))"

definition load_entry :: "json_parser \<Rightarrow> string \<Rightarrow> json \<Rightarrow> loaded_record option" where
  "load_entry parse key entry =
     (case (string_member entry ''key'', string_member entry ''value'') of
        (Inr key_text, Inr value_text) \<Rightarrow>
          (case (base64_decode_strict key_text, base64_decode_strict value_text,
                 nonnegative_integer entry ''mod_revision'', nonnegative_integer entry ''lease'') of
             (Some returned_key, Some v, Some revision, Some lease) \<Rightarrow>
               if returned_key \<noteq> key \<or> revision = 0 \<or> lease = 0 then None
               else map_option
                      (\<lambda>r. \<lparr>lr_record = Some r, lr_mod_revision = revision, lr_lease_id = lease\<rparr>)
                      (decode_record parse v)
           | _ \<Rightarrow> None)
      | _ \<Rightarrow> None)"

definition load_record :: "'w etcd \<Rightarrow> string \<Rightarrow> 'w \<Rightarrow> loaded_record option \<times> 'w" where
  "load_record env key w =
     (case etcd_post env ''/v3/kv/range'' (etcd_dump env (range_json key)) w of
        (answer, w1) \<Rightarrow>
          (case Option.bind answer (etcd_parse env) of
             None \<Rightarrow> None
           | Some response \<Rightarrow>
               (case json_find response ''kvs'' of
                  None \<Rightarrow> Some \<lparr>lr_record = None, lr_mod_revision = 0, lr_lease_id = 0\<rparr>
                | Some (J_array [entry]) \<Rightarrow> load_entry (etcd_parse env) key entry
                | Some _ \<Rightarrow> None), w1))"

definition cas_transaction :: "string \<Rightarrow> loaded_record \<Rightarrow> string \<Rightarrow> int \<Rightarrow> json" where
  "cas_transaction key loaded encoded lease_id = J_object
     [(''compare'', J_array [J_object
        ([(''key'', J_string (base64_encode key))] @
         (if lr_record loaded \<noteq> None
          then [(''target'', J_string ''MOD''), (''result'', J_string ''EQUAL''),
                (''mod_revision'', J_integer (lr_mod_revision loaded))]
          else [(''target'', J_string ''VERSION''), (''result'', J_string ''EQUAL''),
                (''version'', J_integer 0)]))]),
      (''success'', J_array [J_object [(''requestPut'', J_object
        [(''key'', J_string (base64_encode key)), (''value'', J_string (base64_encode encoded)),
         (''lease'', J_string (show_int lease_id))])]])]"

definition compare_and_put ::
  "'w etcd \<Rightarrow> string \<Rightarrow> loaded_record \<Rightarrow> stored_record \<Rightarrow> int \<Rightarrow> 'w \<Rightarrow> bool option \<times> 'w" where
  "compare_and_put env key loaded replacement lease_id w =
     (case etcd_post env ''/v3/kv/txn''
             (etcd_dump env (cas_transaction key loaded (etcd_dump env (encode_record replacement)) lease_id)) w of
        (answer, w1) \<Rightarrow>
          (case Option.bind answer (etcd_parse env) of
             None \<Rightarrow> None
           | Some response \<Rightarrow>
               (case json_find response ''succeeded'' of
                  Some (J_bool succeeded) \<Rightarrow> Some succeeded
                | _ \<Rightarrow> None), w1))"

definition grant_lease :: "'w etcd \<Rightarrow> int \<Rightarrow> 'w \<Rightarrow> int option \<times> 'w" where
  "grant_lease env ttl w =
     (case etcd_post env ''/v3/lease/grant''
             (etcd_dump env (J_object [(''TTL'', J_string (show_int ttl))])) w of
        (answer, w1) \<Rightarrow>
          (case Option.bind answer (etcd_parse env) of
             None \<Rightarrow> None
           | Some response \<Rightarrow>
               (case nonnegative_integer response ''ID'' of
                  None \<Rightarrow> None
                | Some lease_id \<Rightarrow> if lease_id = 0 then None else Some lease_id), w1))"

definition max_cas_attempts :: nat where
  "max_cas_attempts = 8"

text \<open>What a reservation does with the record it loaded: an answer, or the fencing of the
  replacement.\<close>

definition reserve_decision ::
  "admission_reserve_request \<Rightarrow> string \<Rightarrow> stored_record option \<Rightarrow> reserve_result + u64" where
  "reserve_decision request grant loaded =
     (let now = normalized (arq_now request)
      in case loaded of
           None \<Rightarrow> Inr 1
         | Some r \<Rightarrow>
             if sr_state r = Stored_consumed \<and> now \<le> sr_consume_until r
             then Inl (refused Reserve_consumed)
             else if sr_state r = Stored_reserved \<and> now < sr_lease_expires_at r
             then if sr_owner r = arq_owner request \<and> sr_grant_digest r = grant
                  then Inl (reserved request r) else Inl (refused Reserve_in_progress)
             else if sr_fencing r = - 1 then Inl (refused Reserve_unavailable)
             else Inr (sr_fencing r + 1))"

definition replacement_record ::
  "consumption_options \<Rightarrow> admission_reserve_request \<Rightarrow> string \<Rightarrow> u64 \<Rightarrow> stored_record" where
  "replacement_record opts request grant fencing =
     \<lparr>sr_state = Stored_reserved, sr_grant_digest = grant, sr_owner = arq_owner request,
      sr_fencing = fencing,
      sr_lease_expires_at = normalized (arq_now request) + seconds (co_reservation_ttl opts),
      sr_consume_until = normalized (arq_consume_until request)\<rparr>"

definition replacement_lease ::
  "'w etcd \<Rightarrow> admission_reserve_request \<Rightarrow> int option \<Rightarrow> 'w \<Rightarrow> int option \<times> 'w" where
  "replacement_lease env request lease w =
     (case lease of
        Some l \<Rightarrow> (Some l, w)
      | None \<Rightarrow>
          (case retention_ttl (normalized (arq_now request)) (arq_consume_until request) of
             None \<Rightarrow> (None, w)
           | Some ttl \<Rightarrow> grant_lease env ttl w))"

text \<open>The attempts of the compare-and-swap loop; every way out records whether etcd was
  available.\<close>

fun reserve_attempts ::
  "'w etcd \<Rightarrow> consumption_options \<Rightarrow> admission_reserve_request \<Rightarrow> string \<Rightarrow> string \<Rightarrow> nat \<Rightarrow>
     int option \<Rightarrow> 'w \<Rightarrow> reserve_result \<times> bool \<times> 'w" where
  "reserve_attempts env opts request key grant 0 lease w = (refused Reserve_unavailable, False, w)"
| "reserve_attempts env opts request key grant (Suc attempts) lease w =
     (case load_record env key w of
        (None, w1) \<Rightarrow> (refused Reserve_unavailable, False, w1)
      | (Some loaded, w1) \<Rightarrow>
          (case reserve_decision request grant (lr_record loaded) of
             Inl result \<Rightarrow> (result, rr_status result \<noteq> Reserve_unavailable, w1)
           | Inr fencing \<Rightarrow>
               (case replacement_lease env request lease w1 of
                  (None, w2) \<Rightarrow> (refused Reserve_unavailable, False, w2)
                | (Some lease_id, w2) \<Rightarrow>
                    (let replacement = replacement_record opts request grant fencing
                     in case compare_and_put env key loaded replacement lease_id w2 of
                          (None, w3) \<Rightarrow> (refused Reserve_unavailable, False, w3)
                        | (Some False, w3) \<Rightarrow>
                            reserve_attempts env opts request key grant attempts (Some lease_id) w3
                        | (Some True, w3) \<Rightarrow> (reserved request replacement, True, w3)))))"

definition etcd_reserve ::
  "'w etcd \<Rightarrow> sodium \<Rightarrow> keyed_hash \<Rightarrow> admission_reserve_request \<Rightarrow> etcd_store \<Rightarrow> 'w \<Rightarrow>
     (error + reserve_result) \<times> etcd_store \<times> 'w" where
  "etcd_reserve env na hash request store w =
     (case validate_request request of
        Inl e \<Rightarrow> (Inl e, store, w)
      | Inr _ \<Rightarrow>
          (case stable_digest na hash (arq_identity_jti request) (co_digest_key (es_options store)) of
             Inl e \<Rightarrow> (Inl e, store, w)
           | Inr identity \<Rightarrow>
               (case stable_digest na hash (arq_grant_jti request) (co_digest_key (es_options store)) of
                  Inl e \<Rightarrow> (Inl e, store, w)
                | Inr grant \<Rightarrow>
                    (case reserve_attempts env (es_options store) request
                            (co_key_prefix (es_options store) @ ''/'' @ identity) grant max_cas_attempts None w of
                       (result, available, w1) \<Rightarrow> (Inr result, store\<lparr>es_available := available\<rparr>, w1)))))"

text \<open>A commit or release: an answer, or the replacement to write.\<close>

definition mutate_decision ::
  "admission_reservation \<Rightarrow> string \<Rightarrow> time_point \<Rightarrow> bool \<Rightarrow> stored_record option \<Rightarrow>
     mutation_status + stored_record" where
  "mutate_decision reservation grant now commit loaded =
     (case loaded of
        None \<Rightarrow> Inl Mutation_lost
      | Some r \<Rightarrow>
          if sr_state r = Stored_consumed
          then Inl (if commit \<and> sr_fencing r = ar_fencing reservation \<and> sr_grant_digest r = grant
                    then Mutation_applied else Mutation_lost)
          else if \<not> reservation_matches r reservation grant then Inl Mutation_lost
          else if commit \<and> (sr_lease_expires_at r \<le> normalized now \<or> sr_consume_until r < normalized now)
          then Inl Mutation_lost
          else if commit
          then Inr (r\<lparr>sr_state := Stored_consumed,
                     sr_consume_until := normalized (ar_consume_until reservation)\<rparr>)
          else Inr (r\<lparr>sr_lease_expires_at := normalized now\<rparr>))"

fun mutate_attempts ::
  "'w etcd \<Rightarrow> admission_reservation \<Rightarrow> string \<Rightarrow> string \<Rightarrow> time_point \<Rightarrow> bool \<Rightarrow> nat \<Rightarrow> 'w \<Rightarrow>
     mutation_status \<times> bool \<times> 'w" where
  "mutate_attempts env reservation key grant now commit 0 w = (Mutation_unavailable, False, w)"
| "mutate_attempts env reservation key grant now commit (Suc attempts) w =
     (case load_record env key w of
        (None, w1) \<Rightarrow> (Mutation_unavailable, False, w1)
      | (Some loaded, w1) \<Rightarrow>
          (case mutate_decision reservation grant now commit (lr_record loaded) of
             Inl result \<Rightarrow> (result, True, w1)
           | Inr replacement \<Rightarrow>
               (case compare_and_put env key loaded replacement (lr_lease_id loaded) w1 of
                  (None, w2) \<Rightarrow> (Mutation_unavailable, False, w2)
                | (Some False, w2) \<Rightarrow> mutate_attempts env reservation key grant now commit attempts w2
                | (Some True, w2) \<Rightarrow> (Mutation_applied, True, w2))))"

definition etcd_mutate ::
  "'w etcd \<Rightarrow> sodium \<Rightarrow> keyed_hash \<Rightarrow> admission_reservation \<Rightarrow> time_point \<Rightarrow> bool \<Rightarrow> etcd_store \<Rightarrow> 'w \<Rightarrow>
     (error + mutation_status) \<times> etcd_store \<times> 'w" where
  "etcd_mutate env na hash reservation now commit store w =
     (case validate_reservation reservation of
        Inl e \<Rightarrow> (Inl e, store, w)
      | Inr _ \<Rightarrow>
          if \<not> valid_time now then (Inl (Invalid_argument ''invalid admission mutation time''), store, w)
          else case stable_digest na hash (ar_identity_jti reservation) (co_digest_key (es_options store)) of
                 Inl e \<Rightarrow> (Inl e, store, w)
               | Inr identity \<Rightarrow>
                   (case stable_digest na hash (ar_grant_jti reservation) (co_digest_key (es_options store)) of
                      Inl e \<Rightarrow> (Inl e, store, w)
                    | Inr grant \<Rightarrow>
                        (case mutate_attempts env reservation
                                (co_key_prefix (es_options store) @ ''/'' @ identity) grant now commit
                                max_cas_attempts w of
                           (result, available, w1) \<Rightarrow>
                             (Inr result, store\<lparr>es_available := available\<rparr>, w1))))"

definition etcd_commit ::
  "'w etcd \<Rightarrow> sodium \<Rightarrow> keyed_hash \<Rightarrow> admission_reservation \<Rightarrow> time_point \<Rightarrow> etcd_store \<Rightarrow> 'w \<Rightarrow>
     (error + mutation_status) \<times> etcd_store \<times> 'w" where
  "etcd_commit env na hash reservation now = etcd_mutate env na hash reservation now True"

definition etcd_release ::
  "'w etcd \<Rightarrow> sodium \<Rightarrow> keyed_hash \<Rightarrow> admission_reservation \<Rightarrow> time_point \<Rightarrow> etcd_store \<Rightarrow> 'w \<Rightarrow>
     (error + mutation_status) \<times> etcd_store \<times> 'w" where
  "etcd_release env na hash reservation now = etcd_mutate env na hash reservation now False"

section \<open>The memory store by decision\<close>

lemma replaced_record:
  "r\<lparr>sr_fencing := f, sr_state := st, sr_grant_digest := g, sr_owner := owner, sr_lease_expires_at := l,
     sr_consume_until := c\<rparr> =
   \<lparr>sr_state = st, sr_grant_digest = g, sr_owner = owner, sr_fencing = f, sr_lease_expires_at = l,
     sr_consume_until = c\<rparr>"
  by (cases r) simp

lemma memory_reserve_decision:
  assumes "validate_request request = Inr ()" "ms_available m"
    and "stable_digest na hash (arq_identity_jti request) (co_digest_key (ms_options m)) = Inr identity"
    and "stable_digest na hash (arq_grant_jti request) (co_digest_key (ms_options m)) = Inr grant"
  shows "memory_reserve na hash request m =
    (case reserve_decision request grant (ms_records m identity) of
       Inl result \<Rightarrow> (Inr result, if rr_status result = Reserve_unavailable then m\<lparr>ms_available := False\<rparr> else m)
     | Inr fencing \<Rightarrow>
         let r = replacement_record (ms_options m) request grant fencing
         in (Inr (reserved request r), m\<lparr>ms_records := (ms_records m)(identity \<mapsto> r)\<rparr>))"
  using assms
  by (simp add: memory_reserve_def reserve_decision_def replacement_record_def replaced_record refused_def
      reserved_def Let_def split: option.split)

lemma memory_commit_decision:
  assumes "validate_reservation reservation = Inr ()" "valid_time now" "ms_available m"
    and "stable_digest na hash (ar_identity_jti reservation) (co_digest_key (ms_options m)) = Inr identity"
    and "stable_digest na hash (ar_grant_jti reservation) (co_digest_key (ms_options m)) = Inr grant"
  shows "memory_commit na hash reservation now m =
    (case mutate_decision reservation grant now True (ms_records m identity) of
       Inl result \<Rightarrow> (Inr result, m)
     | Inr r \<Rightarrow> (Inr Mutation_applied, m\<lparr>ms_records := (ms_records m)(identity \<mapsto> r)\<rparr>))"
  using assms by (auto simp: memory_commit_def mutate_decision_def split: option.splits)

lemma memory_release_decision:
  assumes "validate_reservation reservation = Inr ()" "valid_time now" "ms_available m"
    and "stable_digest na hash (ar_identity_jti reservation) (co_digest_key (ms_options m)) = Inr identity"
    and "stable_digest na hash (ar_grant_jti reservation) (co_digest_key (ms_options m)) = Inr grant"
  shows "memory_release na hash reservation now m =
    (case mutate_decision reservation grant now False (ms_records m identity) of
       Inl result \<Rightarrow> (Inr result, m)
     | Inr r \<Rightarrow> (Inr Mutation_applied, m\<lparr>ms_records := (ms_records m)(identity \<mapsto> r)\<rparr>))"
  using assms stored_state.exhaust
  by (auto simp: memory_release_def mutate_decision_def split: option.splits)

section \<open>Records survive etcd\<close>

definition stored_second :: "time_point \<Rightarrow> bool" where
  "stored_second t \<longleftrightarrow> (\<exists>n. t = seconds n \<and> 0 \<le> n \<and> n < 2 ^ 63)"

definition record_ok :: "stored_record \<Rightarrow> bool" where
  "record_ok r \<longleftrightarrow>
     valid_lower_hex (sr_grant_digest r) 64 \<and> valid_owner (sr_owner r) \<and> sr_fencing r \<noteq> 0 \<and>
     stored_second (sr_lease_expires_at r) \<and> stored_second (sr_consume_until r)"

lemma lower_hex_ascii: "list_all lower_hex s \<Longrightarrow> ascii s"
  by (auto simp: ascii_def list_all_iff lower_hex_def is_digit_def)

lemma owner_ascii: "valid_owner s \<Longrightarrow> ascii s"
  by (auto simp: ascii_def valid_owner_def list_all_iff)

lemma encode_record_plain: "record_ok r \<Longrightarrow> json_plain (encode_record r)"
  by (auto simp: encode_record_def record_ok_def stored_second_def valid_lower_hex_def owner_ascii lower_hex_ascii)
    (auto simp: ascii_def)

lemma nonnegative_reread:
  "0 \<le> n \<Longrightarrow> n < 2 ^ 63 \<Longrightarrow> json_find j key = Some (J_unsigned (word_of_int n)) \<Longrightarrow>
     nonnegative_integer j key = Some n"
  by (simp add: nonnegative_integer_def unsigned_integer_def uint_word_of_int_eq take_bit_int_eq_self)

lemma decode_encode_record:
  assumes "json_library parse dump" "record_ok r"
  shows "decode_record parse (dump (encode_record r)) = Some r"
proof -
  obtain l c where times: "sr_lease_expires_at r = seconds l" "0 \<le> l" "l < 2 ^ 63"
    "sr_consume_until r = seconds c" "0 \<le> c" "c < 2 ^ 63"
    using assms(2) by (auto simp: record_ok_def stored_second_def)
  let ?j = "reread (encode_record r)"
  have "parse (dump (encode_record r)) = Some ?j"
    using assms encode_record_plain by (simp add: json_library_def)
  moreover have "nonnegative_integer ?j ''lease_expires_at'' = Some l" "nonnegative_integer ?j ''consume_until'' = Some c"
    using times by (intro nonnegative_reread; simp add: encode_record_def)+
  moreover have "unsigned_integer ?j ''fencing'' = Some (sr_fencing r)"
    by (simp add: unsigned_integer_def encode_record_def)
  moreover have "parse_state (if sr_state r = Stored_reserved then ''reserved'' else ''consumed'') = Some (sr_state r)"
    by (cases "sr_state r") (simp_all add: parse_state_def)
  ultimately show ?thesis
    using assms(2) times by (simp add: decode_record_def record_ok_def encode_record_def)
qed

lemma decode_record_ok:
  assumes "decode_record parse v = Some r"
  shows "record_ok r"
proof -
  have bound: "nonnegative_integer j key = Some n \<Longrightarrow> stored_second (seconds n)" for j key n
    by (fastforce simp: nonnegative_integer_def stored_second_def split: option.splits if_splits)
  show ?thesis
    using assms
    by (auto simp: decode_record_def record_ok_def bound split: option.splits if_splits json.splits)
qed

section \<open>What a load sees\<close>

definition record_at :: "json_parser \<Rightarrow> etcd_state \<Rightarrow> string \<Rightarrow> stored_record option" where
  "record_at parse s key = Option.bind (es_map s key) (\<lambda>e. decode_record parse (en_value e))"

lemma nonnegative_show:
  assumes "nonnegative_integer j key = Some i" "json_find j key = Some (J_string (show_nat n))"
  shows "i = int n \<and> n < 2 ^ 63"
proof -
  obtain m where m: "decimal_loop (2 ^ 64 - 1) 0 (show_nat n) = Some m"
    "i = uint (word_of_nat m :: u64)" "uint (word_of_nat m :: u64) \<le> 2 ^ 63 - 1"
    using assms by (auto simp: nonnegative_integer_def unsigned_integer_def split: option.splits if_splits)
  have "m = n"
    using decimal_loop_show_nat_eq m(1) .
  moreover have "m \<le> 2 ^ 64 - 1"
    by (rule decimal_loop_bound [OF _ _ m(1)]) simp_all
  then have "uint (word_of_nat m :: u64) = int m"
    by (simp add: unsigned_of_nat take_bit_nat_eq_self uint_word_of_int_eq take_bit_int_eq_self flip: of_nat_less_iff)
  ultimately show ?thesis
    using m(2,3) by simp
qed

definition loaded_at :: "json_parser \<Rightarrow> etcd_state \<Rightarrow> string \<Rightarrow> loaded_record \<Rightarrow> bool" where
  "loaded_at parse s key loaded \<longleftrightarrow>
     lr_record loaded = record_at parse s key \<and>
     (case es_map s key of
        None \<Rightarrow> lr_record loaded = None
      | Some e \<Rightarrow> lr_record loaded \<noteq> None \<and> lr_mod_revision loaded = int (en_revision e) \<and>
          0 < en_revision e \<and> en_revision e < 2 ^ 63 \<and> 0 < lr_lease_id loaded)"

lemma load_entry_reports:
  assumes "load_entry parse key entry = Some loaded" "entry_reports entry key e"
  shows "lr_record loaded = decode_record parse (en_value e) \<and> lr_record loaded \<noteq> None \<and>
    lr_mod_revision loaded = int (en_revision e) \<and> 0 < en_revision e \<and> en_revision e < 2 ^ 63 \<and>
    0 < lr_lease_id loaded"
proof -
  obtain r revision lease where r: "decode_record parse (en_value e) = Some r"
    "nonnegative_integer entry ''mod_revision'' = Some revision" "nonnegative_integer entry ''lease'' = Some lease"
    "revision \<noteq> 0" "lease \<noteq> 0" "loaded = \<lparr>lr_record = Some r, lr_mod_revision = revision, lr_lease_id = lease\<rparr>"
    using assms by (auto simp: load_entry_def entry_reports_def split: option.splits if_splits)
  have "revision = int (en_revision e)" "en_revision e < 2 ^ 63"
    using nonnegative_show [OF r(2)] assms(2) by (simp_all add: entry_reports_def)
  moreover have "0 \<le> lease"
    using r(3) by (auto simp: nonnegative_integer_def split: option.splits if_splits)
  ultimately show ?thesis
    using r by simp
qed

lemma load_record_sees:
  assumes "etcd_laws env state evolves" "load_record env key w = (loaded, w1)"
  shows "evolves (state w) (state w1) \<and>
    (\<forall>l. loaded = Some l \<longrightarrow> loaded_at (etcd_parse env) (state w1) key l)"
proof -
  obtain answer where post: "etcd_post env ''/v3/kv/range'' (etcd_dump env (range_json key)) w = (answer, w1)"
    using assms(2) by (auto simp: load_record_def split: prod.splits)
  have told: "evolves (state w) (state w1)"
    "\<And>j. Option.bind answer (etcd_parse env) = Some j \<Longrightarrow> range_reports j key (es_map (state w1) key)"
    using assms(1) post unfolding etcd_laws_def etcd_answers_range_def by blast+
  have "loaded_at (etcd_parse env) (state w1) key l" if l: "loaded = Some l" for l
  proof -
    obtain j where j: "Option.bind answer (etcd_parse env) = Some j"
      using assms(2) post l by (auto simp: load_record_def split: option.splits)
    note reports = told(2) [OF j]
    show ?thesis
    proof (cases "es_map (state w1) key")
      case None
      then have "json_find j ''kvs'' = None"
        using reports by (simp add: range_reports_def)
      then have "lr_record l = None"
        using assms(2) post l j by (auto simp: load_record_def)
      then show ?thesis
        using None by (simp add: loaded_at_def record_at_def)
    next
      case (Some e)
      then obtain entry where entry: "json_find j ''kvs'' = Some (J_array [entry])" "entry_reports entry key e"
        using reports by (auto simp: range_reports_def)
      then have "load_entry (etcd_parse env) key entry = Some l"
        using assms(2) post l j by (auto simp: load_record_def)
      from load_entry_reports [OF this entry(2)] show ?thesis
        using Some by (simp add: loaded_at_def record_at_def) metis
    qed
  qed
  then show ?thesis
    using told(1) by blast
qed

section \<open>The compare-and-swap\<close>

definition cas_txn :: "string \<Rightarrow> loaded_record \<Rightarrow> string \<Rightarrow> int \<Rightarrow> etcd_txn" where
  "cas_txn key loaded encoded lease_id =
     \<lparr>tx_compare = [if lr_record loaded = None then Version_zero key
                    else Mod_equal key (nat (lr_mod_revision loaded))],
      tx_success = [Op_put key encoded (nat lease_id)], tx_failure = []\<rparr>"

lemma cas_transaction_json:
  assumes "loaded_at parse s key loaded" "0 < lease_id"
  shows "cas_transaction key loaded encoded lease_id = txn_json (cas_txn key loaded encoded lease_id) \<and>
    json_plain (txn_json (cas_txn key loaded encoded lease_id))"
proof -
  have "0 \<le> lr_mod_revision loaded \<and> lr_mod_revision loaded < 2 ^ 63" if "lr_record loaded \<noteq> None"
    using assms(1) that by (auto simp: loaded_at_def split: option.splits)
  then show ?thesis
    using assms(2) by (auto simp: cas_transaction_def txn_json_def cas_txn_def show_int_def)
      (auto simp: ascii_def)
qed

lemma compare_and_put_applies:
  assumes laws: "etcd_laws env state evolves" and "loaded_at parse s0 key loaded" "0 < lease_id"
    and "compare_and_put env key loaded replacement lease_id w = (written, w')"
  defines "t \<equiv> cas_txn key loaded (etcd_dump env (encode_record replacement)) lease_id"
  shows "\<exists>s. evolves (state w) s \<and> (written = Some True \<longrightarrow> txn_holds t s \<and> state w' = apply_txn t s) \<and>
    (written = Some False \<longrightarrow> state w' = s)"
proof -
  note json = cas_transaction_json [OF assms(2,3), of "etcd_dump env (encode_record replacement)"]
  obtain answer where post: "etcd_post env ''/v3/kv/txn'' (etcd_dump env (txn_json t)) w = (answer, w')"
    using assms(4) json by (auto simp: compare_and_put_def t_def split: prod.splits)
  obtain s where s: "evolves (state w) s"
    "\<And>j. Option.bind answer (etcd_parse env) = Some j \<Longrightarrow> state w' = apply_txn t s \<and> txn_reports t s j"
    using answers_txnD [OF _ _ post, of state evolves] laws json unfolding etcd_laws_def t_def by blast
  have missed: "apply_txn t s = s" if "\<not> txn_holds t s"
    using that by (simp add: apply_txn_def txn_branch_def apply_ops_def t_def cas_txn_def)
  have "(b \<longrightarrow> txn_holds t s \<and> state w' = apply_txn t s) \<and> (\<not> b \<longrightarrow> state w' = s)"
    if b: "written = Some b" for b
  proof -
    obtain j where j: "Option.bind answer (etcd_parse env) = Some j" "json_find j ''succeeded'' = Some (J_bool b)"
      using assms(4) json post b
      by (auto simp: compare_and_put_def t_def split: option.splits json.splits)
    have "txn_holds t s = b" "state w' = apply_txn t s"
      using s(2) [OF j(1)] j(2) by (auto simp: txn_reports_def split: if_splits)
    then show ?thesis
      using missed by auto
  qed
  then show ?thesis
    using s(1) by blast
qed

text \<open>A swap that succeeds swaps the very record that was loaded.\<close>

lemma cas_holds_record:
  assumes "txn_holds (cas_txn key loaded encoded lease_id) s" "loaded_at parse s0 key loaded"
    and "evolves s0 s" "state_wf s0"
  shows "record_at parse s key = lr_record loaded"
proof (cases "es_map s0 key")
  case None
  then have "lr_record loaded = None"
    using assms(2) by (auto simp: loaded_at_def)
  then show ?thesis
    using assms(1) by (simp add: txn_holds_def cas_txn_def record_at_def)
next
  case (Some e)
  then have loaded: "lr_record loaded = record_at parse s0 key" "lr_record loaded \<noteq> None"
    "lr_mod_revision loaded = int (en_revision e)" "0 < en_revision e"
    using assms(2) by (simp_all add: loaded_at_def) metis
  then obtain e' where "es_map s key = Some e'" "en_revision e' = en_revision e"
    using assms(1) by (auto simp: txn_holds_def cas_txn_def split: option.splits)
  then have "es_map s key = es_map s0 key"
    using same_revision [OF assms(3,4) Some] Some by simp
  then show ?thesis
    using loaded(1) by (simp add: record_at_def)
qed

lemma record_at_put:
  assumes "txn_holds (cas_txn key loaded encoded lease_id) s" "decode_record parse encoded = Some r"
  shows "record_at parse (apply_txn (cas_txn key loaded encoded lease_id) s) =
    (record_at parse s)(key \<mapsto> r)"
  using assms by (auto simp: apply_txn_def txn_branch_def apply_ops_def cas_txn_def record_at_def fun_eq_iff)

section \<open>Linearization\<close>

lemma reserve_decision_fencing: "reserve_decision request grant r = Inr f \<Longrightarrow> f \<noteq> 0"
  by (auto simp: reserve_decision_def Let_def eq_neg_iff_add_eq_0 split: option.splits if_splits)

lemma replacement_lease_ok:
  assumes "etcd_laws env state evolves" "\<forall>l. lease = Some l \<longrightarrow> 0 < l"
    and "replacement_lease env request lease w = (got, w')"
  shows "evolves (state w) (state w') \<and> (\<forall>l. got = Some l \<longrightarrow> 0 < l)"
proof -
  have grants: "etcd_post env ''/v3/lease/grant'' body w = (answer, w1) \<Longrightarrow> evolves (state w) (state w1)" for body answer w1
    using assms(1) by (simp add: etcd_laws_def etcd_grants_leases_def)
  have positive: "nonnegative_integer j key = Some l \<Longrightarrow> l \<noteq> 0 \<Longrightarrow> 0 < l" for j key l
    by (auto simp: nonnegative_integer_def order_less_le split: option.splits if_splits)
  show ?thesis
    using assms(2,3)
    by (auto simp: replacement_lease_def grant_lease_def dest: grants positive split: option.splits prod.splits if_splits)
qed

definition reserve_effect ::
  "json_parser \<Rightarrow> consumption_options \<Rightarrow> admission_reserve_request \<Rightarrow> string \<Rightarrow> string \<Rightarrow> reserve_result \<Rightarrow>
     etcd_state \<Rightarrow> etcd_state \<Rightarrow> bool" where
  "reserve_effect parse opts request key grant result s s' \<longleftrightarrow>
     (case reserve_decision request grant (record_at parse s key) of
        Inl decided \<Rightarrow> result = decided \<and> s' = s
      | Inr fencing \<Rightarrow>
          (let r = replacement_record opts request grant fencing
           in result = reserved request r \<and> record_at parse s' = (record_at parse s)(key \<mapsto> r)))"

lemma reserve_attempts_linear:
  assumes laws: "etcd_laws env state evolves"
    and ok: "\<And>f. f \<noteq> 0 \<Longrightarrow> record_ok (replacement_record opts request grant f)"
  shows "state_wf (state w) \<Longrightarrow> \<forall>l. lease = Some l \<longrightarrow> 0 < l \<Longrightarrow>
    reserve_attempts env opts request key grant attempts lease w = (result, available, w') \<Longrightarrow>
    rr_status result \<noteq> Reserve_unavailable \<Longrightarrow>
    \<exists>s. evolves (state w) s \<and> reserve_effect (etcd_parse env) opts request key grant result s (state w')"
proof (induction attempts arbitrary: lease w)
  case 0
  then show ?case by (auto simp: refused_def)
next
  case (Suc attempts)
  obtain got w1 where load: "load_record env key w = (got, w1)"
    by fastforce
  note sees = load_record_sees [OF laws load]
  obtain loaded where loaded: "got = Some loaded"
    using Suc.prems load by (cases got) (auto simp: refused_def)
  have at: "loaded_at (etcd_parse env) (state w1) key loaded" and step1: "evolves (state w) (state w1)"
    using sees loaded by simp_all
  have now: "lr_record loaded = record_at (etcd_parse env) (state w1) key"
    using at by (simp add: loaded_at_def)
  show ?case
  proof (cases "reserve_decision request grant (lr_record loaded)")
    case (Inl decided)
    then have "result = decided \<and> w' = w1"
      using Suc.prems load loaded by simp
    then show ?thesis
      using step1 Inl now by (auto simp: reserve_effect_def)
  next
    case (Inr fencing)
    let ?r = "replacement_record opts request grant fencing"
    have r: "record_ok ?r"
      using ok reserve_decision_fencing [OF Inr] by blast
    obtain granted w2 where lease: "replacement_lease env request lease w1 = (granted, w2)"
      by fastforce
    obtain l where l: "granted = Some l"
      using Suc.prems load loaded Inr lease by (cases granted) (auto simp: refused_def)
    have l_ok: "0 < l" and step2: "evolves (state w1) (state w2)"
      using replacement_lease_ok [OF laws Suc.prems(2) lease] l by simp_all
    obtain written w3 where cas: "compare_and_put env key loaded ?r l w2 = (written, w3)"
      by fastforce
    obtain b where b: "written = Some b"
      using Suc.prems load loaded Inr lease l cas by (cases written) (auto simp: refused_def Let_def)
    let ?t = "cas_txn key loaded (etcd_dump env (encode_record ?r)) l"
    obtain s where s: "evolves (state w2) s" "b \<Longrightarrow> txn_holds ?t s \<and> state w3 = apply_txn ?t s" "\<not> b \<Longrightarrow> state w3 = s"
      using compare_and_put_applies [OF laws at l_ok cas] b by auto
    have step3: "evolves (state w) s"
      using evolves_trans step1 step2 s(1) by blast
    show ?thesis
    proof (cases b)
      case True
      then have result: "result = reserved request ?r" "w' = w3"
        using Suc.prems load loaded Inr lease l cas b by (simp_all add: Let_def)
      have "record_at (etcd_parse env) s key = lr_record loaded"
        using cas_holds_record [OF _ at evolves_trans [OF step2 s(1)] evolves_wf [OF step1 Suc.prems(1)]] s(2) True
        by blast
      moreover have "record_at (etcd_parse env) (state w') = (record_at (etcd_parse env) s)(key \<mapsto> ?r)"
        using record_at_put [of key loaded _ l s] decode_encode_record [OF _ r] laws s(2) [OF True] result(2)
        by (simp add: etcd_laws_def)
      ultimately show ?thesis
        using step3 Inr result(1) by (auto simp: reserve_effect_def Let_def)
    next
      case False
      then have "reserve_attempts env opts request key grant attempts (Some l) w3 = (result, available, w')"
        using Suc.prems load loaded Inr lease l cas b by (simp add: Let_def)
      moreover have "evolves (state w) (state w3)"
        using step3 s(3) False by simp
      ultimately show ?thesis
        using Suc.IH [of w3 "Some l"] Suc.prems(1,4) l_ok evolves_wf evolves_trans by blast
    qed
  qed
qed

lemma record_at_ok: "record_at parse s key = Some r \<Longrightarrow> record_ok r"
  by (auto simp: record_at_def bind_eq_Some_conv dest: decode_record_ok)

definition mutate_effect ::
  "json_parser \<Rightarrow> admission_reservation \<Rightarrow> string \<Rightarrow> string \<Rightarrow> time_point \<Rightarrow> bool \<Rightarrow> mutation_status \<Rightarrow>
     etcd_state \<Rightarrow> etcd_state \<Rightarrow> bool" where
  "mutate_effect parse reservation key grant now commit result s s' \<longleftrightarrow>
     (case mutate_decision reservation grant now commit (record_at parse s key) of
        Inl decided \<Rightarrow> result = decided \<and> s' = s
      | Inr r \<Rightarrow> result = Mutation_applied \<and> record_at parse s' = (record_at parse s)(key \<mapsto> r))"

lemma mutate_attempts_linear:
  assumes laws: "etcd_laws env state evolves"
    and ok: "\<And>r r'. record_ok r \<Longrightarrow> mutate_decision reservation grant now commit (Some r) = Inr r' \<Longrightarrow> record_ok r'"
  shows "state_wf (state w) \<Longrightarrow>
    mutate_attempts env reservation key grant now commit attempts w = (result, available, w') \<Longrightarrow>
    result \<noteq> Mutation_unavailable \<Longrightarrow>
    \<exists>s. evolves (state w) s \<and> mutate_effect (etcd_parse env) reservation key grant now commit result s (state w')"
proof (induction attempts arbitrary: w)
  case (Suc attempts)
  obtain got w1 where load: "load_record env key w = (got, w1)"
    by fastforce
  note sees = load_record_sees [OF laws load]
  obtain loaded where loaded: "got = Some loaded"
    using Suc.prems load by (cases got) auto
  have at: "loaded_at (etcd_parse env) (state w1) key loaded" and step1: "evolves (state w) (state w1)"
    using sees loaded by simp_all
  have now_at: "lr_record loaded = record_at (etcd_parse env) (state w1) key"
    using at by (simp add: loaded_at_def)
  show ?case
  proof (cases "mutate_decision reservation grant now commit (lr_record loaded)")
    case (Inl decided)
    then have "result = decided \<and> w' = w1"
      using Suc.prems load loaded by simp
    then show ?thesis
      using step1 Inl now_at by (auto simp: mutate_effect_def)
  next
    case (Inr r')
    obtain r where r: "lr_record loaded = Some r"
      using Inr by (cases "lr_record loaded") (auto simp: mutate_decision_def)
    have "record_ok r"
      using record_at_ok [of "etcd_parse env" "state w1" key r] now_at r by simp
    then have r': "record_ok r'"
      using ok Inr r by simp
    have l_ok: "0 < lr_lease_id loaded"
      using at r by (auto simp: loaded_at_def split: option.splits)
    obtain written w2 where cas: "compare_and_put env key loaded r' (lr_lease_id loaded) w1 = (written, w2)"
      by fastforce
    obtain b where b: "written = Some b"
      using Suc.prems load loaded Inr cas by (cases written) auto
    let ?t = "cas_txn key loaded (etcd_dump env (encode_record r')) (lr_lease_id loaded)"
    obtain s where s: "evolves (state w1) s" "b \<Longrightarrow> txn_holds ?t s \<and> state w2 = apply_txn ?t s" "\<not> b \<Longrightarrow> state w2 = s"
      using compare_and_put_applies [OF laws at l_ok cas] b by auto
    have step2: "evolves (state w) s"
      by (rule evolves_trans [OF step1 s(1)])
    show ?thesis
    proof (cases b)
      case True
      then have result: "result = Mutation_applied" "w' = w2"
        using Suc.prems load loaded Inr cas b by simp_all
      have "record_at (etcd_parse env) s key = lr_record loaded"
        using cas_holds_record [OF _ at s(1) evolves_wf [OF step1 Suc.prems(1)]] s(2) True by blast
      moreover have "record_at (etcd_parse env) (state w') = (record_at (etcd_parse env) s)(key \<mapsto> r')"
        using record_at_put [of key loaded _ "lr_lease_id loaded" s] decode_encode_record [OF _ r'] laws s(2) [OF True] result(2)
        by (simp add: etcd_laws_def)
      ultimately show ?thesis
        using step2 Inr result(1) by (auto simp: mutate_effect_def)
    next
      case False
      then have "mutate_attempts env reservation key grant now commit attempts w2 = (result, available, w')"
        using Suc.prems load loaded Inr cas b by simp
      moreover have "evolves (state w) (state w2)"
        using step2 s(3) False by simp
      ultimately show ?thesis
        using Suc.IH [of w2] Suc.prems(1,3) evolves_wf evolves_trans by blast
    qed
  qed
qed simp

text \<open>The memory store that a state of etcd stands for.\<close>

definition memory_of :: "json_parser \<Rightarrow> consumption_options \<Rightarrow> etcd_state \<Rightarrow> memory_store" where
  "memory_of parse opts s =
     \<lparr>ms_options = opts, ms_records = (\<lambda>identity. record_at parse s (co_key_prefix opts @ ''/'' @ identity)),
      ms_available = True\<rparr>"

lemma memory_of_put:
  "record_at parse s' = (record_at parse s)((co_key_prefix opts @ ''/'' @ identity) \<mapsto> r) \<Longrightarrow>
     memory_of parse opts s' = (memory_of parse opts s)\<lparr>ms_records :=
       (ms_records (memory_of parse opts s))(identity \<mapsto> r)\<rparr>"
  by (auto simp: memory_of_def fun_eq_iff)

definition hash_of_32 :: "keyed_hash \<Rightarrow> bool" where
  "hash_of_32 hash \<longleftrightarrow> (\<forall>key input digest. hash key 32 input = Some digest \<longrightarrow> length digest = 32)"

lemma stable_digest_hex:
  "hash_of_32 hash \<Longrightarrow> stable_digest na hash s key = Inr d \<Longrightarrow> valid_lower_hex d 64"
  by (auto simp: stable_digest_def hash_of_32_def valid_lower_hex_def length_digest_hex digest_hex_lower
      split: option.splits if_splits)

text \<open>Times that the 64-bit clock can represent.\<close>

definition clock_time :: "time_point \<Rightarrow> bool" where
  "clock_time t \<longleftrightarrow> epoch_seconds t < 2 ^ 62"

lemma normalized_second: "valid_time t \<Longrightarrow> clock_time t \<Longrightarrow> stored_second (normalized t)"
  unfolding stored_second_def normalized_def valid_time_def clock_time_def
  by (intro exI [of _ "epoch_seconds t"]) simp

lemma replacement_ok:
  assumes "validate_request request = Inr ()" "valid_lower_hex grant 64" "f \<noteq> 0"
    and "clock_time (arq_now request)" "clock_time (arq_consume_until request)"
    and "options_validate opts = Inr ()"
  shows "record_ok (replacement_record opts request grant f)"
proof -
  have r: "valid_owner (arq_owner request)" "valid_time (arq_now request)" "valid_time (arq_consume_until request)"
    using assms(1) by (auto simp: validate_request_def split: if_splits)
  have "0 < co_reservation_ttl opts" "co_reservation_ttl opts \<le> 300"
    using assms(6) by (auto simp: options_validate_def Let_def split: if_splits)
  moreover have "0 \<le> epoch_seconds (arq_now request)"
    using r(2) by (simp add: valid_time_def normalized_def)
  moreover have "normalized (arq_now request) + seconds (co_reservation_ttl opts) =
      seconds (epoch_seconds (arq_now request) + co_reservation_ttl opts)"
    by (simp add: normalized_def seconds_def algebra_simps)
  ultimately have "stored_second (normalized (arq_now request) + seconds (co_reservation_ttl opts))"
    using assms(4) unfolding stored_second_def clock_time_def
    by (intro exI [of _ "epoch_seconds (arq_now request) + co_reservation_ttl opts"]) simp
  then show ?thesis
    using assms(2,3) r(1) normalized_second [OF r(3) assms(5)]
    by (simp add: record_ok_def replacement_record_def)
qed

lemma mutation_ok:
  assumes "mutate_decision reservation grant now commit (Some r) = Inr r'" "record_ok r"
    and "validate_reservation reservation = Inr ()" "valid_time now"
    and "clock_time now" "clock_time (ar_consume_until reservation)"
  shows "record_ok r'"
proof -
  have "valid_time (ar_consume_until reservation)"
    using assms(3) by (auto simp: validate_reservation_def split: if_splits)
  then show ?thesis
    using assms(1,2) normalized_second assms(4-6)
    by (auto simp: mutate_decision_def record_ok_def split: if_splits)
qed

section \<open>Properties\<close>

text \<open>C21. Every reservation in etcd takes effect at one moment: unless the store reports that
  etcd is unavailable, its answer and its effect are those of the memory store at a state
  between call and return, whatever other gateways write and whatever expires meanwhile.\<close>

theorem etcd_reserve_linearizes:
  assumes "etcd_laws env state evolves" "state_wf (state w)" "hash_of_32 hash"
    and "options_validate (es_options store) = Inr ()"
    and "clock_time (arq_now request)" "clock_time (arq_consume_until request)"
    and run: "etcd_reserve env na hash request store w = (Inr result, store', w')"
    and answered: "rr_status result \<noteq> Reserve_unavailable"
  shows "\<exists>s. evolves (state w) s \<and>
    memory_reserve na hash request (memory_of (etcd_parse env) (es_options store) s) =
      (Inr result, memory_of (etcd_parse env) (es_options store) (state w'))"
proof -
  let ?opts = "es_options store" and ?parse = "etcd_parse env"
  have valid: "validate_request request = Inr ()"
    using run by (auto simp: etcd_reserve_def split: sum.splits)
  obtain identity grant available where digests:
    "stable_digest na hash (arq_identity_jti request) (co_digest_key ?opts) = Inr identity"
    "stable_digest na hash (arq_grant_jti request) (co_digest_key ?opts) = Inr grant"
    and attempts: "reserve_attempts env ?opts request (co_key_prefix ?opts @ ''/'' @ identity) grant
      max_cas_attempts None w = (result, available, w')"
    using run by (auto simp: etcd_reserve_def split: sum.splits prod.splits)
  have ok: "f \<noteq> 0 \<Longrightarrow> record_ok (replacement_record ?opts request grant f)" for f
    by (rule replacement_ok [OF valid stable_digest_hex [OF assms(3) digests(2)] _ assms(5,6,4)])
  obtain s where s: "evolves (state w) s" "reserve_effect ?parse ?opts request
      (co_key_prefix ?opts @ ''/'' @ identity) grant result s (state w')"
    using reserve_attempts_linear [OF assms(1) ok assms(2) _ attempts answered] by auto
  have "memory_reserve na hash request (memory_of ?parse ?opts s) = (Inr result, memory_of ?parse ?opts (state w'))"
    using memory_reserve_decision [OF valid, of "memory_of ?parse ?opts s" na hash identity grant] digests s(2) answered
      memory_of_put [of ?parse "state w'" s ?opts identity]
    by (auto simp: reserve_effect_def Let_def memory_of_def split: sum.splits)
  then show ?thesis
    using s(1) by blast
qed

text \<open>C22. Commit and release in etcd take effect at one moment, as the memory store's do.\<close>

theorem etcd_mutation_linearizes:
  assumes "etcd_laws env state evolves" "state_wf (state w)"
    and "clock_time now" "clock_time (ar_consume_until reservation)"
    and run: "etcd_mutate env na hash reservation now commit store w = (Inr result, store', w')"
    and answered: "result \<noteq> Mutation_unavailable"
  shows "\<exists>s. evolves (state w) s \<and>
    (if commit then memory_commit else memory_release) na hash reservation now
       (memory_of (etcd_parse env) (es_options store) s) =
      (Inr result, memory_of (etcd_parse env) (es_options store) (state w'))"
proof -
  let ?opts = "es_options store" and ?parse = "etcd_parse env"
  have valid: "validate_reservation reservation = Inr ()" "valid_time now"
    using run by (auto simp: etcd_mutate_def split: sum.splits if_splits)
  obtain identity grant available where digests:
    "stable_digest na hash (ar_identity_jti reservation) (co_digest_key ?opts) = Inr identity"
    "stable_digest na hash (ar_grant_jti reservation) (co_digest_key ?opts) = Inr grant"
    and attempts: "mutate_attempts env reservation (co_key_prefix ?opts @ ''/'' @ identity) grant now commit
      max_cas_attempts w = (result, available, w')"
    using run by (auto simp: etcd_mutate_def split: sum.splits prod.splits if_splits)
  have ok: "record_ok r \<Longrightarrow> mutate_decision reservation grant now commit (Some r) = Inr r' \<Longrightarrow> record_ok r'" for r r'
    using mutation_ok [OF _ _ valid assms(3,4)] by blast
  have "\<exists>s. evolves (state w) s \<and> mutate_effect ?parse reservation
      (co_key_prefix ?opts @ ''/'' @ identity) grant now commit result s (state w')"
    by (rule mutate_attempts_linear [OF assms(1) _ assms(2) attempts answered]) (rule ok)
  then obtain s where s: "evolves (state w) s" "mutate_effect ?parse reservation
      (co_key_prefix ?opts @ ''/'' @ identity) grant now commit result s (state w')"
    by blast
  have m: "ms_available (memory_of ?parse ?opts s)" "ms_options (memory_of ?parse ?opts s) = ?opts"
    "ms_records (memory_of ?parse ?opts s) identity = record_at ?parse s (co_key_prefix ?opts @ ''/'' @ identity)"
    by (simp_all add: memory_of_def)
  have "(if commit then memory_commit else memory_release) na hash reservation now (memory_of ?parse ?opts s) =
      (Inr result, memory_of ?parse ?opts (state w'))"
    using memory_commit_decision [OF valid m(1), of na hash identity grant]
      memory_release_decision [OF valid m(1), of na hash identity grant] digests s(2) m(2,3)
      memory_of_put [of ?parse "state w'" s ?opts identity]
    by (cases commit) (auto simp: mutate_effect_def split: sum.splits)
  then show ?thesis
    using s(1) by blast
qed

section \<open>Consumption in memory\<close>

text \<open>The operations of any number of gateways on one store, with their times.\<close>

datatype store_call =
    Call_reserve admission_reserve_request
  | Call_commit admission_reservation time_point
  | Call_release admission_reservation time_point

fun call_time :: "store_call \<Rightarrow> time_point" where
  "call_time (Call_reserve request) = arq_now request"
| "call_time (Call_commit reservation now) = now"
| "call_time (Call_release reservation now) = now"

fun store_call_step :: "sodium \<Rightarrow> keyed_hash \<Rightarrow> store_call \<Rightarrow> memory_store \<Rightarrow> memory_store" where
  "store_call_step na hash (Call_reserve request) m = snd (memory_reserve na hash request m)"
| "store_call_step na hash (Call_commit reservation now) m = snd (memory_commit na hash reservation now m)"
| "store_call_step na hash (Call_release reservation now) m = snd (memory_release na hash reservation now m)"

fun store_calls :: "sodium \<Rightarrow> keyed_hash \<Rightarrow> store_call list \<Rightarrow> memory_store \<Rightarrow> memory_store" where
  "store_calls na hash [] m = m"
| "store_calls na hash (c # cs) m = store_calls na hash cs (store_call_step na hash c m)"

lemma store_call_options [simp]: "ms_options (store_call_step na hash c m) = ms_options m"
  by (cases c) (auto simp: memory_reserve_def memory_commit_def memory_release_def Let_def
      split: sum.splits option.splits)

lemma store_calls_options [simp]: "ms_options (store_calls na hash cs m) = ms_options m"
  by (induction cs arbitrary: m) simp_all

text \<open>A consumed record stays as it is while it is retained.\<close>

lemma consumed_step:
  assumes "ms_records m identity = Some r" "sr_state r = Stored_consumed"
    and "normalized (call_time c) \<le> sr_consume_until r"
  shows "ms_records (store_call_step na hash c m) identity = Some r"
  using assms
  by (cases c) (auto simp: memory_reserve_def memory_commit_def memory_release_def Let_def
      split: sum.splits option.splits)

lemma consumed_calls:
  "ms_records m identity = Some r \<Longrightarrow> sr_state r = Stored_consumed \<Longrightarrow>
     \<forall>c \<in> set cs. normalized (call_time c) \<le> sr_consume_until r \<Longrightarrow>
     ms_records (store_calls na hash cs m) identity = Some r"
  by (induction cs arbitrary: m) (auto simp: consumed_step)

text \<open>The fencing of an identity never decreases, and every new reservation raises it.\<close>

lemma fencing_step:
  assumes "ms_records m identity = Some r"
  shows "\<exists>r'. ms_records (store_call_step na hash c m) identity = Some r' \<and>
    (r' = r \<or> sr_fencing r < sr_fencing r' \<or>
     sr_fencing r' = sr_fencing r \<and> sr_grant_digest r' = sr_grant_digest r \<and> sr_owner r' = sr_owner r)"
proof -
  have "f \<noteq> - 1 \<Longrightarrow> f < f + 1" for f :: u64
    by (simp add: word_less_nat_alt unatSuc add.commute eq_neg_iff_add_eq_0)
  then show ?thesis
    using assms
    by (cases c) (auto simp: memory_reserve_def memory_commit_def memory_release_def Let_def
        split: sum.splits option.splits)
qed

text \<open>C23. An identity is admitted once. After a commit, as long as the record is retained and
  whatever calls any gateways make meanwhile, no reservation of the identity is granted and no
  commit of another reservation or another grant is applied.\<close>

theorem identity_admitted_once:
  assumes "memory_commit na hash r1 now1 m = (Inr Mutation_applied, m1)"
    and "stable_digest na hash (ar_identity_jti r1) (co_digest_key (ms_options m)) = Inr identity"
  shows "\<exists>r. ms_records m1 identity = Some r \<and> sr_fencing r = ar_fencing r1 \<and>
    (\<forall>cs. (\<forall>c \<in> set cs. normalized (call_time c) \<le> sr_consume_until r) \<longrightarrow>
      (let m2 = store_calls na hash cs m1 in
       (\<forall>request res. arq_identity_jti request = ar_identity_jti r1 \<longrightarrow>
          normalized (arq_now request) \<le> sr_consume_until r \<longrightarrow>
          fst (memory_reserve na hash request m2) = Inr res \<longrightarrow>
          rr_status res \<in> {Reserve_consumed, Reserve_unavailable}) \<and>
       (\<forall>r2 now2. ar_identity_jti r2 = ar_identity_jti r1 \<longrightarrow>
          fst (memory_commit na hash r2 now2 m2) = Inr Mutation_applied \<longrightarrow>
          ar_fencing r2 = ar_fencing r1 \<and>
          stable_digest na hash (ar_grant_jti r2) (co_digest_key (ms_options m)) = Inr (sr_grant_digest r))))"
proof -
  obtain r where r: "ms_records m1 identity = Some r" "sr_state r = Stored_consumed" "sr_fencing r = ar_fencing r1"
    and opts: "ms_options m1 = ms_options m"
    using assms by (auto simp: memory_commit_def reservation_matches_def split: sum.splits option.splits if_splits)
  have "rr_status res \<in> {Reserve_consumed, Reserve_unavailable}"
    if "\<forall>c \<in> set cs. normalized (call_time c) \<le> sr_consume_until r" "arq_identity_jti request = ar_identity_jti r1"
      "normalized (arq_now request) \<le> sr_consume_until r"
      "fst (memory_reserve na hash request (store_calls na hash cs m1)) = Inr res" for cs request res
    using that consumed_calls [OF r(1,2) that(1), of na hash] r(2) assms(2) opts
    by (auto simp: memory_reserve_def refused_def Let_def split: sum.splits if_splits)
  moreover have "ar_fencing r2 = ar_fencing r1 \<and>
      stable_digest na hash (ar_grant_jti r2) (co_digest_key (ms_options m)) = Inr (sr_grant_digest r)"
    if "\<forall>c \<in> set cs. normalized (call_time c) \<le> sr_consume_until r" "ar_identity_jti r2 = ar_identity_jti r1"
      "fst (memory_commit na hash r2 now2 (store_calls na hash cs m1)) = Inr Mutation_applied" for cs r2 now2
    using that consumed_calls [OF r(1,2) that(1), of na hash] r(2,3) assms(2) opts
    by (auto simp: memory_commit_def split: sum.splits if_splits)
  ultimately show ?thesis
    using r by (auto simp: Let_def)
qed

definition padding_hash :: keyed_hash where
  "padding_hash key n input = Some (take n (input @ replicate n 0))"

lemma padding_hash_32: "hash_of_32 padding_hash"
  by (simp add: hash_of_32_def padding_hash_def min_def)

definition example_options :: consumption_options where
  "example_options =
     \<lparr>co_key_prefix = ''/admission'', co_reservation_ttl = 10, co_digest_key = replicate 32 1\<rparr>"

definition example_jti :: string where
  "example_jti = replicate 32 CHR ''a''"

definition example_request :: admission_reserve_request where
  "example_request =
     \<lparr>arq_identity_jti = example_jti, arq_grant_jti = example_jti, arq_owner = ''gateway-1'',
      arq_now = seconds 10, arq_consume_until = seconds 100\<rparr>"

definition example_reservation :: admission_reservation where
  "example_reservation =
     \<lparr>ar_identity_jti = example_jti, ar_grant_jti = example_jti, ar_owner = ''gateway-1'', ar_fencing = 1,
      ar_lease_expires_at = seconds 20, ar_consume_until = seconds 100\<rparr>"

definition example_digest :: string where
  "example_digest = digest_hex (take 32 (as_bytes example_jti @ replicate 32 0))"

definition example_record :: stored_record where
  "example_record =
     \<lparr>sr_state = Stored_reserved, sr_grant_digest = example_digest, sr_owner = ''gateway-1'',
      sr_fencing = 1, sr_lease_expires_at = seconds 20, sr_consume_until = seconds 100\<rparr>"

lemma example_stable: "stable_digest example_sodium padding_hash example_jti key = Inr example_digest"
  by (simp add: stable_digest_def padding_hash_def example_digest_def example_sodium_def)

lemma example_valid:
  "validate_request example_request = Inr ()" "validate_reservation example_reservation = Inr ()"
  "options_validate example_options = Inr ()"
proof -
  have "valid_lower_hex example_jti 32" "valid_owner ''gateway-1''"
    by code_simp+
  then show "validate_request example_request = Inr ()" "validate_reservation example_reservation = Inr ()"
    by (simp_all add: validate_request_def validate_reservation_def example_request_def example_reservation_def
        valid_time_def normalized_def)
  show "options_validate example_options = Inr ()"
    by code_simp
qed

definition example_memory :: memory_store where
  "example_memory =
     \<lparr>ms_options = example_options, ms_records = [example_digest \<mapsto> example_record], ms_available = True\<rparr>"

lemma example_commit:
  "memory_commit example_sodium padding_hash example_reservation (seconds 15) example_memory =
     (Inr Mutation_applied, example_memory\<lparr>ms_records :=
        [example_digest \<mapsto> example_record\<lparr>sr_state := Stored_consumed\<rparr>]\<rparr>)"
proof -
  have "ar_identity_jti example_reservation = example_jti" "ar_grant_jti example_reservation = example_jti"
    by (simp_all add: example_reservation_def)
  then show ?thesis
    using example_valid(2)
    by (simp add: memory_commit_def example_stable valid_time_def normalized_def)
      (simp add: example_memory_def example_record_def example_reservation_def reservation_matches_def normalized_def)
qed

theorem identity_admitted_once_witness:
  "\<exists>m1. memory_commit example_sodium padding_hash example_reservation (seconds 15) example_memory =
     (Inr Mutation_applied, m1) \<and>
     (\<exists>r. ms_records m1 example_digest = Some r \<and> sr_fencing r = 1)"
proof -
  have "stable_digest example_sodium padding_hash (ar_identity_jti example_reservation)
      (co_digest_key (ms_options example_memory)) = Inr example_digest"
    by (simp add: example_reservation_def example_stable)
  from identity_admitted_once [OF example_commit this] show ?thesis
    using example_commit by (auto simp: example_reservation_def)
qed

definition example_record_key :: string where
  "example_record_key = ''/admission'' @ ''/'' @ example_digest"

definition example_etcd_store :: etcd_store where
  "example_etcd_store = \<lparr>es_options = example_options, es_available = True\<rparr>"

definition stored_etcd :: etcd_state where
  "stored_etcd =
     \<lparr>es_revision = 1,
      es_map = [example_record_key \<mapsto>
        \<lparr>en_value = numbered_dump (encode_record example_record), en_revision = 1, en_lease = 7\<rparr>]\<rparr>"

lemma small_laws: "etcd_laws small_etcd (\<lambda>s. s) evolves"
  by (rule etcd_laws_mono [OF small_etcd_laws evolves_refl])

lemma seven [simp]: "nonnegative_integer (J_object [(''ID'', J_string ''7'')]) ''ID'' = Some 7"
proof -
  have "decimal_loop 18446744073709551615 0 ''7'' = Some 7"
    by (simp add: is_digit_def digit_value_def)
  then show ?thesis
    by (simp add: nonnegative_integer_def unsigned_integer_def del: decimal_loop.simps)
qed

lemma small_cas:
  assumes "loaded_at parse s0 key loaded" "0 < lease_id"
    and "txn_holds (cas_txn key loaded (numbered_dump (encode_record replacement)) lease_id) s"
  shows "\<exists>s'. compare_and_put small_etcd key loaded replacement lease_id s = (Some True, s')"
  using small_txn [OF conjunct2 [OF cas_transaction_json [OF assms(1,2)]]] cas_transaction_json [OF assms(1,2)] assms(3)
  by (simp add: compare_and_put_def report_txn_def)

lemma example_reserve:
  "\<exists>store' s'. etcd_reserve small_etcd example_sodium padding_hash example_request example_etcd_store empty_etcd =
     (Inr (reserved example_request (replacement_record example_options example_request example_digest 1)), store', s')"
proof -
  let ?loaded = "\<lparr>lr_record = None, lr_mod_revision = 0, lr_lease_id = 0\<rparr>"
  let ?r = "replacement_record example_options example_request example_digest 1"
  have load: "load_record small_etcd key empty_etcd = (Some ?loaded, empty_etcd)" for key
    by (simp add: load_record_def small_range report_range_def empty_etcd_def)
  have decision: "reserve_decision example_request example_digest None = Inr 1"
    by (simp add: reserve_decision_def)
  have lease: "replacement_lease small_etcd example_request None empty_etcd = (Some 7, empty_etcd)"
    by (simp add: replacement_lease_def retention_ttl_def example_request_def normalized_def epoch_seconds_def
        clock_defs grant_lease_def small_grant)
  obtain s' where cas: "compare_and_put small_etcd example_record_key ?loaded ?r 7 empty_etcd = (Some True, s')"
    using small_cas [of numbered_parse empty_etcd example_record_key ?loaded 7 ?r empty_etcd]
    by (auto simp: loaded_at_def record_at_def empty_etcd_def txn_holds_def cas_txn_def)
  obtain n where n: "max_cas_attempts = Suc n"
    by (simp add: max_cas_attempts_def)
  have "reserve_attempts small_etcd example_options example_request example_record_key example_digest (Suc n) None empty_etcd =
      (reserved example_request ?r, True, s')"
    using load decision lease cas by simp
  moreover have "arq_identity_jti example_request = example_jti" "arq_grant_jti example_request = example_jti"
    by (simp_all add: example_request_def)
  ultimately show ?thesis
    using example_valid(1)
    by (simp add: etcd_reserve_def example_etcd_store_def example_stable n example_record_key_def
        example_options_def del: reserve_attempts.simps)
qed

theorem etcd_reserve_linearizes_witness:
  "\<exists>result s s'. rr_status result = Reserve_reserved \<and> evolves empty_etcd s \<and>
     memory_reserve example_sodium padding_hash example_request (memory_of numbered_parse example_options s) =
       (Inr result, memory_of numbered_parse example_options s')"
proof -
  let ?result = "reserved example_request (replacement_record example_options example_request example_digest 1)"
  obtain store' s' where run: "etcd_reserve small_etcd example_sodium padding_hash example_request example_etcd_store
      empty_etcd = (Inr ?result, store', s')"
    using example_reserve by blast
  have "clock_time (arq_now example_request)" "clock_time (arq_consume_until example_request)"
    by (simp_all add: clock_time_def example_request_def)
  moreover have "state_wf empty_etcd" "es_options example_etcd_store = example_options"
    by (simp_all add: state_wf_def empty_etcd_def example_etcd_store_def)
  moreover have "rr_status ?result = Reserve_reserved"
    by (simp add: reserved_def)
  ultimately show ?thesis
    using etcd_reserve_linearizes [OF small_laws _ padding_hash_32 _ _ _ run] example_valid(3) by auto
qed

lemma example_etcd_commit:
  "\<exists>store' s'. etcd_mutate small_etcd example_sodium padding_hash example_reservation (seconds 15) True
     example_etcd_store stored_etcd = (Inr Mutation_applied, store', s')"
proof -
  have "length example_jti = 32"
    by (simp add: example_jti_def)
  then have "length example_digest = 64" "list_all lower_hex example_digest"
    by (simp_all add: example_digest_def length_digest_hex digest_hex_lower min_def)
  moreover have "valid_owner ''gateway-1''"
    by code_simp
  moreover have "stored_second (seconds 20)" "stored_second (seconds 100)"
    unfolding stored_second_def by (intro exI [of _ 20], simp, intro exI [of _ 100], simp)
  ultimately have "record_ok example_record"
    by (simp add: record_ok_def example_record_def valid_lower_hex_def)
  then have decode: "decode_record numbered_parse (numbered_dump (encode_record example_record)) = Some example_record"
    by (rule decode_encode_record [OF numbered_library])
  let ?loaded = "\<lparr>lr_record = Some example_record, lr_mod_revision = 1, lr_lease_id = 7\<rparr>"
  let ?r = "example_record\<lparr>sr_state := Stored_consumed\<rparr>"
  have digits: "decimal_loop 18446744073709551615 0 (show_nat 1) = Some 1" "decimal_loop 18446744073709551615 0 (show_nat 7) = Some 7"
    by (rule decimal_loop_show_nat, simp)+
  have load: "load_record small_etcd example_record_key stored_etcd = (Some ?loaded, stored_etcd)"
    by (simp add: load_record_def small_range stored_etcd_def report_range_def report_entry_def load_entry_def
        string_member_def nonnegative_integer_def unsigned_integer_def decode digits [simplified])
  have decision: "mutate_decision example_reservation example_digest (seconds 15) True (Some example_record) = Inr ?r"
    by (simp add: mutate_decision_def example_record_def example_reservation_def reservation_matches_def normalized_def)
  obtain s' where cas: "compare_and_put small_etcd example_record_key ?loaded ?r 7 stored_etcd = (Some True, s')"
    using small_cas [of numbered_parse stored_etcd example_record_key ?loaded 7 ?r stored_etcd] decode
    by (auto simp: loaded_at_def record_at_def stored_etcd_def txn_holds_def cas_txn_def)
  obtain n where n: "max_cas_attempts = Suc n"
    by (simp add: max_cas_attempts_def)
  have "mutate_attempts small_etcd example_reservation example_record_key example_digest (seconds 15) True (Suc n) stored_etcd =
      (Mutation_applied, True, s')"
    using load decision cas by simp
  moreover have "ar_identity_jti example_reservation = example_jti" "ar_grant_jti example_reservation = example_jti"
    by (simp_all add: example_reservation_def)
  ultimately show ?thesis
    using example_valid(2)
    by (simp add: etcd_mutate_def example_etcd_store_def example_stable n example_record_key_def
        example_options_def valid_time_def normalized_def del: mutate_attempts.simps)
qed

theorem etcd_mutation_linearizes_witness:
  "\<exists>s s'. evolves stored_etcd s \<and>
     memory_commit example_sodium padding_hash example_reservation (seconds 15)
       (memory_of numbered_parse example_options s) =
       (Inr Mutation_applied, memory_of numbered_parse example_options s')"
proof -
  obtain store' s' where run: "etcd_mutate small_etcd example_sodium padding_hash example_reservation (seconds 15) True
      example_etcd_store stored_etcd = (Inr Mutation_applied, store', s')"
    using example_etcd_commit by blast
  have "clock_time (seconds 15)" "clock_time (ar_consume_until example_reservation)"
    by (simp_all add: clock_time_def example_reservation_def)
  moreover have "state_wf stored_etcd" "es_options example_etcd_store = example_options"
    by (simp_all add: state_wf_def stored_etcd_def example_etcd_store_def)
  ultimately show ?thesis
    using etcd_mutation_linearizes [OF small_laws _ _ _ run] by auto
qed

text \<open>The gateway of etcd leaves out a \<open>succeeded\<close> that is false; the store takes a swap that
  lost the race for an unusable answer and does not try again.\<close>

lemma missed_swap_is_no_answer:
  assumes "txn_reports t s j" "json_find j ''succeeded'' = None"
    and "etcd_post env ''/v3/kv/txn'' (etcd_dump env (cas_transaction key loaded
      (etcd_dump env (encode_record replacement)) lease_id)) w = (Some body, w')" "etcd_parse env body = Some j"
  shows "\<not> txn_holds t s \<and> compare_and_put env key loaded replacement lease_id w = (None, w')"
  using assms by (auto simp: txn_reports_def compare_and_put_def split: if_splits)

end
