(* ===== verification/Edge_Source.thy ===== *)
theory Edge_Source
  imports RM_Prelude
begin

text \<open>
  Source address normalisation (\<open>framework/edge/src/edge_source_address.cpp\<close>): the direct peer,
  the trusted proxy networks and the forwarding headers. \<open>inet_pton\<close> and \<open>inet_ntop\<close> are the C
  library's and come as the record \<open>ip_library\<close>.
  A C string ends at its first NUL, which \<open>c_str\<close> writes out.
\<close>

section \<open>Addresses\<close>

datatype ip_family = Inet | Inet6

record ip_address =
  ip_family_of :: ip_family
  ip_bytes :: "u8 list"

record ip_library =
  inet_pton :: "ip_family \<Rightarrow> string \<Rightarrow> u8 list option"
  inet_ntop :: "ip_family \<Rightarrow> u8 list \<Rightarrow> string option"

definition address_size :: "ip_family \<Rightarrow> nat" where
  "address_size family = (if family = Inet then 4 else 16)"

definition nul :: char where
  "nul = CHR 0x00"

definition c_str :: "string \<Rightarrow> string" where
  "c_str s = takeWhile (\<lambda>c. c \<noteq> nul) s"

definition is_blank :: "char \<Rightarrow> bool" where
  "is_blank c \<longleftrightarrow> c = CHR '' '' \<or> c = CHR 0x09"

definition trim_blank :: "string \<Rightarrow> string" where
  "trim_blank s = rev (dropWhile is_blank (rev (dropWhile is_blank s)))"

text \<open>The library writes the first four or all sixteen bytes of a zeroed array.\<close>

definition parse_ip :: "ip_library \<Rightarrow> string \<Rightarrow> ip_address option" where
  "parse_ip lib value =
     (let text = trim_blank value
      in if text = [] then None
         else case inet_pton lib Inet (c_str text) of
                Some bytes \<Rightarrow> Some \<lparr>ip_family_of = Inet, ip_bytes = bytes @ replicate 12 0\<rparr>
              | None \<Rightarrow>
                  (case inet_pton lib Inet6 (c_str text) of
                     Some bytes \<Rightarrow> Some \<lparr>ip_family_of = Inet6, ip_bytes = bytes\<rparr>
                   | None \<Rightarrow> None))"

definition canonical_ip :: "ip_library \<Rightarrow> string \<Rightarrow> string option" where
  "canonical_ip lib value =
     (case parse_ip lib value of
        None \<Rightarrow> None
      | Some address \<Rightarrow>
          inet_ntop lib (ip_family_of address)
            (take (address_size (ip_family_of address)) (ip_bytes address)))"

section \<open>Networks\<close>

record cidr =
  cidr_network :: ip_address
  cidr_prefix :: nat

definition parse_cidr :: "ip_library \<Rightarrow> string \<Rightarrow> cidr option" where
  "parse_cidr lib value =
     (case find_from (CHR ''/'') value 0 of
        None \<Rightarrow> None
      | Some slash \<Rightarrow>
          if find_from (CHR ''/'') value (slash + 1) \<noteq> None then None
          else case parse_ip lib (substr value 0 slash) of
                 None \<Rightarrow> None
               | Some address \<Rightarrow>
                   (let prefix_text = drop (slash + 1) value
                    in if prefix_text = [] then None
                       else case decimal_loop (2 ^ 32 - 1) 0 prefix_text of
                              None \<Rightarrow> None
                            | Some prefix \<Rightarrow>
                                if (if ip_family_of address = Inet then 32 else 128) < prefix then None
                                else Some \<lparr>cidr_network = address, cidr_prefix = prefix\<rparr>))"

text \<open>\<open>0xFF << (8 - remaining_bits)\<close>, cut to a byte.\<close>

definition prefix_mask :: "nat \<Rightarrow> u8" where
  "prefix_mask remaining_bits = push_bit (8 - remaining_bits) 0xFF"

definition cidr_contains :: "cidr \<Rightarrow> ip_address \<Rightarrow> bool" where
  "cidr_contains c address =
     (let network = cidr_network c;
          whole_bytes = cidr_prefix c div 8;
          remaining_bits = cidr_prefix c mod 8;
          mask = prefix_mask remaining_bits
      in ip_family_of network = ip_family_of address \<and>
         take whole_bytes (ip_bytes network) = take whole_bytes (ip_bytes address) \<and>
         (remaining_bits = 0 \<or>
          (ip_bytes network ! whole_bytes) AND mask = (ip_bytes address ! whole_bytes) AND mask))"

section \<open>Forwarding headers\<close>

fun split_fields :: "char \<Rightarrow> string \<Rightarrow> string list" where
  "split_fields delimiter [] = [[]]"
| "split_fields delimiter (c # cs) =
     (if c = delimiter then [] # split_fields delimiter cs
      else case split_fields delimiter cs of
             piece # pieces \<Rightarrow> (c # piece) # pieces
           | [] \<Rightarrow> [[c]])"

definition split_trimmed :: "char \<Rightarrow> string \<Rightarrow> string list" where
  "split_trimmed delimiter value = map trim_blank (split_fields delimiter value)"

definition lower_char :: "char \<Rightarrow> char" where
  "lower_char c =
     (if 65 \<le> (of_char c :: nat) \<and> (of_char c :: nat) \<le> 90 then char_of ((of_char c :: nat) + 32) else c)"

definition unquote :: "string \<Rightarrow> string" where
  "unquote value =
     (if 2 \<le> length value \<and> hd value = CHR 0x22 \<and> last value = CHR 0x22
      then substr value 1 (length value - 2) else value)"

text \<open>\<open>rfind(':')\<close>.\<close>

fun find_last :: "char \<Rightarrow> string \<Rightarrow> nat option" where
  "find_last c [] = None"
| "find_last c (x # xs) =
     (case find_last c xs of
        Some i \<Rightarrow> Some (Suc i)
      | None \<Rightarrow> if x = c then Some 0 else None)"

definition forwarded_for_node :: "ip_library \<Rightarrow> string \<Rightarrow> string option" where
  "forwarded_for_node lib raw =
     (let value = unquote (trim_blank raw)
      in if value = [] \<or> value = ''unknown'' \<or> hd value = CHR ''_'' then None
         else if hd value = CHR ''[''
         then case find_from (CHR '']'') value 0 of
                None \<Rightarrow> None
              | Some close \<Rightarrow> canonical_ip lib (substr value 1 (close - 1))
         else case canonical_ip lib value of
                Some direct \<Rightarrow> Some direct
              | None \<Rightarrow>
                  (case find_last (CHR '':'') value of
                     None \<Rightarrow> None
                   | Some colon \<Rightarrow> canonical_ip lib (substr value 0 colon)))"

text \<open>The first \<open>for\<close> parameter of an element decides.\<close>

fun for_parameter :: "ip_library \<Rightarrow> string list \<Rightarrow> string option" where
  "for_parameter lib [] = None"
| "for_parameter lib (parameter # rest) =
     (case find_from (CHR ''='') parameter 0 of
        None \<Rightarrow> for_parameter lib rest
      | Some equals \<Rightarrow>
          if map lower_char (trim_blank (substr parameter 0 equals)) \<noteq> ''for''
          then for_parameter lib rest
          else forwarded_for_node lib (drop (equals + 1) parameter))"

definition forwarded_for_value :: "ip_library \<Rightarrow> string \<Rightarrow> string option" where
  "forwarded_for_value lib element = for_parameter lib (split_trimmed (CHR '';'') element)"

section \<open>Normalisation\<close>

datatype edge_source_mode = Direct_peer | Trusted_x_forwarded_for | Trusted_forwarded

definition parse_edge_source_mode :: "string \<Rightarrow> error + edge_source_mode" where
  "parse_edge_source_mode value =
     (if value = ''direct_peer'' then Inr Direct_peer
      else if value = ''trusted_x_forwarded_for'' then Inr Trusted_x_forwarded_for
      else if value = ''trusted_forwarded'' then Inr Trusted_forwarded
      else Inl (Invalid_argument ''unsupported edge source mode''))"

fun edge_source_mode_name :: "edge_source_mode \<Rightarrow> string" where
  "edge_source_mode_name Direct_peer = ''direct_peer''"
| "edge_source_mode_name Trusted_x_forwarded_for = ''trusted_x_forwarded_for''"
| "edge_source_mode_name Trusted_forwarded = ''trusted_forwarded''"

record edge_source_config =
  esc_mode :: edge_source_mode
  esc_trusted_proxies :: "string list"

definition edge_source_validate :: "ip_library \<Rightarrow> edge_source_config \<Rightarrow> error + unit" where
  "edge_source_validate lib config =
     (if 64 < length (esc_trusted_proxies config)
      then Inl (Invalid_argument ''too many trusted proxy CIDRs'')
      else if esc_mode config = Direct_peer \<and> esc_trusted_proxies config \<noteq> []
      then Inl (Invalid_argument ''direct peer mode cannot configure trusted proxy CIDRs'')
      else if esc_mode config \<noteq> Direct_peer \<and> esc_trusted_proxies config = []
      then Inl (Invalid_argument ''forwarded source mode requires trusted proxy CIDRs'')
      else if list_ex (\<lambda>text. parse_cidr lib text = None) (esc_trusted_proxies config)
      then Inl (Invalid_argument ''invalid trusted proxy CIDR'')
      else Inr ())"

record edge_source_normalizer =
  esn_mode :: edge_source_mode
  esn_trusted :: "cidr list"

definition new_edge_source_normalizer ::
  "ip_library \<Rightarrow> edge_source_config \<Rightarrow> error + edge_source_normalizer" where
  "new_edge_source_normalizer lib config =
     (case edge_source_validate lib config of
        Inl e \<Rightarrow> Inl e
      | Inr _ \<Rightarrow>
          Inr \<lparr>esn_mode = esc_mode config,
               esn_trusted = map (\<lambda>text. the (parse_cidr lib text)) (esc_trusted_proxies config)\<rparr>)"

definition is_trusted :: "edge_source_normalizer \<Rightarrow> ip_address \<Rightarrow> bool" where
  "is_trusted n address = list_ex (\<lambda>c. cidr_contains c address) (esn_trusted n)"

record transport_source =
  ts_direct_peer :: string
  ts_x_forwarded_for :: string
  ts_forwarded :: string

text \<open>The loops that parse every entry or refuse the header, and that walk the chain from the
  nearest hop to the first one that is not a trusted proxy.\<close>

fun parse_chain :: "(string \<Rightarrow> string option) \<Rightarrow> string list \<Rightarrow> string list option" where
  "parse_chain parse [] = Some []"
| "parse_chain parse (entry # rest) =
     (case parse entry of
        None \<Rightarrow> None
      | Some parsed \<Rightarrow>
          (case parse_chain parse rest of
             None \<Rightarrow> None
           | Some chain \<Rightarrow> Some (parsed # chain)))"

fun nearest_untrusted ::
  "ip_library \<Rightarrow> edge_source_normalizer \<Rightarrow> string \<Rightarrow> string list \<Rightarrow> string option" where
  "nearest_untrusted lib n front [] = Some front"
| "nearest_untrusted lib n front (hop # further) =
     (case parse_ip lib hop of
        None \<Rightarrow> None
      | Some address \<Rightarrow>
          if \<not> is_trusted n address then Some hop else nearest_untrusted lib n front further)"

definition normalize_source ::
  "ip_library \<Rightarrow> edge_source_normalizer \<Rightarrow> transport_source \<Rightarrow> string option" where
  "normalize_source lib n source =
     (case (parse_ip lib (ts_direct_peer source), canonical_ip lib (ts_direct_peer source)) of
        (Some direct, Some canonical_direct) \<Rightarrow>
          if esn_mode n = Direct_peer \<or> \<not> is_trusted n direct then Some canonical_direct
          else (let (header, parse) =
                      (if esn_mode n = Trusted_x_forwarded_for
                       then (ts_x_forwarded_for source, canonical_ip lib)
                       else (ts_forwarded source, forwarded_for_value lib))
                in if header = [] then None
                   else case parse_chain parse (split_trimmed (CHR '','') header) of
                          None \<Rightarrow> None
                        | Some hops \<Rightarrow>
                            (let chain = hops @ [canonical_direct]
                             in nearest_untrusted lib n (hd chain) (rev chain)))
      | _ \<Rightarrow> None)"

section \<open>Membership in a network\<close>

definition byte_bits :: "u8 \<Rightarrow> bool list" where
  "byte_bits b = map (\<lambda>i. bit b (7 - i)) [0..<8]"

definition address_bits :: "u8 list \<Rightarrow> bool list" where
  "address_bits bytes = concat (map byte_bits bytes)"

lemma length_byte_bits [simp]: "length (byte_bits b) = 8"
  by (simp add: byte_bits_def)

lemma address_bits_append [simp]: "address_bits (a @ b) = address_bits a @ address_bits b"
  by (simp add: address_bits_def)

lemma length_address_bits [simp]: "length (address_bits bytes) = 8 * length bytes"
  by (induction bytes) (simp_all add: address_bits_def)

lemma byte_bits_inject: "byte_bits a = byte_bits b \<longleftrightarrow> a = b"
proof
  assume "byte_bits a = byte_bits b"
  then have eq: "bit a (7 - i) = bit b (7 - i)" if "i < 8" for i
    using that by (simp add: byte_bits_def)
  have "bit a n = bit b n" if "n < 8" for n
    using eq [of "7 - n"] that by simp
  then show "a = b"
    by (intro bit_word_eqI) simp
qed simp

lemma address_bits_inject: "length a = length b \<Longrightarrow> address_bits a = address_bits b \<longleftrightarrow> a = b"
  by (induction a b rule: list_induct2) (simp_all add: address_bits_def byte_bits_inject)

lemma bit_prefix_mask: "r \<le> 8 \<Longrightarrow> n < 8 \<Longrightarrow> bit (prefix_mask r) n \<longleftrightarrow> 8 - r \<le> n"
proof -
  assume "r \<le> 8" "n < 8"
  have "prefix_mask r = push_bit (8 - r) (mask 8)"
    by (simp add: prefix_mask_def mask_eq_exp_minus_1)
  then show ?thesis
    using \<open>r \<le> 8\<close> \<open>n < 8\<close> by (auto simp: bit_push_bit_iff bit_mask_iff)
qed

lemma masked_eq_iff:
  assumes "r \<le> 8"
  shows "a AND prefix_mask r = b AND prefix_mask r \<longleftrightarrow> take r (byte_bits a) = take r (byte_bits b)"
proof
  assume eq: "a AND prefix_mask r = b AND prefix_mask r"
  have "bit a (7 - i) = bit b (7 - i)" if "i < r" for i
  proof -
    have "bit (a AND prefix_mask r) (7 - i) = bit (b AND prefix_mask r) (7 - i)" by (simp add: eq)
    moreover have "8 - r \<le> 7 - i" using that assms by arith
    ultimately show ?thesis
      using assms by (simp add: bit_and_iff bit_prefix_mask)
  qed
  then show "take r (byte_bits a) = take r (byte_bits b)"
    using assms by (simp add: byte_bits_def take_map)
next
  assume eq: "take r (byte_bits a) = take r (byte_bits b)"
  have eq_at: "bit a (7 - i) = bit b (7 - i)" if "i < r" for i
    using eq that assms by (simp add: byte_bits_def take_map)
  have "bit a n = bit b n" if "n < 8" "8 - r \<le> n" for n
  proof -
    have "7 - n < r" "7 - (7 - n) = n" using that assms by arith+
    then show ?thesis using eq_at [of "7 - n"] by simp
  qed
  then show "a AND prefix_mask r = b AND prefix_mask r"
    using assms by (intro bit_word_eqI) (auto simp: bit_and_iff bit_prefix_mask)
qed

lemma take_address_bits:
  assumes "w < length bytes" "r \<le> 8"
  shows "take (8 * w + r) (address_bits bytes) = address_bits (take w bytes) @ take r (byte_bits (bytes ! w))"
proof -
  have "bytes = take w bytes @ bytes ! w # drop (Suc w) bytes"
    using assms(1) by (rule id_take_nth_drop)
  then have "address_bits bytes =
      address_bits (take w bytes) @ byte_bits (bytes ! w) @ address_bits (drop (Suc w) bytes)"
    by (metis address_bits_append address_bits_def concat.simps(2) list.simps(9))
  then show ?thesis
    using assms by simp
qed

lemma take_address_bits_bytes: "w \<le> length bytes \<Longrightarrow> take (8 * w) (address_bits bytes) = address_bits (take w bytes)"
proof -
  assume "w \<le> length bytes"
  moreover have "address_bits bytes = address_bits (take w bytes) @ address_bits (drop w bytes)"
    by (metis address_bits_append append_take_drop_id)
  ultimately show ?thesis by simp
qed

text \<open>The byte-wise comparison with its mask is membership in the network: an address belongs to
  it exactly when it is of the same family and has the same first prefix bits.
\<close>

lemma cidr_contains_exact:
  assumes "length (ip_bytes (cidr_network c)) = 16" "length (ip_bytes address) = 16"
    and "cidr_prefix c \<le> 128"
  shows "cidr_contains c address \<longleftrightarrow>
    ip_family_of (cidr_network c) = ip_family_of address \<and>
    take (cidr_prefix c) (address_bits (ip_bytes (cidr_network c))) =
    take (cidr_prefix c) (address_bits (ip_bytes address))"
proof -
  let ?a = "ip_bytes (cidr_network c)" and ?b = "ip_bytes address"
  obtain w r where wr: "cidr_prefix c div 8 = w" "cidr_prefix c mod 8 = r" "cidr_prefix c = 8 * w + r"
      "r < 8" "w \<le> 16"
    using assms(3) by (intro that [of "cidr_prefix c div 8" "cidr_prefix c mod 8"]) auto
  have unfolded: "cidr_contains c address \<longleftrightarrow> ip_family_of (cidr_network c) = ip_family_of address \<and>
      take w ?a = take w ?b \<and> (r = 0 \<or> (?a ! w) AND prefix_mask r = (?b ! w) AND prefix_mask r)"
    by (simp add: cidr_contains_def Let_def wr(1,2))
  show ?thesis
  proof (cases "r = 0")
    case True
    have "take (8 * w) (address_bits ?a) = take (8 * w) (address_bits ?b) \<longleftrightarrow> take w ?a = take w ?b"
      using assms(1,2) wr(5) by (simp add: take_address_bits_bytes address_bits_inject)
    then show ?thesis
      unfolding unfolded wr(3) using True by simp
  next
    case False
    then have "w < 16" using wr(3,5) assms(3) by arith
    then have "take (8 * w + r) (address_bits ?a) = take (8 * w + r) (address_bits ?b) \<longleftrightarrow>
        take w ?a = take w ?b \<and> take r (byte_bits (?a ! w)) = take r (byte_bits (?b ! w))"
      using assms(1,2) wr(4) by (simp add: take_address_bits address_bits_inject)
    moreover have "(?a ! w) AND prefix_mask r = (?b ! w) AND prefix_mask r \<longleftrightarrow>
        take r (byte_bits (?a ! w)) = take r (byte_bits (?b ! w))"
      using wr(4) by (intro masked_eq_iff) simp
    ultimately show ?thesis
      unfolding unfolded wr(3) using False by simp
  qed
qed

lemma cidr_contains_exact_witness:
  "cidr_contains
     \<lparr>cidr_network = \<lparr>ip_family_of = Inet, ip_bytes = [10, 64] @ replicate 14 0\<rparr>, cidr_prefix = 10\<rparr>
     \<lparr>ip_family_of = Inet, ip_bytes = [10, 127] @ replicate 14 0\<rparr>"
  by (rule cidr_contains_exact [THEN iffD2]; code_simp)

section \<open>Forged hops\<close>

lemma split_fields_not_Nil [simp]: "split_fields d s \<noteq> []"
  by (induction s) (auto split: list.splits)

lemma split_fields_append: "split_fields d (a @ d # b) = split_fields d a @ split_fields d b"
  by (induction a) (auto split: list.splits)

lemma split_trimmed_append: "split_trimmed d (a @ d # b) = split_trimmed d a @ split_trimmed d b"
  by (simp add: split_trimmed_def split_fields_append)

lemma parse_chain_append:
  "parse_chain p (a @ b) =
     (case parse_chain p a of None \<Rightarrow> None
      | Some x \<Rightarrow> (case parse_chain p b of None \<Rightarrow> None | Some y \<Rightarrow> Some (x @ y)))"
  by (induction a) (auto split: option.splits)

definition untrusted_hop :: "ip_library \<Rightarrow> edge_source_normalizer \<Rightarrow> string \<Rightarrow> bool" where
  "untrusted_hop lib n hop \<longleftrightarrow>
     (case parse_ip lib hop of None \<Rightarrow> False | Some address \<Rightarrow> \<not> is_trusted n address)"

lemma nearest_untrusted_prefix:
  assumes "nearest_untrusted lib n front near = Some hop" "untrusted_hop lib n hop" "front \<in> set near"
  shows "nearest_untrusted lib n front' (near @ further) = Some hop"
proof -
  have "nearest_untrusted lib n front' (near @ further) = Some hop \<or>
      hop = front \<and> (\<forall>x \<in> set near. \<not> untrusted_hop lib n x)"
    using assms(1)
    by (induction near) (auto simp: untrusted_hop_def split: option.splits if_splits)
  with assms(2,3) show ?thesis by blast
qed

definition with_header :: "edge_source_normalizer \<Rightarrow> string \<Rightarrow> transport_source \<Rightarrow> transport_source" where
  "with_header n header source =
     (if esn_mode n = Trusted_x_forwarded_for then source\<lparr>ts_x_forwarded_for := header\<rparr>
      else source\<lparr>ts_forwarded := header\<rparr>)"

lemma with_header_sel [simp]:
  "ts_direct_peer (with_header n header source) = ts_direct_peer source"
  "esn_mode n = Trusted_x_forwarded_for \<Longrightarrow> ts_x_forwarded_for (with_header n header source) = header"
  "esn_mode n \<noteq> Trusted_x_forwarded_for \<Longrightarrow> ts_forwarded (with_header n header source) = header"
  by (simp_all add: with_header_def)

text \<open>
  C29. What a client writes in front of a forwarding header cannot choose its source: when the hops
  that the proxies appended give an address that is not a trusted proxy, any forged prefix leads
  to that address or to a refusal, in both header formats.
\<close>

theorem forged_hops_ignored:
  assumes "normalize_source lib n (with_header n appended source) = Some hop"
    and "parse_ip lib hop = Some address" "\<not> is_trusted n address"
  shows "normalize_source lib n (with_header n (forged @ CHR '','' # appended) source) \<in> {None, Some hop}"
proof -
  let ?s = "with_header n appended source" and ?f = "with_header n (forged @ CHR '','' # appended) source"
  let ?parse = "if esn_mode n = Trusted_x_forwarded_for then canonical_ip lib else forwarded_for_value lib"
  obtain direct canonical where d: "parse_ip lib (ts_direct_peer source) = Some direct"
      "canonical_ip lib (ts_direct_peer source) = Some canonical"
    using assms(1) by (auto simp: normalize_source_def split: option.splits)
  show ?thesis
  proof (cases "esn_mode n = Direct_peer \<or> \<not> is_trusted n direct")
    case True
    then show ?thesis
      using assms(1) d by (simp add: normalize_source_def)
  next
    case False
    then obtain near where near: "parse_chain ?parse (split_trimmed (CHR '','') appended) = Some near"
        "nearest_untrusted lib n (hd (near @ [canonical])) (rev (near @ [canonical])) = Some hop"
      using assms(1) d by (auto simp: normalize_source_def Let_def split: option.splits if_splits)
    show ?thesis
    proof (cases "parse_chain ?parse (split_trimmed (CHR '','') forged)")
      case None
      with False d near(1) show ?thesis
        by (simp add: normalize_source_def split_trimmed_append parse_chain_append split: if_splits)
    next
      case (Some far)
      have "hd (near @ [canonical]) \<in> set (rev (near @ [canonical]))" by (cases near) auto
      with near(2) have "nearest_untrusted lib n (hd (far @ near @ [canonical]))
          (rev (near @ [canonical]) @ rev far) = Some hop"
        using assms(2,3) by (intro nearest_untrusted_prefix) (auto simp: untrusted_hop_def)
      with Some False d near(1) show ?thesis
        by (simp add: normalize_source_def split_trimmed_append parse_chain_append split: if_splits)
    qed
  qed
qed

text \<open>Three addresses and one trusted network.\<close>

definition small_ip_library :: ip_library where
  "small_ip_library =
     \<lparr>inet_pton = (\<lambda>family text. if family = Inet6 then None
        else if text = ''10.0.0.1'' then Some [10, 0, 0, 1]
        else if text = ''9.9.9.9'' then Some [9, 9, 9, 9]
        else if text = ''1.2.3.4'' then Some [1, 2, 3, 4] else None),
      inet_ntop = (\<lambda>family bytes. if family = Inet6 then None
        else if bytes = [10, 0, 0, 1] then Some ''10.0.0.1''
        else if bytes = [9, 9, 9, 9] then Some ''9.9.9.9''
        else if bytes = [1, 2, 3, 4] then Some ''1.2.3.4'' else None)\<rparr>"

definition small_normalizer :: edge_source_normalizer where
  "small_normalizer = \<lparr>esn_mode = Trusted_x_forwarded_for,
     esn_trusted = [\<lparr>cidr_network = \<lparr>ip_family_of = Inet, ip_bytes = [10, 0, 0, 1] @ replicate 12 0\<rparr>,
                     cidr_prefix = 8\<rparr>]\<rparr>"

definition behind_proxy :: transport_source where
  "behind_proxy = \<lparr>ts_direct_peer = ''10.0.0.1'', ts_x_forwarded_for = [], ts_forwarded = []\<rparr>"

lemma small_cidr:
  "parse_cidr small_ip_library ''10.0.0.1/8'' =
     Some \<lparr>cidr_network = \<lparr>ip_family_of = Inet, ip_bytes = [10, 0, 0, 1] @ replicate 12 0\<rparr>, cidr_prefix = 8\<rparr>"
proof -
  have "find_from (CHR ''/'') ''10.0.0.1/8'' 0 = Some 8" "find_from (CHR ''/'') ''10.0.0.1/8'' 9 = None"
    "substr ''10.0.0.1/8'' 0 8 = ''10.0.0.1''"
    "parse_ip small_ip_library ''10.0.0.1'' =
      Some \<lparr>ip_family_of = Inet, ip_bytes = [10, 0, 0, 1] @ replicate 12 0\<rparr>"
    by code_simp+
  moreover have "decimal_loop (2 ^ 32 - 1) 0 ''8'' = Some 8"
    by (simp add: is_digit_def digit_value_def)
  ultimately show ?thesis
    by (simp add: parse_cidr_def)
qed

lemma small_normalizer_new:
  "new_edge_source_normalizer small_ip_library
     \<lparr>esc_mode = Trusted_x_forwarded_for, esc_trusted_proxies = [''10.0.0.1/8'']\<rparr> = Inr small_normalizer"
  by (simp add: new_edge_source_normalizer_def edge_source_validate_def small_cidr small_normalizer_def)

lemma forged_hops_example:
  "normalize_source small_ip_library small_normalizer
     (with_header small_normalizer ''9.9.9.9'' behind_proxy) = Some ''9.9.9.9''"
  "parse_ip small_ip_library ''9.9.9.9'' = Some \<lparr>ip_family_of = Inet, ip_bytes = [9, 9, 9, 9] @ replicate 12 0\<rparr>"
  "\<not> is_trusted small_normalizer \<lparr>ip_family_of = Inet, ip_bytes = [9, 9, 9, 9] @ replicate 12 0\<rparr>"
  by code_simp+

theorem forged_hops_ignored_witness:
  "normalize_source small_ip_library small_normalizer
     (with_header small_normalizer (''1.2.3.4'' @ CHR '','' # ''9.9.9.9'') behind_proxy)
     \<in> {None, Some ''9.9.9.9''}"
  by (rule forged_hops_ignored [OF forged_hops_example])

end
