(* ===== verification/Edge_Table.thy ===== *)
theory Edge_Table
  imports RM_Prelude "HOL-Library.AList"
begin

text \<open>
  The edge connection table (\<open>framework/edge/src/edge_connection_table.cpp\<close>): connection ids, their
  records and the reverse index by transport session. The transports behind the table are an
  argument, the record \<open>transport_env\<close> over a world of their own, one operation per virtual
  function of \<open>IMessageTransport\<close> that the table and the runtime call. Ids are 64-bit words; the
  counter comes back to the invalid id 0 when they are used up.
\<close>

datatype transport_protocol = Quic | Tls_tcp

type_synonym connection_id = u64
type_synonym session_id = u64

record edge_transport =
  et_name :: string
  et_protocol :: transport_protocol
  et_session :: session_id

record edge_record =
  er_primary :: edge_transport
  er_source :: string
  er_established :: bool

record closed_connection =
  cc_id :: connection_id
  cc_source :: string
  cc_established :: bool

datatype send_result = Sent | Unknown_session | Send_failed

record edge_table =
  tb_transports :: "string \<rightharpoonup> transport_protocol"
  tb_connections :: "connection_id \<rightharpoonup> edge_record"
  tb_by_transport :: "string \<rightharpoonup> (session_id \<times> connection_id) list"
  tb_next :: connection_id

datatype transport_event_kind = Session_opened | Message_in | Session_closed | Address_changed

record 's transport_event =
  te_kind :: transport_event_kind
  te_session :: session_id
  te_payload :: "u8 list"
  te_source :: 's

record ('s, 'w) transport_env =
  env_poll :: "string \<Rightarrow> 'w \<Rightarrow> (error + 's transport_event list) \<times> 'w"
  env_send :: "string \<Rightarrow> session_id \<Rightarrow> u8 list \<Rightarrow> 'w \<Rightarrow> bool \<times> 'w"
  env_close :: "string \<Rightarrow> session_id \<Rightarrow> 'w \<Rightarrow> bool \<times> 'w"
  env_reload :: "string \<Rightarrow> 'w \<Rightarrow> bool \<times> 'w"

section \<open>Operations\<close>

definition new_edge_table :: edge_table where
  "new_edge_table = \<lparr>tb_transports = Map.empty, tb_connections = Map.empty,
     tb_by_transport = Map.empty, tb_next = 1\<rparr>"

definition register_transport ::
  "string \<Rightarrow> transport_protocol \<Rightarrow> edge_table \<Rightarrow> error + edge_table" where
  "register_transport name protocol tb =
     (if tb_transports tb name \<noteq> None
      then Inl (Invalid_argument ''transport is already registered in the edge session table'')
      else Inr (tb\<lparr>tb_transports := (tb_transports tb)(name \<mapsto> protocol)\<rparr>))"

definition find_connection :: "string \<Rightarrow> session_id \<Rightarrow> edge_table \<Rightarrow> connection_id option" where
  "find_connection name session tb =
     (case tb_by_transport tb name of None \<Rightarrow> None | Some sessions \<Rightarrow> map_of sessions session)"

definition open_connection ::
  "string \<Rightarrow> session_id \<Rightarrow> string \<Rightarrow> edge_table \<Rightarrow> error + (connection_id \<times> edge_table)" where
  "open_connection name session source tb =
     (case tb_transports tb name of
        None \<Rightarrow> Inl (Invalid_argument ''cannot open an edge session on an unknown transport'')
      | Some protocol \<Rightarrow>
          if session = 0 \<or> source = []
          then Inl (Invalid_argument ''cannot open an edge session on an unknown transport'')
          else case find_connection name session tb of
                 Some existing \<Rightarrow> Inr (existing, tb)
               | None \<Rightarrow>
                   if tb_next tb = 0 then Inl (Runtime_error ''edge session id space exhausted'')
                   else Inr (tb_next tb,
                     tb\<lparr>tb_next := tb_next tb + 1,
                       tb_connections := (tb_connections tb)(tb_next tb \<mapsto>
                         \<lparr>er_primary = \<lparr>et_name = name, et_protocol = protocol, et_session = session\<rparr>,
                          er_source = source, er_established = False\<rparr>),
                       tb_by_transport := (tb_by_transport tb)(name \<mapsto>
                         (session, tb_next tb) #
                         (case tb_by_transport tb name of None \<Rightarrow> [] | Some sessions \<Rightarrow> sessions))\<rparr>))"

definition update_source :: "connection_id \<Rightarrow> string \<Rightarrow> edge_table \<Rightarrow> bool \<times> edge_table" where
  "update_source cid source tb =
     (case tb_connections tb cid of
        None \<Rightarrow> (False, tb)
      | Some r \<Rightarrow>
          if source = [] then (False, tb)
          else (True, tb\<lparr>tb_connections := (tb_connections tb)(cid \<mapsto> r\<lparr>er_source := source\<rparr>)\<rparr>))"

definition establish_connection :: "connection_id \<Rightarrow> edge_table \<Rightarrow> bool \<times> edge_table" where
  "establish_connection cid tb =
     (case tb_connections tb cid of
        None \<Rightarrow> (False, tb)
      | Some r \<Rightarrow>
          if er_established r then (False, tb)
          else (True, tb\<lparr>tb_connections := (tb_connections tb)(cid \<mapsto> r\<lparr>er_established := True\<rparr>)\<rparr>))"

definition connection_record :: "connection_id \<Rightarrow> edge_table \<Rightarrow> edge_record option" where
  "connection_record cid tb = tb_connections tb cid"

definition erase_connection :: "connection_id \<Rightarrow> edge_record \<Rightarrow> edge_table \<Rightarrow> edge_table" where
  "erase_connection cid r tb =
     (let primary = er_primary r;
          tb1 = tb\<lparr>tb_connections := (tb_connections tb)(cid := None)\<rparr>
      in case tb_by_transport tb (et_name primary) of
           None \<Rightarrow> tb1
         | Some sessions \<Rightarrow>
             (let left = AList.delete (et_session primary) sessions
              in tb1\<lparr>tb_by_transport := (tb_by_transport tb)(et_name primary :=
                   (if left = [] then None else Some left))\<rparr>))"

definition closed_snapshot :: "connection_id \<Rightarrow> edge_record \<Rightarrow> closed_connection" where
  "closed_snapshot cid r =
     \<lparr>cc_id = cid, cc_source = er_source r, cc_established = er_established r\<rparr>"

definition on_transport_closed ::
  "string \<Rightarrow> session_id \<Rightarrow> edge_table \<Rightarrow> closed_connection option \<times> edge_table" where
  "on_transport_closed name session tb =
     (case find_connection name session tb of
        None \<Rightarrow> (None, tb)
      | Some cid \<Rightarrow>
          (case tb_connections tb cid of
             None \<Rightarrow> (None, tb)
           | Some r \<Rightarrow> (Some (closed_snapshot cid r), erase_connection cid r tb)))"

definition send_connection ::
  "('s, 'w) transport_env \<Rightarrow> connection_id \<Rightarrow> u8 list \<Rightarrow> edge_table \<Rightarrow> 'w \<Rightarrow> send_result \<times> 'w" where
  "send_connection env cid payload tb w =
     (case tb_connections tb cid of
        None \<Rightarrow> (Unknown_session, w)
      | Some r \<Rightarrow>
          if tb_transports tb (et_name (er_primary r)) = None then (Unknown_session, w)
          else case env_send env (et_name (er_primary r)) (et_session (er_primary r)) payload w of
                 (ok, w') \<Rightarrow> (if ok then Sent else Send_failed, w'))"

definition close_table_connection ::
  "('s, 'w) transport_env \<Rightarrow> connection_id \<Rightarrow> edge_table \<Rightarrow> 'w \<Rightarrow>
     closed_connection option \<times> edge_table \<times> 'w" where
  "close_table_connection env cid tb w =
     (case tb_connections tb cid of
        None \<Rightarrow> (None, tb, w)
      | Some r \<Rightarrow>
          (Some (closed_snapshot cid r), erase_connection cid r tb,
           if tb_transports tb (et_name (er_primary r)) = None then w
           else snd (env_close env (et_name (er_primary r)) (et_session (er_primary r)) w)))"

section \<open>The table is consistent\<close>

text \<open>The reverse index is the inverse of the records, has no empty or repeated entries, and
  every id was handed out by the counter.\<close>

definition handed_out :: "connection_id \<Rightarrow> edge_table \<Rightarrow> bool" where
  "handed_out cid tb \<longleftrightarrow> cid \<noteq> 0 \<and> (tb_next tb = 0 \<or> cid < tb_next tb)"

definition index_ok :: "edge_table \<Rightarrow> bool" where
  "index_ok tb \<longleftrightarrow>
     (\<forall>name session cid. find_connection name session tb = Some cid \<longleftrightarrow>
        (\<exists>r. tb_connections tb cid = Some r \<and> et_name (er_primary r) = name \<and>
             et_session (er_primary r) = session))"

definition sessions_ok :: "edge_table \<Rightarrow> bool" where
  "sessions_ok tb \<longleftrightarrow>
     (\<forall>name sessions. tb_by_transport tb name = Some sessions \<longrightarrow>
        sessions \<noteq> [] \<and> distinct (map fst sessions))"

definition record_ok :: "edge_table \<Rightarrow> connection_id \<Rightarrow> edge_record \<Rightarrow> bool" where
  "record_ok tb cid r \<longleftrightarrow>
     handed_out cid tb \<and> tb_transports tb (et_name (er_primary r)) = Some (et_protocol (er_primary r)) \<and>
     et_session (er_primary r) \<noteq> 0 \<and> er_source r \<noteq> []"

definition table_ok :: "edge_table \<Rightarrow> bool" where
  "table_ok tb \<longleftrightarrow> index_ok tb \<and> sessions_ok tb \<and>
     (\<forall>cid r. tb_connections tb cid = Some r \<longrightarrow> record_ok tb cid r)"

lemma find_connection_alt:
  "find_connection name session tb =
     map_of (case tb_by_transport tb name of None \<Rightarrow> [] | Some sessions \<Rightarrow> sessions) session"
  by (simp add: find_connection_def split: option.splits)

lemma table_ok_index:
  "table_ok tb \<Longrightarrow> find_connection name session tb = Some cid \<longleftrightarrow>
     (\<exists>r. tb_connections tb cid = Some r \<and> et_name (er_primary r) = name \<and>
          et_session (er_primary r) = session)"
  by (simp add: table_ok_def index_ok_def)

lemma table_ok_found:
  assumes "table_ok tb" "find_connection name session tb = Some cid"
  obtains r where "tb_connections tb cid = Some r" "et_name (er_primary r) = name"
    "et_session (er_primary r) = session"
  using assms table_ok_index by blast

lemma table_ok_record: "table_ok tb \<Longrightarrow> tb_connections tb cid = Some r \<Longrightarrow> record_ok tb cid r"
  by (simp add: table_ok_def)

lemma table_ok_back:
  "table_ok tb \<Longrightarrow> tb_connections tb cid = Some r \<Longrightarrow>
     find_connection (et_name (er_primary r)) (et_session (er_primary r)) tb = Some cid"
  using table_ok_index by blast

lemma new_edge_table_ok: "table_ok new_edge_table"
  by (simp add: table_ok_def index_ok_def sessions_ok_def new_edge_table_def find_connection_def)

lemma register_transport_ok:
  assumes "table_ok tb" "register_transport name protocol tb = Inr tb'"
  shows "table_ok tb'"
proof -
  have new: "tb_transports tb name = None"
    and tb': "tb' = tb\<lparr>tb_transports := (tb_transports tb)(name \<mapsto> protocol)\<rparr>"
    using assms(2) by (auto simp: register_transport_def split: if_splits)
  have "record_ok tb' cid r" if "tb_connections tb cid = Some r" for cid r
    using table_ok_record [OF assms(1) that] new
    by (auto simp: record_ok_def tb' handed_out_def)
  then show ?thesis
    using assms(1) by (simp add: table_ok_def index_ok_def sessions_ok_def find_connection_def tb')
qed

lemma next_id_fresh: "table_ok tb \<Longrightarrow> tb_connections tb (tb_next tb) = None"
  using table_ok_record [of tb "tb_next tb"]
  by (cases "tb_connections tb (tb_next tb)") (auto simp: record_ok_def handed_out_def)

lemma word_next_less: "y + 1 = 0 \<or> y < y + (1 :: u64)"
proof (cases "1 + y = 0")
  case False
  then have "unat (1 + y) = Suc (unat y)" by (rule unatSuc)
  then show ?thesis by (simp add: word_less_nat_alt add.commute)
qed (simp add: add.commute)

lemma handed_out_Suc: "handed_out cid tb \<Longrightarrow> tb_next tb \<noteq> 0 \<Longrightarrow> tb_next tb' = tb_next tb + 1 \<Longrightarrow> handed_out cid tb'"
  using word_next_less [of "tb_next tb"] by (auto simp: handed_out_def)

lemma next_handed_out: "tb_next tb \<noteq> 0 \<Longrightarrow> tb_next tb' = tb_next tb + 1 \<Longrightarrow> handed_out (tb_next tb) tb'"
  using word_next_less [of "tb_next tb"] by (auto simp: handed_out_def)

text \<open>Opening either returns the existing id of the session or hands out the next one.\<close>

lemma open_connection_cases:
  assumes "open_connection name session source tb = Inr (cid, tb')"
  obtains (existing) "find_connection name session tb = Some cid" "tb' = tb"
  | (fresh) protocol where "find_connection name session tb = None" "cid = tb_next tb" "tb_next tb \<noteq> 0"
      "tb_transports tb name = Some protocol" "session \<noteq> 0" "source \<noteq> []"
      "tb' = tb\<lparr>tb_next := tb_next tb + 1,
         tb_connections := (tb_connections tb)(cid \<mapsto>
           \<lparr>er_primary = \<lparr>et_name = name, et_protocol = protocol, et_session = session\<rparr>,
            er_source = source, er_established = False\<rparr>),
         tb_by_transport := (tb_by_transport tb)(name \<mapsto>
           (session, cid) # (case tb_by_transport tb name of None \<Rightarrow> [] | Some sessions \<Rightarrow> sessions))\<rparr>"
  using assms by (auto simp: open_connection_def split: option.splits if_splits)

lemma open_connection_ok:
  assumes "table_ok tb" "open_connection name session source tb = Inr (cid, tb')"
  shows "table_ok tb'"
  using assms(2)
proof (cases rule: open_connection_cases)
  case existing
  then show ?thesis using assms(1) by simp
next
  case (fresh protocol)
  have find: "find_connection name' session' tb' =
      (if name' = name \<and> session' = session then Some cid else find_connection name' session' tb)"
    for name' session'
    unfolding fresh(7) find_connection_alt by (auto split: option.splits)
  have conns: "tb_connections tb' = (tb_connections tb)(cid \<mapsto>
      \<lparr>er_primary = \<lparr>et_name = name, et_protocol = protocol, et_session = session\<rparr>,
       er_source = source, er_established = False\<rparr>)"
    by (simp add: fresh(7))
  have none: "tb_connections tb cid = None"
    using next_id_fresh [OF assms(1)] fresh(2) by simp
  have "index_ok tb'"
    unfolding index_ok_def
  proof (intro allI)
    fix name' session' cid'
    show "find_connection name' session' tb' = Some cid' \<longleftrightarrow>
      (\<exists>r. tb_connections tb' cid' = Some r \<and> et_name (er_primary r) = name' \<and>
        et_session (er_primary r) = session')"
      using table_ok_index [OF assms(1), of name' session' cid'] none fresh(1)
        table_ok_index [OF assms(1), of name session]
      by (cases "cid' = cid") (auto simp: find conns)
  qed
  moreover have "sessions_ok tb'"
  proof -
    have "session \<notin> fst ` set (case tb_by_transport tb name of None \<Rightarrow> [] | Some sessions \<Rightarrow> sessions)"
      using fresh(1) by (simp add: find_connection_alt map_of_eq_None_iff)
    then show ?thesis
      using assms(1) unfolding table_ok_def sessions_ok_def
      by (auto simp: fresh(7) split: option.splits)
  qed
  moreover have "record_ok tb' cid' r" if "tb_connections tb' cid' = Some r" for cid' r
  proof (cases "cid' = cid")
    case True
    then show ?thesis
      using that fresh next_handed_out [of tb tb'] by (auto simp: record_ok_def)
  next
    case False
    then have "record_ok tb cid' r"
      using that table_ok_record [OF assms(1)] by (simp add: fresh(7))
    then show ?thesis
      using handed_out_Suc [of cid' tb tb'] fresh(3) by (auto simp: record_ok_def fresh(7))
  qed
  ultimately show ?thesis by (simp add: table_ok_def)
qed

text \<open>Changing the source or the phase of a record keeps the table.\<close>

lemma record_changed_ok:
  assumes "table_ok tb" "tb_connections tb cid = Some r" "er_primary r' = er_primary r" "er_source r' \<noteq> []"
  shows "table_ok (tb\<lparr>tb_connections := (tb_connections tb)(cid \<mapsto> r')\<rparr>)"
proof -
  let ?tb = "tb\<lparr>tb_connections := (tb_connections tb)(cid \<mapsto> r')\<rparr>"
  have "index_ok ?tb"
    using assms(1-3) unfolding table_ok_def index_ok_def find_connection_def by simp
  moreover have "sessions_ok ?tb"
    using assms(1) by (simp add: table_ok_def sessions_ok_def)
  moreover have "record_ok ?tb cid' q" if "tb_connections ?tb cid' = Some q" for cid' q
    using that table_ok_record [OF assms(1)] assms(2-4)
    by (cases "cid' = cid") (fastforce simp: record_ok_def handed_out_def)+
  ultimately show ?thesis by (simp add: table_ok_def)
qed

lemma update_source_ok: "table_ok tb \<Longrightarrow> table_ok (snd (update_source cid source tb))"
  by (auto simp: update_source_def intro: record_changed_ok split: option.splits)

lemma establish_connection_ok: "table_ok tb \<Longrightarrow> table_ok (snd (establish_connection cid tb))"
  using table_ok_record [of tb cid]
  by (auto simp: establish_connection_def record_ok_def intro: record_changed_ok split: option.splits)

lemma erase_connection_ok:
  assumes "table_ok tb" "tb_connections tb cid = Some r"
  shows "table_ok (erase_connection cid r tb)"
proof -
  let ?name = "et_name (er_primary r)" and ?session = "et_session (er_primary r)"
  let ?tb = "erase_connection cid r tb"
  have found: "find_connection ?name ?session tb = Some cid"
    by (rule table_ok_back [OF assms])
  then obtain sessions where sessions: "tb_by_transport tb ?name = Some sessions"
    by (auto simp: find_connection_def split: option.splits)
  have conns: "tb_connections ?tb = (tb_connections tb)(cid := None)" "tb_next ?tb = tb_next tb"
    "tb_transports ?tb = tb_transports tb"
    by (auto simp: erase_connection_def Let_def split: option.splits)
  have lists: "tb_by_transport ?tb = (tb_by_transport tb)(?name :=
      (if AList.delete ?session sessions = [] then None else Some (AList.delete ?session sessions)))"
    by (simp add: erase_connection_def Let_def sessions)
  have find: "find_connection name' session' ?tb =
      (if name' = ?name \<and> session' = ?session then None else find_connection name' session' tb)"
    for name' session'
  proof (cases "name' = ?name")
    case True
    have "map_of (AList.delete ?session sessions) session' =
        (if session' = ?session then None else map_of sessions session')"
      by (simp add: AList.delete_conv)
    then show ?thesis
      using True sessions
      by (cases "AList.delete ?session sessions = []") (auto simp: find_connection_def lists split: if_splits)
  qed (simp add: find_connection_def lists)
  have "index_ok ?tb"
    unfolding index_ok_def
  proof (intro allI)
    fix name' session' cid'
    show "find_connection name' session' ?tb = Some cid' \<longleftrightarrow>
      (\<exists>q. tb_connections ?tb cid' = Some q \<and> et_name (er_primary q) = name' \<and>
        et_session (er_primary q) = session')"
      using table_ok_index [OF assms(1), of name' session' cid'] found assms(2)
        table_ok_index [OF assms(1), of ?name ?session cid']
      by (cases "cid' = cid") (auto simp: find conns)
  qed
  moreover have "sessions_ok ?tb"
    using assms(1) sessions unfolding table_ok_def sessions_ok_def
    by (auto simp: lists AList.distinct_delete split: if_splits)
  moreover have "record_ok ?tb cid' q" if "tb_connections ?tb cid' = Some q" for cid' q
    using that table_ok_record [OF assms(1), of cid' q]
    by (auto simp: conns record_ok_def handed_out_def split: if_splits)
  ultimately show ?thesis by (simp add: table_ok_def)
qed

lemma on_transport_closed_ok: "table_ok tb \<Longrightarrow> table_ok (snd (on_transport_closed name session tb))"
  by (auto simp: on_transport_closed_def intro: erase_connection_ok split: option.splits)

lemma close_table_connection_ok:
  "table_ok tb \<Longrightarrow> table_ok (fst (snd (close_table_connection env cid tb w)))"
  by (auto simp: close_table_connection_def intro: erase_connection_ok split: option.splits)

end
