(* ===== verification/Work_Pool.thy ===== *)
theory Work_Pool
  imports RM_Prelude "HOL-Library.Multiset"
begin

text \<open>
  Bounded queue and bounded work pool (\<open>framework/concurrency\<close>). A mutex makes every public
  operation and every locked section of a worker one step; the interleavings of the owner
  thread and the workers are the runs of the step relation \<open>pool_step\<close>. The job's effect is
  outside the pool: a worker may finish with any result, and the events of a run record
  which. \<open>in_flight_\<close> is a 64-bit counter.
\<close>

section \<open>Bounded queue\<close>

record 'a bounded_queue =
  bq_capacity :: nat
  bq_items :: "'a list"

definition new_bounded_queue :: "nat \<Rightarrow> error + 'a bounded_queue" where
  "new_bounded_queue capacity =
     (if capacity = 0 then Inl (Invalid_argument ''bounded queue capacity must be positive'')
      else Inr \<lparr>bq_capacity = capacity, bq_items = []\<rparr>)"

definition try_push :: "'a \<Rightarrow> 'a bounded_queue \<Rightarrow> bool \<times> 'a bounded_queue" where
  "try_push item q =
     (if bq_capacity q \<le> length (bq_items q) then (False, q)
      else (True, q\<lparr>bq_items := bq_items q @ [item]\<rparr>))"

definition try_pop :: "'a bounded_queue \<Rightarrow> 'a option \<times> 'a bounded_queue" where
  "try_pop q =
     (case bq_items q of
        [] \<Rightarrow> (None, q)
      | item # rest \<Rightarrow> (Some item, q\<lparr>bq_items := rest\<rparr>))"

definition drain_queue :: "nat \<Rightarrow> 'a bounded_queue \<Rightarrow> 'a list \<times> 'a bounded_queue" where
  "drain_queue max_items q =
     (let n = min max_items (length (bq_items q))
      in (take n (bq_items q), q\<lparr>bq_items := drop n (bq_items q)\<rparr>))"

definition queue_ok :: "'a bounded_queue \<Rightarrow> bool" where
  "queue_ok q \<longleftrightarrow> 0 < bq_capacity q \<and> length (bq_items q) \<le> bq_capacity q"

lemma new_bounded_queue_ok: "new_bounded_queue capacity = Inr q \<Longrightarrow> queue_ok q"
  by (auto simp: new_bounded_queue_def queue_ok_def split: if_splits)

lemma try_push_ok: "queue_ok q \<Longrightarrow> queue_ok (snd (try_push item q))"
  by (auto simp: try_push_def queue_ok_def)

lemma try_pop_ok: "queue_ok q \<Longrightarrow> queue_ok (snd (try_pop q))"
  by (auto simp: try_pop_def queue_ok_def split: list.splits)

lemma drain_queue_ok: "queue_ok q \<Longrightarrow> queue_ok (snd (drain_queue n q))"
  by (auto simp: drain_queue_def queue_ok_def Let_def)

lemma drain_queue_splits: "drain_queue n q = (items, q') \<Longrightarrow> bq_items q = items @ bq_items q'"
  by (auto simp: drain_queue_def Let_def)

section \<open>Work pool\<close>

datatype work_submit_result = Submitted | Submit_full | Submit_stopped

text \<open>A worker waits on the condition variable, runs a job outside the lock, or has left
  its loop.\<close>

datatype 'j worker = Worker_idle | Worker_running u64 'j | Worker_gone

record ('j, 'r) work_pool =
  wp_capacity :: u64
  wp_queue :: "(u64 \<times> 'j) list"
  wp_completions :: "(u64 \<times> 'r) list"
  wp_running :: "u64 set"
  wp_cancelled :: "u64 set"
  wp_in_flight :: u64
  wp_stopped :: bool
  wp_stop_requested :: bool
  wp_workers :: "'j worker list"

definition new_work_pool :: "nat \<Rightarrow> u64 \<Rightarrow> error + ('j, 'r) work_pool" where
  "new_work_pool workers capacity =
     (if workers = 0 then Inl (Invalid_argument ''work pool needs at least one worker'')
      else if capacity = 0 then Inl (Invalid_argument ''work pool capacity must be positive'')
      else Inr \<lparr>wp_capacity = capacity, wp_queue = [], wp_completions = [], wp_running = {},
                wp_cancelled = {}, wp_in_flight = 0, wp_stopped = False,
                wp_stop_requested = False, wp_workers = replicate workers Worker_idle\<rparr>)"

definition try_submit ::
  "u64 \<Rightarrow> 'j \<Rightarrow> ('j, 'r) work_pool \<Rightarrow> work_submit_result \<times> ('j, 'r) work_pool" where
  "try_submit job_id job p =
     (if wp_stopped p then (Submit_stopped, p)
      else if wp_capacity p \<le> wp_in_flight p then (Submit_full, p)
      else (Submitted, p\<lparr>wp_queue := wp_queue p @ [(job_id, job)],
                         wp_in_flight := wp_in_flight p + 1\<rparr>))"

definition drain_pool ::
  "nat \<Rightarrow> ('j, 'r) work_pool \<Rightarrow> (u64 \<times> 'r) list \<times> ('j, 'r) work_pool" where
  "drain_pool max_items p =
     (let n = min max_items (length (wp_completions p))
      in (take n (wp_completions p),
          p\<lparr>wp_completions := drop n (wp_completions p),
            wp_in_flight := wp_in_flight p - word_of_nat n\<rparr>))"

text \<open>\<open>std::find_if\<close> followed by \<open>erase\<close>: the first entry with the id goes.\<close>

fun erase_first :: "u64 \<Rightarrow> (u64 \<times> 'a) list \<Rightarrow> (u64 \<times> 'a) list" where
  "erase_first job_id [] = []"
| "erase_first job_id (entry # rest) =
     (if fst entry = job_id then rest else entry # erase_first job_id rest)"

definition cancel_job :: "u64 \<Rightarrow> ('j, 'r) work_pool \<Rightarrow> ('j, 'r) work_pool" where
  "cancel_job job_id p =
     (if job_id \<in> fst ` set (wp_queue p)
      then p\<lparr>wp_queue := erase_first job_id (wp_queue p), wp_in_flight := wp_in_flight p - 1\<rparr>
      else if job_id \<in> fst ` set (wp_completions p)
      then p\<lparr>wp_completions := erase_first job_id (wp_completions p),
             wp_in_flight := wp_in_flight p - 1\<rparr>
      else if job_id \<in> wp_running p
      then p\<lparr>wp_cancelled := insert job_id (wp_cancelled p)\<rparr>
      else p)"

text \<open>\<open>stop()\<close>: its locked section, the stop requests, and the join, which returns when
  every worker has left its loop.\<close>

definition stop_pool :: "('j, 'r) work_pool \<Rightarrow> ('j, 'r) work_pool" where
  "stop_pool p =
     p\<lparr>wp_stopped := True, wp_in_flight := wp_in_flight p - word_of_nat (length (wp_queue p)),
       wp_queue := []\<rparr>"

definition request_stop :: "('j, 'r) work_pool \<Rightarrow> ('j, 'r) work_pool" where
  "request_stop p = p\<lparr>wp_stop_requested := True\<rparr>"

definition join_workers :: "('j, 'r) work_pool \<Rightarrow> ('j, 'r) work_pool option" where
  "join_workers p =
     (if list_all (\<lambda>w. w = Worker_gone) (wp_workers p) then Some (p\<lparr>wp_workers := []\<rparr>) else None)"

text \<open>The loop of worker \<open>i\<close>. The wait returns the predicate: with a queued job the worker
  takes it even when a stop is requested, without one it leaves only on a stop request.\<close>

definition worker_take :: "nat \<Rightarrow> ('j, 'r) work_pool \<Rightarrow> ('j, 'r) work_pool option" where
  "worker_take i p =
     (if i < length (wp_workers p) \<and> wp_workers p ! i = Worker_idle
      then case wp_queue p of
             [] \<Rightarrow> None
           | (job_id, job) # rest \<Rightarrow>
               Some (p\<lparr>wp_queue := rest, wp_running := insert job_id (wp_running p),
                       wp_workers := (wp_workers p)[i := Worker_running job_id job]\<rparr>)
      else None)"

definition worker_leave :: "nat \<Rightarrow> ('j, 'r) work_pool \<Rightarrow> ('j, 'r) work_pool option" where
  "worker_leave i p =
     (if i < length (wp_workers p) \<and> wp_workers p ! i = Worker_idle \<and> wp_queue p = [] \<and>
         wp_stop_requested p
      then Some (p\<lparr>wp_workers := (wp_workers p)[i := Worker_gone]\<rparr>)
      else None)"

definition worker_finish :: "nat \<Rightarrow> 'r \<Rightarrow> ('j, 'r) work_pool \<Rightarrow> ('j, 'r) work_pool option" where
  "worker_finish i result p =
     (if i < length (wp_workers p)
      then case wp_workers p ! i of
             Worker_running job_id job \<Rightarrow>
               (let p1 = p\<lparr>wp_running := wp_running p - {job_id},
                           wp_workers := (wp_workers p)[i := Worker_idle]\<rparr>
                in if job_id \<in> wp_cancelled p
                   then Some (p1\<lparr>wp_cancelled := wp_cancelled p - {job_id},
                                 wp_in_flight := wp_in_flight p - 1\<rparr>)
                   else Some (p1\<lparr>wp_completions := wp_completions p @ [(job_id, result)]\<rparr>))
           | _ \<Rightarrow> None
      else None)"

section \<open>The ledger of slots\<close>

fun running_ids :: "'j worker list \<Rightarrow> u64 list" where
  "running_ids [] = []"
| "running_ids (Worker_running job_id job # ws) = job_id # running_ids ws"
| "running_ids (_ # ws) = running_ids ws"

lemma running_ids_append [simp]: "running_ids (a @ b) = running_ids a @ running_ids b"
  by (induction a rule: running_ids.induct) simp_all

lemma running_ids_replicate [simp]: "running_ids (replicate n Worker_idle) = []"
  by (induction n) simp_all

lemma worker_split:
  assumes "i < length ws" "ws ! i = w"
  obtains a b where "ws = a @ w # b" "i = length a"
  using id_take_nth_drop [OF assms(1)] assms(1) assms(2)
  by (metis length_take min.absorb4)

text \<open>The ids that occupy a slot, and the invariant: the counter is the number of occupied
  slots, the id sets mirror the workers, and the ids are distinct.\<close>

definition pool_ids :: "('j, 'r) work_pool \<Rightarrow> u64 list" where
  "pool_ids p = map fst (wp_queue p) @ running_ids (wp_workers p) @ map fst (wp_completions p)"

definition pool_ok :: "('j, 'r) work_pool \<Rightarrow> bool" where
  "pool_ok p \<longleftrightarrow>
     unat (wp_in_flight p) = length (pool_ids p) \<and> length (pool_ids p) \<le> unat (wp_capacity p) \<and>
     distinct (pool_ids p) \<and> wp_running p = set (running_ids (wp_workers p)) \<and>
     wp_cancelled p \<subseteq> set (running_ids (wp_workers p)) \<and> (wp_stopped p \<longrightarrow> wp_queue p = []) \<and>
     (wp_stop_requested p \<longrightarrow> wp_stopped p)"

lemma new_work_pool_ok: "new_work_pool workers capacity = Inr p \<Longrightarrow> pool_ok p"
  by (auto simp: new_work_pool_def pool_ok_def pool_ids_def split: if_splits)

lemma try_submit_ok:
  assumes "pool_ok p" "job_id \<notin> set (pool_ids p)"
  shows "pool_ok (snd (try_submit job_id job p))"
proof (cases "wp_stopped p \<or> wp_capacity p \<le> wp_in_flight p")
  case False
  then have less: "wp_in_flight p < wp_capacity p" by (meson not_le)
  have "unat (wp_in_flight p + 1) = Suc (unat (wp_in_flight p))"
    by (rule u64_less_Suc [OF less])
  moreover have "Suc (unat (wp_in_flight p)) \<le> unat (wp_capacity p)"
    using less by (simp add: word_less_nat_alt)
  ultimately show ?thesis
    using False assms by (auto simp: try_submit_def pool_ok_def pool_ids_def)
qed (use assms in \<open>auto simp: try_submit_def\<close>)

text \<open>Every other step moves ids between the parts of the pool or frees the slots of some.\<close>

lemma slots_freed:
  assumes "pool_ok p" "mset (pool_ids p) = mset freed + mset (pool_ids p')"
    and "wp_in_flight p' = wp_in_flight p - word_of_nat (length freed)"
    and "wp_capacity p' = wp_capacity p"
  shows "unat (wp_in_flight p') = length (pool_ids p') \<and> distinct (pool_ids p') \<and>
    length (pool_ids p') \<le> unat (wp_capacity p')"
proof -
  have perm: "mset (pool_ids p) = mset (freed @ pool_ids p')"
    using assms(2) by simp
  have size: "length (pool_ids p) = length freed + length (pool_ids p')"
    using mset_eq_length [OF perm] by simp
  have "distinct (freed @ pool_ids p')"
    using assms(1) mset_eq_imp_distinct_iff [OF perm] by (simp add: pool_ok_def)
  moreover have "unat (word_of_nat (length freed) :: u64) = length freed"
    using assms(1) size u64_unat_lt [of "wp_in_flight p"]
    by (simp add: pool_ok_def unsigned_of_nat take_bit_nat_eq_self)
  then have "unat (wp_in_flight p') = length (pool_ids p')"
    using assms(1,3) size by (simp add: pool_ok_def u64_diff_unat word_le_nat_alt)
  ultimately show ?thesis
    using assms(1,4) size by (simp add: pool_ok_def)
qed

lemmas slots_moved = slots_freed [where freed = "[]", simplified]
lemmas slot_freed = slots_freed [where freed = "[job_id]" for job_id, simplified]

lemma drain_pool_ok:
  assumes "pool_ok p"
  shows "pool_ok (snd (drain_pool n p))"
proof -
  let ?n = "min n (length (wp_completions p))" and ?p' = "snd (drain_pool n p)"
  let ?freed = "map fst (take ?n (wp_completions p))"
  have "mset (map fst (wp_completions p)) = mset ?freed + mset (map fst (drop ?n (wp_completions p)))"
    by (metis append_take_drop_id map_append mset_append)
  then have "mset (pool_ids p) = mset ?freed + mset (pool_ids ?p')"
    by (simp add: pool_ids_def drain_pool_def Let_def)
  from slots_freed [OF assms this] assms show ?thesis
    by (simp add: pool_ok_def drain_pool_def Let_def)
qed

lemma erase_first_split:
  assumes "job_id \<in> fst ` set xs"
  obtains a v b where "xs = a @ (job_id, v) # b" "erase_first job_id xs = a @ b"
proof -
  have "\<exists>a v b. xs = a @ (job_id, v) # b \<and> erase_first job_id xs = a @ b"
    using assms
  proof (induction xs)
    case (Cons entry rest)
    show ?case
    proof (cases "fst entry = job_id")
      case True
      then show ?thesis by (intro exI [of _ "[]"] exI [of _ "snd entry"] exI [of _ rest]) auto
    next
      case False
      then obtain a v b where "rest = a @ (job_id, v) # b" "erase_first job_id rest = a @ b"
        using Cons by auto
      then show ?thesis
        using False by (intro exI [of _ "entry # a"] exI [of _ v] exI [of _ b]) simp
    qed
  qed simp
  then show thesis using that by blast
qed

lemma cancel_job_ok:
  assumes "pool_ok p"
  shows "pool_ok (cancel_job job_id p)"
proof (cases "job_id \<in> fst ` set (wp_queue p)")
  case True
  then obtain a v b where "wp_queue p = a @ (job_id, v) # b" "erase_first job_id (wp_queue p) = a @ b"
    by (rule erase_first_split)
  then have "mset (pool_ids p) = add_mset job_id (mset (pool_ids (cancel_job job_id p)))"
    using True by (simp add: cancel_job_def pool_ids_def)
  from slot_freed [OF assms this] assms True show ?thesis
    by (auto simp: cancel_job_def pool_ok_def)
next
  case queue: False
  show ?thesis
  proof (cases "job_id \<in> fst ` set (wp_completions p)")
    case True
    then obtain a v b where "wp_completions p = a @ (job_id, v) # b"
        "erase_first job_id (wp_completions p) = a @ b"
      by (rule erase_first_split)
    then have "mset (pool_ids p) = add_mset job_id (mset (pool_ids (cancel_job job_id p)))"
      using True queue by (simp add: cancel_job_def pool_ids_def)
    from slot_freed [OF assms this] assms True queue show ?thesis
      by (simp add: cancel_job_def pool_ok_def)
  next
    case False
    then show ?thesis
      using assms queue by (simp add: cancel_job_def pool_ok_def pool_ids_def)
  qed
qed

lemma stop_pool_ok:
  assumes "pool_ok p"
  shows "pool_ok (stop_pool p)"
proof -
  have "mset (pool_ids p) = mset (map fst (wp_queue p)) + mset (pool_ids (stop_pool p))"
    by (simp add: stop_pool_def pool_ids_def)
  from slots_freed [OF assms this] assms show ?thesis
    by (simp add: stop_pool_def pool_ok_def)
qed

lemma request_stop_ok: "pool_ok p \<Longrightarrow> wp_stopped p \<Longrightarrow> pool_ok (request_stop p)"
  by (simp add: request_stop_def pool_ok_def pool_ids_def)

lemma all_gone_running: "list_all (\<lambda>w. w = Worker_gone) ws \<Longrightarrow> running_ids ws = []"
  by (induction ws) auto

lemma join_workers_ok:
  assumes "pool_ok p" "join_workers p = Some p'"
  shows "pool_ok p'"
proof -
  have gone: "running_ids (wp_workers p) = []" and p': "p' = p\<lparr>wp_workers := []\<rparr>"
    using assms(2) by (auto simp: join_workers_def all_gone_running split: if_splits)
  show ?thesis
    using assms(1) gone by (simp add: p' pool_ok_def pool_ids_def)
qed

lemma worker_takeE:
  assumes "worker_take i p = Some p'"
  obtains job_id job rest a b where "wp_queue p = (job_id, job) # rest"
    "wp_workers p = a @ Worker_idle # b" "i = length a"
    "p' = p\<lparr>wp_queue := rest, wp_running := insert job_id (wp_running p),
             wp_workers := a @ Worker_running job_id job # b\<rparr>"
proof -
  obtain job_id job rest where
    w: "i < length (wp_workers p)" "wp_workers p ! i = Worker_idle" "wp_queue p = (job_id, job) # rest"
    and p': "p' = p\<lparr>wp_queue := rest, wp_running := insert job_id (wp_running p),
                       wp_workers := (wp_workers p)[i := Worker_running job_id job]\<rparr>"
    using assms by (auto simp: worker_take_def split: if_splits list.splits)
  from w(1,2) obtain a b where "wp_workers p = a @ Worker_idle # b" "i = length a"
    by (rule worker_split)
  with w p' show thesis by (intro that) simp_all
qed

lemma worker_leaveE:
  assumes "worker_leave i p = Some p'"
  obtains a b where "wp_queue p = []" "wp_stop_requested p"
    "wp_workers p = a @ Worker_idle # b" "i = length a"
    "p' = p\<lparr>wp_workers := a @ Worker_gone # b\<rparr>"
proof -
  have w: "i < length (wp_workers p)" "wp_workers p ! i = Worker_idle" "wp_queue p = []"
      "wp_stop_requested p" and p': "p' = p\<lparr>wp_workers := (wp_workers p)[i := Worker_gone]\<rparr>"
    using assms by (auto simp: worker_leave_def split: if_splits)
  from w(1,2) obtain a b where "wp_workers p = a @ Worker_idle # b" "i = length a"
    by (rule worker_split)
  with w p' show thesis by (intro that) simp_all
qed

lemma worker_finishE:
  assumes "worker_finish i result p = Some p'"
  obtains job_id job a b where "wp_workers p = a @ Worker_running job_id job # b" "i = length a"
    "p' = (if job_id \<in> wp_cancelled p
      then p\<lparr>wp_running := wp_running p - {job_id}, wp_workers := a @ Worker_idle # b,
             wp_cancelled := wp_cancelled p - {job_id}, wp_in_flight := wp_in_flight p - 1\<rparr>
      else p\<lparr>wp_running := wp_running p - {job_id}, wp_workers := a @ Worker_idle # b,
             wp_completions := wp_completions p @ [(job_id, result)]\<rparr>)"
proof -
  obtain job_id job where
    w: "i < length (wp_workers p)" "wp_workers p ! i = Worker_running job_id job"
    using assms by (auto simp: worker_finish_def split: if_splits worker.splits)
  then obtain a b where ws: "wp_workers p = a @ Worker_running job_id job # b" "i = length a"
    by (rule worker_split)
  with w assms show thesis
    by (intro that [OF ws]) (simp add: worker_finish_def Let_def split: if_splits)
qed

lemma worker_take_ok:
  assumes "pool_ok p" "worker_take i p = Some p'"
  shows "pool_ok p'"
  using assms(2)
proof (rule worker_takeE)
  fix job_id job rest a b
  assume q: "wp_queue p = (job_id, job) # rest" and ws: "wp_workers p = a @ Worker_idle # b"
    and p': "p' = p\<lparr>wp_queue := rest, wp_running := insert job_id (wp_running p),
             wp_workers := a @ Worker_running job_id job # b\<rparr>"
  have "mset (pool_ids p) = mset (pool_ids p')"
    using q ws by (simp add: p' pool_ids_def)
  from slots_moved [OF assms(1) this] assms(1) q ws show ?thesis
    by (auto simp: p' pool_ok_def)
qed

lemma worker_leave_ok:
  assumes "pool_ok p" "worker_leave i p = Some p'"
  shows "pool_ok p'"
  using assms(2) by (rule worker_leaveE) (use assms(1) in \<open>simp add: pool_ok_def pool_ids_def\<close>)

lemma worker_finish_ok:
  assumes "pool_ok p" "worker_finish i result p = Some p'"
  shows "pool_ok p'"
  using assms(2)
proof (rule worker_finishE)
  fix job_id job a b
  assume ws: "wp_workers p = a @ Worker_running job_id job # b"
    and p': "p' = (if job_id \<in> wp_cancelled p
      then p\<lparr>wp_running := wp_running p - {job_id}, wp_workers := a @ Worker_idle # b,
             wp_cancelled := wp_cancelled p - {job_id}, wp_in_flight := wp_in_flight p - 1\<rparr>
      else p\<lparr>wp_running := wp_running p - {job_id}, wp_workers := a @ Worker_idle # b,
             wp_completions := wp_completions p @ [(job_id, result)]\<rparr>)"
  have once: "job_id \<notin> set (running_ids a @ running_ids b)"
    using assms(1) ws by (simp add: pool_ok_def pool_ids_def)
  show ?thesis
  proof (cases "job_id \<in> wp_cancelled p")
    case True
    then have "mset (pool_ids p) = add_mset job_id (mset (pool_ids p'))"
      using ws by (simp add: p' pool_ids_def)
    from slot_freed [OF assms(1) this] assms(1) True ws once show ?thesis
      by (auto simp: p' pool_ok_def)
  next
    case False
    then have "mset (pool_ids p) = mset (pool_ids p')"
      using ws by (simp add: p' pool_ids_def)
    from slots_moved [OF assms(1) this] assms(1) False ws once show ?thesis
      by (auto simp: p' pool_ok_def)
  qed
qed

lemmas pool_ok_steps = try_submit_ok drain_pool_ok cancel_job_ok stop_pool_ok request_stop_ok
  join_workers_ok worker_take_ok worker_leave_ok worker_finish_ok

section \<open>Interleavings\<close>

datatype ('j, 'r) pool_event =
    Ev_submit u64 'j work_submit_result
  | Ev_drain "(u64 \<times> 'r) list"
  | Ev_cancel u64
  | Ev_stop
  | Ev_request_stop
  | Ev_join
  | Ev_take u64
  | Ev_finish u64 'r
  | Ev_leave

text \<open>One step of the owner thread or of a worker. The caller's duty of the header is a
  premise: a submitted id is not in use. The stop requests follow the locked section of
  \<open>stop()\<close>, and the join follows them.\<close>

inductive pool_step ::
  "('j, 'r) work_pool \<Rightarrow> ('j, 'r) pool_event \<Rightarrow> ('j, 'r) work_pool \<Rightarrow> bool" where
  submit: "pool_step p (Ev_submit job_id job result) p'"
    if "job_id \<notin> set (pool_ids p)" "try_submit job_id job p = (result, p')"
| drain: "pool_step p (Ev_drain items) p'" if "drain_pool n p = (items, p')"
| cancel: "pool_step p (Ev_cancel job_id) (cancel_job job_id p)"
| stop: "pool_step p Ev_stop (stop_pool p)"
| request_stop: "pool_step p Ev_request_stop (request_stop p)" if "wp_stopped p"
| join: "pool_step p Ev_join p'" if "wp_stop_requested p" "join_workers p = Some p'"
| take: "pool_step p (Ev_take job_id) p'"
    if "wp_queue p = (job_id, job) # rest" "worker_take i p = Some p'"
| finish: "pool_step p (Ev_finish job_id result) p'"
    if "i < length (wp_workers p)" "wp_workers p ! i = Worker_running job_id job"
      "worker_finish i result p = Some p'"
| leave: "pool_step p Ev_leave p'" if "worker_leave i p = Some p'"

inductive_cases submit_stepE: "pool_step p (Ev_submit job_id job result) p'"
inductive_cases drain_stepE: "pool_step p (Ev_drain items) p'"
inductive_cases cancel_stepE: "pool_step p (Ev_cancel job_id) p'"
inductive_cases take_stepE: "pool_step p (Ev_take job_id) p'"
inductive_cases finish_stepE: "pool_step p (Ev_finish job_id result) p'"
inductive_cases leave_stepE: "pool_step p Ev_leave p'"

inductive pool_run ::
  "('j, 'r) work_pool \<Rightarrow> ('j, 'r) pool_event list \<Rightarrow> ('j, 'r) work_pool \<Rightarrow> bool" where
  nothing: "pool_run p [] p"
| step: "pool_run p (e # es) p''" if "pool_step p e p'" "pool_run p' es p''"

inductive_cases pool_run_NilE: "pool_run p [] p'"
inductive_cases pool_run_ConsE: "pool_run p (e # es) p'"

lemma pool_run_append:
  "pool_run p (a @ b) p'' \<Longrightarrow> \<exists>p'. pool_run p a p' \<and> pool_run p' b p''"
  by (induction a arbitrary: p) (auto intro: pool_run.intros elim!: pool_run_ConsE, blast intro: pool_run.step)

lemma pool_run_snoc: "pool_run p es p' \<Longrightarrow> pool_step p' e p'' \<Longrightarrow> pool_run p (es @ [e]) p''"
  by (induction rule: pool_run.induct) (auto intro: pool_run.intros)

lemma pool_step_ok: "pool_step p e p' \<Longrightarrow> pool_ok p \<Longrightarrow> pool_ok p'"
proof (induction rule: pool_step.induct)
  case (submit job_id p job result p')
  then show ?case using try_submit_ok [of p job_id job] by simp
next
  case (drain n p items p')
  then show ?case using drain_pool_ok [of p n] by simp
qed (auto intro: pool_ok_steps)

lemma pool_run_ok: "pool_run p es p' \<Longrightarrow> pool_ok p \<Longrightarrow> pool_ok p'"
  by (induction rule: pool_run.induct) (auto intro: pool_step_ok)

text \<open>Until a stop is requested the pool has its workers and none has left.\<close>

definition pool_staffed :: "('j, 'r) work_pool \<Rightarrow> bool" where
  "pool_staffed p \<longleftrightarrow>
     wp_stop_requested p \<or> wp_workers p \<noteq> [] \<and> Worker_gone \<notin> set (wp_workers p)"

lemma new_work_pool_staffed: "new_work_pool workers capacity = Inr p \<Longrightarrow> pool_staffed p"
  by (auto simp: new_work_pool_def pool_staffed_def split: if_splits)

lemma pool_step_staffed: "pool_step p e p' \<Longrightarrow> pool_staffed p \<Longrightarrow> pool_staffed p'"
proof (induction rule: pool_step.induct)
  case (take p job_id job rest i p')
  from take(2,3) show ?case by (auto simp: pool_staffed_def elim: worker_takeE)
next
  case (finish i p job_id job result p')
  from finish(3,4) show ?case by (auto simp: pool_staffed_def elim: worker_finishE split: if_splits)
next
  case (leave i p p')
  from leave(1,2) show ?case by (auto simp: pool_staffed_def elim: worker_leaveE)
qed (auto simp: pool_staffed_def try_submit_def drain_pool_def cancel_job_def stop_pool_def
    request_stop_def join_workers_def Let_def split: if_splits)

lemma pool_run_staffed: "pool_run p es p' \<Longrightarrow> pool_staffed p \<Longrightarrow> pool_staffed p'"
  by (induction rule: pool_run.induct) (auto intro: pool_step_staffed)

section \<open>Properties\<close>

text \<open>
  C24. In every interleaving of submissions, drains, cancellations, stops and worker steps the
  counter \<open>in_flight_\<close> is exactly the number of queued, running and completed jobs, never
  exceeds the capacity and never wraps around; the id sets are those of the running workers.
\<close>

theorem pool_slots_exact:
  assumes "new_work_pool workers capacity = Inr p0" "pool_run p0 events p"
  shows "unat (wp_in_flight p) =
           length (wp_queue p) + length (running_ids (wp_workers p)) + length (wp_completions p) \<and>
    wp_in_flight p \<le> wp_capacity p \<and>
    wp_running p = set (running_ids (wp_workers p)) \<and> wp_cancelled p \<subseteq> wp_running p"
proof -
  have "pool_ok p"
    using assms new_work_pool_ok pool_run_ok by blast
  then show ?thesis
    by (auto simp: pool_ok_def pool_ids_def word_le_nat_alt)
qed

text \<open>What a run submitted and delivered.\<close>

fun submitted :: "('j, 'r) pool_event list \<Rightarrow> u64 list" where
  "submitted [] = []"
| "submitted (Ev_submit job_id job Submitted # es) = job_id # submitted es"
| "submitted (_ # es) = submitted es"

fun delivered :: "('j, 'r) pool_event list \<Rightarrow> (u64 \<times> 'r) list" where
  "delivered [] = []"
| "delivered (Ev_drain items # es) = items @ delivered es"
| "delivered (_ # es) = delivered es"

lemma submitted_append [simp]: "submitted (a @ b) = submitted a @ submitted b"
  by (induction a rule: submitted.induct) simp_all

lemma delivered_append [simp]: "delivered (a @ b) = delivered a @ delivered b"
  by (induction a rule: delivered.induct) simp_all

definition history_ok :: "('j, 'r) pool_event list \<Rightarrow> ('j, 'r) work_pool \<Rightarrow> bool" where
  "history_ok h p \<longleftrightarrow>
     mset (map fst (delivered h)) + mset (pool_ids p) \<subseteq># mset (submitted h) \<and>
     (\<forall>item \<in> set (delivered h) \<union> set (wp_completions p). Ev_finish (fst item) (snd item) \<in> set h)"

lemma subset_mset_less: "a + b \<subseteq># c \<Longrightarrow> b' \<subseteq># b \<Longrightarrow> a + b' \<subseteq># (c :: 'a multiset)"
  by (meson subset_mset.add_left_mono subset_mset.order_trans)

lemma history_ok_kept:
  assumes "history_ok h p" "delivered [e] = []" "submitted [e] = []"
    and "mset (pool_ids p') \<subseteq># mset (pool_ids p)"
    and "set (wp_completions p') \<subseteq> set (wp_completions p)"
  shows "history_ok (h @ [e]) p'"
  using assms subset_mset_less [OF _ assms(4)] unfolding history_ok_def by auto

lemma erase_first_mset: "mset (map fst (erase_first job_id xs)) \<subseteq># mset (map fst xs)"
  by (induction xs) (auto intro: subset_mset.order_trans)

lemma erase_first_set: "set (erase_first job_id xs) \<subseteq> set xs"
  by (induction xs) auto

lemma cancel_job_ids: "mset (pool_ids (cancel_job job_id p)) \<subseteq># mset (pool_ids p)"
  using erase_first_mset [of job_id "wp_queue p"] erase_first_mset [of job_id "wp_completions p"]
  by (auto simp: cancel_job_def pool_ids_def intro: subset_mset.add_mono)

lemma pool_step_history:
  assumes "pool_step p e p'" "pool_ok p" "history_ok h p"
  shows "history_ok (h @ [e]) p'"
  using assms(1)
proof cases
  case (submit job_id job result)
  show ?thesis
  proof (cases result)
    case Submitted
    then have "mset (pool_ids p') = add_mset job_id (mset (pool_ids p))"
      "wp_completions p' = wp_completions p"
      using submit by (auto simp: try_submit_def pool_ids_def split: if_splits)
    then show ?thesis
      using assms(3) submit(1) Submitted by (simp add: history_ok_def)
  qed (use submit assms(3) in \<open>auto simp: try_submit_def history_ok_def split: if_splits\<close>)
next
  case (drain n items)
  have parts: "wp_completions p = items @ wp_completions p'" "wp_queue p' = wp_queue p"
    "wp_workers p' = wp_workers p"
    using drain(2) by (auto simp: drain_pool_def Let_def)
  show ?thesis
    using assms(3) unfolding history_ok_def drain(1) by (auto simp: pool_ids_def parts ac_simps)
next
  case (cancel job_id)
  have "set (wp_completions p') \<subseteq> set (wp_completions p)"
    using erase_first_set [of job_id "wp_completions p"] by (auto simp: cancel(2) cancel_job_def)
  then show ?thesis
    using history_ok_kept [OF assms(3)] cancel_job_ids [of job_id p] cancel by simp
next
  case stop
  then show ?thesis
    by (intro history_ok_kept [OF assms(3)]) (simp_all add: stop_pool_def pool_ids_def)
next
  case request_stop
  then show ?thesis
    by (intro history_ok_kept [OF assms(3)]) (simp_all add: request_stop_def pool_ids_def)
next
  case join
  then show ?thesis
    by (intro history_ok_kept [OF assms(3)])
      (auto simp: join_workers_def pool_ids_def split: if_splits)
next
  case (take job_id job rest i)
  from take(3) show ?thesis
    by (rule worker_takeE) (intro history_ok_kept [OF assms(3)]; simp add: take(1) pool_ids_def)
next
  case (finish i job_id job result)
  from finish(4) show ?thesis
  proof (rule worker_finishE)
    fix id' job' a b
    assume ws: "wp_workers p = a @ Worker_running id' job' # b" "i = length a"
      and p': "p' = (if id' \<in> wp_cancelled p
        then p\<lparr>wp_running := wp_running p - {id'}, wp_workers := a @ Worker_idle # b,
               wp_cancelled := wp_cancelled p - {id'}, wp_in_flight := wp_in_flight p - 1\<rparr>
        else p\<lparr>wp_running := wp_running p - {id'}, wp_workers := a @ Worker_idle # b,
               wp_completions := wp_completions p @ [(id', result)]\<rparr>)"
    have "id' = job_id" using ws finish(3) by simp
    show ?thesis
    proof (cases "job_id \<in> wp_cancelled p")
      case True
      show ?thesis
        by (intro history_ok_kept [OF assms(3)])
          (use True p' ws \<open>id' = job_id\<close> finish(1) in \<open>auto simp: pool_ids_def\<close>)
    next
      case False
      then show ?thesis
        using assms(3) p' ws \<open>id' = job_id\<close> finish(1)
        by (auto simp: history_ok_def pool_ids_def ac_simps)
    qed
  qed
next
  case (leave i)
  from leave(2) show ?thesis
    by (rule worker_leaveE) (intro history_ok_kept [OF assms(3)]; simp add: leave(1) pool_ids_def)
qed

lemma pool_run_history:
  "pool_run p es p' \<Longrightarrow> pool_ok p \<Longrightarrow> history_ok h p \<Longrightarrow> history_ok (h @ es) p'"
proof (induction arbitrary: h rule: pool_run.induct)
  case (step p e p' es p'')
  then have "history_ok ((h @ [e]) @ es) p''"
    by (blast intro: pool_step_history pool_step_ok)
  then show ?case by simp
qed simp

text \<open>A job that was cancelled and can no longer reach the completions.\<close>

definition job_dropped :: "u64 \<Rightarrow> ('j, 'r) work_pool \<Rightarrow> bool" where
  "job_dropped job_id p \<longleftrightarrow> job_id \<notin> fst ` set (wp_queue p) \<and> job_id \<notin> fst ` set (wp_completions p) \<and>
     (job_id \<in> set (running_ids (wp_workers p)) \<longrightarrow> job_id \<in> wp_cancelled p)"

lemma erase_first_gone: "distinct (map fst xs) \<Longrightarrow> job_id \<notin> fst ` set (erase_first job_id xs)"
  by (induction xs) (auto simp: image_iff split: if_splits)

lemma cancel_job_dropped:
  assumes "pool_ok p"
  shows "job_dropped job_id (cancel_job job_id p)"
proof -
  have parts: "distinct (map fst (wp_queue p))" "distinct (map fst (wp_completions p))"
    "wp_running p = set (running_ids (wp_workers p))"
    and apart: "\<And>x. x \<in> fst ` set (wp_queue p) \<Longrightarrow> x \<notin> fst ` set (wp_completions p)"
    "\<And>x. x \<in> set (running_ids (wp_workers p)) \<Longrightarrow>
      x \<notin> fst ` set (wp_queue p) \<and> x \<notin> fst ` set (wp_completions p)"
    using assms unfolding pool_ok_def pool_ids_def distinct_append set_append set_map by blast+
  consider "job_id \<in> fst ` set (wp_queue p)"
    | "job_id \<notin> fst ` set (wp_queue p)" "job_id \<in> fst ` set (wp_completions p)"
    | "job_id \<notin> fst ` set (wp_queue p)" "job_id \<notin> fst ` set (wp_completions p)" by blast
  then show ?thesis
  proof cases
    case 1
    with erase_first_gone [OF parts(1), of job_id] apart(1) apart(2) [of job_id] show ?thesis
      unfolding cancel_job_def job_dropped_def by simp blast
  next
    case 2
    with erase_first_gone [OF parts(2), of job_id] apart(2) [of job_id] show ?thesis
      unfolding cancel_job_def job_dropped_def by simp blast
  next
    case 3
    with parts(3) show ?thesis
      unfolding cancel_job_def job_dropped_def by simp
  qed
qed

lemma pool_step_dropped:
  assumes "pool_step p e p'" "pool_ok p" "job_dropped job_id p" "job_id \<notin> set (submitted [e])"
  shows "job_dropped job_id p' \<and> job_id \<notin> fst ` set (delivered [e])"
  using assms(1)
proof cases
  case (submit other job result)
  then show ?thesis
    using assms(3,4) by (cases result) (auto simp: try_submit_def job_dropped_def split: if_splits)
next
  case (drain n items)
  have parts: "wp_completions p = items @ wp_completions p'" "wp_queue p' = wp_queue p"
    "wp_workers p' = wp_workers p" "wp_cancelled p' = wp_cancelled p"
    using drain(2) by (auto simp: drain_pool_def Let_def)
  show ?thesis
    using assms(3) drain(1) by (auto simp: job_dropped_def parts)
next
  case (cancel other)
  have "set (erase_first other (wp_queue p)) \<subseteq> set (wp_queue p)"
    "set (erase_first other (wp_completions p)) \<subseteq> set (wp_completions p)"
    by (rule erase_first_set)+
  then show ?thesis
    using assms(3) cancel by (auto simp: cancel_job_def job_dropped_def)
next
  case stop
  then show ?thesis using assms(3) by (auto simp: stop_pool_def job_dropped_def)
next
  case request_stop
  then show ?thesis using assms(3) by (auto simp: request_stop_def job_dropped_def)
next
  case join
  then show ?thesis using assms(3) by (auto simp: join_workers_def job_dropped_def split: if_splits)
next
  case (take other job rest i)
  from take(3) show ?thesis
    by (rule worker_takeE) (use assms(3) take(1,2) in \<open>auto simp: job_dropped_def\<close>)
next
  case (finish i other job result)
  have once: "distinct (running_ids (wp_workers p))"
    using assms(2) by (simp add: pool_ok_def pool_ids_def)
  from finish(4) show ?thesis
    by (rule worker_finishE)
      (use assms(3) finish(1) once in \<open>auto simp: job_dropped_def split: if_splits\<close>)
next
  case (leave i)
  from leave(2) show ?thesis
    by (rule worker_leaveE) (use assms(3) leave(1) in \<open>auto simp: job_dropped_def\<close>)
qed

lemma submitted_Cons: "submitted (e # es) = submitted [e] @ submitted es"
  using submitted_append [of "[e]" es] by simp

lemma delivered_Cons: "delivered (e # es) = delivered [e] @ delivered es"
  using delivered_append [of "[e]" es] by simp

lemma pool_run_dropped:
  "pool_run p es p' \<Longrightarrow> pool_ok p \<Longrightarrow> job_dropped job_id p \<Longrightarrow> job_id \<notin> set (submitted es) \<Longrightarrow>
     job_id \<notin> fst ` set (delivered es)"
proof (induction rule: pool_run.induct)
  case (step p e p' es p'')
  have "job_id \<notin> set (submitted [e])" "job_id \<notin> set (submitted es)"
    using step.prems(3) submitted_Cons [of e es] by auto
  with step pool_step_dropped [OF step(1) step.prems(1,2)] pool_step_ok [OF step(1) step.prems(1)]
  show ?case
    using delivered_Cons [of e es] by auto
qed simp

text \<open>
  C25. Provided the ids of a pool's submissions are distinct, as those of its callers are, each
  accepted job is delivered at most once, only with a result with which a worker finished
  it, and never after it was cancelled, whatever the interleaving.
\<close>

theorem job_delivered_once:
  assumes "new_work_pool workers capacity = Inr p0" "pool_run p0 events p"
    and "distinct (submitted events)"
  shows "distinct (map fst (delivered events)) \<and>
    (\<forall>(job_id, result) \<in> set (delivered events).
       job_id \<in> set (submitted events) \<and> Ev_finish job_id result \<in> set events) \<and>
    (\<forall>before job_id after. events = before @ Ev_cancel job_id # after \<and> job_id \<in> set (submitted before) \<longrightarrow>
       job_id \<notin> fst ` set (delivered after))"
proof -
  have ok: "pool_ok p0" using assms(1) by (rule new_work_pool_ok)
  have "history_ok [] p0"
    using assms(1) by (auto simp: history_ok_def new_work_pool_def pool_ids_def split: if_splits)
  from pool_run_history [OF assms(2) ok this] have h: "history_ok events p" by simp
  then have sub: "mset (map fst (delivered events)) \<subseteq># mset (submitted events)"
    unfolding history_ok_def by (meson mset_subset_eq_add_left subset_mset.order_trans)
  have "distinct (map fst (delivered events))"
    using assms(3) sub by (metis distinct_append ex_mset mset_append mset_eq_imp_distinct_iff subset_mset.le_iff_add)
  moreover have "job_id \<in> set (submitted events) \<and> Ev_finish job_id result \<in> set events"
    if "(job_id, result) \<in> set (delivered events)" for job_id result
    using that h mset_subset_eqD [OF sub, of job_id] by (force simp: history_ok_def)
  moreover have "job_id \<notin> fst ` set (delivered after)"
    if split: "events = before @ Ev_cancel job_id # after" "job_id \<in> set (submitted before)"
    for before job_id after
  proof -
    obtain q q' where q: "pool_run p0 before q" "pool_step q (Ev_cancel job_id) q'" "pool_run q' after p"
      using pool_run_append [of p0 before "Ev_cancel job_id # after" p] assms(2) split(1)
      by (auto elim: pool_run_ConsE)
    have qok: "pool_ok q" using pool_run_ok [OF q(1) ok] .
    have "q' = cancel_job job_id q" using q(2) by (auto elim: cancel_stepE)
    then have "job_dropped job_id q'" using cancel_job_dropped [OF qok] by simp
    moreover have "job_id \<notin> set (submitted after)"
      using assms(3) split by auto
    ultimately show ?thesis
      using pool_run_dropped [OF q(3)] pool_step_ok [OF q(2) qok] by blast
  qed
  ultimately show ?thesis by blast
qed

text \<open>One job through a pool of one slot.\<close>

definition small_pool :: "(nat, nat) work_pool" where
  "small_pool =
     \<lparr>wp_capacity = 1, wp_queue = [], wp_completions = [], wp_running = {}, wp_cancelled = {},
      wp_in_flight = 0, wp_stopped = False, wp_stop_requested = False, wp_workers = [Worker_idle]\<rparr>"

lemma small_pool_new: "new_work_pool 1 1 = Inr small_pool"
  by (simp add: new_work_pool_def small_pool_def)

lemma small_pool_run:
  "pool_run small_pool [Ev_submit 7 5 Submitted, Ev_take 7, Ev_finish 7 25, Ev_drain [(7, 25)]] small_pool"
proof -
  let ?queued = "small_pool\<lparr>wp_queue := [(7, 5)], wp_in_flight := 1\<rparr>"
  let ?running = "small_pool\<lparr>wp_running := {7}, wp_in_flight := 1, wp_workers := [Worker_running 7 5]\<rparr>"
  let ?ready = "small_pool\<lparr>wp_completions := [(7, 25)], wp_in_flight := 1\<rparr>"
  have "pool_step small_pool (Ev_submit 7 5 Submitted) ?queued"
    by (rule pool_step.submit) (simp_all add: small_pool_def pool_ids_def try_submit_def)
  moreover have "pool_step ?queued (Ev_take 7) ?running"
    by (rule pool_step.take [of _ 7 5 "[]" 0]) (simp_all add: small_pool_def worker_take_def)
  moreover have "pool_step ?running (Ev_finish 7 25) ?ready"
    by (rule pool_step.finish [of 0 _ 7 5]) (simp_all add: small_pool_def worker_finish_def)
  moreover have "pool_step ?ready (Ev_drain [(7, 25)]) small_pool"
    by (rule pool_step.drain [of 4]) (simp add: small_pool_def drain_pool_def)
  ultimately show ?thesis
    by (blast intro: pool_run.intros)
qed

theorem pool_slots_exact_witness:
  "unat (wp_in_flight small_pool) = length (wp_queue small_pool) +
     length (running_ids (wp_workers small_pool)) + length (wp_completions small_pool)"
  using pool_slots_exact [OF small_pool_new small_pool_run] by blast

theorem job_delivered_once_witness:
  "distinct (map fst (delivered [Ev_submit (7 :: u64) (5 :: nat) Submitted, Ev_take 7,
     Ev_finish 7 (25 :: nat), Ev_drain [(7, 25)]]))"
  using job_delivered_once [OF small_pool_new small_pool_run] by simp

section \<open>Progress\<close>

fun worker_event :: "('j, 'r) pool_event \<Rightarrow> bool" where
  "worker_event (Ev_take _) = True"
| "worker_event (Ev_finish _ _) = True"
| "worker_event Ev_leave = True"
| "worker_event _ = False"

definition worker_step :: "('j, 'r) work_pool \<Rightarrow> ('j, 'r) pool_event \<Rightarrow> ('j, 'r) work_pool \<Rightarrow> bool" where
  "worker_step p e p' \<longleftrightarrow> worker_event e \<and> pool_step p e p'"

fun staying :: "'j worker list \<Rightarrow> nat" where
  "staying [] = 0"
| "staying (Worker_gone # ws) = staying ws"
| "staying (_ # ws) = Suc (staying ws)"

lemma staying_append [simp]: "staying (a @ b) = staying a + staying b"
  by (induction a rule: staying.induct) simp_all

lemma staying_le: "staying ws \<le> length ws"
  by (induction ws rule: staying.induct) simp_all

definition work_left :: "('j, 'r) work_pool \<Rightarrow> nat" where
  "work_left p = 2 * length (wp_queue p) + length (running_ids (wp_workers p)) + staying (wp_workers p)"

lemma worker_stepE:
  assumes "worker_step p e p'"
  obtains (take) i where "worker_take i p = Some p'"
    | (finish) i result where "worker_finish i result p = Some p'"
    | (leave) i where "worker_leave i p = Some p'"
  using assms by (cases e) (auto simp: worker_step_def elim: take_stepE finish_stepE leave_stepE)

lemma worker_step_progress:
  assumes "worker_step p e p'"
  shows "Suc (work_left p') = work_left p"
  using assms
proof (cases rule: worker_stepE)
  case (take i)
  then show ?thesis by (rule worker_takeE) (simp add: work_left_def)
next
  case (finish i result)
  then show ?thesis by (rule worker_finishE) (simp add: work_left_def)
next
  case (leave i)
  then show ?thesis by (rule worker_leaveE) (simp add: work_left_def)
qed

text \<open>The jobs whose results are still to be handed over.\<close>

definition wanted :: "('j, 'r) work_pool \<Rightarrow> u64 set" where
  "wanted p = set (pool_ids p) - wp_cancelled p"

lemma worker_step_wanted:
  assumes "worker_step p e p'" "pool_ok p"
  shows "wanted p' = wanted p"
  using assms(1)
proof (cases rule: worker_stepE)
  case (take i)
  then show ?thesis by (rule worker_takeE) (auto simp: wanted_def pool_ids_def)
next
  case (finish i result)
  then show ?thesis
  proof (rule worker_finishE)
    fix job_id job a b
    assume ws: "wp_workers p = a @ Worker_running job_id job # b"
      and p': "p' = (if job_id \<in> wp_cancelled p
        then p\<lparr>wp_running := wp_running p - {job_id}, wp_workers := a @ Worker_idle # b,
               wp_cancelled := wp_cancelled p - {job_id}, wp_in_flight := wp_in_flight p - 1\<rparr>
        else p\<lparr>wp_running := wp_running p - {job_id}, wp_workers := a @ Worker_idle # b,
               wp_completions := wp_completions p @ [(job_id, result)]\<rparr>)"
    have "set (pool_ids p) = insert job_id (set (pool_ids (p\<lparr>wp_workers := a @ Worker_idle # b\<rparr>)))"
      "job_id \<notin> set (pool_ids (p\<lparr>wp_workers := a @ Worker_idle # b\<rparr>))"
      using assms(2) ws by (auto simp: pool_ok_def pool_ids_def)
    then show ?thesis
      by (auto simp: p' wanted_def pool_ids_def)
  qed
next
  case (leave i)
  then show ?thesis by (rule worker_leaveE) (auto simp: wanted_def pool_ids_def)
qed

text \<open>A pool none of whose workers can move.\<close>

definition workers_quiet :: "('j, 'r) work_pool \<Rightarrow> bool" where
  "workers_quiet p \<longleftrightarrow> (\<forall>e p'. \<not> worker_step p e p')"

lemma no_running_ids:
  "(\<And>job_id job. Worker_running job_id job \<notin> set ws) \<Longrightarrow> running_ids ws = []"
  by (induction ws rule: running_ids.induct) auto

lemma quiet_not_running:
  assumes "workers_quiet p"
  shows "running_ids (wp_workers p) = []"
proof -
  have "Worker_running job_id job \<notin> set (wp_workers p)" for job_id job
  proof
    assume "Worker_running job_id job \<in> set (wp_workers p)"
    then obtain i where i: "i < length (wp_workers p)" "wp_workers p ! i = Worker_running job_id job"
      by (auto simp: in_set_conv_nth)
    then obtain p' where "worker_finish i undefined p = Some p'"
      by (cases "job_id \<in> wp_cancelled p") (auto simp: worker_finish_def Let_def)
    with i have "worker_step p (Ev_finish job_id undefined) p'"
      by (auto simp: worker_step_def intro: pool_step.finish)
    with assms show False by (simp add: workers_quiet_def)
  qed
  then show ?thesis
    by (rule no_running_ids)
qed

lemma idle_takes:
  assumes "Worker_idle \<in> set (wp_workers p)" "wp_queue p \<noteq> []"
  shows "\<not> workers_quiet p"
proof -
  obtain i where i: "i < length (wp_workers p)" "wp_workers p ! i = Worker_idle"
    using assms(1) by (auto simp: in_set_conv_nth)
  obtain job_id job rest where q: "wp_queue p = (job_id, job) # rest"
    using assms(2) by (cases "wp_queue p") auto
  then obtain p' where "worker_take i p = Some p'"
    using i by (simp add: worker_take_def)
  with q have "worker_step p (Ev_take job_id) p'"
    by (auto simp: worker_step_def intro: pool_step.take)
  then show ?thesis by (auto simp: workers_quiet_def)
qed

lemma idle_leaves:
  assumes "Worker_idle \<in> set (wp_workers p)" "wp_queue p = []" "wp_stop_requested p"
  shows "\<not> workers_quiet p"
proof -
  obtain i where "i < length (wp_workers p)" "wp_workers p ! i = Worker_idle"
    using assms(1) by (auto simp: in_set_conv_nth)
  then obtain p' where "worker_leave i p = Some p'"
    using assms by (simp add: worker_leave_def)
  then have "worker_step p Ev_leave p'"
    by (auto simp: worker_step_def intro: pool_step.leave)
  then show ?thesis by (auto simp: workers_quiet_def)
qed

lemma not_running_cases:
  "running_ids ws = [] \<Longrightarrow> w \<in> set ws \<Longrightarrow> w = Worker_idle \<or> w = Worker_gone"
  by (induction ws rule: running_ids.induct) auto

lemma quiet_pool:
  assumes "workers_quiet p" "pool_ok p" "pool_staffed p"
  shows "wp_queue p = []" "wp_cancelled p = {}" "unat (wp_in_flight p) = length (wp_completions p)"
    "wanted p = fst ` set (wp_completions p)" "wp_stop_requested p \<Longrightarrow> join_workers p \<noteq> None"
proof -
  have none: "running_ids (wp_workers p) = []"
    by (rule quiet_not_running [OF assms(1)])
  show queue: "wp_queue p = []"
  proof (cases "wp_stop_requested p")
    case True
    then show ?thesis using assms(2) by (simp add: pool_ok_def)
  next
    case False
    then obtain w where "w \<in> set (wp_workers p)" "w \<noteq> Worker_gone"
      using assms(3) by (cases "wp_workers p") (auto simp: pool_staffed_def)
    then have "Worker_idle \<in> set (wp_workers p)"
      using not_running_cases [OF none] by blast
    then show ?thesis
      using idle_takes assms(1) by blast
  qed
  show "wp_cancelled p = {}"
    using assms(2) none by (simp add: pool_ok_def)
  then show "wanted p = fst ` set (wp_completions p)"
    using none queue by (simp add: wanted_def pool_ids_def)
  show "unat (wp_in_flight p) = length (wp_completions p)"
    using assms(2) none queue by (simp add: pool_ok_def pool_ids_def)
  assume "wp_stop_requested p"
  then have "Worker_idle \<notin> set (wp_workers p)"
    using idle_leaves queue assms(1) by blast
  then have "list_all (\<lambda>w. w = Worker_gone) (wp_workers p)"
    using not_running_cases [OF none] by (auto simp: list_all_iff)
  then show "join_workers p \<noteq> None"
    by (simp add: join_workers_def)
qed

text \<open>A schedule of the workers alone: any sequence of their steps.\<close>

inductive worker_schedule ::
  "('j, 'r) work_pool \<Rightarrow> nat \<Rightarrow> ('j, 'r) work_pool \<Rightarrow> bool" where
  rest: "worker_schedule p 0 p"
| move: "worker_schedule p (Suc n) p''" if "worker_step p e p'" "worker_schedule p' n p''"

lemma worker_schedule_facts:
  "worker_schedule p n p' \<Longrightarrow> pool_ok p \<Longrightarrow> pool_staffed p \<Longrightarrow>
     n + work_left p' = work_left p \<and> wanted p' = wanted p \<and> pool_ok p' \<and> pool_staffed p' \<and>
     wp_stop_requested p' = wp_stop_requested p"
proof (induction rule: worker_schedule.induct)
  case (move p e p' n p'')
  have step: "pool_step p e p'" using move(1) by (simp add: worker_step_def)
  have "wp_stop_requested p' = wp_stop_requested p"
    using move(1) by (auto elim!: worker_stepE worker_takeE worker_finishE worker_leaveE split: if_splits)
  then show ?case
    using move worker_step_progress [OF move(1)] worker_step_wanted [OF move(1)]
      pool_step_ok [OF step] pool_step_staffed [OF step] by simp
qed simp

lemma worker_schedule_exists: "\<exists>n p'. worker_schedule p n p' \<and> workers_quiet p'"
proof (induction "work_left p" arbitrary: p rule: less_induct)
  case less
  show ?case
  proof (cases "workers_quiet p")
    case True
    then show ?thesis by (blast intro: worker_schedule.rest)
  next
    case False
    then obtain e p' where step: "worker_step p e p'" by (auto simp: workers_quiet_def)
    then have "work_left p' < work_left p"
      using worker_step_progress by fastforce
    with less obtain n p'' where "worker_schedule p' n p''" "workers_quiet p''" by blast
    with step show ?thesis by (blast intro: worker_schedule.move)
  qed
qed

text \<open>
  C26. From every reachable state, whatever order the workers run in, they come to rest after at
  most two steps per queued job, one per running job and one per worker; then every accepted
  job that was not cancelled waits in the completions, these are all that still occupies a
  slot, and a requested stop can be joined. Such a rest is always reached.
\<close>

theorem workers_come_to_rest:
  assumes "new_work_pool workers capacity = Inr p0" "pool_run p0 events p"
  shows "(\<forall>n p'. worker_schedule p n p' \<longrightarrow>
      n \<le> 2 * length (wp_queue p) + length (running_ids (wp_workers p)) + length (wp_workers p)) \<and>
    (\<forall>n p'. worker_schedule p n p' \<and> workers_quiet p' \<longrightarrow>
      fst ` set (wp_completions p') = set (pool_ids p) - wp_cancelled p \<and>
      unat (wp_in_flight p') = length (wp_completions p') \<and>
      (wp_stop_requested p \<longrightarrow> join_workers p' \<noteq> None)) \<and>
    (\<exists>n p'. worker_schedule p n p' \<and> workers_quiet p')"
proof -
  have ok: "pool_ok p" "pool_staffed p"
    using assms new_work_pool_ok pool_run_ok new_work_pool_staffed pool_run_staffed by blast+
  have "n \<le> 2 * length (wp_queue p) + length (running_ids (wp_workers p)) + length (wp_workers p)"
    if "worker_schedule p n p'" for n p'
    using worker_schedule_facts [OF that ok] staying_le [of "wp_workers p"]
    by (auto simp: work_left_def)
  moreover have "fst ` set (wp_completions p') = set (pool_ids p) - wp_cancelled p \<and>
      unat (wp_in_flight p') = length (wp_completions p') \<and>
      (wp_stop_requested p \<longrightarrow> join_workers p' \<noteq> None)"
    if "worker_schedule p n p' \<and> workers_quiet p'" for n p'
    using worker_schedule_facts [OF conjunct1 [OF that] ok] quiet_pool [OF conjunct2 [OF that]]
    by (simp add: wanted_def)
  ultimately show ?thesis
    using worker_schedule_exists [of p] by blast
qed

theorem workers_come_to_rest_witness:
  "\<exists>n p'. worker_schedule small_pool n p' \<and> workers_quiet p' \<and>
     unat (wp_in_flight p') = length (wp_completions p')"
  using workers_come_to_rest [OF small_pool_new small_pool_run] by blast

end
