(* ===== verification/Edge_Runtime.thy ===== *)
theory Edge_Runtime
  imports Edge_Source Edge_Table Work_Pool
begin

text \<open>
  The edge runtime (\<open>framework/edge/src/edge_runtime.cpp\<close>): the two bounded queues between the
  business thread and the I/O thread, the connection commands, the translation of transport
  events and the I/O loop. The loop is a machine over \<open>io_phase\<close>: draining the commands,
  processing one, polling every transport, publishing one event; the business operations fall
  between its steps. \<open>rt_log\<close> is not state of the program: it records every attempt to publish
  an event and whether the inbound queue took it.
\<close>

datatype edge_event_kind =
  Connection_opened | Message_received | Connection_established | Connection_closed |
  Peer_address_changed

record edge_event =
  ev_kind :: edge_event_kind
  ev_connection :: connection_id
  ev_protocol :: transport_protocol
  ev_established :: bool
  ev_payload :: "u8 list"
  ev_source :: string

datatype command_kind = Cmd_send | Cmd_accept | Cmd_decline | Cmd_close | Cmd_reload

record outbound_command =
  oc_kind :: command_kind
  oc_connection :: connection_id
  oc_payload :: "u8 list"

datatype queue_result = Queued | Queue_full | Queue_stopped

record edge_stats =
  overload_disconnects :: u64
  rejected_outbound_commands :: u64
  unknown_session_commands :: u64
  successful_deliveries :: u64
  failed_deliveries :: u64
  invalid_source_disconnects :: u64

datatype io_phase = Io_off | Io_drain | Io_commands | Io_poll | Io_publish

record 'w edge_runtime =
  rt_transports :: "(string \<times> transport_protocol) list"
  rt_table :: edge_table
  rt_source :: edge_source_normalizer
  rt_inbound :: "edge_event bounded_queue"
  rt_outbound :: "outbound_command bounded_queue"
  rt_max_commands :: nat
  rt_running :: bool
  rt_stop_requested :: bool
  rt_stats :: edge_stats
  rt_terminal_error :: "error option"
  rt_phase :: io_phase
  rt_final :: bool
  rt_batch :: "outbound_command list"
  rt_gathered :: "edge_event list"
  rt_world :: 'w
  rt_log :: "(edge_event \<times> bool) list"

type_synonym 'w message_transports = "(transport_source, 'w) transport_env"

section \<open>Construction and the business thread\<close>

definition no_stats :: edge_stats where
  "no_stats = \<lparr>overload_disconnects = 0, rejected_outbound_commands = 0, unknown_session_commands = 0,
     successful_deliveries = 0, failed_deliveries = 0, invalid_source_disconnects = 0\<rparr>"

fun register_all :: "(string \<times> transport_protocol) list \<Rightarrow> edge_table \<Rightarrow> error + edge_table" where
  "register_all [] tb = Inr tb"
| "register_all ((name, protocol) # rest) tb =
     (case register_transport name protocol tb of
        Inl e \<Rightarrow> Inl e
      | Inr tb' \<Rightarrow> register_all rest tb')"

definition new_edge_runtime ::
  "ip_library \<Rightarrow> (string \<times> transport_protocol) list \<Rightarrow> edge_source_config \<Rightarrow> nat \<Rightarrow> nat \<Rightarrow> nat \<Rightarrow>
     int \<Rightarrow> 'w \<Rightarrow> error + 'w edge_runtime" where
  "new_edge_runtime lib transports source inbound_capacity outbound_capacity max_commands poll_interval w =
     (case new_edge_source_normalizer lib source of Inl e \<Rightarrow> Inl e | Inr normalizer \<Rightarrow>
      (case new_bounded_queue inbound_capacity of Inl e \<Rightarrow> Inl e | Inr inbound \<Rightarrow>
       (case new_bounded_queue outbound_capacity of Inl e \<Rightarrow> Inl e | Inr outbound \<Rightarrow>
        if transports = []
        then Inl (Invalid_argument ''edge runtime must have at least one enabled transport'')
        else (case register_all transports new_edge_table of Inl e \<Rightarrow> Inl e | Inr tb \<Rightarrow>
          if max_commands = 0
          then Inl (Invalid_argument ''max commands per I/O cycle must be positive'')
          else if poll_interval \<le> 0
          then Inl (Invalid_argument ''I/O poll interval must be positive'')
          else Inr \<lparr>rt_transports = transports, rt_table = tb, rt_source = normalizer,
                    rt_inbound = inbound, rt_outbound = outbound, rt_max_commands = max_commands,
                    rt_running = False, rt_stop_requested = False, rt_stats = no_stats,
                    rt_terminal_error = None, rt_phase = Io_off, rt_final = False, rt_batch = [],
                    rt_gathered = [], rt_world = w, rt_log = []\<rparr>))))"

text \<open>\<open>start()\<close> creates the I/O thread, which begins at the head of its loop, with nothing to
  publish; \<open>stop()\<close> requests the stop and then waits for the thread.\<close>

definition start_runtime :: "'w edge_runtime \<Rightarrow> 'w edge_runtime" where
  "start_runtime rt =
     (if rt_running rt then rt
      else rt\<lparr>rt_running := True, rt_stop_requested := False, rt_phase := Io_publish, rt_final := False\<rparr>)"

definition stop_runtime :: "'w edge_runtime \<Rightarrow> 'w edge_runtime" where
  "stop_runtime rt = rt\<lparr>rt_running := False, rt_stop_requested := True\<rparr>"

definition enqueue :: "outbound_command \<Rightarrow> 'w edge_runtime \<Rightarrow> queue_result \<times> 'w edge_runtime" where
  "enqueue command rt =
     (if \<not> rt_running rt then (Queue_stopped, rt)
      else case try_push command (rt_outbound rt) of
             (True, q) \<Rightarrow> (Queued, rt\<lparr>rt_outbound := q\<rparr>)
           | (False, q) \<Rightarrow>
               (Queue_full, rt\<lparr>rt_stats := (rt_stats rt)
                  \<lparr>rejected_outbound_commands := rejected_outbound_commands (rt_stats rt) + 1\<rparr>\<rparr>))"

definition try_send_command :: "connection_id \<Rightarrow> u8 list \<Rightarrow> 'w edge_runtime \<Rightarrow> queue_result \<times> 'w edge_runtime" where
  "try_send_command cid payload =
     enqueue \<lparr>oc_kind = Cmd_send, oc_connection = cid, oc_payload = payload\<rparr>"

definition try_accept_command :: "connection_id \<Rightarrow> u8 list \<Rightarrow> 'w edge_runtime \<Rightarrow> queue_result \<times> 'w edge_runtime" where
  "try_accept_command cid response =
     enqueue \<lparr>oc_kind = Cmd_accept, oc_connection = cid, oc_payload = response\<rparr>"

definition try_decline_command :: "connection_id \<Rightarrow> u8 list \<Rightarrow> 'w edge_runtime \<Rightarrow> queue_result \<times> 'w edge_runtime" where
  "try_decline_command cid response =
     enqueue \<lparr>oc_kind = Cmd_decline, oc_connection = cid, oc_payload = response\<rparr>"

definition try_close_command :: "connection_id \<Rightarrow> 'w edge_runtime \<Rightarrow> queue_result \<times> 'w edge_runtime" where
  "try_close_command cid = enqueue \<lparr>oc_kind = Cmd_close, oc_connection = cid, oc_payload = []\<rparr>"

definition try_reload_command :: "'w edge_runtime \<Rightarrow> queue_result \<times> 'w edge_runtime" where
  "try_reload_command = enqueue \<lparr>oc_kind = Cmd_reload, oc_connection = 0, oc_payload = []\<rparr>"

definition drain_events :: "nat \<Rightarrow> 'w edge_runtime \<Rightarrow> edge_event list \<times> 'w edge_runtime" where
  "drain_events max_events rt =
     (case drain_queue max_events (rt_inbound rt) of (events, q) \<Rightarrow> (events, rt\<lparr>rt_inbound := q\<rparr>))"

definition try_receive :: "'w edge_runtime \<Rightarrow> edge_event option \<times> 'w edge_runtime" where
  "try_receive rt =
     (case try_pop (rt_inbound rt) of (event, q) \<Rightarrow> (event, rt\<lparr>rt_inbound := q\<rparr>))"

section \<open>Publishing and closing\<close>

definition publish_event ::
  "'w message_transports \<Rightarrow> edge_event \<Rightarrow> 'w edge_runtime \<Rightarrow> 'w edge_runtime" where
  "publish_event env event rt =
     (case try_push event (rt_inbound rt) of
        (True, q) \<Rightarrow> rt\<lparr>rt_inbound := q, rt_log := rt_log rt @ [(event, True)]\<rparr>
      | (False, _) \<Rightarrow>
          (let rt1 = rt\<lparr>rt_log := rt_log rt @ [(event, False)]\<rparr>
           in if ev_kind event = Connection_closed then rt1
              else case close_table_connection env (ev_connection event) (rt_table rt) (rt_world rt) of
                     (_, tb, w) \<Rightarrow>
                       rt1\<lparr>rt_table := tb, rt_world := w,
                           rt_stats := (rt_stats rt)
                             \<lparr>overload_disconnects := overload_disconnects (rt_stats rt) + 1\<rparr>\<rparr>))"

definition closed_event :: "transport_protocol \<Rightarrow> closed_connection \<Rightarrow> edge_event" where
  "closed_event protocol closed =
     \<lparr>ev_kind = Connection_closed, ev_connection = cc_id closed, ev_protocol = protocol,
      ev_established = cc_established closed, ev_payload = [], ev_source = cc_source closed\<rparr>"

definition finish_close ::
  "'w message_transports \<Rightarrow> connection_id \<Rightarrow> 'w edge_runtime \<Rightarrow> bool \<times> 'w edge_runtime" where
  "finish_close env cid rt =
     (case connection_record cid (rt_table rt) of
        None \<Rightarrow> (False, rt)
      | Some r \<Rightarrow>
          (case close_table_connection env cid (rt_table rt) (rt_world rt) of
             (None, tb, w) \<Rightarrow> (False, rt\<lparr>rt_table := tb, rt_world := w\<rparr>)
           | (Some closed, tb, w) \<Rightarrow>
               (True, publish_event env (closed_event (et_protocol (er_primary r)) closed)
                        (rt\<lparr>rt_table := tb, rt_world := w\<rparr>))))"

section \<open>Commands\<close>

definition count_unknown :: "'w edge_runtime \<Rightarrow> 'w edge_runtime" where
  "count_unknown rt = rt\<lparr>rt_stats := (rt_stats rt)
     \<lparr>unknown_session_commands := unknown_session_commands (rt_stats rt) + 1\<rparr>\<rparr>"

definition count_delivered :: "'w edge_runtime \<Rightarrow> 'w edge_runtime" where
  "count_delivered rt = rt\<lparr>rt_stats := (rt_stats rt)
     \<lparr>successful_deliveries := successful_deliveries (rt_stats rt) + 1\<rparr>\<rparr>"

definition count_failed :: "'w edge_runtime \<Rightarrow> 'w edge_runtime" where
  "count_failed rt = rt\<lparr>rt_stats := (rt_stats rt)
     \<lparr>failed_deliveries := failed_deliveries (rt_stats rt) + 1\<rparr>\<rparr>"

definition send_payload ::
  "'w message_transports \<Rightarrow> connection_id \<Rightarrow> u8 list \<Rightarrow> 'w edge_runtime \<Rightarrow> bool \<times> 'w edge_runtime" where
  "send_payload env cid payload rt =
     (case send_connection env cid payload (rt_table rt) (rt_world rt) of
        (result, w) \<Rightarrow> (result = Sent, rt\<lparr>rt_world := w\<rparr>))"

fun reload_all ::
  "'w message_transports \<Rightarrow> (string \<times> transport_protocol) list \<Rightarrow> 'w \<Rightarrow> bool \<times> 'w" where
  "reload_all env [] w = (True, w)"
| "reload_all env ((name, protocol) # rest) w =
     (case env_reload env name w of
        (True, w') \<Rightarrow> reload_all env rest w'
      | (False, w') \<Rightarrow> (False, w'))"

definition process_send ::
  "'w message_transports \<Rightarrow> connection_id \<Rightarrow> u8 list \<Rightarrow> 'w edge_runtime \<Rightarrow> 'w edge_runtime" where
  "process_send env cid payload rt =
     (case connection_record cid (rt_table rt) of
        None \<Rightarrow> count_unknown rt
      | Some r \<Rightarrow>
          if \<not> er_established r then count_unknown rt
          else case send_payload env cid payload rt of
                 (True, rt1) \<Rightarrow> count_delivered rt1
               | (False, rt1) \<Rightarrow> snd (finish_close env cid (count_failed rt1)))"

definition process_accept ::
  "'w message_transports \<Rightarrow> connection_id \<Rightarrow> u8 list \<Rightarrow> 'w edge_runtime \<Rightarrow> 'w edge_runtime" where
  "process_accept env cid payload rt =
     (case connection_record cid (rt_table rt) of
        None \<Rightarrow> count_unknown rt
      | Some r \<Rightarrow>
          if er_established r then count_unknown rt
          else case send_payload env cid payload rt of
                 (False, rt1) \<Rightarrow> snd (finish_close env cid (count_failed rt1))
               | (True, rt1) \<Rightarrow>
                   publish_event env
                     \<lparr>ev_kind = Connection_established, ev_connection = cid,
                      ev_protocol = et_protocol (er_primary r), ev_established = True,
                      ev_payload = [], ev_source = []\<rparr>
                     (count_delivered
                        (rt1\<lparr>rt_table := snd (establish_connection cid (rt_table rt1))\<rparr>)))"

definition process_decline ::
  "'w message_transports \<Rightarrow> connection_id \<Rightarrow> u8 list \<Rightarrow> 'w edge_runtime \<Rightarrow> 'w edge_runtime" where
  "process_decline env cid payload rt =
     (case connection_record cid (rt_table rt) of
        None \<Rightarrow> count_unknown rt
      | Some r \<Rightarrow>
          (let rt1 = (if payload = [] then rt
                      else case send_payload env cid payload rt of
                             (True, rt') \<Rightarrow> count_delivered rt'
                           | (False, rt') \<Rightarrow> count_failed rt')
           in snd (finish_close env cid rt1)))"

definition process_close ::
  "'w message_transports \<Rightarrow> connection_id \<Rightarrow> 'w edge_runtime \<Rightarrow> 'w edge_runtime" where
  "process_close env cid rt =
     (case finish_close env cid rt of
        (True, rt1) \<Rightarrow> rt1
      | (False, rt1) \<Rightarrow> count_unknown rt1)"

definition process_reload :: "'w message_transports \<Rightarrow> 'w edge_runtime \<Rightarrow> 'w edge_runtime" where
  "process_reload env rt =
     (case reload_all env (rt_transports rt) (rt_world rt) of
        (ok, w) \<Rightarrow> (if ok then rt\<lparr>rt_world := w\<rparr> else count_failed (rt\<lparr>rt_world := w\<rparr>)))"

definition process_command ::
  "'w message_transports \<Rightarrow> outbound_command \<Rightarrow> 'w edge_runtime \<Rightarrow> 'w edge_runtime" where
  "process_command env command rt =
     (case oc_kind command of
        Cmd_send \<Rightarrow> process_send env (oc_connection command) (oc_payload command) rt
      | Cmd_accept \<Rightarrow> process_accept env (oc_connection command) (oc_payload command) rt
      | Cmd_decline \<Rightarrow> process_decline env (oc_connection command) (oc_payload command) rt
      | Cmd_close \<Rightarrow> process_close env (oc_connection command) rt
      | Cmd_reload \<Rightarrow> process_reload env rt)"

section \<open>Polling\<close>

definition gather :: "edge_event \<Rightarrow> 'w edge_runtime \<Rightarrow> 'w edge_runtime" where
  "gather event rt = rt\<lparr>rt_gathered := rt_gathered rt @ [event]\<rparr>"

definition count_invalid_source :: "'w edge_runtime \<Rightarrow> 'w edge_runtime" where
  "count_invalid_source rt = rt\<lparr>rt_stats := (rt_stats rt)
     \<lparr>invalid_source_disconnects := invalid_source_disconnects (rt_stats rt) + 1\<rparr>\<rparr>"

definition on_session_opened ::
  "ip_library \<Rightarrow> 'w message_transports \<Rightarrow> string \<Rightarrow> transport_protocol \<Rightarrow>
     transport_source transport_event \<Rightarrow> 'w edge_runtime \<Rightarrow> error + 'w edge_runtime" where
  "on_session_opened lib env name protocol event rt =
     (case normalize_source lib (rt_source rt) (te_source event) of
        None \<Rightarrow>
          Inr ((count_invalid_source rt)
                 \<lparr>rt_world := snd (env_close env name (te_session event) (rt_world rt))\<rparr>)
      | Some source \<Rightarrow>
          (case open_connection name (te_session event) source (rt_table rt) of
             Inl e \<Rightarrow> Inl e
           | Inr (cid, tb) \<Rightarrow>
               Inr (gather \<lparr>ev_kind = Connection_opened, ev_connection = cid, ev_protocol = protocol,
                            ev_established = False, ev_payload = [], ev_source = source\<rparr>
                      (rt\<lparr>rt_table := tb\<rparr>))))"

definition on_session_closed ::
  "string \<Rightarrow> transport_protocol \<Rightarrow> transport_source transport_event \<Rightarrow> 'w edge_runtime \<Rightarrow> 'w edge_runtime" where
  "on_session_closed name protocol event rt =
     (case on_transport_closed name (te_session event) (rt_table rt) of
        (None, tb) \<Rightarrow> rt\<lparr>rt_table := tb\<rparr>
      | (Some closed, tb) \<Rightarrow> gather (closed_event protocol closed) (rt\<lparr>rt_table := tb\<rparr>))"

definition on_message ::
  "string \<Rightarrow> transport_protocol \<Rightarrow> transport_source transport_event \<Rightarrow> 'w edge_runtime \<Rightarrow> 'w edge_runtime" where
  "on_message name protocol event rt =
     (case find_connection name (te_session event) (rt_table rt) of
        None \<Rightarrow> rt
      | Some cid \<Rightarrow>
          (case connection_record cid (rt_table rt) of
             None \<Rightarrow> rt
           | Some r \<Rightarrow>
               gather \<lparr>ev_kind = Message_received, ev_connection = cid, ev_protocol = protocol,
                       ev_established = er_established r, ev_payload = te_payload event,
                       ev_source = er_source r\<rparr> rt))"

definition on_address_changed ::
  "ip_library \<Rightarrow> 'w message_transports \<Rightarrow> string \<Rightarrow> transport_protocol \<Rightarrow>
     transport_source transport_event \<Rightarrow> 'w edge_runtime \<Rightarrow> 'w edge_runtime" where
  "on_address_changed lib env name protocol event rt =
     (case find_connection name (te_session event) (rt_table rt) of
        None \<Rightarrow> rt
      | Some cid \<Rightarrow>
          (case connection_record cid (rt_table rt) of
             None \<Rightarrow> rt
           | Some r \<Rightarrow>
               (case normalize_source lib (rt_source rt) (te_source event) of
                  None \<Rightarrow> snd (finish_close env cid (count_invalid_source rt))
                | Some source \<Rightarrow>
                    gather \<lparr>ev_kind = Peer_address_changed, ev_connection = cid, ev_protocol = protocol,
                            ev_established = er_established r, ev_payload = te_payload event,
                            ev_source = source\<rparr>
                      (rt\<lparr>rt_table := snd (update_source cid source (rt_table rt))\<rparr>))))"

definition translate_event ::
  "ip_library \<Rightarrow> 'w message_transports \<Rightarrow> string \<Rightarrow> transport_protocol \<Rightarrow>
     transport_source transport_event \<Rightarrow> 'w edge_runtime \<Rightarrow> error + 'w edge_runtime" where
  "translate_event lib env name protocol event rt =
     (case te_kind event of
        Session_opened \<Rightarrow> on_session_opened lib env name protocol event rt
      | Session_closed \<Rightarrow> Inr (on_session_closed name protocol event rt)
      | Message_in \<Rightarrow> Inr (on_message name protocol event rt)
      | Address_changed \<Rightarrow> Inr (on_address_changed lib env name protocol event rt))"

text \<open>An exception keeps what was changed before it; the events gathered so far are lost with
  the local vector.\<close>

fun translate_events ::
  "ip_library \<Rightarrow> 'w message_transports \<Rightarrow> string \<Rightarrow> transport_protocol \<Rightarrow>
     transport_source transport_event list \<Rightarrow> 'w edge_runtime \<Rightarrow> error option \<times> 'w edge_runtime" where
  "translate_events lib env name protocol [] rt = (None, rt)"
| "translate_events lib env name protocol (event # events) rt =
     (case translate_event lib env name protocol event rt of
        Inl e \<Rightarrow> (Some e, rt)
      | Inr rt' \<Rightarrow> translate_events lib env name protocol events rt')"

fun poll_transports ::
  "ip_library \<Rightarrow> 'w message_transports \<Rightarrow> (string \<times> transport_protocol) list \<Rightarrow> 'w edge_runtime \<Rightarrow>
     error option \<times> 'w edge_runtime" where
  "poll_transports lib env [] rt = (None, rt)"
| "poll_transports lib env ((name, protocol) # rest) rt =
     (case env_poll env name (rt_world rt) of
        (Inl e, w) \<Rightarrow> (Some e, rt\<lparr>rt_world := w\<rparr>)
      | (Inr events, w) \<Rightarrow>
          (case translate_events lib env name protocol events (rt\<lparr>rt_world := w\<rparr>) of
             (Some e, rt') \<Rightarrow> (Some e, rt')
           | (None, rt') \<Rightarrow> poll_transports lib env rest rt'))"

section \<open>The I/O loop\<close>

text \<open>The test of the stop token at the head of the loop; after it the commands are processed
  once more.\<close>

definition loop_head :: "'w edge_runtime \<Rightarrow> 'w edge_runtime" where
  "loop_head rt = rt\<lparr>rt_phase := Io_drain, rt_final := rt_stop_requested rt\<rparr>"

definition io_step :: "ip_library \<Rightarrow> 'w message_transports \<Rightarrow> 'w edge_runtime \<Rightarrow> 'w edge_runtime" where
  "io_step lib env rt =
     (case rt_phase rt of
        Io_off \<Rightarrow> rt
      | Io_drain \<Rightarrow>
          (case drain_queue (rt_max_commands rt) (rt_outbound rt) of
             (commands, q) \<Rightarrow> rt\<lparr>rt_outbound := q, rt_batch := commands, rt_phase := Io_commands\<rparr>)
      | Io_commands \<Rightarrow>
          (case rt_batch rt of
             command # rest \<Rightarrow> process_command env command (rt\<lparr>rt_batch := rest\<rparr>)
           | [] \<Rightarrow> if rt_final rt then rt\<lparr>rt_phase := Io_off, rt_running := False\<rparr>
                   else rt\<lparr>rt_phase := Io_poll\<rparr>)
      | Io_poll \<Rightarrow>
          (case poll_transports lib env (rt_transports rt) rt of
             (None, rt') \<Rightarrow> rt'\<lparr>rt_phase := Io_publish\<rparr>
           | (Some e, rt') \<Rightarrow>
               (count_failed rt')\<lparr>rt_terminal_error := Some e, rt_gathered := [], rt_phase := Io_off,
                                  rt_running := False\<rparr>)
      | Io_publish \<Rightarrow>
          (case rt_gathered rt of
             event # rest \<Rightarrow> publish_event env event (rt\<lparr>rt_gathered := rest\<rparr>)
           | [] \<Rightarrow> loop_head rt))"

section \<open>The ledger of connections\<close>

text \<open>Every event that was gathered or offered to the inbound queue, and the connections that an
  overload or a failed loop took away without an event of their own.\<close>

definition all_events :: "'w edge_runtime \<Rightarrow> edge_event list" where
  "all_events rt = map fst (rt_log rt) @ rt_gathered rt"

definition closed_ids :: "edge_event list \<Rightarrow> connection_id list" where
  "closed_ids evs = map ev_connection (filter (\<lambda>e. ev_kind e = Connection_closed) evs)"

definition opened_ids :: "edge_event list \<Rightarrow> connection_id list" where
  "opened_ids evs = map ev_connection (filter (\<lambda>e. ev_kind e = Connection_opened) evs)"

definition lost_ids :: "'w edge_runtime \<Rightarrow> connection_id set" where
  "lost_ids rt =
     (if rt_terminal_error rt \<noteq> None then UNIV
      else {ev_connection e | e. (e, False) \<in> set (rt_log rt) \<and> ev_kind e \<noteq> Connection_closed})"

definition ledger_ok :: "edge_table \<Rightarrow> edge_event list \<Rightarrow> connection_id set \<Rightarrow> bool" where
  "ledger_ok tb evs lost \<longleftrightarrow> table_ok tb \<and> distinct (closed_ids evs) \<and>
     (\<forall>cid \<in> set (closed_ids evs). handed_out cid tb \<and> tb_connections tb cid = None) \<and>
     (\<forall>cid \<in> set (opened_ids evs). handed_out cid tb \<and>
        (tb_connections tb cid \<noteq> None \<or> cid \<in> set (closed_ids evs) \<or> cid \<in> lost))"

lemma closed_ids_perm: "mset evs = mset evs' \<Longrightarrow> mset (closed_ids evs) = mset (closed_ids evs')"
  by (simp add: closed_ids_def mset_filter)

lemma opened_ids_perm: "mset evs = mset evs' \<Longrightarrow> set (opened_ids evs) = set (opened_ids evs')"
  using mset_eq_setD [of evs evs'] by (simp add: opened_ids_def)

lemma ledger_perm:
  assumes "mset evs = mset evs'" "ledger_ok tb evs lost"
  shows "ledger_ok tb evs' lost"
  using assms(2) mset_eq_setD [OF closed_ids_perm [OF assms(1)]] opened_ids_perm [OF assms(1)]
    mset_eq_imp_distinct_iff [OF closed_ids_perm [OF assms(1)]]
  by (simp add: ledger_ok_def)

lemma ledger_lost_mono: "ledger_ok tb evs lost \<Longrightarrow> lost \<subseteq> lost' \<Longrightarrow> ledger_ok tb evs lost'"
  by (auto simp: ledger_ok_def)

lemma ledger_table: "ledger_ok tb evs lost \<Longrightarrow> table_ok tb"
  by (simp add: ledger_ok_def)

lemma ledger_other:
  "ev_kind e \<noteq> Connection_opened \<Longrightarrow> ev_kind e \<noteq> Connection_closed \<Longrightarrow>
     ledger_ok tb (e # evs) lost = ledger_ok tb evs lost"
  by (simp add: ledger_ok_def closed_ids_def opened_ids_def)

lemma ledger_same:
  assumes "ledger_ok tb evs lost" "table_ok tb'" "tb_next tb' = tb_next tb"
    and "\<And>cid. tb_connections tb' cid = None \<longleftrightarrow> tb_connections tb cid = None"
  shows "ledger_ok tb' evs lost"
  using assms by (auto simp: ledger_ok_def handed_out_def)

lemma erase_connection_sel [simp]:
  "tb_connections (erase_connection cid r tb) = (tb_connections tb)(cid := None)"
  "tb_next (erase_connection cid r tb) = tb_next tb"
  "tb_transports (erase_connection cid r tb) = tb_transports tb"
  by (auto simp: erase_connection_def Let_def split: option.splits)

lemma ledger_close:
  assumes "ledger_ok tb evs lost" "tb_connections tb cid = Some r"
    and "ev_kind e = Connection_closed" "ev_connection e = cid"
  shows "ledger_ok (erase_connection cid r tb) (e # evs) lost"
proof -
  have "table_ok (erase_connection cid r tb)" "handed_out cid tb"
    using erase_connection_ok table_ok_record ledger_table [OF assms(1)] assms(2)
    by (auto simp: record_ok_def)
  moreover have "handed_out x (erase_connection cid r tb) = handed_out x tb" for x
    by (simp add: handed_out_def)
  moreover have "cid \<notin> set (closed_ids evs)"
    using assms(1,2) by (auto simp: ledger_ok_def)
  ultimately show ?thesis
    using assms by (auto simp: ledger_ok_def closed_ids_def opened_ids_def)
qed

lemma ledger_drop:
  assumes "ledger_ok tb evs lost" "tb_connections tb cid = Some r"
  shows "ledger_ok (erase_connection cid r tb) evs (insert cid lost)"
proof -
  have "table_ok (erase_connection cid r tb)"
    using erase_connection_ok ledger_table [OF assms(1)] assms(2) by blast
  moreover have "handed_out x (erase_connection cid r tb) = handed_out x tb" for x
    by (simp add: handed_out_def)
  ultimately show ?thesis
    using assms by (auto simp: ledger_ok_def)
qed

lemma ledger_open:
  assumes "ledger_ok tb evs lost" "open_connection name session source tb = Inr (cid, tb')"
    and "ev_kind e = Connection_opened" "ev_connection e = cid"
  shows "ledger_ok tb' (e # evs) lost"
  using assms(2)
proof (cases rule: open_connection_cases)
  case existing
  then obtain r where r: "tb_connections tb cid = Some r"
    using table_ok_found [OF ledger_table [OF assms(1)]] by metis
  then have "handed_out cid tb"
    using table_ok_record [OF ledger_table [OF assms(1)] r] by (simp add: record_ok_def)
  then show ?thesis
    using assms existing r by (auto simp: ledger_ok_def closed_ids_def opened_ids_def)
next
  case (fresh protocol)
  have tb': "table_ok tb'"
    by (rule open_connection_ok [OF ledger_table [OF assms(1)] assms(2)])
  have keep: "handed_out x tb' \<and> x \<noteq> cid" if "handed_out x tb" for x
    using that handed_out_Suc [of x tb tb'] fresh(2,3,7) by (auto simp: handed_out_def)
  have new: "handed_out cid tb'" "tb_connections tb' cid \<noteq> None"
    using next_handed_out [of tb tb'] fresh(2,3,7) by auto
  have old: "tb_connections tb' x = tb_connections tb x" if "x \<noteq> cid" for x
    using that by (simp add: fresh(7))
  show ?thesis
    using assms(1,3,4) tb' new keep old
    by (auto simp: ledger_ok_def closed_ids_def opened_ids_def image_iff)
qed

definition runtime_ok :: "'w edge_runtime \<Rightarrow> bool" where
  "runtime_ok rt \<longleftrightarrow> ledger_ok (rt_table rt) (all_events rt) (lost_ids rt)"

text \<open>Only the table, the events and the terminal error matter.\<close>

lemma runtime_ok_cong:
  assumes "rt_table rt' = rt_table rt" "rt_log rt' = rt_log rt" "rt_gathered rt' = rt_gathered rt"
    and "rt_terminal_error rt' = rt_terminal_error rt"
  shows "runtime_ok rt' = runtime_ok rt"
  using assms by (simp add: runtime_ok_def all_events_def lost_ids_def)

lemma count_cong [simp]:
  "runtime_ok (count_unknown rt) = runtime_ok rt" "runtime_ok (count_delivered rt) = runtime_ok rt"
  "runtime_ok (count_failed rt) = runtime_ok rt" "runtime_ok (count_invalid_source rt) = runtime_ok rt"
  "runtime_ok (rt\<lparr>rt_world := w\<rparr>) = runtime_ok rt" "runtime_ok (rt\<lparr>rt_batch := b\<rparr>) = runtime_ok rt"
  "runtime_ok (rt\<lparr>rt_inbound := q\<rparr>) = runtime_ok rt" "runtime_ok (rt\<lparr>rt_outbound := q'\<rparr>) = runtime_ok rt"
  "runtime_ok (rt\<lparr>rt_phase := ph\<rparr>) = runtime_ok rt" "runtime_ok (rt\<lparr>rt_running := r\<rparr>) = runtime_ok rt"
  "runtime_ok (rt\<lparr>rt_stats := st\<rparr>) = runtime_ok rt"
  by (simp_all add: runtime_ok_def all_events_def lost_ids_def count_unknown_def count_delivered_def
      count_failed_def count_invalid_source_def)

lemma count_sel [simp]:
  "rt_table (count_unknown rt) = rt_table rt" "rt_table (count_delivered rt) = rt_table rt"
  "rt_table (count_failed rt) = rt_table rt" "rt_table (count_invalid_source rt) = rt_table rt"
  by (simp_all add: count_unknown_def count_delivered_def count_failed_def count_invalid_source_def)

lemma table_updated_sel [simp]:
  "all_events (rt\<lparr>rt_table := tb\<rparr>) = all_events rt" "lost_ids (rt\<lparr>rt_table := tb\<rparr>) = lost_ids rt"
  "all_events (rt\<lparr>rt_world := w\<rparr>) = all_events rt" "lost_ids (rt\<lparr>rt_world := w\<rparr>) = lost_ids rt"
  by (simp_all add: all_events_def lost_ids_def)

text \<open>Publishing accounts for one more event.\<close>

lemma publish_event_ok:
  assumes "ledger_ok (rt_table rt) (event # all_events rt) (lost_ids rt)"
  shows "runtime_ok (publish_event env event rt)"
proof (cases "fst (try_push event (rt_inbound rt))")
  case True
  then obtain q where "try_push event (rt_inbound rt) = (True, q)" by (metis prod.collapse)
  then have "runtime_ok (publish_event env event rt) \<longleftrightarrow>
      ledger_ok (rt_table rt) (map fst (rt_log rt) @ event # rt_gathered rt) (lost_ids rt)"
    by (simp add: publish_event_def runtime_ok_def all_events_def lost_ids_def)
  moreover have "mset (event # all_events rt) = mset (map fst (rt_log rt) @ event # rt_gathered rt)"
    by (simp add: all_events_def)
  ultimately show ?thesis using ledger_perm assms by blast
next
  case False
  then obtain q where q: "try_push event (rt_inbound rt) = (False, q)" by (metis prod.collapse)
  let ?evs = "map fst (rt_log rt) @ event # rt_gathered rt"
  have evs: "ledger_ok (rt_table rt) ?evs (lost_ids rt)"
    by (rule ledger_perm [OF _ assms]) (simp add: all_events_def)
  show ?thesis
  proof (cases "ev_kind event = Connection_closed")
    case True
    have "lost_ids (publish_event env event rt) = lost_ids rt"
      using q True by (auto simp: publish_event_def lost_ids_def)
    moreover have "rt_table (publish_event env event rt) = rt_table rt"
      "all_events (publish_event env event rt) = ?evs"
      using q True by (simp_all add: publish_event_def all_events_def)
    ultimately show ?thesis using evs by (simp add: runtime_ok_def)
  next
    case other: False
    let ?lost = "insert (ev_connection event) (lost_ids rt)"
    obtain tb w where tb: "close_table_connection env (ev_connection event) (rt_table rt) (rt_world rt) =
        (fst (close_table_connection env (ev_connection event) (rt_table rt) (rt_world rt)), tb, w)"
      by (metis prod.collapse)
    have "lost_ids rt \<subseteq> lost_ids (publish_event env event rt) \<and>
        ev_connection event \<in> lost_ids (publish_event env event rt)"
      using q other tb by (auto simp: publish_event_def lost_ids_def Let_def split: prod.splits)
    then have lost: "?lost \<subseteq> lost_ids (publish_event env event rt)" by blast
    have "ledger_ok tb ?evs ?lost"
      using tb ledger_drop [OF evs] ledger_lost_mono [OF evs subset_insertI]
      by (auto simp: close_table_connection_def split: option.splits)
    then have "ledger_ok tb ?evs (lost_ids (publish_event env event rt))"
      using lost ledger_lost_mono by blast
    moreover have "rt_table (publish_event env event rt) = tb"
      "all_events (publish_event env event rt) = ?evs"
      using q other tb by (auto simp: publish_event_def all_events_def Let_def split: prod.splits)
    ultimately show ?thesis by (simp add: runtime_ok_def)
  qed
qed

lemma publish_other_ok:
  assumes "runtime_ok rt" "ev_kind event \<noteq> Connection_opened" "ev_kind event \<noteq> Connection_closed"
  shows "runtime_ok (publish_event env event rt)"
  using assms by (intro publish_event_ok) (simp add: ledger_other runtime_ok_def)

lemma finish_close_ok:
  assumes "runtime_ok rt"
  shows "runtime_ok (snd (finish_close env cid rt))"
proof (cases "tb_connections (rt_table rt) cid")
  case None
  then show ?thesis using assms by (simp add: finish_close_def connection_record_def)
next
  case (Some r)
  let ?e = "closed_event (et_protocol (er_primary r)) (closed_snapshot cid r)"
  have "ledger_ok (erase_connection cid r (rt_table rt)) (?e # all_events rt) (lost_ids rt)"
    using assms Some by (intro ledger_close) (simp_all add: runtime_ok_def closed_event_def closed_snapshot_def)
  then have "runtime_ok (publish_event env ?e (rt\<lparr>rt_table := erase_connection cid r (rt_table rt), rt_world := w\<rparr>))" for w
    by (intro publish_event_ok) simp
  then show ?thesis
    using Some by (simp add: finish_close_def connection_record_def close_table_connection_def)
qed

lemma send_payload_sel:
  "send_payload env cid payload rt = (ok, rt') \<Longrightarrow> \<exists>w. rt' = rt\<lparr>rt_world := w\<rparr>"
  by (auto simp: send_payload_def split: prod.splits)

lemma runtime_ok_table:
  assumes "runtime_ok rt" "table_ok tb" "tb_next tb = tb_next (rt_table rt)"
    and "\<And>cid. tb_connections tb cid = None \<longleftrightarrow> tb_connections (rt_table rt) cid = None"
  shows "runtime_ok (rt\<lparr>rt_table := tb\<rparr>)"
  using ledger_same [OF assms(1) [unfolded runtime_ok_def] assms(2-4)] by (simp add: runtime_ok_def)

lemma runtime_table_ok: "runtime_ok rt \<Longrightarrow> table_ok (rt_table rt)"
  by (simp add: runtime_ok_def ledger_ok_def)

lemma runtime_ok_establish:
  assumes "runtime_ok rt"
  shows "runtime_ok (rt\<lparr>rt_table := snd (establish_connection cid (rt_table rt))\<rparr>)"
proof (rule runtime_ok_table [OF assms establish_connection_ok [OF runtime_table_ok [OF assms]]])
qed (simp_all add: establish_connection_def split: option.splits)

lemma runtime_ok_source:
  assumes "runtime_ok rt"
  shows "runtime_ok (rt\<lparr>rt_table := snd (update_source cid source (rt_table rt))\<rparr>)"
proof (rule runtime_ok_table [OF assms update_source_ok [OF runtime_table_ok [OF assms]]])
qed (simp_all add: update_source_def split: option.splits)

lemma process_send_ok:
  assumes "runtime_ok rt"
  shows "runtime_ok (process_send env cid payload rt)"
proof -
  obtain ok w where sent: "send_payload env cid payload rt = (ok, rt\<lparr>rt_world := w\<rparr>)"
    using send_payload_sel [of env cid payload rt] by (metis prod.collapse)
  have "runtime_ok (snd (finish_close env cid (count_failed (rt\<lparr>rt_world := w\<rparr>))))"
    by (rule finish_close_ok) (simp add: assms)
  then show ?thesis
    using assms by (simp add: process_send_def sent split: option.split bool.split)
qed

lemma process_accept_ok:
  assumes "runtime_ok rt"
  shows "runtime_ok (process_accept env cid payload rt)"
proof -
  obtain ok w where sent: "send_payload env cid payload rt = (ok, rt\<lparr>rt_world := w\<rparr>)"
    using send_payload_sel [of env cid payload rt] by (metis prod.collapse)
  have "runtime_ok (snd (finish_close env cid (count_failed (rt\<lparr>rt_world := w\<rparr>))))"
    by (rule finish_close_ok) (simp add: assms)
  moreover have "runtime_ok (publish_event env
      \<lparr>ev_kind = Connection_established, ev_connection = cid, ev_protocol = protocol,
       ev_established = True, ev_payload = [], ev_source = []\<rparr>
      (count_delivered (rt\<lparr>rt_world := w, rt_table := snd (establish_connection cid (rt_table rt))\<rparr>)))" for protocol
    using runtime_ok_establish [of "rt\<lparr>rt_world := w\<rparr>" cid] assms
    by (intro publish_other_ok) simp_all
  ultimately show ?thesis
    using assms by (simp add: process_accept_def sent split: option.split bool.split)
qed

lemma process_decline_ok:
  assumes "runtime_ok rt"
  shows "runtime_ok (process_decline env cid payload rt)"
proof -
  obtain ok w where sent: "send_payload env cid payload rt = (ok, rt\<lparr>rt_world := w\<rparr>)"
    using send_payload_sel [of env cid payload rt] by (metis prod.collapse)
  let ?rt = "if payload = [] then rt
    else if ok then count_delivered (rt\<lparr>rt_world := w\<rparr>) else count_failed (rt\<lparr>rt_world := w\<rparr>)"
  have "runtime_ok (snd (finish_close env cid ?rt))"
    by (rule finish_close_ok) (simp add: assms)
  then show ?thesis
    using assms by (cases ok; cases "payload = []") (simp_all add: process_decline_def sent split: option.split)
qed

lemma process_command_ok:
  assumes "runtime_ok rt"
  shows "runtime_ok (process_command env command rt)"
proof -
  have "runtime_ok (process_close env (oc_connection command) rt)"
    using finish_close_ok [OF assms, of env "oc_connection command"]
    by (auto simp: process_close_def split: prod.split bool.split)
  moreover have "runtime_ok (process_reload env rt)"
    using assms by (simp add: process_reload_def split: prod.split)
  ultimately show ?thesis
    using assms by (simp add: process_command_def process_send_ok process_accept_ok process_decline_ok
        split: command_kind.split)
qed

lemma gather_ok:
  assumes "ledger_ok (rt_table rt) (event # all_events rt) (lost_ids rt)"
  shows "runtime_ok (gather event rt)"
proof -
  have "ledger_ok (rt_table rt) (map fst (rt_log rt) @ rt_gathered rt @ [event]) (lost_ids rt)"
    by (rule ledger_perm [OF _ assms]) (simp add: all_events_def)
  moreover have "rt_table (gather event rt) = rt_table rt" "lost_ids (gather event rt) = lost_ids rt"
    "all_events (gather event rt) = map fst (rt_log rt) @ rt_gathered rt @ [event]"
    by (simp_all add: gather_def all_events_def lost_ids_def)
  ultimately show ?thesis by (simp add: runtime_ok_def)
qed

lemma gather_other_ok:
  assumes "runtime_ok rt" "ev_kind event \<noteq> Connection_opened" "ev_kind event \<noteq> Connection_closed"
  shows "runtime_ok (gather event rt)"
  using assms by (intro gather_ok) (simp add: ledger_other runtime_ok_def)

lemma translate_event_ok:
  assumes "runtime_ok rt" "translate_event lib env name protocol event rt = Inr rt'"
  shows "runtime_ok rt'"
proof (cases "te_kind event")
  case Session_opened
  show ?thesis
  proof (cases "normalize_source lib (rt_source rt) (te_source event)")
    case None
    then show ?thesis
      using assms Session_opened by (auto simp: translate_event_def on_session_opened_def)
  next
    case (Some source)
    then obtain cid tb where opened: "open_connection name (te_session event) source (rt_table rt) = Inr (cid, tb)"
      using assms(2) Session_opened
      by (cases "open_connection name (te_session event) source (rt_table rt)")
        (auto simp: translate_event_def on_session_opened_def)
    let ?e = "\<lparr>ev_kind = Connection_opened, ev_connection = cid, ev_protocol = protocol,
                ev_established = False, ev_payload = [], ev_source = source\<rparr>"
    have "ledger_ok tb (?e # all_events rt) (lost_ids rt)"
      using assms(1) by (intro ledger_open [OF _ opened]) (simp_all add: runtime_ok_def)
    then have "runtime_ok (gather ?e (rt\<lparr>rt_table := tb\<rparr>))"
      by (intro gather_ok) simp
    then show ?thesis
      using assms(2) Session_opened Some opened by (simp add: translate_event_def on_session_opened_def)
  qed
next
  case Session_closed
  have same: "runtime_ok (rt\<lparr>rt_table := rt_table rt\<rparr>)" using assms(1) by simp
  have "runtime_ok (gather (closed_event protocol (closed_snapshot cid r))
      (rt\<lparr>rt_table := erase_connection cid r (rt_table rt)\<rparr>))"
    if "tb_connections (rt_table rt) cid = Some r" for cid r
    using ledger_close [of "rt_table rt" "all_events rt" "lost_ids rt" cid r] assms(1) that
    by (intro gather_ok) (simp add: runtime_ok_def closed_event_def closed_snapshot_def)
  then show ?thesis
    using assms(2) Session_closed same
    by (auto simp: translate_event_def on_session_closed_def on_transport_closed_def split: option.splits)
next
  case Message_in
  then show ?thesis
    using assms by (auto simp: translate_event_def on_message_def intro: gather_other_ok split: option.splits)
next
  case Address_changed
  have "runtime_ok (snd (finish_close env cid (count_invalid_source rt)))" for cid
    by (rule finish_close_ok) (simp add: assms)
  moreover have "runtime_ok (gather \<lparr>ev_kind = Peer_address_changed, ev_connection = cid,
      ev_protocol = protocol, ev_established = er_established r, ev_payload = te_payload event,
      ev_source = source\<rparr> (rt\<lparr>rt_table := snd (update_source cid source (rt_table rt))\<rparr>))" for cid r source
    by (rule gather_other_ok) (simp_all add: runtime_ok_source assms)
  ultimately show ?thesis
    using assms Address_changed
    by (auto simp: translate_event_def on_address_changed_def split: option.splits)
qed

lemma translate_events_ok:
  "runtime_ok rt \<Longrightarrow> runtime_ok (snd (translate_events lib env name protocol events rt))"
  by (induction events arbitrary: rt) (auto intro: translate_event_ok split: sum.split)

lemma poll_transports_ok:
  "runtime_ok rt \<Longrightarrow> runtime_ok (snd (poll_transports lib env transports rt))"
proof (induction transports arbitrary: rt)
  case (Cons transport rest)
  obtain name protocol where t: "transport = (name, protocol)" by force
  obtain polled w where p: "env_poll env name (rt_world rt) = (polled, w)" by force
  show ?case
  proof (cases polled)
    case (Inr events)
    have "runtime_ok (snd (translate_events lib env name protocol events (rt\<lparr>rt_world := w\<rparr>)))"
      by (rule translate_events_ok) (simp add: Cons.prems)
    then show ?thesis
      using Cons.IH by (auto simp: t p Inr split: prod.split option.split)
  qed (simp add: t p Cons.prems)
qed simp

section \<open>Runs\<close>

text \<open>The owner starts the runtime when no I/O thread is running; everything else may come at any
  time.\<close>

inductive edge_step ::
  "ip_library \<Rightarrow> 'w message_transports \<Rightarrow> 'w edge_runtime \<Rightarrow> 'w edge_runtime \<Rightarrow> bool"
  for lib :: ip_library and env :: "'w message_transports" where
  start: "edge_step lib env rt (start_runtime rt)" if "rt_phase rt = Io_off"
| stop: "edge_step lib env rt (stop_runtime rt)"
| command: "edge_step lib env rt (snd (enqueue command rt))"
| drain: "edge_step lib env rt (snd (drain_events n rt))"
| receive: "edge_step lib env rt (snd (try_receive rt))"
| io: "edge_step lib env rt (io_step lib env rt)"

inductive edge_reachable ::
  "ip_library \<Rightarrow> 'w message_transports \<Rightarrow> 'w edge_runtime \<Rightarrow> bool"
  for lib :: ip_library and env :: "'w message_transports" where
  fresh: "edge_reachable lib env rt"
    if "new_edge_runtime lib transports source inbound outbound max_commands interval w = Inr rt"
| step: "edge_reachable lib env rt'" if "edge_reachable lib env rt" "edge_step lib env rt rt'"

lemma loop_ok [simp]:
  "runtime_ok (loop_head rt) = runtime_ok rt" "runtime_ok (start_runtime rt) = runtime_ok rt"
  "runtime_ok (stop_runtime rt) = runtime_ok rt"
  by (rule runtime_ok_cong; simp add: loop_head_def start_runtime_def stop_runtime_def)+

lemma register_all_ok:
  "register_all transports tb = Inr tb' \<Longrightarrow> table_ok tb \<Longrightarrow> table_ok tb'"
  by (induction transports tb rule: register_all.induct)
    (auto split: sum.splits intro: register_transport_ok)

lemma new_edge_runtime_ok:
  assumes "new_edge_runtime lib transports source inbound outbound max_commands interval w = Inr rt"
  shows "runtime_ok rt"
proof -
  have "register_all transports new_edge_table = Inr (rt_table rt)" "rt_log rt = []" "rt_gathered rt = []"
    using assms by (auto simp: new_edge_runtime_def split: sum.splits if_splits)
  then show ?thesis
    using register_all_ok [OF _ new_edge_table_ok]
    by (simp add: runtime_ok_def ledger_ok_def all_events_def closed_ids_def opened_ids_def)
qed

lemma io_step_ok:
  assumes "runtime_ok rt"
  shows "runtime_ok (io_step lib env rt)"
proof (cases "rt_phase rt")
  case Io_drain
  then show ?thesis
    using assms by (simp add: io_step_def split: prod.split)
next
  case Io_commands
  then show ?thesis
    using assms by (auto simp: io_step_def intro: process_command_ok split: list.split)
next
  case Io_poll
  obtain e rt' where polled: "poll_transports lib env (rt_transports rt) rt = (e, rt')" by force
  then have ok: "runtime_ok rt'" using poll_transports_ok [OF assms, of lib env "rt_transports rt"] by simp
  show ?thesis
  proof (cases e)
    case (Some err)
    let ?stopped = "(count_failed rt')\<lparr>rt_terminal_error := Some err, rt_gathered := [], rt_phase := Io_off,
      rt_running := False\<rparr>"
    have "all_events ?stopped = map fst (rt_log rt')" "lost_ids ?stopped = UNIV" "rt_table ?stopped = rt_table rt'"
      by (simp_all add: all_events_def lost_ids_def count_failed_def)
    moreover have "ledger_ok (rt_table rt') (map fst (rt_log rt')) UNIV"
      using ok by (auto simp: runtime_ok_def ledger_ok_def all_events_def closed_ids_def opened_ids_def)
    ultimately have "runtime_ok ?stopped" by (simp add: runtime_ok_def)
    then show ?thesis using Io_poll polled Some by (simp add: io_step_def)
  qed (use Io_poll polled ok in \<open>simp add: io_step_def\<close>)
next
  case Io_publish
  show ?thesis
  proof (cases "rt_gathered rt")
    case Nil
    then show ?thesis
      using Io_publish assms by (simp add: io_step_def)
  next
    case (Cons event rest)
    let ?rt = "rt\<lparr>rt_gathered := rest\<rparr>"
    have "lost_ids ?rt = lost_ids rt" by (simp add: lost_ids_def)
    then have "ledger_ok (rt_table ?rt) (all_events rt) (lost_ids ?rt)"
      using assms by (simp add: runtime_ok_def)
    then have "ledger_ok (rt_table ?rt) (event # all_events ?rt) (lost_ids ?rt)"
      by (rule ledger_perm [rotated]) (simp add: all_events_def Cons)
    then have "runtime_ok (publish_event env event ?rt)" by (rule publish_event_ok)
    then show ?thesis using Io_publish Cons by (simp add: io_step_def)
  qed
qed (use assms in \<open>simp add: io_step_def\<close>)

lemma edge_step_ok: "edge_step lib env rt rt' \<Longrightarrow> runtime_ok rt \<Longrightarrow> runtime_ok rt'"
proof (induction rule: edge_step.induct)
  case (command rt command)
  then show ?case by (auto simp: enqueue_def split: prod.split bool.split)
next
  case (drain rt n)
  then show ?case by (simp add: drain_events_def split: prod.split)
next
  case (receive rt)
  then show ?case by (simp add: try_receive_def split: prod.split)
qed (simp_all add: io_step_ok)

lemma edge_reachable_ok: "edge_reachable lib env rt \<Longrightarrow> runtime_ok rt"
  by (induction rule: edge_reachable.induct) (auto intro: new_edge_runtime_ok edge_step_ok)

text \<open>
  C27. However the business thread and the I/O loop interleave and whatever the transports report or
  refuse, a connection has at most one termination event and none while it is in the table; and
  as long as the loop has not failed, a connection that was announced and has left the table has
  its termination event, unless the inbound queue refused one of its other events.
\<close>

theorem closed_exactly_once:
  assumes "edge_reachable lib env rt"
  shows "distinct (closed_ids (all_events rt)) \<and>
    (\<forall>cid \<in> set (closed_ids (all_events rt)). tb_connections (rt_table rt) cid = None) \<and>
    (rt_terminal_error rt = None \<longrightarrow>
      (\<forall>cid \<in> set (opened_ids (all_events rt)).
         tb_connections (rt_table rt) cid \<noteq> None \<or> cid \<in> set (closed_ids (all_events rt)) \<or>
         (\<exists>e. (e, False) \<in> set (rt_log rt) \<and> ev_kind e \<noteq> Connection_closed \<and> ev_connection e = cid)))"
proof (intro conjI impI ballI)
  have ok: "ledger_ok (rt_table rt) (all_events rt) (lost_ids rt)"
    using edge_reachable_ok [OF assms] by (simp add: runtime_ok_def)
  then show "distinct (closed_ids (all_events rt))"
    by (simp add: ledger_ok_def)
  show "tb_connections (rt_table rt) cid = None" if "cid \<in> set (closed_ids (all_events rt))" for cid
    using ok that by (simp add: ledger_ok_def)
  fix cid
  assume no_error: "rt_terminal_error rt = None" and opened: "cid \<in> set (opened_ids (all_events rt))"
  have "tb_connections (rt_table rt) cid \<noteq> None \<or> cid \<in> set (closed_ids (all_events rt)) \<or> cid \<in> lost_ids rt"
    using ok opened by (simp add: ledger_ok_def)
  then show "tb_connections (rt_table rt) cid \<noteq> None \<or> cid \<in> set (closed_ids (all_events rt)) \<or>
      (\<exists>e. (e, False) \<in> set (rt_log rt) \<and> ev_kind e \<noteq> Connection_closed \<and> ev_connection e = cid)"
    using no_error by (auto simp: lost_ids_def)
qed

text \<open>
  The connection table of a reachable runtime is consistent: the reverse index is the inverse of
  the records, without empty or repeated entries, and every id was handed out by the counter and
  has a registered transport, a valid session and a source.
\<close>

lemma edge_table_consistent:
  assumes "edge_reachable lib env rt"
  shows "index_ok (rt_table rt) \<and> sessions_ok (rt_table rt) \<and>
    (\<forall>cid r. tb_connections (rt_table rt) cid = Some r \<longrightarrow> record_ok (rt_table rt) cid r)"
  using runtime_table_ok [OF edge_reachable_ok [OF assms]] by (simp add: table_ok_def)

section \<open>A connection that closes before it is announced\<close>

text \<open>A client connects and migrates, within one poll, to the address of a trusted proxy, from
  which no forwarding header comes: its new source is refused and the connection closed.\<close>

definition migrating_client :: "transport_source transport_event list" where
  "migrating_client =
     [\<lparr>te_kind = Session_opened, te_session = 5, te_payload = [],
       te_source = \<lparr>ts_direct_peer = ''9.9.9.9'', ts_x_forwarded_for = [], ts_forwarded = []\<rparr>\<rparr>,
      \<lparr>te_kind = Address_changed, te_session = 5, te_payload = [], te_source = behind_proxy\<rparr>]"

definition small_transports :: "nat message_transports" where
  "small_transports =
     \<lparr>env_poll = (\<lambda>name polls. (Inr (if polls = 0 then migrating_client else []), polls + 1)),
      env_send = (\<lambda>name session payload polls. (True, polls)),
      env_close = (\<lambda>name session polls. (True, polls)),
      env_reload = (\<lambda>name polls. (True, polls))\<rparr>"

definition small_runtime :: "nat edge_runtime" where
  "small_runtime =
     \<lparr>rt_transports = [(''quic'', Quic)],
      rt_table = new_edge_table\<lparr>tb_transports := [''quic'' \<mapsto> Quic]\<rparr>,
      rt_source = small_normalizer, rt_inbound = \<lparr>bq_capacity = 8, bq_items = []\<rparr>,
      rt_outbound = \<lparr>bq_capacity = 8, bq_items = []\<rparr>, rt_max_commands = 4, rt_running = False,
      rt_stop_requested = False, rt_stats = no_stats, rt_terminal_error = None, rt_phase = Io_off,
      rt_final = False, rt_batch = [], rt_gathered = [], rt_world = 0, rt_log = []\<rparr>"

lemma small_runtime_new:
  "new_edge_runtime small_ip_library [(''quic'', Quic)]
     \<lparr>esc_mode = Trusted_x_forwarded_for, esc_trusted_proxies = [''10.0.0.1/8'']\<rparr> 8 8 4 2 0 = Inr small_runtime"
  by (simp add: new_edge_runtime_def small_normalizer_new new_bounded_queue_def register_transport_def
      new_edge_table_def small_runtime_def)

definition io_steps :: "nat \<Rightarrow> nat edge_runtime" where
  "io_steps n = (io_step small_ip_library small_transports ^^ n) (start_runtime small_runtime)"

lemma io_steps_reachable: "edge_reachable small_ip_library small_transports (io_steps n)"
proof (induction n)
  case 0
  have "edge_reachable small_ip_library small_transports small_runtime"
    using small_runtime_new by (rule edge_reachable.fresh)
  moreover have "edge_step small_ip_library small_transports small_runtime (start_runtime small_runtime)"
    by (rule edge_step.start) (simp add: small_runtime_def)
  ultimately show ?case unfolding io_steps_def by (simp add: edge_reachable.step)
next
  case (Suc n)
  then show ?case
    unfolding io_steps_def by (simp add: edge_reachable.step [OF _ edge_step.io])
qed

lemma migrating_sources:
  "normalize_source small_ip_library small_normalizer
     \<lparr>ts_direct_peer = ''9.9.9.9'', ts_x_forwarded_for = [], ts_forwarded = []\<rparr> = Some ''9.9.9.9''"
  "normalize_source small_ip_library small_normalizer behind_proxy = None"
  by code_simp+

text \<open>The state before the first poll, and what the poll makes of it.\<close>

definition before_poll :: "nat edge_runtime" where
  "before_poll = small_runtime\<lparr>rt_running := True, rt_phase := Io_poll\<rparr>"

lemma io_steps_3: "io_steps 3 = before_poll"
  by (simp add: io_steps_def numeral_3_eq_3 start_runtime_def small_runtime_def before_poll_def
      io_step_def loop_head_def drain_queue_def)

definition client_record :: edge_record where
  "client_record = \<lparr>er_primary = \<lparr>et_name = ''quic'', et_protocol = Quic, et_session = 5\<rparr>,
     er_source = ''9.9.9.9'', er_established = False\<rparr>"

definition client_opened :: edge_event where
  "client_opened = \<lparr>ev_kind = Connection_opened, ev_connection = 1, ev_protocol = Quic,
     ev_established = False, ev_payload = [], ev_source = ''9.9.9.9''\<rparr>"

lemma client_opens:
  "translate_event small_ip_library small_transports ''quic'' Quic (hd migrating_client)
     (before_poll\<lparr>rt_world := 1\<rparr>) =
   Inr (before_poll\<lparr>rt_world := 1, rt_gathered := [client_opened],
     rt_table := (rt_table small_runtime)\<lparr>tb_next := 2, tb_connections := [1 \<mapsto> client_record],
       tb_by_transport := [''quic'' \<mapsto> [(5, 1)]]\<rparr>\<rparr>)"
  by (simp add: translate_event_def migrating_client_def on_session_opened_def before_poll_def
      small_runtime_def migrating_sources open_connection_def find_connection_def new_edge_table_def
      gather_def client_opened_def client_record_def)

lemma client_closes:
  assumes "rt = before_poll\<lparr>rt_world := 1, rt_gathered := [client_opened],
     rt_table := (rt_table small_runtime)\<lparr>tb_next := 2, tb_connections := [1 \<mapsto> client_record],
       tb_by_transport := [''quic'' \<mapsto> [(5, 1)]]\<rparr>\<rparr>"
  shows "\<exists>rt'. translate_event small_ip_library small_transports ''quic'' Quic (hd (tl migrating_client)) rt = Inr rt' \<and>
     rt_gathered rt' = [client_opened] \<and>
     rt_inbound rt' = \<lparr>bq_capacity = 8, bq_items = [closed_event Quic (closed_snapshot 1 client_record)]\<rparr>"
  by (simp add: assms translate_event_def migrating_client_def on_address_changed_def before_poll_def
      small_runtime_def migrating_sources find_connection_def connection_record_def finish_close_def
      close_table_connection_def client_record_def count_invalid_source_def publish_event_def try_push_def)

lemma io_steps_5:
  "map (\<lambda>e. (ev_kind e, ev_connection e)) (bq_items (rt_inbound (io_steps 5))) =
     [(Connection_closed, 1), (Connection_opened, 1)]"
proof -
  have polled: "env_poll small_transports ''quic'' 0 = (Inr [hd migrating_client, hd (tl migrating_client)], 1)"
    by (simp add: small_transports_def migrating_client_def)
  obtain rt' where rt': "translate_event small_ip_library small_transports ''quic'' Quic (hd (tl migrating_client))
      (before_poll\<lparr>rt_world := 1, rt_gathered := [client_opened],
        rt_table := (rt_table small_runtime)\<lparr>tb_next := 2, tb_connections := [1 \<mapsto> client_record],
          tb_by_transport := [''quic'' \<mapsto> [(5, 1)]]\<rparr>\<rparr>) = Inr rt'"
      "rt_gathered rt' = [client_opened]"
      "rt_inbound rt' = \<lparr>bq_capacity = 8, bq_items = [closed_event Quic (closed_snapshot 1 client_record)]\<rparr>"
    using client_closes by blast
  have "rt_transports before_poll = [(''quic'', Quic)]" "rt_world before_poll = 0" "rt_phase before_poll = Io_poll"
    by (simp_all add: before_poll_def small_runtime_def)
  then have four: "io_steps 4 = rt'\<lparr>rt_phase := Io_publish\<rparr>"
    using io_steps_3 rt'(1) polled client_opens
    by (simp add: io_steps_def numeral_3_eq_3 eval_nat_numeral(2) [of "num.Bit0 num.One"] io_step_def)
  have "io_steps 5 = io_step small_ip_library small_transports (io_steps 4)"
    by (simp add: io_steps_def eval_nat_numeral)
  also have "\<dots> = publish_event small_transports client_opened
      (rt'\<lparr>rt_phase := Io_publish, rt_gathered := []\<rparr>)"
    by (simp add: four io_step_def rt'(2))
  also have "rt_inbound \<dots> = \<lparr>bq_capacity = 8,
      bq_items = [closed_event Quic (closed_snapshot 1 client_record), client_opened]\<rparr>"
    by (simp add: publish_event_def try_push_def rt'(3))
  finally show ?thesis
    by (simp add: client_opened_def closed_event_def closed_snapshot_def)
qed

text \<open>The termination event of a connection can reach the business thread before the event that
  announces it: closing inside a poll publishes at once, while the events gathered in the same
  poll are published after it.
\<close>

lemma closed_before_opened:
  "\<exists>rt. edge_reachable small_ip_library small_transports rt \<and>
     map (\<lambda>e. (ev_kind e, ev_connection e)) (bq_items (rt_inbound rt)) =
       [(Connection_closed, 1), (Connection_opened, 1)]"
  by (intro exI [of _ "io_steps 5"] conjI io_steps_reachable io_steps_5)

theorem closed_exactly_once_witness:
  "distinct (closed_ids (all_events (io_steps 5)))"
  using closed_exactly_once [OF io_steps_reachable] by blast

lemma edge_table_consistent_witness: "index_ok (rt_table (io_steps 5))"
  using edge_table_consistent [OF io_steps_reachable] by blast

end
