(* ===== verification/Gateway_Admission.thy ===== *)
theory Gateway_Admission
  imports Admission_Store Admission_Grant Edge_Runtime
begin

text \<open>
  Admission at the gateway (\<open>game/gateway/src/gateway_admission.cpp\<close>): both credentials are validated, then
  the identity is reserved in the consumption store; the reservation is committed or released once. The
  store is the interface \<open>AdmissionConsumptionStore\<close>, here a record of its operations on a state, with the
  store in memory as its instance. The flag \<open>terminal\<close> of a reservation ends its use.
\<close>

section \<open>The store interface\<close>

record 'w consumption_store =
  cs_reserve :: "admission_reserve_request \<Rightarrow> 'w \<Rightarrow> (error + reserve_result) \<times> 'w"
  cs_commit :: "admission_reservation \<Rightarrow> time_point \<Rightarrow> 'w \<Rightarrow> (error + mutation_status) \<times> 'w"
  cs_release :: "admission_reservation \<Rightarrow> time_point \<Rightarrow> 'w \<Rightarrow> (error + mutation_status) \<times> 'w"
  cs_available :: "'w \<Rightarrow> bool"
  cs_probe :: "'w \<Rightarrow> bool \<times> 'w"

definition memory_consumption :: "sodium \<Rightarrow> keyed_hash \<Rightarrow> memory_store consumption_store" where
  "memory_consumption na hash =
     \<lparr>cs_reserve = memory_reserve na hash, cs_commit = memory_commit na hash, cs_release = memory_release na hash,
      cs_available = ms_available, cs_probe = (\<lambda>m. (ms_available m, m))\<rparr>"

section \<open>Data\<close>

datatype start_status =
  Start_reserved | Start_invalid | Start_in_progress | Start_consumed | Start_unavailable

record gateway_reservation =
  gr_account :: u64
  gr_reservation :: admission_reservation
  gr_terminal :: bool

record start_result =
  gs_status :: start_status
  gs_reservation :: "gateway_reservation option"

datatype transition = Transition_pending | Transition_applied | Transition_lost | Transition_unavailable

record gateway_admission =
  ga_identity :: identity_codec
  ga_issuer :: string
  ga_grants :: grant_verifier
  ga_next_probe :: "time_point option"

definition new_gateway_admission ::
  "identity_codec \<Rightarrow> string \<Rightarrow> grant_verifier \<Rightarrow> error + gateway_admission" where
  "new_gateway_admission codec issuer verifier =
     (if issuer = [] then Inl (Invalid_argument ''identity issuer must not be empty'')
      else Inr \<lparr>ga_identity = codec, ga_issuer = issuer, ga_grants = verifier, ga_next_probe = None\<rparr>)"

section \<open>Operations\<close>

definition refused_start :: "start_status \<Rightarrow> start_result" where
  "refused_start st = \<lparr>gs_status = st, gs_reservation = None\<rparr>"

definition reserve_request :: "identity_claims \<Rightarrow> grant_claims \<Rightarrow> string \<Rightarrow> time_point \<Rightarrow> admission_reserve_request" where
  "reserve_request identity grant owner now =
     \<lparr>arq_identity_jti = ic_jti identity, arq_grant_jti = gc_grant_jti grant, arq_owner = owner, arq_now = now,
      arq_consume_until = min (ic_expires_at identity) (gc_expires_at grant) + jws_clock_leeway\<rparr>"

definition start_of :: "u64 \<Rightarrow> reserve_result \<Rightarrow> start_result" where
  "start_of account stored =
     (case rr_status stored of
        Reserve_reserved \<Rightarrow>
          (case rr_reservation stored of
             None \<Rightarrow> refused_start Start_unavailable
           | Some r \<Rightarrow> \<lparr>gs_status = Start_reserved,
                        gs_reservation = Some \<lparr>gr_account = account, gr_reservation = r, gr_terminal = False\<rparr>\<rparr>)
      | Reserve_in_progress \<Rightarrow> refused_start Start_in_progress
      | Reserve_consumed \<Rightarrow> refused_start Start_consumed
      | Reserve_unavailable \<Rightarrow> refused_start Start_unavailable)"

definition gateway_reserve ::
  "sodium \<Rightarrow> 'w consumption_store \<Rightarrow> gateway_admission \<Rightarrow> string \<Rightarrow> string \<Rightarrow> string \<Rightarrow> time_point \<Rightarrow> 'w \<Rightarrow>
   (error + start_result) \<times> 'w" where
  "gateway_reserve na S adm token grant_token owner now w =
     (case identity_validate na (ga_identity adm) token (ga_issuer adm) now of
        None \<Rightarrow> (Inr (refused_start Start_invalid), w)
      | Some identity \<Rightarrow>
          (case grant_validate na (ga_grants adm) grant_token (ic_jti identity) (ic_expires_at identity) now of
             None \<Rightarrow> (Inr (refused_start Start_invalid), w)
           | Some grant \<Rightarrow>
               (case cs_reserve S (reserve_request identity grant owner now) w of
                  (Inl e, w') \<Rightarrow> (Inl e, w')
                | (Inr stored, w') \<Rightarrow> (Inr (start_of (ic_account_id identity) stored), w'))))"

fun transition_status :: "mutation_status \<Rightarrow> transition" where
  "transition_status Mutation_applied = Transition_applied"
| "transition_status Mutation_lost = Transition_lost"
| "transition_status Mutation_unavailable = Transition_unavailable"

definition gateway_accept_result ::
  "'w consumption_store \<Rightarrow> gateway_reservation \<Rightarrow> queue_result \<Rightarrow> time_point \<Rightarrow> 'w \<Rightarrow>
   (error + transition) \<times> gateway_reservation \<times> 'w" where
  "gateway_accept_result S r result now w =
     (if gr_terminal r then (Inr Transition_lost, r, w)
      else case result of
             Queue_full \<Rightarrow> (Inr Transition_pending, r, w)
           | Queue_stopped \<Rightarrow>
               (case cs_release S (gr_reservation r) now w of
                  (status_code, w') \<Rightarrow> (map_sum id transition_status status_code, r\<lparr>gr_terminal := True\<rparr>, w'))
           | Queued \<Rightarrow>
               (case cs_commit S (gr_reservation r) now w of
                  (status_code, w') \<Rightarrow> (map_sum id transition_status status_code, r\<lparr>gr_terminal := True\<rparr>, w')))"

definition gateway_abandon ::
  "'w consumption_store \<Rightarrow> gateway_reservation \<Rightarrow> time_point \<Rightarrow> 'w \<Rightarrow> (error + transition) \<times> gateway_reservation \<times> 'w" where
  "gateway_abandon S r now w =
     (if gr_terminal r then (Inr Transition_lost, r, w)
      else case cs_release S (gr_reservation r) now w of
             (status_code, w') \<Rightarrow> (map_sum id transition_status status_code, r\<lparr>gr_terminal := True\<rparr>, w'))"

definition refresh_availability ::
  "'w consumption_store \<Rightarrow> time_point \<Rightarrow> gateway_admission \<Rightarrow> 'w \<Rightarrow> bool \<times> gateway_admission \<times> 'w" where
  "refresh_availability S now adm w =
     (if (case ga_next_probe adm of None \<Rightarrow> False | Some probe_at \<Rightarrow> now < probe_at)
      then (cs_available S w, adm, w)
      else (case cs_probe S w of (up, w') \<Rightarrow> (up, adm\<lparr>ga_next_probe := Some (now + seconds 1)\<rparr>, w')))"

section \<open>A reservation stays until it is settled\<close>

fun call_owner :: "store_call \<Rightarrow> string" where
  "call_owner (Call_reserve request) = arq_owner request"
| "call_owner (Call_commit reservation now) = ar_owner reservation"
| "call_owner (Call_release reservation now) = ar_owner reservation"

lemma other_owner_step:
  assumes "ms_records m identity = Some r" "sr_state r = Stored_reserved" "sr_owner r \<noteq> call_owner c"
  shows "\<exists>r'. ms_records (store_call_step na hash c m) identity = Some r' \<and> (r' = r \<or> sr_fencing r < sr_fencing r')"
proof -
  have "f \<noteq> - 1 \<Longrightarrow> f < f + 1" for f :: u64
    by (simp add: word_less_nat_alt unatSuc add.commute eq_neg_iff_add_eq_0)
  then show ?thesis
    using assms
    by (cases c) (auto simp: memory_reserve_def memory_commit_def memory_release_def Let_def reservation_matches_def
        split: sum.splits option.splits)
qed

lemma fencing_calls:
  "ms_records m identity = Some r \<Longrightarrow>
   \<exists>r'. ms_records (store_calls na hash cs m) identity = Some r' \<and> sr_fencing r \<le> sr_fencing r'"
proof (induction cs arbitrary: m r)
  case (Cons c cs)
  obtain r1 where r1: "ms_records (store_call_step na hash c m) identity = Some r1" "sr_fencing r \<le> sr_fencing r1"
    using fencing_step [OF Cons.prems, of na hash c] by auto
  then show ?case using Cons.IH [OF r1(1)] by (auto intro: order_trans)
qed simp

lemma other_owner_calls:
  assumes "ms_records m identity = Some r" "sr_state r = Stored_reserved" "\<forall>c \<in> set cs. call_owner c \<noteq> sr_owner r"
  shows "\<exists>r'. ms_records (store_calls na hash cs m) identity = Some r' \<and> (r' = r \<or> sr_fencing r < sr_fencing r')"
  using assms
proof (induction cs arbitrary: m)
  case (Cons c cs)
  obtain r1 where r1: "ms_records (store_call_step na hash c m) identity = Some r1" "r1 = r \<or> sr_fencing r < sr_fencing r1"
    using other_owner_step [OF Cons.prems(1,2), of c na hash] Cons.prems(3) by auto
  show ?case
  proof (cases "r1 = r")
    case True
    then show ?thesis using Cons.IH [OF _ Cons.prems(2)] r1(1) Cons.prems(3) by simp
  next
    case False
    then obtain r2 where "ms_records (store_calls na hash cs (store_call_step na hash c m)) identity = Some r2"
      "sr_fencing r1 \<le> sr_fencing r2"
      using fencing_calls [OF r1(1), of na hash cs] by blast
    then show ?thesis using r1(2) False by auto
  qed
qed simp

section \<open>A pair of credentials admits once\<close>

lemma normalized_seconds [simp]: "normalized (seconds n) = seconds n" "normalized (normalized t) = normalized t"
  by (simp_all add: normalized_def)

lemma normalized_mono: "a \<le> b \<Longrightarrow> normalized a \<le> normalized b"
  by (simp add: normalized_def epoch_seconds_mono)

lemma identity_validate_again:
  "identity_validate na codec token issuer now = Some a \<Longrightarrow> identity_validate na codec token issuer later = Some b \<Longrightarrow> a = b"
  by (auto simp: identity_validate_def identity_claims_of_def Let_def split: option.splits if_splits)

lemma grant_validate_again:
  "grant_validate na verifier token jti expires now = Some a \<Longrightarrow> grant_validate na verifier token jti expires later = Some b \<Longrightarrow> a = b"
  by (auto simp: grant_validate_def grant_claims_of_def Let_def split: option.splits if_splits)

lemma grant_validate_time:
  "grant_validate na verifier token jti expires now = Some a \<Longrightarrow>
   now \<le> gc_expires_at a + jws_clock_leeway \<and> gc_expires_at a \<le> expires \<and> (\<exists>n. gc_expires_at a = seconds n)"
  by (auto simp: grant_validate_def grant_claims_of_def Let_def split: option.splits if_splits)

lemma memory_reserve_digest:
  "memory_reserve na hash request m = (Inr stored, m1) \<Longrightarrow> rr_reservation stored = Some x \<Longrightarrow>
   \<exists>identity. stable_digest na hash (arq_identity_jti request) (co_digest_key (ms_options m)) = Inr identity"
  by (auto simp: memory_reserve_def refused_def split: sum.splits if_splits)

lemma memory_reserve_fresh:
  assumes "memory_reserve na hash request m = (Inr stored, m1)" "rr_reservation stored = Some x"
    and "\<forall>identity r. ms_records m identity = Some r \<longrightarrow> sr_owner r \<noteq> arq_owner request"
    and "stable_digest na hash (arq_identity_jti request) (co_digest_key (ms_options m)) = Inr identity"
  shows "\<exists>r. ms_records m1 identity = Some r \<and> sr_state r = Stored_reserved \<and> sr_owner r = arq_owner request \<and>
    ar_fencing x = sr_fencing r \<and> ar_consume_until x = normalized (arq_consume_until request) \<and>
    ar_identity_jti x = arq_identity_jti request \<and> ms_options m1 = ms_options m"
proof -
  have other: "sr_owner r \<noteq> arq_owner request" if "ms_records m identity = Some r" for r
    using assms(3) that by blast
  show ?thesis
    using assms(1,2,4) other
    by (auto simp: memory_reserve_def refused_def reserved_def reservation_from_def Let_def split: sum.splits option.splits if_splits)
qed

lemma memory_commit_applied:
  assumes "memory_commit na hash x now m = (Inr Mutation_applied, m1)"
    and "stable_digest na hash (ar_identity_jti x) (co_digest_key (ms_options m)) = Inr identity"
    and "ms_records m identity = Some r'" "r' = r \<or> sr_fencing r < sr_fencing r'" "sr_state r = Stored_reserved"
    and "ar_fencing x = sr_fencing r"
  shows "\<exists>r1. ms_records m1 identity = Some r1 \<and> sr_state r1 = Stored_consumed \<and>
    sr_consume_until r1 = normalized (ar_consume_until x) \<and> ms_options m1 = ms_options m"
proof -
  have "r' = r" using assms
    by (auto simp: memory_commit_def reservation_matches_def split: sum.splits option.splits if_splits)
  then show ?thesis using assms
    by (auto simp: memory_commit_def split: sum.splits option.splits if_splits)
qed

lemma consumed_refused:
  assumes "ms_records m identity = Some r" "sr_state r = Stored_consumed" "normalized (arq_now request) \<le> sr_consume_until r"
    and "stable_digest na hash (arq_identity_jti request) (co_digest_key (ms_options m)) = Inr identity"
    and "memory_reserve na hash request m = (Inr stored, m1)"
  shows "rr_reservation stored = None \<and> rr_status stored \<noteq> Reserve_reserved"
  using assms by (auto simp: memory_reserve_def refused_def Let_def split: sum.splits option.splits if_splits)

text \<open>
  C5. A pair of credentials is admitted once. When the gateway has reserved and committed a pair, no gateway
  on the same store ever reserves the pair again, at any later time and whatever calls were made on the store
  before and after the commit, in the name of other attempts: as long as the pair would still validate, the
  record of its consumption is kept.
\<close>

theorem credentials_admit_once:
  assumes "gateway_reserve na (memory_consumption na hash) adm token grant_token owner t0 m0 = (Inr start, m1)"
    and "gs_reservation start = Some r"
    and "\<forall>identity rec. ms_records m0 identity = Some rec \<longrightarrow> sr_owner rec \<noteq> owner"
    and "\<forall>c \<in> set earlier. call_owner c \<noteq> owner"
    and "gateway_accept_result (memory_consumption na hash) r Queued t1 (store_calls na hash earlier m1) =
           (Inr Transition_applied, r', m3)"
    and "\<forall>c \<in> set later. call_time c \<le> t2"
    and "gateway_reserve na (memory_consumption na hash) adm token grant_token owner2 t2 (store_calls na hash later m3) =
           (Inr again, m4)"
  shows "gs_reservation again = None"
proof -
  obtain i g stored where first: "identity_validate na (ga_identity adm) token (ga_issuer adm) t0 = Some i"
    "grant_validate na (ga_grants adm) grant_token (ic_jti i) (ic_expires_at i) t0 = Some g"
    "memory_reserve na hash (reserve_request i g owner t0) m0 = (Inr stored, m1)" "start = start_of (ic_account_id i) stored"
    using assms(1,2)
    by (auto simp: gateway_reserve_def memory_consumption_def refused_start_def split: option.splits prod.splits sum.splits)
  obtain x where x: "rr_reservation stored = Some x" "r = \<lparr>gr_account = ic_account_id i, gr_reservation = x, gr_terminal = False\<rparr>"
    using first(4) assms(2) by (auto simp: start_of_def refused_start_def split: reserve_status.splits option.splits)
  obtain identity rec where rec: "stable_digest na hash (ic_jti i) (co_digest_key (ms_options m0)) = Inr identity"
    "ms_records m1 identity = Some rec" "sr_state rec = Stored_reserved" "sr_owner rec = owner"
    "ar_fencing x = sr_fencing rec" "ar_consume_until x = normalized (arq_consume_until (reserve_request i g owner t0))"
    "ar_identity_jti x = ic_jti i" "ms_options m1 = ms_options m0"
  proof -
    obtain identity where d: "stable_digest na hash (arq_identity_jti (reserve_request i g owner t0)) (co_digest_key (ms_options m0))
        = Inr identity"
      using memory_reserve_digest [OF first(3) x(1)] by blast
    have "\<forall>identity rec. ms_records m0 identity = Some rec \<longrightarrow> sr_owner rec \<noteq> arq_owner (reserve_request i g owner t0)"
      using assms(3) by (simp add: reserve_request_def)
    from memory_reserve_fresh [OF first(3) x(1) this d] d that show thesis by (auto simp: reserve_request_def)
  qed
  note time = grant_validate_time [OF first(2)]
  then obtain n where n: "gc_expires_at g = seconds n" by blast
  have until: "ar_consume_until x = gc_expires_at g + jws_clock_leeway"
  proof -
    have "min (ic_expires_at i) (gc_expires_at g) + jws_clock_leeway = seconds (n + 60)"
      using time by (simp add: n jws_clock_leeway_def seconds_def distrib_right)
    moreover have "gc_expires_at g + jws_clock_leeway = seconds (n + 60)"
      by (simp add: n jws_clock_leeway_def seconds_def distrib_right)
    ultimately show ?thesis using rec(6) by (simp add: reserve_request_def)
  qed
  obtain rec2 where rec2: "ms_records (store_calls na hash earlier m1) identity = Some rec2"
    "rec2 = rec \<or> sr_fencing rec < sr_fencing rec2"
    using other_owner_calls [OF rec(2,3)] assms(4) rec(4) by blast
  have "memory_commit na hash x t1 (store_calls na hash earlier m1) = (Inr Mutation_applied, m3)"
    using assms(5) by (auto simp: gateway_accept_result_def memory_consumption_def x(2) map_sum_def
        elim!: transition_status.elims split: prod.splits sum.splits)
  then obtain rec3 where rec3: "ms_records m3 identity = Some rec3" "sr_state rec3 = Stored_consumed"
    "sr_consume_until rec3 = normalized (ar_consume_until x)" "ms_options m3 = ms_options m0"
    using memory_commit_applied [OF _ _ rec2 rec(3,5), of na hash t1 m3] rec(1,7,8) by auto
  show ?thesis
  proof (rule ccontr)
    assume none: "gs_reservation again \<noteq> None"
    obtain i2 g2 stored2 where second: "identity_validate na (ga_identity adm) token (ga_issuer adm) t2 = Some i2"
      "grant_validate na (ga_grants adm) grant_token (ic_jti i2) (ic_expires_at i2) t2 = Some g2"
      "memory_reserve na hash (reserve_request i2 g2 owner2 t2) (store_calls na hash later m3) = (Inr stored2, m4)"
      "again = start_of (ic_account_id i2) stored2"
      using assms(7) none
      by (auto simp: gateway_reserve_def memory_consumption_def refused_start_def split: option.splits prod.splits sum.splits)
    have same: "i2 = i" using identity_validate_again [OF second(1) first(1)] .
    then have "g2 = g" using grant_validate_again [OF second(2) [unfolded same] first(2)] by simp
    then have "t2 \<le> ar_consume_until x" using grant_validate_time [OF second(2)] until by simp
    then have kept: "\<And>t. t \<le> t2 \<Longrightarrow> normalized t \<le> sr_consume_until rec3"
      unfolding rec3(3) by (intro normalized_mono) simp
    have "\<forall>c \<in> set later. normalized (call_time c) \<le> sr_consume_until rec3"
      using assms(6) kept by blast
    note still = consumed_calls [OF rec3(1,2) this, of na hash]
    have "rr_reservation stored2 = None \<and> rr_status stored2 \<noteq> Reserve_reserved"
      using kept [of t2] rec(1) rec3(4)
      by (intro consumed_refused [OF still rec3(2) _ _ second(3)]) (simp_all add: reserve_request_def same)
    then show False
      using none second(4) by (auto simp: start_of_def refused_start_def split: reserve_status.splits)
  qed
qed

section \<open>A concrete admission\<close>

definition sample_admission :: gateway_admission where
  "sample_admission = \<lparr>ga_identity = example_codec, ga_issuer = ''realmmesh/login'', ga_grants = example_grant_verifier,
     ga_next_probe = None\<rparr>"

definition sample_memory :: memory_store where
  "sample_memory = \<lparr>ms_options = example_options, ms_records = Map.empty, ms_available = True\<rparr>"

abbreviation sample_store :: "memory_store consumption_store" where
  "sample_store \<equiv> memory_consumption example_sodium padding_hash"

lemma sample_digest: "\<exists>d. stable_digest example_sodium padding_hash s key = Inr d"
  by (simp add: stable_digest_def padding_hash_def example_sodium_def)

lemma sample_jtis:
  "ic_jti (carried_claims example_claims) = ''00112233445566778899aabbccddeeff''"
  "ic_expires_at (carried_claims example_claims) = seconds 1900"
  "gc_grant_jti (carried_grant example_policy example_grant_issue) = ''ffeeddccbbaa99887766554433221100''"
  "gc_expires_at (carried_grant example_policy example_grant_issue) = seconds 1300"
  by (simp_all add: carried_claims_def example_claims_def carried_grant_def grant_expiry_def example_grant_issue_def
      example_policy_def min_def)
    (simp add: clock_defs epoch_seconds_def)

lemma sample_validates:
  assumes "grant_issue_token example_sodium example_grant_issuer example_grant_issue = Inr token"
    and "seconds 1010 \<le> now" "now \<le> seconds 1360"
  shows "identity_validate example_sodium example_codec (identity_issue example_sodium example_codec example_claims)
      ''realmmesh/login'' now = Some (carried_claims example_claims)"
    "grant_validate example_sodium example_grant_verifier token (ic_jti (carried_claims example_claims))
      (ic_expires_at (carried_claims example_claims)) now = Some (carried_grant example_policy example_grant_issue)"
proof -
  have "identity_window (carried_claims example_claims) now"
    using assms(2,3) by (simp add: identity_window_def carried_claims_def example_claims_def jws_clock_leeway_def seconds_def
        ns_per_second_def epoch_seconds_def)
  then show "identity_validate example_sodium example_codec (identity_issue example_sodium example_codec example_claims)
      ''realmmesh/login'' now = Some (carried_claims example_claims)"
    using identity_validate_issued [OF sodium_laws_example example_codec_new _ claims_issuable_example]
    by (simp add: example_claims_def)
  have "gi_identity_expires_at example_grant_issue \<le> seconds 1900"
    "gi_identity_jti example_grant_issue = ''00112233445566778899aabbccddeeff''"
    by (simp_all add: example_grant_issue_def)
  moreover have "grant_window (carried_grant example_policy example_grant_issue) now"
    using assms(2,3) by (simp add: grant_window_def carried_grant_def grant_expiry_def example_grant_issue_def
        example_policy_def clock_defs epoch_seconds_def jws_clock_leeway_def)
  ultimately show "grant_validate example_sodium example_grant_verifier token (ic_jti (carried_claims example_claims))
      (ic_expires_at (carried_claims example_claims)) now = Some (carried_grant example_policy example_grant_issue)"
    using grant_issue_validate [OF sodium_laws_example example_issuer_new assms(1) example_grant_clock
        example_grant_verifier_ring, of "seconds 1900"]
    by (simp add: sample_jtis)
qed

lemma sample_request_valid:
  assumes "valid_owner owner" "0 \<le> n" "n \<le> 1300"
  shows "validate_request (reserve_request (carried_claims example_claims) (carried_grant example_policy example_grant_issue)
     owner (seconds n)) = Inr ()"
proof -
  have "valid_lower_hex ''00112233445566778899aabbccddeeff'' 32" "valid_lower_hex ''ffeeddccbbaa99887766554433221100'' 32"
    by code_simp+
  moreover have "seconds 1300 + jws_clock_leeway = seconds 1360"
    by (simp add: jws_clock_leeway_def seconds_def)
  ultimately show ?thesis
    using assms by (simp add: validate_request_def reserve_request_def sample_jtis valid_time_def)
qed

lemma sample_admitted:
  assumes "grant_issue_token example_sodium example_grant_issuer example_grant_issue = Inr token"
  shows "\<exists>start r m1 r' m3. gateway_reserve example_sodium sample_store sample_admission
      (identity_issue example_sodium example_codec example_claims) token ''gateway-2'' (seconds 1100) sample_memory = (Inr start, m1) \<and>
    gs_reservation start = Some r \<and>
    gateway_accept_result sample_store r Queued (seconds 1105) m1 = (Inr Transition_applied, r', m3)"
proof -
  let ?i = "carried_claims example_claims" and ?g = "carried_grant example_policy example_grant_issue"
  let ?request = "reserve_request ?i ?g ''gateway-2'' (seconds 1100)"
  obtain d1 d2 where d: "stable_digest example_sodium padding_hash (ic_jti ?i) (co_digest_key example_options) = Inr d1"
    "stable_digest example_sodium padding_hash (gc_grant_jti ?g) (co_digest_key example_options) = Inr d2"
    using sample_digest by metis
  have owner: "valid_owner ''gateway-2''" by code_simp
  note valid = sample_request_valid [OF owner, of 1100]
  note keys = valid [unfolded validate_request_def, simplified]
  let ?rec = "\<lparr>sr_state = Stored_reserved, sr_grant_digest = d2, sr_owner = ''gateway-2'', sr_fencing = 1,
      sr_lease_expires_at = seconds 1110, sr_consume_until = seconds 1360\<rparr>"
  have until: "seconds 1300 + jws_clock_leeway = seconds 1360"
    by (simp add: jws_clock_leeway_def seconds_def)
  have lease: "seconds 1100 + seconds (co_reservation_ttl example_options) = seconds 1110"
    by (simp add: example_options_def seconds_def)
  have request: "arq_identity_jti ?request = ic_jti ?i" "arq_grant_jti ?request = gc_grant_jti ?g" "arq_owner ?request = ''gateway-2''"
    "arq_now ?request = seconds 1100" "arq_consume_until ?request = seconds 1360"
    by (simp_all add: reserve_request_def sample_jtis until)
  have reserve: "memory_reserve example_sodium padding_hash ?request sample_memory =
      (Inr (reserved ?request ?rec), sample_memory\<lparr>ms_records := [d1 \<mapsto> ?rec]\<rparr>)"
    using valid d by (simp add: memory_reserve_def sample_memory_def request Let_def lease)
  let ?x = "reservation_from ?request ?rec"
  have x: "ar_identity_jti ?x = ic_jti ?i" "ar_grant_jti ?x = gc_grant_jti ?g" "ar_fencing ?x = 1" "ar_owner ?x = ''gateway-2''"
    "ar_lease_expires_at ?x = seconds 1110" "ar_consume_until ?x = seconds 1360"
    by (simp_all add: reservation_from_def request)
  have "valid_lower_hex (ic_jti ?i) 32" "valid_lower_hex (gc_grant_jti ?g) 32"
    unfolding sample_jtis by code_simp+
  then have "validate_reservation ?x = Inr ()"
    using owner by (simp add: validate_reservation_def x valid_time_def)
  then have commit: "\<exists>m3. memory_commit example_sodium padding_hash ?x (seconds 1105) (sample_memory\<lparr>ms_records := [d1 \<mapsto> ?rec]\<rparr>) =
      (Inr Mutation_applied, m3)"
    using d by (simp add: memory_commit_def sample_memory_def x valid_time_def reservation_matches_def)
  have "seconds 1010 \<le> seconds 1100" "seconds 1100 \<le> seconds 1360" by simp_all
  note v = sample_validates [OF assms this]
  let ?start = "start_of (ic_account_id ?i) (reserved ?request ?rec)"
  have "gateway_reserve example_sodium sample_store sample_admission (identity_issue example_sodium example_codec example_claims)
      token ''gateway-2'' (seconds 1100) sample_memory = (Inr ?start, sample_memory\<lparr>ms_records := [d1 \<mapsto> ?rec]\<rparr>)"
    unfolding gateway_reserve_def sample_admission_def memory_consumption_def using v reserve by simp
  moreover have "gs_reservation ?start = Some \<lparr>gr_account = ic_account_id ?i, gr_reservation = ?x, gr_terminal = False\<rparr>"
    by (simp add: start_of_def reserved_def)
  moreover obtain m3 where "memory_commit example_sodium padding_hash ?x (seconds 1105) (sample_memory\<lparr>ms_records := [d1 \<mapsto> ?rec]\<rparr>) =
      (Inr Mutation_applied, m3)"
    using commit by blast
  ultimately show ?thesis
    by (fastforce simp: gateway_accept_result_def memory_consumption_def)
qed

theorem credentials_admit_once_witness:
  "\<exists>token m3. grant_issue_token example_sodium example_grant_issuer example_grant_issue = Inr token \<and>
     (\<forall>again m4. gateway_reserve example_sodium sample_store sample_admission
        (identity_issue example_sodium example_codec example_claims) token ''gateway-3'' (seconds 1200) m3 = (Inr again, m4) \<longrightarrow>
        gs_reservation again = None)"
proof -
  obtain token where token: "grant_issue_token example_sodium example_grant_issuer example_grant_issue = Inr token"
    using example_grant_issued by blast
  obtain start r m1 r' m3 where run: "gateway_reserve example_sodium sample_store sample_admission
      (identity_issue example_sodium example_codec example_claims) token ''gateway-2'' (seconds 1100) sample_memory = (Inr start, m1)"
    "gs_reservation start = Some r"
    "gateway_accept_result sample_store r Queued (seconds 1105) (store_calls example_sodium padding_hash [] m1) =
       (Inr Transition_applied, r', m3)"
    using sample_admitted [OF token] by auto
  have new: "\<forall>identity rec. ms_records sample_memory identity = Some rec \<longrightarrow> sr_owner rec \<noteq> ''gateway-2''"
    by (simp add: sample_memory_def)
  have none: "\<forall>c \<in> set []. call_owner c \<noteq> ''gateway-2''" "\<forall>c \<in> set []. call_time c \<le> seconds 1200" by simp_all
  show ?thesis
    using credentials_admit_once [OF run(1,2) new none(1) run(3) none(2), of "''gateway-3''"] token by auto
qed

end
