(* ===== verification/Ordered_Map.thy ===== *)
theory Ordered_Map
  imports Main
begin

text \<open>
  \<open>std::map\<close> as the list of its entries in key order: insertion or assignment, erasure and lookup
  by \<open>map_of\<close>. Iteration is the list itself.
\<close>

fun map_put :: "'k :: linorder \<Rightarrow> 'v \<Rightarrow> ('k \<times> 'v) list \<Rightarrow> ('k \<times> 'v) list" where
  "map_put k v [] = [(k, v)]"
| "map_put k v ((k', v') # m) =
     (if k < k' then (k, v) # (k', v') # m
      else if k = k' then (k, v) # m
      else (k', v') # map_put k v m)"

lemma map_put_twice [simp]: "map_put k v (map_put k w m) = map_put k v m"
  by (induction m rule: map_put.induct [where ?a0.0 = k]) auto

definition map_erase :: "'k \<Rightarrow> ('k \<times> 'v) list \<Rightarrow> ('k \<times> 'v) list" where
  "map_erase k m = filter (\<lambda>entry. fst entry \<noteq> k) m"

definition ordered :: "('k :: linorder \<times> 'v) list \<Rightarrow> bool" where
  "ordered m \<longleftrightarrow> sorted_wrt (<) (map fst m)"

lemma ordered_Nil [simp]: "ordered []"
  by (simp add: ordered_def)

lemma ordered_Cons: "ordered (e # m) \<longleftrightarrow> (\<forall>k \<in> fst ` set m. fst e < k) \<and> ordered m"
  by (auto simp: ordered_def)

lemma keys_map_put [simp]: "fst ` set (map_put k v m) = insert k (fst ` set m)"
  by (induction m rule: map_put.induct [where ?a0.0 = k]) auto

lemma ordered_map_put [simp]: "ordered m \<Longrightarrow> ordered (map_put k v m)"
  by (induction k v m rule: map_put.induct) (auto simp: ordered_Cons image_iff)

lemma ordered_filter [simp]: "ordered m \<Longrightarrow> ordered (filter P m)"
  by (induction m) (auto simp: ordered_Cons)

lemma ordered_map_erase [simp]: "ordered m \<Longrightarrow> ordered (map_erase k m)"
  by (simp add: map_erase_def)

lemma ordered_distinct: "ordered m \<Longrightarrow> distinct (map fst m)"
  by (induction m) (auto simp: ordered_Cons)

lemma map_of_map_put [simp]: "ordered m \<Longrightarrow> map_of (map_put k v m) = (map_of m)(k \<mapsto> v)"
proof (induction k v m rule: map_put.induct)
  case (2 k v k' v' m)
  then show ?case by (auto simp: ordered_Cons fun_eq_iff)
qed simp

lemma map_of_filter:
  "distinct (map fst m) \<Longrightarrow>
     map_of (filter P m) k = (case map_of m k of Some v \<Rightarrow> if P (k, v) then Some v else None | None \<Rightarrow> None)"
  by (induction m) (auto split: option.splits simp: map_of_eq_None_iff image_iff)

lemma map_of_filter_key: "map_of (filter (\<lambda>entry. P (fst entry)) m) k = (if P k then map_of m k else None)"
  by (induction m) auto

lemma map_of_map_erase [simp]: "map_of (map_erase k m) = (map_of m)(k := None)"
  by (induction m) (auto simp: map_erase_def fun_eq_iff)

lemma map_erase_absent: "k \<notin> fst ` set m \<Longrightarrow> map_erase k m = m"
  by (induction m) (auto simp: map_erase_def)

lemma keys_map_erase [simp]: "fst ` set (map_erase k m) = fst ` set m - {k}"
  by (auto simp: map_erase_def)

lemma map_of_Some_mem: "map_of m k = Some v \<Longrightarrow> k \<in> fst ` set m"
  by (auto dest: map_of_SomeD intro: rev_image_eqI)

lemma map_of_keys: "map_of m k \<noteq> None \<longleftrightarrow> k \<in> fst ` set m"
  by (simp add: map_of_eq_None_iff)

lemma length_map_put: "ordered m \<Longrightarrow> length (map_put k v m) = card (insert k (fst ` set m))"
  using distinct_card [OF ordered_distinct [OF ordered_map_put, of m k v]] by simp

lemma length_ordered: "ordered m \<Longrightarrow> length m = card (fst ` set m)"
  using distinct_card [OF ordered_distinct, of m] by simp

lemma length_map_erase_le [simp]: "length (map_erase k m) \<le> length m"
  by (simp add: map_erase_def)

lemma length_erase_present: "ordered m \<Longrightarrow> k \<in> fst ` set m \<Longrightarrow> Suc (length (map_erase k m)) = length m"
  using card_Suc_Diff1 [of "fst ` set m" k] by (simp add: length_ordered)

lemma length_put_present: "ordered m \<Longrightarrow> k \<in> fst ` set m \<Longrightarrow> length (map_put k v m) = length m"
  by (simp add: length_map_put length_ordered insert_absorb)

text \<open>A sum over the entries is the share of one key and the rest.\<close>

lemma sum_map_erase:
  fixes f :: "'k :: linorder \<times> 'v \<Rightarrow> 'n :: comm_monoid_add"
  assumes "ordered m" "map_of m k = Some v"
  shows "sum_list (map f m) = f (k, v) + sum_list (map f (map_erase k m))"
  using assms
proof (induction m)
  case (Cons e m)
  show ?case
  proof (cases "fst e = k")
    case True
    then have "k \<notin> fst ` set m" "e = (k, v)" using Cons.prems by (auto simp: ordered_Cons)
    then show ?thesis using map_erase_absent [of k m] by (simp add: map_erase_def)
  next
    case False
    then show ?thesis
      using Cons by (cases e) (auto simp: ordered_Cons map_erase_def ac_simps)
  qed
qed simp

lemma sum_map_put:
  fixes f :: "'k :: linorder \<times> 'v \<Rightarrow> 'n :: comm_monoid_add"
  assumes "ordered m"
  shows "sum_list (map f (map_put k v m)) = f (k, v) + sum_list (map f (map_erase k m))"
proof -
  have "map_erase k (map_put k v m) = map_erase k m"
    by (induction k v m rule: map_put.induct) (auto simp: map_erase_def)
  then show ?thesis using sum_map_erase [of "map_put k v m" k v f] assms by simp
qed

end
