(* ===== verification/Gateway_Login.thy ===== *)
theory Gateway_Login
  imports Gateway_Ingress Gateway_Admission Session_Ticket Ordered_Map
begin

text \<open>
  The login pipeline of the gateway (\<open>game/gateway/src/gateway_login_pipeline.cpp\<close>): the sessions between
  the connection of a client and its hand-over to the realm. The transport, the port that fetches account
  facts and the admission are interfaces that the pipeline is given; here they are functions on a world,
  which is part of the state. \<open>gp_log\<close> is not state of the program: it records the calls that matter.
  The code walks its sessions in the order of a hash table, which is the argument \<open>le_order\<close> here. The
  encoder of the pipeline's own messages and the issue of its ticket do not fail for what it passes them; an
  exception of the store, which in the code leaves the frame, is read as an unavailable admission by the port that
  \<open>Gateway_Flow\<close> puts in. Attempt identifiers do not wrap here.
\<close>

section \<open>Configuration\<close>

record realm_endpoint =
  re_address :: string
  re_port :: "16 word"

record login_config =
  lo_conn_capacity :: nat
  lo_fetch_capacity :: nat
  lo_fetch_workers :: nat
  lo_fetch_timeout_ms :: int
  lo_retry_base_ms :: int
  lo_retry_max :: nat
  lo_handoff_grace_ms :: int
  lo_static_realm :: "realm_endpoint option"
  lo_ingress :: ingress_config
  lo_identity_kid :: string
  lo_identity_issuer :: string
  lo_grant_keys :: "(string \<times> string) list"
  lo_grant_issuer :: string
  lo_grant_window :: int
  lo_deployment :: string
  lo_prefix :: string
  lo_reservation_ttl :: int

fun validate_key_entries :: "(string \<times> string) list \<Rightarrow> error + unit" where
  "validate_key_entries [] = Inr ()"
| "validate_key_entries ((kid, variable) # rest) =
     (if kid = [] \<or> variable = []
      then Inl (Invalid_argument ''gateway admission key ring entries need kid and public_key_environment'')
      else if kid \<in> set (map fst rest)
      then Inl (Invalid_argument (''gateway admission key ring has duplicate kid: '' @ kid))
      else validate_key_entries rest)"

definition validate_key_ring :: "(string \<times> string) list \<Rightarrow> error + unit" where
  "validate_key_ring ring =
     (if ring = [] then Inl (Invalid_argument ''gateway admission key ring must not be empty'')
      else validate_key_entries ring)"

definition validate_login_config :: "login_config \<Rightarrow> error + unit" where
  "validate_login_config c =
     (if lo_conn_capacity c = 0 \<or> lo_fetch_capacity c = 0 \<or> lo_fetch_workers c = 0
      then Inl (Invalid_argument ''gateway login capacities and fetch workers must be positive'')
      else if lo_fetch_timeout_ms c \<le> 0 then Inl (Invalid_argument ''gateway fetch timeout must be positive'')
      else if lo_retry_base_ms c \<le> 0 \<or> lo_retry_max c = 0 \<or> 10 < lo_retry_max c
      then Inl (Invalid_argument ''gateway fetch retry base must be positive and retry max within 1..10'')
      else if lo_handoff_grace_ms c \<le> 0 then Inl (Invalid_argument ''gateway handoff grace must be positive'')
      else if (case lo_static_realm c of None \<Rightarrow> False | Some e \<Rightarrow> re_address e = [] \<or> re_port e = 0)
      then Inl (Invalid_argument ''gateway static realm endpoint must be complete'')
      else if lo_identity_kid c = [] \<or> lo_identity_issuer c = [] \<or> lo_grant_issuer c = [] \<or> lo_deployment c = [] \<or>
              lo_prefix c = [] \<or> lo_reservation_ttl c \<le> 0
      then Inl (Invalid_argument ''gateway admission configuration is incomplete'')
      else case validate_key_ring (lo_grant_keys c) of
             Inl e \<Rightarrow> Inl e
           | Inr _ \<Rightarrow>
               if lo_grant_window c \<le> 0 \<or> admission_grant_max_window < lo_grant_window c
               then Inl (Invalid_argument ''gateway admission grant window must be positive and within the protocol maximum'')
               else validate_ingress_config (lo_ingress c))"

section \<open>State\<close>

datatype public_stage = Stage_pending | Stage_fetching | Stage_handed_off

datatype intent_kind = Intent_decline | Intent_close | Intent_accept | Intent_handoff

record runtime_intent =
  it_kind :: intent_kind
  it_payload :: "u8 list"

record pipeline_session =
  pv_stage :: public_stage
  pv_intent :: "runtime_intent option"
  pv_closing :: bool
  pv_fetch_reserved :: bool
  pv_account :: u64
  pv_realm :: u32
  pv_reservation :: "gateway_reservation option"
  pv_failures :: nat
  pv_fetch_due :: time_point
  pv_attempt :: "nat option"
  pv_attempt_deadline :: time_point
  pv_handoff_deadline :: "time_point option"
  pv_source :: string
  pv_attach_attempts :: u32

definition fresh_session :: "string \<Rightarrow> pipeline_session" where
  "fresh_session source =
     \<lparr>pv_stage = Stage_pending, pv_intent = None, pv_closing = False, pv_fetch_reserved = False, pv_account = 0,
      pv_realm = 1, pv_reservation = None, pv_failures = 0, pv_fetch_due = 0, pv_attempt = None,
      pv_attempt_deadline = 0, pv_handoff_deadline = None, pv_source = source, pv_attach_attempts = 0\<rparr>"

datatype fetch_status = Fetch_succeeded | Fetch_not_eligible | Fetch_unavailable

record fetch_completion =
  fc_attempt :: nat
  fc_ok :: bool
  fc_status :: fetch_status

datatype fetch_submit = Fetch_submitted | Fetch_full | Fetch_stopped

record 'w login_env =
  le_drain :: "nat \<Rightarrow> 'w \<Rightarrow> edge_event list \<times> 'w"
  le_accept :: "connection_id \<Rightarrow> u8 list \<Rightarrow> 'w \<Rightarrow> queue_result \<times> 'w"
  le_decline :: "connection_id \<Rightarrow> u8 list \<Rightarrow> 'w \<Rightarrow> queue_result \<times> 'w"
  le_handoff :: "connection_id \<Rightarrow> u8 list \<Rightarrow> 'w \<Rightarrow> queue_result \<times> 'w"
  le_close :: "connection_id \<Rightarrow> 'w \<Rightarrow> queue_result \<times> 'w"
  le_submit :: "nat \<Rightarrow> connection_id \<Rightarrow> u64 \<Rightarrow> time_point \<Rightarrow> 'w \<Rightarrow> fetch_submit \<times> 'w"
  le_completions :: "time_point \<Rightarrow> nat \<Rightarrow> 'w \<Rightarrow> fetch_completion list \<times> 'w"
  le_cancel :: "nat \<Rightarrow> 'w \<Rightarrow> 'w"
  le_reserve :: "string \<Rightarrow> string \<Rightarrow> string \<Rightarrow> time_point \<Rightarrow> 'w \<Rightarrow> start_result \<times> 'w"
  le_accept_result ::
    "gateway_reservation \<Rightarrow> queue_result \<Rightarrow> time_point \<Rightarrow> 'w \<Rightarrow> transition \<times> gateway_reservation \<times> 'w"
  le_abandon :: "gateway_reservation \<Rightarrow> time_point \<Rightarrow> 'w \<Rightarrow> transition \<times> gateway_reservation \<times> 'w"
  le_available :: "'w \<Rightarrow> bool"
  le_refresh :: "time_point \<Rightarrow> 'w \<Rightarrow> bool \<times> 'w"
  le_random :: "'w \<Rightarrow> u8 list \<times> 'w"
  le_sodium :: sodium
  le_ticket_key :: "u8 list"
  le_wire :: "edge_message wire"
  le_order :: "connection_id list \<Rightarrow> connection_id list"

datatype credential_result = Result_reserved | Result_invalid | Result_in_progress | Result_store_unavailable | Result_other

datatype gateway_log =
  Log_reserved connection_id gateway_reservation
| Log_settled connection_id gateway_reservation queue_result transition
| Log_abandoned gateway_reservation
| Log_fetch connection_id u64
| Log_handoff connection_id u64

record 'w login_pipeline =
  gp_config :: login_config
  gp_ingress :: credential_ingress
  gp_instance :: string
  gp_healthy :: bool
  gp_sessions :: "(connection_id \<times> pipeline_session) list"
  gp_attempts :: "(nat \<times> connection_id) list"
  gp_fetch_used :: nat
  gp_next_attempt :: nat
  gp_next_admission :: nat
  gp_retry_total :: u64
  gp_replays :: u64
  gp_submit_backpressure :: u64
  gp_backpressure :: "intent_kind \<Rightarrow> u64"
  gp_results :: "credential_result \<Rightarrow> u64"
  gp_verification_now :: time_point
  gp_world :: 'w
  gp_log :: "gateway_log list"

definition valid_gateway_instance :: "string \<Rightarrow> bool" where
  "valid_gateway_instance s \<longleftrightarrow>
     s \<noteq> [] \<and> length s \<le> 64 \<and> list_all (\<lambda>c. 33 \<le> (of_char c :: nat) \<and> (of_char c :: nat) \<le> 126) s"

definition new_login_pipeline :: "login_config \<Rightarrow> string \<Rightarrow> 'w \<Rightarrow> error + 'w login_pipeline" where
  "new_login_pipeline c instance_name w =
     (case validate_login_config c of
        Inl e \<Rightarrow> Inl e
      | Inr _ \<Rightarrow>
          if \<not> valid_gateway_instance instance_name
          then Inl (Invalid_argument ''invalid gateway instance identifier'')
          else case new_credential_ingress (lo_ingress c) of
                 Inl e \<Rightarrow> Inl e
               | Inr ingress \<Rightarrow> Inr
                   \<lparr>gp_config = c, gp_ingress = ingress, gp_instance = instance_name, gp_healthy = True,
                    gp_sessions = [], gp_attempts = [], gp_fetch_used = 0, gp_next_attempt = 1, gp_next_admission = 1,
                    gp_retry_total = 0, gp_replays = 0, gp_submit_backpressure = 0, gp_backpressure = (\<lambda>_. 0),
                    gp_results = (\<lambda>_. 0), gp_verification_now = 0, gp_world = w, gp_log = []\<rparr>)"

section \<open>Messages\<close>

definition or_zero :: "u64 option \<Rightarrow> u64" where
  "or_zero v = (case v of None \<Rightarrow> 0 | Some x \<Rightarrow> x)"

definition edge_bytes :: "'w login_env \<Rightarrow> edge_message \<Rightarrow> u64 \<Rightarrow> u8 list" where
  "edge_bytes G m request_id = (case encode_edge (le_wire G) m request_id of Inr bytes \<Rightarrow> bytes | Inl _ \<Rightarrow> [])"

definition error_payload :: "'w login_env \<Rightarrow> u32 \<Rightarrow> string \<Rightarrow> u64 \<Rightarrow> int \<Rightarrow> u8 list" where
  "error_payload G code words request_id retry_after =
     edge_bytes G (Edge_error code words (if 0 < retry_after then word_of_int (min retry_after 4294967295) else 0)) request_id"

definition millis :: "int \<Rightarrow> duration" where
  "millis n = n * ns_per_milli"

definition retry_delay_ms :: "int \<Rightarrow> nat \<Rightarrow> int" where
  "retry_delay_ms base failures =
     (let multiplier = 2 ^ min (failures - 1) 30; maximum = 9223372036854775807
      in if maximum div multiplier < base then maximum else base * multiplier)"

section \<open>Giving up what a session holds\<close>

text \<open>These work on a session taken out of the map and on the pipeline, and return both.\<close>

definition drop_attempt ::
  "'w login_env \<Rightarrow> pipeline_session \<times> 'w login_pipeline \<Rightarrow> pipeline_session \<times> 'w login_pipeline" where
  "drop_attempt G = (\<lambda>(s, p).
     (case pv_attempt s of
        None \<Rightarrow> (s, p)
      | Some a \<Rightarrow> (s\<lparr>pv_attempt := None\<rparr>,
          p\<lparr>gp_attempts := map_erase a (gp_attempts p), gp_world := le_cancel G a (gp_world p)\<rparr>)))"

definition release_fetch_reservation ::
  "pipeline_session \<times> 'w login_pipeline \<Rightarrow> pipeline_session \<times> 'w login_pipeline" where
  "release_fetch_reservation = (\<lambda>(s, p).
     (if \<not> pv_fetch_reserved s then (s, p)
      else (s\<lparr>pv_fetch_reserved := False\<rparr>, p\<lparr>gp_fetch_used := gp_fetch_used p - 1\<rparr>)))"

definition release_admission_reservation ::
  "'w login_env \<Rightarrow> pipeline_session \<times> 'w login_pipeline \<Rightarrow> pipeline_session \<times> 'w login_pipeline" where
  "release_admission_reservation G = (\<lambda>(s, p).
     (case pv_reservation s of
        None \<Rightarrow> (s, p)
      | Some r \<Rightarrow>
          (case le_abandon G r (gp_verification_now p) (gp_world p) of
             (_, _, w) \<Rightarrow> (s\<lparr>pv_reservation := None\<rparr>, p\<lparr>gp_world := w, gp_log := gp_log p @ [Log_abandoned r]\<rparr>))))"

definition release_session ::
  "'w login_env \<Rightarrow> pipeline_session \<times> 'w login_pipeline \<Rightarrow> pipeline_session \<times> 'w login_pipeline" where
  "release_session G sp = release_admission_reservation G (release_fetch_reservation (drop_attempt G sp))"

definition schedule_end ::
  "'w login_env \<Rightarrow> runtime_intent \<Rightarrow> pipeline_session \<times> 'w login_pipeline \<Rightarrow> pipeline_session \<times> 'w login_pipeline" where
  "schedule_end G intent sp =
     (case release_session G sp of (s, p) \<Rightarrow> (s\<lparr>pv_closing := True, pv_intent := Some intent\<rparr>, p))"

definition schedule_decline ::
  "'w login_env \<Rightarrow> u32 \<Rightarrow> string \<Rightarrow> u64 \<Rightarrow> int \<Rightarrow> pipeline_session \<times> 'w login_pipeline \<Rightarrow>
   pipeline_session \<times> 'w login_pipeline" where
  "schedule_decline G code words request_id retry_after =
     schedule_end G \<lparr>it_kind = Intent_decline, it_payload = error_payload G code words request_id retry_after\<rparr>"

definition schedule_close ::
  "'w login_env \<Rightarrow> pipeline_session \<times> 'w login_pipeline \<Rightarrow> pipeline_session \<times> 'w login_pipeline" where
  "schedule_close G = schedule_end G \<lparr>it_kind = Intent_close, it_payload = []\<rparr>"

definition put_session :: "connection_id \<Rightarrow> pipeline_session \<times> 'w login_pipeline \<Rightarrow> 'w login_pipeline" where
  "put_session cid = (\<lambda>(s, p). p\<lparr>gp_sessions := map_put cid s (gp_sessions p)\<rparr>)"

definition unhealthy_session :: "'w login_env \<Rightarrow> connection_id \<Rightarrow> 'w login_pipeline \<Rightarrow> 'w login_pipeline" where
  "unhealthy_session G cid p =
     (case map_of (gp_sessions p) cid of
        None \<Rightarrow> p
      | Some s \<Rightarrow>
          put_session cid (release_admission_reservation G
            (case pv_attempt s of
               None \<Rightarrow> (s, p)
             | Some a \<Rightarrow> (s\<lparr>pv_attempt := None\<rparr>, p\<lparr>gp_world := le_cancel G a (gp_world p)\<rparr>))))"

text \<open>Every session is visited, in the order of the hash table.\<close>

definition walk :: "'w login_env \<Rightarrow> 'w login_pipeline \<Rightarrow> connection_id list" where
  "walk G p =
     (let keys = map fst (gp_sessions p); order = remdups (filter (\<lambda>cid. cid \<in> set keys) (le_order G keys))
      in order @ filter (\<lambda>cid. cid \<notin> set order) keys)"

definition mark_unhealthy :: "'w login_env \<Rightarrow> 'w login_pipeline \<Rightarrow> 'w login_pipeline" where
  "mark_unhealthy G p = (fold (unhealthy_session G) (walk G p) (p\<lparr>gp_healthy := False\<rparr>))\<lparr>gp_attempts := []\<rparr>"

section \<open>Events of connections\<close>

definition preapply_event :: "'w login_env \<Rightarrow> edge_event \<Rightarrow> 'w login_pipeline \<Rightarrow> 'w login_pipeline" where
  "preapply_event G e p =
     (case ev_kind e of
        Connection_opened \<Rightarrow>
          if map_of (gp_sessions p) (ev_connection e) = None \<and> length (gp_sessions p) < lo_conn_capacity (gp_config p)
          then put_session (ev_connection e) (fresh_session (ev_source e), p) else p
      | Peer_address_changed \<Rightarrow>
          (case map_of (gp_sessions p) (ev_connection e) of
             None \<Rightarrow> p | Some s \<Rightarrow> put_session (ev_connection e) (s\<lparr>pv_source := ev_source e\<rparr>, p))
      | Connection_closed \<Rightarrow>
          (case map_of (gp_sessions p) (ev_connection e) of
             None \<Rightarrow> p
           | Some s \<Rightarrow> (case release_session G (s, p) of
                (_, p') \<Rightarrow> p'\<lparr>gp_sessions := map_erase (ev_connection e) (gp_sessions p')\<rparr>))
      | _ \<Rightarrow> p)"

section \<open>Attach\<close>

definition count_result :: "credential_result \<Rightarrow> 'w login_pipeline \<Rightarrow> 'w login_pipeline" where
  "count_result label p = p\<lparr>gp_results := (gp_results p)(label := gp_results p label + 1)\<rparr>"

definition attempt_owner :: "string \<Rightarrow> connection_id \<Rightarrow> nat \<Rightarrow> string" where
  "attempt_owner instance_name cid n = instance_name @ ''/'' @ show_nat (unat cid) @ ''/'' @ show_nat n"

definition refuse_attach ::
  "'w login_env \<Rightarrow> start_status \<Rightarrow> u64 \<Rightarrow> pipeline_session \<times> 'w login_pipeline \<Rightarrow> pipeline_session \<times> 'w login_pipeline" where
  "refuse_attach G status_code request_id = (\<lambda>(s, p).
     (let p1 = (if status_code = Start_consumed then p\<lparr>gp_replays := gp_replays p + 1\<rparr> else p)
      in case status_code of
           Start_in_progress \<Rightarrow>
             schedule_decline G 1005 ''admission in progress'' request_id 0 (s, count_result Result_in_progress p1)
         | Start_unavailable \<Rightarrow>
             schedule_decline G 1006 ''admission unavailable'' request_id 0 (s, count_result Result_store_unavailable p1)
         | _ \<Rightarrow> schedule_decline G 1001 ''invalid credentials'' request_id 0 (s, count_result Result_invalid p1)))"

definition handle_attach ::
  "'w login_env \<Rightarrow> connection_id \<Rightarrow> u64 \<Rightarrow> string \<times> string \<Rightarrow> time_point \<Rightarrow> pipeline_session \<times> 'w login_pipeline \<Rightarrow>
   pipeline_session \<times> 'w login_pipeline" where
  "handle_attach G cid request_id attach verification_now = (\<lambda>(s, p).
     (if pv_stage s \<noteq> Stage_pending then schedule_decline G 1001 ''invalid credentials'' request_id 0 (s, p)
      else if lo_fetch_capacity (gp_config p) \<le> gp_fetch_used p
      then schedule_decline G 1004 ''attach out of budget'' request_id 0 (s, p)
      else (case le_reserve G (fst attach) (snd attach) (attempt_owner (gp_instance p) cid (gp_next_admission p))
              verification_now (gp_world p) of
         (started, w) \<Rightarrow>
           (let p1 = p\<lparr>gp_next_admission := gp_next_admission p + 1, gp_world := w\<rparr>
            in case (gs_status started, gs_reservation started) of
                 (Start_reserved, Some r) \<Rightarrow>
                   (s\<lparr>pv_account := gr_account r, pv_reservation := Some r, pv_fetch_reserved := True,
                      pv_intent := Some \<lparr>it_kind = Intent_accept,
                        it_payload = edge_bytes G (Edge_attach_accepted (gr_account r)) request_id\<rparr>\<rparr>,
                    (count_result Result_reserved p1)\<lparr>gp_fetch_used := gp_fetch_used p1 + 1,
                      gp_log := gp_log p1 @ [Log_reserved cid r]\<rparr>)
               | _ \<Rightarrow> refuse_attach G (gs_status started) request_id (s, p1)))))"

definition attach_message ::
  "'w login_env \<Rightarrow> time_point \<Rightarrow> time_point \<Rightarrow> edge_event \<Rightarrow> pipeline_session \<times> 'w login_pipeline \<Rightarrow>
   pipeline_session \<times> 'w login_pipeline" where
  "attach_message G now verification_now e = (\<lambda>(s0, p0).
     (let request_id = or_zero (edge_request_id (fst (le_wire G)) (ev_payload e));
          s = s0\<lparr>pv_attach_attempts := pv_attach_attempts s0 + 1\<rparr>;
          (check, ingress) = inspect_attach (le_wire G) (pv_source s) (pv_attach_attempts s) (ev_payload e) now (gp_ingress p0);
          p = p0\<lparr>gp_ingress := ingress\<rparr>
      in case ik_status check of
           Ingress_allowed \<Rightarrow>
             (case ik_attach check of
                None \<Rightarrow> (s, p)
              | Some attach \<Rightarrow>
                  (case handle_attach G (ev_connection e) request_id attach verification_now (s, p) of
                     (s', p') \<Rightarrow> (s', p'\<lparr>gp_ingress := release_verification (gp_ingress p')\<rparr>)))
         | Source_throttled \<Rightarrow> schedule_decline G 429 ''admission throttled'' request_id (ik_retry_after check) (s, p)
         | Verification_saturated \<Rightarrow>
             schedule_decline G 429 ''admission throttled'' request_id (ik_retry_after check) (s, p)
         | Ingress_malformed \<Rightarrow> schedule_decline G 1001 ''invalid credentials'' request_id 0 (s, p)
         | _ \<Rightarrow> schedule_close G (s, p)))"

definition process_message ::
  "'w login_env \<Rightarrow> time_point \<Rightarrow> time_point \<Rightarrow> edge_event \<Rightarrow> 'w login_pipeline \<Rightarrow> 'w login_pipeline" where
  "process_message G now verification_now e p =
     (if ev_kind e \<noteq> Message_received then p
      else case map_of (gp_sessions p) (ev_connection e) of
             None \<Rightarrow> p
           | Some s \<Rightarrow>
               if pv_closing s \<or> pv_intent s \<noteq> None then p
               else put_session (ev_connection e)
                 (if ev_established e \<or> pv_stage s \<noteq> Stage_pending then schedule_close G (s, p)
                  else if ig_envelope_bytes (lo_ingress (gp_config p)) < length (ev_payload e) then schedule_close G (s, p)
                  else if edge_message_id (fst (le_wire G)) (ev_payload e) \<noteq> Some 1301
                  then schedule_decline G 2002 ''attach before any other message''
                         (or_zero (edge_request_id (fst (le_wire G)) (ev_payload e))) 0 (s, p)
                  else attach_message G now verification_now e (s, p)))"

section \<open>Deadlines and account facts\<close>

definition expire_handoff :: "'w login_env \<Rightarrow> time_point \<Rightarrow> connection_id \<Rightarrow> 'w login_pipeline \<Rightarrow> 'w login_pipeline" where
  "expire_handoff G now cid p =
     (case map_of (gp_sessions p) cid of
        None \<Rightarrow> p
      | Some s \<Rightarrow>
          (case pv_handoff_deadline s of
             None \<Rightarrow> p
           | Some deadline \<Rightarrow>
               if pv_closing s \<or> now < deadline then p else put_session cid (schedule_close G (s, p))))"

definition ceil_seconds :: "int \<Rightarrow> int" where
  "ceil_seconds ms = - ((- ms) div 1000)"

definition record_fetch_failure ::
  "'w login_env \<Rightarrow> time_point \<Rightarrow> pipeline_session \<times> 'w login_pipeline \<Rightarrow> pipeline_session \<times> 'w login_pipeline" where
  "record_fetch_failure G now = (\<lambda>(s0, p).
     (let s = s0\<lparr>pv_failures := pv_failures s0 + 1\<rparr>
      in if pv_failures s \<le> lo_retry_max (gp_config p)
         then (s\<lparr>pv_fetch_due := now + millis (retry_delay_ms (lo_retry_base_ms (gp_config p)) (pv_failures s))\<rparr>, p)
         else schedule_decline G 1008 ''player data unavailable'' 0 (max 1 (ceil_seconds (lo_retry_base_ms (gp_config p)))) (s, p)))"

definition fetch_completed ::
  "'w login_env \<Rightarrow> time_point \<Rightarrow> fetch_completion \<Rightarrow> pipeline_session \<times> 'w login_pipeline \<Rightarrow>
   pipeline_session \<times> 'w login_pipeline" where
  "fetch_completed G now c sp =
     (if pv_closing (fst sp) then sp
      else if fc_ok c
      then (case release_fetch_reservation sp of
              (s, p) \<Rightarrow> (s\<lparr>pv_intent := Some \<lparr>it_kind = Intent_handoff, it_payload = []\<rparr>\<rparr>, p))
      else if fc_status c = Fetch_not_eligible
      then schedule_decline G 1007 ''account not eligible'' 0 0 sp
      else record_fetch_failure G now sp)"

definition handle_completion ::
  "'w login_env \<Rightarrow> time_point \<Rightarrow> fetch_completion \<Rightarrow> 'w login_pipeline \<Rightarrow> 'w login_pipeline" where
  "handle_completion G now c p =
     (case map_of (gp_attempts p) (fc_attempt c) of
        None \<Rightarrow> p
      | Some cid \<Rightarrow>
          (let p1 = p\<lparr>gp_attempts := map_erase (fc_attempt c) (gp_attempts p)\<rparr>
           in case map_of (gp_sessions p) cid of
                None \<Rightarrow> p1
              | Some s \<Rightarrow>
                  if pv_attempt s \<noteq> Some (fc_attempt c) then p1
                  else put_session cid (fetch_completed G now c (s\<lparr>pv_attempt := None\<rparr>, p1))))"

definition time_out_fetch :: "'w login_env \<Rightarrow> time_point \<Rightarrow> connection_id \<Rightarrow> 'w login_pipeline \<Rightarrow> 'w login_pipeline" where
  "time_out_fetch G now cid p =
     (case map_of (gp_sessions p) cid of
        None \<Rightarrow> p
      | Some s \<Rightarrow>
          if pv_closing s \<or> pv_attempt s = None \<or> now < pv_attempt_deadline s then p
          else put_session cid (record_fetch_failure G now (drop_attempt G (s, p))))"

definition submit_fetch :: "'w login_env \<Rightarrow> time_point \<Rightarrow> connection_id \<Rightarrow> 'w login_pipeline \<Rightarrow> 'w login_pipeline" where
  "submit_fetch G now cid p =
     (if \<not> gp_healthy p then p
      else case map_of (gp_sessions p) cid of
             None \<Rightarrow> p
           | Some s \<Rightarrow>
               if pv_closing s \<or> pv_stage s \<noteq> Stage_fetching \<or> \<not> pv_fetch_reserved s \<or> pv_attempt s \<noteq> None \<or>
                  pv_intent s \<noteq> None \<or> now < pv_fetch_due s
               then p
               else (let a = gp_next_attempt p
                     in case le_submit G a cid (pv_account s) now (gp_world p) of
                          (sub, w) \<Rightarrow>
                            (let p1 = p\<lparr>gp_next_attempt := a + 1, gp_world := w\<rparr>
                             in case sub of
                                  Fetch_full \<Rightarrow> p1\<lparr>gp_submit_backpressure := gp_submit_backpressure p1 + 1\<rparr>
                                | Fetch_stopped \<Rightarrow> mark_unhealthy G p1
                                | Fetch_submitted \<Rightarrow>
                                    put_session cid
                                      (s\<lparr>pv_attempt := Some a,
                                         pv_attempt_deadline := now + millis (lo_fetch_timeout_ms (gp_config p))\<rparr>,
                                       p1\<lparr>gp_attempts := map_put a cid (gp_attempts p1),
                                          gp_log := gp_log p1 @ [Log_fetch cid (pv_account s)],
                                          gp_retry_total := (if 0 < pv_failures s then gp_retry_total p1 + 1
                                                             else gp_retry_total p1)\<rparr>))))"

section \<open>Intents\<close>

record login_frame =
  lf_now :: time_point
  lf_verification_now :: time_point
  lf_realm :: "realm_endpoint option"

definition handoff_payload ::
  "'w login_env \<Rightarrow> u64 \<Rightarrow> u32 \<Rightarrow> realm_endpoint \<Rightarrow> time_point \<Rightarrow> u8 list \<Rightarrow> u8 list" where
  "handoff_payload G account realm e now random =
     (let ticket = (case issue_ticket (le_sodium G) (le_ticket_key G) random Enter_realm account realm None 60 now of
                      Inr bytes \<Rightarrow> bytes | Inl _ \<Rightarrow> [])
      in edge_bytes G (Enter_realm_granted ticket
           [\<lparr>we_address = re_address e, we_port = ucast (re_port e), we_protocol = Transport_tls_tcp, we_priority = 0\<rparr>]) 0)"

definition count_backpressure :: "intent_kind \<Rightarrow> 'w login_pipeline \<Rightarrow> 'w login_pipeline" where
  "count_backpressure k p = p\<lparr>gp_backpressure := (gp_backpressure p)(k := gp_backpressure p k + 1)\<rparr>"

text \<open>Closing, declining and handing over: what follows the result of the transport.\<close>

definition settle_intent ::
  "'w login_env \<Rightarrow> connection_id \<Rightarrow> intent_kind \<Rightarrow> queue_result \<Rightarrow> pipeline_session \<times> 'w login_pipeline \<Rightarrow>
   'w login_pipeline" where
  "settle_intent G cid k result = (\<lambda>(s, p).
     (case result of
        Queue_full \<Rightarrow> put_session cid (s, count_backpressure k p)
      | Queue_stopped \<Rightarrow> mark_unhealthy G (put_session cid (s\<lparr>pv_reservation := None\<rparr>, p))
      | Queued \<Rightarrow>
          put_session cid
            ((if k = Intent_close then s\<lparr>pv_closing := True, pv_handoff_deadline := None, pv_intent := None\<rparr>
              else if k = Intent_decline then s\<lparr>pv_closing := True, pv_intent := None\<rparr>
              else s\<lparr>pv_intent := None\<rparr>), p)))"

definition flush_accept ::
  "'w login_env \<Rightarrow> connection_id \<Rightarrow> login_frame \<Rightarrow> u8 list \<Rightarrow> pipeline_session \<Rightarrow> 'w login_pipeline \<Rightarrow> 'w login_pipeline" where
  "flush_accept G cid frame payload s p =
     (case le_accept G cid payload (gp_world p) of
        (result, w) \<Rightarrow>
          (let p1 = p\<lparr>gp_world := w\<rparr>
           in case pv_reservation s of
                None \<Rightarrow> mark_unhealthy G p1
              | Some r \<Rightarrow>
                  (case le_accept_result G r result (lf_verification_now frame) w of
                     (moved, r', w2) \<Rightarrow>
                       (let p2 = p1\<lparr>gp_world := w2\<rparr>
                        in if result = Queue_full
                           then put_session cid (s\<lparr>pv_reservation := Some r'\<rparr>, count_backpressure Intent_accept p2)
                           else (let p3 = p2\<lparr>gp_log := gp_log p2 @ [Log_settled cid r result moved]\<rparr>;
                                     s1 = s\<lparr>pv_reservation := None\<rparr>
                                 in if result = Queue_stopped then mark_unhealthy G (put_session cid (s1, p3))
                                    else if moved \<noteq> Transition_applied
                                    then put_session cid
                                      (case release_fetch_reservation (s1, p3) of
                                         (s2, p4) \<Rightarrow> (s2\<lparr>pv_closing := True,
                                           pv_intent := Some \<lparr>it_kind = Intent_close, it_payload = []\<rparr>\<rparr>, p4))
                                    else put_session cid
                                      (s1\<lparr>pv_stage := Stage_fetching, pv_fetch_due := lf_now frame, pv_intent := None\<rparr>, p3))))))"

definition flush_handoff ::
  "'w login_env \<Rightarrow> connection_id \<Rightarrow> login_frame \<Rightarrow> pipeline_session \<Rightarrow> 'w login_pipeline \<Rightarrow> 'w login_pipeline" where
  "flush_handoff G cid frame s p =
     (case (if lf_realm frame \<noteq> None then lf_realm frame else lo_static_realm (gp_config p)) of
        None \<Rightarrow> put_session cid (schedule_close G (s, p))
      | Some e \<Rightarrow>
          (case le_random G (gp_world p) of
             (random, w0) \<Rightarrow>
               (case le_handoff G cid (handoff_payload G (pv_account s) (pv_realm s) e (lf_verification_now frame) random) w0 of
                  (result, w) \<Rightarrow>
                    settle_intent G cid Intent_handoff result
                      (if result = Queued
                       then (s\<lparr>pv_stage := Stage_handed_off,
                               pv_handoff_deadline := Some (lf_now frame + millis (lo_handoff_grace_ms (gp_config p)))\<rparr>,
                             p\<lparr>gp_world := w, gp_log := gp_log p @ [Log_handoff cid (pv_account s)]\<rparr>)
                       else (s, p\<lparr>gp_world := w\<rparr>)))))"

definition flush_intent ::
  "'w login_env \<Rightarrow> connection_id \<Rightarrow> login_frame \<Rightarrow> runtime_intent \<Rightarrow> pipeline_session \<Rightarrow> 'w login_pipeline \<Rightarrow>
   'w login_pipeline" where
  "flush_intent G cid frame intent s p =
     (case it_kind intent of
        Intent_close \<Rightarrow>
          (case le_close G cid (gp_world p) of
             (result, w) \<Rightarrow> settle_intent G cid Intent_close result (s, p\<lparr>gp_world := w\<rparr>))
      | Intent_decline \<Rightarrow>
          (case le_decline G cid (it_payload intent) (gp_world p) of
             (result, w) \<Rightarrow> settle_intent G cid Intent_decline result (s, p\<lparr>gp_world := w\<rparr>))
      | Intent_accept \<Rightarrow> flush_accept G cid frame (it_payload intent) s p
      | Intent_handoff \<Rightarrow> flush_handoff G cid frame s p)"

definition flush_one ::
  "'w login_env \<Rightarrow> login_frame \<Rightarrow> intent_kind \<Rightarrow> connection_id \<Rightarrow> 'w login_pipeline \<Rightarrow> 'w login_pipeline" where
  "flush_one G frame k cid p =
     (if \<not> gp_healthy p then p
      else case map_of (gp_sessions p) cid of
             None \<Rightarrow> p
           | Some s \<Rightarrow>
               (case pv_intent s of
                  None \<Rightarrow> p
                | Some intent \<Rightarrow> if it_kind intent \<noteq> k then p else flush_intent G cid frame intent s p))"

definition flush_intents :: "'w login_env \<Rightarrow> login_frame \<Rightarrow> 'w login_pipeline \<Rightarrow> 'w login_pipeline" where
  "flush_intents G frame p =
     (let ordered_ids = sort (map fst (gp_sessions p))
      in fold (\<lambda>k. fold (flush_one G frame k) ordered_ids) [Intent_close, Intent_decline, Intent_accept, Intent_handoff] p)"

section \<open>One frame\<close>

definition max_events_per_advance :: nat where
  "max_events_per_advance = 4096"

record admission_budget =
  bg_healthy :: bool
  bg_conn_free :: nat
  bg_fetch_free :: nat
  bg_available :: bool

definition pipeline_budget :: "'w login_env \<Rightarrow> 'w login_pipeline \<Rightarrow> admission_budget" where
  "pipeline_budget G p =
     \<lparr>bg_healthy = gp_healthy p, bg_conn_free = lo_conn_capacity (gp_config p) - length (gp_sessions p),
      bg_fetch_free = lo_fetch_capacity (gp_config p) - gp_fetch_used p,
      bg_available = (gp_healthy p \<and> le_available G (gp_world p))\<rparr>"

definition receive_events :: "'w login_env \<Rightarrow> login_frame \<Rightarrow> 'w login_pipeline \<Rightarrow> 'w login_pipeline" where
  "receive_events G frame p =
     (case le_drain G max_events_per_advance (gp_world p) of
        (events, w) \<Rightarrow>
          fold (process_message G (lf_now frame) (lf_verification_now frame)) events
            (fold (preapply_event G) events (p\<lparr>gp_world := w\<rparr>)))"

definition drain_completions :: "'w login_env \<Rightarrow> time_point \<Rightarrow> 'w login_pipeline \<Rightarrow> 'w login_pipeline" where
  "drain_completions G now p =
     (case le_completions G now (lo_fetch_capacity (gp_config p)) (gp_world p) of
        (completions, w) \<Rightarrow> fold (handle_completion G now) completions (p\<lparr>gp_world := w\<rparr>))"

definition advance_pipeline ::
  "'w login_env \<Rightarrow> login_frame \<Rightarrow> 'w login_pipeline \<Rightarrow> admission_budget \<times> 'w login_pipeline" where
  "advance_pipeline G frame p =
     (if \<not> gp_healthy p then (pipeline_budget G p, p)
      else (let now = lf_now frame;
                p0 = p\<lparr>gp_verification_now := lf_verification_now frame, gp_world := snd (le_refresh G now (gp_world p))\<rparr>;
                p1 = receive_events G frame p0;
                p2 = fold (expire_handoff G now) (walk G p1) p1;
                p3 = drain_completions G now p2;
                p4 = fold (time_out_fetch G now) (walk G p3) p3;
                p5 = fold (submit_fetch G now) (walk G p4) p4;
                p6 = flush_intents G frame p5
            in (pipeline_budget G p6, p6)))"

definition shut_session :: "'w login_env \<Rightarrow> connection_id \<Rightarrow> 'w login_pipeline \<Rightarrow> 'w login_pipeline" where
  "shut_session G cid p =
     (case map_of (gp_sessions p) cid of
        None \<Rightarrow> p
      | Some s \<Rightarrow>
          put_session cid (release_admission_reservation G
            (s, case pv_attempt s of None \<Rightarrow> p | Some a \<Rightarrow> p\<lparr>gp_world := le_cancel G a (gp_world p)\<rparr>)))"

definition shut_down :: "'w login_env \<Rightarrow> 'w login_pipeline \<Rightarrow> 'w login_pipeline" where
  "shut_down G p = fold (shut_session G) (walk G p) p"

end
