(* ===== verification/Gateway_Flow.thy ===== *)
theory Gateway_Flow
  imports Gateway_Login "HOL-Library.Multiset"
begin

text \<open>
  What the login pipeline keeps: its counts agree with its sessions, every reservation is settled or abandoned
  once, and a hand-over to the realm uses up an admission that was committed.
\<close>

section \<open>What the log says\<close>

fun entry_reserved :: "gateway_log \<Rightarrow> gateway_reservation multiset" where
  "entry_reserved (Log_reserved cid r) = {#r#}"
| "entry_reserved _ = {#}"

fun entry_ended :: "gateway_log \<Rightarrow> gateway_reservation multiset" where
  "entry_ended (Log_settled cid r result moved) = {#r#}"
| "entry_ended (Log_abandoned r) = {#r#}"
| "entry_ended _ = {#}"

fun entry_admitted :: "gateway_log \<Rightarrow> (connection_id \<times> u64) multiset" where
  "entry_admitted (Log_settled cid r Queued Transition_applied) = {#(cid, gr_account r)#}"
| "entry_admitted _ = {#}"

fun entry_fetched :: "gateway_log \<Rightarrow> (connection_id \<times> u64) multiset" where
  "entry_fetched (Log_fetch cid account) = {#(cid, account)#}"
| "entry_fetched _ = {#}"

fun entry_handed :: "gateway_log \<Rightarrow> (connection_id \<times> u64) multiset" where
  "entry_handed (Log_handoff cid account) = {#(cid, account)#}"
| "entry_handed _ = {#}"

abbreviation total :: "('e \<Rightarrow> 'n :: comm_monoid_add) \<Rightarrow> 'e list \<Rightarrow> 'n" where
  "total f xs \<equiv> sum_list (map f xs)"

text \<open>No fetch without an applied commit, and no more hand-overs than applied commits, at every moment.\<close>

definition covered :: "gateway_log list \<Rightarrow> bool" where
  "covered es \<longleftrightarrow> set_mset (total entry_fetched es) \<subseteq> set_mset (total entry_admitted es) \<and>
     total entry_handed es \<subseteq># total entry_admitted es"

definition always_covered :: "gateway_log list \<Rightarrow> bool" where
  "always_covered es \<longleftrightarrow> (\<forall>n. covered (take n es))"

lemma always_covered_snoc: "always_covered (es @ [e]) \<longleftrightarrow> always_covered es \<and> covered (es @ [e])"
proof
  assume a: "always_covered (es @ [e])"
  have "covered (take n es)" for n
  proof -
    have "covered (take (min n (length es)) (es @ [e]))" using a unfolding always_covered_def by blast
    then show ?thesis by (simp add: min_def split: if_splits)
  qed
  moreover have "covered (es @ [e])"
    using a unfolding always_covered_def by (metis order_refl take_all)
  ultimately show "always_covered es \<and> covered (es @ [e])" by (simp add: always_covered_def)
next
  assume "always_covered es \<and> covered (es @ [e])"
  then show "always_covered (es @ [e])"
    by (auto simp: always_covered_def take_Cons split: nat.splits)
qed

lemma always_covered_last: "always_covered es \<Longrightarrow> covered es"
  by (metis always_covered_def order_refl take_all)

lemma covered_plain:
  "entry_fetched e = {#} \<Longrightarrow> entry_handed e = {#} \<Longrightarrow> covered es \<Longrightarrow> covered (es @ [e])"
  by (auto simp: covered_def intro: subset_mset.order_trans)

lemma always_covered_plain:
  "entry_fetched e = {#} \<Longrightarrow> entry_handed e = {#} \<Longrightarrow> always_covered es \<Longrightarrow> always_covered (es @ [e])"
  by (simp add: always_covered_snoc covered_plain always_covered_last)

section \<open>The invariant\<close>

fun slot :: "connection_id \<times> pipeline_session \<Rightarrow> nat" where
  "slot (cid, s) = (if pv_fetch_reserved s then 1 else 0)"

fun held :: "connection_id \<times> pipeline_session \<Rightarrow> gateway_reservation multiset" where
  "held (cid, s) = (case pv_reservation s of None \<Rightarrow> {#} | Some r \<Rightarrow> {#r#})"

fun entitled :: "connection_id \<times> pipeline_session \<Rightarrow> (connection_id \<times> u64) multiset" where
  "entitled (cid, s) = (if pv_stage s = Stage_fetching then {#(cid, pv_account s)#} else {#})"

definition ends :: "runtime_intent \<Rightarrow> bool" where
  "ends i \<longleftrightarrow> it_kind i \<in> {Intent_close, Intent_decline}"

definition session_ok :: "pipeline_session \<Rightarrow> bool" where
  "session_ok s \<longleftrightarrow>
     (pv_closing s \<longrightarrow> pv_reservation s = None \<and> pv_attempt s = None \<and> \<not> pv_fetch_reserved s \<and>
        (\<forall>i. pv_intent s = Some i \<longrightarrow> ends i)) \<and>
     (\<forall>i. pv_intent s = Some i \<and> ends i \<longrightarrow> pv_closing s) \<and>
     (\<forall>i. pv_intent s = Some i \<and> it_kind i = Intent_accept \<longrightarrow> pv_stage s = Stage_pending \<and> pv_fetch_reserved s) \<and>
     (\<forall>i. pv_intent s = Some i \<and> it_kind i = Intent_handoff \<longrightarrow>
        pv_stage s = Stage_fetching \<and> \<not> pv_fetch_reserved s) \<and>
     (\<forall>r. pv_reservation s = Some r \<longrightarrow> gr_account r = pv_account s \<and>
        (\<exists>i. pv_intent s = Some i \<and> it_kind i = Intent_accept)) \<and>
     (pv_attempt s \<noteq> None \<longrightarrow> pv_stage s = Stage_fetching \<and> pv_fetch_reserved s \<and> pv_intent s = None) \<and>
     (pv_fetch_reserved s \<longrightarrow> pv_stage s = Stage_fetching \<or>
        pv_stage s = Stage_pending \<and> (\<exists>i. pv_intent s = Some i \<and> it_kind i = Intent_accept))"

text \<open>The ledger: what the log and the sessions say of reservations and admissions.\<close>

definition ledger :: "gateway_log list \<Rightarrow> (connection_id \<times> pipeline_session) list \<Rightarrow> bool" where
  "ledger es ss \<longleftrightarrow>
     total entry_reserved es = total entry_ended es + total held ss \<and>
     total entry_handed es + total entitled ss \<subseteq># total entry_admitted es \<and> always_covered es"

definition counts_agree :: "'w login_pipeline \<Rightarrow> bool" where
  "counts_agree p \<longleftrightarrow> ordered (gp_sessions p) \<and> gp_fetch_used p = total slot (gp_sessions p) \<and>
     gp_fetch_used p \<le> lo_fetch_capacity (gp_config p) \<and> length (gp_sessions p) \<le> lo_conn_capacity (gp_config p)"

definition attempts_agree :: "'w login_pipeline \<Rightarrow> bool" where
  "attempts_agree p \<longleftrightarrow> ordered (gp_attempts p) \<and> (\<forall>a c. map_of (gp_attempts p) a = Some c \<longrightarrow> a < gp_next_attempt p) \<and>
     (\<forall>a cid. map_of (gp_attempts p) a = Some cid \<longleftrightarrow>
        (\<exists>s. map_of (gp_sessions p) cid = Some s \<and> pv_attempt s = Some a))"

definition sessions_ok :: "'w login_pipeline \<Rightarrow> bool" where
  "sessions_ok p \<longleftrightarrow> (\<forall>cid s. map_of (gp_sessions p) cid = Some s \<longrightarrow> session_ok s)"

definition stopped_quiet :: "'w login_pipeline \<Rightarrow> bool" where
  "stopped_quiet p \<longleftrightarrow> gp_attempts p = [] \<and>
     (\<forall>cid s. map_of (gp_sessions p) cid = Some s \<longrightarrow> pv_attempt s = None \<and> pv_reservation s = None)"

definition pipeline_ok :: "'w login_pipeline \<Rightarrow> bool" where
  "pipeline_ok p \<longleftrightarrow> ledger (gp_log p) (gp_sessions p) \<and> counts_agree p \<and> attempts_agree p \<and> sessions_ok p \<and>
     (gp_healthy p \<or> stopped_quiet p)"

section \<open>A session taken out of the map\<close>

text \<open>The same facts while one session is being changed: its share and the share of the others.\<close>

definition accounts :: "connection_id \<Rightarrow> pipeline_session \<times> 'w login_pipeline \<Rightarrow> bool" where
  "accounts cid = (\<lambda>(s, p).
     (let rest = map_erase cid (gp_sessions p)
      in ordered (gp_sessions p) \<and> cid \<in> fst ` set (gp_sessions p) \<and>
         length (gp_sessions p) \<le> lo_conn_capacity (gp_config p) \<and> gp_fetch_used p \<le> lo_fetch_capacity (gp_config p) \<and>
         gp_fetch_used p = slot (cid, s) + total slot rest \<and>
         total entry_reserved (gp_log p) = total entry_ended (gp_log p) + (held (cid, s) + total held rest) \<and>
         total entry_handed (gp_log p) + (entitled (cid, s) + total entitled rest) \<subseteq># total entry_admitted (gp_log p) \<and>
         always_covered (gp_log p)))"

definition tracked :: "connection_id \<Rightarrow> pipeline_session \<times> 'w login_pipeline \<Rightarrow> bool" where
  "tracked cid = (\<lambda>(s, p). ordered (gp_attempts p) \<and> (\<forall>a c. map_of (gp_attempts p) a = Some c \<longrightarrow> a < gp_next_attempt p) \<and>
     (\<forall>a c. map_of (gp_attempts p) a = Some c \<longleftrightarrow>
        (if c = cid then pv_attempt s = Some a
         else \<exists>s'. map_of (gp_sessions p) c = Some s' \<and> pv_attempt s' = Some a)))"

definition others_ok :: "connection_id \<Rightarrow> 'w login_pipeline \<Rightarrow> bool" where
  "others_ok cid p \<longleftrightarrow> (\<forall>c s. c \<noteq> cid \<and> map_of (gp_sessions p) c = Some s \<longrightarrow> session_ok s)"

definition books :: "connection_id \<Rightarrow> pipeline_session \<times> 'w login_pipeline \<Rightarrow> bool" where
  "books cid sp \<longleftrightarrow> accounts cid sp \<and> tracked cid sp \<and> others_ok cid (snd sp)"

lemma accounts_take:
  assumes "ledger (gp_log p) (gp_sessions p)" "counts_agree p" "map_of (gp_sessions p) cid = Some s"
  shows "accounts cid (s, p)"
proof -
  have o: "ordered (gp_sessions p)" using assms(2) by (simp add: counts_agree_def)
  note split = sum_map_erase [OF o assms(3)]
  show ?thesis
    using assms map_of_Some_mem [OF assms(3)] unfolding accounts_def ledger_def counts_agree_def
    by (simp add: Let_def split [of slot] split [of held] split [of entitled])
qed

lemma accounts_put:
  assumes "accounts cid (s, p)"
  shows "ledger (gp_log p) (gp_sessions (put_session cid (s, p))) \<and> counts_agree (put_session cid (s, p))"
proof -
  have o: "ordered (gp_sessions p)" "cid \<in> fst ` set (gp_sessions p)" using assms by (auto simp: accounts_def Let_def)
  note split = sum_map_put [OF o(1)]
  show ?thesis
    using assms o length_put_present [OF o] unfolding accounts_def ledger_def counts_agree_def put_session_def
    by (simp add: Let_def split [of slot] split [of held] split [of entitled])
qed

lemma tracked_take: "attempts_agree p \<Longrightarrow> map_of (gp_sessions p) cid = Some s \<Longrightarrow> tracked cid (s, p)"
  by (simp add: attempts_agree_def tracked_def)

lemma tracked_put:
  "tracked cid (s, p) \<Longrightarrow> ordered (gp_sessions p) \<Longrightarrow> attempts_agree (put_session cid (s, p))"
  by (auto simp: attempts_agree_def tracked_def put_session_def)

lemma others_put:
  "others_ok cid p \<Longrightarrow> session_ok s \<Longrightarrow> ordered (gp_sessions p) \<Longrightarrow> sessions_ok (put_session cid (s, p))"
  by (auto simp: others_ok_def sessions_ok_def put_session_def)

lemma accounts_ordered: "accounts cid (s, p) \<Longrightarrow> ordered (gp_sessions p)"
  by (simp add: accounts_def Let_def)

lemma books_take:
  "pipeline_ok p \<Longrightarrow> map_of (gp_sessions p) cid = Some s \<Longrightarrow> books cid (s, p) \<and> session_ok s"
  using accounts_take tracked_take by (auto simp: pipeline_ok_def books_def others_ok_def sessions_ok_def)

lemma books_put:
  assumes "books cid (s, p)" "session_ok s" "gp_healthy p"
  shows "pipeline_ok (put_session cid (s, p))"
proof -
  note b = assms(1) [unfolded books_def snd_conv]
  have o: "ordered (gp_sessions p)" using b accounts_ordered by blast
  have same: "gp_log (put_session cid (s, p)) = gp_log p" "gp_healthy (put_session cid (s, p)) = gp_healthy p"
    by (simp_all add: put_session_def)
  show ?thesis
    using accounts_put [of cid s p] tracked_put [of cid s p] others_put [of cid p s] b o assms(2,3)
    by (simp add: pipeline_ok_def same)
qed

section \<open>Giving up\<close>

lemma drop_attempt_accounts: "accounts cid sp \<Longrightarrow> accounts cid (drop_attempt G sp)"
  by (cases sp) (auto simp: accounts_def drop_attempt_def Let_def split: option.splits)

lemma drop_attempt_tracked: "tracked cid sp \<Longrightarrow> tracked cid (drop_attempt G sp)"
proof (cases sp)
  case (Pair s p)
  assume t: "tracked cid sp"
  show ?thesis
  proof (cases "pv_attempt s")
    case (Some a)
    have t': "tracked cid (s, p)" using t Pair by simp
    have mine: "map_of (gp_attempts p) a = Some cid" using t' Some by (simp add: tracked_def)
    have other: "\<not> (\<exists>s'. map_of (gp_sessions p) c = Some s' \<and> pv_attempt s' = Some a)" if "c \<noteq> cid" for c
    proof -
      have "map_of (gp_attempts p) a = Some c \<longleftrightarrow> (\<exists>s'. map_of (gp_sessions p) c = Some s' \<and> pv_attempt s' = Some a)"
        using t' that by (simp add: tracked_def)
      then show ?thesis using mine that by simp
    qed
    show ?thesis
      using t' Some other unfolding Pair by (auto simp: tracked_def drop_attempt_def)
  qed (use t Pair in \<open>simp add: drop_attempt_def\<close>)
qed

lemma release_fetch_accounts: "accounts cid sp \<Longrightarrow> accounts cid (release_fetch_reservation sp)"
  by (cases sp) (auto simp: accounts_def release_fetch_reservation_def Let_def)

lemma release_fetch_tracked: "tracked cid sp \<Longrightarrow> tracked cid (release_fetch_reservation sp)"
  by (cases sp) (auto simp: tracked_def release_fetch_reservation_def)

lemma release_admission_accounts: "accounts cid sp \<Longrightarrow> accounts cid (release_admission_reservation G sp)"
  by (cases sp) (auto simp: accounts_def release_admission_reservation_def Let_def always_covered_plain
      split: option.splits prod.splits)

lemma release_admission_tracked: "tracked cid sp \<Longrightarrow> tracked cid (release_admission_reservation G sp)"
  by (cases sp) (auto simp: tracked_def release_admission_reservation_def split: option.splits prod.splits)

lemma release_sessions [simp]:
  "gp_sessions (snd (drop_attempt G sp)) = gp_sessions (snd sp)"
  "gp_sessions (snd (release_fetch_reservation sp)) = gp_sessions (snd sp)"
  "gp_sessions (snd (release_admission_reservation G sp)) = gp_sessions (snd sp)"
  "gp_healthy (snd (drop_attempt G sp)) = gp_healthy (snd sp)"
  "gp_healthy (snd (release_fetch_reservation sp)) = gp_healthy (snd sp)"
  "gp_healthy (snd (release_admission_reservation G sp)) = gp_healthy (snd sp)"
  by (cases sp; auto simp: drop_attempt_def release_fetch_reservation_def release_admission_reservation_def
      split: option.splits prod.splits)+

lemma others_sessions: "gp_sessions p' = gp_sessions p \<Longrightarrow> others_ok cid p' = others_ok cid p"
  by (simp add: others_ok_def)

lemma drop_attempt_books: "books cid sp \<Longrightarrow> books cid (drop_attempt G sp)"
  by (simp add: books_def drop_attempt_accounts drop_attempt_tracked others_sessions [OF release_sessions(1)])

lemma release_fetch_books: "books cid sp \<Longrightarrow> books cid (release_fetch_reservation sp)"
  by (simp add: books_def release_fetch_accounts release_fetch_tracked others_sessions [OF release_sessions(2)])

lemma release_admission_books: "books cid sp \<Longrightarrow> books cid (release_admission_reservation G sp)"
  by (simp add: books_def release_admission_accounts release_admission_tracked others_sessions [OF release_sessions(3)])

lemma release_session_books: "books cid sp \<Longrightarrow> books cid (release_session G sp)"
  by (simp add: release_session_def release_admission_books release_fetch_books drop_attempt_books)

lemma release_session_healthy:
  "gp_healthy (snd (release_session G sp)) = gp_healthy (snd sp)"
  "gp_sessions (snd (release_session G sp)) = gp_sessions (snd sp)"
  by (simp_all add: release_session_def)

lemma release_session_clean:
  "pv_reservation (fst (release_session G sp)) = None \<and> pv_attempt (fst (release_session G sp)) = None \<and>
   \<not> pv_fetch_reserved (fst (release_session G sp))"
  by (cases sp) (auto simp: release_session_def drop_attempt_def release_fetch_reservation_def
      release_admission_reservation_def split: option.splits prod.splits)

lemma books_intent:
  "books cid (s\<lparr>pv_closing := closing, pv_intent := intent\<rparr>, p) = books cid (s, p)"
  by (simp add: books_def accounts_def tracked_def Let_def)

text \<open>Results of a handler: the books are kept, the session is well formed, the pipeline as healthy as before.\<close>

definition good :: "connection_id \<Rightarrow> 'w login_pipeline \<Rightarrow> pipeline_session \<times> 'w login_pipeline \<Rightarrow> bool" where
  "good cid p sp \<longleftrightarrow> books cid sp \<and> session_ok (fst sp) \<and> gp_healthy (snd sp) = gp_healthy p"

lemma schedule_end_good:
  assumes "books cid sp" "ends i" "gp_healthy (snd sp) = gp_healthy p"
  shows "good cid p (schedule_end G i sp)"
proof -
  obtain s' p' where r: "release_session G sp = (s', p')" by (cases "release_session G sp") auto
  have "books cid (s', p')" using release_session_books [OF assms(1), of G] r by simp
  moreover have "gp_healthy p' = gp_healthy (snd sp)"
    using release_session_healthy [of G sp] r by simp
  ultimately show ?thesis
    using release_session_clean [of G sp] r assms(2,3) books_intent [of cid "Some i" True s' p']
    by (auto simp: schedule_end_def good_def session_ok_def ends_def)
qed

lemma schedule_decline_good:
  "books cid sp \<Longrightarrow> gp_healthy (snd sp) = gp_healthy p \<Longrightarrow> good cid p (schedule_decline G code words request_id retry sp)"
  by (simp add: schedule_decline_def schedule_end_good ends_def)

lemma schedule_close_good:
  "books cid sp \<Longrightarrow> gp_healthy (snd sp) = gp_healthy p \<Longrightarrow> good cid p (schedule_close G sp)"
  by (simp add: schedule_close_def schedule_end_good ends_def)

lemma good_put: "good cid p sp \<Longrightarrow> gp_healthy p \<Longrightarrow> pipeline_ok (put_session cid sp) \<and> gp_healthy (put_session cid sp)"
  using books_put by (cases sp) (auto simp: good_def put_session_def)

text \<open>Fields that no fact speaks of.\<close>

lemma accounts_plain:
  assumes "accounts cid (s, p)" "gp_config p' = gp_config p" "gp_sessions p' = gp_sessions p"
    "gp_fetch_used p' = gp_fetch_used p" "gp_log p' = gp_log p" "pv_stage s' = pv_stage s" "pv_account s' = pv_account s"
    "pv_fetch_reserved s' = pv_fetch_reserved s" "pv_reservation s' = pv_reservation s"
  shows "accounts cid (s', p')"
proof -
  have "slot (cid, s') = slot (cid, s)" "held (cid, s') = held (cid, s)" "entitled (cid, s') = entitled (cid, s)"
    using assms(6-9) by simp_all
  then show ?thesis
    using assms(1-5) by (simp add: accounts_def Let_def del: slot.simps held.simps entitled.simps)
qed

lemma books_plain:
  assumes "books cid (s, p)" "gp_config p' = gp_config p" "gp_sessions p' = gp_sessions p" "gp_attempts p' = gp_attempts p"
    "gp_fetch_used p' = gp_fetch_used p" "gp_log p' = gp_log p" "gp_next_attempt p' = gp_next_attempt p"
    "pv_stage s' = pv_stage s" "pv_account s' = pv_account s" "pv_fetch_reserved s' = pv_fetch_reserved s"
    "pv_reservation s' = pv_reservation s" "pv_attempt s' = pv_attempt s"
  shows "books cid (s', p')"
  using assms accounts_plain [of cid s p p' s'] by (simp add: books_def tracked_def others_ok_def)

lemma session_ok_plain:
  assumes "session_ok s" "pv_closing s' = pv_closing s"
    "pv_reservation s' = pv_reservation s \<or> pv_reservation s' = None"
    "pv_attempt s' = pv_attempt s \<or> pv_attempt s' = None" "pv_fetch_reserved s' = pv_fetch_reserved s"
    "pv_intent s' = pv_intent s" "pv_stage s' = pv_stage s" "pv_account s' = pv_account s"
  shows "session_ok s'"
proof -
  note old = assms(1) [unfolded session_ok_def]
  have same: "session_ok s'" if "pv_reservation s' = pv_reservation s" "pv_attempt s' = pv_attempt s"
    using old unfolding session_ok_def assms(2,5-8) that .
  have attempt: "session_ok s'" if "pv_reservation s' = pv_reservation s" "pv_attempt s' = None"
    using old unfolding session_ok_def assms(2,5-8) that by (elim conjE, intro conjI impI) blast+
  have reservation: "session_ok s'" if "pv_reservation s' = None" "pv_attempt s' = pv_attempt s"
    using old unfolding session_ok_def assms(2,5-8) that by (elim conjE, intro conjI impI) (blast | simp)+
  have both: "session_ok s'" if "pv_reservation s' = None" "pv_attempt s' = None"
    using old unfolding session_ok_def assms(2,5-8) that by (elim conjE, intro conjI impI) (blast | simp)+
  show ?thesis using assms(3,4) same attempt reservation both by metis
qed

section \<open>Attach\<close>

lemma refuse_attach_good:
  assumes "books cid (s, p)" "gp_healthy p = gp_healthy q"
  shows "good cid q (refuse_attach G status_code request_id (s, p))"
proof -
  have b: "books cid (s, count_result label (if c then p\<lparr>gp_replays := gp_replays p + 1\<rparr> else p))" for label c
    by (rule books_plain [OF assms(1)]) (auto simp: count_result_def)
  have "\<exists>code words label c. refuse_attach G status_code request_id (s, p) =
      schedule_decline G code words request_id 0 (s, count_result label (if c then p\<lparr>gp_replays := gp_replays p + 1\<rparr> else p))"
    by (cases "status_code = Start_consumed"; cases status_code) (simp_all add: refuse_attach_def Let_def, blast+)
  then obtain code words label c where e: "refuse_attach G status_code request_id (s, p) =
      schedule_decline G code words request_id 0 (s, count_result label (if c then p\<lparr>gp_replays := gp_replays p + 1\<rparr> else p))"
    by blast
  show ?thesis
    unfolding e by (rule schedule_decline_good [OF b]) (simp add: count_result_def assms(2))
qed

lemma handle_attach_good:
  assumes b: "books cid (s, p)" and ok: "session_ok s" and h: "gp_healthy p = gp_healthy q"
    and open_session: "\<not> pv_closing s" "pv_intent s = None"
  shows "good cid q (handle_attach G cid request_id attach now (s, p))"
proof (cases "pv_stage s \<noteq> Stage_pending \<or> lo_fetch_capacity (gp_config p) \<le> gp_fetch_used p")
  case True
  then show ?thesis using b h by (auto simp: handle_attach_def intro!: schedule_decline_good)
next
  case False
  obtain started w where r: "le_reserve G (fst attach) (snd attach) (attempt_owner (gp_instance p) cid (gp_next_admission p))
      now (gp_world p) = (started, w)" by (meson surj_pair)
  let ?p1 = "p\<lparr>gp_next_admission := gp_next_admission p + 1, gp_world := w\<rparr>"
  have b1: "books cid (s, ?p1)" by (rule books_plain [OF b]) auto
  show ?thesis
  proof (cases "gs_status started = Start_reserved \<and> gs_reservation started \<noteq> None")
    case True
    then obtain x where x: "gs_reservation started = Some x" by auto
    have clean: "pv_reservation s = None" "pv_attempt s = None" "\<not> pv_fetch_reserved s"
      using ok False open_session by (auto simp: session_ok_def)
    let ?s' = "s\<lparr>pv_account := gr_account x, pv_reservation := Some x, pv_fetch_reserved := True,
        pv_intent := Some \<lparr>it_kind = Intent_accept,
          it_payload = edge_bytes G (Edge_attach_accepted (gr_account x)) request_id\<rparr>\<rparr>"
    let ?p' = "(count_result Result_reserved ?p1)\<lparr>gp_fetch_used := gp_fetch_used p + 1,
        gp_log := gp_log p @ [Log_reserved cid x]\<rparr>"
    have "books cid (?s', ?p')"
      using b False clean always_covered_plain [of "Log_reserved cid x" "gp_log p"]
      by (auto simp: books_def accounts_def tracked_def others_ok_def count_result_def Let_def)
    moreover have "session_ok ?s'"
      using ok False clean open_session by (auto simp: session_ok_def ends_def)
    ultimately show ?thesis
      using False True x r h by (simp add: handle_attach_def good_def count_result_def)
  next
    case refused: False
    have "handle_attach G cid request_id attach now (s, p) = refuse_attach G (gs_status started) request_id (s, ?p1)"
      using False refused r by (auto simp: handle_attach_def Let_def split: start_status.splits option.splits)
    then show ?thesis using refuse_attach_good [OF b1] h by simp
  qed
qed

lemma good_release_verification:
  "good cid q (s, p) \<Longrightarrow> good cid q (s, p\<lparr>gp_ingress := x\<rparr>)"
  using books_plain [of cid s p "p\<lparr>gp_ingress := x\<rparr>" s] by (simp add: good_def)

lemma attach_message_good:
  assumes b: "books (ev_connection e) (s, p)" and ok: "session_ok s" and h: "gp_healthy p = gp_healthy q"
    and open_session: "\<not> pv_closing s" "pv_intent s = None"
  shows "good (ev_connection e) q (attach_message G now vnow e (s, p))"
proof -
  let ?s = "s\<lparr>pv_attach_attempts := pv_attach_attempts s + 1\<rparr>"
  obtain check ingress where r: "inspect_attach (le_wire G) (pv_source s) (pv_attach_attempts ?s) (ev_payload e) now (gp_ingress p)
      = (check, ingress)" by (meson surj_pair)
  let ?p = "p\<lparr>gp_ingress := ingress\<rparr>"
  have b1: "books (ev_connection e) (?s, ?p)" by (rule books_plain [OF b]) simp_all
  have ok1: "session_ok ?s" by (rule session_ok_plain [OF ok]) simp_all
  have "good (ev_connection e) q (?s, ?p)" using b1 ok1 h by (simp add: good_def)
  moreover have "good (ev_connection e) q (case handle_attach G (ev_connection e) request_id attach vnow (?s, ?p) of
      (s', p') \<Rightarrow> (s', p'\<lparr>gp_ingress := release_verification (gp_ingress p')\<rparr>))" for request_id attach
    using handle_attach_good [OF b1 ok1, of q G request_id attach vnow] h open_session
    by (auto intro!: good_release_verification split: prod.splits)
  ultimately show ?thesis
    using r b1 h by (auto simp: attach_message_def Let_def split: ingress_status.splits option.splits
        intro!: schedule_decline_good schedule_close_good)
qed

lemma process_message_ok:
  assumes "pipeline_ok p" "gp_healthy p"
  shows "pipeline_ok (process_message G now vnow e p) \<and> gp_healthy (process_message G now vnow e p)"
proof (cases "map_of (gp_sessions p) (ev_connection e)")
  case (Some s)
  note t = books_take [OF assms(1) Some]
  show ?thesis
  proof (cases "ev_kind e \<noteq> Message_received \<or> pv_closing s \<or> pv_intent s \<noteq> None")
    case False
    have "good (ev_connection e) p (if ev_established e \<or> pv_stage s \<noteq> Stage_pending then schedule_close G (s, p)
        else if ig_envelope_bytes (lo_ingress (gp_config p)) < length (ev_payload e) then schedule_close G (s, p)
        else if edge_message_id (fst (le_wire G)) (ev_payload e) \<noteq> Some 1301
        then schedule_decline G 2002 ''attach before any other message''
               (or_zero (edge_request_id (fst (le_wire G)) (ev_payload e))) 0 (s, p)
        else attach_message G now vnow e (s, p))"
      using t False by (auto intro!: schedule_close_good schedule_decline_good attach_message_good)
    from good_put [OF this assms(2)] False Some show ?thesis by (simp add: process_message_def)
  qed (use assms Some in \<open>auto simp: process_message_def\<close>)
qed (use assms in \<open>simp add: process_message_def\<close>)

section \<open>Connections\<close>

lemma fresh_session_shares [simp]:
  "slot (cid, fresh_session src) = 0" "held (cid, fresh_session src) = {#}" "entitled (cid, fresh_session src) = {#}"
  "session_ok (fresh_session src)" "pv_attempt (fresh_session src) = None" "pv_reservation (fresh_session src) = None"
  by (simp_all add: fresh_session_def session_ok_def)

lemma open_session_ok:
  assumes "pipeline_ok p" "gp_healthy p" "map_of (gp_sessions p) cid = None"
    "length (gp_sessions p) < lo_conn_capacity (gp_config p)"
  shows "pipeline_ok (put_session cid (fresh_session src, p))"
proof -
  have o: "ordered (gp_sessions p)" using assms(1) by (simp add: pipeline_ok_def counts_agree_def)
  have absent: "cid \<notin> fst ` set (gp_sessions p)" using assms(3) by (simp add: map_of_eq_None_iff)
  have l: "length (map_put cid (fresh_session src) (gp_sessions p)) = Suc (length (gp_sessions p))"
    using absent by (simp add: length_map_put [OF o] length_ordered [OF o])
  note shares = sum_map_put [OF o] map_erase_absent [OF absent]
  have "ledger (gp_log p) (map_put cid (fresh_session src) (gp_sessions p))"
    using assms(1) by (simp add: pipeline_ok_def ledger_def shares del: slot.simps held.simps entitled.simps)
  moreover have "counts_agree (put_session cid (fresh_session src, p))"
    using assms(1,4) o l by (simp add: pipeline_ok_def counts_agree_def put_session_def shares del: slot.simps)
  moreover have "attempts_agree (put_session cid (fresh_session src, p))"
    using assms(1,3) o by (auto simp: pipeline_ok_def attempts_agree_def put_session_def)
  moreover have "sessions_ok (put_session cid (fresh_session src, p))"
    using assms(1) o by (auto simp: pipeline_ok_def sessions_ok_def put_session_def)
  ultimately show ?thesis
    using assms(2) by (simp add: pipeline_ok_def put_session_def)
qed

lemma close_session_ok:
  assumes "books cid (s, p)" "pv_reservation s = None" "pv_attempt s = None" "\<not> pv_fetch_reserved s" "gp_healthy p"
  shows "pipeline_ok (p\<lparr>gp_sessions := map_erase cid (gp_sessions p)\<rparr>)"
proof -
  have a: "accounts cid (s, p)" "tracked cid (s, p)" "others_ok cid p" using assms(1) by (simp_all add: books_def)
  have "total entry_handed (gp_log p) + total entitled (map_erase cid (gp_sessions p)) \<subseteq># total entry_admitted (gp_log p)"
  proof (rule subset_mset.order_trans)
    show "total entry_handed (gp_log p) + total entitled (map_erase cid (gp_sessions p)) \<subseteq>#
        total entry_handed (gp_log p) + (entitled (cid, s) + total entitled (map_erase cid (gp_sessions p)))"
      by simp
  qed (use a(1) in \<open>simp add: accounts_def Let_def\<close>)
  moreover have "length (map_erase cid (gp_sessions p)) \<le> lo_conn_capacity (gp_config p)"
    using a(1) length_map_erase_le [of cid "gp_sessions p"] by (auto simp: accounts_def Let_def simp del: length_map_erase_le)
  ultimately show ?thesis
    using a assms(2-5) by (auto simp: pipeline_ok_def ledger_def counts_agree_def attempts_agree_def sessions_ok_def
        accounts_def tracked_def others_ok_def Let_def)
qed

lemma preapply_event_ok:
  assumes "pipeline_ok p" "gp_healthy p"
  shows "pipeline_ok (preapply_event G e p) \<and> gp_healthy (preapply_event G e p)"
proof (cases "ev_kind e")
  case Connection_opened
  then show ?thesis
    using assms open_session_ok [OF assms, of "ev_connection e"] by (auto simp: preapply_event_def put_session_def)
next
  case Peer_address_changed
  show ?thesis
  proof (cases "map_of (gp_sessions p) (ev_connection e)")
    case (Some s)
    have "books (ev_connection e) (s\<lparr>pv_source := ev_source e\<rparr>, p)"
      by (rule books_plain [OF conjunct1 [OF books_take [OF assms(1) Some]]]) simp_all
    moreover have "session_ok (s\<lparr>pv_source := ev_source e\<rparr>)"
      by (rule session_ok_plain [OF conjunct2 [OF books_take [OF assms(1) Some]]]) simp_all
    ultimately show ?thesis
      using good_put [of "ev_connection e" p] assms(2) Peer_address_changed Some by (simp add: preapply_event_def good_def)
  qed (use assms Peer_address_changed in \<open>simp add: preapply_event_def\<close>)
next
  case Connection_closed
  show ?thesis
  proof (cases "map_of (gp_sessions p) (ev_connection e)")
    case (Some s)
    obtain s' p' where r: "release_session G (s, p) = (s', p')" by (meson surj_pair)
    have b: "books (ev_connection e) (s', p')"
      using release_session_books [OF conjunct1 [OF books_take [OF assms(1) Some]], of G] r by simp
    have "gp_healthy p'" using release_session_healthy(1) [of G "(s, p)"] r assms(2) by simp
    with close_session_ok [OF b] release_session_clean [of G "(s, p)"] r
    show ?thesis using Connection_closed Some by (simp add: preapply_event_def)
  qed (use assms Connection_closed in \<open>simp add: preapply_event_def\<close>)
qed (use assms in \<open>simp_all add: preapply_event_def\<close>)

lemma fold_ok:
  assumes "\<And>x p. pipeline_ok p \<Longrightarrow> gp_healthy p \<Longrightarrow> pipeline_ok (f x p) \<and> gp_healthy (f x p)"
  shows "pipeline_ok p \<Longrightarrow> gp_healthy p \<Longrightarrow> pipeline_ok (fold f xs p) \<and> gp_healthy (fold f xs p)"
  using assms by (induction xs arbitrary: p) simp_all

lemma world_ok [simp]:
  "pipeline_ok (p\<lparr>gp_world := w\<rparr>) = pipeline_ok p"
  "pipeline_ok (p\<lparr>gp_verification_now := t\<rparr>) = pipeline_ok p"
  by (simp_all add: pipeline_ok_def counts_agree_def attempts_agree_def sessions_ok_def stopped_quiet_def)

lemma receive_events_ok:
  assumes "pipeline_ok p" "gp_healthy p"
  shows "pipeline_ok (receive_events G frame p) \<and> gp_healthy (receive_events G frame p)"
proof -
  obtain events w where r: "le_drain G max_events_per_advance (gp_world p) = (events, w)" by (meson surj_pair)
  have "pipeline_ok (p\<lparr>gp_world := w\<rparr>)" "gp_healthy (p\<lparr>gp_world := w\<rparr>)" using assms by simp_all
  note first = fold_ok [of "preapply_event G", OF preapply_event_ok this]
  show ?thesis
    using fold_ok [of "process_message G (lf_now frame) (lf_verification_now frame)", OF process_message_ok
        conjunct1 [OF first] conjunct2 [OF first], of events] r
    by (simp add: receive_events_def)
qed

section \<open>Deadlines and account facts\<close>

lemma expire_handoff_ok:
  assumes "pipeline_ok p" "gp_healthy p"
  shows "pipeline_ok (expire_handoff G now cid p) \<and> gp_healthy (expire_handoff G now cid p)"
  using assms good_put [OF schedule_close_good, of cid "(_, p)" p G] books_take [OF assms(1), of cid]
  by (auto simp: expire_handoff_def split: option.splits)

lemma record_fetch_failure_good:
  assumes b: "books cid (s, p)" and h: "gp_healthy p = gp_healthy q"
    and ok: "session_ok s"
  shows "good cid q (record_fetch_failure G now (s, p))"
proof -
  let ?s = "s\<lparr>pv_failures := pv_failures s + 1\<rparr>"
  have b1: "books cid (?s, p)" "\<And>t. books cid (?s\<lparr>pv_fetch_due := t\<rparr>, p)" by (rule books_plain [OF b]; simp)+
  have "\<And>t. session_ok (?s\<lparr>pv_fetch_due := t\<rparr>)" by (rule session_ok_plain [OF ok]) simp_all
  then show ?thesis
    using b1 h schedule_decline_good [OF b1(1)] by (auto simp: record_fetch_failure_def Let_def good_def)
qed

lemma session_ok_attempt_none: "session_ok s \<Longrightarrow> session_ok (s\<lparr>pv_attempt := None\<rparr>)"
  by (rule session_ok_plain) simp_all

lemma fetch_completed_good:
  assumes b: "books cid (s, p)" and h: "gp_healthy p = gp_healthy q" and ok: "session_ok s"
    and running: "pv_attempt s = None" "pv_stage s = Stage_fetching" "pv_reservation s = None"
  shows "good cid q (fetch_completed G now c (s, p))"
proof -
  obtain s' p' where r: "release_fetch_reservation (s, p) = (s', p')" by (meson surj_pair)
  have "s' = s\<lparr>pv_fetch_reserved := False\<rparr>" using r by (auto simp: release_fetch_reservation_def split: if_splits)
  let ?i = "Some \<lparr>it_kind = Intent_handoff, it_payload = []\<rparr>"
  have "books cid (s'\<lparr>pv_intent := ?i\<rparr>, p')"
    using books_plain [of cid s' p' p' "s'\<lparr>pv_intent := ?i\<rparr>"] release_fetch_books [OF b] r by simp
  moreover have "gp_healthy p' = gp_healthy q" using release_sessions(5) [of "(s, p)"] r h by simp
  moreover have "\<not> pv_closing s \<Longrightarrow> session_ok (s'\<lparr>pv_intent := ?i\<rparr>)"
    using ok running \<open>s' = _\<close> by (auto simp: session_ok_def ends_def)
  ultimately show ?thesis
    using b h ok r by (auto simp: fetch_completed_def good_def [of _ _ "(_, _)"] intro: record_fetch_failure_good schedule_decline_good)
qed

lemma reservation_intent:
  assumes "session_ok s" "pv_intent s = None"
  shows "pv_reservation s = None"
proof (rule ccontr)
  assume "pv_reservation s \<noteq> None"
  then have "pv_intent s \<noteq> None" using assms(1) unfolding session_ok_def by blast
  then show False using assms(2) by simp
qed

lemma running_session:
  assumes "session_ok s" "pv_attempt s \<noteq> None"
  shows "pv_stage s = Stage_fetching \<and> pv_reservation s = None \<and> pv_intent s = None"
proof -
  have "pv_stage s = Stage_fetching \<and> pv_intent s = None" using assms unfolding session_ok_def by blast
  then show ?thesis using reservation_intent [OF assms(1)] by blast
qed

lemma handle_completion_ok:
  assumes "pipeline_ok p" "gp_healthy p"
  shows "pipeline_ok (handle_completion G now c p) \<and> gp_healthy (handle_completion G now c p)"
proof (cases "map_of (gp_attempts p) (fc_attempt c)")
  case (Some cid)
  then obtain s where s: "map_of (gp_sessions p) cid = Some s" "pv_attempt s = Some (fc_attempt c)"
    using assms(1) by (auto simp: pipeline_ok_def attempts_agree_def)
  note t = books_take [OF assms(1) s(1)]
  let ?s = "s\<lparr>pv_attempt := None\<rparr>" and ?p = "p\<lparr>gp_attempts := map_erase (fc_attempt c) (gp_attempts p)\<rparr>"
  have "books cid (?s, ?p)"
    by (rule books_plain [OF drop_attempt_books [OF conjunct1 [OF t], of G, unfolded drop_attempt_def prod.case s(2) option.case]])
      simp_all
  from fetch_completed_good [OF this, of p G now c] have "good cid p (fetch_completed G now c (?s, ?p))"
    using t running_session [of s] s(2) session_ok_attempt_none [of s] by simp
  from good_put [OF this assms(2)] show ?thesis
    using Some s by (simp add: handle_completion_def Let_def)
qed (use assms in \<open>simp add: handle_completion_def\<close>)

lemma drain_completions_ok:
  assumes "pipeline_ok p" "gp_healthy p"
  shows "pipeline_ok (drain_completions G now p) \<and> gp_healthy (drain_completions G now p)"
  using assms fold_ok [of "handle_completion G now", OF handle_completion_ok]
  by (auto simp: drain_completions_def split: prod.splits)

lemma time_out_fetch_ok:
  assumes "pipeline_ok p" "gp_healthy p"
  shows "pipeline_ok (time_out_fetch G now cid p) \<and> gp_healthy (time_out_fetch G now cid p)"
proof (cases "map_of (gp_sessions p) cid")
  case (Some s)
  note t = books_take [OF assms(1) Some]
  obtain s' p' where d: "drop_attempt G (s, p) = (s', p')" by (meson surj_pair)
  have b: "books cid (s', p')" using drop_attempt_books [OF conjunct1 [OF t], of G] d by simp
  have "session_ok s'"
    by (rule session_ok_plain [OF conjunct2 [OF t]]) (use d in \<open>auto simp: drop_attempt_def split: option.splits\<close>)
  moreover have "gp_healthy p' = gp_healthy p" using release_sessions(4) [of G "(s, p)"] d by simp
  ultimately have "good cid p (record_fetch_failure G now (s', p'))" using record_fetch_failure_good [OF b] by simp
  from good_put [OF this assms(2)] show ?thesis
    using assms Some d by (auto simp: time_out_fetch_def)
qed (use assms in \<open>simp add: time_out_fetch_def\<close>)

section \<open>Becoming unhealthy\<close>

definition standing :: "'w login_pipeline \<Rightarrow> bool" where
  "standing p \<longleftrightarrow> ledger (gp_log p) (gp_sessions p) \<and> counts_agree p \<and> sessions_ok p"

definition quiet_at :: "'w login_pipeline \<Rightarrow> connection_id \<Rightarrow> bool" where
  "quiet_at p cid \<longleftrightarrow>
     (\<forall>s. map_of (gp_sessions p) cid = Some s \<longrightarrow> pv_attempt s = None \<and> pv_reservation s = None)"

lemma session_ok_released: "session_ok s \<Longrightarrow> session_ok (s\<lparr>pv_reservation := None\<rparr>)"
  by (rule session_ok_plain) simp_all

text \<open>One session gives its reservation back, with or without its attempt.\<close>

lemma released_put:
  fixes G :: "'w login_env" and p p1 :: "'w login_pipeline"
  assumes "standing p" "map_of (gp_sessions p) cid = Some s" "s1 = s \<or> s1 = s\<lparr>pv_attempt := None\<rparr>"
    and same: "gp_sessions p1 = gp_sessions p" "gp_config p1 = gp_config p" "gp_fetch_used p1 = gp_fetch_used p"
      "gp_log p1 = gp_log p" "gp_healthy p1 = gp_healthy p"
  defines "q \<equiv> put_session cid (release_admission_reservation G (s1, p1))"
  shows "standing q" "gp_healthy q = gp_healthy p" "fst ` set (gp_sessions q) = fst ` set (gp_sessions p)"
    "map_of (gp_sessions q) = (map_of (gp_sessions p))(cid \<mapsto> s1\<lparr>pv_reservation := None\<rparr>)"
proof -
  have o: "ordered (gp_sessions p)" using assms(1) by (simp add: standing_def counts_agree_def)
  have "accounts cid (s, p)" using accounts_take [OF _ _ assms(2)] assms(1) by (simp add: standing_def)
  then have "accounts cid (s1, p1)" by (rule accounts_plain) (use assms(3) in \<open>auto simp: same\<close>)
  then have a: "accounts cid (release_admission_reservation G (s1, p1))" by (rule release_admission_accounts)
  obtain s2 p2 where r: "release_admission_reservation G (s1, p1) = (s2, p2)" by (meson surj_pair)
  have s2: "s2 = s1\<lparr>pv_reservation := None\<rparr>"
    using r by (auto simp: release_admission_reservation_def split: option.splits prod.splits)
  have p2: "gp_sessions p2 = gp_sessions p" "gp_healthy p2 = gp_healthy p"
    using release_sessions(3,6) [of G "(s1, p1)"] r same by simp_all
  have "others_ok cid p" "session_ok s" using assms(1,2) by (auto simp: standing_def others_ok_def sessions_ok_def)
  moreover have "session_ok s2"
    by (rule session_ok_plain [OF \<open>session_ok s\<close>]) (use assms(3) in \<open>auto simp: s2\<close>)
  ultimately have "sessions_ok (put_session cid (s2, p2))"
    using others_put [of cid p2 s2] p2 o others_sessions [of p2 p cid] by simp
  then show "standing q"
    using accounts_put [of cid s2 p2] a r by (simp add: q_def standing_def put_session_def)
  show "gp_healthy q = gp_healthy p" by (simp add: q_def r put_session_def p2)
  show "fst ` set (gp_sessions q) = fst ` set (gp_sessions p)"
    using map_of_Some_mem [OF assms(2)] by (auto simp: q_def r put_session_def p2)
  show "map_of (gp_sessions q) = (map_of (gp_sessions p))(cid \<mapsto> s1\<lparr>pv_reservation := None\<rparr>)"
    using o by (simp add: q_def r put_session_def p2 s2)
qed

lemma unhealthy_session_ok:
  assumes "standing p"
  shows "standing (unhealthy_session G cid p) \<and> gp_healthy (unhealthy_session G cid p) = gp_healthy p \<and>
    fst ` set (gp_sessions (unhealthy_session G cid p)) = fst ` set (gp_sessions p) \<and>
    quiet_at (unhealthy_session G cid p) cid \<and> (\<forall>c. quiet_at p c \<longrightarrow> quiet_at (unhealthy_session G cid p) c)"
proof (cases "map_of (gp_sessions p) cid")
  case (Some s)
  define p1 where "p1 = (case pv_attempt s of None \<Rightarrow> p | Some a \<Rightarrow> p\<lparr>gp_world := le_cancel G a (gp_world p)\<rparr>)"
  define s1 where "s1 = (case pv_attempt s of None \<Rightarrow> s | Some a \<Rightarrow> s\<lparr>pv_attempt := None\<rparr>)"
  have same: "gp_sessions p1 = gp_sessions p" "gp_config p1 = gp_config p" "gp_fetch_used p1 = gp_fetch_used p"
    "gp_log p1 = gp_log p" "gp_healthy p1 = gp_healthy p"
    by (simp_all add: p1_def split: option.splits)
  have s1: "s1 = s \<or> s1 = s\<lparr>pv_attempt := None\<rparr>" "pv_attempt s1 = None"
    by (simp_all add: s1_def split: option.splits)
  have u: "unhealthy_session G cid p = put_session cid (release_admission_reservation G (s1, p1))"
    using Some by (simp add: unhealthy_session_def p1_def s1_def split: option.splits)
  show ?thesis
    using released_put [OF assms Some s1(1) same, of G] s1(2) unfolding u by (auto simp: quiet_at_def)
qed (use assms in \<open>simp add: unhealthy_session_def quiet_at_def\<close>)

lemma unhealthy_sessions_ok:
  assumes "standing p"
  shows "standing (fold (unhealthy_session G) cs p) \<and> gp_healthy (fold (unhealthy_session G) cs p) = gp_healthy p \<and>
    fst ` set (gp_sessions (fold (unhealthy_session G) cs p)) = fst ` set (gp_sessions p) \<and>
    (\<forall>c. c \<in> set cs \<or> quiet_at p c \<longrightarrow> quiet_at (fold (unhealthy_session G) cs p) c)"
  using assms
proof (induction cs arbitrary: p)
  case (Cons c cs)
  show ?case
    using Cons.IH [of "unhealthy_session G c p"] unhealthy_session_ok [OF Cons.prems, of G c] by auto
qed simp

lemma walk_all: "set (walk G p) = fst ` set (gp_sessions p)"
  by (auto simp: walk_def Let_def)

lemma mark_unhealthy_ok:
  assumes "standing p"
  shows "pipeline_ok (mark_unhealthy G p) \<and> \<not> gp_healthy (mark_unhealthy G p)"
proof -
  have s: "standing (p\<lparr>gp_healthy := False\<rparr>)"
    using assms by (simp add: standing_def counts_agree_def sessions_ok_def)
  note u = unhealthy_sessions_ok [OF s, of G "walk G p"]
  define q where "q = fold (unhealthy_session G) (walk G p) (p\<lparr>gp_healthy := False\<rparr>)"
  have "quiet_at q cid" for cid
  proof (cases "cid \<in> fst ` set (gp_sessions p)")
    case False
    then have "map_of (gp_sessions q) cid = None" using u by (simp add: q_def map_of_eq_None_iff)
    then show ?thesis by (simp add: quiet_at_def)
  qed (use u in \<open>simp add: q_def walk_all\<close>)
  then have "stopped_quiet (q\<lparr>gp_attempts := []\<rparr>)" "attempts_agree (q\<lparr>gp_attempts := []\<rparr>)"
    by (auto simp: stopped_quiet_def attempts_agree_def quiet_at_def)
  moreover have "standing q" "\<not> gp_healthy q" using u by (simp_all add: q_def)
  ultimately show ?thesis
    by (simp add: mark_unhealthy_def q_def [symmetric] pipeline_ok_def standing_def counts_agree_def sessions_ok_def)
qed

lemma pipeline_standing: "pipeline_ok p \<Longrightarrow> standing p"
  by (simp add: pipeline_ok_def standing_def)

lemma standing_put:
  assumes "books cid (s, p)" "session_ok s"
  shows "standing (put_session cid (s, p))"
proof -
  have a: "accounts cid (s, p)" "others_ok cid p" using assms(1) by (simp_all add: books_def)
  show ?thesis
    using accounts_put [OF a(1)] others_put [OF a(2) assms(2) accounts_ordered [OF a(1)]]
    by (simp add: standing_def put_session_def)
qed

lemma stop_ok:
  "books cid (s, p) \<Longrightarrow> session_ok s \<Longrightarrow> pipeline_ok (mark_unhealthy G (put_session cid (s, p)))"
  using mark_unhealthy_ok [OF standing_put] by blast

section \<open>Submitting a fetch\<close>

lemma entitled_admitted:
  assumes "accounts cid (s, p)" "pv_stage s = Stage_fetching"
  shows "(cid, pv_account s) \<in># total entry_admitted (gp_log p)"
  using assms mset_subset_eqD [of "total entry_handed (gp_log p) + (entitled (cid, s) + total entitled (map_erase cid (gp_sessions p)))"
      "total entry_admitted (gp_log p)" "(cid, pv_account s)"]
  by (simp add: accounts_def Let_def)

lemma always_covered_fetch:
  "always_covered es \<Longrightarrow> (cid, account) \<in># total entry_admitted es \<Longrightarrow> always_covered (es @ [Log_fetch cid account])"
  using always_covered_last [of es] by (simp add: always_covered_snoc covered_def)

lemma submitted_books:
  assumes b: "books cid (s, p)" and none: "pv_attempt s = None" and fetching: "pv_stage s = Stage_fetching"
  shows "books cid (s\<lparr>pv_attempt := Some (gp_next_attempt p), pv_attempt_deadline := t\<rparr>,
    p\<lparr>gp_next_attempt := gp_next_attempt p + 1, gp_world := w,
      gp_attempts := map_put (gp_next_attempt p) cid (gp_attempts p),
      gp_log := gp_log p @ [Log_fetch cid (pv_account s)], gp_retry_total := n\<rparr>)"
    (is "books cid (?s, ?p)")
proof -
  have a: "accounts cid (s, p)" and tr: "tracked cid (s, p)" and o: "others_ok cid p" using b by (simp_all add: books_def)
  have "always_covered (gp_log p @ [Log_fetch cid (pv_account s)])"
    using always_covered_fetch entitled_admitted [OF a fetching] a by (simp add: accounts_def Let_def)
  then have "accounts cid (?s, ?p)" using a fetching by (simp add: accounts_def Let_def)
  moreover have "tracked cid (?s, ?p)"
  proof -
    let ?a = "gp_next_attempt p"
    have fresh: "map_of (gp_attempts p) ?a = None"
      using tr by (cases "map_of (gp_attempts p) ?a") (auto simp: tracked_def)
    have below: "b < ?a + 1" if "map_of (gp_attempts p) b = Some c" for b c
    proof -
      have "b < ?a" using tr that unfolding tracked_def prod.case by blast
      then show ?thesis by simp
    qed
    have free: "\<not> (\<exists>s'. map_of (gp_sessions p) c = Some s' \<and> pv_attempt s' = Some ?a)" if "c \<noteq> cid" for c
    proof -
      have "map_of (gp_attempts p) ?a = Some c \<longleftrightarrow> (\<exists>s'. map_of (gp_sessions p) c = Some s' \<and> pv_attempt s' = Some ?a)"
        using tr that by (simp add: tracked_def)
      then show ?thesis using fresh by simp
    qed
    have mine: "map_of (gp_attempts p) b \<noteq> Some cid" for b using tr none by (simp add: tracked_def)
    have o: "ordered (gp_attempts p)" using tr by (simp add: tracked_def)
    have iff: "map_of (gp_attempts p) b = Some c \<longleftrightarrow>
        (if c = cid then pv_attempt s = Some b else \<exists>s'. map_of (gp_sessions p) c = Some s' \<and> pv_attempt s' = Some b)" for b c
      using tr unfolding tracked_def prod.case by blast
    have "b < ?a + 1" if "map_of (map_put ?a cid (gp_attempts p)) b = Some c" for b c
      using that below [of b c] by (cases "b = ?a") (simp_all add: o)
    moreover have "map_of (map_put ?a cid (gp_attempts p)) b = Some c \<longleftrightarrow>
        (if c = cid then ?a = b else \<exists>s'. map_of (gp_sessions p) c = Some s' \<and> pv_attempt s' = Some b)" for b c
      using iff [of b c] free [of c] mine [of b] by (cases "b = ?a"; cases "c = cid") (simp_all add: o)
    moreover have "gp_attempts ?p = map_put ?a cid (gp_attempts p)" "gp_next_attempt ?p = ?a + 1" "gp_sessions ?p = gp_sessions p"
      "pv_attempt ?s = Some ?a" by simp_all
    ultimately show ?thesis unfolding tracked_def prod.case by (simp only: option.inject ordered_map_put [OF o]) blast
  qed
  ultimately show ?thesis using o by (simp add: books_def others_ok_def)
qed

lemma attempts_agree_next:
  assumes "attempts_agree p"
  shows "attempts_agree (p\<lparr>gp_next_attempt := gp_next_attempt p + 1, gp_world := w\<rparr>)"
proof -
  have "a < gp_next_attempt p + 1" if "map_of (gp_attempts p) a = Some c" for a c
  proof -
    have "a < gp_next_attempt p" using assms that unfolding attempts_agree_def by blast
    then show ?thesis by simp
  qed
  then show ?thesis using assms unfolding attempts_agree_def by simp
qed

lemma submit_fetch_ok:
  assumes ok: "pipeline_ok p"
  shows "pipeline_ok (submit_fetch G now cid p)"
proof (cases "gp_healthy p")
  case h: True
  show ?thesis
  proof (cases "map_of (gp_sessions p) cid")
    case (Some s)
    note t = books_take [OF ok Some]
    show ?thesis
    proof (cases "pv_closing s \<or> pv_stage s \<noteq> Stage_fetching \<or> \<not> pv_fetch_reserved s \<or> pv_attempt s \<noteq> None \<or>
        pv_intent s \<noteq> None \<or> now < pv_fetch_due s")
      case False
      obtain outcome w where r: "le_submit G (gp_next_attempt p) cid (pv_account s) now (gp_world p) = (outcome, w)"
        by (meson surj_pair)
      let ?p1 = "p\<lparr>gp_next_attempt := gp_next_attempt p + 1, gp_world := w\<rparr>"
      have p1: "pipeline_ok ?p1"
        using ok attempts_agree_next [of p] by (simp add: pipeline_ok_def counts_agree_def sessions_ok_def stopped_quiet_def)
      show ?thesis
      proof (cases outcome)
        case Fetch_full
        have "pipeline_ok (?p1\<lparr>gp_submit_backpressure := gp_submit_backpressure p + 1\<rparr>)"
          using p1 by (simp add: pipeline_ok_def counts_agree_def attempts_agree_def sessions_ok_def stopped_quiet_def)
        then show ?thesis using False Some r h Fetch_full by (simp add: submit_fetch_def Let_def)
      next
        case Fetch_stopped
        then show ?thesis
          using False Some r h conjunct1 [OF mark_unhealthy_ok [OF pipeline_standing [OF p1]], of G]
          by (simp add: submit_fetch_def Let_def)
      next
        case Fetch_submitted
        let ?s = "s\<lparr>pv_attempt := Some (gp_next_attempt p),
            pv_attempt_deadline := now + millis (lo_fetch_timeout_ms (gp_config p))\<rparr>"
        have "pv_reservation s = None"
          using conjunct2 [OF t] False reservation_intent [of s] by blast
        then have "session_ok ?s"
          using False by (simp add: session_ok_def)
        from books_put [OF submitted_books [OF conjunct1 [OF t]] this]
        show ?thesis using False Some r h Fetch_submitted by (simp add: submit_fetch_def Let_def)
      qed
    qed (use ok Some in \<open>simp add: submit_fetch_def\<close>)
  qed (use ok in \<open>simp add: submit_fetch_def\<close>)
qed (use ok in \<open>simp add: submit_fetch_def\<close>)

section \<open>Sending intents\<close>

lemma intent_ends:
  assumes "session_ok s" "pv_intent s = Some i" "ends i"
  shows "pv_closing s \<and> pv_reservation s = None \<and> pv_attempt s = None \<and> \<not> pv_fetch_reserved s"
proof -
  have "pv_closing s" using assms unfolding session_ok_def by blast
  then show ?thesis using assms(1) unfolding session_ok_def by blast
qed

lemma intent_accepts:
  assumes "session_ok s" "pv_intent s = Some i" "it_kind i = Intent_accept"
  shows "\<not> pv_closing s \<and> pv_stage s = Stage_pending \<and> pv_fetch_reserved s \<and> pv_attempt s = None"
proof -
  have c: "\<not> pv_closing s"
  proof
    assume "pv_closing s"
    then have "ends i" using assms(1,2) unfolding session_ok_def by blast
    then show False using assms(3) by (simp add: ends_def)
  qed
  have "pv_attempt s = None"
  proof (rule ccontr)
    assume "pv_attempt s \<noteq> None"
    then show False using running_session [OF assms(1)] assms(2) by simp
  qed
  moreover have "pv_stage s = Stage_pending \<and> pv_fetch_reserved s" using assms unfolding session_ok_def by blast
  ultimately show ?thesis using c by blast
qed

lemma intent_hands_off:
  assumes "session_ok s" "pv_intent s = Some i" "it_kind i = Intent_handoff"
  shows "pv_stage s = Stage_fetching \<and> \<not> pv_fetch_reserved s \<and> pv_attempt s = None \<and> pv_reservation s = None \<and> \<not> pv_closing s"
proof -
  have c: "\<not> pv_closing s"
  proof
    assume "pv_closing s"
    then have "ends i" using assms(1,2) unfolding session_ok_def by blast
    then show False using assms(3) by (simp add: ends_def)
  qed
  have "pv_attempt s = None"
  proof (rule ccontr)
    assume "pv_attempt s \<noteq> None"
    then show False using running_session [OF assms(1)] assms(2) by simp
  qed
  moreover have "pv_reservation s = None"
  proof (rule ccontr)
    assume "pv_reservation s \<noteq> None"
    then obtain r where "pv_reservation s = Some r" by auto
    then have "\<exists>i. pv_intent s = Some i \<and> it_kind i = Intent_accept" using assms(1) unfolding session_ok_def by blast
    then show False using assms(2,3) by auto
  qed
  moreover have "pv_stage s = Stage_fetching \<and> \<not> pv_fetch_reserved s" using assms unfolding session_ok_def by blast
  ultimately show ?thesis using c by blast
qed

lemma settled_books:
  assumes b: "books cid (s, p)" and r: "pv_reservation s = Some r"
  shows "books cid (s\<lparr>pv_reservation := None\<rparr>,
    p\<lparr>gp_world := w, gp_log := gp_log p @ [Log_settled cid r outcome moved]\<rparr>)" (is "books cid (?s, ?p)")
proof -
  have a: "accounts cid (s, p)" using b by (simp add: books_def)
  let ?rest = "total entitled (map_erase cid (gp_sessions p))"
  have "always_covered (gp_log ?p)"
    using a always_covered_plain [of "Log_settled cid r outcome moved" "gp_log p"] by (simp add: accounts_def Let_def)
  moreover have "total entry_handed (gp_log p) + (entitled (cid, s) + ?rest) \<subseteq>#
      total entry_admitted (gp_log p) + entry_admitted (Log_settled cid r outcome moved)"
    using a subset_mset.add_increasing2 by (simp add: accounts_def Let_def subset_mset.add_increasing2 del: entitled.simps)
  ultimately have "accounts cid (?s, ?p)"
    using a r by (simp add: accounts_def Let_def split: if_splits)
  then show ?thesis using b by (simp add: books_def tracked_def others_ok_def)
qed

lemma admitted_books:
  assumes b: "books cid (s, p)" and r: "pv_reservation s = Some r" and account: "gr_account r = pv_account s"
    and pending: "pv_stage s = Stage_pending"
  shows "books cid (s\<lparr>pv_reservation := None, pv_stage := Stage_fetching, pv_fetch_due := t, pv_intent := None\<rparr>,
    p\<lparr>gp_world := w, gp_log := gp_log p @ [Log_settled cid r Queued Transition_applied]\<rparr>)" (is "books cid (?s, ?p)")
proof -
  have a: "accounts cid (s, p)" using b by (simp add: books_def)
  have "always_covered (gp_log ?p)"
    using a always_covered_plain [of "Log_settled cid r Queued Transition_applied" "gp_log p"] by (simp add: accounts_def Let_def)
  then have "accounts cid (?s, ?p)"
    using a r account pending by (simp add: accounts_def Let_def)
  then show ?thesis using b by (simp add: books_def tracked_def others_ok_def)
qed

lemma handed_books:
  assumes b: "books cid (s, p)" and fetching: "pv_stage s = Stage_fetching"
  shows "books cid (s\<lparr>pv_stage := Stage_handed_off, pv_handoff_deadline := t\<rparr>,
    p\<lparr>gp_world := w, gp_log := gp_log p @ [Log_handoff cid (pv_account s)]\<rparr>)" (is "books cid (?s, ?p)")
proof -
  have a: "accounts cid (s, p)" using b by (simp add: books_def)
  let ?rest = "total entitled (map_erase cid (gp_sessions p))"
  have all: "add_mset (cid, pv_account s) (total entry_handed (gp_log p) + ?rest) \<subseteq># total entry_admitted (gp_log p)"
    using a fetching by (simp add: accounts_def Let_def)
  have "add_mset (cid, pv_account s) (total entry_handed (gp_log p)) \<subseteq># total entry_admitted (gp_log p)"
    by (rule subset_mset.order_trans [OF _ all]) simp
  then have "always_covered (gp_log ?p)"
    using a always_covered_last [of "gp_log p"] by (simp add: accounts_def Let_def always_covered_snoc covered_def)
  then have "accounts cid (?s, ?p)"
    using a fetching by (simp add: accounts_def Let_def)
  then show ?thesis using b by (simp add: books_def tracked_def others_ok_def)
qed

lemma settle_intent_ok:
  assumes b: "books cid (s, p)" and h: "gp_healthy p" and ok: "session_ok s"
    and last: "outcome = Queued \<Longrightarrow> session_ok (s\<lparr>pv_intent := None\<rparr>)"
    and kind: "k \<in> {Intent_close, Intent_decline} \<Longrightarrow> pv_closing s" and free: "pv_reservation s = None"
  shows "pipeline_ok (settle_intent G cid k outcome (s, p))"
proof (cases outcome)
  case Queue_full
  have "books cid (s, count_backpressure k p)" by (rule books_plain [OF b]) (simp_all add: count_backpressure_def)
  from books_put [OF this ok] h show ?thesis by (simp add: settle_intent_def Queue_full count_backpressure_def)
next
  case Queue_stopped
  have "books cid (s\<lparr>pv_reservation := None\<rparr>, p)" by (rule books_plain [OF b]) (simp_all add: free)
  moreover have "session_ok (s\<lparr>pv_reservation := None\<rparr>)" by (rule session_ok_plain [OF ok]) simp_all
  ultimately show ?thesis using stop_ok by (simp add: settle_intent_def Queue_stopped)
next
  case Queued
  let ?s = "if k = Intent_close then s\<lparr>pv_closing := True, pv_handoff_deadline := None, pv_intent := None\<rparr>
              else if k = Intent_decline then s\<lparr>pv_closing := True, pv_intent := None\<rparr>
              else s\<lparr>pv_intent := None\<rparr>"
  have "session_ok ?s"
    by (rule session_ok_plain [OF last [OF Queued]]) (use kind in auto)
  moreover have "books cid (?s, p)" by (rule books_plain [OF b]) auto
  ultimately have "pipeline_ok (put_session cid (?s, p))" using h by (intro books_put)
  then show ?thesis unfolding settle_intent_def by (simp only: Queued prod.case queue_result.case)
qed

lemma session_ok_no_intent:
  assumes "pv_reservation s = None" "pv_attempt s = None" "\<not> pv_fetch_reserved s" "pv_intent s = None"
  shows "session_ok s"
  using assms by (simp add: session_ok_def)

text \<open>
  What the pipeline relies on in the admission it is given: a reservation that could not be sent yet stays
  the reservation it was.
\<close>

locale login_port =
  fixes G :: "'w login_env"
  assumes full_keeps: "fst (snd (le_accept_result G r Queue_full t w)) = r"
begin

lemma flush_accept_ok:
  assumes ok: "pipeline_ok p" and h: "gp_healthy p" and s: "map_of (gp_sessions p) cid = Some s"
    and i: "pv_intent s = Some i" "it_kind i = Intent_accept"
  shows "pipeline_ok (flush_accept G cid frame payload s p)"
proof -
  note t = books_take [OF ok s]
  note a = intent_accepts [OF conjunct2 [OF t] i]
  obtain outcome w where r1: "le_accept G cid payload (gp_world p) = (outcome, w)" by (meson surj_pair)
  show ?thesis
  proof (cases "pv_reservation s")
    case None
    have "standing (p\<lparr>gp_world := w\<rparr>)" using ok by (intro pipeline_standing) simp
    from mark_unhealthy_ok [OF this, of G] show ?thesis using r1 None by (simp add: flush_accept_def Let_def)
  next
    case (Some r)
    have account: "gr_account r = pv_account s" using conjunct2 [OF t] Some unfolding session_ok_def by blast
    obtain moved r' w2 where r2: "le_accept_result G r outcome (lf_verification_now frame) w = (moved, r', w2)"
      by (cases "le_accept_result G r outcome (lf_verification_now frame) w") auto
    let ?s1 = "s\<lparr>pv_reservation := None\<rparr>"
    let ?p3 = "p\<lparr>gp_world := w2, gp_log := gp_log p @ [Log_settled cid r outcome moved]\<rparr>"
    have b3: "books cid (?s1, ?p3)" by (rule settled_books [OF conjunct1 [OF t] Some])
    have s1: "session_ok ?s1" by (rule session_ok_plain [OF conjunct2 [OF t]]) simp_all
    show ?thesis
    proof (cases outcome)
      case Queue_full
      have "r' = r" using full_keeps [of r "lf_verification_now frame" w] r2 Queue_full by simp
      moreover have "books cid (s\<lparr>pv_reservation := Some r\<rparr>, count_backpressure Intent_accept (p\<lparr>gp_world := w2\<rparr>))"
        by (rule books_plain [OF conjunct1 [OF t]]) (simp_all add: Some count_backpressure_def)
      moreover have "session_ok (s\<lparr>pv_reservation := Some r\<rparr>)"
        by (rule session_ok_plain [OF conjunct2 [OF t]]) (simp_all add: Some)
      ultimately show ?thesis
        using books_put [of cid "s\<lparr>pv_reservation := Some r\<rparr>" "count_backpressure Intent_accept (p\<lparr>gp_world := w2\<rparr>)"]
          h r1 r2 Some Queue_full by (simp add: flush_accept_def Let_def count_backpressure_def)
    next
      case Queue_stopped
      then show ?thesis using stop_ok [OF b3 s1, of G] r1 r2 Some by (simp add: flush_accept_def Let_def)
    next
      case Queued
      show ?thesis
      proof (cases "moved = Transition_applied")
        case True
        let ?s2 = "?s1\<lparr>pv_stage := Stage_fetching, pv_fetch_due := lf_now frame, pv_intent := None\<rparr>"
        have "books cid (?s2, ?p3)"
          using admitted_books [OF conjunct1 [OF t] Some account, of "lf_now frame" w2] a Queued True by simp
        moreover have "session_ok ?s2" using a by (simp add: session_ok_def)
        ultimately show ?thesis
          using books_put [of cid ?s2 ?p3] h r1 r2 Some Queued True by (simp add: flush_accept_def Let_def)
      next
        case False
        obtain s2 p4 where r: "release_fetch_reservation (?s1, ?p3) = (s2, p4)" by (meson surj_pair)
        let ?i = "\<lparr>it_kind = Intent_close, it_payload = []\<rparr>"
        have "books cid (s2\<lparr>pv_closing := True, pv_intent := Some ?i\<rparr>, p4)"
          using release_fetch_books [OF b3] r books_intent [of cid "Some ?i" True s2 p4] by simp
        moreover have "session_ok (s2\<lparr>pv_closing := True, pv_intent := Some ?i\<rparr>)"
          using r a by (auto simp: release_fetch_reservation_def session_ok_def ends_def)
        moreover have "gp_healthy p4" using release_sessions(5) [of "(?s1, ?p3)"] r h by simp
        ultimately show ?thesis
          using books_put [of cid "s2\<lparr>pv_closing := True, pv_intent := Some ?i\<rparr>" p4] r r1 r2 Some Queued False by (simp add: flush_accept_def Let_def)
      qed
    qed
  qed
qed

end

lemma flush_handoff_ok:
  assumes ok: "pipeline_ok p" and h: "gp_healthy p" and s: "map_of (gp_sessions p) cid = Some s"
    and i: "pv_intent s = Some i" "it_kind i = Intent_handoff"
  shows "pipeline_ok (flush_handoff G cid frame s p)"
proof -
  note t = books_take [OF ok s]
  note a = intent_hands_off [OF conjunct2 [OF t] i]
  show ?thesis
  proof (cases "if lf_realm frame \<noteq> None then lf_realm frame else lo_static_realm (gp_config p)")
    case None
    have "good cid p (schedule_close G (s, p))" using t by (intro schedule_close_good) simp_all
    from good_put [OF this h] None show ?thesis by (simp add: flush_handoff_def)
  next
    case (Some e)
    obtain random w0 where r0: "le_random G (gp_world p) = (random, w0)" by (meson surj_pair)
    obtain outcome w where r1: "le_handoff G cid (handoff_payload G (pv_account s) (pv_realm s) e (lf_verification_now frame) random)
        w0 = (outcome, w)" by (meson surj_pair)
    show ?thesis
    proof (cases "outcome = Queued")
      case True
      let ?s = "s\<lparr>pv_stage := Stage_handed_off,
          pv_handoff_deadline := Some (lf_now frame + millis (lo_handoff_grace_ms (gp_config p)))\<rparr>"
      let ?p = "p\<lparr>gp_world := w, gp_log := gp_log p @ [Log_handoff cid (pv_account s)]\<rparr>"
      have b: "books cid (?s, ?p)" by (rule handed_books [OF conjunct1 [OF t]]) (simp add: a)
      have "?s = (?s\<lparr>pv_intent := pv_intent s\<rparr>)" by simp
      have free: "pv_reservation ?s = None" "session_ok (?s\<lparr>pv_intent := None\<rparr>)"
        using a by (simp_all add: session_ok_no_intent)
      have "books cid (?s\<lparr>pv_intent := None\<rparr>, ?p)" by (rule books_plain [OF b]) simp_all
      from books_put [OF this free(2)] have "pipeline_ok (settle_intent G cid Intent_handoff Queued (?s, ?p))"
        using h by (simp add: settle_intent_def)
      then show ?thesis using Some r0 r1 True by (simp add: flush_handoff_def)
    next
      case False
      have "books cid (s, p\<lparr>gp_world := w\<rparr>)" by (rule books_plain [OF conjunct1 [OF t]]) simp_all
      then have "pipeline_ok (settle_intent G cid Intent_handoff outcome (s, p\<lparr>gp_world := w\<rparr>))"
        by (rule settle_intent_ok) (use h t a False in simp_all)
      then show ?thesis using Some r0 r1 False by (simp add: flush_handoff_def)
    qed
  qed
qed

lemma flush_end_ok:
  assumes ok: "pipeline_ok p" and h: "gp_healthy p" and s: "map_of (gp_sessions p) cid = Some s"
    and i: "pv_intent s = Some i" "ends i"
  shows "pipeline_ok (settle_intent G cid (it_kind i) outcome (s, p\<lparr>gp_world := w\<rparr>))"
proof -
  note t = books_take [OF ok s]
  note a = intent_ends [OF conjunct2 [OF t] i]
  have "books cid (s, p\<lparr>gp_world := w\<rparr>)" by (rule books_plain [OF conjunct1 [OF t]]) simp_all
  then show ?thesis
    by (rule settle_intent_ok) (use h t a in \<open>simp_all add: session_ok_no_intent\<close>)
qed

context login_port
begin

lemma flush_one_ok:
  assumes ok: "pipeline_ok p"
  shows "pipeline_ok (flush_one G frame k cid p)"
proof (cases "gp_healthy p")
  case h: True
  show ?thesis
  proof (cases "map_of (gp_sessions p) cid")
    case (Some s)
    show ?thesis
    proof (cases "pv_intent s")
      case i: (Some i)
      have "pipeline_ok (flush_intent G cid frame i s p)"
      proof (cases "it_kind i")
        case Intent_close
        then have "ends i" by (simp add: ends_def)
        from flush_end_ok [OF ok h Some i this] Intent_close show ?thesis
          by (auto simp: flush_intent_def split: prod.splits)
      next
        case Intent_decline
        then have "ends i" by (simp add: ends_def)
        from flush_end_ok [OF ok h Some i this] Intent_decline show ?thesis
          by (auto simp: flush_intent_def split: prod.splits)
      next
        case Intent_accept
        then show ?thesis using flush_accept_ok [OF ok h Some i] by (simp add: flush_intent_def)
      next
        case Intent_handoff
        then show ?thesis using flush_handoff_ok [OF ok h Some i] by (simp add: flush_intent_def)
      qed
      then show ?thesis using ok Some i by (simp add: flush_one_def)
    qed (use ok Some in \<open>simp add: flush_one_def\<close>)
  qed (use ok in \<open>simp add: flush_one_def\<close>)
qed (use ok in \<open>simp add: flush_one_def\<close>)

lemma flush_intents_ok: "pipeline_ok p \<Longrightarrow> pipeline_ok (flush_intents G frame p)"
proof -
  assume ok: "pipeline_ok p"
  have one: "pipeline_ok (fold (flush_one G frame k) cs p)" if "pipeline_ok p" for k cs p
    using that by (induction cs arbitrary: p) (simp_all add: flush_one_ok)
  have "pipeline_ok (fold (\<lambda>k. fold (flush_one G frame k) cs) ks p)" if "pipeline_ok p" for cs ks p
    using that by (induction ks arbitrary: p) (simp_all add: one)
  from this [OF ok] show ?thesis unfolding flush_intents_def Let_def .
qed

lemma advance_ok:
  assumes "pipeline_ok p"
  shows "pipeline_ok (snd (advance_pipeline G frame p))"
proof (cases "gp_healthy p")
  case True
  let ?now = "lf_now frame"
  define p0 where "p0 = p\<lparr>gp_verification_now := lf_verification_now frame, gp_world := snd (le_refresh G ?now (gp_world p))\<rparr>"
  define p1 where "p1 = receive_events G frame p0"
  define p2 where "p2 = fold (expire_handoff G ?now) (walk G p1) p1"
  define p3 where "p3 = drain_completions G ?now p2"
  define p4 where "p4 = fold (time_out_fetch G ?now) (walk G p3) p3"
  have submits: "pipeline_ok (fold (submit_fetch G ?now) cs p)" if "pipeline_ok p" for cs p
    using that by (induction cs arbitrary: p) (simp_all add: submit_fetch_ok)
  have "pipeline_ok p0" "gp_healthy p0" using assms True by (simp_all add: p0_def)
  then have "pipeline_ok p1" "gp_healthy p1" by (simp_all add: p1_def receive_events_ok)
  then have "pipeline_ok p2" "gp_healthy p2"
    using fold_ok [of "expire_handoff G ?now", OF expire_handoff_ok] by (simp_all add: p2_def)
  then have "pipeline_ok p3" "gp_healthy p3" by (simp_all add: p3_def drain_completions_ok)
  then have "pipeline_ok p4"
    using fold_ok [of "time_out_fetch G ?now", OF time_out_fetch_ok] by (simp add: p4_def)
  then have "pipeline_ok (flush_intents G frame (fold (submit_fetch G ?now) (walk G p4) p4))"
    by (intro flush_intents_ok submits)
  then show ?thesis
    using True by (simp add: advance_pipeline_def Let_def p0_def [symmetric] p1_def [symmetric] p2_def [symmetric]
        p3_def [symmetric] p4_def [symmetric])
qed (use assms in \<open>simp add: advance_pipeline_def\<close>)

lemma frames_ok: "pipeline_ok p \<Longrightarrow> pipeline_ok (fold (\<lambda>frame p. snd (advance_pipeline G frame p)) frames p)"
  by (induction frames arbitrary: p) (simp_all add: advance_ok)

end

lemma new_login_pipeline_ok: "new_login_pipeline c name w = Inr p \<Longrightarrow> pipeline_ok p \<and> gp_log p = [] \<and> gp_sessions p = []"
  by (auto simp: new_login_pipeline_def pipeline_ok_def ledger_def counts_agree_def attempts_agree_def sessions_ok_def
      always_covered_def covered_def split: sum.splits if_splits)

section \<open>The pipeline with its admission\<close>

text \<open>
  The gateway gives the pipeline the admission of \<open>Gateway_Admission\<close>: the world is that of the store and
  the time of the next probe. An exception of the store, which in the code ends the frame, is read as
  unavailable.
\<close>

definition with_admission ::
  "sodium \<Rightarrow> 'w consumption_store \<Rightarrow> (gateway_admission \<times> 'w) login_env \<Rightarrow> (gateway_admission \<times> 'w) login_env" where
  "with_admission na S E =
     E\<lparr>le_reserve := (\<lambda>token grant owner now (adm, w).
           (case gateway_reserve na S adm token grant owner now w of
              (Inr started, w') \<Rightarrow> (started, adm, w')
            | (Inl _, w') \<Rightarrow> (refused_start Start_unavailable, adm, w'))),
       le_accept_result := (\<lambda>r result now (adm, w).
           (case gateway_accept_result S r result now w of
              (moved, r', w') \<Rightarrow> (case moved of Inr m \<Rightarrow> m | Inl _ \<Rightarrow> Transition_unavailable, r', adm, w'))),
       le_abandon := (\<lambda>r now (adm, w).
           (case gateway_abandon S r now w of
              (moved, r', w') \<Rightarrow> (case moved of Inr m \<Rightarrow> m | Inl _ \<Rightarrow> Transition_unavailable, r', adm, w'))),
       le_available := (\<lambda>(adm, w). cs_available S w),
       le_refresh := (\<lambda>now (adm, w). (case refresh_availability S now adm w of (up, adm', w') \<Rightarrow> (up, adm', w')))\<rparr>"

interpretation gl: login_port "with_admission na S E"
  by unfold_locales (auto simp: with_admission_def gateway_accept_result_def)

definition run_login ::
  "'w login_env \<Rightarrow> login_frame list \<Rightarrow> 'w login_pipeline \<Rightarrow> 'w login_pipeline" where
  "run_login G frames p = fold (\<lambda>frame p. snd (advance_pipeline G frame p)) frames p"

lemma run_login_ok:
  "new_login_pipeline c name w = Inr p \<Longrightarrow> pipeline_ok (run_login (with_admission na S E) frames p)"
  using gl.frames_ok new_login_pipeline_ok by (fastforce simp: run_login_def)

section \<open>Destruction\<close>

definition unreserved_at :: "'w login_pipeline \<Rightarrow> connection_id \<Rightarrow> bool" where
  "unreserved_at p cid \<longleftrightarrow> (\<forall>s. map_of (gp_sessions p) cid = Some s \<longrightarrow> pv_reservation s = None)"

lemma shut_session_ok:
  assumes "standing p"
  shows "standing (shut_session G cid p) \<and> fst ` set (gp_sessions (shut_session G cid p)) = fst ` set (gp_sessions p) \<and>
    unreserved_at (shut_session G cid p) cid \<and> (\<forall>c. unreserved_at p c \<longrightarrow> unreserved_at (shut_session G cid p) c)"
proof (cases "map_of (gp_sessions p) cid")
  case (Some s)
  define p1 where "p1 = (case pv_attempt s of None \<Rightarrow> p | Some a \<Rightarrow> p\<lparr>gp_world := le_cancel G a (gp_world p)\<rparr>)"
  have same: "gp_sessions p1 = gp_sessions p" "gp_config p1 = gp_config p" "gp_fetch_used p1 = gp_fetch_used p"
    "gp_log p1 = gp_log p" "gp_healthy p1 = gp_healthy p"
    by (simp_all add: p1_def split: option.splits)
  have u: "shut_session G cid p = put_session cid (release_admission_reservation G (s, p1))"
    using Some by (simp add: shut_session_def p1_def)
  show ?thesis
    using released_put [OF assms Some disjI1 [OF refl] same, of G] unfolding u by (auto simp: unreserved_at_def)
qed (use assms in \<open>simp add: shut_session_def unreserved_at_def\<close>)

lemma shut_sessions_ok:
  "standing p \<Longrightarrow> standing (fold (shut_session G) cs p) \<and>
    fst ` set (gp_sessions (fold (shut_session G) cs p)) = fst ` set (gp_sessions p) \<and>
    (\<forall>c. c \<in> set cs \<or> unreserved_at p c \<longrightarrow> unreserved_at (fold (shut_session G) cs p) c)"
proof (induction cs arbitrary: p)
  case (Cons c cs)
  show ?case
    using Cons.IH [of "shut_session G c p"] shut_session_ok [OF Cons.prems, of G c] by auto
qed simp

lemma total_zero: "(\<And>e. e \<in> set xs \<Longrightarrow> f e = 0) \<Longrightarrow> total f xs = 0"
  by (induction xs) simp_all

lemma shut_down_ok:
  assumes "pipeline_ok p"
  shows "ledger (gp_log (shut_down G p)) (gp_sessions (shut_down G p)) \<and> total held (gp_sessions (shut_down G p)) = {#}"
proof -
  note u = shut_sessions_ok [OF pipeline_standing [OF assms], of G "walk G p"]
  let ?q = "fold (shut_session G) (walk G p) p"
  have o: "ordered (gp_sessions ?q)" using u by (simp add: standing_def counts_agree_def)
  have "held entry = {#}" if "entry \<in> set (gp_sessions ?q)" for entry
  proof (cases entry)
    case (Pair cid s)
    then have "map_of (gp_sessions ?q) cid = Some s" using that ordered_distinct [OF o] by simp
    moreover have "cid \<in> fst ` set (gp_sessions ?q)" using that Pair by (intro image_eqI [of cid fst "(cid, s)"]) simp_all
    then have "cid \<in> set (walk G p)" using u unfolding walk_all by blast
    ultimately have "pv_reservation s = None" using u by (auto simp: unreserved_at_def)
    then show ?thesis by (simp add: Pair)
  qed
  then show ?thesis using u total_zero [of "gp_sessions ?q" held] by (simp add: shut_down_def standing_def)
qed

section \<open>The configuration is fixed\<close>

lemma config_pairs [simp]:
  "gp_config (snd (drop_attempt G sp)) = gp_config (snd sp)"
  "gp_config (snd (release_fetch_reservation sp)) = gp_config (snd sp)"
  "gp_config (snd (release_admission_reservation G sp)) = gp_config (snd sp)"
  by (cases sp; auto simp: drop_attempt_def release_fetch_reservation_def release_admission_reservation_def
      split: option.splits prod.splits)+

lemma config_release [simp]: "gp_config (snd (release_session G sp)) = gp_config (snd sp)"
  by (simp add: release_session_def)

lemma config_put [simp]: "gp_config (put_session cid sp) = gp_config (snd sp)"
  by (cases sp) (simp add: put_session_def)

lemma config_ends [simp]:
  "gp_config (snd (schedule_decline G code words request_id retry sp)) = gp_config (snd sp)"
  "gp_config (snd (schedule_close G sp)) = gp_config (snd sp)"
proof -
  have e: "gp_config (snd (schedule_end G i sp)) = gp_config (snd sp)" for i
    by (simp add: schedule_end_def case_prod_beta)
  show "gp_config (snd (schedule_decline G code words request_id retry sp)) = gp_config (snd sp)"
    "gp_config (snd (schedule_close G sp)) = gp_config (snd sp)"
    by (simp_all add: schedule_decline_def schedule_close_def e)
qed

lemma config_unhealthy [simp]: "gp_config (mark_unhealthy G p) = gp_config p"
proof -
  have one: "gp_config (unhealthy_session G cid p) = gp_config p" for cid p
    by (simp add: unhealthy_session_def split: option.splits)
  have "gp_config (fold (unhealthy_session G) cs p) = gp_config p" for cs p
    by (induction cs arbitrary: p) (simp_all add: one)
  then show ?thesis by (simp add: mark_unhealthy_def)
qed

lemma config_events [simp]: "gp_config (preapply_event G e p) = gp_config p"
  by (simp add: preapply_event_def case_prod_beta split: edge_event_kind.splits option.splits)

lemma config_refuse [simp]: "gp_config (snd (refuse_attach G status_code request_id (s, p))) = gp_config p"
  by (cases status_code) (simp_all add: refuse_attach_def count_result_def Let_def)

lemma config_attach [simp]: "gp_config (snd (handle_attach G cid request_id attach now (s, p))) = gp_config p"
proof (cases "pv_stage s \<noteq> Stage_pending \<or> lo_fetch_capacity (gp_config p) \<le> gp_fetch_used p")
  case False
  obtain started w where r: "le_reserve G (fst attach) (snd attach) (attempt_owner (gp_instance p) cid (gp_next_admission p))
      now (gp_world p) = (started, w)" by (meson surj_pair)
  show ?thesis
    using False r by (cases "gs_status started"; cases "gs_reservation started")
      (simp_all add: handle_attach_def count_result_def Let_def)
qed (auto simp: handle_attach_def)

lemma config_message [simp]: "gp_config (process_message G now vnow e p) = gp_config p"
proof -
  have "gp_config (snd (attach_message G now vnow e (s, p))) = gp_config p" for s
    by (simp add: attach_message_def Let_def case_prod_beta split: ingress_status.splits option.splits)
  then show ?thesis by (simp add: process_message_def split: option.splits)
qed

lemma config_fetches [simp]:
  "gp_config (expire_handoff G now cid p) = gp_config p"
  "gp_config (handle_completion G now c p) = gp_config p"
  "gp_config (time_out_fetch G now cid p) = gp_config p"
  "gp_config (submit_fetch G now cid p) = gp_config p"
proof -
  have failure: "gp_config (snd (record_fetch_failure G now sp)) = gp_config (snd sp)" for sp
    by (cases sp) (simp add: record_fetch_failure_def Let_def)
  then have done_with: "gp_config (snd (fetch_completed G now c sp)) = gp_config (snd sp)" for sp
    by (simp add: fetch_completed_def case_prod_beta)
  show "gp_config (expire_handoff G now cid p) = gp_config p" "gp_config (time_out_fetch G now cid p) = gp_config p"
    by (simp_all add: expire_handoff_def time_out_fetch_def failure split: option.splits)
  show "gp_config (handle_completion G now c p) = gp_config p"
    by (simp add: handle_completion_def Let_def done_with split: option.splits)
  show "gp_config (submit_fetch G now cid p) = gp_config p"
    by (simp add: submit_fetch_def Let_def case_prod_beta split: option.splits fetch_submit.splits)
qed

lemma config_flush [simp]: "gp_config (flush_one G frame k cid p) = gp_config p"
proof -
  have settle: "gp_config (settle_intent G cid k outcome sp) = gp_config (snd sp)" for k outcome sp
    by (cases sp) (simp add: settle_intent_def count_backpressure_def split: queue_result.splits)
  then have "gp_config (flush_handoff G cid frame s p) = gp_config p" for s
    by (simp add: flush_handoff_def case_prod_beta split: option.splits)
  moreover have "gp_config (flush_accept G cid frame payload s p) = gp_config p" for s payload
    by (simp add: flush_accept_def case_prod_beta Let_def count_backpressure_def split: option.splits)
  ultimately have "gp_config (flush_intent G cid frame i s p) = gp_config p" for i s
    using settle by (simp add: flush_intent_def case_prod_beta split: intent_kind.splits)
  then show ?thesis by (simp add: flush_one_def split: option.splits)
qed

lemma config_fold:
  "(\<And>x p. gp_config (f x p) = gp_config p) \<Longrightarrow> gp_config (fold f xs p) = gp_config p"
  by (induction xs arbitrary: p) simp_all

lemma config_run: "gp_config (run_login G frames p) = gp_config p"
proof -
  have "gp_config (fold (\<lambda>k. fold (flush_one G frame k) cs) ks p) = gp_config p" for frame cs ks p
    by (intro config_fold config_flush)
  then have "gp_config (flush_intents G frame p) = gp_config p" for frame p
    unfolding flush_intents_def Let_def .
  then have "gp_config (snd (advance_pipeline G frame p)) = gp_config p" for frame p
    by (simp add: advance_pipeline_def Let_def receive_events_def drain_completions_def case_prod_beta config_fold)
  then show ?thesis unfolding run_login_def by (intro config_fold)
qed

section \<open>Properties\<close>

text \<open>
  C6. Every reservation of an admission ends once. Over any frames, whatever the transport, the account
  facts and the store do, the reservations made are, as a multiset, those that were settled with the result
  of the accept or abandoned and those that a session still holds; when the pipeline is destroyed, all have
  ended, each as often as it was made.
\<close>

theorem reservations_end_once:
  assumes "new_login_pipeline c name w = Inr p0" "p = run_login (with_admission na S E) frames p0"
    "q = shut_down (with_admission na S E) p"
  shows "sum_list (map entry_reserved (gp_log p)) =
      sum_list (map entry_ended (gp_log p)) + sum_list (map held (gp_sessions p)) \<and>
    sum_list (map entry_reserved (gp_log q)) = sum_list (map entry_ended (gp_log q))"
  using run_login_ok [OF assms(1), of na S E frames] shut_down_ok [of p "with_admission na S E"]
  by (simp add: assms(2,3) pipeline_ok_def ledger_def)

text \<open>
  C4. Nobody is handed over without an admission. At every moment, account facts are only ever asked for a
  connection and account whose reservation was committed after the accept was sent, and the hand-overs
  to the realm so far, as a multiset of connections and accounts, are covered by the commits so far: one
  admission never gives two hand-overs.
\<close>

theorem handover_needs_admission:
  assumes "new_login_pipeline c name w = Inr p0" "p = run_login (with_admission na S E) frames p0"
    "past = take n (gp_log p)"
  shows "set_mset (sum_list (map entry_fetched past)) \<subseteq> set_mset (sum_list (map entry_admitted past)) \<and>
    sum_list (map entry_handed past) \<subseteq># sum_list (map entry_admitted past)"
  using run_login_ok [OF assms(1), of na S E frames]
  by (simp add: assms(2,3) pipeline_ok_def ledger_def always_covered_def covered_def)

lemma total_slot: "total slot ss = length (filter (\<lambda>(cid, s). pv_fetch_reserved s) ss)"
  by (induction ss) auto

lemma run_snoc: "run_login G (frames @ [frame]) p = snd (advance_pipeline G frame (run_login G frames p))"
  by (simp add: run_login_def)

lemma advance_budget: "fst (advance_pipeline G frame p) = pipeline_budget G (snd (advance_pipeline G frame p))"
  by (simp add: advance_pipeline_def Let_def)

text \<open>
  C38. The budget that a frame reports is exact. The free connections and the sessions make up the configured
  capacity, and so do the free fetches and the sessions that hold one: neither subtraction wraps and no
  release is lost or done twice.
\<close>

theorem login_budget_exact:
  assumes "new_login_pipeline c name w = Inr p0"
    "advance_pipeline (with_admission na S E) frame (run_login (with_admission na S E) frames p0) = (budget, p)"
  shows "bg_conn_free budget + length (gp_sessions p) = lo_conn_capacity c \<and>
    bg_fetch_free budget + length (filter (\<lambda>(cid, s). pv_fetch_reserved s) (gp_sessions p)) = lo_fetch_capacity c"
proof -
  have p: "p = run_login (with_admission na S E) (frames @ [frame]) p0" "budget = pipeline_budget (with_admission na S E) p"
    using assms(2) advance_budget [of "with_admission na S E" frame "run_login (with_admission na S E) frames p0"]
    by (simp_all add: run_snoc)
  have "gp_config p0 = c" using assms(1) by (auto simp: new_login_pipeline_def split: sum.splits if_splits)
  then have "gp_config p = c" using p(1) by (simp add: config_run)
  moreover have "counts_agree p" using run_login_ok [OF assms(1), of na S E "frames @ [frame]"] p(1) by (simp add: pipeline_ok_def)
  ultimately show ?thesis by (simp add: p(2) pipeline_budget_def counts_agree_def total_slot)
qed

text \<open>
  C39. Becoming unhealthy is final and leaves nothing behind. A pipeline that saw its transport or its fetch
  port stopped has no fetch under way and no reservation held, reports itself unavailable, and every further
  frame leaves it as it is.
\<close>

theorem unhealthy_is_final:
  assumes "new_login_pipeline c name w = Inr p0" "p = run_login (with_admission na S E) frames p0" "\<not> gp_healthy p"
  shows "gp_attempts p = [] \<and>
    (\<forall>cid s. map_of (gp_sessions p) cid = Some s \<longrightarrow> pv_attempt s = None \<and> pv_reservation s = None) \<and>
    \<not> bg_available (fst (advance_pipeline (with_admission na S E) frame p)) \<and>
    snd (advance_pipeline (with_admission na S E) frame p) = p"
  using run_login_ok [OF assms(1), of na S E frames] assms(3)
  by (simp add: assms(2) pipeline_ok_def stopped_quiet_def advance_pipeline_def pipeline_budget_def)

section \<open>Concrete runs\<close>

text \<open>A client that sends a message on a connection the transport calls established already, and a transport
  that has stopped when the close is sent.\<close>

definition sample_login :: login_config where
  "sample_login = \<lparr>lo_conn_capacity = 2, lo_fetch_capacity = 1, lo_fetch_workers = 1, lo_fetch_timeout_ms = 1000,
     lo_retry_base_ms = 100, lo_retry_max = 3, lo_handoff_grace_ms = 1000, lo_static_realm = None,
     lo_ingress = sample_ingress, lo_identity_kid = ''k1'', lo_identity_issuer = ''realmmesh/login'',
     lo_grant_keys = [(''k2'', ''KEY'')], lo_grant_issuer = ''realmmesh/queue'', lo_grant_window = 300,
     lo_deployment = ''d'', lo_prefix = ''/p'', lo_reservation_ttl = 10\<rparr>"

definition sample_events :: "edge_event list" where
  "sample_events =
     [\<lparr>ev_kind = Connection_opened, ev_connection = 1, ev_protocol = Tls_tcp, ev_established = False, ev_payload = [],
       ev_source = ''a''\<rparr>,
      \<lparr>ev_kind = Message_received, ev_connection = 1, ev_protocol = Tls_tcp, ev_established = True, ev_payload = [0],
       ev_source = ''a''\<rparr>]"

definition sample_ports :: "'w login_env" where
  "sample_ports = \<lparr>le_drain = (\<lambda>n w. (sample_events, w)), le_accept = (\<lambda>cid payload w. (Queued, w)),
     le_decline = (\<lambda>cid payload w. (Queued, w)), le_handoff = (\<lambda>cid payload w. (Queued, w)),
     le_close = (\<lambda>cid w. (Queue_stopped, w)), le_submit = (\<lambda>a cid account now w. (Fetch_submitted, w)),
     le_completions = (\<lambda>now n w. ([], w)), le_cancel = (\<lambda>a w. w),
     le_reserve = (\<lambda>token grant owner now w. (refused_start Start_unavailable, w)),
     le_accept_result = (\<lambda>r result now w. (Transition_pending, r, w)),
     le_abandon = (\<lambda>r now w. (Transition_lost, r, w)), le_available = (\<lambda>w. True), le_refresh = (\<lambda>now w. (True, w)),
     le_random = (\<lambda>w. ([], w)), le_sodium = example_sodium, le_ticket_key = [], le_wire = attach_wire,
     le_order = (\<lambda>cids. cids)\<rparr>"

definition sample_frame :: login_frame where
  "sample_frame = \<lparr>lf_now = 0, lf_verification_now = 0, lf_realm = None\<rparr>"

abbreviation sample_env :: "(gateway_admission \<times> memory_store) login_env" where
  "sample_env \<equiv> with_admission example_sodium sample_store sample_ports"

definition sample_pipeline :: "(gateway_admission \<times> memory_store) login_pipeline" where
  "sample_pipeline =
     \<lparr>gp_config = sample_login, gp_ingress = fresh_ingress, gp_instance = ''g1'', gp_healthy = True, gp_sessions = [],
      gp_attempts = [], gp_fetch_used = 0, gp_next_attempt = 1, gp_next_admission = 1, gp_retry_total = 0,
      gp_replays = 0, gp_submit_backpressure = 0, gp_backpressure = (\<lambda>_. 0), gp_results = (\<lambda>_. 0),
      gp_verification_now = 0, gp_world = (sample_admission, sample_memory), gp_log = []\<rparr>"

lemma sample_pipeline_new:
  "new_login_pipeline sample_login ''g1'' (sample_admission, sample_memory) = Inr sample_pipeline"
proof -
  have "validate_ingress_config sample_ingress = Inr ()" by (simp add: validate_ingress_config_def sample_ingress_def)
  moreover have "valid_gateway_instance ''g1''" by code_simp
  ultimately show ?thesis
    by (simp add: new_login_pipeline_def validate_login_config_def validate_key_ring_def sample_login_def
        admission_grant_max_window_def new_credential_ingress_def sample_pipeline_def fresh_ingress_def)
qed

lemma sample_env_fields:
  "le_drain sample_env = (\<lambda>n w. (sample_events, w))" "le_completions sample_env = (\<lambda>now n w. ([], w))"
  "le_close sample_env = (\<lambda>cid w. (Queue_stopped, w))" "le_order sample_env = (\<lambda>cids. cids)"
  by (simp_all add: with_admission_def sample_ports_def)

text \<open>The frame leaves the session closing, with the close still to be sent.\<close>

definition sample_session :: pipeline_session where
  "sample_session = (fresh_session ''a'')\<lparr>pv_closing := True, pv_intent := Some \<lparr>it_kind = Intent_close, it_payload = []\<rparr>\<rparr>"

lemma sample_session_fields:
  "pv_closing sample_session" "pv_attempt sample_session = None" "pv_handoff_deadline sample_session = None"
  "pv_intent sample_session = Some \<lparr>it_kind = Intent_close, it_payload = []\<rparr>"
  by (simp_all add: sample_session_def fresh_session_def)

lemma sample_received:
  assumes "gp_sessions p = []" "gp_config p = sample_login"
  shows "receive_events sample_env sample_frame p = p\<lparr>gp_sessions := [(1, sample_session)]\<rparr>"
proof -
  have close: "schedule_close sample_env (fresh_session ''a'', q) = (sample_session, q)" for q
    by (simp add: schedule_close_def schedule_end_def release_session_def drop_attempt_def release_fetch_reservation_def
        release_admission_reservation_def fresh_session_def sample_session_def)
  have fresh: "\<not> pv_closing (fresh_session ''a'')" "pv_intent (fresh_session ''a'') = None"
    by (simp_all add: fresh_session_def)
  show ?thesis
    using assms by (simp add: receive_events_def sample_env_fields sample_events_def preapply_event_def process_message_def
        put_session_def close fresh sample_login_def)
qed

lemma marked_unhealthy: "\<not> gp_healthy (mark_unhealthy G p)"
proof -
  have one: "gp_healthy (unhealthy_session G cid p) = gp_healthy p" for cid p
    by (simp add: unhealthy_session_def put_session_def case_prod_beta split: option.splits)
  have "gp_healthy (fold (unhealthy_session G) cs p) = gp_healthy p" for cs p
    by (induction cs arbitrary: p) (simp_all add: one)
  then show ?thesis by (simp add: mark_unhealthy_def)
qed

lemma sample_flushed:
  assumes "gp_sessions p = [(1, sample_session)]" "gp_healthy p"
  shows "\<not> gp_healthy (flush_intents sample_env sample_frame p)"
proof -
  have "\<not> gp_healthy (flush_one sample_env sample_frame Intent_close 1 p)"
    using assms by (simp add: flush_one_def flush_intent_def sample_session_fields sample_env_fields settle_intent_def
        marked_unhealthy)
  moreover have "flush_one sample_env sample_frame k 1 q = q" if "\<not> gp_healthy q" for k q
    using that by (simp add: flush_one_def)
  ultimately show ?thesis using assms by (simp add: flush_intents_def)
qed

lemma sample_unhealthy: "\<not> gp_healthy (run_login sample_env [sample_frame] sample_pipeline)"
proof -
  define p0 where "p0 = sample_pipeline\<lparr>gp_verification_now := lf_verification_now sample_frame,
      gp_world := snd (le_refresh sample_env (lf_now sample_frame) (gp_world sample_pipeline))\<rparr>"
  let ?p1 = "p0\<lparr>gp_sessions := [(1, sample_session)]\<rparr>"
  have p0: "gp_sessions p0 = []" "gp_config p0 = sample_login" "gp_healthy p0" by (simp_all add: p0_def sample_pipeline_def)
  have walk: "walk sample_env ?p1 = [1]" by (simp add: walk_def sample_env_fields)
  have expire: "fold (expire_handoff sample_env now) [1] ?p1 = ?p1" for now
    by (simp add: expire_handoff_def sample_session_fields)
  have drain: "drain_completions sample_env now ?p1 = ?p1" for now
    by (simp add: drain_completions_def sample_env_fields)
  have "fold (time_out_fetch sample_env now) [1] ?p1 = ?p1" "fold (submit_fetch sample_env now) [1] ?p1 = ?p1" for now
    by (simp_all add: time_out_fetch_def submit_fetch_def sample_session_fields)
  then have "snd (advance_pipeline sample_env sample_frame sample_pipeline) = flush_intents sample_env sample_frame ?p1"
    unfolding advance_pipeline_def Let_def p0_def [symmetric] sample_received [OF p0(1,2)] walk expire drain
    by (simp add: sample_pipeline_def walk)
  then show ?thesis
    using sample_flushed [of ?p1] p0(3) by (simp add: run_login_def)
qed

theorem reservations_end_once_witness:
  "sum_list (map entry_reserved (gp_log (shut_down sample_env (run_login sample_env [sample_frame] sample_pipeline)))) =
   sum_list (map entry_ended (gp_log (shut_down sample_env (run_login sample_env [sample_frame] sample_pipeline))))"
  using reservations_end_once [OF sample_pipeline_new refl refl, of example_sodium sample_store sample_ports "[sample_frame]"]
  by blast

theorem handover_needs_admission_witness:
  "sum_list (map entry_handed (take 1 (gp_log (run_login sample_env [sample_frame] sample_pipeline)))) \<subseteq>#
   sum_list (map entry_admitted (take 1 (gp_log (run_login sample_env [sample_frame] sample_pipeline))))"
  using handover_needs_admission [OF sample_pipeline_new refl refl, of 1 example_sodium sample_store sample_ports "[sample_frame]"]
  by blast

theorem login_budget_exact_witness:
  "\<exists>budget p. advance_pipeline sample_env sample_frame (run_login sample_env [sample_frame] sample_pipeline) = (budget, p) \<and>
     bg_conn_free budget + length (gp_sessions p) = 2"
proof -
  obtain budget p where r: "advance_pipeline sample_env sample_frame (run_login sample_env [sample_frame] sample_pipeline) =
      (budget, p)" by (meson surj_pair)
  from login_budget_exact [OF sample_pipeline_new r] r show ?thesis by (auto simp: sample_login_def)
qed

theorem unhealthy_is_final_witness:
  "gp_attempts (run_login sample_env [sample_frame] sample_pipeline) = [] \<and>
   snd (advance_pipeline sample_env sample_frame (run_login sample_env [sample_frame] sample_pipeline)) =
     run_login sample_env [sample_frame] sample_pipeline"
  using unhealthy_is_final [OF sample_pipeline_new refl sample_unhealthy, of sample_frame] by blast

end
