(* ===== verification/Chat_Messages.thy ===== *)
theory Chat_Messages
  imports Wire_Protocols
begin

text \<open>
  The messages of the chat service (\<open>chat.proto\<close>), their validation and their codecs
  (\<open>chat_protocol.cpp\<close>). As for the scene, a message is a record, a sub-message an option, and the
  accessor of an absent one gives its default.
\<close>

section \<open>Messages\<close>

datatype channel_kind = Channel_unspecified | Channel_scene | Channel_realm | Channel_other nat

datatype chat_phase = Chat_phase_unspecified | Chat_unavailable_phase | Chat_active | Chat_phase_other nat

datatype outcome = Outcome_unspecified | Accepted | Rejected | Unknown | Outcome_other nat

datatype reason =
  No_reason | Not_configured | Unavailable | Not_member | Stale_membership | Wrong_epoch | Invalid_text |
  Rate_limited | Busy | Deadline_passed | Outcome_lost | Invalid_sequence | Sequence_conflict | Gap |
  Resource_limit | Counter_exhausted | Reason_other nat

datatype chat_operation =
  Chat_op_unspecified | Hello | Join | Leave | Send | State_query | Chat_op_other nat

datatype chat_status =
  Chat_st_unspecified | Chat_ok | Chat_invalid | Stale_link | Chat_stale_membership | Forbidden |
  Chat_busy | Chat_unavailable | Chat_st_other nat

record chat_channel =
  ch_realm :: u32
  ch_kind :: channel_kind
  ch_shard :: u64

record chat_epoch =
  ep_channel_opt :: "chat_channel option"
  ep_incarnation :: string

record membership =
  mb_channel_opt :: "chat_channel option"
  mb_character :: u64
  mb_realm_incarnation :: string
  mb_session :: u64
  mb_generation :: u64
  mb_scene_epoch :: u64

record receipt =
  rc_epoch_opt :: "chat_epoch option"
  rc_channel_seq :: u64
  rc_send_seq :: u64

record chat_state =
  kt_kind :: channel_kind
  kt_phase :: chat_phase
  kt_generation :: u64
  kt_epoch_opt :: "chat_epoch option"
  kt_watermark :: u64
  kt_last_seq :: u64
  kt_last_receipt :: "receipt option"
  kt_reason :: reason

record send_chat =
  sd_kind :: channel_kind
  sd_generation :: u64
  sd_epoch_opt :: "chat_epoch option"
  sd_seq :: u64
  sd_text :: string

record chat_result =
  sr_kind :: channel_kind
  sr_generation :: u64
  sr_epoch_opt :: "chat_epoch option"
  sr_seq :: u64
  sr_outcome :: outcome
  sr_reason :: reason
  sr_receipt :: "receipt option"
  sr_retry_ms :: u32

record chat_text =
  cm_generation :: u64
  cm_epoch_opt :: "chat_epoch option"
  cm_seq :: u64
  cm_sender :: u64
  cm_text :: string

record chat_link =
  lk_realm :: u32
  lk_realm_instance :: string
  lk_realm_incarnation :: string
  lk_chat_instance :: string
  lk_chat_incarnation :: string
  lk_generation :: u64

record chat_request =
  cq_link_opt :: "chat_link option"
  cq_operation :: chat_operation
  cq_membership_opt :: "membership option"
  cq_send_opt :: "send_chat option"

record chat_reply =
  cp_link_opt :: "chat_link option"
  cp_operation :: chat_operation
  cp_status :: chat_status
  cp_membership_opt :: "membership option"
  cp_state_opt :: "chat_state option"
  cp_result_opt :: "chat_result option"

record chat_push =
  cx_link_opt :: "chat_link option"
  cx_membership_opt :: "membership option"
  cx_message_opt :: "chat_text option"

text \<open>Default messages and the accessors of optional sub-messages.\<close>

definition default_channel :: chat_channel where
  "default_channel = \<lparr>ch_realm = 0, ch_kind = Channel_unspecified, ch_shard = 0\<rparr>"

definition default_epoch :: chat_epoch where
  "default_epoch = \<lparr>ep_channel_opt = None, ep_incarnation = []\<rparr>"

definition default_membership :: membership where
  "default_membership = \<lparr>mb_channel_opt = None, mb_character = 0, mb_realm_incarnation = [],
     mb_session = 0, mb_generation = 0, mb_scene_epoch = 0\<rparr>"

definition default_link :: chat_link where
  "default_link = \<lparr>lk_realm = 0, lk_realm_instance = [], lk_realm_incarnation = [],
     lk_chat_instance = [], lk_chat_incarnation = [], lk_generation = 0\<rparr>"

definition default_send :: send_chat where
  "default_send = \<lparr>sd_kind = Channel_unspecified, sd_generation = 0, sd_epoch_opt = None, sd_seq = 0,
     sd_text = []\<rparr>"

definition or_default :: "'a \<Rightarrow> 'a option \<Rightarrow> 'a" where
  "or_default d x = (case x of None \<Rightarrow> d | Some v \<Rightarrow> v)"

lemma or_default_simps [simp]: "or_default d (Some v) = v" "or_default d None = d"
  by (simp_all add: or_default_def)

definition ep_channel :: "chat_epoch \<Rightarrow> chat_channel" where
  "ep_channel e = or_default default_channel (ep_channel_opt e)"

definition mb_channel :: "membership \<Rightarrow> chat_channel" where
  "mb_channel m = or_default default_channel (mb_channel_opt m)"

definition sd_epoch :: "send_chat \<Rightarrow> chat_epoch" where
  "sd_epoch m = or_default default_epoch (sd_epoch_opt m)"

definition cq_link :: "chat_request \<Rightarrow> chat_link" where
  "cq_link m = or_default default_link (cq_link_opt m)"

definition cq_membership :: "chat_request \<Rightarrow> membership" where
  "cq_membership m = or_default default_membership (cq_membership_opt m)"

definition cq_send :: "chat_request \<Rightarrow> send_chat" where
  "cq_send m = or_default default_send (cq_send_opt m)"

section \<open>Validation\<close>

definition chat_counter_max :: u64 where
  "chat_counter_max = 0x7FFFFFFFFFFFFFFF"

definition chat_retry_after_ms_max :: u32 where
  "chat_retry_after_ms_max = 1000"

definition chat_counter :: "u64 \<Rightarrow> bool" where
  "chat_counter v \<longleftrightarrow> v \<noteq> 0 \<and> v \<le> chat_counter_max"

definition valid_kind :: "channel_kind \<Rightarrow> bool" where
  "valid_kind k \<longleftrightarrow> k = Channel_scene \<or> k = Channel_realm"

fun valid_reason :: "reason \<Rightarrow> bool" where
  "valid_reason (Reason_other _) = False"
| "valid_reason _ = True"

definition chat_identity :: "string \<Rightarrow> bool" where
  "chat_identity v \<longleftrightarrow> v \<noteq> [] \<and> length v \<le> 128 \<and> list_all graphic_char v"

definition valid_channel :: "chat_channel \<Rightarrow> bool" where
  "valid_channel m \<longleftrightarrow> ch_realm m \<noteq> 0 \<and> valid_kind (ch_kind m) \<and>
     (if ch_kind m = Channel_scene then ch_shard m = 1 \<or> ch_shard m = 2 else ch_shard m = 0)"

definition same_channel :: "chat_channel \<Rightarrow> chat_channel \<Rightarrow> bool" where
  "same_channel a b \<longleftrightarrow> ch_realm a = ch_realm b \<and> ch_kind a = ch_kind b \<and> ch_shard a = ch_shard b"

definition valid_epoch :: "chat_epoch \<Rightarrow> bool" where
  "valid_epoch m \<longleftrightarrow> ep_channel_opt m \<noteq> None \<and> valid_channel (ep_channel m) \<and> chat_identity (ep_incarnation m)"

definition same_epoch :: "chat_epoch \<Rightarrow> chat_epoch \<Rightarrow> bool" where
  "same_epoch a b \<longleftrightarrow> same_channel (ep_channel a) (ep_channel b) \<and> ep_incarnation a = ep_incarnation b"

definition has_epoch :: "chat_epoch option \<Rightarrow> bool" where
  "has_epoch e \<longleftrightarrow> e \<noteq> None \<and> valid_epoch (or_default default_epoch e)"

definition valid_membership :: "membership \<Rightarrow> bool" where
  "valid_membership m \<longleftrightarrow>
     mb_channel_opt m \<noteq> None \<and> valid_channel (mb_channel m) \<and> mb_character m \<noteq> 0 \<and>
     chat_identity (mb_realm_incarnation m) \<and> mb_session m \<noteq> 0 \<and> chat_counter (mb_generation m) \<and>
     (if ch_kind (mb_channel m) = Channel_scene then chat_counter (mb_scene_epoch m) else mb_scene_epoch m = 0)"

definition valid_receipt :: "receipt \<Rightarrow> bool" where
  "valid_receipt m \<longleftrightarrow> has_epoch (rc_epoch_opt m) \<and> chat_counter (rc_channel_seq m) \<and>
     chat_counter (rc_send_seq m) \<and> rc_send_seq m \<le> rc_channel_seq m"

definition valid_send :: "send_chat \<Rightarrow> u64 \<Rightarrow> bool" where
  "valid_send m request_id \<longleftrightarrow>
     request_id \<noteq> 0 \<and> valid_kind (sd_kind m) \<and> chat_counter (sd_generation m) \<and>
     has_epoch (sd_epoch_opt m) \<and> ch_kind (ep_channel (sd_epoch m)) = sd_kind m \<and>
     chat_counter (sd_seq m) \<and> valid_chat_text (sd_text m)"

definition valid_state_receipt :: "chat_state \<Rightarrow> bool" where
  "valid_state_receipt m \<longleftrightarrow>
     (case kt_last_receipt m of
        None \<Rightarrow> False
      | Some r \<Rightarrow>
          valid_receipt r \<and> rc_send_seq r = kt_last_seq m \<and>
          same_epoch (or_default default_epoch (rc_epoch_opt r)) (or_default default_epoch (kt_epoch_opt m)) \<and>
          kt_watermark m < rc_channel_seq r \<and> kt_last_seq m \<le> rc_channel_seq r - kt_watermark m)"

definition valid_chat_state :: "chat_state \<Rightarrow> u64 \<Rightarrow> bool" where
  "valid_chat_state m request_id \<longleftrightarrow>
     request_id \<noteq> 0 \<and> valid_kind (kt_kind m) \<and> valid_reason (kt_reason m) \<and>
     (if kt_phase m = Chat_unavailable_phase
      then kt_reason m \<noteq> No_reason \<and> kt_generation m = 0 \<and> kt_epoch_opt m = None \<and> kt_watermark m = 0 \<and>
           kt_last_seq m = 0 \<and> kt_last_receipt m = None
      else kt_phase m = Chat_active \<and> kt_reason m = No_reason \<and> chat_counter (kt_generation m) \<and>
           has_epoch (kt_epoch_opt m) \<and>
           ch_kind (ep_channel (or_default default_epoch (kt_epoch_opt m))) = kt_kind m \<and>
           kt_watermark m \<le> chat_counter_max \<and> kt_last_seq m \<le> chat_counter_max \<and>
           (if kt_last_seq m = 0 then kt_last_receipt m = None else valid_state_receipt m))"

definition retried_reason :: "reason \<Rightarrow> bool" where
  "retried_reason r \<longleftrightarrow> r \<in> {Rate_limited, Busy, Resource_limit}"

definition valid_send_result :: "chat_result \<Rightarrow> u64 \<Rightarrow> bool" where
  "valid_send_result m request_id \<longleftrightarrow>
     request_id \<noteq> 0 \<and> valid_kind (sr_kind m) \<and> chat_counter (sr_generation m) \<and> has_epoch (sr_epoch_opt m) \<and>
     ch_kind (ep_channel (or_default default_epoch (sr_epoch_opt m))) = sr_kind m \<and>
     chat_counter (sr_seq m) \<and> valid_reason (sr_reason m) \<and>
     (if sr_outcome m = Accepted
      then sr_reason m = No_reason \<and> sr_retry_ms m = 0 \<and>
           (case sr_receipt m of
              None \<Rightarrow> False
            | Some r \<Rightarrow> valid_receipt r \<and>
                same_epoch (or_default default_epoch (rc_epoch_opt r)) (or_default default_epoch (sr_epoch_opt m)) \<and>
                rc_send_seq r = sr_seq m)
      else sr_receipt m = None \<and>
        (if sr_outcome m = Unknown
         then sr_retry_ms m = 0 \<and> sr_reason m \<in> {Deadline_passed, Outcome_lost, Unavailable}
         else sr_outcome m = Rejected \<and> sr_reason m \<notin> {No_reason, Outcome_lost, Gap} \<and>
              (if retried_reason (sr_reason m)
               then sr_retry_ms m \<noteq> 0 \<and> sr_retry_ms m \<le> chat_retry_after_ms_max
               else sr_retry_ms m = 0)))"

definition valid_chat_message :: "chat_text \<Rightarrow> u64 \<Rightarrow> bool" where
  "valid_chat_message m request_id \<longleftrightarrow>
     request_id = 0 \<and> chat_counter (cm_generation m) \<and> has_epoch (cm_epoch_opt m) \<and>
     chat_counter (cm_seq m) \<and> cm_sender m \<noteq> 0 \<and> valid_chat_text (cm_text m)"

definition valid_link :: "chat_link \<Rightarrow> bool \<Rightarrow> bool" where
  "valid_link m hello \<longleftrightarrow>
     lk_realm m \<noteq> 0 \<and> chat_identity (lk_realm_instance m) \<and> chat_identity (lk_realm_incarnation m) \<and>
     chat_identity (lk_chat_instance m) \<and>
     (if hello then lk_chat_incarnation m = [] \<and> lk_generation m = 0
      else chat_identity (lk_chat_incarnation m) \<and> chat_counter (lk_generation m))"

definition valid_chat_operation :: "chat_operation \<Rightarrow> bool" where
  "valid_chat_operation op \<longleftrightarrow> op \<in> {Hello, Join, Leave, Send, State_query}"

definition valid_chat_status :: "chat_status \<Rightarrow> bool" where
  "valid_chat_status s \<longleftrightarrow>
     s \<in> {Chat_ok, Chat_invalid, Stale_link, Chat_stale_membership, Forbidden, Chat_busy, Chat_unavailable}"

definition matches_link :: "membership \<Rightarrow> chat_link \<Rightarrow> bool" where
  "matches_link m l \<longleftrightarrow> valid_membership m \<and> ch_realm (mb_channel m) = lk_realm l \<and>
     mb_realm_incarnation m = lk_realm_incarnation l"

definition matches_epoch :: "chat_epoch \<Rightarrow> membership \<Rightarrow> chat_link \<Rightarrow> bool" where
  "matches_epoch e m l \<longleftrightarrow> same_channel (ep_channel e) (mb_channel m) \<and> ep_incarnation e = lk_chat_incarnation l"

definition valid_chat_request :: "chat_request \<Rightarrow> u64 \<Rightarrow> bool" where
  "valid_chat_request m request_id \<longleftrightarrow>
     request_id \<noteq> 0 \<and> valid_chat_operation (cq_operation m) \<and> cq_link_opt m \<noteq> None \<and>
     valid_link (cq_link m) (cq_operation m = Hello) \<and>
     (if cq_operation m = Hello then cq_membership_opt m = None \<and> cq_send_opt m = None
      else cq_membership_opt m \<noteq> None \<and> matches_link (cq_membership m) (cq_link m) \<and>
       (if cq_operation m \<noteq> Send then cq_send_opt m = None
        else cq_send_opt m \<noteq> None \<and> valid_send (cq_send m) request_id \<and>
             sd_generation (cq_send m) = mb_generation (cq_membership m) \<and>
             matches_epoch (sd_epoch (cq_send m)) (cq_membership m) (cq_link m)))"

definition valid_reply_body :: "chat_reply \<Rightarrow> u64 \<Rightarrow> chat_link \<Rightarrow> membership \<Rightarrow> bool" where
  "valid_reply_body m request_id l member \<longleftrightarrow>
     matches_link member l \<and>
     (if cp_operation m = Leave then cp_state_opt m = None \<and> cp_result_opt m = None
      else if cp_operation m = Send
      then cp_state_opt m = None \<and>
           (case cp_result_opt m of
              None \<Rightarrow> False
            | Some r \<Rightarrow> valid_send_result r request_id \<and> sr_generation r = mb_generation member \<and>
                matches_epoch (or_default default_epoch (sr_epoch_opt r)) member l)
      else cp_result_opt m = None \<and>
           (case cp_state_opt m of
              None \<Rightarrow> False
            | Some s \<Rightarrow> valid_chat_state s request_id \<and> kt_phase s = Chat_active \<and>
                kt_generation s = mb_generation member \<and>
                matches_epoch (or_default default_epoch (kt_epoch_opt s)) member l))"

definition valid_chat_reply :: "chat_reply \<Rightarrow> u64 \<Rightarrow> bool" where
  "valid_chat_reply m request_id \<longleftrightarrow>
     request_id \<noteq> 0 \<and> valid_chat_operation (cp_operation m) \<and> valid_chat_status (cp_status m) \<and>
     (case cp_link_opt m of
        None \<Rightarrow> False
      | Some l \<Rightarrow>
          valid_link l (cp_operation m = Hello \<and> cp_status m \<noteq> Chat_ok) \<and>
          (if cp_status m \<noteq> Chat_ok \<or> cp_operation m = Hello
           then cp_membership_opt m = None \<and> cp_state_opt m = None \<and> cp_result_opt m = None
           else case cp_membership_opt m of
                  None \<Rightarrow> False
                | Some member \<Rightarrow> valid_reply_body m request_id l member))"

definition valid_chat_push :: "chat_push \<Rightarrow> u64 \<Rightarrow> bool" where
  "valid_chat_push m request_id \<longleftrightarrow>
     request_id = 0 \<and>
     (case (cx_link_opt m, cx_membership_opt m, cx_message_opt m) of
        (Some l, Some member, Some t) \<Rightarrow>
          valid_link l False \<and> matches_link member l \<and> valid_chat_message t 0 \<and>
          cm_generation t = mb_generation member \<and>
          matches_epoch (or_default default_epoch (cm_epoch_opt t)) member l
      | _ \<Rightarrow> False)"

section \<open>Codecs\<close>

datatype chat_client_message =
  Get_chat_state channel_kind
| Chat_state_message chat_state
| Send_chat_message send_chat
| Chat_send_result chat_result
| Chat_text_message chat_text
| Chat_unavailable_message channel_kind reason bool

fun chat_client_kind :: "chat_client_message \<Rightarrow> u32" where
  "chat_client_kind (Get_chat_state _) = 1701"
| "chat_client_kind (Chat_state_message _) = 1702"
| "chat_client_kind (Send_chat_message _) = 1703"
| "chat_client_kind (Chat_send_result _) = 1704"
| "chat_client_kind (Chat_text_message _) = 1705"
| "chat_client_kind (Chat_unavailable_message _ _ _) = 1706"

fun valid_client_message :: "chat_client_message \<Rightarrow> u64 \<Rightarrow> bool" where
  "valid_client_message (Get_chat_state k) request_id = (request_id \<noteq> 0 \<and> valid_kind k)"
| "valid_client_message (Chat_state_message m) request_id = valid_chat_state m request_id"
| "valid_client_message (Send_chat_message m) request_id = valid_send m request_id"
| "valid_client_message (Chat_send_result m) request_id = valid_send_result m request_id"
| "valid_client_message (Chat_text_message m) request_id = valid_chat_message m request_id"
| "valid_client_message (Chat_unavailable_message k r _) request_id =
     (request_id = 0 \<and> valid_kind k \<and> valid_reason r \<and> r \<noteq> No_reason)"

datatype chat_internal_message =
  Chat_request_message chat_request | Chat_reply_message chat_reply | Chat_push_message chat_push

fun chat_internal_kind :: "chat_internal_message \<Rightarrow> u32" where
  "chat_internal_kind (Chat_request_message _) = 1801"
| "chat_internal_kind (Chat_reply_message _) = 1802"
| "chat_internal_kind (Chat_push_message _) = 1803"

fun valid_chat_internal :: "chat_internal_message \<Rightarrow> u64 \<Rightarrow> bool" where
  "valid_chat_internal (Chat_request_message m) request_id = valid_chat_request m request_id"
| "valid_chat_internal (Chat_reply_message m) request_id = valid_chat_reply m request_id"
| "valid_chat_internal (Chat_push_message m) request_id = valid_chat_push m request_id"

definition encode_chat :: "'m wire \<Rightarrow> 'm \<Rightarrow> u32 \<Rightarrow> u64 \<Rightarrow> ('m \<Rightarrow> u64 \<Rightarrow> bool) \<Rightarrow> error + u8 list" where
  "encode_chat = encode_checked ''invalid chat message'' ''chat envelope exceeds 64KiB''"

definition decode_chat :: "'m wire \<Rightarrow> u8 list \<Rightarrow> u32 \<Rightarrow> ('m \<Rightarrow> u64 \<Rightarrow> bool) \<Rightarrow> 'm option" where
  "decode_chat = decode_checked"

definition chat_message_id :: "envelope_codec \<Rightarrow> u8 list \<Rightarrow> u32 option" where
  "chat_message_id E payload = ranged_message_id E 1701 1706 payload"

definition chat_request_id :: "envelope_codec \<Rightarrow> u8 list \<Rightarrow> u64 option" where
  "chat_request_id E payload = ranged_request_id E 1701 1706 payload"

definition chat_internal_message_id :: "envelope_codec \<Rightarrow> u8 list \<Rightarrow> u32 option" where
  "chat_internal_message_id E payload = ranged_message_id E 1801 1803 payload"

definition chat_internal_request_id :: "envelope_codec \<Rightarrow> u8 list \<Rightarrow> u64 option" where
  "chat_internal_request_id E payload = ranged_request_id E 1801 1803 payload"

definition encode_chat_client :: "chat_client_message wire \<Rightarrow> chat_client_message \<Rightarrow> u64 \<Rightarrow> error + u8 list" where
  "encode_chat_client W m request_id = encode_chat W m (chat_client_kind m) request_id valid_client_message"

definition decode_chat_client :: "chat_client_message wire \<Rightarrow> u32 \<Rightarrow> u8 list \<Rightarrow> chat_client_message option" where
  "decode_chat_client W number payload = decode_chat W payload number valid_client_message"

definition encode_chat_internal ::
  "chat_internal_message wire \<Rightarrow> chat_internal_message \<Rightarrow> u64 \<Rightarrow> error + u8 list" where
  "encode_chat_internal W m request_id = encode_chat W m (chat_internal_kind m) request_id valid_chat_internal"

definition decode_chat_internal ::
  "chat_internal_message wire \<Rightarrow> u32 \<Rightarrow> u8 list \<Rightarrow> chat_internal_message option" where
  "decode_chat_internal W number payload = decode_chat W payload number valid_chat_internal"

section \<open>The chat protocols meet the interface\<close>

text \<open>Every text of a valid message is visible ASCII.\<close>

lemma chat_identity_utf8: "chat_identity s \<Longrightarrow> utf8_text s"
  by (rule ascii_utf8) (auto simp: chat_identity_def graphic_char_def list_all_iff)

definition epoch_text :: "chat_epoch option \<Rightarrow> bool" where
  "epoch_text e \<longleftrightarrow> (\<forall>x \<in> set_option e. utf8_text (ep_incarnation x))"

definition receipt_text :: "receipt option \<Rightarrow> bool" where
  "receipt_text r \<longleftrightarrow> (\<forall>x \<in> set_option r. epoch_text (rc_epoch_opt x))"

definition state_text :: "chat_state \<Rightarrow> bool" where
  "state_text m \<longleftrightarrow> epoch_text (kt_epoch_opt m) \<and> receipt_text (kt_last_receipt m)"

definition result_text :: "chat_result \<Rightarrow> bool" where
  "result_text m \<longleftrightarrow> epoch_text (sr_epoch_opt m) \<and> receipt_text (sr_receipt m)"

definition link_text :: "chat_link option \<Rightarrow> bool" where
  "link_text l \<longleftrightarrow> (\<forall>x \<in> set_option l. utf8_text (lk_realm_instance x) \<and> utf8_text (lk_realm_incarnation x) \<and>
     utf8_text (lk_chat_instance x) \<and> utf8_text (lk_chat_incarnation x))"

definition membership_text :: "membership option \<Rightarrow> bool" where
  "membership_text m \<longleftrightarrow> (\<forall>x \<in> set_option m. utf8_text (mb_realm_incarnation x))"

fun chat_client_texts_ok :: "chat_client_message \<Rightarrow> bool" where
  "chat_client_texts_ok (Chat_state_message m) = state_text m"
| "chat_client_texts_ok (Send_chat_message m) = epoch_text (sd_epoch_opt m)"
| "chat_client_texts_ok (Chat_send_result m) = result_text m"
| "chat_client_texts_ok (Chat_text_message m) = epoch_text (cm_epoch_opt m)"
| "chat_client_texts_ok _ = True"

fun chat_internal_texts_ok :: "chat_internal_message \<Rightarrow> bool" where
  "chat_internal_texts_ok (Chat_request_message m) =
     (link_text (cq_link_opt m) \<and> membership_text (cq_membership_opt m) \<and>
      (\<forall>x \<in> set_option (cq_send_opt m). epoch_text (sd_epoch_opt x)))"
| "chat_internal_texts_ok (Chat_reply_message m) =
     (link_text (cp_link_opt m) \<and> membership_text (cp_membership_opt m) \<and>
      (\<forall>x \<in> set_option (cp_state_opt m). state_text x) \<and> (\<forall>x \<in> set_option (cp_result_opt m). result_text x))"
| "chat_internal_texts_ok (Chat_push_message m) =
     (link_text (cx_link_opt m) \<and> membership_text (cx_membership_opt m) \<and>
      (\<forall>x \<in> set_option (cx_message_opt m). epoch_text (cm_epoch_opt x)))"

lemma has_epoch_text: "has_epoch e \<Longrightarrow> epoch_text e"
  by (auto simp: has_epoch_def epoch_text_def valid_epoch_def intro: chat_identity_utf8)

lemma epoch_text_None [simp]: "epoch_text None" "receipt_text None" "membership_text None"
  by (simp_all add: epoch_text_def receipt_text_def membership_text_def)

lemma valid_receipt_text: "valid_receipt r \<Longrightarrow> receipt_text (Some r)"
  by (simp add: valid_receipt_def receipt_text_def has_epoch_text)

lemma valid_state_text:
  assumes "valid_chat_state m r"
  shows "state_text m"
proof (cases "kt_phase m = Chat_unavailable_phase")
  case True
  then show ?thesis using assms by (simp add: valid_chat_state_def state_text_def)
next
  case False
  with assms have e: "has_epoch (kt_epoch_opt m)" by (simp add: valid_chat_state_def)
  have "kt_last_receipt m = None \<or> valid_state_receipt m"
    using assms False by (simp add: valid_chat_state_def split: if_splits)
  then have "receipt_text (kt_last_receipt m)"
    by (cases "kt_last_receipt m") (simp_all add: valid_state_receipt_def valid_receipt_text)
  with has_epoch_text [OF e] show ?thesis by (simp add: state_text_def)
qed

lemma valid_result_text:
  assumes "valid_send_result m r"
  shows "result_text m"
proof -
  have e: "has_epoch (sr_epoch_opt m)" using assms by (simp add: valid_send_result_def)
  have "receipt_text (sr_receipt m)"
  proof (cases "sr_receipt m")
    case (Some x)
    then have "valid_receipt x" using assms by (simp add: valid_send_result_def split: if_splits)
    then show ?thesis by (simp add: Some valid_receipt_text)
  qed simp
  with has_epoch_text [OF e] show ?thesis by (simp add: result_text_def)
qed

lemma valid_link_text: "valid_link l hello \<Longrightarrow> link_text (Some l)"
  by (auto simp: valid_link_def link_text_def chat_identity_utf8 split: if_splits)

lemma matches_link_text: "matches_link m l \<Longrightarrow> membership_text (Some m)"
  by (auto simp: matches_link_def valid_membership_def membership_text_def intro: chat_identity_utf8)

lemma chat_client_texts: "valid_client_message m r \<Longrightarrow> chat_client_texts_ok m"
  by (cases m) (auto simp: valid_send_def valid_chat_message_def
      intro: valid_state_text valid_result_text has_epoch_text)

lemma chat_internal_texts:
  assumes "valid_chat_internal m r"
  shows "chat_internal_texts_ok m"
proof (cases m)
  case (Chat_request_message x)
  with assms have v: "valid_chat_request x r" by simp
  then obtain l where "cq_link_opt x = Some l" by (auto simp: valid_chat_request_def)
  with v have l: "link_text (cq_link_opt x)" by (auto simp: valid_chat_request_def cq_link_def intro: valid_link_text)
  have "membership_text (cq_membership_opt x)"
    using v by (cases "cq_membership_opt x")
      (auto simp: valid_chat_request_def cq_membership_def intro: matches_link_text split: if_splits)
  moreover have "\<forall>y \<in> set_option (cq_send_opt x). epoch_text (sd_epoch_opt y)"
    using v by (cases "cq_send_opt x")
      (auto simp: valid_chat_request_def cq_send_def valid_send_def intro: has_epoch_text split: if_splits)
  ultimately show ?thesis using l Chat_request_message by simp
next
  case (Chat_reply_message x)
  with assms have v: "valid_chat_reply x r" by simp
  then obtain l where l: "cp_link_opt x = Some l" "link_text (Some l)"
    by (auto simp: valid_chat_reply_def intro: valid_link_text split: option.splits)
  show ?thesis
  proof (cases "cp_membership_opt x")
    case None
    with v l have "cp_state_opt x = None \<and> cp_result_opt x = None"
      by (auto simp: valid_chat_reply_def split: if_splits)
    with None l Chat_reply_message show ?thesis by simp
  next
    case (Some member)
    with v l have b: "valid_reply_body x r l member"
      by (auto simp: valid_chat_reply_def split: if_splits)
    have "\<forall>y \<in> set_option (cp_state_opt x). state_text y"
      using b by (cases "cp_state_opt x") (auto simp: valid_reply_body_def intro: valid_state_text split: if_splits)
    moreover have "\<forall>y \<in> set_option (cp_result_opt x). result_text y"
      using b by (cases "cp_result_opt x") (auto simp: valid_reply_body_def intro: valid_result_text split: if_splits)
    moreover have "membership_text (Some member)"
      using b by (auto simp: valid_reply_body_def intro: matches_link_text)
    ultimately show ?thesis using Some l Chat_reply_message by simp
  qed
next
  case (Chat_push_message x)
  with assms show ?thesis
    by (auto simp: valid_chat_push_def valid_chat_message_def intro: valid_link_text matches_link_text has_epoch_text
        split: option.splits)
qed

lemma chat_client_kind_range: "1701 \<le> chat_client_kind m \<and> chat_client_kind m \<le> 1706"
  by (cases m) simp_all

lemma chat_internal_kind_range: "1801 \<le> chat_internal_kind m \<and> chat_internal_kind m \<le> 1803"
  by (cases m) simp_all

interpretation chat_client: message_protocol chat_client_kind "wire_laws chat_client_kind chat_client_texts_ok"
  "\<lambda>_. True" "{1701..1706}" encode_chat_client decode_chat_client chat_message_id chat_request_id
proof unfold_locales
  fix W :: "chat_client_message wire" and m r bytes
  assume W: "wire_laws chat_client_kind chat_client_texts_ok W" and e: "encode_chat_client W m r = Inr bytes"
  have "chat_client_texts_ok m"
    using e chat_client_texts by (auto simp: encode_chat_client_def encode_chat_def encode_checked_Inr)
  then show "decode_chat_client W (chat_client_kind m) bytes = Some m"
    using decode_checked_encoded [OF W] e
    by (simp add: decode_chat_client_def encode_chat_client_def encode_chat_def decode_chat_def)
  show "chat_message_id (fst W) bytes = Some (chat_client_kind m) \<and> chat_request_id (fst W) bytes = Some r"
    using ranged_encoded [OF W] e chat_client_kind_range
    by (simp add: encode_chat_client_def encode_chat_def chat_message_id_def chat_request_id_def)
qed (auto simp: decode_chat_client_def decode_chat_def chat_message_id_def intro: checked_kind dest: ranged_number)

interpretation chat_internal: message_protocol chat_internal_kind "wire_laws chat_internal_kind chat_internal_texts_ok"
  "\<lambda>_. True" "{1801..1803}" encode_chat_internal decode_chat_internal chat_internal_message_id chat_internal_request_id
proof unfold_locales
  fix W :: "chat_internal_message wire" and m r bytes
  assume W: "wire_laws chat_internal_kind chat_internal_texts_ok W" and e: "encode_chat_internal W m r = Inr bytes"
  have "chat_internal_texts_ok m"
    using e chat_internal_texts by (auto simp: encode_chat_internal_def encode_chat_def encode_checked_Inr)
  then show "decode_chat_internal W (chat_internal_kind m) bytes = Some m"
    using decode_checked_encoded [OF W] e
    by (simp add: decode_chat_internal_def encode_chat_internal_def encode_chat_def decode_chat_def)
  show "chat_internal_message_id (fst W) bytes = Some (chat_internal_kind m) \<and>
      chat_internal_request_id (fst W) bytes = Some r"
    using ranged_encoded [OF W] e chat_internal_kind_range
    by (simp add: encode_chat_internal_def encode_chat_def chat_internal_message_id_def chat_internal_request_id_def)
qed (auto simp: decode_chat_internal_def decode_chat_def chat_internal_message_id_def
    intro: checked_kind dest: ranged_number)

section \<open>All protocols\<close>

lemma one_claim:
  fixes d :: nat
  assumes "a \<noteq> None \<Longrightarrow> d \<in> {11, 13, 19}" "b \<noteq> None \<Longrightarrow> d = 14" "c \<noteq> None \<Longrightarrow> d = 15"
    "e \<noteq> None \<Longrightarrow> d = 16" "f \<noteq> None \<Longrightarrow> d = 17" "g \<noteq> None \<Longrightarrow> d = 18"
  shows "length (filter (\<lambda>claim. claim \<noteq> None) [a, b, c, e, f, g]) \<le> 1"
  by (cases a; cases b; cases c; cases e; cases f; cases g; use assms in simp)

lemma number_group:
  fixes k :: u32
  assumes "lo \<le> k" "k \<le> hi"
  shows "unat lo div 100 \<le> unat k div 100 \<and> unat k div 100 \<le> unat hi div 100"
  using assms by (simp add: word_le_nat_alt div_le_mono)

text \<open>
  Whatever bytes arrive, at most one of the six protocols recognises them as its own: the receivers that
  try one protocol after the other dispatch the same message in every order.
\<close>

lemma protocols_disjoint:
  "length (filter (\<lambda>claim. claim \<noteq> None)
     [edge_message_id E bytes, realm_message_id E bytes, scene_message_id E bytes,
      scene_internal_message_id E bytes, chat_message_id E bytes, chat_internal_message_id E bytes]) \<le> 1"
proof (cases "parse_envelope E bytes")
  case None
  then show ?thesis
    by (simp add: edge_message_id_def parse_edge_envelope_def realm_message_id_def parse_realm_envelope_def
        scene_message_id_def scene_internal_message_id_def chat_message_id_def chat_internal_message_id_def
        ranged_message_id_def)
next
  case (Some e)
  have ranged: "unat (ev_message_id e) div 100 = n"
    if "ranged_message_id E first final bytes \<noteq> None" "unat first div 100 = n" "unat final div 100 = n" for first final n
    using that Some number_group [of first "ev_message_id e" final] by (auto dest!: ranged_number)
  show ?thesis
  proof (rule one_claim [where d = "unat (ev_message_id e) div 100"])
    assume "edge_message_id E bytes \<noteq> None"
    then have "ev_message_id e \<in> {1105, 1106, 1301, 1302, 1303, 1304, 1305, 1999}"
      using Some by (auto simp: edge_message_id_def parse_edge_envelope_def is_known_message_id_def split: if_splits)
    then show "unat (ev_message_id e) div 100 \<in> {11, 13, 19}" by auto
  next
    assume "realm_message_id E bytes \<noteq> None"
    then have "ev_message_id e \<in> {1401, 1402, 1403, 1404, 1405, 1406, 1407, 1408, 1409}"
      using Some by (auto simp: realm_message_id_def parse_realm_envelope_def is_realm_message_id_def split: if_splits)
    then show "unat (ev_message_id e) div 100 = 14" by auto
  qed (auto simp: scene_message_id_def scene_internal_message_id_def chat_message_id_def
      chat_internal_message_id_def intro!: ranged)
qed

text \<open>A message that an encoder of one of the six protocols has sealed is recognised by that protocol,
  under its own number and with the number of the request, and its decoder gives back the very message: with a
  protobuf that reads back what it has written, nothing that passes the validation of an encoder is refused by
  the decoder.
\<close>

lemma messages_arrive:
  "(wire_laws edge_kind edge_texts_ok W1 \<and> edge_texts_ok m1 \<and> encode_edge W1 m1 r = Inr bytes \<and> length bytes \<le> int_max \<longrightarrow>
      edge_message_id (fst W1) bytes = Some (edge_kind m1) \<and> edge_request_id (fst W1) bytes = Some r \<and>
      decode_edge W1 (edge_kind m1) bytes = Some m1) \<and>
   (wire_laws realm_kind realm_texts_ok W2 \<and> realm_texts_ok m2 \<and> encode_realm W2 m2 r = Inr bytes \<and> length bytes \<le> int_max \<longrightarrow>
      realm_message_id (fst W2) bytes = Some (realm_kind m2) \<and> realm_request_id (fst W2) bytes = Some r \<and>
      decode_realm W2 (realm_kind m2) bytes = Some m2) \<and>
   (wire_laws scene_kind scene_texts_ok W3 \<and> encode_scene W3 m3 r = Inr bytes \<and> length bytes \<le> int_max \<longrightarrow>
      scene_message_id (fst W3) bytes = Some (scene_kind m3) \<and> scene_request_id (fst W3) bytes = Some r \<and>
      decode_scene W3 (scene_kind m3) bytes = Some m3) \<and>
   (wire_laws scene_internal_kind scene_internal_texts_ok W4 \<and> encode_scene_internal W4 m4 r = Inr bytes \<and> length bytes \<le> int_max \<longrightarrow>
      scene_internal_message_id (fst W4) bytes = Some (scene_internal_kind m4) \<and> scene_internal_request_id (fst W4) bytes = Some r \<and>
      decode_scene_internal W4 (scene_internal_kind m4) bytes = Some m4) \<and>
   (wire_laws chat_client_kind chat_client_texts_ok W5 \<and> encode_chat_client W5 m5 r = Inr bytes \<and> length bytes \<le> int_max \<longrightarrow>
      chat_message_id (fst W5) bytes = Some (chat_client_kind m5) \<and> chat_request_id (fst W5) bytes = Some r \<and>
      decode_chat_client W5 (chat_client_kind m5) bytes = Some m5) \<and>
   (wire_laws chat_internal_kind chat_internal_texts_ok W6 \<and> encode_chat_internal W6 m6 r = Inr bytes \<and> length bytes \<le> int_max \<longrightarrow>
      chat_internal_message_id (fst W6) bytes = Some (chat_internal_kind m6) \<and> chat_internal_request_id (fst W6) bytes = Some r \<and>
      decode_chat_internal W6 (chat_internal_kind m6) bytes = Some m6)"
  using edge.sealed_claimed [of W1 m1 r bytes] edge.sealed_opens [of W1 m1 r bytes]
    realm.sealed_claimed [of W2 m2 r bytes] realm.sealed_opens [of W2 m2 r bytes]
    scene.sealed_claimed [of W3 m3 r bytes] scene.sealed_opens [of W3 m3 r bytes]
    scene_internal.sealed_claimed [of W4 m4 r bytes] scene_internal.sealed_opens [of W4 m4 r bytes]
    chat_client.sealed_claimed [of W5 m5 r bytes] chat_client.sealed_opens [of W5 m5 r bytes]
    chat_internal.sealed_claimed [of W6 m6 r bytes] chat_internal.sealed_opens [of W6 m6 r bytes]
  by simp

text \<open>A codec that knows one message.\<close>

definition one_envelope :: "u32 \<Rightarrow> u64 \<Rightarrow> envelope_codec" where
  "one_envelope k r =
     (let e = \<lparr>ev_version = edge_protocol_version, ev_message_id = k, ev_request_id = r, ev_payload = [7]\<rparr>
      in \<lparr>ec_serialize = (\<lambda>x. if x = e then Some [8, 7] else None),
          ec_parse = (\<lambda>b. if b = [8, 7] then Some e else None)\<rparr>)"

definition one_message_wire :: "('m \<Rightarrow> u32) \<Rightarrow> 'm \<Rightarrow> u64 \<Rightarrow> 'm wire" where
  "one_message_wire kind m r =
     (one_envelope (kind m) r,
      \<lparr>pb_serialize = (\<lambda>x. if x = m then Some [7] else None),
       pb_parse = (\<lambda>k b. if k = kind m \<and> b = [7] then Some m else None), pb_byte_size = (\<lambda>_. 1)\<rparr>)"

lemma one_message_laws: "wire_laws kind text_ok (one_message_wire kind m r)"
  by (auto simp: wire_laws_def envelope_laws_def protobuf_laws_def one_message_wire_def one_envelope_def Let_def
      split: if_splits)

lemma one_message_sealed: "encode_message (one_message_wire kind m r) m (kind m) r = Inr [8, 7]"
  by (simp add: encode_message_def one_message_wire_def one_envelope_def Let_def)

lemma one_message_checked:
  "validator m r \<Longrightarrow> encode_checked a b (one_message_wire kind m r) m (kind m) r validator = Inr [8, 7]"
  by (simp add: encode_checked_Inr one_message_sealed) (simp add: one_message_wire_def envelope_max_def)

lemma messages_arrive_witness:
  "decode_edge (one_message_wire edge_kind (Enter_realm_accepted 5) 3) 1305 [8, 7] = Some (Enter_realm_accepted 5) \<and>
   decode_realm (one_message_wire realm_kind (Select_character 6) 3) 1405 [8, 7] = Some (Select_character 6) \<and>
   decode_scene (one_message_wire scene_kind (Enter_scene 7) 3) 1501 [8, 7] = Some (Enter_scene 7) \<and>
   decode_chat_client (one_message_wire chat_client_kind (Get_chat_state Channel_realm) 3) 1701 [8, 7] =
     Some (Get_chat_state Channel_realm) \<and>
   edge_request_id (fst (one_message_wire edge_kind (Enter_realm_accepted 5) 3)) [8, 7] = Some 3"
  using messages_arrive
    [of "one_message_wire edge_kind (Enter_realm_accepted 5) 3" "Enter_realm_accepted 5" 3 "[8, 7]"
      "one_message_wire realm_kind (Select_character 6) 3" "Select_character 6"
      "one_message_wire scene_kind (Enter_scene 7) 3" "Enter_scene 7" undefined undefined
      "one_message_wire chat_client_kind (Get_chat_state Channel_realm) 3" "Get_chat_state Channel_realm"]
  by (simp add: one_message_laws encode_edge_def encode_realm_def one_message_sealed int_max_def
      one_message_sealed [of edge_kind "Enter_realm_accepted 5", simplified]
      one_message_sealed [of realm_kind "Select_character 6", simplified]
      encode_scene_def encode_scene_message_def encode_chat_client_def encode_chat_def
      one_message_checked [of valid_scene_message "Enter_scene 7" 3 _ _ scene_kind, simplified]
      one_message_checked [of valid_client_message "Get_chat_state Channel_realm" 3 _ _ chat_client_kind, simplified]
      scene_counter_def scene_counter_max_def valid_kind_def)

end
