(* ===== verification/Chat_Channels.thy ===== *)
theory Chat_Channels
  imports Chat_Messages Ordered_Map Double_Arith
begin

text \<open>
  The channels of one chat instance (\<open>game/chat/src/chat_channels.cpp\<close>): the links of the realms with
  their queued requests, the members of each channel, the replies and pushes that wait to be sent. One
  thread owns the state. Reading the link of a member's connection can fail in the code (an exception, or
  an empty optional); both are the left side here, and never happen. Tokens are doubles, rounded
  as \<open>Double_Arith\<close> says. Memory sizes and counts are natural numbers.
\<close>

section \<open>State\<close>

record chat_config =
  cg_realm :: u32
  cg_realm_instance :: string
  cg_realm_identity :: string
  cg_channels :: "u64 list"
  cg_pending_requests :: nat
  cg_queued_per_link :: nat
  cg_pending_pushes :: nat
  cg_pending_push_bytes :: nat
  cg_timeout_ms :: nat

definition validate_chat_config :: "chat_config \<Rightarrow> bool" where
  "validate_chat_config c \<longleftrightarrow>
     cg_realm c \<noteq> 0 \<and> chat_identity (cg_realm_instance c) \<and> chat_identity (cg_realm_identity c) \<and>
     cg_channels c \<noteq> [] \<and> length (cg_channels c) \<le> 3 \<and> distinct (cg_channels c) \<and>
     list_all (\<lambda>shard. shard \<le> 2) (cg_channels c) \<and>
     0 < cg_pending_requests c \<and> cg_pending_requests c \<le> 64 \<and>
     0 < cg_queued_per_link c \<and> cg_queued_per_link c \<le> 8 \<and>
     0 < cg_pending_pushes c \<and> cg_pending_pushes c \<le> 1024 \<and>
     0 < cg_pending_push_bytes c \<and> cg_pending_push_bytes c \<le> 4 * 1024 * 1024 \<and>
     0 < cg_timeout_ms c \<and> cg_timeout_ms c \<le> 1000"

record pending_request =
  pn_request :: chat_request
  pn_id :: u64
  pn_deadline :: time_point

record link_state =
  ls_link :: "chat_link option"
  ls_highest :: u64
  ls_requests :: "pending_request list"

record chat_member =
  mm_peer :: u64
  mm_membership :: membership
  mm_state :: chat_state
  mm_last_text :: string
  mm_tokens :: rat
  mm_refill :: time_point

record channel_state =
  cc_epoch :: chat_epoch
  cc_seq :: u64
  cc_members :: "(u64 \<times> chat_member) list"

record pending_push =
  qp_peer :: u64
  qp_membership :: membership
  qp_payload :: "u8 list"

record outgoing_reply =
  og_peer :: u64
  og_id :: u64
  og_message :: chat_reply
  og_age :: duration

record chat_stats =
  cn_accepted :: u64
  cn_rejected :: u64
  cn_replayed :: u64
  cn_queue_rejected :: u64
  cn_expired :: u64
  cn_rate_rejected :: u64
  cn_stale_rejected :: u64
  cn_resource_rejected :: u64

record chat_channels =
  hc_config :: chat_config
  hc_instance :: string
  hc_incarnation :: string
  hc_channels :: "(u64 \<times> channel_state) list"
  hc_links :: "(u64 \<times> link_state) list"
  hc_replies :: "outgoing_reply list"
  hc_pushes :: "pending_push list"
  hc_closed :: "u64 list"
  hc_pending :: nat
  hc_push_bytes :: nat
  hc_link_generation :: u64
  hc_next_peer :: u64
  hc_stats :: chat_stats

definition milliseconds :: "nat \<Rightarrow> duration" where
  "milliseconds n = int n * 1000000"

section \<open>Identities\<close>

definition same_member :: "membership \<Rightarrow> membership \<Rightarrow> bool" where
  "same_member a b \<longleftrightarrow>
     same_channel (mb_channel a) (mb_channel b) \<and> mb_character a = mb_character b \<and>
     mb_realm_incarnation a = mb_realm_incarnation b \<and> mb_session a = mb_session b \<and>
     mb_generation a = mb_generation b \<and> mb_scene_epoch a = mb_scene_epoch b"

definition same_link :: "chat_link \<Rightarrow> chat_link \<Rightarrow> bool" where
  "same_link a b \<longleftrightarrow>
     lk_realm a = lk_realm b \<and> lk_realm_instance a = lk_realm_instance b \<and>
     lk_realm_incarnation a = lk_realm_incarnation b \<and> lk_chat_instance a = lk_chat_instance b \<and>
     lk_chat_incarnation a = lk_chat_incarnation b \<and> lk_generation a = lk_generation b"

text \<open>Copies of the known fields: sub-messages of the copy are present even where the source had none.\<close>

definition known_membership :: "membership \<Rightarrow> membership" where
  "known_membership m = m\<lparr>mb_channel_opt := Some (mb_channel m)\<rparr>"

definition known_send :: "send_chat \<Rightarrow> send_chat" where
  "known_send s = s\<lparr>sd_epoch_opt :=
     Some \<lparr>ep_channel_opt = Some (ep_channel (sd_epoch s)), ep_incarnation = ep_incarnation (sd_epoch s)\<rparr>\<rparr>"

definition known_request :: "chat_request \<Rightarrow> chat_request" where
  "known_request r =
     \<lparr>cq_link_opt = Some (cq_link r), cq_operation = cq_operation r,
      cq_membership_opt = map_option known_membership (cq_membership_opt r),
      cq_send_opt = map_option known_send (cq_send_opt r)\<rparr>"

definition reply_to :: "chat_request \<Rightarrow> chat_status \<Rightarrow> chat_reply" where
  "reply_to r status_code =
     \<lparr>cp_link_opt = Some (cq_link (known_request r)), cp_operation = cq_operation r, cp_status = status_code,
      cp_membership_opt = None, cp_state_opt = None, cp_result_opt = None\<rparr>"

section \<open>Construction\<close>

definition channel_identity :: "chat_config \<Rightarrow> u64 \<Rightarrow> chat_channel" where
  "channel_identity c shard =
     \<lparr>ch_realm = cg_realm c, ch_kind = (if shard = 0 then Channel_realm else Channel_scene), ch_shard = shard\<rparr>"

definition new_channel :: "chat_config \<Rightarrow> string \<Rightarrow> u64 \<Rightarrow> channel_state" where
  "new_channel c incarnation shard =
     \<lparr>cc_epoch = \<lparr>ep_channel_opt = Some (channel_identity c shard), ep_incarnation = incarnation\<rparr>,
      cc_seq = 0, cc_members = []\<rparr>"

definition validation_probe :: "chat_config \<Rightarrow> string \<Rightarrow> string \<Rightarrow> chat_reply" where
  "validation_probe c instance_id incarnation =
     \<lparr>cp_link_opt = Some
        \<lparr>lk_realm = cg_realm c, lk_realm_instance = cg_realm_instance c,
         lk_realm_incarnation = ''validation'', lk_chat_instance = instance_id,
         lk_chat_incarnation = incarnation, lk_generation = 1\<rparr>,
      cp_operation = Hello, cp_status = Chat_ok, cp_membership_opt = None, cp_state_opt = None,
      cp_result_opt = None\<rparr>"

definition new_chat_channels ::
  "chat_internal_message wire \<Rightarrow> chat_config \<Rightarrow> string \<Rightarrow> string \<Rightarrow> error + chat_channels" where
  "new_chat_channels W c instance_id incarnation =
     (if \<not> validate_chat_config c then Inl (Invalid_argument ''invalid bounded Chat configuration'')
      else case encode_chat_internal W (Chat_reply_message (validation_probe c instance_id incarnation)) 1 of
             Inl e \<Rightarrow> Inl e
           | Inr _ \<Rightarrow> Inr
               \<lparr>hc_config = c, hc_instance = instance_id, hc_incarnation = incarnation,
                hc_channels = fold (\<lambda>shard. map_put shard (new_channel c incarnation shard)) (cg_channels c) [],
                hc_links = [], hc_replies = [], hc_pushes = [], hc_closed = [], hc_pending = 0,
                hc_push_bytes = 0, hc_link_generation = 0, hc_next_peer = 0,
                hc_stats = \<lparr>cn_accepted = 0, cn_rejected = 0, cn_replayed = 0, cn_queue_rejected = 0,
                  cn_expired = 0, cn_rate_rejected = 0, cn_stale_rejected = 0, cn_resource_rejected = 0\<rparr>\<rparr>)"

definition next_counter :: "u64 \<Rightarrow> u64 option" where
  "next_counter v = (if chat_counter_max \<le> v then None else Some (v + 1))"

section \<open>Connections\<close>

definition chat_connections_max :: nat where
  "chat_connections_max = 16"

definition chat_opened :: "u64 \<Rightarrow> chat_channels \<Rightarrow> bool \<times> chat_channels" where
  "chat_opened peer s =
     (if peer = 0 \<or> map_of (hc_links s) peer \<noteq> None \<or>
         chat_connections_max \<le> length (hc_links s) + length (hc_closed s)
      then (False, s)
      else (True, s\<lparr>hc_links := map_put peer \<lparr>ls_link = None, ls_highest = 0, ls_requests = []\<rparr> (hc_links s)\<rparr>))"

text \<open>The loops of \<open>closed\<close> over the replies and the pushes, with their counters.\<close>

fun drop_replies :: "u64 \<Rightarrow> outgoing_reply list \<Rightarrow> nat \<Rightarrow> outgoing_reply list \<times> nat" where
  "drop_replies peer [] waiting = ([], waiting)"
| "drop_replies peer (r # rs) waiting =
     (if og_peer r = peer then drop_replies peer rs (waiting - 1)
      else case drop_replies peer rs waiting of (kept, n) \<Rightarrow> (r # kept, n))"

fun drop_pushes :: "u64 \<Rightarrow> pending_push list \<Rightarrow> nat \<Rightarrow> pending_push list \<times> nat" where
  "drop_pushes peer [] bytes = ([], bytes)"
| "drop_pushes peer (p # ps) bytes =
     (if qp_peer p = peer then drop_pushes peer ps (bytes - length (qp_payload p))
      else case drop_pushes peer ps bytes of (kept, n) \<Rightarrow> (p # kept, n))"

definition without_peer :: "u64 \<Rightarrow> channel_state \<Rightarrow> channel_state" where
  "without_peer peer c = c\<lparr>cc_members := filter (\<lambda>entry. mm_peer (snd entry) \<noteq> peer) (cc_members c)\<rparr>"

definition chat_closed :: "u64 \<Rightarrow> chat_channels \<Rightarrow> chat_channels" where
  "chat_closed peer s =
     (let s1 = (case map_of (hc_links s) peer of
                  None \<Rightarrow> s
                | Some link \<Rightarrow>
                    s\<lparr>hc_pending := hc_pending s - length (ls_requests link),
                      hc_links := map_erase peer (hc_links s)\<rparr>);
          (replies, waiting) = drop_replies peer (hc_replies s1) (hc_pending s1);
          (pushes, bytes) = drop_pushes peer (hc_pushes s1) (hc_push_bytes s1)
      in s1\<lparr>hc_replies := replies, hc_pending := waiting, hc_pushes := pushes, hc_push_bytes := bytes,
            hc_channels := map (\<lambda>(shard, c). (shard, without_peer peer c)) (hc_channels s1)\<rparr>)"

section \<open>Requests\<close>

definition queue_rejected :: "chat_channels \<Rightarrow> chat_channels" where
  "queue_rejected s = s\<lparr>hc_stats := (hc_stats s)\<lparr>cn_queue_rejected := cn_queue_rejected (hc_stats s) + 1\<rparr>\<rparr>"

definition send_in_flight :: "u64 \<Rightarrow> chat_request \<Rightarrow> link_state \<Rightarrow> chat_channels \<Rightarrow> bool" where
  "send_in_flight peer request link s \<longleftrightarrow>
     list_ex (\<lambda>p. cq_operation (pn_request p) = Send \<and> cq_operation request = Send \<and>
        mb_generation (cq_membership (pn_request p)) = mb_generation (cq_membership request)) (ls_requests link) \<or>
     list_ex (\<lambda>p. og_peer p = peer \<and> cp_operation (og_message p) = Send \<and> cq_operation request = Send \<and>
        cp_membership_opt (og_message p) \<noteq> None \<and>
        mb_generation (or_default default_membership (cp_membership_opt (og_message p))) =
          mb_generation (cq_membership request)) (hc_replies s)"

definition submit_request ::
  "chat_internal_message wire \<Rightarrow> u64 \<Rightarrow> chat_request \<Rightarrow> u64 \<Rightarrow> time_point \<Rightarrow> chat_channels \<Rightarrow>
   error + bool \<times> chat_channels" where
  "submit_request W peer request request_id now s =
     (case map_of (hc_links s) peer of
        None \<Rightarrow> Inr (False, s)
      | Some link \<Rightarrow>
          if send_in_flight peer request link s \<or> cg_pending_requests (hc_config s) \<le> hc_pending s \<or>
             cg_queued_per_link (hc_config s) \<le> length (ls_requests link)
          then Inr (False, queue_rejected s)
          else case encode_chat_internal W (Chat_request_message request) request_id of
                 Inl e \<Rightarrow> Inl e
               | Inr _ \<Rightarrow> Inr (True,
                   s\<lparr>hc_links := map_put peer
                       (link\<lparr>ls_requests := ls_requests link @
                          [\<lparr>pn_request = known_request request, pn_id = request_id,
                            pn_deadline = now + milliseconds (cg_timeout_ms (hc_config s))\<rparr>]\<rparr>) (hc_links s),
                     hc_pending := hc_pending s + 1\<rparr>))"

section \<open>Sending\<close>

definition default_receipt :: receipt where
  "default_receipt = \<lparr>rc_epoch_opt = None, rc_channel_seq = 0, rc_send_seq = 0\<rparr>"

definition count_stat :: "(chat_stats \<Rightarrow> chat_stats) \<Rightarrow> chat_channels \<Rightarrow> chat_channels" where
  "count_stat f s = s\<lparr>hc_stats := f (hc_stats s)\<rparr>"

definition stat_stale :: "chat_stats \<Rightarrow> chat_stats" where
  "stat_stale st = st\<lparr>cn_stale_rejected := cn_stale_rejected st + 1\<rparr>"

definition stat_resource :: "chat_stats \<Rightarrow> chat_stats" where
  "stat_resource st = st\<lparr>cn_resource_rejected := cn_resource_rejected st + 1\<rparr>"

definition stat_rate :: "chat_stats \<Rightarrow> chat_stats" where
  "stat_rate st = st\<lparr>cn_rate_rejected := cn_rate_rejected st + 1\<rparr>"

definition stat_rejected :: "chat_stats \<Rightarrow> chat_stats" where
  "stat_rejected st = st\<lparr>cn_rejected := cn_rejected st + 1\<rparr>"

definition stat_replayed :: "chat_stats \<Rightarrow> chat_stats" where
  "stat_replayed st = st\<lparr>cn_replayed := cn_replayed st + 1\<rparr>"

definition stat_accepted :: "chat_stats \<Rightarrow> chat_stats" where
  "stat_accepted st = st\<lparr>cn_accepted := cn_accepted st + 1\<rparr>"

definition reject_result :: "reason \<Rightarrow> chat_result \<Rightarrow> chat_result" where
  "reject_result why r =
     r\<lparr>sr_outcome := Rejected, sr_reason := why,
       sr_retry_ms := (if why = Rate_limited \<or> why = Resource_limit then chat_retry_after_ms_max else sr_retry_ms r)\<rparr>"

definition refill_tokens :: "time_point \<Rightarrow> chat_member \<Rightarrow> chat_member" where
  "refill_tokens now m =
     (if mm_refill m < now
      then m\<lparr>mm_tokens := min 10 (round_double (mm_tokens m + round_double (double_seconds (now - mm_refill m) * 5))),
              mm_refill := now\<rparr>
      else m)"

definition chat_push_for ::
  "chat_link \<Rightarrow> channel_state \<Rightarrow> u64 \<Rightarrow> chat_member \<Rightarrow> string \<Rightarrow> chat_member \<Rightarrow> chat_push" where
  "chat_push_for link c number sender words recipient =
     \<lparr>cx_link_opt = Some link, cx_membership_opt = Some (mm_membership recipient),
      cx_message_opt = Some
        \<lparr>cm_generation = mb_generation (mm_membership recipient), cm_epoch_opt = Some (cc_epoch c),
         cm_seq = number, cm_sender = mb_character (mm_membership sender), cm_text = words\<rparr>\<rparr>"

text \<open>The payloads for the members of the channel, in key order, or the first failure.\<close>

fun reserve_pushes ::
  "chat_internal_message wire \<Rightarrow> (u64 \<times> link_state) list \<Rightarrow> channel_state \<Rightarrow> u64 \<Rightarrow> chat_member \<Rightarrow> string \<Rightarrow>
   (u64 \<times> chat_member) list \<Rightarrow> error + pending_push list" where
  "reserve_pushes W links c number sender words [] = Inr []"
| "reserve_pushes W links c number sender words ((cid, recipient) # rest) =
     (case Option.bind (map_of links (mm_peer recipient)) ls_link of
        None \<Rightarrow> Inl (Logic_error ''member without a link'')
      | Some link \<Rightarrow>
          (case encode_chat_internal W
              (Chat_push_message (chat_push_for link c number sender words recipient)) 0 of
             Inl e \<Rightarrow> Inl e
           | Inr payload \<Rightarrow>
               (case reserve_pushes W links c number sender words rest of
                  Inl e \<Rightarrow> Inl e
                | Inr ps \<Rightarrow> Inr (\<lparr>qp_peer = mm_peer recipient, qp_membership = mm_membership recipient,
                                 qp_payload = payload\<rparr> # ps))))"

definition push_bytes :: "pending_push list \<Rightarrow> nat" where
  "push_bytes ps = sum_list (map (length \<circ> qp_payload) ps)"

definition chat_budget_allows :: "nat \<times> nat \<Rightarrow> nat \<times> nat \<Rightarrow> nat \<times> nat \<Rightarrow> bool" where
  "chat_budget_allows used incoming limit \<longleftrightarrow>
     fst used \<le> fst limit \<and> snd used \<le> snd limit \<and> fst incoming \<le> fst limit - fst used \<and>
     snd incoming \<le> snd limit - snd used"

definition accepted_member :: "chat_member \<Rightarrow> receipt \<Rightarrow> u64 \<Rightarrow> string \<Rightarrow> chat_member" where
  "accepted_member m r number words =
     m\<lparr>mm_state := (mm_state m)\<lparr>kt_last_receipt := Some r, kt_last_seq := number\<rparr>, mm_last_text := words,
       mm_tokens := round_double (mm_tokens m - 1)\<rparr>"

definition put_member :: "u64 \<Rightarrow> u64 \<Rightarrow> chat_member \<Rightarrow> channel_state \<Rightarrow> chat_channels \<Rightarrow> chat_channels" where
  "put_member shard cid m c s =
     s\<lparr>hc_channels := map_put shard (c\<lparr>cc_members := map_put cid m (cc_members c)\<rparr>) (hc_channels s)\<rparr>"

definition send_message ::
  "chat_internal_message wire \<Rightarrow> u64 \<Rightarrow> u64 \<Rightarrow> channel_state \<Rightarrow> chat_member \<Rightarrow> send_chat \<Rightarrow> chat_result \<Rightarrow>
   time_point \<Rightarrow> chat_channels \<Rightarrow> error + chat_result \<times> chat_channels" where
  "send_message W shard cid c m0 request result now s0 =
     (let reject = (\<lambda>why s. Inr (reject_result why result, count_stat stat_rejected s));
          last_seq = kt_last_seq (mm_state m0)
      in if ep_incarnation (sd_epoch request) \<noteq> hc_incarnation s0 then reject Wrong_epoch s0
         else if sd_seq request = last_seq \<and> last_seq \<noteq> 0
         then if mm_last_text m0 \<noteq> sd_text request then reject Sequence_conflict s0
              else Inr (result\<lparr>sr_outcome := Accepted, sr_receipt := Some (or_default default_receipt (kt_last_receipt (mm_state m0)))\<rparr>,
                        count_stat stat_replayed s0)
         else case (next_counter last_seq, next_counter (cc_seq c)) of
           (Some next_send, Some next_channel) \<Rightarrow>
             if sd_seq request \<noteq> next_send then reject Invalid_sequence s0
             else (let m = refill_tokens now m0;
                       c1 = c\<lparr>cc_members := map_put cid m (cc_members c)\<rparr>;
                       s = put_member shard cid m c s0
                   in if mm_tokens m < 1 then reject Rate_limited (count_stat stat_rate s)
                      else case reserve_pushes W (hc_links s) c1 next_channel m (sd_text request) (cc_members c1) of
                             Inl e \<Rightarrow> Inl e
                           | Inr reserved \<Rightarrow>
                               if \<not> chat_budget_allows (length (hc_pushes s), hc_push_bytes s)
                                      (length reserved, push_bytes reserved)
                                      (cg_pending_pushes (hc_config s), cg_pending_push_bytes (hc_config s))
                               then reject Resource_limit (count_stat stat_resource s)
                               else (let r = \<lparr>rc_epoch_opt = Some (cc_epoch c), rc_channel_seq = next_channel,
                                              rc_send_seq = sd_seq request\<rparr>;
                                         s1 = put_member shard cid
                                                (accepted_member m r (sd_seq request) (sd_text request))
                                                (c1\<lparr>cc_seq := next_channel\<rparr>) s
                                     in Inr (result\<lparr>sr_outcome := Accepted, sr_receipt := Some r\<rparr>,
                                          count_stat stat_accepted
                                            (s1\<lparr>hc_pushes := hc_pushes s1 @ reserved,
                                                hc_push_bytes := hc_push_bytes s1 + push_bytes reserved\<rparr>))))
         | _ \<Rightarrow> reject Counter_exhausted s0)"

section \<open>Handling a request\<close>

definition replaced_links :: "u64 \<Rightarrow> chat_channels \<Rightarrow> u64 list" where
  "replaced_links peer s =
     map fst (filter (\<lambda>(cid, candidate). cid \<noteq> peer \<and> ls_link candidate \<noteq> None) (hc_links s))"

definition replace_link :: "u64 \<Rightarrow> chat_channels \<Rightarrow> chat_channels" where
  "replace_link old s = (let s1 = chat_closed old s in s1\<lparr>hc_closed := hc_closed s1 @ [old]\<rparr>)"

definition handle_hello :: "u64 \<Rightarrow> link_state \<Rightarrow> chat_request \<Rightarrow> chat_channels \<Rightarrow> chat_reply \<times> chat_channels" where
  "handle_hello peer link r s =
     (case next_counter (hc_link_generation s) of
        None \<Rightarrow> (reply_to r Chat_invalid, s)
      | Some generation \<Rightarrow>
          if ls_link link \<noteq> None then (reply_to r Chat_invalid, s)
          else (let s1 = fold replace_link (replaced_links peer s) s;
                    fresh = (cq_link r)\<lparr>lk_generation := generation, lk_chat_incarnation := hc_incarnation s\<rparr>
                in ((reply_to r Chat_ok)\<lparr>cp_link_opt := Some fresh\<rparr>,
                    s1\<lparr>hc_link_generation := generation,
                       hc_links := map_put peer (link\<lparr>ls_link := Some fresh\<rparr>) (hc_links s1)\<rparr>)))"

definition member_of :: "u64 \<Rightarrow> membership \<Rightarrow> channel_state \<Rightarrow> chat_member option" where
  "member_of peer membership c =
     (case map_of (cc_members c) (mb_character membership) of
        None \<Rightarrow> None
      | Some m \<Rightarrow> if mm_peer m = peer \<and> same_member (mm_membership m) membership then Some m else None)"

definition handle_leave ::
  "u64 \<Rightarrow> link_state \<Rightarrow> u64 \<Rightarrow> channel_state \<Rightarrow> chat_request \<Rightarrow> chat_channels \<Rightarrow> chat_reply \<times> chat_channels" where
  "handle_leave peer link shard c r s =
     (let membership = cq_membership r;
          s1 = s\<lparr>hc_links := map_put peer
                 (link\<lparr>ls_highest := max (ls_highest link) (mb_generation membership)\<rparr>) (hc_links s)\<rparr>;
          s2 = (if member_of peer membership c \<noteq> None
                then s1\<lparr>hc_channels := map_put shard
                       (c\<lparr>cc_members := map_erase (mb_character membership) (cc_members c)\<rparr>) (hc_channels s1)\<rparr>
                else s1)
      in ((reply_to r Chat_ok)\<lparr>cp_membership_opt := Some membership\<rparr>, s2))"

definition all_characters :: "chat_channels \<Rightarrow> u64 list" where
  "all_characters s = concat (map (\<lambda>(shard, c). map fst (cc_members c)) (hc_channels s))"

definition join_refused :: "chat_channels \<Rightarrow> channel_state \<Rightarrow> u64 \<Rightarrow> bool" where
  "join_refused s c cid \<longleftrightarrow>
     (let capacity = (if ch_kind (ep_channel (cc_epoch c)) = Channel_scene then 16 else 64);
          absent = (map_of (cc_members c) cid = None)
      in (absent \<and> capacity \<le> length (cc_members c)) \<or>
         (cid \<notin> set (all_characters s) \<and> 64 \<le> card (set (all_characters s))) \<or>
         (absent \<and> 2 \<le> length (filter (\<lambda>x. x = cid) (all_characters s))))"

definition fresh_member :: "u64 \<Rightarrow> membership \<Rightarrow> channel_state \<Rightarrow> time_point \<Rightarrow> chat_member" where
  "fresh_member peer membership c now =
     \<lparr>mm_peer = peer, mm_membership = membership,
      mm_state = \<lparr>kt_kind = ch_kind (ep_channel (cc_epoch c)), kt_phase = Chat_active,
        kt_generation = mb_generation membership, kt_epoch_opt = Some (cc_epoch c), kt_watermark = cc_seq c,
        kt_last_seq = 0, kt_last_receipt = None, kt_reason = No_reason\<rparr>,
      mm_last_text = [], mm_tokens = 10, mm_refill = now\<rparr>"

definition state_reply :: "chat_request \<Rightarrow> chat_member \<Rightarrow> chat_reply" where
  "state_reply r m =
     (reply_to r Chat_ok)\<lparr>cp_membership_opt := Some (cq_membership r), cp_state_opt := Some (mm_state m)\<rparr>"

definition handle_join ::
  "u64 \<Rightarrow> link_state \<Rightarrow> u64 \<Rightarrow> channel_state \<Rightarrow> chat_request \<Rightarrow> time_point \<Rightarrow> chat_channels \<Rightarrow>
   chat_reply \<times> chat_channels" where
  "handle_join peer link shard c r now s =
     (let membership = cq_membership r
      in case member_of peer membership c of
           Some m \<Rightarrow> (state_reply r m, s)
         | None \<Rightarrow>
             if mb_generation membership \<le> ls_highest link
             then (reply_to r Chat_stale_membership, count_stat stat_stale s)
             else if join_refused s c (mb_character membership)
             then (reply_to r Chat_busy, count_stat stat_resource s)
             else (let m = fresh_member peer membership c now
                   in (state_reply r m,
                       put_member shard (mb_character membership) m c
                         (s\<lparr>hc_links := map_put peer (link\<lparr>ls_highest := mb_generation membership\<rparr>)
                             (hc_links s)\<rparr>))))"

definition pending_result :: "send_chat \<Rightarrow> chat_result" where
  "pending_result d =
     \<lparr>sr_kind = sd_kind d, sr_generation = sd_generation d, sr_epoch_opt = Some (sd_epoch d), sr_seq = sd_seq d,
      sr_outcome = Outcome_unspecified, sr_reason = No_reason, sr_receipt = None, sr_retry_ms = 0\<rparr>"

definition handle_member ::
  "chat_internal_message wire \<Rightarrow> u64 \<Rightarrow> u64 \<Rightarrow> channel_state \<Rightarrow> chat_request \<Rightarrow> time_point \<Rightarrow> chat_channels \<Rightarrow>
   error + chat_reply \<times> chat_channels" where
  "handle_member W peer shard c r now s =
     (case member_of peer (cq_membership r) c of
        None \<Rightarrow> Inr (reply_to r Chat_stale_membership, count_stat stat_stale s)
      | Some m \<Rightarrow>
          if cq_operation r = Send
          then case send_message W shard (mb_character (cq_membership r)) c m (cq_send r)
                  (pending_result (cq_send r)) now s of
                 Inl e \<Rightarrow> Inl e
               | Inr (result, s') \<Rightarrow>
                   Inr ((reply_to r Chat_ok)\<lparr>cp_membership_opt := Some (cq_membership r),
                          cp_result_opt := Some result\<rparr>, s')
          else Inr (state_reply r m, s))"

definition handle_chat ::
  "chat_internal_message wire \<Rightarrow> u64 \<Rightarrow> link_state \<Rightarrow> chat_request \<Rightarrow> time_point \<Rightarrow> chat_channels \<Rightarrow>
   error + chat_reply \<times> chat_channels" where
  "handle_chat W peer link r now s =
     (if lk_realm (cq_link r) \<noteq> cg_realm (hc_config s) \<or>
         lk_realm_instance (cq_link r) \<noteq> cg_realm_instance (hc_config s) \<or>
         lk_chat_instance (cq_link r) \<noteq> hc_instance s
      then Inr (reply_to r Forbidden, s)
      else if cq_operation r = Hello then Inr (handle_hello peer link r s)
      else if \<not> (case ls_link link of None \<Rightarrow> False | Some l \<Rightarrow> same_link l (cq_link r))
      then Inr (reply_to r Stale_link, count_stat stat_stale s)
      else let shard = ch_shard (mb_channel (cq_membership r))
           in case map_of (hc_channels s) shard of
                None \<Rightarrow> Inr (reply_to r Forbidden, s)
              | Some c \<Rightarrow>
                  if \<not> same_channel (ep_channel (cc_epoch c)) (mb_channel (cq_membership r))
                  then Inr (reply_to r Forbidden, s)
                  else if cq_operation r = Leave then Inr (handle_leave peer link shard c r s)
                  else if cq_operation r = Join then Inr (handle_join peer link shard c r now s)
                  else handle_member W peer shard c r now s)"

section \<open>Rounds\<close>

text \<open>The first entry that satisfies a predicate, and the queue without it.\<close>

fun take_first :: "('a \<Rightarrow> bool) \<Rightarrow> 'a list \<Rightarrow> ('a \<times> 'a list) option" where
  "take_first P [] = None"
| "take_first P (x # xs) =
     (if P x then Some (x, xs)
      else case take_first P xs of None \<Rightarrow> None | Some (y, ys) \<Rightarrow> Some (y, x # ys))"

text \<open>\<open>lower_bound\<close>, or the first entry.\<close>

definition next_link :: "u64 \<Rightarrow> (u64 \<times> link_state) list \<Rightarrow> (u64 \<times> link_state) option" where
  "next_link key links =
     (case filter (\<lambda>entry. key \<le> fst entry) links of
        entry # _ \<Rightarrow> Some entry
      | [] \<Rightarrow> (case links of [] \<Rightarrow> None | entry # _ \<Rightarrow> Some entry))"

definition serviceable :: "time_point \<Rightarrow> u64 \<Rightarrow> (u64 \<times> u64) set \<Rightarrow> pending_request \<Rightarrow> bool" where
  "serviceable now peer served p \<longleftrightarrow>
     pn_deadline p \<le> now \<or> cq_operation (pn_request p) \<noteq> Send \<or>
     (peer, mb_generation (cq_membership (pn_request p))) \<notin> served"

definition stat_expired :: "chat_stats \<Rightarrow> chat_stats" where
  "stat_expired st = st\<lparr>cn_expired := cn_expired st + 1\<rparr>"

definition answer_request ::
  "chat_internal_message wire \<Rightarrow> u64 \<Rightarrow> link_state \<Rightarrow> pending_request \<Rightarrow> time_point \<Rightarrow> chat_channels \<Rightarrow>
   error + chat_reply \<times> chat_channels" where
  "answer_request W peer link p now s =
     (if pn_deadline p \<le> now then Inr (reply_to (pn_request p) Chat_unavailable, count_stat stat_expired s)
      else handle_chat W peer link (pn_request p) now s)"

definition outgoing :: "u64 \<Rightarrow> pending_request \<Rightarrow> chat_reply \<Rightarrow> time_point \<Rightarrow> chat_channels \<Rightarrow> outgoing_reply" where
  "outgoing peer p reply now s =
     \<lparr>og_peer = peer, og_id = pn_id p, og_message = reply,
      og_age = now - pn_deadline p + milliseconds (cg_timeout_ms (hc_config s))\<rparr>"

definition chat_requests_per_round_max :: nat where
  "chat_requests_per_round_max = 64"

fun round_loop ::
  "chat_internal_message wire \<Rightarrow> time_point \<Rightarrow> nat \<Rightarrow> nat \<Rightarrow> (u64 \<times> u64) set \<Rightarrow> chat_channels \<Rightarrow>
   error + chat_channels" where
  "round_loop W now 0 processed served s = Inr s"
| "round_loop W now (Suc attempts) processed served s =
     (if chat_requests_per_round_max \<le> processed then Inr s
      else case next_link (hc_next_peer s) (hc_links s) of
             None \<Rightarrow> Inr s
           | Some (peer, link) \<Rightarrow>
               (let s1 = s\<lparr>hc_next_peer := peer + 1\<rparr>
                in case take_first (serviceable now peer served) (ls_requests link) of
                     None \<Rightarrow> round_loop W now attempts processed served s1
                   | Some (p, rest) \<Rightarrow>
                       (let link' = link\<lparr>ls_requests := rest\<rparr>;
                            s2 = s1\<lparr>hc_links := map_put peer link' (hc_links s1)\<rparr>;
                            served' = (if \<not> pn_deadline p \<le> now \<and> cq_operation (pn_request p) = Send
                                       then insert (peer, mb_generation (cq_membership (pn_request p))) served
                                       else served)
                        in case answer_request W peer link' p now s2 of
                             Inl e \<Rightarrow> Inl e
                           | Inr (reply, s3) \<Rightarrow>
                               round_loop W now attempts (processed + 1) served'
                                 (s3\<lparr>hc_replies := hc_replies s3 @ [outgoing peer p reply now s3]\<rparr>))))"

definition run_round :: "chat_internal_message wire \<Rightarrow> time_point \<Rightarrow> chat_channels \<Rightarrow> error + chat_channels" where
  "run_round W now s = round_loop W now (chat_requests_per_round_max * chat_connections_max) 0 {} s"

section \<open>Taking results\<close>

definition take_reply :: "chat_channels \<Rightarrow> outgoing_reply option \<times> chat_channels" where
  "take_reply s =
     (case hc_replies s of
        [] \<Rightarrow> (None, s)
      | r # rs \<Rightarrow> (Some r, s\<lparr>hc_replies := rs, hc_pending := hc_pending s - 1\<rparr>))"

definition push_current :: "pending_push \<Rightarrow> chat_channels \<Rightarrow> bool" where
  "push_current p s \<longleftrightarrow>
     (case map_of (hc_channels s) (ch_shard (mb_channel (qp_membership p))) of
        None \<Rightarrow> False
      | Some c \<Rightarrow> member_of (qp_peer p) (qp_membership p) c \<noteq> None)"

fun drain_loop :: "nat \<Rightarrow> chat_channels \<Rightarrow> (u64 \<times> u8 list) list \<Rightarrow> (u64 \<times> u8 list) list \<times> chat_channels" where
  "drain_loop 0 s ready = (ready, s)"
| "drain_loop (Suc n) s ready =
     (case hc_pushes s of
        [] \<Rightarrow> (ready, s)
      | p # ps \<Rightarrow>
          drain_loop n (s\<lparr>hc_pushes := ps, hc_push_bytes := hc_push_bytes s - length (qp_payload p)\<rparr>)
            (if push_current p s then ready @ [(qp_peer p, qp_payload p)] else ready))"

definition drain_pushes :: "chat_channels \<Rightarrow> (u64 \<times> u8 list) list \<times> chat_channels" where
  "drain_pushes s = drain_loop 64 s []"

definition take_closed_peers :: "chat_channels \<Rightarrow> u64 list \<times> chat_channels" where
  "take_closed_peers s = (hc_closed s, s\<lparr>hc_closed := []\<rparr>)"

definition active_members :: "chat_channels \<Rightarrow> nat" where
  "active_members s = sum_list (map (\<lambda>(shard, c). length (cc_members c)) (hc_channels s))"

section \<open>Invariant\<close>

text \<open>The counters. During the handling of a request it is counted though it is neither queued nor
  answered: \<open>k\<close> is 1 then.\<close>

definition queued :: "(u64 \<times> link_state) list \<Rightarrow> nat" where
  "queued links = sum_list (map (\<lambda>(peer, link). length (ls_requests link)) links)"

definition counts_ok :: "nat \<Rightarrow> chat_channels \<Rightarrow> bool" where
  "counts_ok k s \<longleftrightarrow>
     ordered (hc_links s) \<and> hc_pending s = queued (hc_links s) + length (hc_replies s) + k \<and>
     hc_pending s \<le> cg_pending_requests (hc_config s) \<and> hc_push_bytes s = push_bytes (hc_pushes s) \<and>
     length (hc_pushes s) \<le> cg_pending_pushes (hc_config s) \<and>
     hc_push_bytes s \<le> cg_pending_push_bytes (hc_config s) \<and>
     length (hc_links s) + length (hc_closed s) \<le> chat_connections_max \<and>
     (\<forall>peer link. map_of (hc_links s) peer = Some link \<longrightarrow>
        length (ls_requests link) \<le> cg_queued_per_link (hc_config s))"

definition established :: "(u64 \<times> link_state) list \<Rightarrow> u64 \<Rightarrow> chat_link option" where
  "established links peer = Option.bind (map_of links peer) ls_link"

text \<open>At most one link is established; its identity is that of this instance.\<close>

definition own_link :: "chat_channels \<Rightarrow> chat_link \<Rightarrow> bool" where
  "own_link s l \<longleftrightarrow> valid_link l False \<and> lk_realm l = cg_realm (hc_config s) \<and>
     lk_realm_instance l = cg_realm_instance (hc_config s) \<and>
     lk_chat_instance l = hc_instance s \<and> lk_chat_incarnation l = hc_incarnation s"

definition links_ok :: "chat_channels \<Rightarrow> bool" where
  "links_ok s \<longleftrightarrow>
     (\<forall>peer l. established (hc_links s) peer = Some l \<longrightarrow> own_link s l) \<and>
     (\<forall>p q l l'. established (hc_links s) p = Some l \<and> established (hc_links s) q = Some l' \<longrightarrow> p = q) \<and>
     (\<forall>peer link. map_of (hc_links s) peer = Some link \<longrightarrow>
        (\<forall>p \<in> set (ls_requests link). valid_chat_request (pn_request p) (pn_id p)))"

text \<open>The state that a member sees, and its receipt.\<close>

definition receipt_ok :: "channel_state \<Rightarrow> chat_state \<Rightarrow> bool" where
  "receipt_ok c st \<longleftrightarrow>
     (if kt_last_seq st = 0 then kt_last_receipt st = None
      else \<exists>n. kt_last_receipt st = Some \<lparr>rc_epoch_opt = Some (cc_epoch c), rc_channel_seq = n, rc_send_seq = kt_last_seq st\<rparr> \<and>
             n \<le> cc_seq c \<and> kt_watermark st < n \<and> kt_last_seq st \<le> n - kt_watermark st)"

definition member_state_ok :: "channel_state \<Rightarrow> chat_member \<Rightarrow> bool" where
  "member_state_ok c m \<longleftrightarrow>
     kt_kind (mm_state m) = ch_kind (ep_channel (cc_epoch c)) \<and> kt_phase (mm_state m) = Chat_active \<and>
     kt_generation (mm_state m) = mb_generation (mm_membership m) \<and>
     kt_epoch_opt (mm_state m) = Some (cc_epoch c) \<and> kt_reason (mm_state m) = No_reason \<and>
     kt_watermark (mm_state m) \<le> cc_seq c \<and> receipt_ok c (mm_state m)"

definition channel_ok :: "chat_config \<Rightarrow> string \<Rightarrow> (u64 \<Rightarrow> chat_link option) \<Rightarrow> u64 \<Rightarrow> channel_state \<Rightarrow> bool" where
  "channel_ok cfg incarnation links shard c \<longleftrightarrow>
     cc_epoch c = \<lparr>ep_channel_opt = Some (channel_identity cfg shard), ep_incarnation = incarnation\<rparr> \<and>
     shard \<le> 2 \<and> cc_seq c \<le> chat_counter_max \<and> ordered (cc_members c) \<and>
     (\<forall>cid m. map_of (cc_members c) cid = Some m \<longrightarrow>
        mb_character (mm_membership m) = cid \<and>
        same_channel (ep_channel (cc_epoch c)) (mb_channel (mm_membership m)) \<and>
        (\<exists>l. links (mm_peer m) = Some l \<and> matches_link (mm_membership m) l) \<and> member_state_ok c m)"

definition channels_ok :: "chat_channels \<Rightarrow> bool" where
  "channels_ok s \<longleftrightarrow> ordered (hc_channels s) \<and>
     (\<forall>shard c. map_of (hc_channels s) shard = Some c \<longrightarrow>
        channel_ok (hc_config s) (hc_incarnation s) (established (hc_links s)) shard c)"

definition replies_ok :: "chat_channels \<Rightarrow> bool" where
  "replies_ok s \<longleftrightarrow> (\<forall>r \<in> set (hc_replies s). valid_chat_reply (og_message r) (og_id r))"

definition static_ok :: "chat_channels \<Rightarrow> bool" where
  "static_ok s \<longleftrightarrow> validate_chat_config (hc_config s) \<and> chat_identity (hc_instance s) \<and>
     chat_identity (hc_incarnation s) \<and> hc_link_generation s \<le> chat_counter_max"

definition chat_ok :: "nat \<Rightarrow> chat_channels \<Rightarrow> bool" where
  "chat_ok k s \<longleftrightarrow> counts_ok k s \<and> links_ok s \<and> channels_ok s \<and> replies_ok s \<and> static_ok s"

lemmas chat_oks = chat_ok_def counts_ok_def links_ok_def channels_ok_def replies_ok_def static_ok_def own_link_def

lemma chat_ok_stat [simp]: "chat_ok k (count_stat f s) = chat_ok k s" "chat_ok k (queue_rejected s) = chat_ok k s"
  "chat_ok k (s\<lparr>hc_next_peer := n\<rparr>) = chat_ok k s"
  by (simp_all add: count_stat_def queue_rejected_def chat_oks)

section \<open>Closing a connection\<close>

lemma drop_replies_eq:
  "drop_replies peer rs n =
     (filter (\<lambda>r. og_peer r \<noteq> peer) rs, n - length (filter (\<lambda>r. og_peer r = peer) rs))"
  by (induction peer rs n rule: drop_replies.induct) auto

lemma drop_pushes_eq:
  "drop_pushes peer ps n =
     (filter (\<lambda>p. qp_peer p \<noteq> peer) ps, n - push_bytes (filter (\<lambda>p. qp_peer p = peer) ps))"
  by (induction peer ps n rule: drop_pushes.induct) (auto simp: push_bytes_def)

lemma push_bytes_split:
  "push_bytes ps = push_bytes (filter (\<lambda>p. qp_peer p = peer) ps) + push_bytes (filter (\<lambda>p. qp_peer p \<noteq> peer) ps)"
  by (induction ps) (simp_all add: push_bytes_def)

lemma chat_closed_parts:
  "hc_links (chat_closed peer s) = map_erase peer (hc_links s)"
  "hc_replies (chat_closed peer s) = filter (\<lambda>r. og_peer r \<noteq> peer) (hc_replies s)"
  "hc_pushes (chat_closed peer s) = filter (\<lambda>p. qp_peer p \<noteq> peer) (hc_pushes s)"
  "hc_push_bytes (chat_closed peer s) = hc_push_bytes s - push_bytes (filter (\<lambda>p. qp_peer p = peer) (hc_pushes s))"
  "hc_pending (chat_closed peer s) =
     hc_pending s - (case map_of (hc_links s) peer of None \<Rightarrow> 0 | Some link \<Rightarrow> length (ls_requests link)) -
     length (filter (\<lambda>r. og_peer r = peer) (hc_replies s))"
  "hc_channels (chat_closed peer s) = map (\<lambda>(shard, c). (shard, without_peer peer c)) (hc_channels s)"
  "hc_closed (chat_closed peer s) = hc_closed s" "hc_config (chat_closed peer s) = hc_config s"
  "hc_instance (chat_closed peer s) = hc_instance s" "hc_incarnation (chat_closed peer s) = hc_incarnation s"
  "hc_link_generation (chat_closed peer s) = hc_link_generation s" "hc_stats (chat_closed peer s) = hc_stats s"
  by (auto simp: chat_closed_def Let_def drop_replies_eq drop_pushes_eq map_erase_absent map_of_eq_None_iff
      dest: map_of_Some_mem split: option.splits)

lemma queued_erase:
  "ordered links \<Longrightarrow> queued links =
     (case map_of links peer of None \<Rightarrow> 0 | Some link \<Rightarrow> length (ls_requests link)) + queued (map_erase peer links)"
  using sum_map_erase [of links peer _ "\<lambda>(peer, link). length (ls_requests link)"] map_erase_absent [of peer links]
  by (auto simp: queued_def map_of_eq_None_iff split: option.splits)

lemma queued_put:
  "ordered links \<Longrightarrow> queued (map_put peer link links) = length (ls_requests link) + queued (map_erase peer links)"
  by (simp add: queued_def sum_map_put)

lemma length_filter_split: "length xs = length (filter P xs) + length (filter (\<lambda>x. \<not> P x) xs)"
  by (induction xs) simp_all

lemma chat_closed_counts:
  assumes "counts_ok k s"
  shows "counts_ok k (chat_closed peer s)"
proof -
  let ?old = "case map_of (hc_links s) peer of None \<Rightarrow> 0 | Some link \<Rightarrow> length (ls_requests link)"
  have o: "ordered (hc_links s)" using assms by (simp add: counts_ok_def)
  have "hc_pending (chat_closed peer s) =
      queued (map_erase peer (hc_links s)) + length (filter (\<lambda>r. og_peer r \<noteq> peer) (hc_replies s)) + k"
    using assms queued_erase [OF o, of peer] length_filter_split [of "hc_replies s" "\<lambda>r. og_peer r = peer"]
    by (simp add: counts_ok_def chat_closed_parts)
  moreover have "hc_push_bytes (chat_closed peer s) = push_bytes (filter (\<lambda>p. qp_peer p \<noteq> peer) (hc_pushes s))"
    using assms push_bytes_split [of "hc_pushes s" peer] by (simp add: counts_ok_def chat_closed_parts)
  moreover have "hc_pending (chat_closed peer s) \<le> hc_pending s" "hc_push_bytes (chat_closed peer s) \<le> hc_push_bytes s"
    by (simp_all add: chat_closed_parts)
  ultimately show ?thesis
    using assms unfolding counts_ok_def chat_closed_parts
    by (auto intro: le_trans [OF length_filter_le] order_trans [OF add_right_mono [OF length_map_erase_le]]
        split: if_splits)
qed

lemma map_of_map_value: "map_of (map (\<lambda>(k, v). (k, f v)) m) k = map_option f (map_of m k)"
  by (induction m) auto

lemma ordered_map_value [simp]: "ordered (map (\<lambda>(k, v). (k, f v)) m) = ordered m"
  by (simp add: ordered_def comp_def case_prod_unfold)

lemma established_erase [simp]: "established (map_erase peer links) = (established links)(peer := None)"
  by (simp add: established_def fun_eq_iff)

lemma channel_ok_without:
  assumes "channel_ok cfg inc links shard c"
  shows "channel_ok cfg inc (links(peer := None)) shard (without_peer peer c)"
  using assms
  by (auto simp: channel_ok_def without_peer_def map_of_filter ordered_distinct member_state_ok_def receipt_ok_def
      split: option.splits if_splits)

lemma chat_closed_ok:
  assumes "chat_ok k s"
  shows "chat_ok k (chat_closed peer s)"
proof -
  have "links_ok (chat_closed peer s)"
    using assms by (auto simp: chat_ok_def links_ok_def own_link_def chat_closed_parts)
  moreover have "channels_ok (chat_closed peer s)"
    using assms by (auto simp: chat_ok_def channels_ok_def chat_closed_parts map_of_map_value intro: channel_ok_without)
  moreover have "replies_ok (chat_closed peer s)" "static_ok (chat_closed peer s)"
    using assms by (simp_all add: chat_ok_def replies_ok_def static_ok_def chat_closed_parts)
  ultimately show ?thesis
    using assms chat_closed_counts by (simp add: chat_ok_def)
qed

section \<open>A new link\<close>

lemma established_put [simp]:
  "ordered links \<Longrightarrow> established (map_put peer link links) = (established links)(peer := ls_link link)"
  by (simp add: established_def fun_eq_iff)

lemma replace_link_ok:
  assumes "chat_ok k s" "old \<in> fst ` set (hc_links s)"
  shows "chat_ok k (replace_link old s)"
proof -
  have o: "ordered (hc_links s)" using assms by (simp add: chat_ok_def counts_ok_def)
  have c: "chat_ok k (chat_closed old s)" using assms(1) by (rule chat_closed_ok)
  have n: "length (hc_links (chat_closed old s)) + length (hc_closed (chat_closed old s)) + 1 \<le> chat_connections_max"
    using length_erase_present [OF o assms(2)] assms(1) by (simp add: chat_closed_parts chat_ok_def counts_ok_def)
  then show ?thesis using c by (auto simp: replace_link_def Let_def chat_oks)
qed

lemma replace_links:
  assumes "chat_ok k s" "distinct ps" "set ps \<subseteq> fst ` set (hc_links s)"
  shows "chat_ok k (fold replace_link ps s) \<and>
    hc_links (fold replace_link ps s) = filter (\<lambda>entry. fst entry \<notin> set ps) (hc_links s) \<and>
    hc_config (fold replace_link ps s) = hc_config s \<and> hc_instance (fold replace_link ps s) = hc_instance s \<and>
    hc_incarnation (fold replace_link ps s) = hc_incarnation s"
  using assms
proof (induction ps arbitrary: s)
  case (Cons p ps)
  let ?s = "replace_link p s"
  have links: "hc_links ?s = map_erase p (hc_links s)" and rest: "hc_config ?s = hc_config s"
    "hc_instance ?s = hc_instance s" "hc_incarnation ?s = hc_incarnation s"
    by (simp_all add: replace_link_def Let_def chat_closed_parts)
  have "chat_ok k ?s" using Cons.prems by (intro replace_link_ok) auto
  moreover have "set ps \<subseteq> fst ` set (hc_links ?s)" using Cons.prems by (auto simp: links)
  ultimately have "chat_ok k (fold replace_link ps ?s) \<and>
    hc_links (fold replace_link ps ?s) = filter (\<lambda>entry. fst entry \<notin> set ps) (hc_links ?s) \<and>
    hc_config (fold replace_link ps ?s) = hc_config ?s \<and> hc_instance (fold replace_link ps ?s) = hc_instance ?s \<and>
    hc_incarnation (fold replace_link ps ?s) = hc_incarnation ?s"
    using Cons.IH [of ?s] Cons.prems(2) by simp
  then show ?case
    by (simp add: links rest map_erase_def)
qed simp

lemma counts_put_link:
  assumes "counts_ok k s" "map_of (hc_links s) peer = Some link" "ls_requests link' = ls_requests link"
  shows "counts_ok k (s\<lparr>hc_links := map_put peer link' (hc_links s)\<rparr>)"
proof -
  have o: "ordered (hc_links s)" using assms by (simp add: counts_ok_def)
  have "queued (map_put peer link' (hc_links s)) = queued (hc_links s)"
    using queued_put [OF o, of peer link'] queued_erase [OF o, of peer] assms(2,3) by simp
  moreover have "length (map_put peer link' (hc_links s)) = length (hc_links s)"
    using o assms(2) by (intro length_put_present) (auto dest: map_of_Some_mem)
  moreover have "length (ls_requests link') \<le> cg_queued_per_link (hc_config s)"
    using assms by (auto simp: counts_ok_def)
  ultimately show ?thesis using assms(1) o by (auto simp: counts_ok_def)
qed

text \<open>The result of handling a request.\<close>

definition good_result :: "nat \<Rightarrow> u64 \<Rightarrow> chat_reply \<times> chat_channels \<Rightarrow> bool" where
  "good_result k request_id result \<longleftrightarrow> valid_chat_reply (fst result) request_id \<and> chat_ok k (snd result)"

lemma known_request_valid: "valid_chat_request r request_id \<Longrightarrow> known_request r = r"
proof -
  assume v: "valid_chat_request r request_id"
  have "known_membership m = m" if "valid_membership m" for m
    using that by (auto simp: known_membership_def valid_membership_def mb_channel_def)
  moreover have "known_send d = d" if "valid_send d i" for d i
    using that
    by (auto simp: known_send_def valid_send_def has_epoch_def sd_epoch_def valid_epoch_def ep_channel_def)
  ultimately show "known_request r = r"
    using v
    by (cases r; cases "cq_membership_opt r"; cases "cq_send_opt r")
      (auto simp: known_request_def valid_chat_request_def cq_link_def cq_membership_def cq_send_def matches_link_def
        split: if_splits)
qed

lemma valid_request_link:
  assumes "valid_chat_request r request_id"
  shows "cq_link (known_request r) = cq_link r" "valid_link (cq_link r) (cq_operation r = Hello)" "request_id \<noteq> 0"
    "valid_chat_operation (cq_operation r)"
  using assms by (simp_all add: valid_chat_request_def known_request_def cq_link_def)

lemma refusal_reply_valid:
  assumes "valid_chat_request r request_id" "valid_chat_status st" "st \<noteq> Chat_ok"
  shows "valid_chat_reply (reply_to r st) request_id"
  using valid_request_link [OF assms(1)] assms(2,3) by (auto simp: valid_chat_reply_def reply_to_def)

lemma chat_statuses [simp]:
  "valid_chat_status Chat_ok" "valid_chat_status Chat_invalid" "valid_chat_status Stale_link"
  "valid_chat_status Chat_stale_membership" "valid_chat_status Forbidden" "valid_chat_status Chat_busy"
  "valid_chat_status Chat_unavailable"
  by (simp_all add: valid_chat_status_def)

lemma next_counter_valid:
  assumes "next_counter v = Some w"
  shows "chat_counter w" "w \<le> chat_counter_max" "v < w" "unat w = Suc (unat v)" "w = v + 1"
proof -
  have w: "w = v + 1" "v < chat_counter_max" using assms by (auto simp: next_counter_def split: if_splits)
  then show *: "unat w = Suc (unat v)" using u64_less_Suc by simp
  show le: "w \<le> chat_counter_max"
    using w(2) * by (simp add: word_less_nat_alt word_le_nat_alt)
  show "v < w" using * by (simp add: word_less_nat_alt)
  then show "chat_counter w" using le by (auto simp: chat_counter_def)
  show "w = v + 1" by (rule w(1))
qed

lemma handle_hello_good:
  assumes "chat_ok k s" "map_of (hc_links s) peer = Some link" "valid_chat_request r request_id"
    and "cq_operation r = Hello" "lk_realm (cq_link r) = cg_realm (hc_config s)"
    and "lk_realm_instance (cq_link r) = cg_realm_instance (hc_config s)" "lk_chat_instance (cq_link r) = hc_instance s"
  shows "good_result k request_id (handle_hello peer link r s)"
proof (cases "next_counter (hc_link_generation s)")
  case None
  then show ?thesis
    using assms(1) refusal_reply_valid [OF assms(3)] by (simp add: handle_hello_def good_result_def)
next
  case (Some generation)
  show ?thesis
  proof (cases "ls_link link = None")
    case False
    then show ?thesis
      using assms(1) refusal_reply_valid [OF assms(3)] Some by (simp add: handle_hello_def good_result_def)
  next
    case True
    let ?old = "replaced_links peer s" and ?fresh = "(cq_link r)\<lparr>lk_generation := generation, lk_chat_incarnation := hc_incarnation s\<rparr>"
    define s1 where "s1 = fold replace_link ?old s"
    have o: "ordered (hc_links s)" using assms(1) by (simp add: chat_oks)
    have old: "distinct ?old" "set ?old \<subseteq> fst ` set (hc_links s)"
      using ordered_distinct [OF o] by (auto simp: replaced_links_def distinct_map_filter)
    have s1: "chat_ok k s1" "hc_links s1 = filter (\<lambda>entry. fst entry \<notin> set ?old) (hc_links s)"
      "hc_config s1 = hc_config s" "hc_instance s1 = hc_instance s" "hc_incarnation s1 = hc_incarnation s"
      using replace_links [OF assms(1) old] by (simp_all add: s1_def)
    have o1: "ordered (hc_links s1)" using s1(1) by (simp add: chat_oks)
    have old_iff: "q \<in> set ?old \<longleftrightarrow> q \<noteq> peer \<and> established (hc_links s) q \<noteq> None" for q
      by (fastforce simp: replaced_links_def established_def image_iff case_prod_unfold bind_eq_Some_conv
          map_of_eq_Some_iff [OF ordered_distinct [OF o]])
    have link1: "map_of (hc_links s1) q = (if q \<in> set ?old then None else map_of (hc_links s) q)" for q
      unfolding s1(2) using map_of_filter_key [of "\<lambda>k. k \<notin> set ?old" "hc_links s" q] by simp
    have none: "established (hc_links s1) q = None" for q
      using old_iff [of q] True assms(2) by (auto simp: established_def link1)
    have no_members: "cc_members c = []" if "map_of (hc_channels s1) shard = Some c" for shard c
    proof -
      have "channel_ok (hc_config s1) (hc_incarnation s1) (established (hc_links s1)) shard c"
        using s1(1) that by (simp add: chat_ok_def channels_ok_def)
      then have "map_of (cc_members c) cid = None" for cid
        by (cases "map_of (cc_members c) cid") (auto simp: channel_ok_def none)
      then show ?thesis by (metis map_of_eq_empty_iff ext)
    qed
    let ?s = "s1\<lparr>hc_link_generation := generation, hc_links := map_put peer (link\<lparr>ls_link := Some ?fresh\<rparr>) (hc_links s1)\<rparr>"
    have here: "map_of (hc_links s1) peer = Some link" using old_iff [of peer] assms(2) by (simp add: link1)
    have "counts_ok k (s1\<lparr>hc_links := map_put peer (link\<lparr>ls_link := Some ?fresh\<rparr>) (hc_links s1)\<rparr>)"
      using s1(1) here by (intro counts_put_link) (simp_all add: chat_ok_def)
    then have counts: "counts_ok k ?s" by (simp add: counts_ok_def)
    have fresh: "own_link ?s ?fresh" "valid_link ?fresh False"
      using valid_request_link [OF assms(3)] next_counter_valid [OF Some] assms(1,4-7) s1(3-5)
      by (simp_all add: own_link_def valid_link_def chat_ok_def static_ok_def)
    have "links_ok ?s"
      using s1(1) here fresh(1) none o1 unfolding links_ok_def
      by (auto simp: chat_ok_def links_ok_def split: if_splits)
    moreover have "channels_ok ?s"
      using s1(1) no_members by (auto simp: chat_ok_def channels_ok_def channel_ok_def)
    moreover have "replies_ok ?s" "static_ok ?s"
      using s1(1) next_counter_valid [OF Some] by (simp_all add: chat_ok_def replies_ok_def static_ok_def)
    ultimately have "chat_ok k ?s" using counts by (simp add: chat_ok_def)
    moreover have "valid_chat_reply ((reply_to r Chat_ok)\<lparr>cp_link_opt := Some ?fresh\<rparr>) request_id"
      using valid_request_link [OF assms(3)] assms(4) fresh(2) by (simp add: valid_chat_reply_def reply_to_def)
    ultimately show ?thesis
      using Some True by (simp add: handle_hello_def good_result_def s1_def [symmetric] Let_def)
  qed
qed

section \<open>Joining and leaving\<close>

lemma same_link_eq: "same_link a b \<Longrightarrow> a = b"
  by (cases a; cases b) (simp add: same_link_def)

lemma chat_ok_put_link:
  assumes "chat_ok k s" "map_of (hc_links s) peer = Some link" "ls_requests link' = ls_requests link"
    and "ls_link link' = ls_link link"
  shows "chat_ok k (s\<lparr>hc_links := map_put peer link' (hc_links s)\<rparr>)"
proof -
  have o: "ordered (hc_links s)" using assms(1) by (simp add: chat_oks)
  have e: "established (map_put peer link' (hc_links s)) = established (hc_links s)"
    using o assms(2,4) by (auto simp: fun_eq_iff) (simp add: established_def)
  have c: "counts_ok k (s\<lparr>hc_links := map_put peer link' (hc_links s)\<rparr>)"
    using assms by (intro counts_put_link) (simp_all add: chat_ok_def)
  have "links_ok (s\<lparr>hc_links := map_put peer link' (hc_links s)\<rparr>)"
    using assms o by (auto simp: chat_ok_def links_ok_def own_link_def e split: if_splits)
  then show ?thesis
    using assms(1) c by (simp add: chat_ok_def channels_ok_def replies_ok_def static_ok_def e)
qed

lemma chat_ok_put_channel:
  assumes "chat_ok k s" "channel_ok (hc_config s) (hc_incarnation s) (established (hc_links s)) shard c"
  shows "chat_ok k (s\<lparr>hc_channels := map_put shard c (hc_channels s)\<rparr>)"
  using assms by (auto simp: chat_oks)

lemma member_state_members [simp]:
  "receipt_ok (c\<lparr>cc_members := ms\<rparr>) st = receipt_ok c st"
  "member_state_ok (c\<lparr>cc_members := ms\<rparr>) m = member_state_ok c m"
  by (simp_all add: receipt_ok_def member_state_ok_def)

lemma channel_ok_put:
  assumes "channel_ok cfg inc links shard c" "same_channel (ep_channel (cc_epoch c)) (mb_channel (mm_membership m))"
    and "links (mm_peer m) = Some l" "matches_link (mm_membership m) l" "member_state_ok c m"
  shows "channel_ok cfg inc links shard (c\<lparr>cc_members := map_put (mb_character (mm_membership m)) m (cc_members c)\<rparr>)"
  using assms by (auto simp: channel_ok_def)

lemma channel_ok_erase:
  "channel_ok cfg inc links shard c \<Longrightarrow>
   channel_ok cfg inc links shard (c\<lparr>cc_members := map_erase cid (cc_members c)\<rparr>)"
  by (auto simp: channel_ok_def)

text \<open>A request on the established link of its connection, for a channel of this instance.\<close>

definition on_link :: "chat_channels \<Rightarrow> u64 \<Rightarrow> link_state \<Rightarrow> u64 \<Rightarrow> channel_state \<Rightarrow> chat_request \<Rightarrow> u64 \<Rightarrow> bool" where
  "on_link s peer link shard c r request_id \<longleftrightarrow>
     map_of (hc_links s) peer = Some link \<and> ls_link link = Some (cq_link r) \<and>
     map_of (hc_channels s) shard = Some c \<and> valid_chat_request r request_id \<and> cq_operation r \<noteq> Hello \<and>
     same_channel (ep_channel (cc_epoch c)) (mb_channel (cq_membership r))"

lemma on_link_facts:
  assumes "on_link s peer link shard c r request_id" "chat_ok k s"
  shows "established (hc_links s) peer = Some (cq_link r)" "matches_link (cq_membership r) (cq_link r)"
    "channel_ok (hc_config s) (hc_incarnation s) (established (hc_links s)) shard c"
    "own_link s (cq_link r)" "validate_chat_config (hc_config s)" "chat_identity (hc_incarnation s)" "request_id \<noteq> 0"
proof -
  show e: "established (hc_links s) peer = Some (cq_link r)" using assms(1) by (simp add: on_link_def established_def)
  show "matches_link (cq_membership r) (cq_link r)" "request_id \<noteq> 0"
    using assms(1) by (auto simp: on_link_def valid_chat_request_def)
  show "channel_ok (hc_config s) (hc_incarnation s) (established (hc_links s)) shard c"
    using assms by (simp add: on_link_def chat_ok_def channels_ok_def)
  show "own_link s (cq_link r)" using e assms(2) by (simp add: chat_ok_def links_ok_def)
  show "validate_chat_config (hc_config s)" "chat_identity (hc_incarnation s)"
    using assms(2) by (simp_all add: chat_ok_def static_ok_def)
qed

lemma member_reply_valid:
  assumes "valid_chat_request r request_id" "cq_operation r \<noteq> Hello"
  shows "valid_chat_reply ((reply_to r Chat_ok)\<lparr>cp_membership_opt := Some m, cp_state_opt := st, cp_result_opt := res\<rparr>) request_id
    \<longleftrightarrow> valid_reply_body ((reply_to r Chat_ok)\<lparr>cp_membership_opt := Some m, cp_state_opt := st, cp_result_opt := res\<rparr>)
          request_id (cq_link r) m"
  using valid_request_link [OF assms(1)] assms(2) by (simp add: valid_chat_reply_def reply_to_def)

lemma handle_leave_good:
  assumes "chat_ok k s" "on_link s peer link shard c r request_id" "cq_operation r = Leave"
  shows "good_result k request_id (handle_leave peer link shard c r s)"
proof -
  let ?s = "s\<lparr>hc_links := map_put peer (link\<lparr>ls_highest := max (ls_highest link) (mb_generation (cq_membership r))\<rparr>)
      (hc_links s)\<rparr>"
  note facts = on_link_facts [OF assms(2,1)]
  have s: "chat_ok k ?s"
    using assms(1,2) by (intro chat_ok_put_link) (auto simp: on_link_def)
  have "established (hc_links ?s) = established (hc_links s)"
    using assms(1,2) by (auto simp: chat_oks on_link_def fun_eq_iff) (simp add: established_def)
  with facts(3) have "channel_ok (hc_config ?s) (hc_incarnation ?s) (established (hc_links ?s)) shard
      (c\<lparr>cc_members := map_erase (mb_character (cq_membership r)) (cc_members c)\<rparr>)"
    by (simp add: channel_ok_erase)
  from chat_ok_put_channel [OF s this] s
  have "chat_ok k (snd (handle_leave peer link shard c r s))"
    by (simp add: handle_leave_def Let_def)
  moreover have "valid_chat_reply (fst (handle_leave peer link shard c r s)) request_id"
    using member_reply_valid [of r request_id, where m = "cq_membership r" and st = None and res = None] assms(2,3) facts(2)
    by (simp add: handle_leave_def Let_def on_link_def valid_reply_body_def) (simp add: reply_to_def)
  ultimately show ?thesis by (simp add: good_result_def)
qed

text \<open>The epoch of a channel is valid, and so is the state of a member.\<close>

lemma identity_valid: "validate_chat_config cfg \<Longrightarrow> shard \<le> 2 \<Longrightarrow> valid_channel (channel_identity cfg shard)"
proof -
  assume v: "validate_chat_config cfg" and "shard \<le> 2"
  then have "shard \<in> {0, 1, 2}" by (auto simp: word_le_nat_alt word_unat_eq_iff)
  with v show ?thesis
    by (auto simp: validate_chat_config_def valid_channel_def channel_identity_def valid_kind_def)
qed

lemma channel_epoch_valid:
  assumes "channel_ok cfg inc links shard c" "validate_chat_config cfg" "chat_identity inc"
  shows "valid_epoch (cc_epoch c)" "has_epoch (Some (cc_epoch c))" "valid_kind (ch_kind (ep_channel (cc_epoch c)))"
proof -
  have "valid_channel (channel_identity cfg shard)"
    using assms(1,2) by (auto simp: channel_ok_def intro: identity_valid)
  then show "valid_epoch (cc_epoch c)" "has_epoch (Some (cc_epoch c))" "valid_kind (ch_kind (ep_channel (cc_epoch c)))"
    using assms(1,3) by (auto simp: channel_ok_def valid_epoch_def has_epoch_def ep_channel_def valid_channel_def)
qed

lemma receipt_valid:
  assumes "channel_ok cfg inc links shard c" "validate_chat_config cfg" "chat_identity inc"
    and "receipt_ok c st" "kt_last_seq st \<noteq> 0"
  obtains n where "kt_last_receipt st = Some \<lparr>rc_epoch_opt = Some (cc_epoch c), rc_channel_seq = n, rc_send_seq = kt_last_seq st\<rparr>"
    "valid_receipt \<lparr>rc_epoch_opt = Some (cc_epoch c), rc_channel_seq = n, rc_send_seq = kt_last_seq st\<rparr>"
    "n \<le> cc_seq c" "kt_watermark st < n" "kt_last_seq st \<le> n - kt_watermark st" "kt_last_seq st \<le> n"
proof -
  obtain n where n: "kt_last_receipt st = Some \<lparr>rc_epoch_opt = Some (cc_epoch c), rc_channel_seq = n, rc_send_seq = kt_last_seq st\<rparr>"
    "n \<le> cc_seq c" "kt_watermark st < n" "kt_last_seq st \<le> n - kt_watermark st"
    using assms(4,5) by (auto simp: receipt_ok_def)
  have "unat (n - kt_watermark st) = unat n - unat (kt_watermark st)"
    using n(3) by (intro u64_diff_unat) simp
  then have le: "kt_last_seq st \<le> n" using n(4) by (simp add: word_le_nat_alt)
  moreover have "n \<le> chat_counter_max" using assms(1) n(2) by (auto simp: channel_ok_def intro: order_trans)
  moreover have "kt_last_seq st \<le> chat_counter_max" using calculation by (rule order_trans)
  moreover have "n \<noteq> 0" using n(3) by auto
  ultimately have v: "valid_receipt \<lparr>rc_epoch_opt = Some (cc_epoch c), rc_channel_seq = n, rc_send_seq = kt_last_seq st\<rparr>"
    using n(2) assms(5) channel_epoch_valid [OF assms(1-3)] by (simp add: valid_receipt_def chat_counter_def)
  show thesis by (rule that [OF n(1) v n(2,3,4) le])
qed

lemma member_state_valid:
  assumes "channel_ok cfg inc links shard c" "validate_chat_config cfg" "chat_identity inc"
    and "member_state_ok c m" "matches_link (mm_membership m) l" "request_id \<noteq> 0"
  shows "valid_chat_state (mm_state m) request_id"
proof -
  let ?st = "mm_state m"
  have max: "cc_seq c \<le> chat_counter_max" using assms(1) by (simp add: channel_ok_def)
  have base: "kt_phase ?st = Chat_active" "kt_reason ?st = No_reason" "valid_kind (kt_kind ?st)"
    "chat_counter (kt_generation ?st)" "has_epoch (kt_epoch_opt ?st)"
    "ch_kind (ep_channel (or_default default_epoch (kt_epoch_opt ?st))) = kt_kind ?st"
    "kt_watermark ?st \<le> chat_counter_max" "kt_epoch_opt ?st = Some (cc_epoch c)" "receipt_ok c ?st"
    using assms(4,5) channel_epoch_valid [OF assms(1-3)] max
    by (auto simp: member_state_ok_def matches_link_def valid_membership_def)
  show ?thesis
  proof (cases "kt_last_seq ?st = 0")
    case True
    then show ?thesis using base assms(6) by (simp add: valid_chat_state_def receipt_ok_def)
  next
    case False
    obtain n where n: "kt_last_receipt ?st = Some \<lparr>rc_epoch_opt = Some (cc_epoch c), rc_channel_seq = n, rc_send_seq = kt_last_seq ?st\<rparr>"
      "valid_receipt \<lparr>rc_epoch_opt = Some (cc_epoch c), rc_channel_seq = n, rc_send_seq = kt_last_seq ?st\<rparr>"
      "n \<le> cc_seq c" "kt_watermark ?st < n" "kt_last_seq ?st \<le> n - kt_watermark ?st" "kt_last_seq ?st \<le> n"
      using receipt_valid [OF assms(1-3) base(9) False] by blast
    have "valid_state_receipt ?st"
      using n base(8) by (simp add: valid_state_receipt_def same_epoch_def same_channel_def)
    moreover have "kt_last_seq ?st \<le> chat_counter_max" using n(3,6) max by simp
    ultimately show ?thesis using base False assms(6) by (simp add: valid_chat_state_def)
  qed
qed

lemma state_reply_valid:
  assumes "chat_ok k s" "on_link s peer link shard c r request_id" "cq_operation r \<notin> {Leave, Send}"
    and "channel_ok cfg inc links shard c'" "validate_chat_config cfg" "chat_identity inc"
    and "member_state_ok c' m" "matches_link (mm_membership m) l" "cc_epoch c' = cc_epoch c"
    and "mb_generation (mm_membership m) = mb_generation (cq_membership r)" "inc = hc_incarnation s"
  shows "valid_chat_reply (state_reply r m) request_id"
proof -
  note facts = on_link_facts [OF assms(2,1)]
  have st: "valid_chat_state (mm_state m) request_id"
    using member_state_valid [OF assms(4-8)] facts(7) .
  have "ep_incarnation (cc_epoch c) = inc" using assms(4,9) by (auto simp: channel_ok_def)
  then have "valid_reply_body (state_reply r m) request_id (cq_link r) (cq_membership r)"
    using assms(2,3,7,9,10,11) st facts(2,4)
    by (simp add: valid_reply_body_def state_reply_def reply_to_def member_state_ok_def matches_epoch_def
        on_link_def own_link_def)
  then show ?thesis
    using member_reply_valid [of r request_id, where m = "cq_membership r" and st = "Some (mm_state m)" and res = None] assms(2)
    by (simp add: state_reply_def on_link_def) (simp add: reply_to_def)
qed

lemma member_of_facts:
  assumes "member_of peer membership c = Some m" "channel_ok cfg inc links shard c" "links peer = Some l"
  shows "map_of (cc_members c) (mb_character membership) = Some m" "mm_peer m = peer" "same_member (mm_membership m) membership"
    "mb_character (mm_membership m) = mb_character membership" "matches_link (mm_membership m) l" "member_state_ok c m"
    "same_channel (ep_channel (cc_epoch c)) (mb_channel (mm_membership m))"
    "mb_generation (mm_membership m) = mb_generation membership"
proof -
  show *: "map_of (cc_members c) (mb_character membership) = Some m" "mm_peer m = peer" "same_member (mm_membership m) membership"
    using assms(1) by (auto simp: member_of_def split: option.splits if_splits)
  have "mb_character (mm_membership m) = mb_character membership \<and>
      same_channel (ep_channel (cc_epoch c)) (mb_channel (mm_membership m)) \<and>
      (\<exists>l. links (mm_peer m) = Some l \<and> matches_link (mm_membership m) l) \<and> member_state_ok c m"
    using assms(2) *(1) unfolding channel_ok_def by blast
  then show "mb_character (mm_membership m) = mb_character membership" "matches_link (mm_membership m) l" "member_state_ok c m"
    "same_channel (ep_channel (cc_epoch c)) (mb_channel (mm_membership m))"
    using assms(3) *(2) by auto
  show "mb_generation (mm_membership m) = mb_generation membership" using *(3) by (simp add: same_member_def)
qed

lemma handle_join_good:
  assumes "chat_ok k s" "on_link s peer link shard c r request_id" "cq_operation r = Join"
  shows "good_result k request_id (handle_join peer link shard c r now s)"
proof -
  note facts = on_link_facts [OF assms(2,1)]
  have valid: "valid_chat_request r request_id" using assms(2) by (simp add: on_link_def)
  show ?thesis
  proof (cases "member_of peer (cq_membership r) c")
    case (Some m)
    note m = member_of_facts [OF Some facts(3,1)]
    have "valid_chat_reply (state_reply r m) request_id"
      using assms(3) by (intro state_reply_valid [OF assms(1,2) _ facts(3,5,6) m(6,5) refl m(8) refl]) simp
    then show ?thesis using assms(1) Some by (simp add: handle_join_def good_result_def)
  next
    case None
    let ?m = "fresh_member peer (cq_membership r) c now"
    let ?s = "s\<lparr>hc_links := map_put peer (link\<lparr>ls_highest := mb_generation (cq_membership r)\<rparr>) (hc_links s)\<rparr>"
    let ?c = "c\<lparr>cc_members := map_put (mb_character (cq_membership r)) ?m (cc_members c)\<rparr>"
    have s: "chat_ok k ?s" using assms(1,2) by (intro chat_ok_put_link) (auto simp: on_link_def)
    have e: "established (hc_links ?s) = established (hc_links s)"
      using assms(1,2) by (auto simp: chat_oks on_link_def fun_eq_iff) (simp add: established_def)
    have m: "member_state_ok c ?m" "mm_membership ?m = cq_membership r" "mm_peer ?m = peer"
      by (simp_all add: fresh_member_def member_state_ok_def receipt_ok_def)
    have c: "channel_ok (hc_config ?s) (hc_incarnation ?s) (established (hc_links ?s)) shard ?c"
      using channel_ok_put [OF facts(3) _ _ _ m(1)] m assms(2) facts(1,2) unfolding e by (simp add: on_link_def)
    have "chat_ok k (put_member shard (mb_character (cq_membership r)) ?m c ?s)"
      using chat_ok_put_channel [OF s c] by (simp add: put_member_def)
    moreover have "valid_chat_reply (state_reply r ?m) request_id"
      using assms(3) m(2) facts(2)
      by (intro state_reply_valid [OF assms(1,2) _ facts(3,5,6) m(1) _ refl _ refl, where l = "cq_link r"]) simp_all
    ultimately show ?thesis
      using None assms(1) refusal_reply_valid [OF valid]
      by (simp add: handle_join_def good_result_def Let_def)
  qed
qed

end
