(* ===== verification/Chat_Rounds.thy ===== *)
theory Chat_Rounds
  imports Chat_Channels
begin

text \<open>
  What a chat instance promises: every operation of \<open>chat_channels.cpp\<close> keeps its counters and limits,
  every reply that it queues passes the encoder's check, and a client that repeats an accepted message
  gets the receipt of the first attempt.
\<close>

section \<open>Sending\<close>

text \<open>The encoder writes every valid message: its serialised size stays below the envelope's limit.\<close>

definition writes_all :: "chat_internal_message wire \<Rightarrow> bool" where
  "writes_all W \<longleftrightarrow> (\<forall>m r. valid_chat_internal m r \<longrightarrow> (\<exists>bytes. encode_chat_internal W m r = Inr bytes))"

definition good_outcome ::
  "chat_internal_message wire \<Rightarrow> nat \<Rightarrow> u64 \<Rightarrow> error + chat_reply \<times> chat_channels \<Rightarrow> bool" where
  "good_outcome W k request_id out \<longleftrightarrow>
     (case out of Inl e \<Rightarrow> \<not> writes_all W | Inr result \<Rightarrow> good_result k request_id result)"

definition pushable :: "string \<Rightarrow> (u64 \<times> link_state) list \<Rightarrow> channel_state \<Rightarrow> chat_member \<Rightarrow> bool" where
  "pushable incarnation links c m \<longleftrightarrow>
     (\<exists>l. established links (mm_peer m) = Some l \<and> valid_link l False \<and> lk_chat_incarnation l = incarnation \<and>
        matches_link (mm_membership m) l) \<and>
     same_channel (ep_channel (cc_epoch c)) (mb_channel (mm_membership m))"

lemma push_valid:
  assumes "valid_link l False" "lk_chat_incarnation l = ep_incarnation (cc_epoch c)" "matches_link (mm_membership m) l"
    and "same_channel (ep_channel (cc_epoch c)) (mb_channel (mm_membership m))" "has_epoch (Some (cc_epoch c))"
    and "chat_counter number" "mb_character (mm_membership sender) \<noteq> 0" "valid_chat_text words"
  shows "valid_chat_push (chat_push_for l c number sender words m) 0"
proof -
  have "chat_counter (mb_generation (mm_membership m))" using assms(3) by (simp add: matches_link_def valid_membership_def)
  with assms show ?thesis
    by (simp add: valid_chat_push_def chat_push_for_def valid_chat_message_def matches_epoch_def)
qed

lemma reserve_pushes_writes:
  assumes "writes_all W" "\<forall>entry \<in> set ms. pushable (ep_incarnation (cc_epoch c)) links c (snd entry)"
    and "has_epoch (Some (cc_epoch c))" "chat_counter number" "mb_character (mm_membership sender) \<noteq> 0"
    and "valid_chat_text words"
  shows "\<exists>ps. reserve_pushes W links c number sender words ms = Inr ps"
  using assms(2)
proof (induction ms)
  case (Cons entry ms)
  obtain cid m where entry: "entry = (cid, m)" by (cases entry)
  obtain l where l: "Option.bind (map_of links (mm_peer m)) ls_link = Some l" "valid_link l False"
    "lk_chat_incarnation l = ep_incarnation (cc_epoch c)" "matches_link (mm_membership m) l"
    "same_channel (ep_channel (cc_epoch c)) (mb_channel (mm_membership m))"
    using Cons.prems by (auto simp: entry pushable_def established_def)
  have "valid_chat_internal (Chat_push_message (chat_push_for l c number sender words m)) 0"
    using push_valid [OF l(2-5) assms(3-6)] by simp
  then obtain bytes where b: "encode_chat_internal W (Chat_push_message (chat_push_for l c number sender words m)) 0 = Inr bytes"
    using assms(1) unfolding writes_all_def by blast
  obtain ps where "reserve_pushes W links c number sender words ms = Inr ps"
    using Cons by auto
  then show ?case by (simp add: entry l(1) b)
qed simp

lemma reserve_pushes_all:
  "reserve_pushes W links c number sender words ms = Inr ps \<Longrightarrow>
   list_all2 (\<lambda>(key, recipient) p. qp_peer p = mm_peer recipient \<and> qp_membership p = mm_membership recipient \<and>
     (\<exists>l. established links (mm_peer recipient) = Some l \<and>
        encode_chat_internal W (Chat_push_message (chat_push_for l c number sender words recipient)) 0 = Inr (qp_payload p)))
   ms ps"
  by (induction W links c number sender words ms arbitrary: ps rule: reserve_pushes.induct)
    (auto simp: established_def split: option.splits sum.splits)

lemma refill_keeps [simp]:
  "mm_membership (refill_tokens now m) = mm_membership m" "mm_peer (refill_tokens now m) = mm_peer m"
  "mm_state (refill_tokens now m) = mm_state m" "mm_last_text (refill_tokens now m) = mm_last_text m"
  by (simp_all add: refill_tokens_def)

lemma accepted_keeps [simp]:
  "mm_membership (accepted_member m r number words) = mm_membership m"
  "mm_peer (accepted_member m r number words) = mm_peer m"
  "mm_last_text (accepted_member m r number words) = words"
  "mm_state (accepted_member m r number words) = (mm_state m)\<lparr>kt_last_receipt := Some r, kt_last_seq := number\<rparr>"
  by (simp_all add: accepted_member_def)

lemma channel_ok_seq:
  assumes "channel_ok cfg inc links shard c" "cc_seq c \<le> n" "n \<le> chat_counter_max"
  shows "channel_ok cfg inc links shard (c\<lparr>cc_seq := n\<rparr>)"
proof -
  have "member_state_ok (c\<lparr>cc_seq := n\<rparr>) m" if "member_state_ok c m" for m
    using that assms(2) order_trans [OF _ assms(2)]
    by (auto simp: member_state_ok_def receipt_ok_def split: if_splits)
  then show ?thesis using assms(1,3) unfolding channel_ok_def by auto
qed

lemma accepted_state_ok:
  assumes "member_state_ok c m" "next_counter (kt_last_seq (mm_state m)) = Some seq"
    and "next_counter (cc_seq c) = Some number"
  shows "member_state_ok (c\<lparr>cc_seq := number\<rparr>)
    (accepted_member m \<lparr>rc_epoch_opt = Some (cc_epoch c), rc_channel_seq = number, rc_send_seq = seq\<rparr> seq words)"
proof -
  let ?st = "mm_state m"
  note s = next_counter_valid [OF assms(2)] and n = next_counter_valid [OF assms(3)]
  have ok: "kt_watermark ?st \<le> cc_seq c" "receipt_ok c ?st"
    using assms(1) by (simp_all add: member_state_ok_def)
  then have w: "kt_watermark ?st < number" using n(3) by simp
  have nw: "unat (number - kt_watermark ?st) = unat number - unat (kt_watermark ?st)"
    using w by (intro u64_diff_unat) simp
  have "unat (kt_last_seq ?st) + unat (kt_watermark ?st) \<le> unat (cc_seq c)"
  proof (cases "kt_last_seq ?st = 0")
    case True
    then show ?thesis using ok(1) by (simp add: word_le_nat_alt)
  next
    case False
    then obtain v where v: "v \<le> cc_seq c" "kt_watermark ?st < v" "kt_last_seq ?st \<le> v - kt_watermark ?st"
      using ok(2) by (auto simp: receipt_ok_def)
    have "unat (v - kt_watermark ?st) = unat v - unat (kt_watermark ?st)"
      using v(2) by (intro u64_diff_unat) simp
    then show ?thesis using v by (simp add: word_le_nat_alt word_less_nat_alt)
  qed
  then have "seq \<le> number - kt_watermark ?st"
    using s(4) n(4) nw by (simp add: word_le_nat_alt)
  moreover have "seq \<noteq> 0" using s(1) by (simp add: chat_counter_def)
  moreover have "kt_watermark ?st \<le> number" using w by simp
  ultimately show ?thesis using assms(1) w by (simp add: member_state_ok_def receipt_ok_def)
qed

text \<open>The result that a reply carries.\<close>

definition send_reply :: "chat_request \<Rightarrow> chat_result \<Rightarrow> chat_reply" where
  "send_reply r result =
     (reply_to r Chat_ok)\<lparr>cp_membership_opt := Some (cq_membership r), cp_result_opt := Some result\<rparr>"

definition answers :: "send_chat \<Rightarrow> chat_result \<Rightarrow> bool" where
  "answers d result \<longleftrightarrow> sr_kind result = sd_kind d \<and> sr_generation result = sd_generation d \<and>
     sr_epoch_opt result = Some (sd_epoch d) \<and> sr_seq result = sd_seq d"

lemma send_facts:
  assumes "valid_chat_request r request_id" "cq_operation r = Send"
  shows "valid_send (cq_send r) request_id" "sd_generation (cq_send r) = mb_generation (cq_membership r)"
    "matches_epoch (sd_epoch (cq_send r)) (cq_membership r) (cq_link r)" "matches_link (cq_membership r) (cq_link r)"
    "has_epoch (Some (sd_epoch (cq_send r)))"
  using assms by (auto simp: valid_chat_request_def valid_send_def has_epoch_def sd_epoch_def)

lemma send_reply_valid:
  assumes "valid_chat_request r request_id" "cq_operation r = Send" "answers (cq_send r) result"
    and "valid_send_result result request_id"
  shows "valid_chat_reply (send_reply r result) request_id"
proof -
  note f = send_facts [OF assms(1,2)]
  have "valid_reply_body (send_reply r result) request_id (cq_link r) (cq_membership r)"
    using f assms(2-4) by (simp add: valid_reply_body_def send_reply_def reply_to_def answers_def)
  then show ?thesis
    using member_reply_valid [OF assms(1), where m = "cq_membership r" and st = None and res = "Some result"] assms(2)
    by (simp add: send_reply_def) (simp add: reply_to_def)
qed

lemma valid_answer:
  assumes "valid_send d request_id" "answers d result" "has_epoch (Some (sd_epoch d))"
  shows "request_id \<noteq> 0" "valid_kind (sr_kind result)" "chat_counter (sr_generation result)" "has_epoch (sr_epoch_opt result)"
    "ch_kind (ep_channel (or_default default_epoch (sr_epoch_opt result))) = sr_kind result" "chat_counter (sr_seq result)"
  using assms by (simp_all add: valid_send_def answers_def)

lemma rejection_valid:
  assumes "valid_send d request_id" "has_epoch (Some (sd_epoch d))"
    and "why \<in> {Wrong_epoch, Sequence_conflict, Counter_exhausted, Invalid_sequence, Rate_limited, Resource_limit}"
  shows "valid_send_result (reject_result why (pending_result d)) request_id" "answers d (reject_result why (pending_result d))"
proof -
  show a: "answers d (reject_result why (pending_result d))"
    by (simp add: answers_def reject_result_def pending_result_def)
  show "valid_send_result (reject_result why (pending_result d)) request_id"
    using valid_answer [OF assms(1) a assms(2)] assms(3)
    by (auto simp: valid_send_result_def reject_result_def pending_result_def retried_reason_def chat_retry_after_ms_max_def)
qed

lemma acceptance_valid:
  assumes "valid_send d request_id" "has_epoch (Some (sd_epoch d))" "valid_receipt x" "rc_send_seq x = sd_seq d"
    and "rc_epoch_opt x = Some e" "same_epoch e (sd_epoch d)"
  shows "valid_send_result ((pending_result d)\<lparr>sr_outcome := Accepted, sr_receipt := Some x\<rparr>) request_id"
    "answers d ((pending_result d)\<lparr>sr_outcome := Accepted, sr_receipt := Some x\<rparr>)"
proof -
  let ?r = "(pending_result d)\<lparr>sr_outcome := Accepted, sr_receipt := Some x\<rparr>"
  show a: "answers d ?r" by (simp add: answers_def pending_result_def)
  show "valid_send_result ?r request_id"
    using valid_answer [OF assms(1) a assms(2)] assms(3-6)
    by (simp add: valid_send_result_def pending_result_def)
qed

text \<open>The pieces of an accepted message.\<close>

lemma counts_push:
  assumes "counts_ok k s" "chat_budget_allows (length (hc_pushes s), hc_push_bytes s) (length ps, push_bytes ps)
      (cg_pending_pushes (hc_config s), cg_pending_push_bytes (hc_config s))"
  shows "counts_ok k (s\<lparr>hc_pushes := hc_pushes s @ ps, hc_push_bytes := hc_push_bytes s + push_bytes ps\<rparr>)"
  using assms by (auto simp: counts_ok_def chat_budget_allows_def push_bytes_def)

lemma chat_ok_push:
  assumes "chat_ok k s" "chat_budget_allows (length (hc_pushes s), hc_push_bytes s) (length ps, push_bytes ps)
      (cg_pending_pushes (hc_config s), cg_pending_push_bytes (hc_config s))"
  shows "chat_ok k (s\<lparr>hc_pushes := hc_pushes s @ ps, hc_push_bytes := hc_push_bytes s + push_bytes ps\<rparr>)"
proof -
  let ?s = "s\<lparr>hc_pushes := hc_pushes s @ ps, hc_push_bytes := hc_push_bytes s + push_bytes ps\<rparr>"
  have "counts_ok k ?s" using assms by (intro counts_push) (simp_all add: chat_ok_def)
  then show ?thesis
    using assms(1) by (simp add: chat_ok_def links_ok_def channels_ok_def replies_ok_def static_ok_def own_link_def)
qed

lemma chat_ok_member:
  assumes "chat_ok k s" "channel_ok (hc_config s) (hc_incarnation s) (established (hc_links s)) shard c"
    and "member_state_ok c m" "established (hc_links s) (mm_peer m) = Some l" "matches_link (mm_membership m) l"
    and "same_channel (ep_channel (cc_epoch c)) (mb_channel (mm_membership m))" "cid = mb_character (mm_membership m)"
  shows "chat_ok k (put_member shard cid m c s)"
    "channel_ok (hc_config s) (hc_incarnation s) (established (hc_links s)) shard
       (c\<lparr>cc_members := map_put cid m (cc_members c)\<rparr>)"
proof -
  show c: "channel_ok (hc_config s) (hc_incarnation s) (established (hc_links s)) shard
       (c\<lparr>cc_members := map_put cid m (cc_members c)\<rparr>)"
    using channel_ok_put [OF assms(2,6,4,5,3)] assms(7) by simp
  show "chat_ok k (put_member shard cid m c s)"
    using chat_ok_put_channel [OF assms(1) c] by (simp add: put_member_def)
qed

lemma put_member_parts [simp]:
  "hc_links (put_member shard cid m c s) = hc_links s" "hc_config (put_member shard cid m c s) = hc_config s"
  "hc_incarnation (put_member shard cid m c s) = hc_incarnation s" "hc_pushes (put_member shard cid m c s) = hc_pushes s"
  "hc_push_bytes (put_member shard cid m c s) = hc_push_bytes s" "hc_replies (put_member shard cid m c s) = hc_replies s"
  by (simp_all add: put_member_def)

lemma members_pushable:
  assumes "channel_ok (hc_config s) (hc_incarnation s) (established (hc_links s)) shard c" "links_ok s"
  shows "\<forall>entry \<in> set (cc_members c). pushable (ep_incarnation (cc_epoch c)) (hc_links s) c (snd entry)"
proof
  fix entry assume e: "entry \<in> set (cc_members c)"
  have o: "ordered (cc_members c)" and inc: "ep_incarnation (cc_epoch c) = hc_incarnation s"
    using assms(1) by (auto simp: channel_ok_def)
  have "map_of (cc_members c) (fst entry) = Some (snd entry)"
    using e ordered_distinct [OF o] by simp
  then have "same_channel (ep_channel (cc_epoch c)) (mb_channel (mm_membership (snd entry))) \<and>
      (\<exists>l. established (hc_links s) (mm_peer (snd entry)) = Some l \<and> matches_link (mm_membership (snd entry)) l)"
    using assms(1) unfolding channel_ok_def by blast
  then show "pushable (ep_incarnation (cc_epoch c)) (hc_links s) c (snd entry)"
    using assms(2) unfolding pushable_def links_ok_def own_link_def inc by metis
qed

definition sent_well :: "chat_internal_message wire \<Rightarrow> nat \<Rightarrow> u64 \<Rightarrow> send_chat \<Rightarrow> error + chat_result \<times> chat_channels \<Rightarrow> bool" where
  "sent_well W k request_id d out \<longleftrightarrow>
     (case out of Inl e \<Rightarrow> \<not> writes_all W
      | Inr (result, s) \<Rightarrow> valid_send_result result request_id \<and> answers d result \<and> chat_ok k s)"

lemma sent_reject:
  assumes "valid_send d request_id" "has_epoch (Some (sd_epoch d))" "chat_ok k s"
    and "why \<in> {Wrong_epoch, Sequence_conflict, Counter_exhausted, Invalid_sequence, Rate_limited, Resource_limit}"
  shows "sent_well W k request_id d (Inr (reject_result why (pending_result d), count_stat stat_rejected s))"
  using rejection_valid [OF assms(1,2,4)] assms(3) by (simp add: sent_well_def)

text \<open>A first attempt: the member's tokens are refilled, the pushes reserved, the message accepted.\<close>

definition first_attempt ::
  "chat_internal_message wire \<Rightarrow> u64 \<Rightarrow> u64 \<Rightarrow> channel_state \<Rightarrow> chat_member \<Rightarrow> send_chat \<Rightarrow> u64 \<Rightarrow> chat_channels \<Rightarrow>
   error + chat_result \<times> chat_channels" where
  "first_attempt W shard cid c m d number s =
     (if mm_tokens m < 1
      then Inr (reject_result Rate_limited (pending_result d), count_stat stat_rejected (count_stat stat_rate s))
      else case reserve_pushes W (hc_links s) c number m (sd_text d) (cc_members c) of
             Inl e \<Rightarrow> Inl e
           | Inr ps \<Rightarrow>
               if \<not> chat_budget_allows (length (hc_pushes s), hc_push_bytes s) (length ps, push_bytes ps)
                      (cg_pending_pushes (hc_config s), cg_pending_push_bytes (hc_config s))
               then Inr (reject_result Resource_limit (pending_result d), count_stat stat_rejected (count_stat stat_resource s))
               else (let x = \<lparr>rc_epoch_opt = Some (cc_epoch c), rc_channel_seq = number, rc_send_seq = sd_seq d\<rparr>;
                         s1 = put_member shard cid (accepted_member m x (sd_seq d) (sd_text d)) (c\<lparr>cc_seq := number\<rparr>) s
                     in Inr ((pending_result d)\<lparr>sr_outcome := Accepted, sr_receipt := Some x\<rparr>,
                          count_stat stat_accepted (s1\<lparr>hc_pushes := hc_pushes s1 @ ps,
                            hc_push_bytes := hc_push_bytes s1 + push_bytes ps\<rparr>))))"

lemma send_message_first:
  assumes "ep_incarnation (sd_epoch d) = hc_incarnation s" "next_counter (kt_last_seq (mm_state m)) = Some (sd_seq d)"
    and "next_counter (cc_seq c) = Some number"
  shows "send_message W shard cid c m d (pending_result d) now s =
     first_attempt W shard cid (c\<lparr>cc_members := map_put cid (refill_tokens now m) (cc_members c)\<rparr>) (refill_tokens now m) d number
       (put_member shard cid (refill_tokens now m) c s)"
proof -
  have "sd_seq d \<noteq> kt_last_seq (mm_state m)" using next_counter_valid(3) [OF assms(2)] by simp
  then show ?thesis
    using assms by (simp add: send_message_def first_attempt_def Let_def cong: sum.case_cong if_cong)
qed

lemma first_attempt_good:
  assumes ok: "chat_ok k s" "channel_ok (hc_config s) (hc_incarnation s) (established (hc_links s)) shard c"
    and m: "member_state_ok c m" "established (hc_links s) (mm_peer m) = Some l" "matches_link (mm_membership m) l"
      "same_channel (ep_channel (cc_epoch c)) (mb_channel (mm_membership m))"
    and d: "valid_send d request_id" "has_epoch (Some (sd_epoch d))" "same_epoch (cc_epoch c) (sd_epoch d)"
    and n: "next_counter (kt_last_seq (mm_state m)) = Some (sd_seq d)" "next_counter (cc_seq c) = Some number"
  shows "sent_well W k request_id d (first_attempt W shard (mb_character (mm_membership m)) c m d number s)"
proof -
  let ?x = "\<lparr>rc_epoch_opt = Some (cc_epoch c), rc_channel_seq = number, rc_send_seq = sd_seq d\<rparr>"
  let ?m = "accepted_member m ?x (sd_seq d) (sd_text d)"
  note number = next_counter_valid [OF n(2)]
  have static: "validate_chat_config (hc_config s)" "chat_identity (hc_incarnation s)" "links_ok s"
    using ok(1) by (simp_all add: chat_ok_def static_ok_def)
  note epoch = channel_epoch_valid [OF ok(2) static(1,2)]
  have c: "channel_ok (hc_config s) (hc_incarnation s) (established (hc_links s)) shard (c\<lparr>cc_seq := number\<rparr>)"
    using number(2,3) by (intro channel_ok_seq [OF ok(2)]) simp_all
  have st: "member_state_ok (c\<lparr>cc_seq := number\<rparr>) ?m" by (rule accepted_state_ok [OF m(1) n])
  have s1: "chat_ok k (put_member shard (mb_character (mm_membership m)) ?m (c\<lparr>cc_seq := number\<rparr>) s)"
    using m(2-4) by (intro chat_ok_member(1) [OF ok(1) c st]) simp_all
  have "receipt_ok (c\<lparr>cc_seq := number\<rparr>) (mm_state ?m)" "kt_last_seq (mm_state ?m) \<noteq> 0"
    using st next_counter_valid(1) [OF n(1)] by (simp_all add: member_state_ok_def chat_counter_def)
  from receipt_valid [OF c static(1,2) this] have x: "valid_receipt ?x" by simp
  have written: "\<exists>ps. reserve_pushes W (hc_links s) c number m (sd_text d) (cc_members c) = Inr ps" if "writes_all W"
    using that members_pushable [OF ok(2) static(3)] epoch(2) number(1) m(3) d(1)
    by (intro reserve_pushes_writes) (simp_all add: matches_link_def valid_membership_def valid_send_def)
  consider "mm_tokens m < 1" | e where "\<not> mm_tokens m < 1" "reserve_pushes W (hc_links s) c number m (sd_text d) (cc_members c) = Inl e"
    | ps where "\<not> mm_tokens m < 1" "reserve_pushes W (hc_links s) c number m (sd_text d) (cc_members c) = Inr ps"
    by (cases "reserve_pushes W (hc_links s) c number m (sd_text d) (cc_members c)") auto
  then show ?thesis
  proof cases
    case 1
    then show ?thesis using sent_reject [OF d(1,2)] ok(1) by (simp add: first_attempt_def)
  next
    case 2
    then show ?thesis using written by (auto simp: first_attempt_def sent_well_def)
  next
    case (3 ps)
    show ?thesis
    proof (cases "chat_budget_allows (length (hc_pushes s), hc_push_bytes s) (length ps, push_bytes ps)
        (cg_pending_pushes (hc_config s), cg_pending_push_bytes (hc_config s))")
      case False
      then show ?thesis using 3 sent_reject [OF d(1,2)] ok(1) by (simp add: first_attempt_def)
    next
      case True
      then show ?thesis
        using 3 chat_ok_push [OF s1, of ps] acceptance_valid [OF d(1,2) x, of "cc_epoch c"] d(3)
        by (simp add: first_attempt_def sent_well_def Let_def)
    qed
  qed
qed

lemma send_message_refused:
  assumes "ep_incarnation (sd_epoch d) = hc_incarnation s"
    and "\<not> (sd_seq d = kt_last_seq (mm_state m) \<and> kt_last_seq (mm_state m) \<noteq> 0)"
    and "\<not> (next_counter (kt_last_seq (mm_state m)) = Some (sd_seq d) \<and> next_counter (cc_seq c) \<noteq> None)"
  shows "send_message W shard cid c m d result now s =
    Inr (reject_result (if next_counter (kt_last_seq (mm_state m)) = None \<or> next_counter (cc_seq c) = None
       then Counter_exhausted else Invalid_sequence) result, count_stat stat_rejected s)"
proof -
  have "(case (a, b) of (Some x, Some y) \<Rightarrow> if d \<noteq> x then P else Q x y | _ \<Rightarrow> R) = (if a = None \<or> b = None then R else P)"
    if "\<not> (a = Some d \<and> b \<noteq> None)" for a b :: "u64 option" and d and P R :: "error + chat_result \<times> chat_channels" and Q
    using that by (auto split: option.splits)
  then show ?thesis
    unfolding send_message_def Let_def if_not_P [OF assms(2)] using assms(1,3) by simp
qed

lemma send_message_good:
  assumes ok: "chat_ok k s" "on_link s peer link shard c r request_id" "cq_operation r = Send"
    and m: "member_of peer (cq_membership r) c = Some m"
  shows "sent_well W k request_id (cq_send r)
    (send_message W shard (mb_character (cq_membership r)) c m (cq_send r) (pending_result (cq_send r)) now s)"
proof -
  let ?d = "cq_send r" and ?m = "refill_tokens now m"
  note facts = on_link_facts [OF ok(2,1)]
  note mem = member_of_facts [OF m facts(3,1)]
  have valid: "valid_chat_request r request_id" using ok(2) by (simp add: on_link_def)
  note d = send_facts [OF valid ok(3)]
  have inc: "ep_incarnation (sd_epoch ?d) = hc_incarnation s" "ep_incarnation (cc_epoch c) = hc_incarnation s"
    using d(3) facts(3,4) by (auto simp: matches_epoch_def own_link_def channel_ok_def)
  have epoch: "same_epoch (cc_epoch c) (sd_epoch ?d)"
    using d(3) inc ok(2) by (simp add: same_epoch_def matches_epoch_def on_link_def same_channel_def)
  note reject = sent_reject [OF d(1,5) ok(1), where W = W]
  show ?thesis
  proof (cases "sd_seq ?d = kt_last_seq (mm_state m) \<and> kt_last_seq (mm_state m) \<noteq> 0")
    case True
    have "receipt_ok c (mm_state m)" using mem(6) by (simp add: member_state_ok_def)
    then obtain n where n: "kt_last_receipt (mm_state m) =
        Some \<lparr>rc_epoch_opt = Some (cc_epoch c), rc_channel_seq = n, rc_send_seq = kt_last_seq (mm_state m)\<rparr>"
      "valid_receipt \<lparr>rc_epoch_opt = Some (cc_epoch c), rc_channel_seq = n, rc_send_seq = kt_last_seq (mm_state m)\<rparr>"
      using receipt_valid [OF facts(3,5,6)] True by metis
    then show ?thesis
      using True inc reject ok(1) acceptance_valid [OF d(1,5) n(2), of "cc_epoch c"] epoch
      by (simp add: send_message_def sent_well_def)
  next
    case fresh: False
    show ?thesis
    proof (cases "next_counter (kt_last_seq (mm_state m)) = Some (sd_seq ?d) \<and> next_counter (cc_seq c) \<noteq> None")
      case True
      then obtain number where n: "next_counter (kt_last_seq (mm_state m)) = Some (sd_seq ?d)" "next_counter (cc_seq c) = Some number"
        by auto
      let ?s = "put_member shard (mb_character (cq_membership r)) ?m c s"
      have ms: "member_state_ok c ?m" using mem(6) by (simp add: member_state_ok_def)
      have put: "chat_ok k ?s" "channel_ok (hc_config ?s) (hc_incarnation ?s) (established (hc_links ?s)) shard
          (c\<lparr>cc_members := map_put (mb_character (cq_membership r)) ?m (cc_members c)\<rparr>)"
        using chat_ok_member [OF ok(1) facts(3) ms, of "cq_link r"] mem facts(1) by simp_all
      have "sent_well W k request_id ?d (first_attempt W shard (mb_character (mm_membership ?m))
          (c\<lparr>cc_members := map_put (mb_character (cq_membership r)) ?m (cc_members c)\<rparr>) ?m ?d number ?s)"
        using ms mem facts(1) n d(1,5) epoch
        by (intro first_attempt_good [OF put, where l = "cq_link r"]) simp_all
      then show ?thesis using send_message_first [OF inc(1) n] mem(4) by simp
    next
      case False
      show ?thesis
        using send_message_refused [OF inc(1) fresh False] reject by simp
    qed
  qed
qed

section \<open>Handling\<close>

lemma handle_member_good:
  assumes "chat_ok k s" "on_link s peer link shard c r request_id" "cq_operation r \<notin> {Leave, Join}"
  shows "good_outcome W k request_id (handle_member W peer shard c r now s)"
proof -
  note facts = on_link_facts [OF assms(2,1)]
  have valid: "valid_chat_request r request_id" using assms(2) by (simp add: on_link_def)
  show ?thesis
  proof (cases "member_of peer (cq_membership r) c")
    case None
    then show ?thesis
      using refusal_reply_valid [OF valid] assms(1) by (simp add: handle_member_def good_outcome_def good_result_def)
  next
    case (Some m)
    note mem = member_of_facts [OF Some facts(3,1)]
    show ?thesis
    proof (cases "cq_operation r = Send")
      case True
      show ?thesis
        using send_message_good [OF assms(1,2) True Some, of W now] send_reply_valid [OF valid True]
        by (auto simp: handle_member_def Some True sent_well_def good_outcome_def good_result_def send_reply_def
            split: sum.splits)
    next
      case False
      then have "valid_chat_reply (state_reply r m) request_id"
        using assms(3) by (intro state_reply_valid [OF assms(1,2) _ facts(3,5,6) mem(6,5) refl mem(8) refl]) simp
      then show ?thesis using False Some assms(1) by (simp add: handle_member_def good_outcome_def good_result_def)
    qed
  qed
qed

lemma handle_chat_good:
  assumes "chat_ok k s" "map_of (hc_links s) peer = Some link" "valid_chat_request r request_id"
  shows "good_outcome W k request_id (handle_chat W peer link r now s)"
proof -
  have refuse: "good_outcome W k request_id (Inr (reply_to r st, s))"
    "good_outcome W k request_id (Inr (reply_to r st, count_stat f s))"
    if "valid_chat_status st" "st \<noteq> Chat_ok" for st f
    using refusal_reply_valid [OF assms(3) that] assms(1) by (simp_all add: good_outcome_def good_result_def)
  let ?shard = "ch_shard (mb_channel (cq_membership r))"
  let ?foreign = "lk_realm (cq_link r) \<noteq> cg_realm (hc_config s) \<or>
    lk_realm_instance (cq_link r) \<noteq> cg_realm_instance (hc_config s) \<or> lk_chat_instance (cq_link r) \<noteq> hc_instance s"
  let ?linked = "ls_link link = Some (cq_link r)"
  have linked: "(case ls_link link of None \<Rightarrow> False | Some l \<Rightarrow> same_link l (cq_link r)) = ?linked"
    by (cases "ls_link link") (auto intro: same_link_eq simp: same_link_def)
  consider (refused) "?foreign \<or> cq_operation r \<noteq> Hello \<and> (\<not> ?linked \<or> (case map_of (hc_channels s) ?shard of None \<Rightarrow> True
      | Some c \<Rightarrow> \<not> same_channel (ep_channel (cc_epoch c)) (mb_channel (cq_membership r))))"
    | (hello) "\<not> ?foreign" "cq_operation r = Hello"
    | (line) c where "\<not> ?foreign" "cq_operation r \<noteq> Hello" ?linked "map_of (hc_channels s) ?shard = Some c"
        "same_channel (ep_channel (cc_epoch c)) (mb_channel (cq_membership r))"
    by (cases "map_of (hc_channels s) ?shard") fastforce+
  then show ?thesis
  proof cases
    case refused
    have "handle_chat W peer link r now s \<in>
        {Inr (reply_to r Forbidden, s), Inr (reply_to r Stale_link, count_stat stat_stale s)}"
      using refused
      by (cases "map_of (hc_channels s) ?shard"; cases ?linked; cases ?foreign)
        (simp_all add: handle_chat_def linked same_link_def)
    then show ?thesis using refuse by auto
  next
    case hello
    have "handle_chat W peer link r now s = Inr (handle_hello peer link r s)"
      using hello by (simp add: handle_chat_def)
    then show ?thesis using handle_hello_good [OF assms] hello by (simp add: good_outcome_def)
  next
    case (line c)
    have on: "on_link s peer link ?shard c r request_id" using line assms by (simp add: on_link_def)
    have "handle_chat W peer link r now s =
        (if cq_operation r = Leave then Inr (handle_leave peer link ?shard c r s)
         else if cq_operation r = Join then Inr (handle_join peer link ?shard c r now s)
         else handle_member W peer ?shard c r now s)"
      using line unfolding handle_chat_def linked Let_def by simp
    then show ?thesis
      using handle_leave_good [OF assms(1) on] handle_join_good [OF assms(1) on, of now] handle_member_good [OF assms(1) on, of W now]
      by (simp add: good_outcome_def)
  qed
qed

lemma answer_request_good:
  assumes "chat_ok k s" "map_of (hc_links s) peer = Some link" "valid_chat_request (pn_request p) (pn_id p)"
  shows "good_outcome W k (pn_id p) (answer_request W peer link p now s)"
  using handle_chat_good [OF assms] refusal_reply_valid [OF assms(3), of Chat_unavailable] assms(1)
  by (simp add: answer_request_def good_outcome_def good_result_def)

section \<open>Rounds\<close>

lemma take_first_Some:
  "take_first P xs = Some (x, ys) \<Longrightarrow> P x \<and> x \<in> set xs \<and> set ys \<subseteq> set xs \<and> length xs = Suc (length ys)"
  by (induction xs arbitrary: ys) (auto split: if_splits option.splits)

lemma next_link_Some:
  assumes "next_link key links = Some (peer, link)" "ordered links"
  shows "map_of links peer = Some link"
proof -
  have "(peer, link) \<in> set links"
  proof (cases "filter (\<lambda>entry. key \<le> fst entry) links")
    case Nil
    then show ?thesis using assms(1) by (cases links) (auto simp: next_link_def)
  next
    case (Cons a as)
    then have "a \<in> set links" by (auto dest: filter_eq_ConsD)
    then show ?thesis using assms(1) Cons by (simp add: next_link_def)
  qed
  then show ?thesis using ordered_distinct [OF assms(2)] by simp
qed

text \<open>Popping a request, and storing its reply.\<close>

lemma pop_ok:
  assumes "chat_ok 0 s" "map_of (hc_links s) peer = Some link" "take_first P (ls_requests link) = Some (p, rest)"
  shows "chat_ok 1 (s\<lparr>hc_next_peer := n, hc_links := map_put peer (link\<lparr>ls_requests := rest\<rparr>) (hc_links s)\<rparr>)"
    "valid_chat_request (pn_request p) (pn_id p)"
proof -
  let ?link = "link\<lparr>ls_requests := rest\<rparr>"
  let ?s = "s\<lparr>hc_next_peer := n, hc_links := map_put peer ?link (hc_links s)\<rparr>"
  note p = take_first_Some [OF assms(3)]
  have o: "ordered (hc_links s)" using assms(1) by (simp add: chat_oks)
  have all: "\<forall>p \<in> set (ls_requests link). valid_chat_request (pn_request p) (pn_id p)"
    using assms(1,2) by (simp add: chat_ok_def links_ok_def)
  then show "valid_chat_request (pn_request p) (pn_id p)" using p by blast
  have e: "established (map_put peer ?link (hc_links s)) = established (hc_links s)"
    using o assms(2) by (auto simp: fun_eq_iff) (simp add: established_def)
  have "queued (hc_links s) = Suc (queued (map_put peer ?link (hc_links s)))"
    using queued_put [OF o, of peer ?link] queued_erase [OF o, of peer] assms(2) p by simp
  moreover have "length (map_put peer ?link (hc_links s)) = length (hc_links s)"
    using o assms(2) by (intro length_put_present) (auto dest: map_of_Some_mem)
  moreover have "length rest \<le> cg_queued_per_link (hc_config s)"
    using p assms(1,2) by (fastforce simp: chat_ok_def counts_ok_def)
  ultimately have "counts_ok 1 ?s" using assms(1) o by (auto simp: chat_ok_def counts_ok_def)
  moreover have "links_ok ?s"
    using assms(1) o all p by (auto simp: chat_ok_def links_ok_def own_link_def e split: if_splits)
  ultimately show "chat_ok 1 ?s"
    using assms(1) by (simp add: chat_ok_def channels_ok_def replies_ok_def static_ok_def e)
qed

lemma reply_ok:
  assumes "chat_ok 1 s" "valid_chat_reply (og_message x) (og_id x)"
  shows "chat_ok 0 (s\<lparr>hc_replies := hc_replies s @ [x]\<rparr>)"
  using assms by (auto simp: chat_oks)

lemma round_loop_good:
  assumes "chat_ok 0 s"
  shows "case round_loop W now attempts processed served s of Inl e \<Rightarrow> \<not> writes_all W | Inr s' \<Rightarrow> chat_ok 0 s'"
  using assms
proof (induction attempts arbitrary: processed served s)
  case (Suc attempts)
  have o: "ordered (hc_links s)" using Suc.prems by (simp add: chat_oks)
  have next_ok: "chat_ok 0 (s\<lparr>hc_next_peer := n\<rparr>)" for n using Suc.prems by simp
  consider "chat_requests_per_round_max \<le> processed \<or> next_link (hc_next_peer s) (hc_links s) = None"
    | peer link where "processed < chat_requests_per_round_max" "next_link (hc_next_peer s) (hc_links s) = Some (peer, link)"
    by (cases "next_link (hc_next_peer s) (hc_links s)") force+
  then show ?case
  proof cases
    case 1
    then show ?thesis using Suc.prems by auto
  next
    case (2 peer link)
    have here: "map_of (hc_links s) peer = Some link" by (rule next_link_Some [OF 2(2) o])
    show ?thesis
    proof (cases "take_first (serviceable now peer served) (ls_requests link)")
      case None
      then show ?thesis using 2 Suc.IH [OF next_ok] by simp
    next
      case (Some found)
      obtain p rest where f: "found = (p, rest)" by (cases found)
      let ?link = "link\<lparr>ls_requests := rest\<rparr>"
      let ?s = "s\<lparr>hc_next_peer := peer + 1, hc_links := map_put peer ?link (hc_links s)\<rparr>"
      note pop = pop_ok(1) [OF Suc.prems here Some [unfolded f], of "peer + 1"]
        pop_ok(2) [OF Suc.prems here Some [unfolded f]]
      have "map_of (hc_links ?s) peer = Some ?link" using o by simp
      note ans = answer_request_good [OF pop(1) this pop(2), of W now]
      show ?thesis
      proof (cases "answer_request W peer ?link p now ?s")
        case (Inl e)
        then show ?thesis using ans 2 Some f by (simp add: good_outcome_def)
      next
        case (Inr out)
        obtain reply s3 where out: "out = (reply, s3)" by (cases out)
        have "chat_ok 0 (s3\<lparr>hc_replies := hc_replies s3 @ [outgoing peer p reply now s3]\<rparr>)"
          using ans by (intro reply_ok) (simp_all add: Inr out good_outcome_def good_result_def outgoing_def)
        then show ?thesis using Suc.IH 2 Some f Inr out by simp
      qed
    qed
  qed
qed simp

lemma run_round_good:
  "chat_ok 0 s \<Longrightarrow> case run_round W now s of Inl e \<Rightarrow> \<not> writes_all W | Inr s' \<Rightarrow> chat_ok 0 s'"
  unfolding run_round_def by (rule round_loop_good)

section \<open>The other operations\<close>

lemma chat_opened_ok:
  assumes "chat_ok k s"
  shows "chat_ok k (snd (chat_opened peer s))"
proof (cases "peer = 0 \<or> map_of (hc_links s) peer \<noteq> None \<or> chat_connections_max \<le> length (hc_links s) + length (hc_closed s)")
  case True
  then show ?thesis using assms by (auto simp: chat_opened_def)
next
  case False
  let ?link = "\<lparr>ls_link = None, ls_highest = 0, ls_requests = []\<rparr>"
  let ?s = "s\<lparr>hc_links := map_put peer ?link (hc_links s)\<rparr>"
  have o: "ordered (hc_links s)" using assms by (simp add: chat_oks)
  have new: "peer \<notin> fst ` set (hc_links s)" using False by (simp add: map_of_eq_None_iff)
  have e: "established (map_put peer ?link (hc_links s)) = established (hc_links s)"
    using o False by (auto simp: fun_eq_iff) (simp add: established_def)
  have "queued (map_put peer ?link (hc_links s)) = queued (hc_links s)"
    using queued_put [OF o, of peer ?link] queued_erase [OF o, of peer] False by auto
  moreover have "length (map_put peer ?link (hc_links s)) = Suc (length (hc_links s))"
    using o new by (simp add: length_map_put length_ordered)
  ultimately have "counts_ok k ?s" using assms o False by (auto simp: chat_ok_def counts_ok_def)
  moreover have "links_ok ?s" using assms o by (auto simp: chat_ok_def links_ok_def own_link_def e split: if_splits)
  ultimately have "chat_ok k ?s"
    using assms by (simp add: chat_ok_def channels_ok_def replies_ok_def static_ok_def e)
  then show ?thesis using False by (auto simp: chat_opened_def)
qed

lemma submit_request_ok:
  assumes "chat_ok 0 s" "submit_request W peer r request_id now s = Inr (taken, s')"
  shows "chat_ok 0 s'"
proof -
  consider "s' = s \<or> s' = queue_rejected s"
    | link bytes where "map_of (hc_links s) peer = Some link" "hc_pending s < cg_pending_requests (hc_config s)"
      "length (ls_requests link) < cg_queued_per_link (hc_config s)"
      "encode_chat_internal W (Chat_request_message r) request_id = Inr bytes"
      "s' = s\<lparr>hc_links := map_put peer (link\<lparr>ls_requests := ls_requests link @
          [\<lparr>pn_request = known_request r, pn_id = request_id,
            pn_deadline = now + milliseconds (cg_timeout_ms (hc_config s))\<rparr>]\<rparr>) (hc_links s),
        hc_pending := hc_pending s + 1\<rparr>"
    using assms(2) by (fastforce simp: submit_request_def split: option.splits if_splits sum.splits)
  then show ?thesis
  proof cases
    case 1
    then show ?thesis using assms(1) by auto
  next
    case (2 link bytes)
    let ?p = "\<lparr>pn_request = r, pn_id = request_id, pn_deadline = now + milliseconds (cg_timeout_ms (hc_config s))\<rparr>"
    let ?link = "link\<lparr>ls_requests := ls_requests link @ [?p]\<rparr>"
    have v: "valid_chat_request r request_id"
      using 2(4) by (simp add: encode_chat_internal_def encode_chat_def encode_checked_Inr)
    note after = 2(5) [unfolded known_request_valid [OF v]]
    have o: "ordered (hc_links s)" using assms(1) by (simp add: chat_oks)
    have e: "established (map_put peer ?link (hc_links s)) = established (hc_links s)"
      using o 2(1) by (auto simp: fun_eq_iff) (simp add: established_def)
    have "queued (map_put peer ?link (hc_links s)) = Suc (queued (hc_links s))"
      using queued_put [OF o, of peer ?link] queued_erase [OF o, of peer] 2(1) by simp
    moreover have "length (map_put peer ?link (hc_links s)) = length (hc_links s)"
      using o 2(1) by (intro length_put_present) (auto dest: map_of_Some_mem)
    ultimately have "counts_ok 0 s'" using assms(1) o 2(1-3) after by (auto simp: chat_ok_def counts_ok_def)
    moreover have "links_ok s'"
      using assms(1) o 2(1) v after
      by (auto simp: chat_ok_def links_ok_def own_link_def e split: if_splits)
    ultimately show ?thesis
      using assms(1) after by (simp add: chat_ok_def channels_ok_def replies_ok_def static_ok_def e)
  qed
qed

lemma take_reply_ok: "chat_ok 0 s \<Longrightarrow> chat_ok 0 (snd (take_reply s))"
  by (cases "hc_replies s") (auto simp: take_reply_def chat_oks)

lemma drain_step_ok:
  assumes "chat_ok 0 s" "hc_pushes s = p # ps"
  shows "chat_ok 0 (s\<lparr>hc_pushes := ps, hc_push_bytes := hc_push_bytes s - length (qp_payload p)\<rparr>)"
  using assms by (auto simp: chat_oks push_bytes_def)

lemma drain_loop_ok: "chat_ok 0 s \<Longrightarrow> chat_ok 0 (snd (drain_loop n s ready))"
proof (induction n arbitrary: s ready)
  case (Suc n)
  show ?case
  proof (cases "hc_pushes s")
    case (Cons p ps)
    then show ?thesis using Suc.IH [OF drain_step_ok [OF Suc.prems Cons]] by simp
  qed (simp add: Suc.prems)
qed simp

lemma take_closed_ok: "chat_ok 0 s \<Longrightarrow> chat_ok 0 (snd (take_closed_peers s))"
  by (auto simp: take_closed_peers_def chat_oks)

lemma new_channels_ok:
  assumes "list_all (\<lambda>shard. shard \<le> 2) shards"
    and "ordered m" "\<forall>shard c. map_of m shard = Some c \<longrightarrow> channel_ok cfg inc links shard c"
  shows "ordered (fold (\<lambda>shard. map_put shard (new_channel cfg inc shard)) shards m) \<and>
    (\<forall>shard c. map_of (fold (\<lambda>shard. map_put shard (new_channel cfg inc shard)) shards m) shard = Some c \<longrightarrow>
       channel_ok cfg inc links shard c)"
  using assms
proof (induction shards arbitrary: m)
  case (Cons x shards)
  have "channel_ok cfg inc links x (new_channel cfg inc x)"
    using Cons.prems(1) by (simp add: channel_ok_def new_channel_def)
  with Cons.prems have "\<forall>shard c. map_of (map_put x (new_channel cfg inc x) m) shard = Some c \<longrightarrow>
      channel_ok cfg inc links shard c"
    by auto
  with Cons.IH [of "map_put x (new_channel cfg inc x) m"] Cons.prems show ?case by simp
qed simp

lemma new_chat_channels_ok:
  assumes "new_chat_channels W cfg instance_id incarnation = Inr s"
  shows "chat_ok 0 s"
proof -
  have cfg: "validate_chat_config cfg" using assms by (simp add: new_chat_channels_def split: if_splits)
  obtain bytes where b: "encode_chat_internal W (Chat_reply_message (validation_probe cfg instance_id incarnation)) 1 = Inr bytes"
    using assms cfg by (auto simp: new_chat_channels_def split: sum.splits)
  then have "valid_chat_reply (validation_probe cfg instance_id incarnation) 1"
    by (simp add: encode_chat_internal_def encode_chat_def encode_checked_Inr)
  then have ids: "chat_identity instance_id" "chat_identity incarnation"
    by (simp_all add: valid_chat_reply_def validation_probe_def valid_link_def)
  have "list_all (\<lambda>shard. shard \<le> 2) (cg_channels cfg)" using cfg by (simp add: validate_chat_config_def)
  from new_channels_ok [OF this, of "[]" cfg incarnation "established []"]
  have "ordered (hc_channels s)" "\<forall>shard c. map_of (hc_channels s) shard = Some c \<longrightarrow> channel_ok cfg incarnation (established []) shard c"
    using assms cfg b by (auto simp: new_chat_channels_def)
  moreover have "established [] peer = None" for peer by (simp add: established_def)
  ultimately show ?thesis
    using assms cfg b ids by (auto simp: new_chat_channels_def chat_oks queued_def push_bytes_def)
qed

section \<open>Histories\<close>

text \<open>The states of one instance, by the calls of \<open>chat_module.cpp\<close>.\<close>

inductive chat_history :: "chat_internal_message wire \<Rightarrow> chat_channels \<Rightarrow> bool" for W where
  started: "chat_history W s" if "new_chat_channels W cfg instance_id incarnation = Inr s"
| opened: "chat_history W (snd (chat_opened peer s))" if "chat_history W s"
| closed: "chat_history W (chat_closed peer s)" if "chat_history W s"
| submitted: "chat_history W s'" if "chat_history W s" "submit_request W peer r request_id now s = Inr (taken, s')"
| worked: "chat_history W s'" if "chat_history W s" "run_round W now s = Inr s'"
| answered: "chat_history W (snd (take_reply s))" if "chat_history W s"
| drained: "chat_history W (snd (drain_pushes s))" if "chat_history W s"
| cleared: "chat_history W (snd (take_closed_peers s))" if "chat_history W s"

lemma chat_history_ok: "chat_history W s \<Longrightarrow> chat_ok 0 s"
proof (induction rule: chat_history.induct)
  case (worked s now s')
  then show ?case using run_round_good [of s W now] by simp
qed (auto intro: new_chat_channels_ok chat_opened_ok chat_closed_ok submit_request_ok take_reply_ok take_closed_ok
    simp: drain_pushes_def drain_loop_ok)

text \<open>
  C33. At every point of its history a chat instance counts exactly the requests that are queued or answered
  but not yet taken, and the bytes of the waiting pushes; requests, pushes, bytes and connections stay
  within their limits, the requests of each connection too; and at most one connection holds the realm's
  link.
\<close>

theorem chat_limits:
  assumes "chat_history W s"
  shows "hc_pending s = queued (hc_links s) + length (hc_replies s) \<and>
    hc_pending s \<le> cg_pending_requests (hc_config s) \<and>
    hc_push_bytes s = push_bytes (hc_pushes s) \<and> hc_push_bytes s \<le> cg_pending_push_bytes (hc_config s) \<and>
    length (hc_pushes s) \<le> cg_pending_pushes (hc_config s) \<and>
    length (hc_links s) + length (hc_closed s) \<le> chat_connections_max \<and>
    (\<forall>peer link. map_of (hc_links s) peer = Some link \<longrightarrow> length (ls_requests link) \<le> cg_queued_per_link (hc_config s)) \<and>
    (\<forall>p q l l'. established (hc_links s) p = Some l \<and> established (hc_links s) q = Some l' \<longrightarrow> p = q)"
  using chat_history_ok [OF assms] unfolding chat_ok_def counts_ok_def links_ok_def by simp

text \<open>
  C34. Where the encoder writes every valid message, no round of the instance fails, and every reply that
  then waits is written by the encoder: the module that sends the replies never meets an exception.
\<close>

theorem rounds_never_fail:
  assumes "writes_all W" "chat_history W s"
  shows "\<exists>s'. run_round W now s = Inr s' \<and>
    (\<forall>x \<in> set (hc_replies s'). \<exists>bytes. encode_chat_internal W (Chat_reply_message (og_message x)) (og_id x) = Inr bytes)"
proof -
  obtain s' where s': "run_round W now s = Inr s'" "chat_ok 0 s'"
    using run_round_good [OF chat_history_ok [OF assms(2)], of W now] assms(1) by (auto split: sum.splits)
  then have "\<forall>x \<in> set (hc_replies s'). valid_chat_internal (Chat_reply_message (og_message x)) (og_id x)"
    by (simp add: chat_ok_def replies_ok_def)
  with assms(1) s'(1) show ?thesis unfolding writes_all_def by blast
qed

section \<open>Repeating an accepted message\<close>

definition maps_ordered :: "chat_channels \<Rightarrow> bool" where
  "maps_ordered s \<longleftrightarrow> ordered (hc_channels s) \<and> list_all (\<lambda>entry. ordered (cc_members (snd entry))) (hc_channels s)"

lemma chat_ok_maps: "chat_ok k s \<Longrightarrow> maps_ordered s"
  using map_of_is_SomeI [OF ordered_distinct]
  by (fastforce simp: maps_ordered_def chat_ok_def channels_ok_def channel_ok_def list_all_iff)

lemma first_attempt_accepted:
  assumes "first_attempt W shard cid c m d number s = Inr (result, s')" "sr_outcome result = Accepted"
  obtains ps where "reserve_pushes W (hc_links s) c number m (sd_text d) (cc_members c) = Inr ps"
    "result = (pending_result d)\<lparr>sr_outcome := Accepted, sr_receipt :=
       Some \<lparr>rc_epoch_opt = Some (cc_epoch c), rc_channel_seq = number, rc_send_seq = sd_seq d\<rparr>\<rparr>"
    "s' = count_stat stat_accepted ((put_member shard cid (accepted_member m
        \<lparr>rc_epoch_opt = Some (cc_epoch c), rc_channel_seq = number, rc_send_seq = sd_seq d\<rparr> (sd_seq d) (sd_text d))
        (c\<lparr>cc_seq := number\<rparr>) s)\<lparr>hc_pushes := hc_pushes s @ ps, hc_push_bytes := hc_push_bytes s + push_bytes ps\<rparr>)"
  using assms
  by (auto simp: first_attempt_def reject_result_def Let_def split: if_splits sum.splits)

lemma send_message_accepted:
  assumes "send_message W shard cid c m d (pending_result d) now s = Inr (result, s')" "sr_outcome result = Accepted"
  obtains (replay) "ep_incarnation (sd_epoch d) = hc_incarnation s" "sd_seq d = kt_last_seq (mm_state m)" "sd_seq d \<noteq> 0"
      "mm_last_text m = sd_text d" "s' = count_stat stat_replayed s"
      "result = (pending_result d)\<lparr>sr_outcome := Accepted, sr_receipt := Some (or_default default_receipt (kt_last_receipt (mm_state m)))\<rparr>"
    | (first) number where "ep_incarnation (sd_epoch d) = hc_incarnation s"
      "next_counter (kt_last_seq (mm_state m)) = Some (sd_seq d)" "next_counter (cc_seq c) = Some number"
      "first_attempt W shard cid (c\<lparr>cc_members := map_put cid (refill_tokens now m) (cc_members c)\<rparr>) (refill_tokens now m) d number
         (put_member shard cid (refill_tokens now m) c s) = Inr (result, s')"
proof (cases "ep_incarnation (sd_epoch d) = hc_incarnation s")
  case False
  then show thesis using assms by (auto simp: send_message_def reject_result_def Let_def)
next
  case inc: True
  show thesis
  proof (cases "sd_seq d = kt_last_seq (mm_state m) \<and> kt_last_seq (mm_state m) \<noteq> 0")
    case True
    then have "mm_last_text m = sd_text d"
      using assms inc by (auto simp: send_message_def reject_result_def split: if_splits)
    then show thesis using True assms inc by (intro replay) (auto simp: send_message_def)
  next
    case False
    show thesis
    proof (cases "next_counter (kt_last_seq (mm_state m)) = Some (sd_seq d) \<and> next_counter (cc_seq c) \<noteq> None")
      case True
      then obtain number where n: "next_counter (kt_last_seq (mm_state m)) = Some (sd_seq d)" "next_counter (cc_seq c) = Some number"
        by auto
      show thesis by (rule first [OF inc n trans [OF send_message_first [OF inc n, symmetric] assms(1)]])
    next
      case none: False
      show thesis using send_message_refused [OF inc False none] assms by (auto simp: reject_result_def)
    qed
  qed
qed

text \<open>What the state holds after an accepted message: the member's receipt and text are those of the result.\<close>

lemma send_message_remembers:
  assumes "send_message W shard cid c m d (pending_result d) now s = Inr (result, s')" "sr_outcome result = Accepted"
    and "ordered (hc_channels s)" "ordered (cc_members c)" "map_of (hc_channels s) shard = Some c" "map_of (cc_members c) cid = Some m"
  shows "\<exists>c' m'. map_of (hc_channels s') shard = Some c' \<and> map_of (cc_members c') cid = Some m' \<and>
    cc_epoch c' = cc_epoch c \<and> mm_peer m' = mm_peer m \<and> mm_membership m' = mm_membership m \<and>
    ep_incarnation (sd_epoch d) = hc_incarnation s' \<and> kt_last_seq (mm_state m') = sd_seq d \<and> sd_seq d \<noteq> 0 \<and>
    mm_last_text m' = sd_text d \<and> hc_config s' = hc_config s \<and> hc_instance s' = hc_instance s \<and>
    result = (pending_result d)\<lparr>sr_outcome := Accepted, sr_receipt := Some (or_default default_receipt (kt_last_receipt (mm_state m')))\<rparr>"
  using assms(1,2)
proof (cases rule: send_message_accepted)
  case replay
  then show ?thesis using assms(3-6) by (auto simp: count_stat_def)
next
  case (first number)
  have "sd_seq d \<noteq> 0" using next_counter_valid(1) [OF first(2)] by (simp add: chat_counter_def)
  from first(4) assms(2) this first(1) assms(3-6) show ?thesis
    by (cases rule: first_attempt_accepted) (auto simp: count_stat_def put_member_def or_default_def)
qed

lemma send_message_replay:
  assumes "ep_incarnation (sd_epoch d) = hc_incarnation s" "kt_last_seq (mm_state m) = sd_seq d" "sd_seq d \<noteq> 0"
    and "mm_last_text m = sd_text d"
  shows "send_message W shard cid c m d result now s =
    Inr (result\<lparr>sr_outcome := Accepted, sr_receipt := Some (or_default default_receipt (kt_last_receipt (mm_state m)))\<rparr>,
      count_stat stat_replayed s)"
  using assms by (simp add: send_message_def)

lemma handle_chat_sent:
  assumes "handle_chat W peer link r now s = Inr (reply, s')" "cq_operation r = Send" "cp_result_opt reply = Some result"
  obtains c m where "map_of (hc_channels s) (ch_shard (mb_channel (cq_membership r))) = Some c"
    "same_channel (ep_channel (cc_epoch c)) (mb_channel (cq_membership r))" "member_of peer (cq_membership r) c = Some m"
    "send_message W (ch_shard (mb_channel (cq_membership r))) (mb_character (cq_membership r)) c m (cq_send r)
       (pending_result (cq_send r)) now s = Inr (result, s')"
    "reply = send_reply r result"
    "\<And>later u. hc_config u = hc_config s \<Longrightarrow> hc_instance u = hc_instance s \<Longrightarrow>
       handle_chat W peer link r later u =
         (case map_of (hc_channels u) (ch_shard (mb_channel (cq_membership r))) of
            None \<Rightarrow> Inr (reply_to r Forbidden, u)
          | Some c \<Rightarrow> if \<not> same_channel (ep_channel (cc_epoch c)) (mb_channel (cq_membership r))
                     then Inr (reply_to r Forbidden, u)
                     else handle_member W peer (ch_shard (mb_channel (cq_membership r))) c r later u)"
  using assms
  by (auto simp: handle_chat_def handle_member_def Let_def reply_to_def send_reply_def state_reply_def
      split: if_splits option.splits sum.splits)

text \<open>
  C35. A client that repeats a message which the instance has accepted gets the same reply, with the channel
  number of the first attempt, however late it asks: the repetition is counted and changes nothing else,
  so that it sends no second push and takes no second number.
\<close>

theorem accepted_send_replays:
  assumes "maps_ordered s" "cq_operation r = Send" "handle_chat W peer link r now s = Inr (reply, s')"
    and "cp_result_opt reply = Some result" "sr_outcome result = Accepted"
  shows "handle_chat W peer link r later s' = Inr (reply, count_stat stat_replayed s')"
proof -
  let ?shard = "ch_shard (mb_channel (cq_membership r))"
  obtain c m where c: "map_of (hc_channels s) ?shard = Some c"
    "same_channel (ep_channel (cc_epoch c)) (mb_channel (cq_membership r))" "member_of peer (cq_membership r) c = Some m"
    "send_message W ?shard (mb_character (cq_membership r)) c m (cq_send r) (pending_result (cq_send r)) now s = Inr (result, s')"
    "reply = send_reply r result"
    and again: "\<And>later u. hc_config u = hc_config s \<Longrightarrow> hc_instance u = hc_instance s \<Longrightarrow>
       handle_chat W peer link r later u =
         (case map_of (hc_channels u) ?shard of
            None \<Rightarrow> Inr (reply_to r Forbidden, u)
          | Some c \<Rightarrow> if \<not> same_channel (ep_channel (cc_epoch c)) (mb_channel (cq_membership r))
                     then Inr (reply_to r Forbidden, u)
                     else handle_member W peer ?shard c r later u)"
    by (rule handle_chat_sent [OF assms(3,2,4)]) blast
  have o: "ordered (hc_channels s)" "ordered (cc_members c)"
    using assms(1) map_of_SomeD [OF c(1)] by (auto simp: maps_ordered_def list_all_iff)
  have m: "map_of (cc_members c) (mb_character (cq_membership r)) = Some m" "mm_peer m = peer"
    "same_member (mm_membership m) (cq_membership r)"
    using c(3) by (auto simp: member_of_def split: option.splits if_splits)
  obtain c' m' where after: "map_of (hc_channels s') ?shard = Some c'" "map_of (cc_members c') (mb_character (cq_membership r)) = Some m'"
    "cc_epoch c' = cc_epoch c" "mm_peer m' = mm_peer m" "mm_membership m' = mm_membership m"
    "ep_incarnation (sd_epoch (cq_send r)) = hc_incarnation s'" "kt_last_seq (mm_state m') = sd_seq (cq_send r)" "sd_seq (cq_send r) \<noteq> 0"
    "mm_last_text m' = sd_text (cq_send r)" "hc_config s' = hc_config s" "hc_instance s' = hc_instance s"
    "result = (pending_result (cq_send r))\<lparr>sr_outcome := Accepted,
       sr_receipt := Some (or_default default_receipt (kt_last_receipt (mm_state m')))\<rparr>"
    using send_message_remembers [OF c(4) assms(5) o c(1) m(1)] by blast
  have "member_of peer (cq_membership r) c' = Some m'" using after m by (simp add: member_of_def)
  then have "handle_member W peer ?shard c' r later s' = Inr (reply, count_stat stat_replayed s')"
    using send_message_replay [OF after(6-9)] after(12) assms(2) c(5) by (simp add: handle_member_def send_reply_def)
  then show ?thesis using again [OF after(10,11)] after(1,3) c(2) by simp
qed

text \<open>
  C36. A message that is accepted for the first time takes the next number of its channel: the channel then holds
  that number, and keeps its epoch and its members. Of these only the sender's entry changes: it remembers the
  text, its number and the receipt, and has paid one token. The waiting pushes get exactly one for
  each member of the channel, in the order of their characters: the encoding, for that member's connection, of the
  text with the new number.
\<close>

theorem accepted_send_delivers:
  assumes "send_message W shard cid c m d (pending_result d) now s = Inr (result, s')"
    and "sr_outcome result = Accepted" "sd_seq d \<noteq> kt_last_seq (mm_state m)"
  shows "\<exists>ps c' m' receipt.
    receipt = \<lparr>rc_epoch_opt = Some (cc_epoch c), rc_channel_seq = cc_seq c + 1, rc_send_seq = sd_seq d\<rparr> \<and>
    sr_receipt result = Some receipt \<and>
    hc_channels s' = map_put shard c' (hc_channels s) \<and>
    cc_seq c < chat_counter_max \<and> cc_seq c' = cc_seq c + 1 \<and> cc_epoch c' = cc_epoch c \<and>
    cc_members c' = map_put cid m' (cc_members c) \<and>
    mm_state m' = (mm_state m)\<lparr>kt_last_receipt := Some receipt, kt_last_seq := sd_seq d\<rparr> \<and>
    sd_seq d = kt_last_seq (mm_state m) + 1 \<and> mm_last_text m' = sd_text d \<and>
    mm_peer m' = mm_peer m \<and> mm_membership m' = mm_membership m \<and>
    1 \<le> mm_tokens (refill_tokens now m) \<and> mm_tokens m' = round_double (mm_tokens (refill_tokens now m) - 1) \<and>
    hc_pushes s' = hc_pushes s @ ps \<and> hc_push_bytes s' = hc_push_bytes s + push_bytes ps \<and>
    list_all2 (\<lambda>(key, recipient) p. qp_peer p = mm_peer recipient \<and> qp_membership p = mm_membership recipient \<and>
        (\<exists>l. established (hc_links s) (mm_peer recipient) = Some l \<and>
           encode_chat_internal W (Chat_push_message (chat_push_for l c (cc_seq c + 1) m (sd_text d) recipient)) 0 = Inr (qp_payload p)))
      (map_put cid (refill_tokens now m) (cc_members c)) ps"
  using assms(1,2)
proof (cases rule: send_message_accepted)
  case replay
  then show ?thesis using assms(3) by simp
next
  case (first number)
  have seqs: "number = cc_seq c + 1" "sd_seq d = kt_last_seq (mm_state m) + 1" "cc_seq c < chat_counter_max"
    using first(2,3) by (auto simp: next_counter_def split: if_splits)
  let ?x = "\<lparr>rc_epoch_opt = Some (cc_epoch c), rc_channel_seq = number, rc_send_seq = sd_seq d\<rparr>"
  let ?m = "accepted_member (refill_tokens now m) ?x (sd_seq d) (sd_text d)"
  from first(4) assms(2) show ?thesis
  proof (cases rule: first_attempt_accepted)
    case (1 ps)
    have pushed: "list_all2 (\<lambda>(key, recipient) p. qp_peer p = mm_peer recipient \<and> qp_membership p = mm_membership recipient \<and>
        (\<exists>l. established (hc_links s) (mm_peer recipient) = Some l \<and>
           encode_chat_internal W (Chat_push_message (chat_push_for l c number m (sd_text d) recipient)) 0 = Inr (qp_payload p)))
      (map_put cid (refill_tokens now m) (cc_members c)) ps"
      using reserve_pushes_all [OF 1(1)] by (simp add: chat_push_for_def)
    have paid: "1 \<le> mm_tokens (refill_tokens now m)"
      using first(4) assms(2) by (auto simp: first_attempt_def reject_result_def split: if_splits)
    show ?thesis
      using pushed seqs paid
      by (intro exI [of _ ps] exI [of _ "c\<lparr>cc_seq := number, cc_members := map_put cid ?m (cc_members c)\<rparr>"] exI [of _ ?m]
          exI [of _ ?x]) (simp add: 1(2,3) count_stat_def put_member_def accepted_member_def)
  qed
qed

section \<open>A concrete instance\<close>

text \<open>An encoder that writes every message in no bytes, one channel with one member.\<close>

definition short_wire :: "chat_internal_message wire" where
  "short_wire =
     (\<lparr>ec_serialize = \<lambda>e. Some (ev_payload e), ec_parse = \<lambda>bytes. None\<rparr>,
      \<lparr>pb_serialize = \<lambda>m. Some [], pb_parse = \<lambda>k bytes. None, pb_byte_size = \<lambda>m. 0\<rparr>)"

lemma short_wire_writes: "valid_chat_internal m r \<Longrightarrow> encode_chat_internal short_wire m r = Inr []"
  by (simp add: encode_chat_internal_def encode_chat_def encode_checked_def encode_message_def short_wire_def envelope_max_def)

definition sample_config :: chat_config where
  "sample_config = \<lparr>cg_realm = 1, cg_realm_instance = ''r'', cg_realm_identity = ''i'', cg_channels = [0],
     cg_pending_requests = 4, cg_queued_per_link = 2, cg_pending_pushes = 4, cg_pending_push_bytes = 100, cg_timeout_ms = 100\<rparr>"

definition sample_line :: chat_link where
  "sample_line = \<lparr>lk_realm = 1, lk_realm_instance = ''r'', lk_realm_incarnation = ''a'', lk_chat_instance = ''c'',
     lk_chat_incarnation = ''k'', lk_generation = 1\<rparr>"

definition sample_membership :: membership where
  "sample_membership = \<lparr>mb_channel_opt = Some (channel_identity sample_config 0), mb_character = 7, mb_realm_incarnation = ''a'',
     mb_session = 3, mb_generation = 2, mb_scene_epoch = 0\<rparr>"

definition sample_member :: chat_member where
  "sample_member = fresh_member 1 sample_membership (new_channel sample_config ''k'' 0) 0"

definition sample_state :: chat_channels where
  "sample_state =
     \<lparr>hc_config = sample_config, hc_instance = ''c'', hc_incarnation = ''k'',
      hc_channels = [(0, (new_channel sample_config ''k'' 0)\<lparr>cc_members := [(7, sample_member)]\<rparr>)],
      hc_links = [(1, \<lparr>ls_link = Some sample_line, ls_highest = 2, ls_requests = []\<rparr>)],
      hc_replies = [], hc_pushes = [], hc_closed = [], hc_pending = 0, hc_push_bytes = 0, hc_link_generation = 1,
      hc_next_peer = 0,
      hc_stats = \<lparr>cn_accepted = 0, cn_rejected = 0, cn_replayed = 0, cn_queue_rejected = 0, cn_expired = 0,
        cn_rate_rejected = 0, cn_stale_rejected = 0, cn_resource_rejected = 0\<rparr>\<rparr>"

definition sample_send :: chat_request where
  "sample_send =
     \<lparr>cq_link_opt = Some sample_line, cq_operation = Send, cq_membership_opt = Some sample_membership,
      cq_send_opt = Some \<lparr>sd_kind = Channel_realm, sd_generation = 2,
        sd_epoch_opt = Some (cc_epoch (new_channel sample_config ''k'' 0)), sd_seq = 1, sd_text = ''hi''\<rparr>\<rparr>"

lemmas sample_defs = sample_config_def sample_line_def sample_membership_def sample_member_def sample_state_def sample_send_def
  new_channel_def fresh_member_def channel_identity_def

lemma sample_starts: "\<exists>s. new_chat_channels short_wire sample_config ''c'' ''k'' = Inr s"
proof -
  have "valid_chat_reply (validation_probe sample_config ''c'' ''k'') 1"
    by (simp add: validation_probe_def valid_chat_reply_def valid_chat_operation_def valid_link_def chat_identity_def
        graphic_char_def sample_config_def chat_counter_def chat_counter_max_def)
  moreover have "validate_chat_config sample_config"
    by (simp add: validate_chat_config_def sample_config_def chat_identity_def graphic_char_def)
  ultimately show ?thesis by (simp add: new_chat_channels_def short_wire_writes)
qed

lemma sample_text: "valid_chat_text ''hi''"
  by code_simp

definition sample_channel :: channel_state where
  "sample_channel = (new_channel sample_config ''k'' 0)\<lparr>cc_members := [(7, sample_member)]\<rparr>"

lemma sample_push_valid: "valid_chat_push (chat_push_for sample_line sample_channel 1 sample_member ''hi'' sample_member) 0"
  using sample_text
  by (simp add: sample_defs sample_channel_def valid_chat_push_def chat_push_for_def valid_link_def chat_identity_def graphic_char_def
      chat_counter_def chat_counter_max_def matches_link_def valid_membership_def valid_channel_def valid_kind_def mb_channel_def
      or_default_def valid_chat_message_def has_epoch_def valid_epoch_def ep_channel_def matches_epoch_def same_channel_def)

lemma sample_accepted:
  "\<exists>result s'. send_message short_wire 0 7 sample_channel sample_member (cq_send sample_send)
     (pending_result (cq_send sample_send)) 0 sample_state = Inr (result, s') \<and> sr_outcome result = Accepted"
proof -
  let ?d = "cq_send sample_send"
  have d: "sd_text ?d = ''hi''" "sd_seq ?d = 1" "ep_incarnation (sd_epoch ?d) = hc_incarnation sample_state"
    by (simp_all add: sample_defs cq_send_def or_default_def sd_epoch_def)
  have n: "next_counter (kt_last_seq (mm_state sample_member)) = Some (sd_seq ?d)" "next_counter (cc_seq sample_channel) = Some 1"
    unfolding d by (simp_all add: sample_defs sample_channel_def next_counter_def chat_counter_max_def)
  have m: "refill_tokens 0 sample_member = sample_member" "mm_peer sample_member = 1" "mm_tokens sample_member = 10"
    by (simp_all add: refill_tokens_def sample_member_def fresh_member_def)
  have c: "sample_channel\<lparr>cc_members := map_put 7 sample_member (cc_members sample_channel)\<rparr> = sample_channel"
    "cc_members sample_channel = [(7, sample_member)]"
    by (simp_all add: sample_channel_def)
  have s: "hc_pushes sample_state = []" "hc_push_bytes sample_state = 0" "cg_pending_pushes (hc_config sample_state) = 4"
    "cg_pending_push_bytes (hc_config sample_state) = 100"
    "Option.bind (map_of (hc_links sample_state) 1) ls_link = Some sample_line"
    by (simp_all add: sample_state_def sample_config_def)
  have "encode_chat_internal short_wire (Chat_push_message (chat_push_for sample_line sample_channel 1 sample_member ''hi'' sample_member)) 0
      = Inr []"
    using sample_push_valid by (intro short_wire_writes) simp
  then have r: "reserve_pushes short_wire (hc_links sample_state) sample_channel 1 sample_member ''hi'' (cc_members sample_channel) =
      Inr [\<lparr>qp_peer = 1, qp_membership = mm_membership sample_member, qp_payload = []\<rparr>]"
    by (simp add: c(2) m(2) s(5))
  show ?thesis
    unfolding send_message_first [OF d(3) n] m(1) c(1)
    by (simp add: first_attempt_def r m(3) d(1) s chat_budget_allows_def push_bytes_def Let_def)
qed

theorem chat_limits_witness:
  "\<exists>s. new_chat_channels short_wire sample_config ''c'' ''k'' = Inr s \<and>
     length (hc_links (snd (chat_opened 1 s))) + length (hc_closed (snd (chat_opened 1 s))) \<le> chat_connections_max"
proof -
  obtain s where s: "new_chat_channels short_wire sample_config ''c'' ''k'' = Inr s"
    using sample_starts by blast
  from chat_limits [OF chat_history.opened [OF chat_history.started [OF s], of 1]] s show ?thesis by blast
qed

theorem rounds_never_fail_witness:
  "\<exists>s s'. new_chat_channels short_wire sample_config ''c'' ''k'' = Inr s \<and> run_round short_wire 5 (snd (chat_opened 1 s)) = Inr s'"
proof -
  obtain s where s: "new_chat_channels short_wire sample_config ''c'' ''k'' = Inr s"
    using sample_starts by blast
  have "writes_all short_wire" using short_wire_writes unfolding writes_all_def by blast
  from rounds_never_fail [OF this chat_history.opened [OF chat_history.started [OF s], of 1], of 5] s show ?thesis by blast
qed

theorem accepted_send_replays_witness:
  "\<exists>reply s'. handle_chat short_wire 1 \<lparr>ls_link = Some sample_line, ls_highest = 2, ls_requests = []\<rparr> sample_send 0 sample_state
       = Inr (reply, s') \<and>
     handle_chat short_wire 1 \<lparr>ls_link = Some sample_line, ls_highest = 2, ls_requests = []\<rparr> sample_send 9 s'
       = Inr (reply, count_stat stat_replayed s')"
proof -
  let ?link = "\<lparr>ls_link = Some sample_line, ls_highest = 2, ls_requests = []\<rparr>"
  obtain result s' where sent: "send_message short_wire 0 7 sample_channel sample_member (cq_send sample_send)
     (pending_result (cq_send sample_send)) 0 sample_state = Inr (result, s')" "sr_outcome result = Accepted"
    using sample_accepted by blast
  have membership: "cq_membership sample_send = sample_membership"
    by (simp add: sample_send_def cq_membership_def or_default_def)
  have "map_of (hc_channels sample_state) 0 = Some sample_channel" "member_of 1 sample_membership sample_channel = Some sample_member"
    "same_channel (ep_channel (cc_epoch sample_channel)) (mb_channel sample_membership)" "ch_shard (mb_channel sample_membership) = 0"
    "mb_character sample_membership = 7"
    by (simp_all add: sample_defs sample_channel_def member_of_def same_member_def same_channel_def ep_channel_def mb_channel_def
        or_default_def)
  moreover have "lk_realm (cq_link sample_send) = cg_realm (hc_config sample_state)"
    "lk_realm_instance (cq_link sample_send) = cg_realm_instance (hc_config sample_state)"
    "lk_chat_instance (cq_link sample_send) = hc_instance sample_state" "cq_link sample_send = sample_line"
    "cq_operation sample_send = Send"
    by (simp_all add: sample_defs cq_link_def or_default_def)
  ultimately have first: "handle_chat short_wire 1 ?link sample_send 0 sample_state = Inr (send_reply sample_send result, s')"
    using sent(1) by (simp add: handle_chat_def handle_member_def membership same_link_def send_reply_def)
  have "maps_ordered sample_state"
    by (simp add: maps_ordered_def sample_state_def ordered_def)
  from accepted_send_replays [OF this _ first, of result 9] sent(2) first show ?thesis
    by (simp add: send_reply_def sample_send_def)
qed

theorem accepted_send_delivers_witness:
  "\<exists>result s' c'. send_message short_wire 0 7 sample_channel sample_member (cq_send sample_send)
     (pending_result (cq_send sample_send)) 0 sample_state = Inr (result, s') \<and>
     hc_channels s' = map_put 0 c' (hc_channels sample_state) \<and> cc_seq c' = 1 \<and> length (hc_pushes s') = 1"
proof -
  obtain result s' where sent: "send_message short_wire 0 7 sample_channel sample_member (cq_send sample_send)
     (pending_result (cq_send sample_send)) 0 sample_state = Inr (result, s')" "sr_outcome result = Accepted"
    using sample_accepted by blast
  have d: "sd_seq (cq_send sample_send) \<noteq> kt_last_seq (mm_state sample_member)"
    by (simp add: sample_defs cq_send_def or_default_def)
  have sample: "cc_seq sample_channel = 0" "hc_pushes sample_state = []"
    "length (map_put 7 (refill_tokens 0 sample_member) (cc_members sample_channel)) = 1"
    by (simp_all add: sample_defs sample_channel_def)
  from accepted_send_delivers [OF sent d] sent(1) show ?thesis
    unfolding sample by (auto dest!: list_all2_lengthD simp: sample(3))
qed

end
