(* ===== verification/Scene_Shard.thy ===== *)
theory Scene_Shard
  imports Scene_Messages Ordered_Map
begin

text \<open>
  One shard of a scene (\<open>game/scene/src/scene_shard.cpp\<close>): the active members, the prepared ones that
  wait for activation, the candidate moves that wait for confirmation, and the event stream.
  The maps are ordered maps; two messages with equal serialisation are equal records.
\<close>

record shard_member =
  sm_connection :: u64
  sm_realm_incarnation :: string
  sm_route :: scene_route
  sm_seq :: u64
  sm_digest :: string
  sm_location :: scene_location
  sm_deadline :: time_point

type_synonym member_map = "(u64 \<times> shard_member) list"

record scene_shard =
  ss_instance :: string
  ss_incarnation :: string
  ss_shard :: u64
  ss_version :: u64
  ss_event_incarnation :: string
  ss_draining :: bool
  ss_event_seq :: u64
  ss_active :: member_map
  ss_prepared :: member_map
  ss_candidates :: member_map
  ss_events :: "scene_event list"

definition new_scene_shard :: "string \<Rightarrow> string \<Rightarrow> u64 \<Rightarrow> u64 \<Rightarrow> scene_shard" where
  "new_scene_shard instance_id incarnation shard version =
     \<lparr>ss_instance = instance_id, ss_incarnation = incarnation, ss_shard = shard, ss_version = version,
      ss_event_incarnation =
        incarnation @ (if version = 0 then [] else '':'' @ show_nat (unat version)),
      ss_draining = False, ss_event_seq = 0, ss_active = [], ss_prepared = [], ss_candidates = [],
      ss_events = []\<rparr>"

definition same_binding :: "shard_member \<Rightarrow> u64 \<Rightarrow> scene_request \<Rightarrow> bool" where
  "same_binding m connection request \<longleftrightarrow>
     sm_connection m = connection \<and> sm_realm_incarnation m = rq_realm_incarnation request \<and>
     sm_route m = rq_route request"

definition member_view :: "u64 \<Rightarrow> shard_member \<Rightarrow> scene_member" where
  "member_view cid m =
     \<lparr>me_character = cid, me_epoch = ro_epoch (sm_route m), me_location = Some (sm_location m)\<rparr>"

definition shard_snapshot :: "scene_shard \<Rightarrow> scene_snapshot" where
  "shard_snapshot s =
     \<lparr>sn_shard = ss_shard s, sn_incarnation = ss_event_incarnation s, sn_event_seq = ss_event_seq s,
      sn_members = map (\<lambda>(cid, m). member_view cid m) (ss_active s)\<rparr>"

definition emit :: "scene_event_kind \<Rightarrow> shard_member \<Rightarrow> scene_shard \<Rightarrow> scene_shard" where
  "emit kind m s =
     (let seq = ss_event_seq s + 1
      in s\<lparr>ss_event_seq := seq,
           ss_events := ss_events s @
             [\<lparr>se_shard = ss_shard s, se_incarnation = ss_event_incarnation s, se_seq = seq,
               se_kind = kind, se_member = Some (member_view (ro_character (sm_route m)) m)\<rparr>]\<rparr>)"

definition expire_shard :: "time_point \<Rightarrow> scene_shard \<Rightarrow> scene_shard" where
  "expire_shard now s =
     s\<lparr>ss_prepared := filter (\<lambda>entry. \<not> sm_deadline (snd entry) \<le> now) (ss_prepared s),
       ss_candidates := filter (\<lambda>entry. \<not> sm_deadline (snd entry) \<le> now) (ss_candidates s)\<rparr>"

section \<open>Replies\<close>

definition base_reply :: "scene_request \<Rightarrow> scene_status \<Rightarrow> scene_shard \<Rightarrow> scene_reply" where
  "base_reply request status s =
     \<lparr>rp_realm_incarnation = rq_realm_incarnation request, rp_instance = ss_instance s,
      rp_incarnation = ss_incarnation s, rp_operation = rq_operation request, rp_status = status,
      rp_route = None, rp_seq = 0, rp_location = None, rp_snapshot = None, rp_draining = False,
      rp_active = 0, rp_prepared = 0, rp_dynamic = False, rp_business_ready = False,
      rp_drain_phase = Drain_unspecified, rp_drain_id = [], rp_shards = []\<rparr>"

definition ok_route :: "scene_request \<Rightarrow> scene_shard \<Rightarrow> scene_reply" where
  "ok_route request s = (base_reply request St_ok s)\<lparr>rp_route := Some (rq_route request)\<rparr>"

definition ok_position :: "scene_request \<Rightarrow> scene_shard \<Rightarrow> scene_reply" where
  "ok_position request s =
     (ok_route request s)\<lparr>rp_seq := rq_seq request, rp_location := Some (rq_location request)\<rparr>"

definition ok_activated :: "scene_request \<Rightarrow> scene_shard \<Rightarrow> scene_reply" where
  "ok_activated request s =
     (ok_route request s)\<lparr>rp_seq := rq_seq request, rp_snapshot := Some (shard_snapshot s)\<rparr>"

definition receipt_matches :: "u64 \<Rightarrow> scene_request \<Rightarrow> shard_member \<Rightarrow> bool" where
  "receipt_matches connection request m \<longleftrightarrow>
     same_binding m connection request \<and> sm_seq m = rq_seq request \<and> sm_digest m = rq_digest request"

definition placed :: "u64 \<Rightarrow> scene_request \<Rightarrow> shard_member \<Rightarrow> bool" where
  "placed connection request m \<longleftrightarrow>
     receipt_matches connection request m \<and> sm_location m = rq_location request"

definition requested_member :: "u64 \<Rightarrow> scene_request \<Rightarrow> time_point \<Rightarrow> shard_member" where
  "requested_member connection request now =
     \<lparr>sm_connection = connection, sm_realm_incarnation = rq_realm_incarnation request,
      sm_route = rq_route request, sm_seq = rq_seq request, sm_digest = rq_digest request,
      sm_location = rq_location request, sm_deadline = now + seconds 3\<rparr>"

section \<open>Operations on a character\<close>

definition option_holds :: "('a \<Rightarrow> bool) \<Rightarrow> 'a option \<Rightarrow> bool" where
  "option_holds p x = (case x of None \<Rightarrow> False | Some a \<Rightarrow> p a)"

definition occupied_slots :: "scene_shard \<Rightarrow> nat" where
  "occupied_slots s =
     length (ss_active s) +
     length (filter (\<lambda>entry. map_of (ss_active s) (fst entry) = None) (ss_prepared s))"

definition handle_prepare ::
  "u64 \<Rightarrow> scene_request \<Rightarrow> time_point \<Rightarrow> u64 \<Rightarrow> scene_shard \<Rightarrow> scene_reply \<times> scene_shard" where
  "handle_prepare connection request now cid s =
     (let active = map_of (ss_active s) cid; prepared = map_of (ss_prepared s) cid
      in if option_holds (placed connection request) active \<or>
            option_holds (placed connection request) prepared
         then (ok_position request s, s)
         else if option_holds (\<lambda>m. \<not> (same_binding m connection request \<and> sm_seq m < rq_seq request) \<and>
                                   ro_epoch (rq_route request) \<le> ro_epoch (sm_route m)) active \<or>
                 option_holds (\<lambda>m. ro_epoch (rq_route request) \<le> ro_epoch (sm_route m)) prepared
         then (base_reply request St_stale_binding s, s)
         else if ss_draining s then (base_reply request St_draining s, s)
         else if 16 \<le> occupied_slots s \<and> active = None \<and> prepared = None
         then (base_reply request St_busy s, s)
         else (ok_position request s,
               s\<lparr>ss_prepared := map_put cid (requested_member connection request now) (ss_prepared s)\<rparr>))"

definition handle_activate ::
  "u64 \<Rightarrow> scene_request \<Rightarrow> u64 \<Rightarrow> scene_shard \<Rightarrow> scene_reply \<times> scene_shard" where
  "handle_activate connection request cid s =
     (let active = map_of (ss_active s) cid
      in if option_holds (receipt_matches connection request) active then (ok_activated request s, s)
         else case map_of (ss_prepared s) cid of
                None \<Rightarrow> (base_reply request St_stale_binding s, s)
              | Some m \<Rightarrow>
                  if \<not> receipt_matches connection request m
                  then (base_reply request St_stale_binding s, s)
                  else (let same = option_holds (\<lambda>a. same_binding a connection request) active;
                            s1 = (case active of
                                    Some a \<Rightarrow> if same then s else emit Kind_leave a s
                                  | None \<Rightarrow> s);
                            s2 = s1\<lparr>ss_active := map_put cid m (ss_active s1),
                                    ss_prepared := map_erase cid (ss_prepared s1),
                                    ss_candidates := map_erase cid (ss_candidates s1)\<rparr>;
                            s3 = emit (if same then Kind_move else Kind_join) m s2
                        in (ok_activated request s3, s3)))"

definition handle_propose_move ::
  "u64 \<Rightarrow> scene_request \<Rightarrow> time_point \<Rightarrow> u64 \<Rightarrow> scene_shard \<Rightarrow> scene_reply \<times> scene_shard" where
  "handle_propose_move connection request now cid s =
     (case map_of (ss_active s) cid of
        None \<Rightarrow> (base_reply request St_stale_binding s, s)
      | Some m \<Rightarrow>
          if \<not> same_binding m connection request then (base_reply request St_stale_binding s, s)
          else if rq_seq request \<noteq> sm_seq m + 1 then (base_reply request St_invalid s, s)
          else (let l = rq_location request;
                    distance = \<bar>sl_x l - sl_x (sm_location m)\<bar> + \<bar>sl_y l - sl_y (sm_location m)\<bar>
                in if 100 < distance \<or> sl_x l < 0 \<or> 10000 < sl_x l \<or> sl_y l < 0 \<or> 10000 < sl_y l
                   then (base_reply request St_invalid s, s)
                   else if option_holds (\<lambda>c. \<not> placed connection request c) (map_of (ss_candidates s) cid)
                   then (base_reply request St_busy s, s)
                   else (ok_position request s,
                         s\<lparr>ss_candidates :=
                             map_put cid (requested_member connection request now) (ss_candidates s)\<rparr>)))"

definition handle_confirm ::
  "u64 \<Rightarrow> scene_request \<Rightarrow> u64 \<Rightarrow> scene_shard \<Rightarrow> scene_reply \<times> scene_shard" where
  "handle_confirm connection request cid s =
     (if option_holds (placed connection request) (map_of (ss_active s) cid)
      then (ok_position request s, s)
      else case map_of (ss_candidates s) cid of
             None \<Rightarrow> (base_reply request St_stale_binding s, s)
           | Some c \<Rightarrow>
               if \<not> placed connection request c then (base_reply request St_stale_binding s, s)
               else (let s1 = emit Kind_move c
                           (s\<lparr>ss_active := map_put cid c (ss_active s),
                              ss_candidates := map_erase cid (ss_candidates s)\<rparr>)
                     in (ok_position request s1, s1)))"

definition handle_remove ::
  "u64 \<Rightarrow> scene_request \<Rightarrow> u64 \<Rightarrow> scene_shard \<Rightarrow> scene_reply \<times> scene_shard" where
  "handle_remove connection request cid s =
     (let bound = (\<lambda>m. same_binding m connection request);
          s1 = (case map_of (ss_active s) cid of
                  Some m \<Rightarrow> if bound m
                            then (emit Kind_leave m s)\<lparr>ss_active := map_erase cid (ss_active s)\<rparr> else s
                | None \<Rightarrow> s);
          s2 = (if option_holds bound (map_of (ss_prepared s) cid)
                then s1\<lparr>ss_prepared := map_erase cid (ss_prepared s1)\<rparr> else s1);
          s3 = (if option_holds bound (map_of (ss_candidates s) cid)
                then s2\<lparr>ss_candidates := map_erase cid (ss_candidates s2)\<rparr> else s2)
      in (ok_route request s3, s3))"

section \<open>Requests\<close>

definition handle_character ::
  "u64 \<Rightarrow> scene_request \<Rightarrow> time_point \<Rightarrow> scene_shard \<Rightarrow> scene_reply \<times> scene_shard" where
  "handle_character connection request now s =
     (let cid = ro_character (rq_route request)
      in case rq_operation request of
           Op_prepare \<Rightarrow> handle_prepare connection request now cid s
         | Op_activate \<Rightarrow> handle_activate connection request cid s
         | Op_propose_move \<Rightarrow> handle_propose_move connection request now cid s
         | Op_confirm \<Rightarrow> handle_confirm connection request cid s
         | Op_remove \<Rightarrow> handle_remove connection request cid s
         | _ \<Rightarrow> (base_reply request St_invalid s, s))"

definition handle_scene_request ::
  "u64 \<Rightarrow> scene_request \<Rightarrow> time_point \<Rightarrow> scene_shard \<Rightarrow> scene_reply \<times> scene_shard" where
  "handle_scene_request connection request now s0 =
     (let s = expire_shard now s0;
          bootstrap = (rq_operation request = Op_snapshot \<and> rq_incarnation request = ''discover'')
      in if rq_instance request \<noteq> ss_instance s \<or>
            (\<not> bootstrap \<and> rq_incarnation request \<noteq> ss_incarnation s)
         then (base_reply request St_stale_binding s, s)
         else if rq_operation request = Op_snapshot
         then if rq_shard request \<noteq> ss_shard s \<or> rq_shard_version request \<noteq> ss_version s
              then (base_reply request St_not_found s, s)
              else ((base_reply request St_ok s)\<lparr>rp_snapshot := Some (shard_snapshot s)\<rparr>, s)
         else if rq_operation request = Op_set_draining
         then (let s1 = s\<lparr>ss_draining := rq_draining request\<rparr>
               in ((base_reply request St_ok s1)
                     \<lparr>rp_draining := ss_draining s1, rp_active := word_of_nat (length (ss_active s1))\<rparr>, s1))
         else if ro_realm (rq_route request) \<noteq> 1 \<or> ro_shard (rq_route request) \<noteq> ss_shard s \<or>
                 ro_version (rq_route request) \<noteq> ss_version s
         then (base_reply request St_not_found s, s)
         else handle_character connection request now s)"

text \<open>The loop of \<open>closed()\<close> over the active members, in key order.\<close>

fun leave_connection :: "u64 \<Rightarrow> member_map \<Rightarrow> scene_shard \<Rightarrow> scene_shard" where
  "leave_connection connection [] s = s"
| "leave_connection connection ((cid, m) # rest) s =
     (if sm_connection m = connection
      then leave_connection connection rest
             ((emit Kind_leave m s)
                \<lparr>ss_candidates := map_erase cid (ss_candidates s), ss_active := map_erase cid (ss_active s)\<rparr>)
      else leave_connection connection rest s)"

definition connection_gone :: "u64 \<Rightarrow> scene_shard \<Rightarrow> scene_shard" where
  "connection_gone connection s =
     (let s1 = leave_connection connection (ss_active s) s
      in s1\<lparr>ss_prepared := filter (\<lambda>entry. sm_connection (snd entry) \<noteq> connection) (ss_prepared s1),
            ss_candidates := filter (\<lambda>entry. sm_connection (snd entry) \<noteq> connection) (ss_candidates s1)\<rparr>)"

definition drain_scene_events :: "scene_shard \<Rightarrow> scene_event list \<times> scene_shard" where
  "drain_scene_events s = (ss_events s, s\<lparr>ss_events := []\<rparr>)"

definition begin_draining :: "scene_shard \<Rightarrow> scene_shard" where
  "begin_draining s = s\<lparr>ss_draining := True\<rparr>"

section \<open>Invariant\<close>

text \<open>Every entry is filed under its character; at most sixteen characters are active or prepared;
  and a candidate is one legal step from the active member with the same binding.\<close>

definition filed :: "member_map \<Rightarrow> bool" where
  "filed m \<longleftrightarrow> ordered m \<and> (\<forall>(cid, a) \<in> set m. ro_character (sm_route a) = cid)"

definition legal_step :: "shard_member \<Rightarrow> shard_member \<Rightarrow> bool" where
  "legal_step a c \<longleftrightarrow>
     sm_connection c = sm_connection a \<and> sm_realm_incarnation c = sm_realm_incarnation a \<and>
     sm_route c = sm_route a \<and> sm_seq c = sm_seq a + 1 \<and>
     \<bar>sl_x (sm_location c) - sl_x (sm_location a)\<bar> + \<bar>sl_y (sm_location c) - sl_y (sm_location a)\<bar> \<le> 100 \<and>
     scene_xy (sl_x (sm_location c)) (sl_y (sm_location c))"

definition occupants :: "scene_shard \<Rightarrow> u64 set" where
  "occupants s = fst ` set (ss_active s) \<union> fst ` set (ss_prepared s)"

definition candidates_ok :: "scene_shard \<Rightarrow> bool" where
  "candidates_ok s \<longleftrightarrow> (\<forall>cid c. map_of (ss_candidates s) cid = Some c \<longrightarrow>
     (\<exists>a. map_of (ss_active s) cid = Some a \<and> legal_step a c))"

definition shard_ok :: "scene_shard \<Rightarrow> bool" where
  "shard_ok s \<longleftrightarrow> filed (ss_active s) \<and> filed (ss_prepared s) \<and> filed (ss_candidates s) \<and>
     card (occupants s) \<le> 16 \<and> candidates_ok s"

lemma emit_sel [simp]:
  "ss_active (emit k m s) = ss_active s" "ss_prepared (emit k m s) = ss_prepared s"
  "ss_candidates (emit k m s) = ss_candidates s" "ss_draining (emit k m s) = ss_draining s"
  "ss_shard (emit k m s) = ss_shard s" "ss_version (emit k m s) = ss_version s"
  "ss_instance (emit k m s) = ss_instance s" "ss_incarnation (emit k m s) = ss_incarnation s"
  "ss_event_incarnation (emit k m s) = ss_event_incarnation s"
  "ss_event_seq (emit k m s) = ss_event_seq s + 1"
  by (simp_all add: emit_def Let_def)

lemma filed_put [simp]: "filed m \<Longrightarrow> ro_character (sm_route a) = cid \<Longrightarrow> filed (map_put cid a m)"
proof -
  have "set (map_put cid a m) \<subseteq> insert (cid, a) (set m)" for m :: member_map
    by (induction cid a m rule: map_put.induct) auto
  then show "filed m \<Longrightarrow> ro_character (sm_route a) = cid \<Longrightarrow> filed (map_put cid a m)"
    by (fastforce simp: filed_def)
qed

lemma filed_erase [simp]: "filed m \<Longrightarrow> filed (map_erase cid m)"
  by (auto simp: filed_def map_erase_def)

lemma filed_filter [simp]: "filed m \<Longrightarrow> filed (filter P m)"
  by (auto simp: filed_def)

lemma filed_ordered [simp]: "filed m \<Longrightarrow> ordered m"
  by (simp add: filed_def)

lemma filed_lookup: "filed m \<Longrightarrow> map_of m cid = Some a \<Longrightarrow> ro_character (sm_route a) = cid"
  by (auto simp: filed_def dest: map_of_SomeD)

lemma finite_occupants [simp]: "finite (occupants s)"
  by (simp add: occupants_def)

lemma occupied_slots_card:
  assumes "filed (ss_active s)" "filed (ss_prepared s)"
  shows "occupied_slots s = card (occupants s)"
proof -
  let ?new = "filter (\<lambda>entry. map_of (ss_active s) (fst entry) = None) (ss_prepared s)"
  have "distinct (map fst ?new)"
    using assms(2) ordered_distinct [OF filed_ordered [OF filed_filter]] by blast
  then have "length ?new = card (fst ` set ?new)"
    using distinct_card by fastforce
  moreover have "fst ` set ?new = fst ` set (ss_prepared s) - fst ` set (ss_active s)"
    by (auto simp: map_of_eq_None_iff)
  moreover have "length (ss_active s) = card (fst ` set (ss_active s))"
    using assms(1) by (simp add: length_ordered)
  moreover have "occupants s = fst ` set (ss_active s) \<union> (fst ` set (ss_prepared s) - fst ` set (ss_active s))"
    by (auto simp: occupants_def)
  moreover have "card (fst ` set (ss_active s) \<union> (fst ` set (ss_prepared s) - fst ` set (ss_active s))) =
      card (fst ` set (ss_active s)) + card (fst ` set (ss_prepared s) - fst ` set (ss_active s))"
    by (rule card_Un_disjoint) auto
  ultimately show ?thesis
    by (simp add: occupied_slots_def)
qed

lemma new_scene_shard_ok: "shard_ok (new_scene_shard i inc shard version)"
  by (simp add: new_scene_shard_def shard_ok_def filed_def occupants_def candidates_ok_def)

lemma fewer_occupants: "occupants s' \<subseteq> occupants s \<Longrightarrow> card (occupants s) \<le> 16 \<Longrightarrow> card (occupants s') \<le> 16"
  using card_mono [OF finite_occupants, of "occupants s'" s] by linarith

lemma expire_shard_ok:
  assumes "shard_ok s"
  shows "shard_ok (expire_shard now s)"
proof -
  have "occupants (expire_shard now s) \<subseteq> occupants s"
    by (auto simp: occupants_def expire_shard_def)
  moreover have "candidates_ok (expire_shard now s)"
    using assms ordered_distinct [OF filed_ordered, of "ss_candidates s"]
    by (auto simp: shard_ok_def candidates_ok_def expire_shard_def map_of_filter split: option.splits if_splits)
  ultimately show ?thesis
    using assms fewer_occupants by (auto simp: shard_ok_def expire_shard_def)
qed

lemma handle_prepare_ok:
  assumes "shard_ok s" "cid = ro_character (rq_route request)"
  shows "shard_ok (snd (handle_prepare connection request now cid s))"
proof -
  let ?s = "s\<lparr>ss_prepared := map_put cid (requested_member connection request now) (ss_prepared s)\<rparr>"
  have "shard_ok ?s" if "\<not> (16 \<le> occupied_slots s \<and> map_of (ss_active s) cid = None \<and> map_of (ss_prepared s) cid = None)"
  proof -
    have occ: "occupants ?s = insert cid (occupants s)"
      using assms(1) by (auto simp: occupants_def shard_ok_def)
    have "card (insert cid (occupants s)) \<le> 16"
    proof (cases "cid \<in> occupants s")
      case True
      then show ?thesis using assms(1) by (simp add: insert_absorb shard_ok_def)
    next
      case False
      then have "map_of (ss_active s) cid = None" "map_of (ss_prepared s) cid = None"
        by (auto simp: occupants_def map_of_eq_None_iff)
      with that have "card (occupants s) < 16"
        using occupied_slots_card assms(1) by (simp add: shard_ok_def)
      with False show ?thesis by simp
    qed
    then show ?thesis
      using assms occ by (simp add: shard_ok_def candidates_ok_def requested_member_def)
  qed
  then show ?thesis
    using assms(1) by (simp add: handle_prepare_def Let_def)
qed

lemma candidates_other:
  assumes "candidates_ok s"
    and "\<And>c. c \<noteq> cid \<Longrightarrow> map_of (ss_active s') c = map_of (ss_active s) c"
    and "\<And>c. map_of (ss_candidates s') c = (if c = cid then None else map_of (ss_candidates s) c)"
  shows "candidates_ok s'"
  using assms by (auto simp: candidates_ok_def split: if_splits)

lemma handle_activate_ok:
  assumes "shard_ok s" "cid = ro_character (rq_route request)"
  shows "shard_ok (snd (handle_activate connection request cid s))"
proof (cases "option_holds (receipt_matches connection request) (map_of (ss_active s) cid) \<or>
    \<not> option_holds (receipt_matches connection request) (map_of (ss_prepared s) cid)")
  case True
  then show ?thesis
    using assms(1) by (auto simp: handle_activate_def Let_def option_holds_def split: option.splits)
next
  case False
  then obtain m where m: "map_of (ss_prepared s) cid = Some m"
    by (auto simp: option_holds_def split: option.splits)
  let ?s = "snd (handle_activate connection request cid s)"
  have parts: "ss_active ?s = map_put cid m (ss_active s)" "ss_prepared ?s = map_erase cid (ss_prepared s)"
    "ss_candidates ?s = map_erase cid (ss_candidates s)"
    using False m by (auto simp: handle_activate_def Let_def option_holds_def split: option.splits)
  have filed: "filed (ss_active s)" "filed (ss_prepared s)" "filed (ss_candidates s)"
    "ro_character (sm_route m) = cid"
    using assms(1) m filed_lookup by (auto simp: shard_ok_def)
  have "occupants ?s \<subseteq> occupants s"
    using m by (auto simp: occupants_def parts dest: map_of_Some_mem)
  moreover have "candidates_ok ?s"
    by (rule candidates_other [of s cid]) (use assms(1) filed in \<open>simp_all add: parts shard_ok_def\<close>)
  ultimately show ?thesis
    using assms(1) filed fewer_occupants by (auto simp: shard_ok_def parts)
qed

lemma handle_propose_move_ok:
  assumes "shard_ok s" "cid = ro_character (rq_route request)"
  shows "shard_ok (snd (handle_propose_move connection request now cid s))"
proof -
  let ?c = "requested_member connection request now"
  let ?s = "s\<lparr>ss_candidates := map_put cid ?c (ss_candidates s)\<rparr>"
  have "shard_ok ?s" if m: "map_of (ss_active s) cid = Some m" "same_binding m connection request"
      "rq_seq request = sm_seq m + 1"
      "\<not> (100 < \<bar>sl_x (rq_location request) - sl_x (sm_location m)\<bar> + \<bar>sl_y (rq_location request) - sl_y (sm_location m)\<bar> \<or>
          sl_x (rq_location request) < 0 \<or> 10000 < sl_x (rq_location request) \<or>
          sl_y (rq_location request) < 0 \<or> 10000 < sl_y (rq_location request))" for m
  proof -
    have step: "legal_step m ?c"
      using m by (auto simp: legal_step_def requested_member_def same_binding_def scene_xy_def scene_coordinate_max_def)
    have "ordered (ss_candidates s)" using assms(1) by (simp add: shard_ok_def)
    then have "candidates_ok ?s"
      using assms(1) m(1) step by (auto simp: shard_ok_def candidates_ok_def)
    then show ?thesis
      using assms by (auto simp: shard_ok_def occupants_def requested_member_def)
  qed
  then show ?thesis
    using assms(1) by (simp add: handle_propose_move_def Let_def split: option.split)
qed

lemma handle_confirm_ok:
  assumes "shard_ok s"
  shows "shard_ok (snd (handle_confirm connection request cid s))"
proof (cases "option_holds (placed connection request) (map_of (ss_active s) cid) \<or>
    \<not> option_holds (placed connection request) (map_of (ss_candidates s) cid)")
  case True
  then show ?thesis
    using assms by (auto simp: handle_confirm_def Let_def option_holds_def split: option.splits)
next
  case False
  then obtain c where c: "map_of (ss_candidates s) cid = Some c"
    by (auto simp: option_holds_def split: option.splits)
  then obtain a where a: "map_of (ss_active s) cid = Some a"
    using assms by (auto simp: shard_ok_def candidates_ok_def)
  let ?s = "snd (handle_confirm connection request cid s)"
  have parts: "ss_active ?s = map_put cid c (ss_active s)" "ss_prepared ?s = ss_prepared s"
    "ss_candidates ?s = map_erase cid (ss_candidates s)"
    using False c by (auto simp: handle_confirm_def Let_def option_holds_def split: option.splits)
  have filed: "filed (ss_active s)" "filed (ss_candidates s)" "ro_character (sm_route c) = cid"
    using assms c filed_lookup by (auto simp: shard_ok_def)
  have "occupants ?s = occupants s"
    using a by (auto simp: occupants_def parts dest: map_of_Some_mem)
  moreover have "candidates_ok ?s"
    by (rule candidates_other [of s cid]) (use assms filed in \<open>simp_all add: parts shard_ok_def\<close>)
  ultimately show ?thesis
    using assms filed by (simp add: shard_ok_def parts)
qed

lemma same_binding_step: "legal_step a c \<Longrightarrow> same_binding c connection request = same_binding a connection request"
  by (simp add: legal_step_def same_binding_def)

lemma handle_remove_parts:
  shows "ss_active (snd (handle_remove connection request cid s)) = (if option_holds (\<lambda>m. same_binding m connection request) (map_of (ss_active s) cid)
            then map_erase cid (ss_active s) else ss_active s)"
    "ss_prepared (snd (handle_remove connection request cid s)) = (if option_holds (\<lambda>m. same_binding m connection request) (map_of (ss_prepared s) cid)
            then map_erase cid (ss_prepared s) else ss_prepared s)"
    "ss_candidates (snd (handle_remove connection request cid s)) = (if option_holds (\<lambda>m. same_binding m connection request) (map_of (ss_candidates s) cid)
            then map_erase cid (ss_candidates s) else ss_candidates s)"
  by (auto simp: handle_remove_def Let_def option_holds_def split: option.splits)

lemma handle_remove_ok:
  assumes "shard_ok s"
  shows "shard_ok (snd (handle_remove connection request cid s))"
proof -
  let ?s = "snd (handle_remove connection request cid s)"
  have "occupants ?s \<subseteq> occupants s"
    by (auto simp: occupants_def handle_remove_parts)
  moreover have "candidates_ok ?s"
    unfolding candidates_ok_def
  proof (intro allI impI)
    fix x c
    assume c: "map_of (ss_candidates ?s) x = Some c"
    then have "map_of (ss_candidates s) x = Some c"
      by (auto simp: handle_remove_parts split: if_splits)
    then obtain a where a: "map_of (ss_active s) x = Some a" "legal_step a c"
      using assms by (auto simp: shard_ok_def candidates_ok_def)
    moreover have "map_of (ss_active ?s) x = Some a"
      using a c \<open>map_of (ss_candidates s) x = Some c\<close> same_binding_step [OF a(2)]
      by (auto simp: handle_remove_parts option_holds_def split: if_splits)
    ultimately show "\<exists>a. map_of (ss_active ?s) x = Some a \<and> legal_step a c" by blast
  qed
  ultimately show ?thesis
    using assms fewer_occupants by (auto simp: shard_ok_def handle_remove_parts)
qed

lemma handle_character_ok:
  "shard_ok s \<Longrightarrow> shard_ok (snd (handle_character connection request now s))"
  by (simp add: handle_character_def Let_def handle_prepare_ok handle_activate_ok handle_propose_move_ok
      handle_confirm_ok handle_remove_ok split: scene_operation.split)

lemma draining_ok [simp]: "shard_ok (s\<lparr>ss_draining := d\<rparr>) = shard_ok s"
  by (simp add: shard_ok_def occupants_def candidates_ok_def)

lemma handle_scene_request_ok:
  assumes "shard_ok s"
  shows "shard_ok (snd (handle_scene_request connection request now s))"
  using expire_shard_ok [OF assms, of now]
  by (simp add: handle_scene_request_def Let_def handle_character_ok)

text \<open>Closing a connection.\<close>

lemma leave_connection_parts:
  assumes "filed m"
  shows "ss_prepared (leave_connection connection m s) = ss_prepared s"
    and "ss_active (leave_connection connection m s) =
      filter (\<lambda>entry. \<not> (\<exists>a. map_of m (fst entry) = Some a \<and> sm_connection a = connection)) (ss_active s)"
    and "ss_candidates (leave_connection connection m s) =
      filter (\<lambda>entry. \<not> (\<exists>a. map_of m (fst entry) = Some a \<and> sm_connection a = connection)) (ss_candidates s)"
proof -
  have "ss_prepared (leave_connection connection m s) = ss_prepared s \<and>
    ss_active (leave_connection connection m s) =
      filter (\<lambda>entry. \<not> (\<exists>a. map_of m (fst entry) = Some a \<and> sm_connection a = connection)) (ss_active s) \<and>
    ss_candidates (leave_connection connection m s) =
      filter (\<lambda>entry. \<not> (\<exists>a. map_of m (fst entry) = Some a \<and> sm_connection a = connection)) (ss_candidates s)"
    using ordered_distinct [OF filed_ordered [OF assms]]
  proof (induction connection m s rule: leave_connection.induct)
    case (2 connection cid a rest s)
    have rest: "map_of rest cid = None"
      using 2(3) by (simp add: map_of_eq_None_iff)
    show ?case
    proof (cases "sm_connection a = connection")
      case True
      with 2(1) [OF True] 2(3) rest show ?thesis
        by (auto simp: map_erase_def intro!: filter_cong)
    next
      case False
      with 2(2) [OF False] 2(3) rest show ?thesis
        by (auto intro!: filter_cong)
    qed
  qed simp
  then show "ss_prepared (leave_connection connection m s) = ss_prepared s"
    "ss_active (leave_connection connection m s) =
      filter (\<lambda>entry. \<not> (\<exists>a. map_of m (fst entry) = Some a \<and> sm_connection a = connection)) (ss_active s)"
    "ss_candidates (leave_connection connection m s) =
      filter (\<lambda>entry. \<not> (\<exists>a. map_of m (fst entry) = Some a \<and> sm_connection a = connection)) (ss_candidates s)"
    by blast+
qed

lemma connection_gone_ok:
  assumes "shard_ok s"
  shows "shard_ok (connection_gone connection s)"
proof -
  let ?s = "connection_gone connection s"
  note parts = leave_connection_parts [where m = "ss_active s", of connection s]
  have filed: "filed (ss_active s)" "filed (ss_prepared s)" "filed (ss_candidates s)" "candidates_ok s"
    using assms by (simp_all add: shard_ok_def)
  have active: "map_of (ss_active ?s) cid =
      (case map_of (ss_active s) cid of None \<Rightarrow> None
       | Some a \<Rightarrow> if sm_connection a = connection then None else Some a)" for cid
  proof -
    define stays where "stays k \<longleftrightarrow> \<not> (\<exists>a. map_of (ss_active s) k = Some a \<and> sm_connection a = connection)" for k
    have "ss_active ?s = filter (\<lambda>entry. stays (fst entry)) (ss_active s)"
      by (simp add: connection_gone_def Let_def parts [OF filed(1)] stays_def)
    then show ?thesis
      by (simp add: map_of_filter_key) (auto simp: stays_def split: option.split)
  qed
  have candidate: "map_of (ss_candidates s) cid = Some c \<and> sm_connection c \<noteq> connection"
    if "map_of (ss_candidates ?s) cid = Some c" for cid c
  proof -
    have d: "distinct (map fst (ss_candidates s))"
      by (rule ordered_distinct [OF filed_ordered [OF filed(3)]])
    let ?left = "filter (\<lambda>entry. \<not> (\<exists>a. map_of (ss_active s) (fst entry) = Some a \<and> sm_connection a = connection)) (ss_candidates s)"
    have "map_of (filter (\<lambda>entry. sm_connection (snd entry) \<noteq> connection) ?left) cid = Some c"
      using that by (simp add: connection_gone_def Let_def parts [OF filed(1)])
    then have "map_of ?left cid = Some c" "sm_connection c \<noteq> connection"
      using map_of_filter [of ?left "\<lambda>entry. sm_connection (snd entry) \<noteq> connection" cid]
        distinct_map_filter [OF d] by (auto split: option.splits if_splits)
    then show ?thesis
      using map_of_filter_key [of "\<lambda>k. \<not> (\<exists>a. map_of (ss_active s) k = Some a \<and> sm_connection a = connection)"
          "ss_candidates s" cid] by (metis option.distinct(1))
  qed
  have "candidates_ok ?s"
    unfolding candidates_ok_def
  proof (intro allI impI)
    fix cid c
    assume "map_of (ss_candidates ?s) cid = Some c"
    then have c: "map_of (ss_candidates s) cid = Some c" "sm_connection c \<noteq> connection"
      using candidate by blast+
    then obtain a where "map_of (ss_active s) cid = Some a" "legal_step a c"
      using filed(4) by (auto simp: candidates_ok_def)
    then show "\<exists>a. map_of (ss_active ?s) cid = Some a \<and> legal_step a c"
      using c(2) by (auto simp: active legal_step_def)
  qed
  moreover have "occupants ?s \<subseteq> occupants s"
    by (auto simp: occupants_def connection_gone_def Let_def parts [OF filed(1)])
  ultimately show ?thesis
    using assms filed fewer_occupants
    by (auto simp: shard_ok_def connection_gone_def Let_def parts [OF filed(1)])
qed

section \<open>The event stream\<close>

text \<open>A component that announces its changes: each operation appends to a log exactly the events
  that carry the old view to the new one. Any sequence of operations then does so.\<close>

locale announced_changes =
  fixes operate :: "'o \<Rightarrow> 's \<Rightarrow> 's"
    and valid_state :: "'s \<Rightarrow> bool"
    and view :: "'s \<Rightarrow> 'v"
    and log :: "'s \<Rightarrow> 'e list"
    and effect :: "'e \<Rightarrow> 'v \<Rightarrow> 'v"
  assumes valid: "valid_state s \<Longrightarrow> valid_state (operate x s)"
    and announced: "valid_state s \<Longrightarrow>
      \<exists>new. log (operate x s) = log s @ new \<and> view (operate x s) = fold effect new (view s)"
begin

lemma run_announced:
  "valid_state s \<Longrightarrow>
     \<exists>new. log (fold operate xs s) = log s @ new \<and> view (fold operate xs s) = fold effect new (view s)"
proof (induction xs arbitrary: s)
  case (Cons x xs)
  obtain new where new: "log (operate x s) = log s @ new" "view (operate x s) = fold effect new (view s)"
    using announced [OF Cons.prems] by blast
  obtain new' where "log (fold operate xs (operate x s)) = log (operate x s) @ new'"
      "view (fold operate xs (operate x s)) = fold effect new' (view (operate x s))"
    using Cons.IH [OF valid [OF Cons.prems]] by blast
  with new show ?case
    by (intro exI [of _ "new @ new'"]) simp
qed simp

lemma run_valid: "valid_state s \<Longrightarrow> valid_state (fold operate xs s)"
  by (induction xs arbitrary: s) (auto intro: valid)

end

text \<open>What a subscriber keeps of a snapshot, and how it applies an event: the watermark, the
  shard's identity and the members. An event out of order has no effect.\<close>

record scene_view =
  vw_shard :: u64
  vw_incarnation :: string
  vw_seq :: u64
  vw_members :: "u64 \<rightharpoonup> u64 \<times> scene_location option"

definition snapshot_view :: "scene_snapshot \<Rightarrow> scene_view" where
  "snapshot_view sn =
     \<lparr>vw_shard = sn_shard sn, vw_incarnation = sn_incarnation sn, vw_seq = sn_event_seq sn,
      vw_members = map_of (map (\<lambda>m. (me_character m, (me_epoch m, me_location m))) (sn_members sn))\<rparr>"

definition apply_event :: "scene_event \<Rightarrow> scene_view \<Rightarrow> scene_view" where
  "apply_event e v =
     (case se_member e of
        None \<Rightarrow> v
      | Some m \<Rightarrow>
          if se_shard e \<noteq> vw_shard v \<or> se_incarnation e \<noteq> vw_incarnation v \<or> se_seq e \<noteq> vw_seq v + 1 then v
          else v\<lparr>vw_seq := se_seq e,
                 vw_members := (vw_members v)(me_character m :=
                   (if se_kind e = Kind_leave then None else Some (me_epoch m, me_location m)))\<rparr>)"

abbreviation shard_view :: "scene_shard \<Rightarrow> scene_view" where
  "shard_view s \<equiv> snapshot_view (shard_snapshot s)"

definition active_view :: "member_map \<Rightarrow> u64 \<rightharpoonup> u64 \<times> scene_location option" where
  "active_view m cid = map_option (\<lambda>a. (ro_epoch (sm_route a), Some (sm_location a))) (map_of m cid)"

lemma shard_view_alt:
  "shard_view s = \<lparr>vw_shard = ss_shard s, vw_incarnation = ss_event_incarnation s,
     vw_seq = ss_event_seq s, vw_members = active_view (ss_active s)\<rparr>"
proof -
  have "map_of (map (\<lambda>m. (me_character m, (me_epoch m, me_location m))) (map (\<lambda>(cid, m). member_view cid m) xs)) cid =
      active_view xs cid" for xs cid
    by (induction xs) (auto simp: active_view_def member_view_def)
  then show ?thesis
    by (auto simp: snapshot_view_def shard_snapshot_def fun_eq_iff)
qed

lemma emit_log: "ss_events (emit k m s) = ss_events s @
    [\<lparr>se_shard = ss_shard s, se_incarnation = ss_event_incarnation s, se_seq = ss_event_seq s + 1,
      se_kind = k, se_member = Some (member_view (ro_character (sm_route m)) m)\<rparr>]"
  by (simp add: emit_def Let_def)

definition shown :: "scene_shard \<Rightarrow> scene_shard \<Rightarrow> bool" where
  "shown s s' \<longleftrightarrow> (\<exists>new. ss_events s' = ss_events s @ new \<and> shard_view s' = fold apply_event new (shard_view s))"

lemma shown_refl: "ss_events s' = ss_events s \<Longrightarrow> shard_view s' = shard_view s \<Longrightarrow> shown s s'"
  unfolding shown_def by (intro exI [of _ "[]"]) simp

lemma shown_trans: "shown s s' \<Longrightarrow> shown s' s'' \<Longrightarrow> shown s s''"
  unfolding shown_def by (metis append.assoc fold_append comp_apply)

text \<open>An emission together with its change of the active members is shown.\<close>

lemma shown_emit:
  assumes "ss_shard s' = ss_shard s" "ss_event_incarnation s' = ss_event_incarnation s"
    and "ss_event_seq s' = ss_event_seq s + 1" "ss_events s' = ss_events (emit k m s)"
    and "active_view (ss_active s') = (active_view (ss_active s))(ro_character (sm_route m) :=
      (if k = Kind_leave then None else Some (ro_epoch (sm_route m), Some (sm_location m))))"
  shows "shown s s'"
proof -
  let ?e = "\<lparr>se_shard = ss_shard s, se_incarnation = ss_event_incarnation s, se_seq = ss_event_seq s + 1,
      se_kind = k, se_member = Some (member_view (ro_character (sm_route m)) m)\<rparr>"
  have "shard_view s' = apply_event ?e (shard_view s)"
    using assms(1-3,5) by (simp add: shard_view_alt apply_event_def member_view_def)
  then show ?thesis
    using assms(4) unfolding shown_def emit_log by (intro exI [of _ "[?e]"]) simp
qed

lemma active_view_put: "ordered m \<Longrightarrow>
    active_view (map_put cid a m) = (active_view m)(cid \<mapsto> (ro_epoch (sm_route a), Some (sm_location a)))"
  by (auto simp: active_view_def fun_eq_iff)

lemma active_view_erase: "active_view (map_erase cid m) = (active_view m)(cid := None)"
  by (auto simp: active_view_def fun_eq_iff)

lemma handle_activate_shown:
  assumes "shard_ok s"
  shows "shown s (snd (handle_activate connection request cid s))"
proof (cases "option_holds (receipt_matches connection request) (map_of (ss_active s) cid) \<or>
    \<not> option_holds (receipt_matches connection request) (map_of (ss_prepared s) cid)")
  case True
  then show ?thesis
    by (auto simp: handle_activate_def Let_def option_holds_def split: option.splits intro: shown_refl)
next
  case False
  then obtain m where m: "map_of (ss_prepared s) cid = Some m" "receipt_matches connection request m"
    by (auto simp: option_holds_def split: option.splits)
  have key: "ro_character (sm_route m) = cid" "ordered (ss_active s)"
    using assms m(1) filed_lookup by (auto simp: shard_ok_def)
  define same where "same \<longleftrightarrow> option_holds (\<lambda>a. same_binding a connection request) (map_of (ss_active s) cid)"
  define s1 where "s1 = (case map_of (ss_active s) cid of
    Some a \<Rightarrow> if same then s else emit Kind_leave a s | None \<Rightarrow> s)"
  define gone where "gone = (case map_of (ss_active s) cid of
    Some a \<Rightarrow> if same then s else (emit Kind_leave a s)\<lparr>ss_active := map_erase cid (ss_active s)\<rparr> | None \<Rightarrow> s)"
  let ?s2 = "s1\<lparr>ss_active := map_put cid m (ss_active s1), ss_prepared := map_erase cid (ss_prepared s1),
    ss_candidates := map_erase cid (ss_candidates s1)\<rparr>"
  let ?s3 = "emit (if same then Kind_move else Kind_join) m ?s2"
  have result: "snd (handle_activate connection request cid s) = ?s3"
    using False m by (simp add: handle_activate_def Let_def same_def [symmetric] s1_def [symmetric])
  have "shown s gone"
  proof (cases "map_of (ss_active s) cid")
    case (Some a)
    have "ro_character (sm_route a) = cid"
      using assms Some filed_lookup by (auto simp: shard_ok_def)
    then show ?thesis
      using Some by (auto simp: gone_def active_view_erase intro: shown_refl shown_emit [where k = Kind_leave and m = a])
  qed (simp add: gone_def shown_refl)
  moreover have "shown gone ?s3"
  proof (rule shown_emit [where k = "if same then Kind_move else Kind_join" and m = m])
    show "active_view (ss_active ?s3) = (active_view (ss_active gone))(ro_character (sm_route m) :=
        (if (if same then Kind_move else Kind_join) = Kind_leave then None
         else Some (ro_epoch (sm_route m), Some (sm_location m))))"
      using key by (auto simp: s1_def gone_def active_view_put active_view_erase fun_eq_iff split: option.split)
  qed (auto simp: s1_def gone_def emit_log split: option.split)
  ultimately show ?thesis
    unfolding result by (rule shown_trans)
qed

lemma handle_confirm_shown:
  assumes "shard_ok s"
  shows "shown s (snd (handle_confirm connection request cid s))"
proof (cases "option_holds (placed connection request) (map_of (ss_active s) cid) \<or>
    \<not> option_holds (placed connection request) (map_of (ss_candidates s) cid)")
  case True
  then show ?thesis
    by (auto simp: handle_confirm_def Let_def option_holds_def split: option.splits intro: shown_refl)
next
  case False
  then obtain c where c: "map_of (ss_candidates s) cid = Some c" "placed connection request c"
    by (auto simp: option_holds_def split: option.splits)
  have key: "ro_character (sm_route c) = cid" "ordered (ss_active s)"
    using assms c(1) filed_lookup by (auto simp: shard_ok_def)
  have "snd (handle_confirm connection request cid s) = emit Kind_move c
      (s\<lparr>ss_active := map_put cid c (ss_active s), ss_candidates := map_erase cid (ss_candidates s)\<rparr>)"
    using False c by (simp add: handle_confirm_def Let_def)
  then show ?thesis
    using key by (auto simp: emit_log active_view_put intro: shown_emit [where k = Kind_move and m = c])
qed

lemma shown_maps: "shown s s' \<Longrightarrow> ss_events s'' = ss_events s' \<Longrightarrow> shard_view s'' = shard_view s' \<Longrightarrow> shown s s''"
  by (simp add: shown_def)

lemma handle_remove_shown:
  assumes "shard_ok s"
  shows "shown s (snd (handle_remove connection request cid s))"
proof -
  define s1 where "s1 = (case map_of (ss_active s) cid of
    Some m \<Rightarrow> if same_binding m connection request
              then (emit Kind_leave m s)\<lparr>ss_active := map_erase cid (ss_active s)\<rparr> else s
    | None \<Rightarrow> s)"
  have "shown s s1"
  proof (cases "map_of (ss_active s) cid")
    case (Some m)
    have "ro_character (sm_route m) = cid"
      using assms Some filed_lookup by (auto simp: shard_ok_def)
    then show ?thesis
      using Some by (auto simp: s1_def active_view_erase intro: shown_refl shown_emit [where k = Kind_leave and m = m])
  qed (simp add: s1_def shown_refl)
  then show ?thesis
    by (rule shown_maps) (simp_all add: handle_remove_def Let_def s1_def [symmetric] shard_view_alt)
qed

lemma shown_same [simp]: "shown s s"
  by (simp add: shown_refl)

lemma handle_prepare_shown: "shown s (snd (handle_prepare connection request now cid s))"
  by (rule shown_refl) (auto simp: handle_prepare_def Let_def shard_view_alt)

lemma handle_propose_move_shown: "shown s (snd (handle_propose_move connection request now cid s))"
  by (rule shown_refl) (auto simp: handle_propose_move_def Let_def shard_view_alt split: option.split)

lemma handle_character_shown:
  "shard_ok s \<Longrightarrow> shown s (snd (handle_character connection request now s))"
  by (simp add: handle_character_def Let_def handle_prepare_shown handle_activate_shown
      handle_propose_move_shown handle_confirm_shown handle_remove_shown split: scene_operation.split)

lemma expire_shard_shown: "shown s (expire_shard now s)"
  by (rule shown_refl) (simp_all add: expire_shard_def shard_view_alt)

lemma handle_scene_request_shown:
  assumes "shard_ok s"
  shows "shown s (snd (handle_scene_request connection request now s))"
proof -
  have "shown (expire_shard now s) (snd (handle_scene_request connection request now s))"
    using handle_character_shown [OF expire_shard_ok [OF assms]]
    by (auto simp: handle_scene_request_def Let_def shard_view_alt intro: shown_refl)
  with expire_shard_shown show ?thesis by (rule shown_trans)
qed

lemma leave_connection_shown:
  "\<forall>(cid, a) \<in> set m. ro_character (sm_route a) = cid \<Longrightarrow> shown s (leave_connection connection m s)"
proof (induction connection m s rule: leave_connection.induct)
  case (2 connection cid a rest s)
  let ?s = "(emit Kind_leave a s)\<lparr>ss_candidates := map_erase cid (ss_candidates s), ss_active := map_erase cid (ss_active s)\<rparr>"
  have "shown s ?s"
    using 2(3) by (auto simp: active_view_erase emit_log intro: shown_emit [where k = Kind_leave and m = a])
  then show ?case
    using 2 by (auto intro: shown_trans)
qed simp

lemma connection_gone_shown:
  assumes "shard_ok s"
  shows "shown s (connection_gone connection s)"
proof -
  have "shown s (leave_connection connection (ss_active s) s)"
    using assms by (intro leave_connection_shown) (simp add: shard_ok_def filed_def)
  then show ?thesis
    by (rule shown_maps) (simp_all add: connection_gone_def Let_def shard_view_alt)
qed

text \<open>What the frame thread does to a shard; the state remembers the events drained so far.\<close>

datatype shard_input =
  In_request u64 scene_request time_point | In_closed u64 | In_expire time_point | In_drain |
  In_begin_draining

fun shard_operate :: "shard_input \<Rightarrow> scene_event list \<times> scene_shard \<Rightarrow> scene_event list \<times> scene_shard" where
  "shard_operate (In_request connection request now) (sent, s) =
     (sent, snd (handle_scene_request connection request now s))"
| "shard_operate (In_closed connection) (sent, s) = (sent, connection_gone connection s)"
| "shard_operate (In_expire now) (sent, s) = (sent, expire_shard now s)"
| "shard_operate In_drain (sent, s) =
     (case drain_scene_events s of (events, s') \<Rightarrow> (sent @ events, s'))"
| "shard_operate In_begin_draining (sent, s) = (sent, begin_draining s)"

abbreviation published :: "scene_event list \<times> scene_shard \<Rightarrow> scene_event list" where
  "published st \<equiv> fst st @ ss_events (snd st)"

lemma shard_operate_ok: "shard_ok (snd st) \<Longrightarrow> shard_ok (snd (shard_operate x st))"
  by (cases st; cases x)
    (simp_all add: handle_scene_request_ok connection_gone_ok expire_shard_ok drain_scene_events_def
      begin_draining_def, simp_all add: shard_ok_def occupants_def candidates_ok_def)

lemma shard_operate_shown:
  assumes "shard_ok (snd st)"
  shows "\<exists>new. published (shard_operate x st) = published st @ new \<and>
    shard_view (snd (shard_operate x st)) = fold apply_event new (shard_view (snd st))"
proof -
  obtain sent s where st: "st = (sent, s)" by force
  have "\<exists>new. published (sent, s') = published (sent, s) @ new \<and> shard_view s' = fold apply_event new (shard_view s)"
    if "shown s s'" for s'
    using that by (auto simp: shown_def)
  then show ?thesis
    using assms unfolding st
    by (cases x) (auto simp: handle_scene_request_shown connection_gone_shown expire_shard_shown
        drain_scene_events_def begin_draining_def shard_view_alt)
qed

interpretation shard_events: announced_changes shard_operate "\<lambda>st. shard_ok (snd st)" "\<lambda>st. shard_view (snd st)"
  published apply_event
  by unfold_locales (rule shard_operate_ok shard_operate_shown; assumption)+

text \<open>The shard after a sequence of inputs.\<close>

definition shard_after :: "string \<Rightarrow> string \<Rightarrow> u64 \<Rightarrow> u64 \<Rightarrow> shard_input list \<Rightarrow> scene_event list \<times> scene_shard" where
  "shard_after i inc shard version inputs =
     fold shard_operate inputs ([], new_scene_shard i inc shard version)"

lemma shard_after_ok: "shard_ok (snd (shard_after i inc shard version inputs))"
  unfolding shard_after_def by (rule shard_events.run_valid) (simp add: new_scene_shard_ok)

text \<open>
  C31. At any moment of a shard's life at most sixteen characters are active or prepared, every entry
  is filed under its own character, and every candidate move is one legal step (at most 100, within
  the map, the next sequence number, the same binding) from the active member it would replace.
\<close>

theorem scene_shard_invariant:
  "card (fst ` set (ss_active (snd (shard_after i inc shard version inputs))) \<union>
         fst ` set (ss_prepared (snd (shard_after i inc shard version inputs)))) \<le> 16 \<and>
   (\<forall>cid m. (cid, m) \<in> set (ss_active (snd (shard_after i inc shard version inputs))) \<union>
      set (ss_prepared (snd (shard_after i inc shard version inputs))) \<union>
      set (ss_candidates (snd (shard_after i inc shard version inputs))) \<longrightarrow> ro_character (sm_route m) = cid) \<and>
   (\<forall>cid c. map_of (ss_candidates (snd (shard_after i inc shard version inputs))) cid = Some c \<longrightarrow>
      (\<exists>a. map_of (ss_active (snd (shard_after i inc shard version inputs))) cid = Some a \<and> legal_step a c))"
proof -
  have "shard_ok (snd (shard_after i inc shard version inputs))" by (rule shard_after_ok)
  then show ?thesis
    by (auto simp: shard_ok_def occupants_def candidates_ok_def filed_def)
qed

text \<open>
  C30. A subscriber that takes a snapshot of a shard and applies the events published after it, in
  order, has the current snapshot: the same members at the same positions and epochs and the same
  event number, whatever requests, disconnections and expirations came in between.
\<close>

theorem snapshot_and_events_agree:
  "\<exists>new. published (shard_after i inc shard version (before @ after)) =
           published (shard_after i inc shard version before) @ new \<and>
     snapshot_view (shard_snapshot (snd (shard_after i inc shard version (before @ after)))) =
       fold apply_event new (snapshot_view (shard_snapshot (snd (shard_after i inc shard version before))))"
  using shard_events.run_announced [OF shard_after_ok, of after i inc shard version before]
  by (simp add: shard_after_def)

section \<open>Replies can be sent\<close>

definition member_valid :: "u64 \<Rightarrow> shard_member \<Rightarrow> bool" where
  "member_valid shard m \<longleftrightarrow> valid_route (sm_route m) \<and> ro_shard (sm_route m) = shard \<and>
     valid_scene_location (sm_location m) \<and> sl_shard (sm_location m) = shard"

definition entries_valid :: "u64 \<Rightarrow> member_map \<Rightarrow> bool" where
  "entries_valid shard m \<longleftrightarrow> (\<forall>(cid, a) \<in> set m. member_valid shard a)"

definition members_valid :: "scene_shard \<Rightarrow> bool" where
  "members_valid s \<longleftrightarrow> entries_valid (ss_shard s) (ss_active s) \<and>
     entries_valid (ss_shard s) (ss_prepared s) \<and> entries_valid (ss_shard s) (ss_candidates s)"

lemma entries_valid_put [simp]:
  "entries_valid shard m \<Longrightarrow> member_valid shard a \<Longrightarrow> entries_valid shard (map_put cid a m)"
proof -
  have "set (map_put cid a m) \<subseteq> insert (cid, a) (set m)" for m :: member_map
    by (induction cid a m rule: map_put.induct) auto
  then show "entries_valid shard m \<Longrightarrow> member_valid shard a \<Longrightarrow> entries_valid shard (map_put cid a m)"
    by (fastforce simp: entries_valid_def)
qed

lemma entries_valid_less [simp]:
  "entries_valid shard m \<Longrightarrow> entries_valid shard (map_erase cid m)"
  "entries_valid shard m \<Longrightarrow> entries_valid shard (filter P m)"
  by (auto simp: entries_valid_def map_erase_def)

lemma entries_valid_lookup: "entries_valid shard m \<Longrightarrow> map_of m cid = Some a \<Longrightarrow> member_valid shard a"
  by (auto simp: entries_valid_def dest!: map_of_SomeD)

text \<open>The parts of a shard that no operation changes.\<close>

definition same_shard :: "scene_shard \<Rightarrow> scene_shard \<Rightarrow> bool" where
  "same_shard s s' \<longleftrightarrow> ss_instance s' = ss_instance s \<and> ss_incarnation s' = ss_incarnation s \<and>
     ss_shard s' = ss_shard s \<and> ss_version s' = ss_version s \<and>
     ss_event_incarnation s' = ss_event_incarnation s"

lemma same_shard_refl [simp]: "same_shard s s"
  by (simp add: same_shard_def)

lemma same_shard_trans: "same_shard s s' \<Longrightarrow> same_shard s' s'' \<Longrightarrow> same_shard s s''"
  by (simp add: same_shard_def)

lemma handlers_same_shard:
  "same_shard s (snd (handle_prepare connection request now cid s))"
  "same_shard s (snd (handle_activate connection request cid s))"
  "same_shard s (snd (handle_propose_move connection request now cid s))"
  "same_shard s (snd (handle_confirm connection request cid s))"
  "same_shard s (snd (handle_remove connection request cid s))"
  subgoal by (simp add: handle_prepare_def Let_def) (simp add: same_shard_def)
  subgoal by (simp add: handle_activate_def Let_def split: option.split) (simp add: same_shard_def)
  subgoal by (simp add: handle_propose_move_def Let_def split: option.split) (simp add: same_shard_def)
  subgoal by (simp add: handle_confirm_def Let_def split: option.split) (simp add: same_shard_def)
  subgoal by (simp add: handle_remove_def Let_def split: option.split) (simp add: same_shard_def)
  done

lemma handle_character_same_shard: "same_shard s (snd (handle_character connection request now s))"
  by (simp add: handle_character_def Let_def handlers_same_shard split: scene_operation.split)

lemma handle_scene_request_same_shard: "same_shard s (snd (handle_scene_request connection request now s))"
proof -
  have "same_shard s (expire_shard now s)" by (simp add: same_shard_def expire_shard_def)
  moreover have "same_shard (expire_shard now s) (snd (handle_scene_request connection request now s))"
    using handle_character_same_shard
    by (auto simp: handle_scene_request_def Let_def same_shard_def)
  ultimately show ?thesis by (rule same_shard_trans)
qed

lemma leave_connection_same_shard: "same_shard s (leave_connection connection m s)"
proof (induction connection m s rule: leave_connection.induct)
  case (2 connection cid a rest s)
  have "same_shard s ((emit Kind_leave a s)
      \<lparr>ss_candidates := map_erase cid (ss_candidates s), ss_active := map_erase cid (ss_active s)\<rparr>)"
    by (simp add: same_shard_def)
  with 2 show ?case by (auto intro: same_shard_trans)
qed simp

lemma shard_operate_same_shard: "same_shard (snd st) (snd (shard_operate x st))"
proof (cases st; cases x)
  fix sent s connection
  assume st: "st = (sent, s)" "x = In_closed connection"
  have "same_shard (leave_connection connection (ss_active s) s) (connection_gone connection s)"
    by (simp add: same_shard_def connection_gone_def Let_def)
  with leave_connection_same_shard show "same_shard (snd st) (snd (shard_operate x st))"
    unfolding st by simp (blast intro: same_shard_trans)
qed (simp_all add: handle_scene_request_same_shard, simp_all add: same_shard_def expire_shard_def
    drain_scene_events_def begin_draining_def)

text \<open>What passes validation files only valid members.\<close>

lemma requested_member_valid:
  assumes "valid_scene_request request request_id" "rq_operation request \<in> {Op_prepare, Op_propose_move, Op_confirm}"
    and "ro_shard (rq_route request) = shard"
  shows "member_valid shard (requested_member connection request now)"
  using assms by (auto simp: valid_scene_request_def requested_member_def member_valid_def rq_location_def)

lemma members_valid_same:
  assumes "members_valid s" "same_shard s s'"
    and "entries_valid (ss_shard s) (ss_active s')" "entries_valid (ss_shard s) (ss_prepared s')"
    and "entries_valid (ss_shard s) (ss_candidates s')"
  shows "members_valid s'"
  using assms by (simp add: members_valid_def same_shard_def)

lemma handle_prepare_valid:
  assumes "members_valid s" "member_valid (ss_shard s) (requested_member connection request now)"
  shows "members_valid (snd (handle_prepare connection request now cid s))"
  using assms by (simp add: handle_prepare_def Let_def) (simp add: members_valid_def)

lemma handle_propose_move_valid:
  assumes "members_valid s" "member_valid (ss_shard s) (requested_member connection request now)"
  shows "members_valid (snd (handle_propose_move connection request now cid s))"
  using assms by (simp add: handle_propose_move_def Let_def split: option.split) (simp add: members_valid_def)

lemma handle_activate_valid:
  assumes "members_valid s"
  shows "members_valid (snd (handle_activate connection request cid s))"
proof (cases "map_of (ss_prepared s) cid")
  case None
  then show ?thesis using assms by (simp add: handle_activate_def Let_def)
next
  case (Some m)
  then have "member_valid (ss_shard s) m"
    using assms entries_valid_lookup by (auto simp: members_valid_def)
  then show ?thesis
    using assms Some
    by (simp add: handle_activate_def Let_def split: option.split) (simp add: members_valid_def)
qed

lemma handle_confirm_valid:
  assumes "members_valid s"
  shows "members_valid (snd (handle_confirm connection request cid s))"
proof (cases "map_of (ss_candidates s) cid")
  case None
  then show ?thesis using assms by (simp add: handle_confirm_def)
next
  case (Some c)
  then have "member_valid (ss_shard s) c"
    using assms entries_valid_lookup by (auto simp: members_valid_def)
  then show ?thesis
    using assms Some by (simp add: handle_confirm_def Let_def) (simp add: members_valid_def)
qed

lemma handle_remove_valid:
  assumes "members_valid s"
  shows "members_valid (snd (handle_remove connection request cid s))"
  using assms
  by (intro members_valid_same [OF assms handlers_same_shard(5)])
    (simp_all add: handle_remove_parts members_valid_def)

lemma handle_character_valid:
  assumes "members_valid s" "valid_scene_request request request_id" "ro_shard (rq_route request) = ss_shard s"
  shows "members_valid (snd (handle_character connection request now s))"
proof -
  have "member_valid (ss_shard s) (requested_member connection request now)"
    if "rq_operation request \<in> {Op_prepare, Op_propose_move, Op_confirm}"
    by (rule requested_member_valid [OF assms(2) that assms(3)])
  then show ?thesis
    using assms(1)
    by (simp add: handle_character_def Let_def handle_prepare_valid handle_propose_move_valid
        handle_activate_valid handle_confirm_valid handle_remove_valid split: scene_operation.split)
qed

lemma expire_shard_valid: "members_valid s \<Longrightarrow> members_valid (expire_shard now s)"
  by (simp add: members_valid_def expire_shard_def)

lemma handle_scene_request_valid:
  assumes "members_valid s" "valid_scene_request request request_id"
  shows "members_valid (snd (handle_scene_request connection request now s))"
proof -
  have draining: "members_valid (s\<lparr>ss_draining := d\<rparr>) = members_valid s" for s d
    by (simp add: members_valid_def)
  show ?thesis
    using expire_shard_valid [OF assms(1), of now] handle_character_valid [OF _ assms(2)] draining
    by (simp add: handle_scene_request_def Let_def)
qed

lemma connection_gone_valid:
  assumes "members_valid s" "shard_ok s"
  shows "members_valid (connection_gone connection s)"
proof -
  have filed: "filed (ss_active s)" using assms(2) by (simp add: shard_ok_def)
  have "same_shard s (connection_gone connection s)"
    using shard_operate_same_shard [of "([], s)" "In_closed connection"] by simp
  then show ?thesis
    using assms(1) leave_connection_parts [OF filed, of connection s]
    by (intro members_valid_same [OF assms(1)]) (simp_all add: connection_gone_def Let_def members_valid_def)
qed

text \<open>The inputs of a frame thread: its requests have passed the decoder.\<close>

definition input_valid :: "shard_input \<Rightarrow> bool" where
  "input_valid x \<longleftrightarrow> (case x of
     In_request connection request now \<Rightarrow> \<exists>request_id. valid_scene_request request request_id
   | _ \<Rightarrow> True)"

lemma members_valid_updates [simp]:
  "members_valid (s\<lparr>ss_events := es\<rparr>) = members_valid s" "members_valid (s\<lparr>ss_draining := d\<rparr>) = members_valid s"
  by (simp_all add: members_valid_def)

lemma shard_operate_valid:
  "members_valid (snd st) \<Longrightarrow> shard_ok (snd st) \<Longrightarrow> input_valid x \<Longrightarrow> members_valid (snd (shard_operate x st))"
  by (cases st; cases x)
    (auto simp: input_valid_def connection_gone_valid expire_shard_valid drain_scene_events_def
      begin_draining_def intro: handle_scene_request_valid)

text \<open>The identity of a shard whose messages can be sent.\<close>

definition identity_ok :: "scene_shard \<Rightarrow> bool" where
  "identity_ok s \<longleftrightarrow> scene_identity_text (ss_instance s) \<and> scene_identity_text (ss_incarnation s) \<and>
     scene_identity_text (ss_event_incarnation s) \<and> ss_shard s \<noteq> 0"

lemma identity_ok_same: "same_shard s s' \<Longrightarrow> identity_ok s \<Longrightarrow> identity_ok s'"
  by (simp add: same_shard_def identity_ok_def)

lemma digit_graphic: "is_digit c \<Longrightarrow> graphic_char c"
  by (simp add: is_digit_def graphic_char_def)

lemma new_scene_shard_identity:
  assumes "scene_identity_text i" "scene_identity_text inc" "length inc \<le> 107" "shard \<noteq> 0"
  shows "identity_ok (new_scene_shard i inc shard version)"
proof -
  have "list_all graphic_char (show_nat (unat version))"
    using show_nat_digits [of "unat version"] digit_graphic by (auto simp: list_all_iff)
  moreover have "graphic_char (CHR '':'')" by (simp add: graphic_char_def)
  ultimately show ?thesis
    using assms length_show_u64 [of version]
    by (simp add: identity_ok_def new_scene_shard_def scene_identity_text_def)
qed

lemma valid_members_views:
  assumes "entries_valid shard m" "filed m" "\<forall>(cid, a) \<in> set m. cid \<notin> seen"
  shows "valid_members shard seen (map (\<lambda>(cid, a). member_view cid a) m)"
  using assms
proof (induction m arbitrary: seen)
  case (Cons entry m)
  obtain cid a where entry: "entry = (cid, a)" by force
  have here: "member_valid shard a" "ro_character (sm_route a) = cid" "cid \<notin> seen"
    using Cons.prems by (auto simp: entry entries_valid_def filed_def)
  have rest: "entries_valid shard m" "filed m" "\<forall>(x, b) \<in> set m. x \<notin> insert cid seen"
    using Cons.prems by (auto simp: entry entries_valid_def filed_def ordered_Cons)
  have "valid_scene_member (member_view cid a)" "member_shard (member_view cid a) = shard"
    using here(1,2) by (auto simp: member_valid_def member_view_def valid_scene_member_def member_shard_def
        valid_route_def)
  then show ?case
    using Cons.IH [OF rest] here(3) by (simp add: entry member_view_def)
qed simp

lemma active_bound: "shard_ok s \<Longrightarrow> length (ss_active s) \<le> 16"
  using card_mono [OF finite_occupants, of "fst ` set (ss_active s)" s]
  by (simp add: shard_ok_def length_ordered occupants_def)

lemma shard_snapshot_valid:
  assumes "shard_ok s" "members_valid s" "identity_ok s" "ss_event_seq s \<le> scene_counter_max"
  shows "valid_scene_snapshot (shard_snapshot s)"
  using assms active_bound [OF assms(1)] valid_members_views [of "ss_shard s" "ss_active s" "{}"]
  by (simp add: valid_scene_snapshot_def shard_snapshot_def identity_ok_def scene_snapshot_members_max_def
      shard_ok_def members_valid_def)

text \<open>The shapes of a reply.\<close>

lemma refusal_valid:
  assumes "valid_scene_request request request_id" "identity_ok s" "valid_status status" "status \<noteq> St_ok"
  shows "valid_scene_reply (base_reply request status s) request_id"
  using assms
  by (simp add: valid_scene_reply_def base_reply_def refusal_empty_def valid_scene_request_def
      valid_identity_def identity_ok_def)

lemma ok_position_valid:
  assumes "valid_scene_request request request_id" "identity_ok s"
    and "rq_operation request \<in> {Op_prepare, Op_propose_move, Op_confirm}"
  shows "valid_scene_reply (ok_position request s) request_id"
  using assms
  by (auto simp: valid_scene_reply_def ok_position_def ok_route_def base_reply_def valid_scene_request_def
      valid_identity_def identity_ok_def valid_character_reply_def valid_status_def)

lemma ok_activated_valid:
  assumes "valid_scene_request request request_id" "identity_ok s" "rq_operation request = Op_activate"
    and "valid_scene_snapshot (shard_snapshot s)" "ro_shard (rq_route request) = ss_shard s"
  shows "valid_scene_reply (ok_activated request s) request_id"
  using assms
  by (auto simp: valid_scene_reply_def ok_activated_def ok_route_def base_reply_def valid_scene_request_def
      valid_identity_def identity_ok_def valid_character_reply_def valid_status_def has_valid_snapshot_def
      shard_snapshot_def)

lemma ok_removed_valid:
  assumes "valid_scene_request request request_id" "identity_ok s" "rq_operation request = Op_remove"
  shows "valid_scene_reply (ok_route request s) request_id"
  using assms
  by (auto simp: valid_scene_reply_def ok_route_def base_reply_def valid_scene_request_def
      valid_identity_def identity_ok_def valid_character_reply_def valid_status_def)

lemma statuses_valid [simp]:
  "valid_status St_ok" "valid_status St_invalid" "valid_status St_stale_binding" "valid_status St_busy"
  "valid_status St_draining" "valid_status St_not_found"
  by (simp_all add: valid_status_def)

text \<open>Which reply an operation on a character gives.\<close>

lemma handle_prepare_reply:
  "fst (handle_prepare connection request now cid s) \<in> {ok_position request s} \<union>
     (\<lambda>st. base_reply request st s) ` {St_stale_binding, St_draining, St_busy}"
  by (simp add: handle_prepare_def Let_def)

lemma handle_propose_move_reply:
  "fst (handle_propose_move connection request now cid s) \<in> {ok_position request s} \<union>
     (\<lambda>st. base_reply request st s) ` {St_stale_binding, St_invalid, St_busy}"
  by (simp add: handle_propose_move_def Let_def split: option.split)

lemma handle_confirm_reply:
  fixes s :: scene_shard
  shows "fst (handle_confirm connection request cid s) =
      ok_position request (snd (handle_confirm connection request cid s)) \<or>
    fst (handle_confirm connection request cid s) = base_reply request St_stale_binding s"
  by (simp add: handle_confirm_def Let_def split: option.split)

lemma handle_activate_reply:
  fixes s :: scene_shard
  shows "fst (handle_activate connection request cid s) =
      ok_activated request (snd (handle_activate connection request cid s)) \<or>
    fst (handle_activate connection request cid s) = base_reply request St_stale_binding s"
  by (simp add: handle_activate_def Let_def split: option.split)

lemma handle_remove_reply:
  "fst (handle_remove connection request cid s) = ok_route request (snd (handle_remove connection request cid s))"
  by (simp add: handle_remove_def Let_def)

lemma handle_character_reply_valid:
  fixes s :: scene_shard
  assumes "valid_scene_request request request_id" "shard_ok s" "members_valid s" "identity_ok s"
    and "ro_shard (rq_route request) = ss_shard s"
    and "ss_event_seq (snd (handle_character connection request now s)) \<le> scene_counter_max"
  shows "valid_scene_reply (fst (handle_character connection request now s)) request_id"
proof -
  let ?r = "handle_character connection request now s" and ?cid = "ro_character (rq_route request)"
  have after: "identity_ok (snd ?r)" "shard_ok (snd ?r)" "members_valid (snd ?r)" "ss_shard (snd ?r) = ss_shard s"
    using identity_ok_same [OF handle_character_same_shard assms(4)] handle_character_ok [OF assms(2)]
      handle_character_valid [OF assms(3,1,5)] handle_character_same_shard [of s connection request now]
    by (auto simp: same_shard_def)
  have refuse: "valid_scene_reply (base_reply request st s) request_id"
    if "st \<in> {St_stale_binding, St_draining, St_busy, St_invalid}" for st
    using that refusal_valid [OF assms(1,4)] by auto
  show ?thesis
  proof (cases "rq_operation request")
    case Op_prepare
    then have r: "?r = handle_prepare connection request now ?cid s"
      by (simp add: handle_character_def Let_def)
    have "valid_scene_reply (ok_position request s) request_id"
      by (rule ok_position_valid [OF assms(1,4)]) (simp add: Op_prepare)
    then show ?thesis
      using handle_prepare_reply [of connection request now ?cid s] refuse [of St_stale_binding] refuse [of St_draining] refuse [of St_busy]
      unfolding r by auto
  next
    case Op_propose_move
    then have r: "?r = handle_propose_move connection request now ?cid s"
      by (simp add: handle_character_def Let_def)
    have "valid_scene_reply (ok_position request s) request_id"
      by (rule ok_position_valid [OF assms(1,4)]) (simp add: Op_propose_move)
    then show ?thesis
      using handle_propose_move_reply [of connection request now ?cid s] refuse [of St_stale_binding] refuse [of St_invalid] refuse [of St_busy]
      unfolding r by auto
  next
    case Op_confirm
    then have r: "?r = handle_confirm connection request ?cid s"
      by (simp add: handle_character_def Let_def)
    have "valid_scene_reply (ok_position request (snd ?r)) request_id"
      by (rule ok_position_valid [OF assms(1) after(1)]) (simp add: Op_confirm)
    then show ?thesis
      using handle_confirm_reply [of connection request ?cid s] refuse [of St_stale_binding]
      unfolding r by auto
  next
    case Op_activate
    then have r: "?r = handle_activate connection request ?cid s"
      by (simp add: handle_character_def Let_def)
    have "valid_scene_reply (ok_activated request (snd ?r)) request_id"
      by (rule ok_activated_valid [OF assms(1) after(1) Op_activate shard_snapshot_valid [OF after(2,3,1) assms(6)]])
        (simp add: assms(5) after(4))
    then show ?thesis
      using handle_activate_reply [of connection request ?cid s] refuse [of St_stale_binding]
      unfolding r by auto
  next
    case Op_remove
    then show ?thesis
      using handle_remove_reply [of connection request ?cid s] ok_removed_valid [OF assms(1) after(1)]
      by (simp add: handle_character_def Let_def)
  qed (use refuse in \<open>simp_all add: handle_character_def Let_def\<close>)
qed

lemma handle_scene_request_reply_valid:
  fixes s :: scene_shard
  assumes "valid_scene_request request request_id" "shard_ok s" "members_valid s" "identity_ok s"
    and "ss_event_seq (snd (handle_scene_request connection request now s)) \<le> scene_counter_max"
  shows "valid_scene_reply (fst (handle_scene_request connection request now s)) request_id"
proof -
  let ?s = "expire_shard now s"
  have same: "same_shard s ?s" by (simp add: same_shard_def expire_shard_def)
  have now_ok: "shard_ok ?s" "members_valid ?s" "identity_ok ?s" "ss_event_seq ?s = ss_event_seq s"
    using expire_shard_ok [OF assms(2)] expire_shard_valid [OF assms(3)] identity_ok_same [OF same assms(4)]
    by (simp_all add: expire_shard_def)
  have refuse: "valid_scene_reply (base_reply request st ?s) request_id"
    if "st = St_stale_binding \<or> st = St_not_found" for st
    using that refusal_valid [OF assms(1) now_ok(3)] by auto
  show ?thesis
  proof (cases "rq_instance request = ss_instance ?s \<and>
      ((rq_operation request = Op_snapshot \<and> rq_incarnation request = ''discover'') \<or>
       rq_incarnation request = ss_incarnation ?s)")
    case False
    then show ?thesis
      using refuse by (auto simp: handle_scene_request_def Let_def)
  next
    case here: True
    consider (snapshot) "rq_operation request = Op_snapshot"
      | (draining) "rq_operation request = Op_set_draining"
      | (character) "rq_operation request \<noteq> Op_snapshot" "rq_operation request \<noteq> Op_set_draining" by blast
    then show ?thesis
    proof cases
      case snapshot
      then have "ss_event_seq ?s \<le> scene_counter_max"
        using assms(5) here by (auto simp: handle_scene_request_def Let_def split: if_splits)
      then have "valid_scene_snapshot (shard_snapshot ?s)"
        by (rule shard_snapshot_valid [OF now_ok(1-3)])
      then have "valid_scene_reply ((base_reply request St_ok ?s)\<lparr>rp_snapshot := Some (shard_snapshot ?s)\<rparr>) request_id"
        using assms(1) now_ok(3) snapshot
        by (auto simp: valid_scene_reply_def base_reply_def valid_scene_request_def valid_identity_def
            identity_ok_def has_valid_snapshot_def)
      then show ?thesis
        using refuse here snapshot by (auto simp: handle_scene_request_def Let_def)
    next
      case draining
      have "length (ss_active ?s) \<le> 16" by (rule active_bound [OF now_ok(1)])
      then have "word_of_nat (length (ss_active ?s)) \<le> (32 :: u32)"
        by (simp add: word_le_nat_alt unsigned_of_nat take_bit_nat_eq_self)
      then show ?thesis
        using assms(1) now_ok(3) here draining
        by (auto simp: handle_scene_request_def Let_def valid_scene_reply_def base_reply_def
            valid_scene_request_def valid_identity_def identity_ok_def valid_control_reply_def valid_drain_phase_def)
    next
      case character
      show ?thesis
      proof (cases "ro_realm (rq_route request) \<noteq> 1 \<or> ro_shard (rq_route request) \<noteq> ss_shard ?s \<or>
          ro_version (rq_route request) \<noteq> ss_version ?s")
        case True
        then show ?thesis
          using refuse here character by (auto simp: handle_scene_request_def Let_def)
      next
        case False
        then have r: "handle_scene_request connection request now s = handle_character connection request now ?s"
          using here character by (auto simp: handle_scene_request_def Let_def)
        show ?thesis
          unfolding r using handle_character_reply_valid [OF assms(1) now_ok(1-3)] assms(5) False by (simp add: r)
      qed
    qed
  qed
qed

lemma shard_after_valid:
  assumes "\<forall>x \<in> set inputs. input_valid x"
  shows "members_valid (snd (shard_after i inc shard version inputs)) \<and>
    same_shard (new_scene_shard i inc shard version) (snd (shard_after i inc shard version inputs))"
proof -
  have "members_valid (snd (fold shard_operate inputs st)) \<and> same_shard (snd st) (snd (fold shard_operate inputs st))"
    if "members_valid (snd st)" "shard_ok (snd st)" for st
    using assms that
  proof (induction inputs arbitrary: st)
    case (Cons x inputs)
    have "members_valid (snd (fold shard_operate inputs (shard_operate x st))) \<and>
        same_shard (snd (shard_operate x st)) (snd (fold shard_operate inputs (shard_operate x st)))"
      using Cons.prems by (intro Cons.IH) (auto intro: shard_operate_valid shard_operate_ok)
    then show ?case
      using same_shard_trans [OF shard_operate_same_shard [of st x]] by simp
  qed simp
  note run = this [of "([], new_scene_shard i inc shard version)"]
  have "members_valid (new_scene_shard i inc shard version)"
    by (simp add: new_scene_shard_def members_valid_def entries_valid_def)
  with run new_scene_shard_ok [of i inc shard version] show ?thesis
    by (simp add: shard_after_def)
qed

text \<open>
  C32. Every reply that a shard gives to a request that passed the decoder passes the encoder's
  validation, as long as the event counter is within its range: neither the module's tick nor the
  connection is lost to a reply that cannot be encoded.
\<close>

theorem scene_replies_encodable:
  assumes "scene_identity_text i" "scene_identity_text inc" "length inc \<le> 107" "shard \<noteq> 0"
    and "\<forall>x \<in> set inputs. input_valid x" "valid_scene_request request request_id"
    and "ss_event_seq (snd (handle_scene_request connection request now
           (snd (shard_after i inc shard version inputs)))) \<le> scene_counter_max"
  shows "valid_scene_reply (fst (handle_scene_request connection request now
           (snd (shard_after i inc shard version inputs)))) request_id"
proof -
  have "identity_ok (snd (shard_after i inc shard version inputs))"
    using shard_after_valid [OF assms(5)] new_scene_shard_identity [OF assms(1-4)] identity_ok_same by blast
  then show ?thesis
    using shard_after_valid [OF assms(5)] shard_after_ok
    by (intro handle_scene_request_reply_valid [OF assms(6) _ _ _ assms(7)]) blast+
qed

section \<open>Retries\<close>

lemma expire_snapshot [simp]:
  "shard_snapshot (expire_shard now s) = shard_snapshot s" "ss_active (expire_shard now s) = ss_active s"
  "ss_events (expire_shard now s) = ss_events s" "ss_event_seq (expire_shard now s) = ss_event_seq s"
  "ss_instance (expire_shard now s) = ss_instance s" "ss_incarnation (expire_shard now s) = ss_incarnation s"
  "ss_shard (expire_shard now s) = ss_shard s" "ss_version (expire_shard now s) = ss_version s"
  "base_reply request st (expire_shard now s) = base_reply request st s"
  "ok_route request (expire_shard now s) = ok_route request s"
  "ok_position request (expire_shard now s) = ok_position request s"
  "ok_activated request (expire_shard now s) = ok_activated request s"
  by (simp_all add: expire_shard_def shard_snapshot_def base_reply_def ok_route_def ok_position_def ok_activated_def)

lemma confirm_retry:
  fixes s :: scene_shard
  assumes "shard_ok s" "rp_status (fst (handle_confirm connection request cid s)) = St_ok"
    and "ss_active s2 = ss_active (snd (handle_confirm connection request cid s))"
  shows "handle_confirm connection request cid s2 = (ok_position request s2, s2)"
proof -
  have "option_holds (placed connection request) (map_of (ss_active (snd (handle_confirm connection request cid s))) cid)"
    using assms(1,2)
    by (auto simp: handle_confirm_def Let_def base_reply_def option_holds_def shard_ok_def split: option.splits if_splits)
  then show ?thesis
    by (simp add: handle_confirm_def assms(3))
qed

lemma activate_retry:
  fixes s :: scene_shard
  assumes "shard_ok s" "rp_status (fst (handle_activate connection request cid s)) = St_ok"
    and "ss_active s2 = ss_active (snd (handle_activate connection request cid s))"
  shows "handle_activate connection request cid s2 = (ok_activated request s2, s2)"
proof -
  have "option_holds (receipt_matches connection request) (map_of (ss_active (snd (handle_activate connection request cid s))) cid)"
    using assms(1,2)
    by (auto simp: handle_activate_def Let_def base_reply_def option_holds_def shard_ok_def split: option.splits if_splits)
  then show ?thesis
    by (simp add: handle_activate_def assms(3))
qed

lemma remove_retry:
  fixes s :: scene_shard
  assumes "ss_active s2 = ss_active (snd (handle_remove connection request cid s))"
  shows "fst (handle_remove connection request cid s2) = ok_route request (snd (handle_remove connection request cid s2))"
    "ss_active (snd (handle_remove connection request cid s2)) = ss_active s2"
    "ss_events (snd (handle_remove connection request cid s2)) = ss_events s2"
    "ss_event_seq (snd (handle_remove connection request cid s2)) = ss_event_seq s2"
proof -
  have gone: "\<not> option_holds (\<lambda>m. same_binding m connection request) (map_of (ss_active s2) cid)"
    by (simp add: assms handle_remove_parts option_holds_def)
  show "fst (handle_remove connection request cid s2) = ok_route request (snd (handle_remove connection request cid s2))"
    by (rule handle_remove_reply)
  show "ss_active (snd (handle_remove connection request cid s2)) = ss_active s2"
    using gone by (simp add: handle_remove_parts)
  show "ss_events (snd (handle_remove connection request cid s2)) = ss_events s2"
    "ss_event_seq (snd (handle_remove connection request cid s2)) = ss_event_seq s2"
    using gone by (auto simp: handle_remove_def Let_def option_holds_def split: option.splits)
qed

text \<open>A request on a character that is answered with success passed the guards of the shard, and
  they do not depend on what a request changes.\<close>

definition for_this_shard :: "scene_request \<Rightarrow> scene_shard \<Rightarrow> bool" where
  "for_this_shard request s \<longleftrightarrow> rq_instance request = ss_instance s \<and>
     rq_incarnation request = ss_incarnation s \<and> ro_realm (rq_route request) = 1 \<and>
     ro_shard (rq_route request) = ss_shard s \<and> ro_version (rq_route request) = ss_version s"

lemma character_request_cases:
  assumes "rq_operation request \<notin> {Op_snapshot, Op_set_draining}"
  shows "for_this_shard request s \<Longrightarrow> handle_scene_request connection request now s =
      handle_character connection request now (expire_shard now s)"
    "rp_status (fst (handle_scene_request connection request now s)) = St_ok \<Longrightarrow> for_this_shard request s"
  using assms by (auto simp: handle_scene_request_def for_this_shard_def Let_def base_reply_def split: if_splits)

lemma for_this_shard_same: "same_shard s s' \<Longrightarrow> for_this_shard request s' = for_this_shard request s"
  by (auto simp: for_this_shard_def same_shard_def)

lemma ok_position_same: "same_shard s s' \<Longrightarrow> ok_position request s' = ok_position request s"
  "same_shard s s' \<Longrightarrow> ok_route request s' = ok_route request s"
  by (simp_all add: ok_position_def ok_route_def base_reply_def same_shard_def)

lemma ok_activated_cong:
  "same_shard s s' \<Longrightarrow> shard_snapshot s' = shard_snapshot s \<Longrightarrow> ok_activated request s' = ok_activated request s"
  by (simp add: ok_activated_def ok_position_same)

lemma shard_snapshot_expired: "shard_snapshot (expire_shard now s) = shard_snapshot s"
  by simp

lemma character_retry:
  fixes s :: scene_shard and request :: scene_request and connection :: u64
  defines "done_one \<equiv> \<lambda>now s. handle_scene_request connection request now s"
  assumes "shard_ok s" "rq_operation request \<in> {Op_activate, Op_confirm, Op_remove}"
    and "rp_status (fst (done_one now s)) = St_ok"
  shows "fst (done_one later (snd (done_one now s))) = fst (done_one now s) \<and>
    ss_active (snd (done_one later (snd (done_one now s)))) = ss_active (snd (done_one now s)) \<and>
    ss_events (snd (done_one later (snd (done_one now s)))) = ss_events (snd (done_one now s)) \<and>
    ss_event_seq (snd (done_one later (snd (done_one now s)))) = ss_event_seq (snd (done_one now s))"
proof -
  let ?cid = "ro_character (rq_route request)" and ?e = "expire_shard now s"
  define s' where "s' = snd (done_one now s)"
  let ?e' = "expire_shard later s'"
  have character: "rq_operation request \<notin> {Op_snapshot, Op_set_draining}"
    using assms(3) by auto
  have here: "for_this_shard request s"
    using character_request_cases(2) [OF character] assms(4) by (simp add: done_one_def)
  have same: "same_shard s s'"
    by (simp add: s'_def done_one_def handle_scene_request_same_shard)
  have first: "done_one now s = handle_character connection request now ?e"
    using character_request_cases(1) [OF character here] by (simp add: done_one_def)
  have second: "done_one later s' = handle_character connection request later ?e'"
    using character_request_cases(1) [OF character] here same by (simp add: done_one_def for_this_shard_same)
  have ok: "shard_ok ?e" using assms(2) by (rule expire_shard_ok)
  have active: "ss_active ?e' = ss_active (snd (handle_character connection request now ?e))"
    using first by (simp add: s'_def)
  have kept: "same_shard ?e s'"
    using first handle_character_same_shard by (metis s'_def)
  consider "rq_operation request = Op_activate" | "rq_operation request = Op_confirm"
    | "rq_operation request = Op_remove"
    using assms(3) by auto
  then have "fst (done_one later s') = fst (done_one now s) \<and> ss_active (snd (done_one later s')) = ss_active s' \<and>
      ss_events (snd (done_one later s')) = ss_events s' \<and> ss_event_seq (snd (done_one later s')) = ss_event_seq s'"
  proof cases
    case 1
    have f: "done_one now s = handle_activate connection request ?cid ?e"
      "done_one later s' = handle_activate connection request ?cid ?e'"
      using first second 1 by (simp_all add: handle_character_def)
    have st: "rp_status (fst (handle_activate connection request ?cid ?e)) = St_ok" using assms(4) f by simp
    have "done_one later s' = (ok_activated request ?e', ?e')"
      using activate_retry [OF ok st, of ?e'] active 1 f by (simp add: handle_character_def)
    moreover have "fst (done_one now s) = ok_activated request s'"
      using handle_activate_reply [of connection request ?cid ?e] st f by (auto simp: s'_def base_reply_def)
    ultimately show ?thesis by simp
  next
    case 2
    have f: "done_one now s = handle_confirm connection request ?cid ?e"
      "done_one later s' = handle_confirm connection request ?cid ?e'"
      using first second 2 by (simp_all add: handle_character_def)
    have st: "rp_status (fst (handle_confirm connection request ?cid ?e)) = St_ok" using assms(4) f by simp
    have "done_one later s' = (ok_position request ?e', ?e')"
      using confirm_retry [OF ok st, of ?e'] active 2 f by (simp add: handle_character_def)
    moreover have "fst (done_one now s) = ok_position request s'"
      using handle_confirm_reply [of connection request ?cid ?e] st f by (auto simp: s'_def base_reply_def)
    ultimately show ?thesis by simp
  next
    case 3
    have f: "done_one now s = handle_remove connection request ?cid ?e"
      "done_one later s' = handle_remove connection request ?cid ?e'"
      using first second 3 by (simp_all add: handle_character_def)
    have a: "ss_active ?e' = ss_active (snd (handle_remove connection request ?cid ?e))"
      using active f first by simp
    have "same_shard s' (snd (done_one later s'))"
      by (simp add: done_one_def handle_scene_request_same_shard)
    then have "ok_route request (snd (done_one later s')) = ok_route request s'"
      by (rule ok_position_same)
    then show ?thesis
      using remove_retry [OF a] f handle_remove_reply [of connection request ?cid ?e] by (simp add: s'_def)
  qed
  then show ?thesis by (simp add: s'_def)
qed

text \<open>An activation, a confirmation or a removal that a shard answered with success may be repeated
  at any later time: the repetition gets the very same reply, moves no active member and publishes
  nothing.
\<close>

lemma scene_retry:
  assumes "rq_operation request \<in> {Op_activate, Op_confirm, Op_remove}"
    and "handle_scene_request connection request now (snd (shard_after i inc shard version inputs)) = (reply, s)"
    and "rp_status reply = St_ok"
    and "handle_scene_request connection request later s = (reply', s')"
  shows "reply' = reply \<and> ss_active s' = ss_active s \<and> ss_events s' = ss_events s \<and>
    ss_event_seq s' = ss_event_seq s"
  using character_retry [OF shard_after_ok assms(1), of connection now i inc shard version inputs later]
    assms(2-4) by simp

section \<open>Examples\<close>

text \<open>A character is prepared and activated on a shard and proposes one step to the right.\<close>

definition small_route :: scene_route where
  "small_route = \<lparr>ro_realm = 1, ro_character = 5, ro_epoch = 1, ro_session = 9, ro_shard = 2, ro_version = 0\<rparr>"

definition small_request :: "scene_operation \<Rightarrow> u64 \<Rightarrow> scene_location option \<Rightarrow> scene_request" where
  "small_request operation number place =
     \<lparr>rq_realm_incarnation = ''r'', rq_instance = ''s'', rq_incarnation = ''i'', rq_operation = operation,
      rq_route_opt = Some small_route, rq_seq = number, rq_location_opt = place,
      rq_digest = replicate 32 CHR ''d'', rq_shard = 0, rq_draining = False, rq_shard_version = 0,
      rq_drain_id = [], rq_drain_timeout = 0\<rparr>"

definition small_place :: "int \<Rightarrow> scene_location option" where
  "small_place x = Some \<lparr>sl_shard = 2, sl_x = x, sl_y = 4\<rparr>"

definition small_inputs :: "shard_input list" where
  "small_inputs =
     [In_request 7 (small_request Op_prepare 1 (small_place 3)) 0,
      In_request 7 (small_request Op_activate 1 None) 0,
      In_request 7 (small_request Op_propose_move 2 (small_place 4)) 0]"

definition small_shard :: scene_shard where
  "small_shard = snd (shard_after ''s'' ''i'' 2 0 small_inputs)"

text \<open>The example runs to the end: the character is active, its step is a candidate, one event waits.\<close>

lemma small_shard_state:
  "map fst (ss_active small_shard) = [5] \<and> map fst (ss_candidates small_shard) = [5] \<and>
   ss_prepared small_shard = [] \<and> map se_kind (ss_events small_shard) = [Kind_join] \<and>
   map_option sm_seq (map_of (ss_candidates small_shard) 5) = Some 2"
  by code_simp

lemma small_request_valid:
  "valid_scene_request (small_request Op_prepare 1 (small_place 3)) 1"
  "valid_scene_request (small_request Op_activate 1 None) 1"
  "valid_scene_request (small_request Op_propose_move 2 (small_place 4)) 1"
  "valid_scene_request (small_request Op_confirm 2 (small_place 4)) 1"
  by (simp_all add: valid_scene_request_def valid_identity_def scene_identity_text_def
      small_request_def small_place_def small_route_def rq_route_def rq_location_def valid_route_def
      valid_scene_location_def scene_xy_def scene_coordinate_max_def scene_counter_def
      scene_counter_max_def valid_operation_def graphic_char_def)

lemma small_inputs_valid: "\<forall>x \<in> set small_inputs. input_valid x"
  using small_request_valid by (auto simp: small_inputs_def input_valid_def)

theorem scene_shard_invariant_witness:
  "card (fst ` set (ss_active small_shard) \<union> fst ` set (ss_prepared small_shard)) \<le> 16 \<and>
   (\<exists>a c. map_of (ss_active small_shard) 5 = Some a \<and> map_of (ss_candidates small_shard) 5 = Some c \<and>
     legal_step a c)"
proof -
  obtain c where c: "map_of (ss_candidates small_shard) 5 = Some c"
    using small_shard_state by auto
  show ?thesis
    using c scene_shard_invariant [of "''s''" "''i''" 2 0 small_inputs] unfolding small_shard_def [symmetric] by blast
qed

theorem scene_replies_encodable_witness:
  "valid_scene_reply (fst (handle_scene_request 7 (small_request Op_confirm 2 (small_place 4)) 0 small_shard)) 1"
  unfolding small_shard_def
  by (rule scene_replies_encodable)
    (rule small_inputs_valid small_request_valid |
      simp add: scene_identity_text_def graphic_char_def | code_simp)+

lemma scene_retry_witness:
  "fst (handle_scene_request 7 (small_request Op_confirm 2 (small_place 4)) (seconds 9)
      (snd (handle_scene_request 7 (small_request Op_confirm 2 (small_place 4)) 0 small_shard))) =
   fst (handle_scene_request 7 (small_request Op_confirm 2 (small_place 4)) 0 small_shard) \<and>
   rp_status (fst (handle_scene_request 7 (small_request Op_confirm 2 (small_place 4)) 0 small_shard)) = St_ok"
proof -
  have ok: "rp_status (fst (handle_scene_request 7 (small_request Op_confirm 2 (small_place 4)) 0 small_shard)) = St_ok"
    by code_simp
  have "fst (handle_scene_request 7 (small_request Op_confirm 2 (small_place 4)) (seconds 9)
      (snd (handle_scene_request 7 (small_request Op_confirm 2 (small_place 4)) 0 small_shard))) =
    fst (handle_scene_request 7 (small_request Op_confirm 2 (small_place 4)) 0 small_shard)"
    using scene_retry [of "small_request Op_confirm 2 (small_place 4)" 7 0 "''s''" "''i''" 2 0 small_inputs
        "fst (handle_scene_request 7 (small_request Op_confirm 2 (small_place 4)) 0 small_shard)"
        "snd (handle_scene_request 7 (small_request Op_confirm 2 (small_place 4)) 0 small_shard)" "seconds 9"
        "fst (handle_scene_request 7 (small_request Op_confirm 2 (small_place 4)) (seconds 9)
          (snd (handle_scene_request 7 (small_request Op_confirm 2 (small_place 4)) 0 small_shard)))"
        "snd (handle_scene_request 7 (small_request Op_confirm 2 (small_place 4)) (seconds 9)
          (snd (handle_scene_request 7 (small_request Op_confirm 2 (small_place 4)) 0 small_shard)))"]
      ok by (simp add: small_shard_def small_request_def)
  with ok show ?thesis by simp
qed

end
