(* ===== verification/Byte_Framing.thy ===== *)
theory Byte_Framing
  imports RM_Prelude
begin

text \<open>
  The receive and send path of an edge connection: the growable byte buffer
  (framework/network/src/core/byte_buffer.cpp), the four-byte big-endian length codec
  (framework/network/src/codec/length_field_codec.cpp) and the buffer loops of a TLS
  connection (framework/network/src/tls/tls_connection.cpp).

  A buffer is its storage and a read offset; \<open>bb_data\<close> is the stream of unread bytes it
  stands for. The interface \<open>byte_fifo\<close> is what the codec and the connection rely on.
\<close>

section \<open>The byte buffer\<close>

datatype buffer_error = Out_of_range | Length_error

record byte_buffer =
  storage :: "u8 list"
  read_offset :: nat

definition new_buffer :: byte_buffer where
  "new_buffer = \<lparr>storage = [], read_offset = 0\<rparr>"

definition bb_append :: "byte_buffer \<Rightarrow> u8 list \<Rightarrow> byte_buffer" where
  "bb_append b d = b\<lparr>storage := storage b @ d\<rparr>"

definition readable_bytes :: "byte_buffer \<Rightarrow> nat" where
  "readable_bytes b = length (storage b) - read_offset b"

definition bb_empty :: "byte_buffer \<Rightarrow> bool" where
  "bb_empty b \<longleftrightarrow> readable_bytes b = 0"

definition readable_data :: "byte_buffer \<Rightarrow> u8 list" where
  "readable_data b =
     (if bb_empty b then [] else take (readable_bytes b) (drop (read_offset b) (storage b)))"

definition bb_clear :: "byte_buffer \<Rightarrow> byte_buffer" where
  "bb_clear b = b\<lparr>storage := [], read_offset := 0\<rparr>"

definition compact_threshold :: nat where
  "compact_threshold = 4096"

definition compact_if_needed :: "byte_buffer \<Rightarrow> byte_buffer" where
  "compact_if_needed b =
     (if read_offset b < compact_threshold \<or> read_offset b < length (storage b) div 2
      then b
      else b\<lparr>storage := drop (read_offset b) (storage b), read_offset := 0\<rparr>)"

definition bb_consume :: "byte_buffer \<Rightarrow> nat \<Rightarrow> buffer_error + byte_buffer" where
  "bb_consume b n =
     (if readable_bytes b < n then Inl Out_of_range
      else let b' = b\<lparr>read_offset := read_offset b + n\<rparr> in
        if read_offset b' = length (storage b') then Inr (bb_clear b')
        else Inr (compact_if_needed b'))"

text \<open>The buffer never reads past its storage, and a drained buffer is reset.\<close>

definition bb_ok :: "byte_buffer \<Rightarrow> bool" where
  "bb_ok b \<longleftrightarrow> read_offset b \<le> length (storage b)"

section \<open>The contract of a byte queue\<close>

datatype fifo_op = Put "u8 list" | Take nat

locale byte_fifo =
  fixes put :: "'b \<Rightarrow> u8 list \<Rightarrow> 'b"
    and takeout :: "'b \<Rightarrow> nat \<Rightarrow> buffer_error + 'b"
    and contents :: "'b \<Rightarrow> u8 list"
    and ok :: "'b \<Rightarrow> bool"
  assumes put_contents: "ok b \<Longrightarrow> contents (put b d) = contents b @ d"
    and put_ok: "ok b \<Longrightarrow> ok (put b d)"
    and take_refused: "ok b \<Longrightarrow> length (contents b) < n \<Longrightarrow> takeout b n = Inl Out_of_range"
    and take_done: "ok b \<Longrightarrow> n \<le> length (contents b) \<Longrightarrow>
      \<exists>b'. takeout b n = Inr b' \<and> ok b' \<and> contents b' = drop n (contents b)"
begin

lemma take_cases:
  assumes "ok b" and "takeout b n = Inr b'"
  shows "n \<le> length (contents b)" and "ok b'" and "contents b' = drop n (contents b)"
  using assms take_refused [of b n] take_done [of b n] by (auto simp: not_le [symmetric])

text \<open>Any run of operations reads the written stream in order, without loss or repetition.\<close>

fun run :: "'b \<Rightarrow> fifo_op list \<Rightarrow> buffer_error + 'b \<times> u8 list" where
  "run b [] = Inr (b, [])"
| "run b (Put d # ops) = run (put b d) ops"
| "run b (Take n # ops) =
     (case takeout b n of
        Inl e \<Rightarrow> Inl e
      | Inr b' \<Rightarrow>
          (case run b' ops of
             Inl e \<Rightarrow> Inl e
           | Inr (b'', out) \<Rightarrow> Inr (b'', take n (contents b) @ out)))"

fun written :: "fifo_op list \<Rightarrow> u8 list" where
  "written [] = []"
| "written (Put d # ops) = d @ written ops"
| "written (Take n # ops) = written ops"

lemma run_stream:
  "ok b \<Longrightarrow> run b ops = Inr (b', out) \<Longrightarrow>
     ok b' \<and> out @ contents b' = contents b @ written ops"
proof (induction b ops arbitrary: out rule: run.induct)
  case (1 b)
  then show ?case by simp
next
  case (2 b d ops)
  then show ?case by (simp add: put_ok put_contents)
next
  case (3 b n ops)
  from "3.prems"(2) obtain c out' where c: "takeout b n = Inr c"
    and r: "run c ops = Inr (b', out')" and out: "out = take n (contents b) @ out'"
    by (auto split: sum.splits prod.splits)
  note t = take_cases [OF "3.prems"(1) c]
  from "3.IH" [OF c t(2) r] have "ok b'" "out' @ contents b' = drop n (contents b) @ written ops"
    using t(3) by simp_all
  then show ?case by (simp add: out)
qed

end

lemma readable_data_drop: "bb_ok b \<Longrightarrow> readable_data b = drop (read_offset b) (storage b)"
  by (auto simp: readable_data_def bb_empty_def readable_bytes_def)

lemma length_readable_data [simp]:
  "bb_ok b \<Longrightarrow> length (readable_data b) = readable_bytes b"
  by (simp add: readable_data_drop readable_bytes_def)

lemma bb_ok_new [simp]: "bb_ok new_buffer"
  by (simp add: bb_ok_def new_buffer_def)

lemma readable_data_new [simp]: "readable_data new_buffer = []"
  by (simp add: readable_data_drop) (simp add: new_buffer_def)

lemma compact_ok: "bb_ok b \<Longrightarrow>
    bb_ok (compact_if_needed b) \<and> readable_data (compact_if_needed b) = readable_data b"
  by (auto simp: compact_if_needed_def readable_data_drop bb_ok_def)

lemma consume_done:
  assumes "bb_ok b" and "n \<le> readable_bytes b"
  shows "\<exists>b'. bb_consume b n = Inr b' \<and> bb_ok b' \<and> readable_data b' = drop n (readable_data b)"
proof -
  let ?b = "b\<lparr>read_offset := read_offset b + n\<rparr>"
  have ok: "bb_ok ?b"
    using assms by (simp add: bb_ok_def readable_bytes_def)
  have data: "readable_data ?b = drop n (readable_data b)"
    using assms ok by (simp add: readable_data_drop add.commute)
  show ?thesis
  proof (cases "read_offset ?b = length (storage ?b)")
    case True
    moreover have "drop n (readable_data b) = []"
      using data ok True by (simp add: readable_data_drop)
    ultimately show ?thesis
      using assms(2)
      by (auto simp: bb_consume_def bb_clear_def bb_ok_def readable_data_def bb_empty_def
          readable_bytes_def)
  next
    case False
    then show ?thesis
      using assms(2) compact_ok [OF ok] data
      by (auto simp: bb_consume_def Let_def)
  qed
qed

interpretation bb: byte_fifo bb_append bb_consume readable_data bb_ok
proof unfold_locales
  fix b :: byte_buffer and d and n
  assume ok: "bb_ok b"
  show "bb_ok (bb_append b d)"
    using ok by (simp add: bb_ok_def bb_append_def)
  then show "readable_data (bb_append b d) = readable_data b @ d"
    using ok by (simp add: readable_data_drop) (simp add: bb_append_def bb_ok_def)
  show "length (readable_data b) < n \<Longrightarrow> bb_consume b n = Inl Out_of_range"
    using ok by (simp add: bb_consume_def)
  show "n \<le> length (readable_data b) \<Longrightarrow>
      \<exists>b'. bb_consume b n = Inr b' \<and> bb_ok b' \<and> readable_data b' = drop n (readable_data b)"
    using ok consume_done by simp
qed

section \<open>The length-field codec\<close>

datatype decode_status = Frame_ready | Need_more_data | Frame_too_large

record decode_result =
  status :: decode_status
  payload :: "u8 list"

record length_field_codec =
  max_payload_size :: nat

definition header_size :: nat where
  "header_size = 4"

definition decode_length :: "u8 list \<Rightarrow> u32" where
  "decode_length header = foldl (\<lambda>len v. push_bit 8 len OR ucast v) 0 header"

definition encode :: "length_field_codec \<Rightarrow> u8 list \<Rightarrow> buffer_error + u8 list" where
  "encode c p =
     (if max_payload_size c < length p \<or> 4294967295 < length p then Inl Length_error
      else let len = of_nat (length p) :: u32 in
        Inr ([ucast (drop_bit 24 len AND 0xFF), ucast (drop_bit 16 len AND 0xFF),
              ucast (drop_bit 8 len AND 0xFF), ucast (len AND 0xFF)] @ p))"

definition try_decode ::
    "length_field_codec \<Rightarrow> byte_buffer \<Rightarrow> buffer_error + decode_result \<times> byte_buffer" where
  "try_decode c b =
     (let data = readable_data b in
      if length data < header_size then Inr (\<lparr>status = Need_more_data, payload = []\<rparr>, b)
      else let payload_size = unat (decode_length (take header_size data)) in
      if max_payload_size c < payload_size
      then Inr (\<lparr>status = Frame_too_large, payload = []\<rparr>, b)
      else let frame_size = header_size + payload_size in
      if length data < frame_size then Inr (\<lparr>status = Need_more_data, payload = []\<rparr>, b)
      else case bb_consume b frame_size of
             Inl e \<Rightarrow> Inl e
           | Inr b' \<Rightarrow>
               Inr (\<lparr>status = Frame_ready, payload = take payload_size (drop header_size data)\<rparr>,
                    b'))"

lemma decode_length_bytes:
  "decode_length
     [ucast (drop_bit 24 (w :: u32) AND 0xFF), ucast (drop_bit 16 w AND 0xFF),
      ucast (drop_bit 8 w AND 0xFF), ucast (w AND 0xFF)] = w"
proof -
  have mask: "(0xFF :: u32) = mask 8"
    by (simp add: mask_eq_exp_minus_1)
  show ?thesis
    unfolding decode_length_def mask foldl.simps
  proof (rule bit_word_eqI)
    fix n :: nat
    assume "n < LENGTH(32)"
    then consider "n < 8" | "8 \<le> n" "n < 16" | "16 \<le> n" "n < 24" | "24 \<le> n" "n < 32"
      by fastforce
    then show "bit (push_bit 8 (push_bit 8 (push_bit 8 (push_bit 8 0 OR
        ucast (ucast (drop_bit 24 w AND mask 8) :: u8)) OR
        ucast (ucast (drop_bit 16 w AND mask 8) :: u8)) OR
        ucast (ucast (drop_bit 8 w AND mask 8) :: u8)) OR
        ucast (ucast (w AND mask 8) :: u8) :: u32) n \<longleftrightarrow> bit w n"
      by cases (auto simp: bit_simps)
  qed
qed

definition frame :: "u8 list \<Rightarrow> u8 list" where
  "frame p =
     (let len = of_nat (length p) :: u32 in
      [ucast (drop_bit 24 len AND 0xFF), ucast (drop_bit 16 len AND 0xFF),
       ucast (drop_bit 8 len AND 0xFF), ucast (len AND 0xFF)] @ p)"

definition fits :: "length_field_codec \<Rightarrow> u8 list \<Rightarrow> bool" where
  "fits c p \<longleftrightarrow> length p \<le> max_payload_size c \<and> length p \<le> 4294967295"

lemma encode_frame: "encode c p = (if fits c p then Inr (frame p) else Inl Length_error)"
  by (auto simp: encode_def fits_def frame_def Let_def)

lemma length_frame [shape_simps]: "length (frame p) = header_size + length p"
  by (simp add: frame_def header_size_def Let_def)

lemma frame_header:
  assumes "fits c p"
  shows "unat (decode_length (take header_size (frame p @ rest))) = length p"
proof -
  have "take header_size (frame p @ rest) =
      (let len = of_nat (length p) :: u32 in
       [ucast (drop_bit 24 len AND 0xFF), ucast (drop_bit 16 len AND 0xFF),
        ucast (drop_bit 8 len AND 0xFF), ucast (len AND 0xFF)])"
    by (simp add: frame_def header_size_def Let_def)
  then show ?thesis
    using assms by (simp add: Let_def decode_length_bytes fits_def unat_of_nat)
qed

lemma consume_readable:
  "bb_consume b n = Inr b' \<Longrightarrow> readable_bytes b' = readable_bytes b - n \<and> n \<le> readable_bytes b"
  by (auto simp: bb_consume_def Let_def bb_clear_def readable_bytes_def compact_if_needed_def
      split: if_splits)

text \<open>The codec never makes the buffer raise: it consumes only bytes it has seen.\<close>

lemma readable_data_length_le: "length (readable_data b) \<le> readable_bytes b"
  by (simp add: readable_data_def)

lemma try_decode_no_error: "try_decode c b \<noteq> Inl e"
  using readable_data_length_le [of b]
  by (auto simp: try_decode_def Let_def bb_consume_def split: sum.splits)

lemma try_decode_cases:
  assumes "bb_ok b"
  obtains (short) "length (readable_data b) < header_size"
      "try_decode c b = Inr (\<lparr>status = Need_more_data, payload = []\<rparr>, b)"
  | (large) "header_size \<le> length (readable_data b)"
      "max_payload_size c < unat (decode_length (take header_size (readable_data b)))"
      "try_decode c b = Inr (\<lparr>status = Frame_too_large, payload = []\<rparr>, b)"
  | (partial) "header_size \<le> length (readable_data b)"
      "unat (decode_length (take header_size (readable_data b))) \<le> max_payload_size c"
      "length (readable_data b) <
         header_size + unat (decode_length (take header_size (readable_data b)))"
      "try_decode c b = Inr (\<lparr>status = Need_more_data, payload = []\<rparr>, b)"
  | (ready) b' n where "n = unat (decode_length (take header_size (readable_data b)))"
      "n \<le> max_payload_size c" "header_size + n \<le> length (readable_data b)"
      "try_decode c b =
         Inr (\<lparr>status = Frame_ready, payload = take n (drop header_size (readable_data b))\<rparr>, b')"
      "bb_ok b'" "readable_data b' = drop (header_size + n) (readable_data b)"
proof -
  let ?d = "readable_data b"
  let ?n = "unat (decode_length (take header_size ?d))"
  consider "length ?d < header_size" | "header_size \<le> length ?d" "max_payload_size c < ?n"
    | "header_size \<le> length ?d" "?n \<le> max_payload_size c" "length ?d < header_size + ?n"
    | "?n \<le> max_payload_size c" "header_size + ?n \<le> length ?d"
    by linarith
  then show thesis
  proof cases
    case 4
    then obtain b' where "bb_consume b (header_size + ?n) = Inr b'" "bb_ok b'"
        "readable_data b' = drop (header_size + ?n) ?d"
      using bb.take_done [OF assms] by blast
    with 4 show thesis
      by (intro ready [of ?n b']) (simp_all add: try_decode_def Let_def)
  qed (auto simp: try_decode_def Let_def intro: short large partial)
qed

lemma try_decode_decreases:
  assumes "try_decode c b = Inr (r, b')" and "status r = Frame_ready"
  shows "readable_bytes b' < readable_bytes b"
  using assms consume_readable
  by (fastforce simp: try_decode_def Let_def header_size_def split: if_splits sum.splits)

section \<open>The loops of a TLS connection\<close>

text \<open>
  OpenSSL is outside the repository: each call of \<open>SSL_read_ex\<close> and \<open>SSL_write_ex\<close> is one
  element of a script of outcomes, either data transferred or the classified reason for
  stopping. A script that ends stands for a socket with nothing more to offer.
\<close>

datatype tls_io_state = Ready | Want_read | Want_write | Tls_closed | Tls_failed

datatype receive_status = Open | Peer_closed | Batch_frame_too_large

datatype ssl_read = Ssl_data "u8 list" | Ssl_stop tls_io_state

datatype ssl_write = Ssl_wrote nat | Ssl_blocked tls_io_state

record tls_connection =
  codec :: length_field_codec
  max_pending_output :: nat
  input_buffer :: byte_buffer
  output_buffer :: byte_buffer
  retry_write_bytes :: nat

record tls_receive_batch =
  io_state :: tls_io_state
  batch_status :: receive_status
  frames :: "u8 list list"

function decode_available ::
    "length_field_codec \<Rightarrow> byte_buffer \<Rightarrow> u8 list list \<Rightarrow> bool \<times> u8 list list \<times> byte_buffer" where
  "decode_available c b acc =
     (case try_decode c b of
        Inl e \<Rightarrow> (False, acc, b)
      | Inr (r, b') \<Rightarrow>
          (case status r of
             Frame_ready \<Rightarrow> decode_available c b' (acc @ [payload r])
           | Need_more_data \<Rightarrow> (True, acc, b')
           | Frame_too_large \<Rightarrow> (False, acc, b')))"
  by pat_completeness auto
termination
  by (relation "measure (\<lambda>(c, b, acc). readable_bytes b)") (auto simp: try_decode_decreases)

declare decode_available.simps [simp del]

fun receive_loop ::
    "tls_connection \<Rightarrow> nat \<Rightarrow> nat \<Rightarrow> u8 list list \<Rightarrow> ssl_read list \<Rightarrow>
      tls_receive_batch \<times> tls_connection \<times> ssl_read list" where
  "receive_loop t max_read total_read acc script =
     (if max_read \<noteq> 0 \<and> max_read \<le> total_read
      then (\<lparr>io_state = Want_read, batch_status = Open, frames = acc\<rparr>, t, script)
      else let remaining = (if max_read = 0 then 8192 else min 8192 (max_read - total_read)) in
        case script of
          [] \<Rightarrow> (\<lparr>io_state = Want_read, batch_status = Open, frames = acc\<rparr>, t, [])
        | Ssl_data d # rest \<Rightarrow>
            (let received = take remaining d;
                 t1 = t\<lparr>input_buffer := bb_append (input_buffer t) received\<rparr>;
                 (continue, acc', b') = decode_available (codec t1) (input_buffer t1) acc;
                 t2 = t1\<lparr>input_buffer := b'\<rparr>
             in if continue then receive_loop t2 max_read (total_read + length received) acc' rest
                else (\<lparr>io_state = Tls_failed, batch_status = Batch_frame_too_large,
                       frames = acc'\<rparr>, t2, rest))
        | Ssl_stop s # rest \<Rightarrow>
            (\<lparr>io_state = s,
              batch_status = (if s = Tls_closed then Peer_closed else Open), frames = acc\<rparr>,
             t, rest))"

declare receive_loop.simps [simp del]

definition receive_frames ::
    "tls_connection \<Rightarrow> nat \<Rightarrow> ssl_read list \<Rightarrow>
      tls_receive_batch \<times> tls_connection \<times> ssl_read list" where
  "receive_frames t max_read script = receive_loop t max_read 0 [] script"

definition fits_pending_output :: "tls_connection \<Rightarrow> nat \<Rightarrow> bool" where
  "fits_pending_output t n \<longleftrightarrow>
     n \<le> max_pending_output t - min (max_pending_output t) (readable_bytes (output_buffer t))"

definition queue_frame :: "tls_connection \<Rightarrow> u8 list \<Rightarrow> buffer_error + bool \<times> tls_connection" where
  "queue_frame t p =
     (case encode (codec t) p of
        Inl e \<Rightarrow> Inl e
      | Inr f \<Rightarrow>
          if \<not> fits_pending_output t (length f) then Inr (False, t)
          else Inr (True, t\<lparr>output_buffer := bb_append (output_buffer t) f\<rparr>))"

definition queue_bytes :: "tls_connection \<Rightarrow> u8 list \<Rightarrow> bool \<times> tls_connection" where
  "queue_bytes t p =
     (if \<not> fits_pending_output t (length p) then (False, t)
      else (True, t\<lparr>output_buffer := bb_append (output_buffer t) p\<rparr>))"

text \<open>
  \<open>flush_output\<close> returns the state, the connection and the bytes that reached the wire.
  OpenSSL accepts at most the length it was offered.
\<close>

fun flush_output ::
    "tls_connection \<Rightarrow> ssl_write list \<Rightarrow> u8 list \<Rightarrow>
      buffer_error + tls_io_state \<times> tls_connection \<times> u8 list" where
  "flush_output t script wire =
     (if bb_empty (output_buffer t) then Inr (Ready, t, wire)
      else let pending = readable_data (output_buffer t);
               offered = (if retry_write_bytes t = 0 then length pending
                          else retry_write_bytes t);
               t1 = t\<lparr>retry_write_bytes := offered\<rparr>
           in case script of
                [] \<Rightarrow> Inr (Want_write, t1, wire)
              | Ssl_blocked s # rest \<Rightarrow> Inr (s, t1, wire)
              | Ssl_wrote n # rest \<Rightarrow>
                  (let written = min n offered in
                   case bb_consume (output_buffer t1) written of
                     Inl e \<Rightarrow> Inl e
                   | Inr b \<Rightarrow>
                       flush_output (t1\<lparr>retry_write_bytes := 0, output_buffer := b\<rparr>) rest
                         (wire @ take written pending)))"

declare flush_output.simps [simp del]

section \<open>The abstract frame stream\<close>

text \<open>
  What a byte stream means, read at once: the frames it holds, whether it is still
  well formed, and the bytes of the last, incomplete frame.
\<close>

function parse_stream :: "length_field_codec \<Rightarrow> u8 list \<Rightarrow> bool \<times> u8 list list \<times> u8 list" where
  "parse_stream c data =
     (if length data < header_size then (True, [], data)
      else let n = unat (decode_length (take header_size data)) in
        if max_payload_size c < n then (False, [], data)
        else if length data < header_size + n then (True, [], data)
        else case parse_stream c (drop (header_size + n) data) of
               (good, fs, rest) \<Rightarrow> (good, take n (drop header_size data) # fs, rest))"
  by pat_completeness auto
termination
  by (relation "measure (\<lambda>(c, data). length data)") (auto simp: header_size_def)

declare parse_stream.simps [simp del]

lemma decode_available_parse:
  "bb_ok b \<Longrightarrow> \<exists>b'. decode_available c b acc =
       (fst (parse_stream c (readable_data b)),
        acc @ fst (snd (parse_stream c (readable_data b))), b') \<and>
     bb_ok b' \<and> readable_data b' = snd (snd (parse_stream c (readable_data b)))"
proof (induction c b acc rule: decode_available.induct)
  case (1 c b acc)
  show ?case
  proof (rule try_decode_cases [OF "1.prems", of c], goal_cases)
    case 1
    then show ?case
      using "1.prems" by (simp add: decode_available.simps [of c b] parse_stream.simps [of c "readable_data b"])
  next
    case 2
    then show ?case
      using "1.prems" by (simp add: decode_available.simps [of c b] parse_stream.simps [of c "readable_data b"] Let_def)
  next
    case 3
    then show ?case
      using "1.prems" by (auto simp: decode_available.simps [of c b] parse_stream.simps [of c "readable_data b"] Let_def)
  next
    case (4 b' n)
    note step = "1.IH" [OF 4(4) _ _ 4(5)]
    from 4 show ?case
      using step
      by (auto simp: decode_available.simps [of c b] parse_stream.simps [of c "readable_data b"]
          Let_def split: prod.splits)
  qed
qed

lemma take_header_append:
  "header_size \<le> length s \<Longrightarrow> take header_size (s @ t) = take header_size s"
  by simp

lemma parse_stream_append:
  "parse_stream c (s @ t) =
     (case parse_stream c s of
        (False, fs, rest) \<Rightarrow> (False, fs, rest @ t)
      | (True, fs, rest) \<Rightarrow>
          (case parse_stream c (rest @ t) of (good, gs, r) \<Rightarrow> (good, fs @ gs, r)))"
proof (induction c s rule: parse_stream.induct)
  case (1 c s)
  let ?n = "unat (decode_length (take header_size s))"
  show ?case
  proof (cases "length s < header_size \<or> (?n \<le> max_payload_size c \<and> length s < header_size + ?n)")
    case True
    then have "parse_stream c s = (True, [], s)"
      by (auto simp: parse_stream.simps [of c s] Let_def)
    then show ?thesis
      by (simp split: prod.split)
  next
    case False
    then have hdr: "\<not> length s < header_size"
      by simp
    show ?thesis
    proof (cases "max_payload_size c < ?n")
      case True
      then show ?thesis
        using hdr by (simp add: parse_stream.simps [of c s] parse_stream.simps [of c "s @ t"] Let_def)
    next
      case small: False
      with False have long: "\<not> length s < header_size + ?n"
        by linarith
      note IH = "1" [OF hdr refl small long]
      show ?thesis
        using hdr small long IH
        by (simp add: parse_stream.simps [of c s] parse_stream.simps [of c "s @ t"] Let_def
            split: prod.splits bool.splits)
    qed
  qed
qed

lemma parse_stream_frame:
  assumes "fits c p"
  shows "parse_stream c (frame p @ rest) =
     (case parse_stream c rest of (good, fs, r) \<Rightarrow> (good, p # fs, r))"
proof -
  obtain h where h: "frame p = h @ p" "length h = header_size"
    by (rule that [of "take header_size (frame p)"]) (simp_all add: frame_def header_size_def Let_def)
  have "take (length p) (drop header_size (frame p @ rest)) = p"
    by (simp add: h)
  moreover have "drop (header_size + length p) (frame p @ rest) = rest"
    by (simp add: h)
  ultimately show ?thesis
    using assms frame_header [OF assms, of rest]
    by (simp add: parse_stream.simps [of c "frame p @ rest"] Let_def shape_simps fits_def)
qed

lemma parse_stream_nil [simp]: "parse_stream c [] = (True, [], [])"
  by (simp add: parse_stream.simps header_size_def)

lemma parse_stream_frames:
  "\<forall>p \<in> set ps. fits c p \<Longrightarrow> parse_stream c (concat (map frame ps)) = (True, ps, [])"
  by (induction ps) (simp_all add: parse_stream_frame)

section \<open>Receiving is independent of the chunks\<close>

definition conn_ok :: "tls_connection \<Rightarrow> bool" where
  "conn_ok t \<longleftrightarrow> bb_ok (input_buffer t) \<and> bb_ok (output_buffer t) \<and>
     retry_write_bytes t \<le> readable_bytes (output_buffer t)"

lemma parse_stream_rest:
  "parse_stream c s = (good, fs, r) \<Longrightarrow> good \<Longrightarrow> parse_stream c r = (True, [], r)"
proof (induction c s arbitrary: good fs r rule: parse_stream.induct)
  case (1 c s)
  show ?case
  proof (cases "length s < header_size \<or>
      max_payload_size c < unat (decode_length (take header_size s)) \<or>
      length s < header_size + unat (decode_length (take header_size s))")
    case True
    with "1.prems" have "r = s" and "parse_stream c s = (True, [], s)"
      by (auto simp: parse_stream.simps [of c s] Let_def split: if_splits)
    then show ?thesis by simp
  next
    case False
    with "1.prems" obtain gs where
      "parse_stream c (drop (header_size + unat (decode_length (take header_size s))) s) =
         (good, gs, r)"
      by (auto simp: parse_stream.simps [of c s] Let_def split: prod.splits)
    then show ?thesis
      using False "1.IH" "1.prems"(2) by simp
  qed
qed

text \<open>A script that offers data only, each read no longer than the receive buffer.\<close>

lemma receive_loop_parse:
  assumes "bb_ok (input_buffer t)" and "\<forall>d \<in> set chunks. length d \<le> 8192"
    and "parse_stream (codec t) (readable_data (input_buffer t)) =
           (True, [], readable_data (input_buffer t))"
    and "parse_stream (codec t) (readable_data (input_buffer t) @ concat chunks) = (good, fs, rest)"
    and "receive_loop t 0 n acc (map Ssl_data chunks) = (batch, t', script')"
  shows "frames batch = acc @ fs \<and>
     batch_status batch = (if good then Open else Batch_frame_too_large) \<and>
     (good \<longrightarrow> script' = [] \<and> readable_data (input_buffer t') = rest \<and> bb_ok (input_buffer t'))"
  using assms
proof (induction chunks arbitrary: t n acc fs)
  case Nil
  then show ?case
    by (auto simp: receive_loop.simps)
next
  case (Cons d chunks)
  let ?data = "readable_data (input_buffer t) @ d"
  let ?in = "bb_append (input_buffer t) d"
  have ok: "bb_ok ?in" and dat: "readable_data ?in = ?data"
    using Cons.prems(1) bb.put_ok bb.put_contents by blast+
  obtain b' where dec: "decode_available (codec t) ?in acc =
       (fst (parse_stream (codec t) ?data), acc @ fst (snd (parse_stream (codec t) ?data)), b')"
    and b': "bb_ok b'" "readable_data b' = snd (snd (parse_stream (codec t) ?data))"
    using decode_available_parse [OF ok, of "codec t" acc] dat by auto
  obtain g1 f1 r1 where p1: "parse_stream (codec t) ?data = (g1, f1, r1)"
    by (metis prod_cases3)
  have len: "take 8192 d = d"
    using Cons.prems(2) by simp
  let ?t1 = "t\<lparr>input_buffer := b'\<rparr>"
  have app: "parse_stream (codec t) (?data @ concat chunks) = (good, fs, rest)"
    using Cons.prems(4) by simp
  show ?case
  proof (cases g1)
    case False
    have "good = False" "fs = f1"
      using app p1 False parse_stream_append [of "codec t" ?data "concat chunks"]
      by simp_all
    then show ?thesis
      using Cons.prems(5) dec p1 False len by (auto simp: receive_loop.simps [of t])
  next
    case True
    obtain f2 where f2: "parse_stream (codec t) (r1 @ concat chunks) = (good, f2, rest)"
        "fs = f1 @ f2"
      using app p1 True parse_stream_append [of "codec t" ?data "concat chunks"]
      by (auto split: prod.splits)
    have run: "receive_loop ?t1 0 (n + length d) (acc @ f1) (map Ssl_data chunks) =
        (batch, t', script')"
      using Cons.prems(5) dec p1 True len by (simp add: receive_loop.simps [of t])
    have idle: "parse_stream (codec ?t1) (readable_data (input_buffer ?t1)) =
        (True, [], readable_data (input_buffer ?t1))"
      using parse_stream_rest [OF p1 True] b'(2) p1 by simp
    show ?thesis
      using Cons.IH [of ?t1 f2 "n + length d" "acc @ f1"] Cons.prems(2) b' p1 f2 run idle
      by simp
  qed
qed

section \<open>Sending\<close>

lemma flush_output_stream:
  "bb_ok (output_buffer t) \<Longrightarrow> retry_write_bytes t \<le> readable_bytes (output_buffer t) \<Longrightarrow>
   \<exists>s t' wire'. flush_output t script wire = Inr (s, t', wire') \<and>
     bb_ok (output_buffer t') \<and> retry_write_bytes t' \<le> readable_bytes (output_buffer t') \<and>
     wire' @ readable_data (output_buffer t') = wire @ readable_data (output_buffer t) \<and>
     input_buffer t' = input_buffer t \<and> codec t' = codec t \<and>
     (s = Ready \<longrightarrow> readable_data (output_buffer t') = [] \<or> Ssl_blocked Ready \<in> set script)"
proof (induction script arbitrary: t wire)
  case Nil
  then show ?case
    by (auto simp: flush_output.simps bb_empty_def Let_def readable_data_def)
next
  case (Cons x script)
  show ?case
  proof (cases "bb_empty (output_buffer t)")
    case True
    then show ?thesis
      using Cons.prems by (auto simp: flush_output.simps readable_data_def)
  next
    case False
    let ?pending = "readable_data (output_buffer t)"
    let ?offered = "if retry_write_bytes t = 0 then length ?pending else retry_write_bytes t"
    have off: "?offered \<le> readable_bytes (output_buffer t)"
      using Cons.prems by simp
    show ?thesis
    proof (cases x)
      case (Ssl_blocked s)
      then show ?thesis
        using False Cons.prems off by (auto simp: flush_output.simps Let_def)
    next
      case (Ssl_wrote n)
      let ?w = "min n ?offered"
      have "?w \<le> readable_bytes (output_buffer t)"
        using off by (rule min.coboundedI2)
      then obtain b where b: "bb_consume (output_buffer t) ?w = Inr b" "bb_ok b"
          "readable_data b = drop ?w ?pending"
        using consume_done [OF Cons.prems(1)] by blast
      let ?t = "t\<lparr>retry_write_bytes := 0, output_buffer := b\<rparr>"
      have "flush_output t (x # script) wire = flush_output ?t script (wire @ take ?w ?pending)"
        using False b(1) Ssl_wrote by (simp add: flush_output.simps [of t] Let_def)
      then show ?thesis
        using Cons.IH [of ?t "wire @ take ?w ?pending"] b by auto
    qed
  qed
qed

text \<open>Queueing a list of messages, stopping at the first refusal.\<close>

fun queue_frames :: "tls_connection \<Rightarrow> u8 list list \<Rightarrow> buffer_error + bool \<times> tls_connection" where
  "queue_frames t [] = Inr (True, t)"
| "queue_frames t (p # ps) =
     (case queue_frame t p of
        Inl e \<Rightarrow> Inl e
      | Inr (taken, t') \<Rightarrow> if taken then queue_frames t' ps else Inr (False, t'))"

lemma queue_frame_taken:
  assumes "queue_frame t p = Inr (True, t')" and "conn_ok t"
  shows "fits (codec t) p" and "codec t' = codec t" and "conn_ok t'"
    and "readable_data (output_buffer t') = readable_data (output_buffer t) @ frame p"
proof -
  have "fits (codec t) p" and t': "t' = t\<lparr>output_buffer := bb_append (output_buffer t) (frame p)\<rparr>"
    using assms(1) by (simp_all add: queue_frame_def encode_frame split: if_splits)
  then show "fits (codec t) p" and "codec t' = codec t"
    by simp_all
  have ok: "bb_ok (output_buffer t)"
    using assms(2) by (simp add: conn_ok_def)
  have app: "readable_data (output_buffer t') = readable_data (output_buffer t) @ frame p"
    using bb.put_contents [OF ok] by (simp add: t')
  then show "readable_data (output_buffer t') = readable_data (output_buffer t) @ frame p" .
  have ok': "bb_ok (output_buffer t')"
    using bb.put_ok [OF ok] by (simp add: t')
  have "readable_bytes (output_buffer t) \<le> readable_bytes (output_buffer t')"
    using arg_cong [OF app, of length] ok ok' by simp
  then show "conn_ok t'"
    using assms(2) ok' by (simp add: conn_ok_def t')
qed

lemma queue_frames_taken:
  "queue_frames t ps = Inr (True, t') \<Longrightarrow> conn_ok t \<Longrightarrow>
     (\<forall>p \<in> set ps. fits (codec t) p) \<and> conn_ok t' \<and> codec t' = codec t \<and>
     readable_data (output_buffer t') = readable_data (output_buffer t) @ concat (map frame ps)"
proof (induction t ps rule: queue_frames.induct)
  case (1 t)
  then show ?case by simp
next
  case (2 t p ps)
  from "2.prems"(1) obtain u where q: "queue_frame t p = Inr (True, u)" and r: "queue_frames u ps = Inr (True, t')"
    by (auto split: sum.splits if_splits)
  note u = queue_frame_taken [OF q "2.prems"(2)]
  from "2.IH" [OF q refl TrueI r u(3)] u show ?case by simp
qed

section \<open>Properties\<close>

text \<open>
  C3. Receiving refines the abstract frame stream: for any bytes, however the socket cuts
  them into reads, the delivered frames, the verdict on an oversized frame and the bytes
  kept for the next read are those of the whole stream parsed at once.
\<close>

theorem receive_frames_refines_stream:
  assumes "bb_ok (input_buffer t)" and "readable_data (input_buffer t) = pending"
    and "parse_stream (codec t) pending = (True, [], pending)"
    and "\<forall>d \<in> set chunks. length d \<le> 8192"
  shows "case parse_stream (codec t) (pending @ concat chunks) of (good, fs, rest) \<Rightarrow>
     (case receive_frames t 0 (map Ssl_data chunks) of (batch, t', script') \<Rightarrow>
        frames batch = fs \<and>
        batch_status batch = (if good then Open else Batch_frame_too_large) \<and>
        (good \<longrightarrow> script' = [] \<and> readable_data (input_buffer t') = rest))"
  using receive_loop_parse [OF assms(1,4), where n = 0 and acc = "[]"] assms(2,3)
  by (auto simp: receive_frames_def split: prod.split)

definition example_conn :: tls_connection where
  "example_conn =
     \<lparr>codec = \<lparr>max_payload_size = 16\<rparr>, max_pending_output = 64, input_buffer = new_buffer,
      output_buffer = new_buffer, retry_write_bytes = 0\<rparr>"

lemma example_conn_simps [simp]:
  "codec example_conn = \<lparr>max_payload_size = 16\<rparr>" "input_buffer example_conn = new_buffer"
  "output_buffer example_conn = new_buffer" "retry_write_bytes example_conn = 0"
  "max_pending_output example_conn = 64"
  by (simp_all add: example_conn_def)

theorem receive_frames_refines_stream_witness:
  "case parse_stream (codec example_conn) ([] @ concat [[0, 0], [0, 1, 7, 0]]) of (good, fs, rest) \<Rightarrow>
     (case receive_frames example_conn 0 (map Ssl_data [[0, 0], [0, 1, 7, 0]]) of (batch, t', script') \<Rightarrow>
        frames batch = fs \<and>
        batch_status batch = (if good then Open else Batch_frame_too_large) \<and>
        (good \<longrightarrow> script' = [] \<and> readable_data (input_buffer t') = rest))"
  by (rule receive_frames_refines_stream) simp_all

text \<open>End to end: messages that a connection accepts for sending, flushed through any
  sequence of partial writes and cut into any reads, arrive at the peer as exactly the
  same messages, in order, and nothing is left over.
\<close>

lemma framed_messages_arrive:
  assumes "conn_ok s" and "readable_data (output_buffer s) = []"
    and "queue_frames s ps = Inr (True, s1)"
    and "Ssl_blocked Ready \<notin> set writes"
    and "flush_output s1 writes [] = Inr (Ready, s2, wire)"
    and "concat chunks = wire" and "\<forall>d \<in> set chunks. length d \<le> 8192"
    and "bb_ok (input_buffer r)" and "readable_data (input_buffer r) = []"
    and "max_payload_size (codec s) \<le> max_payload_size (codec r)"
  shows "\<exists>batch r'. receive_frames r 0 (map Ssl_data chunks) = (batch, r', []) \<and>
     frames batch = ps \<and> batch_status batch = Open \<and> readable_data (input_buffer r') = []"
proof -
  note q = queue_frames_taken [OF assms(3,1)]
  have wire: "wire = concat (map frame ps)"
    using flush_output_stream [of s1 writes "[]"] q assms(2,4,5) by (auto simp: conn_ok_def)
  have "\<forall>p \<in> set ps. fits (codec r) p"
    using q assms(10) by (auto simp: fits_def)
  then have "parse_stream (codec r) ([] @ concat chunks) = (True, ps, [])"
    using assms(6) wire parse_stream_frames by simp
  moreover obtain batch r' script' where
    "receive_loop r 0 0 [] (map Ssl_data chunks) = (batch, r', script')"
    by (metis prod_cases3)
  ultimately show ?thesis
    using receive_loop_parse [OF assms(8,7)] assms(9) by (auto simp: receive_frames_def)
qed

lemma framed_messages_arrive_witness:
  "\<exists>batch r'. receive_frames example_conn 0 (map Ssl_data [[0, 0, 0], [1, 7, 0, 0, 0, 0]]) =
        (batch, r', []) \<and>
     frames batch = [[7], []] \<and> batch_status batch = Open \<and> readable_data (input_buffer r') = []"
  by (rule framed_messages_arrive
      [of example_conn "[[7], []]"
          "example_conn\<lparr>output_buffer := \<lparr>storage = [0, 0, 0, 1, 7, 0, 0, 0, 0], read_offset = 0\<rparr>\<rparr>"
          "[Ssl_wrote 4, Ssl_wrote 9]"
          "example_conn\<lparr>output_buffer := new_buffer\<rparr>" "[0, 0, 0, 1, 7, 0, 0, 0, 0]"])
    (simp_all add: conn_ok_def queue_frame_def encode_def fits_pending_output_def Let_def
      readable_bytes_def bb_append_def new_buffer_def bb_ok_def readable_data_def bb_empty_def
      flush_output.simps bb_consume_def bb_clear_def compact_if_needed_def compact_threshold_def
      example_conn_def)

text \<open>Sending loses, repeats and reorders nothing: whatever mix of partial writes and
  blocked calls OpenSSL reports, the bytes on the wire followed by the bytes still queued
  are the bytes queued before, a retried write keeps its length within the queued bytes,
  and the buffer never raises.
\<close>

lemma flush_output_preserves_stream:
  assumes "conn_ok t"
  shows "\<exists>s t' wire'. flush_output t script wire = Inr (s, t', wire') \<and> conn_ok t' \<and>
     wire' @ readable_data (output_buffer t') = wire @ readable_data (output_buffer t)"
  using flush_output_stream [of t script wire] assms by (auto simp: conn_ok_def)

lemma flush_output_preserves_stream_witness:
  "\<exists>s t' wire'. flush_output example_conn [Ssl_wrote 3] [] = Inr (s, t', wire') \<and> conn_ok t' \<and>
     wire' @ readable_data (output_buffer t') = [] @ readable_data (output_buffer example_conn)"
  by (rule flush_output_preserves_stream) (simp add: conn_ok_def)

end
