(* ===== verification/Http1.thy ===== *)
theory Http1
  imports Byte_Framing
begin

text \<open>
  The bounded HTTP/1.1 request and response parsers and the response serialiser
  (framework/network/src/http). The two parsers share their head loop, their field-line
  rules and their buffering; here the shared code is written once and instantiated for both.
  Bytes are read as text through \<open>as_string_view\<close>; sizes and the 64-bit content length are
  naturals, bounded where the code checks them.
\<close>

section \<open>Lexing\<close>

definition to_lower :: "char \<Rightarrow> char" where
  "to_lower c =
     (let n = of_char c :: nat in if 65 \<le> n \<and> n \<le> 90 then char_of (n - 65 + 97) else c)"

definition is_tchar :: "char \<Rightarrow> bool" where
  "is_tchar c \<longleftrightarrow>
     (let n = of_char c :: nat in
      is_digit c \<or> 97 \<le> n \<and> n \<le> 122 \<or> 65 \<le> n \<and> n \<le> 90 \<or>
      c \<in> set [CHR ''!'', CHR ''#'', CHR ''$'', CHR ''%'', CHR ''&'', CHR 0x27, CHR ''*'',
               CHR ''+'', CHR ''-'', CHR ''.'', CHR ''^'', CHR ''_'', CHR 0x60, CHR ''|'', CHR ''~''])"

definition is_valid_value_char :: "char \<Rightarrow> bool" where
  "is_valid_value_char c \<longleftrightarrow>
     (let n = of_char c :: nat in n = 9 \<or> 32 \<le> n \<and> n \<le> 126 \<or> 128 \<le> n)"

definition lowercase :: "string \<Rightarrow> string" where
  "lowercase s = map to_lower s"

definition equals_ignore_case :: "string \<Rightarrow> string \<Rightarrow> bool" where
  "equals_ignore_case l r \<longleftrightarrow>
     length l = length r \<and> list_all (\<lambda>(a, b). to_lower a = to_lower b) (zip l r)"

definition is_sp_htab :: "char \<Rightarrow> bool" where
  "is_sp_htab c \<longleftrightarrow> c = CHR 0x20 \<or> c = CHR 0x09"

definition trim_sp_htab :: "string \<Rightarrow> string" where
  "trim_sp_htab s = rev (dropWhile is_sp_htab (rev (dropWhile is_sp_htab s)))"

text \<open>\<open>find\<close> of a substring, and \<open>std::search\<close> on bytes.\<close>

definition find_sub :: "'a list \<Rightarrow> 'a list \<Rightarrow> nat option" where
  "find_sub pat s = find (\<lambda>i. take (length pat) (drop i s) = pat) [0..<Suc (length s) - length pat]"

abbreviation (input) crlf :: string where
  "crlf \<equiv> [CHR 0x0D, CHR 0x0A]"

definition head_terminator :: "u8 list" where
  "head_terminator = [0x0D, 0x0A, 0x0D, 0x0A]"

section \<open>Field lines\<close>

text \<open>A field line becomes its normalised name and trimmed value; \<open>None\<close> is a malformed
  line, a folded one, or \<open>Transfer-Encoding\<close>.\<close>

definition parse_field_line :: "string \<Rightarrow> (string \<times> string) option" where
  "parse_field_line line =
     (if is_sp_htab (hd line) then None
      else case find_from CHR '':'' line 0 of
             None \<Rightarrow> None
           | Some colon \<Rightarrow>
               if colon = 0 \<or> is_sp_htab (line ! (colon - 1)) then None
               else let name = take colon line;
                        value = trim_sp_htab (drop (colon + 1) line);
                        normalized = lowercase name
                    in if \<not> list_all is_tchar name \<or> \<not> list_all is_valid_value_char value \<or>
                          normalized = ''transfer-encoding''
                       then None else Some (normalized, value))"

definition u64_max :: nat where
  "u64_max = 18446744073709551615"

definition parse_content_length :: "string \<Rightarrow> nat option" where
  "parse_content_length value =
     (if value = [] \<or> length (show_nat u64_max) < length value then None
      else decimal_loop u64_max 0 value)"

record head_fields =
  hf_headers :: "(string \<times> string) list"
  hf_host_count :: nat
  hf_length_count :: nat
  hf_content_length :: nat

text \<open>The loop over the head after its first line; the blank line ends it.\<close>

function parse_fields :: "string \<Rightarrow> head_fields \<Rightarrow> head_fields option" where
  "parse_fields rest f =
     (if rest = [] then Some f
      else case find_sub crlf rest of
             None \<Rightarrow> None
           | Some line_end \<Rightarrow>
               let line = take line_end rest; rest' = drop (line_end + 2) rest
               in if line = [] then Some f
                  else case parse_field_line line of
                         None \<Rightarrow> None
                       | Some (name, value) \<Rightarrow>
                           let f' = f\<lparr>hf_headers := hf_headers f @ [(name, value)]\<rparr>
                           in if name = ''host''
                              then parse_fields rest' (f'\<lparr>hf_host_count := hf_host_count f + 1\<rparr>)
                              else if name = ''content-length''
                              then (case parse_content_length value of
                                      None \<Rightarrow> None
                                    | Some n \<Rightarrow>
                                        parse_fields rest'
                                          (f'\<lparr>hf_length_count := hf_length_count f + 1,
                                              hf_content_length := n\<rparr>))
                              else parse_fields rest' f')"
  by pat_completeness auto
termination
  by (relation "measure (\<lambda>(rest, f). length rest)") auto

declare parse_fields.simps [simp del]

definition no_fields :: head_fields where
  "no_fields = \<lparr>hf_headers = [], hf_host_count = 0, hf_length_count = 0, hf_content_length = 0\<rparr>"

section \<open>Heads\<close>

datatype http_status =
  Http_need_more_data | Http_ready | Http_bad | Http_payload_too_large |
  Http_headers_too_large | Http_version_not_supported

record http_request =
  rq_method :: string
  rq_target :: string
  rq_headers :: "(string \<times> string) list"
  rq_body :: string

record http_response =
  rs_status :: int
  rs_headers :: "(string \<times> string) list"
  rs_body :: string

definition parse_request_line :: "string \<Rightarrow> http_status + string \<times> string" where
  "parse_request_line line =
     (case find_from CHR '' '' line 0 of
        None \<Rightarrow> Inl Http_bad
      | Some first_space \<Rightarrow>
          (case find_from CHR '' '' line (first_space + 1) of
             None \<Rightarrow> Inl Http_bad
           | Some second_space \<Rightarrow>
               if find_from CHR '' '' line (second_space + 1) \<noteq> None then Inl Http_bad
               else let method = take first_space line;
                        target = substr line (first_space + 1) (second_space - first_space - 1);
                        version = drop (second_space + 1) line
                    in if version \<noteq> ''HTTP/1.1'' then Inl Http_version_not_supported
                       else if method = [] \<or> \<not> list_all is_tchar method \<or> target = [] \<or>
                               hd target \<noteq> CHR ''/''
                       then Inl Http_bad
                       else Inr (method, target)))"

definition parse_request_head :: "nat \<Rightarrow> string \<Rightarrow> http_status + http_request \<times> nat" where
  "parse_request_head max_body head =
     (case find_sub crlf head of
        None \<Rightarrow> Inl Http_bad
      | Some line_end \<Rightarrow>
          (case parse_request_line (take line_end head) of
             Inl e \<Rightarrow> Inl e
           | Inr (method, target) \<Rightarrow>
               (case parse_fields (drop (line_end + 2) head) no_fields of
                  None \<Rightarrow> Inl Http_bad
                | Some f \<Rightarrow>
                    if hf_host_count f \<noteq> 1 \<or> 1 < hf_length_count f then Inl Http_bad
                    else if max_body < hf_content_length f then Inl Http_payload_too_large
                    else Inr (\<lparr>rq_method = method, rq_target = target,
                               rq_headers = hf_headers f, rq_body = []\<rparr>, hf_content_length f))))"

text \<open>The status line: version, three digits, an optional reason.\<close>

definition parse_status_line :: "string \<Rightarrow> http_status + int" where
  "parse_status_line line =
     (case find_from CHR '' '' line 0 of
        None \<Rightarrow> Inl Http_bad
      | Some first_space \<Rightarrow>
          if take first_space line \<noteq> ''HTTP/1.1''
          then Inl (if take first_space line = ''HTTP/1.0'' then Http_version_not_supported else Http_bad)
          else let rest = drop (first_space + 1) line;
                   code = (case find_from CHR '' '' rest 0 of None \<Rightarrow> rest | Some i \<Rightarrow> take i rest)
               in if length code \<noteq> 3 \<or> \<not> list_all is_digit code then Inl Http_bad
                  else Inr (int (digit_value (code ! 0) * 100 + digit_value (code ! 1) * 10 +
                                 digit_value (code ! 2))))"

definition parse_response_head :: "nat \<Rightarrow> string \<Rightarrow> http_status + http_response \<times> nat" where
  "parse_response_head max_body head =
     (case find_sub crlf head of
        None \<Rightarrow> Inl Http_bad
      | Some line_end \<Rightarrow>
          (case parse_status_line (take line_end head) of
             Inl e \<Rightarrow> Inl e
           | Inr st \<Rightarrow>
               (case parse_fields (drop (line_end + 2) head) no_fields of
                  None \<Rightarrow> Inl Http_bad
                | Some f \<Rightarrow>
                    if 1 < hf_length_count f then Inl Http_bad
                    else if max_body < hf_content_length f then Inl Http_payload_too_large
                    else Inr (\<lparr>rs_status = st, rs_headers = hf_headers f, rs_body = []\<rparr>,
                              hf_content_length f))))"

section \<open>Incremental parsing\<close>

datatype http_phase = Head_phase | Body_phase

text \<open>The parser state; \<open>'m\<close> is the message under construction.\<close>

record 'm http_parser =
  hp_phase :: http_phase
  hp_max_head :: nat
  hp_max_body :: nat
  hp_remaining :: nat
  hp_pending :: 'm

definition consume_body ::
  "('m \<Rightarrow> string \<Rightarrow> 'm) \<Rightarrow> 'm http_parser \<Rightarrow> byte_buffer \<Rightarrow>
     buffer_error + (http_status \<times> 'm option) \<times> 'm http_parser \<times> byte_buffer" where
  "consume_body append_body p b =
     (let view = readable_data b;
          n = min (length view) (hp_remaining p);
          pending = append_body (hp_pending p) (as_string_view (take n view));
          p' = p\<lparr>hp_pending := pending, hp_remaining := hp_remaining p - n\<rparr>
      in case bb_consume b n of
           Inl e \<Rightarrow> Inl e
         | Inr b' \<Rightarrow>
             if 0 < hp_remaining p' then Inr ((Http_need_more_data, None), p', b')
             else Inr ((Http_ready, Some pending), p'\<lparr>hp_phase := Head_phase\<rparr>, b'))"

definition try_parse ::
  "(nat \<Rightarrow> string \<Rightarrow> http_status + 'm \<times> nat) \<Rightarrow> ('m \<Rightarrow> string \<Rightarrow> 'm) \<Rightarrow> 'm http_parser \<Rightarrow>
     byte_buffer \<Rightarrow> buffer_error + (http_status \<times> 'm option) \<times> 'm http_parser \<times> byte_buffer" where
  "try_parse parse_head append_body p b =
     (case hp_phase p of
        Body_phase \<Rightarrow> consume_body append_body p b
      | Head_phase \<Rightarrow>
          (let view = readable_data b in
           case find_sub head_terminator view of
             None \<Rightarrow>
               Inr ((if hp_max_head p < length view then Http_headers_too_large
                     else Http_need_more_data, None), p, b)
           | Some terminator \<Rightarrow>
               (let head_size = terminator + length head_terminator in
                if hp_max_head p < head_size then Inr ((Http_headers_too_large, None), p, b)
                else case parse_head (hp_max_body p) (as_string_view (take head_size view)) of
                       Inl e \<Rightarrow> Inr ((e, None), p, b)
                     | Inr (message, content_length) \<Rightarrow>
                         (case bb_consume b head_size of
                            Inl e \<Rightarrow> Inl e
                          | Inr b' \<Rightarrow>
                              if content_length = 0 then Inr ((Http_ready, Some message), p, b')
                              else consume_body append_body
                                     (p\<lparr>hp_phase := Body_phase, hp_remaining := content_length,
                                        hp_pending := message\<rparr>) b'))))"

definition append_request_body :: "http_request \<Rightarrow> string \<Rightarrow> http_request" where
  "append_request_body r t = r\<lparr>rq_body := rq_body r @ t\<rparr>"

definition append_response_body :: "http_response \<Rightarrow> string \<Rightarrow> http_response" where
  "append_response_body r t = r\<lparr>rs_body := rs_body r @ t\<rparr>"

definition request_try_parse ::
  "http_request http_parser \<Rightarrow> byte_buffer \<Rightarrow>
     buffer_error + (http_status \<times> http_request option) \<times> http_request http_parser \<times> byte_buffer" where
  "request_try_parse = try_parse parse_request_head append_request_body"

definition response_try_parse ::
  "http_response http_parser \<Rightarrow> byte_buffer \<Rightarrow>
     buffer_error + (http_status \<times> http_response option) \<times> http_response http_parser \<times> byte_buffer" where
  "response_try_parse = try_parse parse_response_head append_response_body"

section \<open>Messages\<close>

definition find_header :: "(string \<times> string) list \<Rightarrow> string \<Rightarrow> string option" where
  "find_header headers name =
     map_option snd (find (\<lambda>(key, value). equals_ignore_case key name) headers)"

function has_close_token :: "string \<Rightarrow> bool" where
  "has_close_token tokens =
     (if tokens = [] then False
      else case find_from CHR '','' tokens 0 of
             None \<Rightarrow> equals_ignore_case (trim_sp_htab tokens) ''close''
           | Some comma \<Rightarrow>
               equals_ignore_case (trim_sp_htab (take comma tokens)) ''close'' \<or>
               has_close_token (drop (comma + 1) tokens))"
  by pat_completeness auto
termination
  by (relation "measure length") auto

declare has_close_token.simps [simp del]

definition wants_keep_alive :: "http_request \<Rightarrow> bool" where
  "wants_keep_alive r =
     (case find_header (rq_headers r) ''connection'' of
        None \<Rightarrow> True
      | Some connection \<Rightarrow> \<not> has_close_token connection)"

definition reason_phrase :: "int \<Rightarrow> string" where
  "reason_phrase st =
     (case map_of
        [(200, ''OK''), (202, ''Accepted''), (400, ''Bad Request''), (401, ''Unauthorized''),
         (403, ''Forbidden''), (404, ''Not Found''), (405, ''Method Not Allowed''),
         (413, ''Content Too Large''), (429, ''Too Many Requests''),
         (431, ''Request Header Fields Too Large''), (500, ''Internal Server Error''),
         (501, ''Not Implemented''), (503, ''Service Unavailable''),
         (505, ''HTTP Version Not Supported'')] st of
        Some phrase \<Rightarrow> phrase | None \<Rightarrow> '''')"

definition field_line :: "string \<times> string \<Rightarrow> string" where
  "field_line = (\<lambda>(name, value). name @ '': '' @ value @ crlf)"

definition serialize_http1_response :: "http_response \<Rightarrow> bool \<Rightarrow> string" where
  "serialize_http1_response r keep_alive =
     (let phrase = reason_phrase (rs_status r) in
      ''HTTP/1.1 '' @ show_int (rs_status r) @ (if phrase \<noteq> [] then '' '' @ phrase else []) @ crlf @
      concat (map field_line (rs_headers r)) @
      ''Content-Length: '' @ show_nat (length (rs_body r)) @ crlf @
      (if keep_alive then ''Connection: keep-alive'' @ crlf else ''Connection: close'' @ crlf) @
      crlf @ rs_body r)"

section \<open>Substring search\<close>

lemma find_sub_Some:
  "find_sub pat s = Some i \<longleftrightarrow>
     i + length pat \<le> length s \<and> take (length pat) (drop i s) = pat \<and>
     (\<forall>j < i. take (length pat) (drop j s) \<noteq> pat)"
proof -
  have "i + length pat \<le> length s" if "take (length pat) (drop i s) = pat" "i < Suc (length s) - length pat"
    using that by simp
  moreover have "(i < Suc (length s) - length pat) = (i + length pat \<le> length s)"
    by linarith
  ultimately show ?thesis
    by (auto simp: find_sub_def find_Some_iff intro!: exI [of _ i])
qed

lemma find_sub_None: "find_sub pat s = None \<longleftrightarrow> (\<forall>i. i + length pat \<le> length s \<longrightarrow> take (length pat) (drop i s) \<noteq> pat)"
  by (auto simp: find_sub_def find_None_iff)

lemma find_sub_append: "find_sub pat s = Some i \<Longrightarrow> find_sub pat (s @ t) = Some i"
  by (auto simp: find_sub_Some)

lemma find_sub_append_new:
  assumes "find_sub pat s = None" "find_sub pat (s @ t) = Some i"
  shows "length s < i + length pat"
proof (rule ccontr)
  assume "\<not> length s < i + length pat"
  then have "i + length pat \<le> length s" "take (length pat) (drop i s) = pat"
    using assms(2) by (simp_all add: find_sub_Some)
  then show False
    using assms(1) by (simp add: find_sub_None)
qed

section \<open>Parsing as a function of the bytes\<close>

text \<open>The same parser over the unread bytes; the buffer implements it.\<close>

definition body_view ::
  "('m \<Rightarrow> string \<Rightarrow> 'm) \<Rightarrow> 'm http_parser \<Rightarrow> u8 list \<Rightarrow> (http_status \<times> 'm option) \<times> 'm http_parser \<times> u8 list" where
  "body_view append_body p view =
     (let n = min (length view) (hp_remaining p);
          pending = append_body (hp_pending p) (as_string_view (take n view));
          p' = p\<lparr>hp_pending := pending, hp_remaining := hp_remaining p - n\<rparr>
      in if 0 < hp_remaining p' then ((Http_need_more_data, None), p', drop n view)
         else ((Http_ready, Some pending), p'\<lparr>hp_phase := Head_phase\<rparr>, drop n view))"

definition parse_view ::
  "(nat \<Rightarrow> string \<Rightarrow> http_status + 'm \<times> nat) \<Rightarrow> ('m \<Rightarrow> string \<Rightarrow> 'm) \<Rightarrow> 'm http_parser \<Rightarrow>
     u8 list \<Rightarrow> (http_status \<times> 'm option) \<times> 'm http_parser \<times> u8 list" where
  "parse_view parse_head append_body p view =
     (case hp_phase p of
        Body_phase \<Rightarrow> body_view append_body p view
      | Head_phase \<Rightarrow>
          (case find_sub head_terminator view of
             None \<Rightarrow>
               ((if hp_max_head p < length view then Http_headers_too_large
                 else Http_need_more_data, None), p, view)
           | Some terminator \<Rightarrow>
               (let head_size = terminator + length head_terminator in
                if hp_max_head p < head_size then ((Http_headers_too_large, None), p, view)
                else case parse_head (hp_max_body p) (as_string_view (take head_size view)) of
                       Inl e \<Rightarrow> ((e, None), p, view)
                     | Inr (message, content_length) \<Rightarrow>
                         if content_length = 0 then ((Http_ready, Some message), p, drop head_size view)
                         else body_view append_body
                                (p\<lparr>hp_phase := Body_phase, hp_remaining := content_length,
                                   hp_pending := message\<rparr>) (drop head_size view))))"

lemma consume_body_view:
  assumes "bb_ok b"
  shows "\<exists>b'. consume_body append_body p b =
      Inr (fst (body_view append_body p (readable_data b)),
           fst (snd (body_view append_body p (readable_data b))), b') \<and>
    bb_ok b' \<and> readable_data b' = snd (snd (body_view append_body p (readable_data b)))"
proof -
  let ?n = "min (length (readable_data b)) (hp_remaining p)"
  obtain b' where "bb_consume b ?n = Inr b'" "bb_ok b'" "readable_data b' = drop ?n (readable_data b)"
    using bb.take_done [OF assms, of ?n] by auto
  then show ?thesis
    by (auto simp: consume_body_def body_view_def Let_def)
qed

lemma try_parse_view:
  assumes "bb_ok b"
  shows "\<exists>b'. try_parse parse_head append_body p b =
      Inr (fst (parse_view parse_head append_body p (readable_data b)),
           fst (snd (parse_view parse_head append_body p (readable_data b))), b') \<and>
    bb_ok b' \<and> readable_data b' = snd (snd (parse_view parse_head append_body p (readable_data b)))"
proof (cases "hp_phase p")
  case Head_phase
  show ?thesis
  proof (cases "find_sub head_terminator (readable_data b)")
    case None
    then show ?thesis
      using assms Head_phase by (simp add: try_parse_def parse_view_def)
  next
    case (Some i)
    let ?n = "i + length head_terminator"
    have "?n \<le> length (readable_data b)"
      using Some by (simp add: find_sub_Some)
    from bb.take_done [OF assms this] obtain b1 where b1: "bb_consume b ?n = Inr b1" "bb_ok b1"
      "readable_data b1 = drop ?n (readable_data b)"
      by auto
    show ?thesis
      using assms Head_phase Some b1 consume_body_view [OF b1(2)]
      by (auto simp: try_parse_def parse_view_def Let_def split: sum.splits prod.splits)
  qed
next
  case Body_phase
  then show ?thesis
    using consume_body_view [OF assms] by (simp add: try_parse_def parse_view_def)
qed

section \<open>How the bytes are split does not matter\<close>

text \<open>Appending text to a message part by part is appending it at once.\<close>

definition body_action :: "('m \<Rightarrow> string \<Rightarrow> 'm) \<Rightarrow> bool" where
  "body_action append_body \<longleftrightarrow>
     (\<forall>m s t. append_body (append_body m s) t = append_body m (s @ t))"

lemma body_actions [simp]: "body_action append_request_body" "body_action append_response_body"
  by (simp_all add: body_action_def append_request_body_def append_response_body_def)

lemma as_string_view_append: "as_string_view (a @ b) = as_string_view a @ as_string_view b"
  by (simp add: as_string_view_def)

lemma body_view_resume:
  assumes "body_action append_body"
    and "body_view append_body p d = ((Http_need_more_data, m), p', d')"
  shows "body_view append_body p (d @ x) = body_view append_body p' (d' @ x)"
    "hp_phase p' = hp_phase p" "m = None"
proof -
  have short: "length d < hp_remaining p" "d' = []" "m = None"
    "p' = p\<lparr>hp_pending := append_body (hp_pending p) (as_string_view d),
            hp_remaining := hp_remaining p - length d\<rparr>"
    using assms(2) by (auto simp: body_view_def Let_def min_def split: if_splits)
  then have "min (length d + length x) (hp_remaining p) = length d + min (length x) (hp_remaining p - length d)"
    by simp
  then show "body_view append_body p (d @ x) = body_view append_body p' (d' @ x)"
    using short assms(1)
    by (simp add: body_view_def Let_def body_action_def as_string_view_append)
  show "hp_phase p' = hp_phase p" "m = None"
    using short by simp_all
qed

lemma body_view_done:
  assumes "body_view append_body p d = ((st, m), p', d')" "st \<noteq> Http_need_more_data"
  shows "body_view append_body p (d @ x) = ((st, m), p', d' @ x)"
proof -
  have "hp_remaining p \<le> length d"
    using assms by (auto simp: body_view_def Let_def min_def split: if_splits)
  then have "min (length d) (hp_remaining p) = hp_remaining p"
    "min (length d + length x) (hp_remaining p) = hp_remaining p"
    by simp_all
  then show ?thesis
    using assms \<open>hp_remaining p \<le> length d\<close> by (auto simp: body_view_def Let_def)
qed

lemma parse_view_resume:
  assumes "body_action append_body"
    and "parse_view parse_head append_body p d = ((Http_need_more_data, m), p', d')"
    and "\<And>max_body head. parse_head max_body head \<noteq> Inl Http_need_more_data"
  shows "parse_view parse_head append_body p (d @ x) = parse_view parse_head append_body p' (d' @ x)"
proof (cases "hp_phase p")
  case Body_phase
  then show ?thesis
    using assms(2) body_view_resume [OF assms(1), of p d m p' d'] by (simp add: parse_view_def)
next
  case Head_phase
  show ?thesis
  proof (cases "find_sub head_terminator d")
    case None
    then show ?thesis
      using assms(2) Head_phase by (auto simp: parse_view_def)
  next
    case (Some i)
    let ?n = "i + length head_terminator"
    have n: "?n \<le> length d" "find_sub head_terminator (d @ x) = Some i"
      using Some find_sub_append by (auto simp: find_sub_Some)
    obtain message content_length where head:
      "parse_head (hp_max_body p) (as_string_view (take ?n d)) = Inr (message, content_length)"
      "\<not> hp_max_head p < ?n" "content_length \<noteq> 0"
      using assms(2,3) Head_phase Some by (auto simp: parse_view_def Let_def split: if_splits sum.splits)
    let ?q = "p\<lparr>hp_phase := Body_phase, hp_remaining := content_length, hp_pending := message\<rparr>"
    have run: "body_view append_body ?q (drop ?n d) = ((Http_need_more_data, m), p', d')"
      using assms(2) Head_phase Some head by (simp add: parse_view_def Let_def)
    have "parse_view parse_head append_body p (d @ x) = body_view append_body ?q (drop ?n d @ x)"
      using Head_phase n head by (simp add: parse_view_def Let_def)
    then show ?thesis
      using body_view_resume [OF assms(1) run] by (simp add: parse_view_def)
  qed
qed

lemma parse_view_done:
  assumes "parse_view parse_head append_body p d = ((st, m), p', d')" "st \<noteq> Http_need_more_data"
  shows "parse_view parse_head append_body p (d @ x) = ((st, m), p', d' @ x)"
proof (cases "hp_phase p")
  case Body_phase
  then show ?thesis
    using assms body_view_done by (simp add: parse_view_def)
next
  case Head_phase
  show ?thesis
  proof (cases "find_sub head_terminator d")
    case None
    then have large: "hp_max_head p < length d" "st = Http_headers_too_large" "m = None" "p' = p" "d' = d"
      using assms Head_phase by (auto simp: parse_view_def split: if_splits)
    have "hp_max_head p < i + length head_terminator" if "find_sub head_terminator (d @ x) = Some i" for i
      using find_sub_append_new [OF None that] large(1) by linarith
    then show ?thesis
      using Head_phase large by (auto simp: parse_view_def Let_def split: option.splits)
  next
    case (Some i)
    let ?n = "i + length head_terminator"
    have n: "?n \<le> length d" "find_sub head_terminator (d @ x) = Some i"
      using Some find_sub_append by (auto simp: find_sub_Some)
    then show ?thesis
      using assms Head_phase Some body_view_done [where x = x]
      by (auto simp: parse_view_def Let_def split: if_splits sum.splits)
  qed
qed

text \<open>A connection that reads chunk by chunk and parses after each, until a verdict.\<close>

fun feed_chunks ::
  "(nat \<Rightarrow> string \<Rightarrow> http_status + 'm \<times> nat) \<Rightarrow> ('m \<Rightarrow> string \<Rightarrow> 'm) \<Rightarrow> 'm http_parser \<Rightarrow>
     byte_buffer \<Rightarrow> u8 list list \<Rightarrow>
     buffer_error + (http_status \<times> 'm option) \<times> 'm http_parser \<times> byte_buffer" where
  "feed_chunks parse_head append_body p b [] = Inr ((Http_need_more_data, None), p, b)"
| "feed_chunks parse_head append_body p b (c # cs) =
     (case try_parse parse_head append_body p (bb_append b c) of
        Inl e \<Rightarrow> Inl e
      | Inr ((st, m), p', b') \<Rightarrow>
          if st = Http_need_more_data \<and> cs \<noteq> [] then feed_chunks parse_head append_body p' b' cs
          else Inr ((st, m), p', bb_append b' (concat cs)))"

lemma feed_chunks_view:
  assumes "bb_ok b" "chunks \<noteq> []" "body_action append_body"
    and "\<And>max_body head. parse_head max_body head \<noteq> Inl Http_need_more_data"
  shows "\<exists>r p' b'. feed_chunks parse_head append_body p b chunks = Inr (r, p', b') \<and> bb_ok b' \<and>
    (r, p', readable_data b') = parse_view parse_head append_body p (readable_data b @ concat chunks)"
  using assms(1,2)
proof (induction chunks arbitrary: p b)
  case (Cons c cs)
  let ?view = "readable_data b @ c"
  have ok: "bb_ok (bb_append b c)" "readable_data (bb_append b c) = ?view"
    using Cons.prems(1) by (simp_all add: bb.put_ok bb.put_contents)
  obtain st m p1 d1 where v: "parse_view parse_head append_body p ?view = ((st, m), p1, d1)"
    by (metis surj_pair)
  obtain b1 where b1: "try_parse parse_head append_body p (bb_append b c) = Inr ((st, m), p1, b1)"
    "bb_ok b1" "readable_data b1 = d1"
    using try_parse_view [OF ok(1), of parse_head append_body p] ok(2) v by auto
  show ?case
  proof (cases "st = Http_need_more_data \<and> cs \<noteq> []")
    case True
    have "parse_view parse_head append_body p (?view @ concat cs) =
        parse_view parse_head append_body p1 (d1 @ concat cs)"
      using parse_view_resume [where parse_head = parse_head, OF assms(3) _ assms(4)] v True by blast
    then show ?thesis
      using Cons.IH [OF b1(2), of p1] True b1 by simp
  next
    case False
    then have "parse_view parse_head append_body p (?view @ concat cs) = ((st, m), p1, d1 @ concat cs)"
      using parse_view_done [OF v, of "concat cs"] v by (cases "cs = []") auto
    then show ?thesis
      using False b1 by (auto simp: bb.put_ok bb.put_contents)
  qed
qed simp

lemma request_head_verdict: "parse_request_head max_body head \<noteq> Inl Http_need_more_data"
  by (auto simp: parse_request_head_def parse_request_line_def Let_def split: option.splits sum.splits if_splits)

lemma response_head_verdict: "parse_response_head max_body head \<noteq> Inl Http_need_more_data"
  by (auto simp: parse_response_head_def parse_status_line_def Let_def split: option.splits sum.splits if_splits)

section \<open>What an accepted request looks like\<close>

definition named :: "string \<Rightarrow> (string \<times> string) list \<Rightarrow> (string \<times> string) list" where
  "named name headers = filter (\<lambda>(n, v). n = name) headers"

definition fields_ok :: "head_fields \<Rightarrow> bool" where
  "fields_ok f \<longleftrightarrow>
     hf_host_count f = length (named ''host'' (hf_headers f)) \<and>
     hf_length_count f = length (named ''content-length'' (hf_headers f)) \<and>
     hf_content_length f =
       (if named ''content-length'' (hf_headers f) = [] then 0
        else the (parse_content_length (snd (last (named ''content-length'' (hf_headers f)))))) \<and>
     (\<forall>(n, v) \<in> set (hf_headers f).
        n \<noteq> ''transfer-encoding'' \<and> list_all is_valid_value_char v \<and>
        (n = ''content-length'' \<longrightarrow> parse_content_length v \<noteq> None))"

lemma parse_field_line_ok:
  "parse_field_line line = Some (n, v) \<Longrightarrow> n \<noteq> ''transfer-encoding'' \<and> list_all is_valid_value_char v"
  by (auto simp: parse_field_line_def Let_def split: if_splits option.splits)

lemma fields_ok_add:
  assumes "fields_ok f" "parse_field_line line = Some (name, value)"
  shows "name = ''host'' \<Longrightarrow>
      fields_ok (f\<lparr>hf_headers := hf_headers f @ [(name, value)], hf_host_count := hf_host_count f + 1\<rparr>)"
    "name = ''content-length'' \<Longrightarrow> parse_content_length value = Some n \<Longrightarrow>
      fields_ok (f\<lparr>hf_headers := hf_headers f @ [(name, value)],
                   hf_length_count := hf_length_count f + 1, hf_content_length := n\<rparr>)"
    "name \<noteq> ''host'' \<Longrightarrow> name \<noteq> ''content-length'' \<Longrightarrow>
      fields_ok (f\<lparr>hf_headers := hf_headers f @ [(name, value)]\<rparr>)"
  using assms(1) parse_field_line_ok [OF assms(2)] by (auto simp: fields_ok_def named_def)

lemma parse_fields_ok: "parse_fields rest f = Some f' \<Longrightarrow> fields_ok f \<Longrightarrow> fields_ok f'"
proof (induction rest f rule: parse_fields.induct)
  case (1 rest f)
  show ?case
  proof (cases "rest = [] \<or> find_sub crlf rest = None")
    case True
    then show ?thesis
      using "1.prems" unfolding parse_fields.simps [of rest f] by (auto split: if_splits)
  next
    case False
    then obtain line_end where e: "rest \<noteq> []" "find_sub crlf rest = Some line_end"
      by auto
    show ?thesis
    proof (cases "take line_end rest = [] \<or> parse_field_line (take line_end rest) = None")
      case True
      then show ?thesis
        using "1.prems" e unfolding parse_fields.simps [of rest f] by (auto simp: Let_def split: if_splits)
    next
      case False
      then obtain name val where l: "take line_end rest \<noteq> []"
        "parse_field_line (take line_end rest) = Some (name, val)"
        by auto
      note add = fields_ok_add [OF "1.prems"(2) l(2)]
      note IH = "1.IH" [OF e refl refl l refl refl]
      let ?f = "f\<lparr>hf_headers := hf_headers f @ [(name, val)]\<rparr>" and ?rest = "drop (line_end + 2) rest"
      have run: "(if name = ''host'' then parse_fields ?rest (?f\<lparr>hf_host_count := hf_host_count f + 1\<rparr>)
          else if name = ''content-length''
          then (case parse_content_length val of
                  None \<Rightarrow> None
                | Some n \<Rightarrow> parse_fields ?rest
                    (?f\<lparr>hf_length_count := hf_length_count f + 1, hf_content_length := n\<rparr>))
          else parse_fields ?rest ?f) = Some f'"
        using "1.prems"(1) unfolding parse_fields.simps [of rest f]
        by (simp only: e l Let_def option.case prod.case if_False)
      consider "name = ''host''" | n where "name = ''content-length''" "parse_content_length val = Some n"
        | "name \<noteq> ''host''" "name \<noteq> ''content-length''"
        using run by (auto split: if_splits option.splits)
      then show ?thesis
      proof cases
        case 1
        then show ?thesis using IH(1) [OF 1] run add(1) [OF 1] by simp
      next
        case 2
        then show ?thesis using IH(2) [OF _ 2] run add(2) [OF 2] by simp
      next
        case 3
        then show ?thesis using IH(3) [OF 3] run add(3) [OF 3] by simp
      qed
    qed
  qed
qed

text \<open>The framing facts of an accepted request head with declared length \<open>n\<close>.\<close>

definition well_framed :: "nat \<Rightarrow> http_request \<Rightarrow> nat \<Rightarrow> bool" where
  "well_framed max_body r n \<longleftrightarrow>
     rq_method r \<noteq> [] \<and> list_all is_tchar (rq_method r) \<and> rq_target r \<noteq> [] \<and>
     hd (rq_target r) = CHR ''/'' \<and>
     length (named ''host'' (rq_headers r)) = 1 \<and>
     named ''transfer-encoding'' (rq_headers r) = [] \<and>
     (case named ''content-length'' (rq_headers r) of
        [] \<Rightarrow> n = 0
      | [(_, v)] \<Rightarrow> parse_content_length v = Some n
      | _ \<Rightarrow> False) \<and>
     n \<le> max_body"

lemma no_fields_ok: "fields_ok no_fields"
  by (simp add: fields_ok_def no_fields_def named_def)

lemma parse_request_line_ok:
  "parse_request_line line = Inr (method, target) \<Longrightarrow>
     method \<noteq> [] \<and> list_all is_tchar method \<and> target \<noteq> [] \<and> hd target = CHR ''/''"
  by (auto simp: parse_request_line_def Let_def split: option.splits if_splits)

lemma single_length:
  assumes "fields_ok f" "hf_length_count f \<le> 1"
  shows "case named ''content-length'' (hf_headers f) of
      [] \<Rightarrow> hf_content_length f = 0
    | [(_, v)] \<Rightarrow> parse_content_length v = Some (hf_content_length f)
    | _ \<Rightarrow> False"
proof (cases "named ''content-length'' (hf_headers f)")
  case (Cons h hs)
  then have hs: "hs = []"
    using assms by (auto simp: fields_ok_def)
  obtain n v where h: "h = (n, v)" by (cases h)
  have "(n, v) \<in> set (named ''content-length'' (hf_headers f))"
    using Cons h by simp
  then have "(n, v) \<in> set (hf_headers f)" "n = ''content-length''"
    by (auto simp: named_def)
  then have "parse_content_length v \<noteq> None"
    using assms(1) by (auto simp: fields_ok_def)
  then show ?thesis
    using Cons hs h assms(1) by (auto simp: fields_ok_def)
qed (use assms(1) in \<open>simp add: fields_ok_def\<close>)

lemma parse_request_head_framed:
  assumes "parse_request_head max_body head = Inr (r, n)"
  shows "well_framed max_body r n \<and> rq_body r = []"
proof -
  obtain line_end meth target f where p:
    "parse_request_line (take line_end head) = Inr (meth, target)"
    "parse_fields (drop (line_end + 2) head) no_fields = Some f"
    "hf_host_count f = 1" "hf_length_count f \<le> 1" "hf_content_length f \<le> max_body"
    "r = \<lparr>rq_method = meth, rq_target = target, rq_headers = hf_headers f, rq_body = []\<rparr>"
    "n = hf_content_length f"
    using assms
    by (auto simp: parse_request_head_def not_less split: option.splits sum.splits prod.splits if_splits)
  note ok = parse_fields_ok [OF p(2) no_fields_ok]
  have "named ''transfer-encoding'' (hf_headers f) = []"
    using ok by (auto simp: fields_ok_def named_def filter_empty_conv)
  moreover have "length (named ''host'' (hf_headers f)) = 1"
    using ok p(3) by (simp add: fields_ok_def)
  ultimately show ?thesis
    using p parse_request_line_ok [OF p(1)] single_length [OF ok p(4)]
    by (simp add: well_framed_def)
qed

lemma request_view_framed:
  assumes "hp_phase p = Head_phase"
    and "parse_view parse_request_head append_request_body p view = ((Http_ready, Some r), p', rest)"
  shows "well_framed (hp_max_body p) r (length (rq_body r))"
proof -
  obtain i message n where h: "find_sub head_terminator view = Some i"
    "parse_request_head (hp_max_body p) (as_string_view (take (i + length head_terminator) view)) = Inr (message, n)"
    "hp_max_head p \<ge> i + length head_terminator"
    using assms by (auto simp: parse_view_def Let_def not_less split: option.splits sum.splits prod.splits if_splits
        dest: sym)
  note framed = parse_request_head_framed [OF h(2)]
  show ?thesis
  proof (cases "n = 0")
    case True
    then have "r = message"
      using assms h by (simp add: parse_view_def Let_def)
    then show ?thesis using framed True by simp
  next
    case False
    let ?p = "p\<lparr>hp_phase := Body_phase, hp_remaining := n, hp_pending := message\<rparr>"
    let ?d = "drop (i + length head_terminator) view"
    have "body_view append_request_body ?p ?d = ((Http_ready, Some r), p', rest)"
      using assms h False by (simp add: parse_view_def Let_def)
    then have "n \<le> length ?d" "r = append_request_body message (as_string_view (take n ?d))"
      by (auto simp: body_view_def Let_def min_def split: if_splits)
    then have "length (rq_body r) = n" "rq_method r = rq_method message" "rq_target r = rq_target message"
      "rq_headers r = rq_headers message"
      using framed by (simp_all add: append_request_body_def as_string_view_def)
    then show ?thesis
      using framed by (simp add: well_framed_def)
  qed
qed

section \<open>A serialised response is read back\<close>

definition header_ok :: "string \<times> string \<Rightarrow> bool" where
  "header_ok = (\<lambda>(name, value).
     name \<noteq> [] \<and> list_all is_tchar name \<and> lowercase name \<noteq> ''transfer-encoding'' \<and>
     list_all is_valid_value_char value \<and>
     (value = [] \<or> \<not> is_sp_htab (hd value) \<and> \<not> is_sp_htab (last value)))"

lemma tchar_not: "is_tchar c \<Longrightarrow> c \<noteq> CHR '':'' \<and> \<not> is_sp_htab c \<and> c \<noteq> CHR 0x0D"
  by (auto simp: is_tchar_def is_sp_htab_def is_digit_def Let_def)

lemma valid_not_cr: "is_valid_value_char c \<Longrightarrow> c \<noteq> CHR 0x0D"
  by (auto simp: is_valid_value_char_def Let_def)

lemma trim_space: "trim_sp_htab (CHR 0x20 # value) = trim_sp_htab value"
  by (simp add: trim_sp_htab_def is_sp_htab_def)

lemma trim_trimmed:
  "value = [] \<or> \<not> is_sp_htab (hd value) \<and> \<not> is_sp_htab (last value) \<Longrightarrow> trim_sp_htab value = value"
proof -
  assume v: "value = [] \<or> \<not> is_sp_htab (hd value) \<and> \<not> is_sp_htab (last value)"
  have drop: "xs = [] \<or> \<not> is_sp_htab (hd xs) \<Longrightarrow> dropWhile is_sp_htab xs = xs" for xs
    by (cases xs) auto
  have "rev value = [] \<or> \<not> is_sp_htab (hd (rev value))"
    using v by (auto simp: hd_rev)
  then show ?thesis
    using drop [of "value"] drop [of "rev value"] v by (auto simp: trim_sp_htab_def)
qed

lemma parse_field_line_written:
  assumes "header_ok (name, value)"
  shows "parse_field_line (name @ '': '' @ value) = Some (lowercase name, value)"
proof -
  have h: "name \<noteq> []" "list_all is_tchar name" "lowercase name \<noteq> ''transfer-encoding''"
    "list_all is_valid_value_char value" "trim_sp_htab value = value"
    using assms trim_trimmed by (auto simp: header_ok_def)
  have colon: "find_from CHR '':'' (name @ '': '' @ value) 0 = Some (length name)"
    using find_from_hit [of "CHR '':''" name "[]" "CHR 0x20 # value"] h(2) tchar_not
    by (auto simp: list_all_iff)
  have "is_tchar (hd name)" "is_tchar (last name)"
    using h(1,2) by (simp_all add: list_all_iff)
  then have "\<not> is_sp_htab (hd name)" "\<not> is_sp_htab (last name)"
    using tchar_not by blast+
  then show ?thesis
    using h colon by (simp add: parse_field_line_def Let_def trim_space nth_append last_conv_nth)
qed

lemma find_sub_line:
  assumes "CHR 0x0D \<notin> set line"
  shows "find_sub crlf (line @ crlf @ rest) = Some (length line)"
proof -
  have "take 2 (drop j (line @ crlf @ rest)) \<noteq> crlf" if "j < length line" for j
  proof
    assume "take 2 (drop j (line @ crlf @ rest)) = crlf"
    then have "hd (take 2 (drop j (line @ crlf @ rest))) = CHR 0x0D" by simp
    then have "line ! j = CHR 0x0D"
      using that by (simp add: hd_drop_conv_nth nth_append)
    then show False using assms that by (metis nth_mem)
  qed
  then show ?thesis
    by (simp add: find_sub_Some numeral_2_eq_2)
qed

definition add_field :: "head_fields \<Rightarrow> string \<times> string \<Rightarrow> head_fields" where
  "add_field f = (\<lambda>(name, value).
     let n = lowercase name;
         f' = f\<lparr>hf_headers := hf_headers f @ [(n, value)]\<rparr>
     in if n = ''host'' then f'\<lparr>hf_host_count := hf_host_count f + 1\<rparr>
        else if n = ''content-length''
        then f'\<lparr>hf_length_count := hf_length_count f + 1,
                hf_content_length := the (parse_content_length value)\<rparr>
        else f')"

definition length_field_ok :: "string \<times> string \<Rightarrow> bool" where
  "length_field_ok = (\<lambda>(name, value).
     lowercase name = ''content-length'' \<longrightarrow> parse_content_length value \<noteq> None)"

lemma header_line_chars:
  assumes "header_ok (name, value)"
  shows "CHR 0x0D \<notin> set (name @ '': '' @ value)" "name @ '': '' @ value \<noteq> []"
  using assms tchar_not valid_not_cr by (auto simp: header_ok_def list_all_iff)

lemma parse_fields_line:
  assumes "header_ok (name, value)" "length_field_ok (name, value)"
  shows "parse_fields (field_line (name, value) @ rest) f = parse_fields rest (add_field f (name, value))"
proof -
  let ?line = "name @ '': '' @ value"
  have line: "field_line (name, value) @ rest = ?line @ crlf @ rest"
    by (simp add: field_line_def)
  have parts: "?line @ crlf @ rest \<noteq> []" "find_sub crlf (?line @ crlf @ rest) = Some (length ?line)"
    "take (length ?line) (?line @ crlf @ rest) = ?line" "?line \<noteq> []"
    using find_sub_line [OF header_line_chars(1) [OF assms(1)]] by simp_all
  have "drop (length l + 2) (l @ crlf @ rest) = rest" for l :: string
    by simp
  then have rest: "drop (length ?line + 2) (?line @ crlf @ rest) = rest" .
  let ?f = "f\<lparr>hf_headers := hf_headers f @ [(lowercase name, value)]\<rparr>"
  have run: "parse_fields (?line @ crlf @ rest) f =
      (if lowercase name = ''host'' then parse_fields rest (?f\<lparr>hf_host_count := hf_host_count f + 1\<rparr>)
       else if lowercase name = ''content-length''
       then (case parse_content_length value of
               None \<Rightarrow> None
             | Some n \<Rightarrow> parse_fields rest
                 (?f\<lparr>hf_length_count := hf_length_count f + 1, hf_content_length := n\<rparr>))
       else parse_fields rest ?f)"
    unfolding parse_fields.simps [of "?line @ crlf @ rest"]
    using parts(1,4) by (simp only: parts rest parse_field_line_written [OF assms(1)] Let_def if_False
        option.case prod.case)
  obtain m where m: "lowercase name = ''content-length'' \<Longrightarrow> parse_content_length value = Some m"
    using assms(2) by (auto simp: length_field_ok_def)
  consider "lowercase name = ''host''" | "lowercase name = ''content-length''"
    | "lowercase name \<noteq> ''host''" "lowercase name \<noteq> ''content-length''"
    by blast
  then show ?thesis
    unfolding line run add_field_def prod.case Let_def by cases (simp_all add: m)
qed

lemma parse_fields_written:
  "\<forall>h \<in> set hs. header_ok h \<and> length_field_ok h \<Longrightarrow>
     parse_fields (concat (map field_line hs) @ crlf) f = Some (foldl add_field f hs)"
proof (induction hs arbitrary: f)
  case Nil
  then show ?case
    using find_sub_line [of "[]" "[]"] by (simp add: parse_fields.simps [of crlf])
next
  case (Cons h hs)
  then show ?case
    using parse_fields_line by (cases h) simp
qed

text \<open>The blank line after the last field is the first double line break.\<close>

lemma find_sub_shift:
  assumes "length pat = k" "find_sub pat s = Some i"
    "\<And>j. j < length p \<Longrightarrow> take k (drop j (p @ s)) \<noteq> pat"
  shows "find_sub pat (p @ s) = Some (length p + i)"
proof -
  have "take k (drop j (p @ s)) \<noteq> pat" if "j < length p + i" for j
  proof (cases "j < length p")
    case False
    then have "take k (drop (j - length p) s) \<noteq> pat"
      using assms(1,2) that by (simp add: find_sub_Some)
    then show ?thesis using False by simp
  qed (rule assms(3))
  then show ?thesis
    using assms(1,2) by (simp add: find_sub_Some)
qed

abbreviation (input) blank :: string where
  "blank \<equiv> [CHR 0x0D, CHR 0x0A, CHR 0x0D, CHR 0x0A]"

lemma not_blank_at:
  assumes "take 4 (drop j s) = blank" "j < length s"
  shows "s ! j = CHR 0x0D \<and> s ! (j + 2) = CHR 0x0D"
proof -
  have "take 4 (drop j s) ! 0 = CHR 0x0D" "take 4 (drop j s) ! 2 = CHR 0x0D"
    "length (take 4 (drop j s)) = 4"
    using assms(1) by simp_all
  then show ?thesis
    using assms(2) by (auto simp: min_def split: if_splits)
qed

lemma blank_after_lines:
  assumes "ls \<noteq> []" "\<forall>l \<in> set ls. l \<noteq> [] \<and> CHR 0x0D \<notin> set l"
  shows "find_sub blank (concat (map (\<lambda>l. l @ crlf) ls) @ crlf @ rest) =
    Some (length (concat (map (\<lambda>l. l @ crlf) ls)) - 2)"
  using assms
proof (induction ls)
  case (Cons l ls)
  let ?tail = "concat (map (\<lambda>l. l @ crlf) ls) @ crlf @ rest"
  have l: "l \<noteq> []" "CHR 0x0D \<notin> set l"
    using Cons.prems(2) by simp_all
  have inside: "take 4 (drop j ((l @ crlf) @ ?tail)) \<noteq> blank" if "j < length l" for j
  proof -
    have "l ! j \<noteq> CHR 0x0D"
      using l(2) nth_mem [OF that] by metis
    then show ?thesis
      using not_blank_at [of j "(l @ crlf) @ ?tail"] that by (auto simp: nth_append)
  qed
  show ?case
  proof (cases "ls = []")
    case True
    have "take 4 (drop (length l) (l @ crlf @ crlf @ rest)) = blank"
      by simp
    then show ?thesis
      using inside True by (simp add: find_sub_Some numeral_eq_Suc)
  next
    case False
    then have IH: "find_sub blank ?tail = Some (length (concat (map (\<lambda>l. l @ crlf) ls)) - 2)"
      using Cons by simp
    obtain k ks where ks: "ls = k # ks"
      using False by (cases ls) simp_all
    then obtain c k' where k: "k = c # k'" "c \<noteq> CHR 0x0D"
      using Cons.prems(2) by (cases k) auto
    have "take 4 (drop j ((l @ crlf) @ ?tail)) \<noteq> blank" if "j < length (l @ crlf)" for j
    proof (cases "j < length l")
      case False
      then have "j = length l \<or> j = length l + 1"
        using that by auto
      then show ?thesis
        using k ks by (auto simp: numeral_eq_Suc)
    qed (rule inside)
    then have "find_sub blank ((l @ crlf) @ ?tail) =
        Some (length (l @ crlf) + (length (concat (map (\<lambda>l. l @ crlf) ls)) - 2))"
      by (intro find_sub_shift [where k = 4] IH) simp_all
    moreover have "2 \<le> length (concat (map (\<lambda>l. l @ crlf) ls))"
      using ks by simp
    ultimately show ?thesis by simp
  qed
qed simp

lemma find_sub_map:
  assumes "inj f"
  shows "find_sub (map f pat) (map f s) = find_sub pat s"
proof -
  have "take n (drop i (map f s)) = map f pat \<longleftrightarrow> take n (drop i s) = pat" for n i
    using inj_map_eq_map [OF assms, of "take n (drop i s)" pat] by (simp add: take_map drop_map)
  then show ?thesis
    by (simp add: find_sub_def)
qed

lemma find_terminator: "find_sub head_terminator (as_bytes s) = find_sub blank s"
proof -
  let ?f = "\<lambda>c. word_of_nat (of_char c) :: u8"
  have "inj ?f"
  proof (rule injI)
    fix a b assume "?f a = ?f b"
    then have "as_string_view (as_bytes [a]) = as_string_view (as_bytes [b])"
      by (simp add: as_bytes_def)
    then show "a = b" by simp
  qed
  then have "find_sub (map ?f blank) (map ?f s) = find_sub blank s"
    by (rule find_sub_map)
  then show ?thesis
    by (simp add: as_bytes_def head_terminator_def)
qed

definition status_line :: "int \<Rightarrow> string" where
  "status_line st =
     ''HTTP/1.1 '' @ show_int st @ (if reason_phrase st \<noteq> [] then '' '' @ reason_phrase st else [])"

lemma show_three_digits:
  assumes "100 \<le> n" "n < 1000"
  shows "show_nat n = [char_of (48 + n div 100), char_of (48 + n div 10 mod 10), char_of (48 + n mod 10)]"
proof -
  have "\<not> n < 10" "\<not> n div 10 < 10" "n div 10 div 10 < 10" "n div 10 div 10 = n div 100"
    using assms by auto
  then show ?thesis
    by (simp add: show_nat.simps [of n] show_nat.simps [of "n div 10"] show_nat.simps [of "n div 100"])
qed

lemma digits_value: "n div 100 * 100 + n div 10 mod 10 * 10 + n mod 10 = (n :: nat)"
proof -
  have "n div 100 = n div 10 div 10"
    by (simp add: div_mult2_eq [symmetric])
  then show ?thesis
    using div_mult_mod_eq [of n 10] div_mult_mod_eq [of "n div 10" 10] by linarith
qed

lemma digit_char_not_space: "(d :: nat) < 10 \<Longrightarrow> char_of (48 + d) \<noteq> CHR '' ''"
proof -
  assume "d < 10"
  then have "is_digit (char_of (48 + d))" by simp
  moreover have "\<not> is_digit CHR '' ''" by (simp add: is_digit_def)
  ultimately show ?thesis by metis
qed

lemma parse_status_line_written:
  assumes "100 \<le> st" "st < 1000"
  shows "parse_status_line (status_line st) = Inr st"
proof -
  define n where "n = nat st"
  have n: "100 \<le> n" "n < 1000" "st = int n"
    using assms by (simp_all add: n_def)
  let ?code = "[char_of (48 + n div 100), char_of (48 + n div 10 mod 10), char_of (48 + n mod 10)] :: string"
  let ?tail = "if reason_phrase st \<noteq> [] then '' '' @ reason_phrase st else []"
  have d: "n div 100 < 10" "n div 10 mod 10 < 10" "n mod 10 < 10"
    using n(2) by auto
  have line: "status_line st = ''HTTP/1.1'' @ CHR '' '' # ?code @ ?tail"
    using n show_three_digits [OF n(1,2)] by (simp add: status_line_def show_int_def)
  have first: "find_from CHR '' '' (status_line st) 0 = Some 8"
    using find_from_hit [of "CHR '' ''" "''HTTP/1.1''" "[]" "?code @ ?tail"] by (simp add: line)
  have no_space: "CHR '' '' \<notin> set ?code"
    using d [THEN digit_char_not_space] by auto
  have second: "(case find_from CHR '' '' (?code @ ?tail) 0 of None \<Rightarrow> ?code @ ?tail | Some i \<Rightarrow> take i (?code @ ?tail)) = ?code"
  proof (cases "reason_phrase st = []")
    case True
    then show ?thesis
      using find_from_miss [OF no_space, of "[]"] by simp
  next
    case False
    then show ?thesis
      using find_from_hit [OF no_space, of "[]" "reason_phrase st"] by simp
  qed
  have parts: "take 8 (status_line st) = ''HTTP/1.1''" "drop (8 + 1) (status_line st) = ?code @ ?tail"
    by (simp_all add: line)
  have digits: "length ?code = 3" "list_all is_digit ?code"
    "int (digit_value (?code ! 0) * 100 + digit_value (?code ! 1) * 10 + digit_value (?code ! 2)) = st"
    using d n digits_value [of n] by simp_all
  show ?thesis
    unfolding parse_status_line_def first option.case parts second Let_def
    using digits by simp
qed

lemma reason_no_cr: "CHR 0x0D \<notin> set (reason_phrase st)"
  by (auto simp: reason_phrase_def split: option.splits if_splits)

lemma status_line_no_cr: "0 \<le> st \<Longrightarrow> CHR 0x0D \<notin> set (status_line st)"
  using show_nat_digits [of "nat st"] reason_no_cr [of st]
  by (auto simp: status_line_def show_int_def list_all_iff is_digit_def)

section \<open>The round trip of a response\<close>

definition written_headers :: "http_response \<Rightarrow> bool \<Rightarrow> (string \<times> string) list" where
  "written_headers r keep_alive =
     rs_headers r @
     [(''Content-Length'', show_nat (length (rs_body r))),
      (''Connection'', if keep_alive then ''keep-alive'' else ''close'')]"

definition writable :: "http_response \<Rightarrow> bool" where
  "writable r \<longleftrightarrow>
     100 \<le> rs_status r \<and> rs_status r < 1000 \<and> length (rs_body r) \<le> u64_max \<and>
     (\<forall>(name, value) \<in> set (rs_headers r).
        header_ok (name, value) \<and> lowercase name \<noteq> ''content-length'')"

lemma serialized_head:
  "serialize_http1_response r keep_alive =
     (status_line (rs_status r) @ crlf) @ concat (map field_line (written_headers r keep_alive)) @
     crlf @ rs_body r"
  by (simp add: serialize_http1_response_def Let_def status_line_def written_headers_def field_line_def)

lemma shown_length:
  assumes "n \<le> u64_max"
  shows "parse_content_length (show_nat n) = Some n"
proof -
  have "length (show_nat n) \<le> length (show_nat u64_max)"
  proof -
    have "length (show_nat n) \<le> 20"
      using assms by (intro length_show_nat) (simp_all add: u64_max_def)
    also have "20 = length (show_nat u64_max)"
      by (simp add: u64_max_def show_nat.simps)
    finally show ?thesis .
  qed
  then show ?thesis
    using assms by (simp add: parse_content_length_def)
qed

lemma show_nat_header_value: "list_all is_valid_value_char (show_nat n)"
  "\<not> is_sp_htab (hd (show_nat n)) \<and> \<not> is_sp_htab (last (show_nat n))"
proof -
  have digits: "\<forall>c \<in> set (show_nat n). is_digit c"
    using show_nat_digits by (simp add: list_all_iff)
  then show "list_all is_valid_value_char (show_nat n)"
    by (auto simp: list_all_iff is_digit_def is_valid_value_char_def Let_def)
  show "\<not> is_sp_htab (hd (show_nat n)) \<and> \<not> is_sp_htab (last (show_nat n))"
    using digits hd_in_set [OF show_nat_nonempty] last_in_set [OF show_nat_nonempty]
    by (fastforce simp: is_digit_def is_sp_htab_def)
qed

lemma written_headers_ok:
  assumes "writable r"
  shows "\<forall>h \<in> set (written_headers r keep_alive). header_ok h \<and> length_field_ok h"
proof -
  have "header_ok (''Content-Length'', show_nat (length (rs_body r)))"
    using show_nat_header_value by (simp add: header_ok_def is_tchar_def is_digit_def lowercase_def to_lower_def)
  moreover have "length_field_ok (''Content-Length'', show_nat (length (rs_body r)))"
    using assms by (simp add: length_field_ok_def shown_length writable_def)
  moreover have "header_ok (''Connection'', if keep_alive then ''keep-alive'' else ''close'')"
    by (simp add: header_ok_def is_tchar_def is_digit_def lowercase_def to_lower_def
        is_valid_value_char_def is_sp_htab_def)
  moreover have "length_field_ok (''Connection'', x)" for x
    by (simp add: length_field_ok_def lowercase_def to_lower_def)
  ultimately show ?thesis
    using assms by (auto simp: written_headers_def writable_def length_field_ok_def)
qed

lemma add_fields_headers:
  "hf_headers (foldl add_field f hs) = hf_headers f @ map (\<lambda>(n, v). (lowercase n, v)) hs"
proof (induction hs arbitrary: f)
  case (Cons h hs)
  have "hf_headers (add_field f h) = hf_headers f @ [(lowercase (fst h), snd h)]"
    by (simp add: add_field_def case_prod_beta Let_def)
  then show ?case
    using Cons.IH by (simp add: case_prod_beta)
qed simp

lemma add_fields_length:
  "\<forall>h \<in> set hs. lowercase (fst h) \<noteq> ''content-length'' \<Longrightarrow>
     hf_length_count (foldl add_field f hs) = hf_length_count f \<and>
     hf_content_length (foldl add_field f hs) = hf_content_length f"
proof (induction hs arbitrary: f)
  case (Cons h hs)
  have "hf_length_count (add_field f h) = hf_length_count f"
    "hf_content_length (add_field f h) = hf_content_length f"
    using Cons.prems by (simp_all add: add_field_def case_prod_beta Let_def)
  then show ?case
    using Cons.IH [of "add_field f h"] Cons.prems by simp
qed simp

lemma written_fields:
  assumes "writable r"
  shows "hf_length_count (foldl add_field no_fields (written_headers r keep_alive)) = 1"
    "hf_content_length (foldl add_field no_fields (written_headers r keep_alive)) = length (rs_body r)"
proof -
  let ?f = "foldl add_field no_fields (rs_headers r)"
  let ?cl = "(''Content-Length'', show_nat (length (rs_body r)))"
  let ?co = "(''Connection'', if keep_alive then ''keep-alive'' else ''close'')"
  have names: "lowercase ''Content-Length'' = ''content-length''" "lowercase ''Connection'' = ''connection''"
    by code_simp+
  have "\<forall>h \<in> set (rs_headers r). lowercase (fst h) \<noteq> ''content-length''"
    using assms by (auto simp: writable_def)
  from add_fields_length [OF this, of no_fields]
  have f: "hf_length_count ?f = 0"
    by (simp add: no_fields_def)
  have cl: "hf_length_count (add_field ?f ?cl) = 1"
    "hf_content_length (add_field ?f ?cl) = length (rs_body r)"
    using assms by (simp_all add: add_field_def names Let_def f shown_length writable_def)
  have "foldl add_field no_fields (written_headers r keep_alive) = add_field (add_field ?f ?cl) ?co"
    by (simp add: written_headers_def)
  then show "hf_length_count (foldl add_field no_fields (written_headers r keep_alive)) = 1"
    "hf_content_length (foldl add_field no_fields (written_headers r keep_alive)) = length (rs_body r)"
    using cl by (simp_all add: add_field_def [of "add_field ?f ?cl"] names Let_def)
qed

definition read_response :: "http_response \<Rightarrow> bool \<Rightarrow> http_response" where
  "read_response r keep_alive =
     r\<lparr>rs_headers := map (\<lambda>(n, v). (lowercase n, v)) (written_headers r keep_alive)\<rparr>"

definition response_head :: "http_response \<Rightarrow> bool \<Rightarrow> string" where
  "response_head r keep_alive =
     (status_line (rs_status r) @ crlf) @ concat (map field_line (written_headers r keep_alive)) @ crlf"

lemma parse_response_head_written:
  assumes "writable r" "length (rs_body r) \<le> max_body"
  shows "parse_response_head max_body (response_head r keep_alive) =
    Inr ((read_response r keep_alive)\<lparr>rs_body := []\<rparr>, length (rs_body r))"
proof -
  let ?fields = "concat (map field_line (written_headers r keep_alive)) @ crlf"
  have head: "response_head r keep_alive = status_line (rs_status r) @ crlf @ ?fields"
    by (simp add: response_head_def)
  have st: "0 \<le> rs_status r" "parse_status_line (status_line (rs_status r)) = Inr (rs_status r)"
    using assms(1) by (simp_all add: writable_def parse_status_line_written)
  note line = find_sub_line [OF status_line_no_cr [OF st(1)], of ?fields]
  have "drop (length l + 2) (l @ crlf @ rest) = rest" "take (length l) (l @ crlf @ rest) = l"
    for l rest :: string
    by simp_all
  note cut = this [of "status_line (rs_status r)" ?fields]
  note fields = parse_fields_written [OF written_headers_ok [OF assms(1)]]
  show ?thesis
    unfolding parse_response_head_def head line option.case cut st sum.case fields
      written_fields [OF assms(1)]
    using assms(2) by (simp add: add_fields_headers read_response_def no_fields_def)
qed

lemma head_blank:
  assumes "writable r"
  shows "find_sub blank (response_head r keep_alive @ rest) = Some (length (response_head r keep_alive) - 4)"
    "4 \<le> length (response_head r keep_alive)"
proof -
  let ?lines = "status_line (rs_status r) # map (\<lambda>(n, v). n @ '': '' @ v) (written_headers r keep_alive)"
  have lines: "response_head r keep_alive = concat (map (\<lambda>l. l @ crlf) ?lines) @ crlf"
    by (simp add: response_head_def field_line_def comp_def case_prod_unfold)
  have "\<forall>l \<in> set ?lines. l \<noteq> [] \<and> CHR 0x0D \<notin> set l"
    using written_headers_ok [OF assms, of keep_alive] status_line_no_cr [of "rs_status r"] assms header_line_chars
    by (auto simp: writable_def status_line_def)
  from blank_after_lines [OF _ this, of rest]
  show "find_sub blank (response_head r keep_alive @ rest) = Some (length (response_head r keep_alive) - 4)"
    unfolding lines by simp
  show "4 \<le> length (response_head r keep_alive)"
    by (simp add: response_head_def)
qed

lemma response_view_written:
  assumes "writable r" "hp_phase p = Head_phase" "length (rs_body r) \<le> hp_max_body p"
    "length (response_head r keep_alive) \<le> hp_max_head p"
  shows "\<exists>p'. parse_view parse_response_head append_response_body p
      (as_bytes (serialize_http1_response r keep_alive) @ extra) =
    ((Http_ready, Some (read_response r keep_alive)), p', extra) \<and> hp_phase p' = Head_phase"
proof -
  let ?head = "response_head r keep_alive"
  let ?view = "as_bytes (serialize_http1_response r keep_alive) @ extra"
  have bytes: "as_bytes (a @ b) = as_bytes a @ as_bytes b" for a b
    by (simp add: as_bytes_def)
  have ser: "serialize_http1_response r keep_alive = ?head @ rs_body r"
    by (simp add: serialized_head response_head_def)
  note blank = head_blank [OF assms(1), of keep_alive]
  have search: "find_sub head_terminator ?view = Some (length ?head - 4)"
    using find_sub_append [of head_terminator "as_bytes (serialize_http1_response r keep_alive)" _ extra]
      blank(1) [of "rs_body r"] by (simp add: find_terminator ser)
  have size: "length ?head - 4 + length head_terminator = length ?head"
    using blank(2) by (simp add: head_terminator_def)
  have cut: "as_string_view (take (length ?head) ?view) = ?head"
    "drop (length ?head) ?view = as_bytes (rs_body r) @ extra"
    by (simp_all add: ser bytes)
  have run: "parse_view parse_response_head append_response_body p ?view =
      (if length (rs_body r) = 0
       then ((Http_ready, Some ((read_response r keep_alive)\<lparr>rs_body := []\<rparr>)), p, as_bytes (rs_body r) @ extra)
       else body_view append_response_body
              (p\<lparr>hp_phase := Body_phase, hp_remaining := length (rs_body r),
                 hp_pending := (read_response r keep_alive)\<lparr>rs_body := []\<rparr>\<rparr>)
              (as_bytes (rs_body r) @ extra))"
    unfolding parse_view_def assms(2) http_phase.case search option.case Let_def size cut
      parse_response_head_written [OF assms(1,3)] sum.case prod.case
    using assms(4) by simp
  show ?thesis
  proof (cases "rs_body r = []")
    case True
    then have "(read_response r keep_alive)\<lparr>rs_body := []\<rparr> = read_response r keep_alive"
      by (simp add: read_response_def)
    then show ?thesis
      using run True assms(2) by (simp add: as_bytes_def)
  next
    case False
    then show ?thesis
      using run by (simp add: body_view_def Let_def append_response_body_def read_response_def)
  qed
qed

section \<open>Properties\<close>

definition new_request_parser :: "nat \<Rightarrow> nat \<Rightarrow> http_request http_parser" where
  "new_request_parser max_head max_body =
     \<lparr>hp_phase = Head_phase, hp_max_head = max_head, hp_max_body = max_body, hp_remaining = 0,
      hp_pending = \<lparr>rq_method = [], rq_target = [], rq_headers = [], rq_body = []\<rparr>\<rparr>"

definition new_response_parser :: "nat \<Rightarrow> nat \<Rightarrow> http_response http_parser" where
  "new_response_parser max_head max_body =
     \<lparr>hp_phase = Head_phase, hp_max_head = max_head, hp_max_body = max_body, hp_remaining = 0,
      hp_pending = \<lparr>rs_status = 200, rs_headers = [], rs_body = []\<rparr>\<rparr>"

definition example_request :: "u8 list" where
  "example_request = as_bytes (''GET /v1 HTTP/1.1'' @ crlf @ ''Host: a'' @ crlf @ crlf @ ''hi'')"

text \<open>C8. The verdict on a request does not depend on how its bytes are split into reads: a
  connection that appends and parses chunk by chunk gets the verdict, the request and the
  left-over bytes that one parse of the whole stream gives, and the buffer never raises.\<close>

theorem request_split_invariant:
  assumes "bb_ok b" "chunks \<noteq> []"
  shows "\<exists>r p' b1 b2.
    feed_chunks parse_request_head append_request_body p b chunks = Inr (r, p', b1) \<and>
    request_try_parse p (bb_append b (concat chunks)) = Inr (r, p', b2) \<and>
    readable_data b1 = readable_data b2"
proof -
  obtain r p' b1 where one: "feed_chunks parse_request_head append_request_body p b chunks = Inr (r, p', b1)"
    "(r, p', readable_data b1) =
       parse_view parse_request_head append_request_body p (readable_data b @ concat chunks)"
    using feed_chunks_view
      [where parse_head = parse_request_head, OF assms body_actions(1) request_head_verdict] by blast
  have "bb_ok (bb_append b (concat chunks))"
    "readable_data (bb_append b (concat chunks)) = readable_data b @ concat chunks"
    using assms(1) by (simp_all add: bb.put_ok bb.put_contents)
  with try_parse_view [of "bb_append b (concat chunks)" parse_request_head append_request_body p]
  obtain b2 where "request_try_parse p (bb_append b (concat chunks)) = Inr (r, p', b2)"
    "readable_data b2 = readable_data b1"
    using one(2) by (auto simp: request_try_parse_def) (metis fst_conv snd_conv)
  then show ?thesis
    using one(1) by auto
qed

theorem request_split_invariant_witness:
  "\<exists>r p' b1 b2.
    feed_chunks parse_request_head append_request_body (new_request_parser 100 100) new_buffer
      [take 9 example_request, drop 9 example_request] = Inr (r, p', b1) \<and>
    request_try_parse (new_request_parser 100 100)
      (bb_append new_buffer (concat [take 9 example_request, drop 9 example_request])) = Inr (r, p', b2) \<and>
    readable_data b1 = readable_data b2"
  by (rule request_split_invariant) simp_all

text \<open>C13. A request accepted by a parser at the start of a message leaves no room for request
  smuggling: its method is a token, its target starts with a slash, it has exactly one Host
  field, no Transfer-Encoding, at most one Content-Length, and its body has exactly the
  declared length, at most the configured bound.\<close>

theorem request_well_framed:
  assumes "hp_phase p = Head_phase" "bb_ok b" "request_try_parse p b = Inr ((Http_ready, Some r), p', b')"
  shows "well_framed (hp_max_body p) r (length (rq_body r))"
proof -
  obtain b2 where
    "try_parse parse_request_head append_request_body p b =
       Inr (fst (parse_view parse_request_head append_request_body p (readable_data b)),
            fst (snd (parse_view parse_request_head append_request_body p (readable_data b))), b2)"
    using try_parse_view [OF assms(2)] by blast
  then have "parse_view parse_request_head append_request_body p (readable_data b) =
      ((Http_ready, Some r), p', snd (snd (parse_view parse_request_head append_request_body p (readable_data b))))"
    using assms(3) by (simp add: request_try_parse_def) (metis prod.collapse)
  from request_view_framed [OF assms(1) this] show ?thesis .
qed

lemma example_request_view:
  "fst (parse_view parse_request_head append_request_body (new_request_parser 100 100) example_request) =
     (Http_ready, Some \<lparr>rq_method = ''GET'', rq_target = ''/v1'',
      rq_headers = [(''host'', ''a'')], rq_body = []\<rparr>)"
  by code_simp

lemma example_request_parsed:
  "\<exists>p' b'. request_try_parse (new_request_parser 100 100) (bb_append new_buffer example_request) =
    Inr ((Http_ready, Some \<lparr>rq_method = ''GET'', rq_target = ''/v1'',
      rq_headers = [(''host'', ''a'')], rq_body = []\<rparr>), p', b')"
  using try_parse_view [of "bb_append new_buffer example_request" parse_request_head append_request_body
      "new_request_parser 100 100"] example_request_view
  by (auto simp: request_try_parse_def bb.put_ok bb.put_contents)

theorem request_well_framed_witness:
  "well_framed 100 \<lparr>rq_method = ''GET'', rq_target = ''/v1'',
      rq_headers = [(''host'', ''a'')], rq_body = []\<rparr> 0"
  using example_request_parsed
    request_well_framed [of "new_request_parser 100 100" "bb_append new_buffer example_request"]
  by (fastforce simp: new_request_parser_def bb.put_ok)

text \<open>A serialised response is read back by the response parser: whatever follows it in
  the buffer stays there, the status and the body are unchanged, and the header fields are
  the given ones in order, with lower-case names, followed by the two the serialiser adds.\<close>

lemma response_round_trip:
  assumes "writable r" "hp_phase p = Head_phase" "length (rs_body r) \<le> hp_max_body p"
    "length (response_head r keep_alive) \<le> hp_max_head p" "bb_ok b"
    "readable_data b = as_bytes (serialize_http1_response r keep_alive) @ extra"
  shows "\<exists>p' b'. response_try_parse p b = Inr ((Http_ready, Some (read_response r keep_alive)), p', b') \<and>
    hp_phase p' = Head_phase \<and> readable_data b' = extra"
proof -
  obtain p' where "parse_view parse_response_head append_response_body p (readable_data b) =
      ((Http_ready, Some (read_response r keep_alive)), p', extra)" "hp_phase p' = Head_phase"
    using response_view_written [OF assms(1-4), of extra] assms(6) by auto
  then show ?thesis
    using try_parse_view [OF assms(5), of parse_response_head append_response_body p]
    by (auto simp: response_try_parse_def)
qed

lemma response_round_trip_witness:
  "\<exists>p' b'. response_try_parse (new_response_parser 200 200)
      (bb_append new_buffer
        (as_bytes (serialize_http1_response \<lparr>rs_status = 202, rs_headers = [(''X'', ''y z'')], rs_body = ''hi''\<rparr> True) @ [7])) =
    Inr ((Http_ready, Some \<lparr>rs_status = 202,
      rs_headers = [(''x'', ''y z''), (''content-length'', ''2''), (''connection'', ''keep-alive'')],
      rs_body = ''hi''\<rparr>), p', b') \<and> hp_phase p' = Head_phase \<and> readable_data b' = [7]"
proof -
  let ?r = "\<lparr>rs_status = 202, rs_headers = [(''X'', ''y z'')], rs_body = ''hi''\<rparr>"
  have "writable ?r"
    by (simp add: writable_def u64_max_def header_ok_def is_tchar_def lowercase_def to_lower_def
        is_valid_value_char_def is_sp_htab_def)
  moreover have "length (response_head ?r True) \<le> 200"
    by code_simp
  moreover have "read_response ?r True = \<lparr>rs_status = 202,
      rs_headers = [(''x'', ''y z''), (''content-length'', ''2''), (''connection'', ''keep-alive'')],
      rs_body = ''hi''\<rparr>"
    by code_simp
  ultimately show ?thesis
    using response_round_trip [of ?r "new_response_parser 200 200" True
        "bb_append new_buffer (as_bytes (serialize_http1_response ?r True) @ [7])" "[7]"]
    by (simp add: new_response_parser_def bb.put_ok bb.put_contents)
qed

end
