(* ===== verification/Queue_Handler.thy ===== *)
theory Queue_Handler
  imports Queue_Ticketing Http1
begin

text \<open>
  The HTTP routes of the queue (\<open>game/queue/src/queue_handler.cpp\<close>). The clock value is an
  argument; the state is the ticketing module, the store behind it and the optional counter
  \<open>progress_requests_total\<close> of the metrics registry. An exception from the ticketing module
  passes through.
\<close>

definition error_invalid_request :: int where "error_invalid_request = 1000"
definition error_invalid_credentials :: int where "error_invalid_credentials = 1001"
definition error_invalid_number :: int where "error_invalid_number = 2001"
definition error_issuance_unavailable :: int where "error_issuance_unavailable = 2002"

definition json_response :: "int \<Rightarrow> (string \<times> json_value) list \<Rightarrow> http_response" where
  "json_response st members =
     \<lparr>rs_status = st, rs_headers = [(''Content-Type'', ''application/json'')],
      rs_body = json_encode (json_object_of members)\<rparr>"

definition error_response :: "int \<Rightarrow> int \<Rightarrow> string \<Rightarrow> http_response" where
  "error_response st code message =
     json_response st [(''code'', Jint code), (''message'', Jstring message)]"

definition plain_response :: "int \<Rightarrow> string \<Rightarrow> http_response" where
  "plain_response st body =
     \<lparr>rs_status = st, rs_headers = [(''Content-Type'', ''text/plain'')], rs_body = body\<rparr>"

definition add_header :: "string \<Rightarrow> string \<Rightarrow> http_response \<Rightarrow> http_response" where
  "add_header name value r = r\<lparr>rs_headers := rs_headers r @ [(name, value)]\<rparr>"

definition request_path :: "string \<Rightarrow> string" where
  "request_path target =
     (case find_from CHR ''?'' target 0 of None \<Rightarrow> target | Some query \<Rightarrow> take query target)"

definition bearer_token :: "http_request \<Rightarrow> string option" where
  "bearer_token request =
     (case find_header (rq_headers request) ''Authorization'' of
        None \<Rightarrow> None
      | Some value \<Rightarrow>
          let scheme = ''Bearer ''
          in if take (length scheme) value \<noteq> scheme then None
             else let credential = drop (length scheme) value
                  in if credential = [] then None else Some credential)"

text \<open>The nested grant object is spliced in after the opening brace of the flat object.\<close>

definition admitted_response :: "string \<Rightarrow> u64 \<Rightarrow> u64 \<Rightarrow> http_response" where
  "admitted_response grant_token number expires_in =
     (let grant = json_encode (json_object_of
            [(''admission_grant'', Jstring grant_token), (''number'', Jint (sint number)),
             (''expires_in'', Jint (sint expires_in))]);
          response = json_response 200
            [(''status'', Jstring ''admitted''), (''position'', Jint 0),
             (''estimated_wait_seconds'', Jint 0)];
          member = quote # ''admit_grant'' @ [quote] @ '':'' @ grant @ '',''
      in response\<lparr>rs_body := take 1 (rs_body response) @ member @ drop 1 (rs_body response)\<rparr>)"

record 's queue_handler =
  qh_ticketing :: queue_ticketing
  qh_store :: 's
  qh_identity_codec :: identity_codec
  qh_identity_issuer :: string
  qh_progress_requests :: "nat option"

definition not_allowed :: http_response where
  "not_allowed = error_response 405 error_invalid_request ''method not allowed''"

definition handle_issue ::
  "sodium \<Rightarrow> (queue_issue_request \<Rightarrow> 's \<Rightarrow> (error + queue_issue_result) \<times> 's) \<Rightarrow> time_point \<Rightarrow>
     's queue_handler \<Rightarrow> http_request \<Rightarrow> (error + http_response) \<times> 's queue_handler" where
  "handle_issue na store_issue now h request =
     (if rq_method request \<noteq> ''POST'' then (Inr not_allowed, h)
      else case bearer_token request of
             None \<Rightarrow> (Inr (error_response 401 error_invalid_credentials ''missing bearer credential''), h)
           | Some credential \<Rightarrow>
               (case identity_validate na (qh_identity_codec h) credential (qh_identity_issuer h) now of
                  None \<Rightarrow> (Inr (error_response 401 error_invalid_credentials ''invalid credentials''), h)
                | Some identity \<Rightarrow>
                    (case ticketing_issue na store_issue (qh_ticketing h) (qh_store h) identity now of
                       (result, ticketing, store) \<Rightarrow>
                         let h' = h\<lparr>qh_ticketing := ticketing, qh_store := store\<rparr>
                         in case result of
                              Inl e \<Rightarrow> (Inl e, h')
                            | Inr issued \<Rightarrow>
                                (Inr (if iqt_status issued = Queue_unavailable
                                  then add_header ''Retry-After'' ''1''
                                         (error_response 503 error_issuance_unavailable
                                            ''queue issuance temporarily unavailable'')
                                  else json_response 202
                                         [(''queue_number_token'', Jstring (iqt_token issued)),
                                          (''number'', Jint (sint (iqt_number issued))),
                                          (''estimated_wait_seconds'', Jint (sint (iqt_wait issued)))]),
                                 h'))))"

definition handle_progress ::
  "time_point \<Rightarrow> 's queue_handler \<Rightarrow> http_request \<Rightarrow> (error + http_response) \<times> 's queue_handler" where
  "handle_progress now h request =
     (if rq_method request \<noteq> ''GET'' then (Inr not_allowed, h)
      else (Inr (add_header ''Cache-Control'' ''public, max-age=1''
              (json_response 200
                 [(''released_number'', Jint (sint (qc_released (tq_core (qh_ticketing h))))),
                  (''admit_rate'', Jint (sint (admit_rate (tq_core (qh_ticketing h)) now))),
                  (''server_time'', Jint (epoch_seconds now))])),
            h\<lparr>qh_progress_requests := map_option Suc (qh_progress_requests h)\<rparr>))"

definition handle_query ::
  "sodium \<Rightarrow> generic_hash \<Rightarrow> time_point \<Rightarrow> 's queue_handler \<Rightarrow> http_request \<Rightarrow> error + http_response" where
  "handle_query na hash now h request =
     (if rq_method request \<noteq> ''GET'' then Inr not_allowed
      else case bearer_token request of
             None \<Rightarrow> Inr (error_response 401 error_invalid_number ''missing bearer number'')
           | Some credential \<Rightarrow>
               (case ticketing_query na hash (qh_ticketing h) credential now of
                  Inl e \<Rightarrow> Inl e
                | Inr q \<Rightarrow>
                    Inr (case tkq_status q of
                           Query_invalid_number \<Rightarrow>
                             error_response 401 error_invalid_number ''invalid or expired queue number''
                         | Query_expired \<Rightarrow>
                             error_response 401 error_invalid_number ''queue release window expired''
                         | Query_admitted \<Rightarrow>
                             admitted_response (the (tkq_grant q)) (tkq_number q) (tkq_expires_in q)
                         | Query_queued \<Rightarrow>
                             json_response 200
                               [(''status'', Jstring ''queued''),
                                (''position'', Jint (sint (tkq_position q))),
                                (''estimated_wait_seconds'', Jint (sint (tkq_wait q)))])))"

definition handle_request ::
  "sodium \<Rightarrow> generic_hash \<Rightarrow> (queue_issue_request \<Rightarrow> 's \<Rightarrow> (error + queue_issue_result) \<times> 's) \<Rightarrow>
     time_point \<Rightarrow> 's queue_handler \<Rightarrow> http_request \<Rightarrow> (error + http_response) \<times> 's queue_handler" where
  "handle_request na hash store_issue now h request =
     (let path = request_path (rq_target request) in
      if path = ''/v1/queue/tickets'' then handle_issue na store_issue now h request
      else if path = ''/v1/queue/progress'' then handle_progress now h request
      else if path = ''/v1/queue/tickets/me'' then (handle_query na hash now h request, h)
      else if path = ''/healthz''
      then (Inr (if rq_method request \<noteq> ''GET'' then not_allowed else plain_response 200 ''ok''), h)
      else (Inr (error_response 404 error_invalid_request ''not found''), h))"

section \<open>Responses on the wire\<close>

lemma content_types_ok:
  "header_ok (''Content-Type'', ''application/json'')" "header_ok (''Content-Type'', ''text/plain'')"
  "header_ok (''Retry-After'', ''1'')" "header_ok (''Cache-Control'', ''public, max-age=1'')"
  "lowercase ''Content-Type'' \<noteq> ''content-length''" "lowercase ''Retry-After'' \<noteq> ''content-length''"
  "lowercase ''Cache-Control'' \<noteq> ''content-length''"
  by code_simp+

text \<open>The status and the header fields that the parser of a client accepts.\<close>

definition head_writable :: "http_response \<Rightarrow> bool" where
  "head_writable r \<longleftrightarrow>
     100 \<le> rs_status r \<and> rs_status r < 1000 \<and>
     (\<forall>(name, value) \<in> set (rs_headers r). header_ok (name, value) \<and> lowercase name \<noteq> ''content-length'')"

lemma writable_head: "writable r \<longleftrightarrow> head_writable r \<and> length (rs_body r) \<le> u64_max"
  by (auto simp: writable_def head_writable_def)

lemma head_writable_responses:
  "100 \<le> st \<and> st < 1000 \<Longrightarrow> head_writable (json_response st members)"
  "100 \<le> st \<and> st < 1000 \<Longrightarrow> head_writable (error_response st code message)"
  "100 \<le> st \<and> st < 1000 \<Longrightarrow> head_writable (plain_response st body)"
  "head_writable (admitted_response token number expires_in)" "head_writable not_allowed"
  by (simp_all add: head_writable_def json_response_def error_response_def plain_response_def
      admitted_response_def not_allowed_def Let_def content_types_ok del: lowercase_def)

lemma head_writable_add:
  assumes "head_writable r" "header_ok (name, value)" "lowercase name \<noteq> ''content-length''"
  shows "head_writable (add_header name value r)"
  using assms by (auto simp: head_writable_def add_header_def)

lemma handle_head_writable:
  assumes "handle_request na hash store_issue now h request = (Inr r, h')"
  shows "head_writable r"
  using assms
  by (auto simp: handle_request_def handle_issue_def handle_progress_def handle_query_def Let_def
      content_types_ok intro!: head_writable_add head_writable_responses
      split: if_splits option.splits sum.splits prod.splits ticket_query_status.splits)

section \<open>State changes\<close>

lemma handle_other_unchanged:
  assumes "handle_request na hash store_issue now h request = (result, h')"
    "request_path (rq_target request) \<noteq> ''/v1/queue/tickets''"
  shows "qh_ticketing h' = qh_ticketing h \<and> qh_store h' = qh_store h"
  using assms by (auto simp: handle_request_def handle_progress_def Let_def split: if_splits)

lemma handle_issue_cases:
  assumes "handle_issue na store_issue now h request = (result, h')"
  obtains (refused) st code message where "h' = h" "result = Inr (error_response st code message)" "400 \<le> st" "st < 500"
  | (issued) credential identity r where "rq_method request = ''POST''"
      "bearer_token request = Some credential"
      "identity_validate na (qh_identity_codec h) credential (qh_identity_issuer h) now = Some identity"
      "ticketing_issue na store_issue (qh_ticketing h) (qh_store h) identity now =
         (r, qh_ticketing h', qh_store h')"
proof (cases "rq_method request = ''POST''")
  case False
  then show thesis
    using refused [of 405 error_invalid_request "''method not allowed''"] assms
    by (simp add: handle_issue_def not_allowed_def)
next
  case post: True
  show thesis
  proof (cases "bearer_token request")
    case None
    then show thesis
      using refused [of 401 error_invalid_credentials "''missing bearer credential''"] assms post
      by (simp add: handle_issue_def)
  next
    case (Some credential)
    show thesis
    proof (cases "identity_validate na (qh_identity_codec h) credential (qh_identity_issuer h) now")
      case None
      then show thesis
        using refused [of 401 error_invalid_credentials "''invalid credentials''"] assms post Some
        by (simp add: handle_issue_def)
    next
      case (Some identity)
      then show thesis
        using issued [OF post \<open>bearer_token request = Some credential\<close> Some] assms post
          \<open>bearer_token request = Some credential\<close>
        by (auto simp: handle_issue_def Let_def split: prod.splits sum.splits)
    qed
  qed
qed

lemma handle_keeps_ledger:
  assumes "handle_request na hash store_issue now h request = (result, h')" "core_ok (tq_core (qh_ticketing h))"
  shows "core_ok (tq_core (qh_ticketing h'))"
proof (cases "request_path (rq_target request) = ''/v1/queue/tickets''")
  case True
  then have "handle_issue na store_issue now h request = (result, h')"
    using assms(1) by (simp add: handle_request_def)
  then show ?thesis
    by (cases rule: handle_issue_cases) (use assms(2) ticketing_issue_core in auto)
qed (use handle_other_unchanged [OF assms(1)] assms(2) in simp)

section \<open>Properties\<close>

text \<open>A handler in front of a store that counts its calls and never commits.\<close>

definition example_store :: "queue_issue_request \<Rightarrow> nat \<Rightarrow> (error + queue_issue_result) \<times> nat" where
  "example_store request n =
     (Inr \<lparr>qis_status = Queue_unavailable, qis_number = 0, qis_issued_at = 0,
           qis_snapshot = qir_snapshot request\<rparr>, Suc n)"

definition example_handler :: "nat queue_handler" where
  "example_handler =
     \<lparr>qh_ticketing = example_ticketing, qh_store = 0, qh_identity_codec = example_codec,
      qh_identity_issuer = ''realmmesh/login'', qh_progress_requests = Some 0\<rparr>"

definition ticket_request :: http_request where
  "ticket_request =
     \<lparr>rq_method = ''POST'', rq_target = ''/v1/queue/tickets?retry=1'',
      rq_headers = [(''authorization'',
        ''Bearer '' @ identity_issue example_sodium example_codec example_claims)],
      rq_body = []\<rparr>"

definition health_request :: http_request where
  "health_request = \<lparr>rq_method = ''GET'', rq_target = ''/healthz'', rq_headers = [], rq_body = []\<rparr>"

lemma example_issue_handled:
  "\<exists>r h'. handle_request example_sodium example_hash example_store (seconds 1950) example_handler
     ticket_request = (Inr r, h') \<and> qh_store h' = 1"
proof -
  let ?token = "identity_issue example_sodium example_codec example_claims"
  have "identity_validate example_sodium example_codec ?token ''realmmesh/login'' (seconds 1950) =
      Some (carried_claims example_claims)"
    using identity_validate_issued [OF sodium_laws_example example_codec_new _ claims_issuable_example]
      example_window(1) by (simp add: example_claims_def)
  moreover have "?token \<noteq> []"
    by (simp add: identity_issue_def jws_encode_def)
  moreover have "equals_ignore_case ''authorization'' ''Authorization''"
    by code_simp
  then have "bearer_token ticket_request = (if ?token = [] then None else Some ?token)"
    by (simp add: bearer_token_def ticket_request_def find_header_def)
  moreover have "request_path (rq_target ticket_request) = ''/v1/queue/tickets''"
    unfolding ticket_request_def http_request.select_convs by code_simp
  ultimately show ?thesis
    by (simp add: handle_request_def handle_issue_def ticket_request_def example_handler_def
        ticketing_issue_def example_store_def no_ticket_def)
qed

text \<open>C15. Only an authenticated ticket request can change the queue: whatever is requested,
  the release state and the store stay as they are unless it is a POST of a ticket whose
  bearer credential is a currently valid identity token of the configured issuer.\<close>

theorem only_authenticated_issue:
  assumes "handle_request na hash store_issue now h request = (result, h')"
    "qh_ticketing h' \<noteq> qh_ticketing h \<or> qh_store h' \<noteq> qh_store h"
  shows "request_path (rq_target request) = ''/v1/queue/tickets'' \<and> rq_method request = ''POST'' \<and>
    (\<exists>credential identity. bearer_token request = Some credential \<and>
       identity_validate na (qh_identity_codec h) credential (qh_identity_issuer h) now = Some identity)"
proof -
  have path: "request_path (rq_target request) = ''/v1/queue/tickets''"
    using handle_other_unchanged [OF assms(1)] assms(2) by blast
  then have "handle_issue na store_issue now h request = (result, h')"
    using assms(1) by (simp add: handle_request_def)
  then show ?thesis
    by (cases rule: handle_issue_cases) (use assms(2) path in auto)
qed

theorem only_authenticated_issue_witness:
  "rq_method ticket_request = ''POST'' \<and>
   (\<exists>credential identity. bearer_token ticket_request = Some credential \<and>
      identity_validate example_sodium example_codec credential ''realmmesh/login'' (seconds 1950) = Some identity)"
proof -
  obtain r h' where "handle_request example_sodium example_hash example_store (seconds 1950) example_handler
      ticket_request = (Inr r, h')" "qh_store h' = 1"
    using example_issue_handled by blast
  then show ?thesis
    using only_authenticated_issue [of example_sodium example_hash example_store "seconds 1950"
        example_handler ticket_request "Inr r" h'] by (simp add: example_handler_def)
qed

text \<open>Every answer reaches the client: what the handler answers, to any request in any
  state, is written by the response writer and read back by a client parser with sufficient
  limits with the same status and body, leaving the following bytes in the buffer.\<close>

lemma handler_answer_delivered:
  assumes "handle_request na hash store_issue now h request = (Inr r, h')"
    "hp_phase p = Head_phase" "length (rs_body r) \<le> hp_max_body p" "length (rs_body r) \<le> u64_max"
    "length (response_head r keep_alive) \<le> hp_max_head p" "bb_ok b"
    "readable_data b = as_bytes (serialize_http1_response r keep_alive) @ extra"
  shows "\<exists>r' p' b'. response_try_parse p b = Inr ((Http_ready, Some r'), p', b') \<and>
    rs_status r' = rs_status r \<and> rs_body r' = rs_body r \<and> readable_data b' = extra"
proof -
  have "writable r"
    using handle_head_writable [OF assms(1)] assms(4) by (simp add: writable_head)
  from response_view_written [OF this assms(2,3,5), of extra]
  obtain p' where "parse_view parse_response_head append_response_body p (readable_data b) =
      ((Http_ready, Some (read_response r keep_alive)), p', extra)"
    using assms(7) by auto
  then have "\<exists>b'. response_try_parse p b = Inr ((Http_ready, Some (read_response r keep_alive)), p', b') \<and>
      readable_data b' = extra"
    using try_parse_view [OF assms(6), of parse_response_head append_response_body p]
    by (auto simp: response_try_parse_def)
  then show ?thesis
    by (auto simp: read_response_def)
qed

lemma handler_answer_delivered_witness:
  "\<exists>r r' p' b'. handle_request example_sodium example_hash example_store 0 example_handler
       health_request = (Inr r, example_handler) \<and>
     response_try_parse (new_response_parser 200 200)
       (bb_append new_buffer (as_bytes (serialize_http1_response r True) @ [7])) =
       Inr ((Http_ready, Some r'), p', b') \<and>
     rs_status r' = 200 \<and> rs_body r' = ''ok'' \<and> readable_data b' = [7]"
proof -
  let ?r = "plain_response 200 ''ok''"
  have path: "request_path (rq_target health_request) = ''/healthz''"
    by code_simp
  then have run: "handle_request example_sodium example_hash example_store 0 example_handler health_request =
      (Inr ?r, example_handler)"
    by (simp add: handle_request_def health_request_def)
  have "length (response_head ?r True) \<le> 200"
    by code_simp
  then show ?thesis
    using handler_answer_delivered [OF run, of "new_response_parser 200 200" True
        "bb_append new_buffer (as_bytes (serialize_http1_response ?r True) @ [7])" "[7]"] run
    by (simp add: new_response_parser_def bb.put_ok bb.put_contents plain_response_def u64_max_def)
qed

end
