(* ===== verification/Queue_Service.thy ===== *)
theory Queue_Service
  imports Queue_Handler
begin

text \<open>
  The frame loop of the queue service (\<open>game/queue/src/queue_service.cpp\<close>): the release frame
  with its roll-back, the metrics and the tick. The store is given by its operations
  \<open>save\<close> and \<open>refresh\<close> on a store state; both may throw. The work of the HTTP server in one
  tick is the argument \<open>poll\<close>.
\<close>

record 's queue_service =
  qsv_running :: bool
  qsv_handler :: "'s queue_handler"
  qsv_budgets :: "budget_aggregate option"
  qsv_budget_interval :: duration
  qsv_release_interval :: duration
  qsv_next_budget_poll :: time_point
  qsv_next_release :: time_point
  qsv_admit_batches :: "nat option"

record queue_metrics =
  qm_tickets_issued :: u64
  qm_released :: u64
  qm_admit_rate :: u64
  qm_queue_length :: u64

abbreviation service_core :: "'s queue_service \<Rightarrow> queue_core" where
  "service_core svc \<equiv> tq_core (qh_ticketing (qsv_handler svc))"

definition set_core :: "queue_core \<Rightarrow> 's queue_service \<Rightarrow> 's queue_service" where
  "set_core core svc =
     svc\<lparr>qsv_handler := qsv_handler svc
       \<lparr>qh_ticketing := qh_ticketing (qsv_handler svc)\<lparr>tq_core := core\<rparr>\<rparr>\<rparr>"

definition set_store :: "'s \<Rightarrow> 's queue_service \<Rightarrow> 's queue_service" where
  "set_store s svc = svc\<lparr>qsv_handler := qsv_handler svc\<lparr>qh_store := s\<rparr>\<rparr>"

text \<open>The roll-back of a release that was not saved.\<close>

definition roll_back ::
  "queue_snapshot \<Rightarrow> time_point \<Rightarrow> (error + unit) \<Rightarrow> 's queue_service \<Rightarrow> (error + unit) \<times> 's queue_service" where
  "roll_back before now result svc =
     (case core_restore (service_core svc) before now of
        Inl e \<Rightarrow> (Inl e, svc)
      | Inr core \<Rightarrow> (result, set_core core svc))"

definition release_frame ::
  "(queue_snapshot \<Rightarrow> int \<Rightarrow> 's \<Rightarrow> (error + bool) \<times> 's) \<Rightarrow> time_point \<Rightarrow>
     's queue_service \<Rightarrow> (error + unit) \<times> 's queue_service" where
  "release_frame save now svc =
     (let before = core_snapshot (service_core svc) now;
          budgets = (case qsv_budgets svc of
                       Some b \<Rightarrow> b
                     | None \<Rightarrow> \<lparr>gateway_admission = 0, realm_connections = 0\<rparr>)
      in case release_batch (service_core svc) budgets now of
           Inl e \<Rightarrow> (Inl e, svc)
         | Inr (released, core) \<Rightarrow>
             let svc1 = set_core core svc
             in if released = 0 then (Inr (), svc1)
                else case save (core_snapshot core now) (epoch_seconds now) (qh_store (qsv_handler svc)) of
                       (saved, s) \<Rightarrow>
                         let svc2 = set_store s svc1
                         in case saved of
                              Inl e \<Rightarrow> roll_back before now (Inl e) svc2
                            | Inr False \<Rightarrow> roll_back before now (Inr ()) svc2
                            | Inr True \<Rightarrow>
                                (Inr (), svc2\<lparr>qsv_admit_batches := map_option Suc (qsv_admit_batches svc2)\<rparr>))"

definition queue_metrics_of :: "queue_core \<Rightarrow> time_point \<Rightarrow> queue_metrics" where
  "queue_metrics_of core now =
     (let issued = qc_next core - 1; released = qc_released core
      in \<lparr>qm_tickets_issued = issued, qm_released = released, qm_admit_rate = admit_rate core now,
          qm_queue_length = issued - released\<rparr>)"

text \<open>One tick: \<open>steady\<close> is the steady clock that paces the ticks, \<open>now\<close> the system clock.
  The last component is what is published, when the tick reaches its end.\<close>

definition service_tick ::
  "('s queue_service \<Rightarrow> 's queue_service) \<Rightarrow> ('s \<Rightarrow> (error + budget_aggregate option) \<times> 's) \<Rightarrow>
     (queue_snapshot \<Rightarrow> int \<Rightarrow> 's \<Rightarrow> (error + bool) \<times> 's) \<Rightarrow> time_point \<Rightarrow> time_point \<Rightarrow>
     's queue_service \<Rightarrow> (error + queue_metrics option) \<times> 's queue_service" where
  "service_tick poll refresh save steady now svc0 =
     (if \<not> qsv_running svc0 then (Inr None, svc0)
      else let svc = poll svc0;
               (refreshed, svc1) =
                 (if qsv_next_budget_poll svc \<le> steady
                  then let svc' = svc\<lparr>qsv_next_budget_poll := steady + qsv_budget_interval svc\<rparr>
                       in case refresh (qh_store (qsv_handler svc')) of
                            (Inl e, s) \<Rightarrow> (Inl e, set_store s svc')
                          | (Inr budgets, s) \<Rightarrow> (Inr (), (set_store s svc')\<lparr>qsv_budgets := budgets\<rparr>)
                  else (Inr (), svc))
           in case refreshed of
                Inl e \<Rightarrow> (Inl e, svc1)
              | Inr _ \<Rightarrow>
                  let (framed, svc2) =
                        (if qsv_next_release svc1 \<le> steady
                         then release_frame save now
                                (svc1\<lparr>qsv_next_release := steady + qsv_release_interval svc1\<rparr>)
                         else (Inr (), svc1))
                  in case framed of
                       Inl e \<Rightarrow> (Inl e, svc2)
                     | Inr _ \<Rightarrow> (Inr (Some (queue_metrics_of (service_core svc2) now)), svc2))"

section \<open>Frames\<close>

lemma set_core_simps [simp]:
  "service_core (set_core core svc) = core" "qsv_budgets (set_core core svc) = qsv_budgets svc"
  "qh_store (qsv_handler (set_core core svc)) = qh_store (qsv_handler svc)"
  "service_core (set_store s svc) = service_core svc" "qh_store (qsv_handler (set_store s svc)) = s"
  by (simp_all add: set_core_def set_store_def)

lemma restore_before:
  assumes "core_ok core" "release_batch core budgets now = Inr (batch, core')"
    "\<forall>b \<in> set (qc_batches core). rb_released_at b \<le> now + jws_clock_leeway"
  shows "core_restore core' (core_snapshot core now) now = Inr (prune_release_batches core now)"
proof -
  have "same_config core' core"
    using release_batch_cases [OF assms(2)] by (simp add: same_config_def released_core_def)
  from restore_snapshot [OF assms(1) this assms(3)] show ?thesis .
qed

lemma prune_keeps_open:
  assumes "sorted (map rb_released_at (qc_batches core))" "b \<in> set (qc_batches (prune_release_batches core now))"
  shows "\<not> batch_expired core (rb_released_at b) now"
  using assms
proof (induction core now rule: prune_release_batches.induct)
  case (1 core now)
  show ?case
  proof (cases "qc_batches core")
    case Nil
    then show ?thesis
      using "1.prems"(2) by (simp add: prune_release_batches.simps [of core])
  next
    case (Cons c bs)
    show ?thesis
    proof (cases "batch_expired core (rb_released_at c) now")
      case True
      have "batch_expired (core\<lparr>qc_pruned := rb_last c, qc_batches := bs\<rparr>) = batch_expired core"
        by (simp add: batch_expired_def fun_eq_iff)
      then show ?thesis
        using "1.IH" [OF Cons True] "1.prems" Cons True
        by (simp add: prune_release_batches.simps [of core])
    next
      case False
      then have "b \<in> set (c # bs)" "sorted (map rb_released_at (c # bs))"
        using "1.prems" Cons by (simp_all add: prune_release_batches.simps [of core])
      then have "rb_released_at c \<le> rb_released_at b"
        by auto
      then show ?thesis
        using False by (simp add: batch_expired_def)
    qed
  qed
qed

lemma released_batch_time:
  assumes "0 \<le> now" "release_batch core budgets now = Inr (batch, core')"
    "\<forall>b \<in> set (qc_batches core). rb_released_at b \<le> now"
  shows "\<forall>b \<in> set (qc_batches core'). rb_released_at b \<le> now"
proof -
  have "\<forall>b \<in> set (qc_batches (released_core core batch now)). rb_released_at b \<le> now"
    using assms(1,3) seconds_epoch_le by (auto simp: released_core_def)
  moreover have "set (qc_batches core') \<subseteq> set (qc_batches (released_core core batch now))"
    using prune_batches [of "released_core core batch now" now] release_batch_cases(2) [OF assms(2)]
    by (metis Un_upper2 set_append)
  ultimately show ?thesis by blast
qed

lemma release_batch_mono:
  assumes "core_ok core" "release_batch core budgets now = Inr (batch, core')"
  shows "qc_next core' = qc_next core" "qc_released core \<le> qc_released core'"
proof -
  note parts = release_batch_cases [OF assms(2)]
  have "unat (qc_released core') = unat (qc_released core) + unat batch"
    using release_amount_bounds(2) [OF assms(1), of budgets, folded parts(1)]
    by (simp add: parts(2) released_core_def)
  then show "qc_released core \<le> qc_released core'"
    by (simp add: word_le_unat)
  show "qc_next core' = qc_next core"
    by (simp add: parts(2) released_core_def)
qed

lemma pruned_in_released:
  assumes "core_ok core" "release_batch core budgets now = Inr (batch, core')"
  shows "set (qc_batches (prune_release_batches core now)) \<subseteq> set (qc_batches core')"
proof
  fix b assume b: "b \<in> set (qc_batches (prune_release_batches core now))"
  have sorted: "sorted (map rb_released_at (qc_batches core))"
    using assms(1) by (simp add: core_ok_def)
  note kept = prune_keeps_open [OF sorted b]
  have "batch_expired (released_core core batch now) = batch_expired core"
    by (simp add: batch_expired_def released_core_def fun_eq_iff)
  moreover have "b \<in> set (qc_batches core)"
    using b kept prune_open_batches [of now now core b] by simp
  ultimately show "b \<in> set (qc_batches core')"
    using kept prune_open_batches [of now now "released_core core batch now" b]
      release_batch_cases(2) [OF assms(2)] by (auto simp: released_core_def)
qed

section \<open>The outcomes of a frame\<close>

text \<open>The clock has reached every release of the ledger, as it has while it runs forwards.\<close>

definition releases_past :: "queue_core \<Rightarrow> time_point \<Rightarrow> bool" where
  "releases_past core now \<longleftrightarrow> 0 \<le> now \<and> (\<forall>b \<in> set (qc_batches core). rb_released_at b \<le> now)"

lemma roll_back_restores:
  assumes "core_ok core" "releases_past core now" "release_batch core budgets now = Inr (batch, core')"
    "service_core svc = core'"
  shows "roll_back (core_snapshot core now) now result svc =
    (result, set_core (prune_release_batches core now) svc)"
proof -
  have "\<forall>b \<in> set (qc_batches core). rb_released_at b \<le> now + jws_clock_leeway"
    using assms(2) less_imp_le [OF jws_clock_leeway_pos] by (fastforce simp: releases_past_def)
  from restore_before [OF assms(1,3) this] show ?thesis
    by (simp add: roll_back_def assms(4))
qed

lemma release_frame_cases:
  assumes "core_ok (service_core svc)" "releases_past (service_core svc) now"
    "release_frame save now svc = (result, svc')"
  obtains (halted) "svc' = svc"
  | (idle) "service_core svc' = prune_release_batches (service_core svc) now"
      "qh_store (qsv_handler svc') = qh_store (qsv_handler svc)"
  | (saved) budgets batch where "release_batch (service_core svc) budgets now = Inr (batch, service_core svc')"
      "save (core_snapshot (service_core svc') now) (epoch_seconds now) (qh_store (qsv_handler svc)) =
         (Inr True, qh_store (qsv_handler svc'))"
  | (rolled_back) budgets batch core r where
      "release_batch (service_core svc) budgets now = Inr (batch, core)" "r \<noteq> Inr True"
      "save (core_snapshot core now) (epoch_seconds now) (qh_store (qsv_handler svc)) =
         (r, qh_store (qsv_handler svc'))"
      "service_core svc' = prune_release_batches (service_core svc) now"
proof -
  let ?core = "service_core svc"
  define budgets where "budgets = (case qsv_budgets svc of
    Some b \<Rightarrow> b | None \<Rightarrow> \<lparr>gateway_admission = 0, realm_connections = 0\<rparr>)"
  note run = assms(3) [unfolded release_frame_def Let_def, folded budgets_def]
  show thesis
  proof (cases "release_batch ?core budgets now")
    case (Inl e)
    then show thesis
      using run halted by simp
  next
    case (Inr step)
    then obtain batch core where step: "release_batch ?core budgets now = Inr (batch, core)"
      by (cases step) auto
    show thesis
    proof (cases "batch = 0")
      case True
      then have "core = prune_release_batches ?core now"
        using release_batch_cases(2) [OF step] by (simp add: released_core_def)
      then show thesis
        using run step True idle by auto
    next
      case False
      obtain r s where written:
        "save (core_snapshot core now) (epoch_seconds now) (qh_store (qsv_handler svc)) = (r, s)"
        by (cases "save (core_snapshot core now) (epoch_seconds now) (qh_store (qsv_handler svc))")
      have undone: "roll_back (core_snapshot ?core now) now result (set_store s (set_core core svc)) =
          (result, set_core (prune_release_batches ?core now) (set_store s (set_core core svc)))" for result
        by (rule roll_back_restores [OF assms(1,2) step]) simp
      show thesis
      proof (cases "r = Inr True")
        case True
        then have "svc' = (set_store s (set_core core svc))
            \<lparr>qsv_admit_batches := map_option Suc (qsv_admit_batches (set_store s (set_core core svc)))\<rparr>"
          using run step written False by simp
        then have "service_core svc' = core" "qh_store (qsv_handler svc') = s"
          by simp_all
        then show thesis
          using saved step written True by metis
      next
        case refused: False
        then have "svc' = set_core (prune_release_batches ?core now) (set_store s (set_core core svc))"
          using run step written False undone by (auto split: sum.splits bool.splits)
        then show thesis
          using rolled_back [OF step refused] written by simp
      qed
    qed
  qed
qed

lemma release_frame_unsaved:
  assumes "core_ok (service_core svc)" "releases_past (service_core svc) now"
    "release_frame save now svc = (result, svc')"
    "\<And>snapshot. fst (save snapshot (epoch_seconds now) (qh_store (qsv_handler svc))) \<noteq> Inr True"
  shows "service_core svc' = service_core svc \<or>
    service_core svc' = prune_release_batches (service_core svc) now"
  using assms(1-3)
proof (cases rule: release_frame_cases)
  case (saved budgets batch)
  then show ?thesis
    using assms(4) [of "core_snapshot (service_core svc') now"] by simp
qed simp_all

section \<open>Crash safety\<close>

text \<open>A store whose replies are scripted: a snapshot is saved and confirmed, refused, written
  but reported as not saved (a lost reply), or the call throws before or after the write.\<close>

datatype save_outcome = Save_confirmed | Save_refused | Save_reply_lost | Save_failed bool

record durable_store =
  ds_saved :: queue_snapshot
  ds_script :: "save_outcome list"

definition durable_save ::
  "queue_snapshot \<Rightarrow> int \<Rightarrow> durable_store \<Rightarrow> (error + bool) \<times> durable_store" where
  "durable_save snapshot updated_at s =
     (let s' = s\<lparr>ds_script := tl (ds_script s)\<rparr>;
          outcome = (if ds_script s = [] then Save_confirmed else hd (ds_script s))
      in case outcome of
           Save_confirmed \<Rightarrow> (Inr True, s'\<lparr>ds_saved := snapshot\<rparr>)
         | Save_refused \<Rightarrow> (Inr False, s')
         | Save_reply_lost \<Rightarrow> (Inr False, s'\<lparr>ds_saved := snapshot\<rparr>)
         | Save_failed written \<Rightarrow>
             (Inl (Runtime_error ''etcd''), if written then s'\<lparr>ds_saved := snapshot\<rparr> else s'))"

lemma durable_save_cases:
  assumes "durable_save snapshot t s = (r, s')"
  shows "ds_saved s' = snapshot \<or> ds_saved s' = ds_saved s \<and> r \<noteq> Inr True"
  using assms by (auto simp: durable_save_def Let_def split: save_outcome.splits if_splits)

text \<open>What is stored covers what is in memory.\<close>

definition durable :: "time_point \<Rightarrow> durable_store queue_service \<Rightarrow> bool" where
  "durable clock svc \<longleftrightarrow>
     (let core = service_core svc; saved = ds_saved (qh_store (qsv_handler svc)) in
      core_ok core \<and> ledger_valid saved \<and> releases_past core clock \<and>
      (\<forall>b \<in> set (qs_batches saved). rb_released_at b \<le> clock) \<and>
      qs_next saved = qc_next core \<and> qc_released core \<le> qs_released saved \<and>
      set (qc_batches core) \<subseteq> set (qs_batches saved))"

lemma pruned_subset: "set (qc_batches (prune_release_batches core now)) \<subseteq> set (qc_batches core)"
  using prune_batches [of core now] by (metis Un_upper2 set_append)

lemma releases_past_mono:
  "releases_past core t \<Longrightarrow> t \<le> now \<Longrightarrow> set (qc_batches core') \<subseteq> set (qc_batches core) \<Longrightarrow> releases_past core' now"
  by (fastforce simp: releases_past_def)

lemma durable_snapshot:
  assumes "core_ok core" "releases_past core now" "service_core svc = core"
    "ds_saved (qh_store (qsv_handler svc)) = core_snapshot core now"
  shows "durable now svc"
  using assms core_ok_snapshot [of core now]
  by (simp add: durable_def snapshot_validate_iff) (simp add: core_snapshot_def releases_past_def)

lemma durable_weaken:
  assumes "durable clock svc" "clock \<le> now" "core_ok core" "qc_next core = qc_next (service_core svc)"
    "qc_released core \<le> qc_released (service_core svc)"
    "set (qc_batches core) \<subseteq> set (qc_batches (service_core svc))" "service_core svc' = core"
    "ds_saved (qh_store (qsv_handler svc')) = ds_saved (qh_store (qsv_handler svc))"
  shows "durable now svc'"
  using assms releases_past_mono [of "service_core svc" clock now core]
  by (fastforce simp: durable_def Let_def)

lemma release_frame_durable:
  assumes "durable clock svc" "clock \<le> now" "release_frame durable_save now svc = (result, svc')"
  shows "durable now svc'"
proof -
  let ?core = "service_core svc"
  have ok: "core_ok ?core" and past: "releases_past ?core now"
    using assms(1,2) releases_past_mono [of ?core clock now ?core] by (simp_all add: durable_def Let_def)
  have pruned: "durable now svc'" if "service_core svc' = prune_release_batches ?core now"
    "ds_saved (qh_store (qsv_handler svc')) = ds_saved (qh_store (qsv_handler svc))"
    using durable_weaken [OF assms(1,2) prune_ok [OF ok] _ _ pruned_subset that(1,2)] by simp
  show ?thesis
    using ok past assms(3)
  proof (cases rule: release_frame_cases)
    case halted
    then show ?thesis
      using durable_weaken [OF assms(1,2) ok, of svc'] by simp
  next
    case idle
    then show ?thesis
      using pruned by simp
  next
    case (saved budgets batch)
    have "releases_past (service_core svc') now"
      using released_batch_time [OF _ saved(1)] past by (simp add: releases_past_def)
    moreover have "ds_saved (qh_store (qsv_handler svc')) = core_snapshot (service_core svc') now"
      using durable_save_cases [OF saved(2)] by simp
    ultimately show ?thesis
      using durable_snapshot [OF release_batch_ok [OF ok saved(1)]] by simp
  next
    case (rolled_back budgets batch core r)
    from durable_save_cases [OF rolled_back(3)] show ?thesis
    proof
      assume written: "ds_saved (qh_store (qsv_handler svc')) = core_snapshot core now"
      have "releases_past core now"
        using released_batch_time [OF _ rolled_back(1)] past by (simp add: releases_past_def)
      moreover note release_batch_mono [OF ok rolled_back(1)]
      ultimately show ?thesis
        using durable_snapshot [OF release_batch_ok [OF ok rolled_back(1)], of now] prune_ok [OF ok]
          pruned_in_released [OF ok rolled_back(1)] rolled_back(4) written
          releases_past_mono [OF past order_refl pruned_subset]
          core_ok_snapshot [of core now] release_batch_ok [OF ok rolled_back(1)]
        by (simp add: durable_def Let_def snapshot_validate_iff) (simp add: core_snapshot_def releases_past_def)
    qed (use pruned rolled_back(4) in simp)
  qed
qed

fun run_frames ::
  "durable_store queue_service \<Rightarrow> (budget_aggregate option \<times> time_point) list \<Rightarrow> durable_store queue_service" where
  "run_frames svc [] = svc"
| "run_frames svc ((budgets, now) # ticks) =
     run_frames (snd (release_frame durable_save now (svc\<lparr>qsv_budgets := budgets\<rparr>))) ticks"

lemma run_frames_durable:
  "durable clock svc \<Longrightarrow> sorted (clock # map snd ticks) \<Longrightarrow>
     durable (last (clock # map snd ticks)) (run_frames svc ticks)"
proof (induction svc ticks arbitrary: clock rule: run_frames.induct)
  case (2 svc budgets now ticks)
  have "durable clock (svc\<lparr>qsv_budgets := budgets\<rparr>)"
    using "2.prems"(1) by (simp add: durable_def)
  moreover have "clock \<le> now"
    using "2.prems"(2) by simp
  ultimately have "durable now (snd (release_frame durable_save now (svc\<lparr>qsv_budgets := budgets\<rparr>)))"
    using release_frame_durable [OF _ _ prod.collapse [symmetric]] by blast
  from "2.IH" [OF this] "2.prems"(2) show ?case
    by simp
qed simp

lemma durable_recovers:
  assumes "durable clock svc" "clock \<le> now" "same_config fresh (service_core svc)"
  shows "\<exists>core. core_restore fresh (ds_saved (qh_store (qsv_handler svc))) now = Inr core \<and>
    core_ok core \<and> qc_next core = qc_next (service_core svc) \<and>
    qc_released (service_core svc) \<le> qc_released core \<and>
    (\<forall>number. re_status (release_eligibility (service_core svc) number now) = Eligible \<longrightarrow>
       release_eligibility core number now = release_eligibility (service_core svc) number now)"
proof -
  let ?core = "service_core svc" and ?saved = "ds_saved (qh_store (qsv_handler svc))"
  let ?raw = "fresh\<lparr>qc_released := qs_released ?saved, qc_next := qs_next ?saved,
    qc_pruned := qs_pruned ?saved, qc_batches := qs_batches ?saved\<rparr>"
  have d: "core_ok ?core" "ledger_valid ?saved" "\<forall>b \<in> set (qs_batches ?saved). rb_released_at b \<le> clock"
    "qs_next ?saved = qc_next ?core" "qc_released ?core \<le> qs_released ?saved"
    "set (qc_batches ?core) \<subseteq> set (qs_batches ?saved)"
    using assms(1) by (simp_all add: durable_def Let_def)
  have raw: "core_ok ?raw"
    using d(2) by (simp add: ledger_valid_def core_ok_def)
  have "\<not> list_ex (\<lambda>b. now + jws_clock_leeway < rb_released_at b) (qs_batches ?saved)"
    using d(3) assms(2) less_imp_le [OF jws_clock_leeway_pos] by (fastforce simp: list_ex_iff)
  then have restored: "core_restore fresh ?saved now = Inr (prune_release_batches ?raw now)"
    using d(2) by (simp add: core_restore_def snapshot_validate_iff [symmetric])
  have window: "qc_grant_window ?raw = qc_grant_window ?core"
    using assms(3) by (simp add: same_config_def)
  have "release_eligibility (prune_release_batches ?raw now) number now = release_eligibility ?core number now"
    if e: "re_status (release_eligibility ?core number now) = Eligible" for number
  proof -
    have n: "number \<noteq> 0" "number \<le> qc_released ?core"
      using e by (auto simp: release_eligibility_def not_less split: if_splits)
    then obtain b where b: "b \<in> set (qc_batches ?core)" "rb_first b \<le> number" "number \<le> rb_last b"
      "\<not> batch_expired ?core (rb_released_at b) now"
      using eligible_batch [OF d(1) n] e by auto
    have same: "release_eligibility ?raw number now = release_eligibility ?core number now"
      using eligibility_hit [OF d(1) b(1-3)] eligibility_hit [OF raw _ b(2,3)] b(1) d(6)
        batch_expired_window [OF window] by auto
    have "number \<le> qc_released ?raw"
      using order_trans [OF n(2) d(5)] by simp
    from prune_eligibility(2) [OF raw order_refl n(1) this] show ?thesis
      using same e by simp
  qed
  then show ?thesis
    using restored prune_ok [OF raw] d(4,5) by simp
qed

section \<open>Properties\<close>

definition example_service :: "durable_store queue_service" where
  "example_service =
     \<lparr>qsv_running = True,
      qsv_handler = \<lparr>qh_ticketing = example_ticketing,
        qh_store = \<lparr>ds_saved = core_snapshot example_released (seconds 1000), ds_script = [Save_reply_lost]\<rparr>,
        qh_identity_codec = example_codec, qh_identity_issuer = ''realmmesh/login'',
        qh_progress_requests = None\<rparr>,
      qsv_budgets = Some example_budgets, qsv_budget_interval = seconds 1,
      qsv_release_interval = seconds 1, qsv_next_budget_poll = 0, qsv_next_release = 0,
      qsv_admit_batches = None\<rparr>"

lemma example_service_parts:
  "service_core example_service = example_released"
  "releases_past (service_core example_service) (seconds 1100)"
  "durable (seconds 1000) example_service"
proof -
  show core: "service_core example_service = example_released"
    by (simp add: example_service_def example_ticketing_def)
  have past: "releases_past example_released (seconds 1000)" "releases_past example_released (seconds 1100)"
    by (simp_all add: releases_past_def example_released_def clock_defs)
  show "releases_past (service_core example_service) (seconds 1100)"
    unfolding core by (rule past)
  show "durable (seconds 1000) example_service"
    by (rule durable_snapshot [OF example_core_ok(2) past(1) core]) (simp add: example_service_def)
qed

text \<open>A release that is not saved is not seen: when the store does not confirm the
  snapshot, by an answer or by an exception, the frame ends with the watermarks and the
  status of every released number unchanged, now and later.\<close>

lemma unsaved_release_invisible:
  assumes "core_ok (service_core svc)" "releases_past (service_core svc) now"
    "release_frame save now svc = (result, svc')"
    "\<And>snapshot. fst (save snapshot (epoch_seconds now) (qh_store (qsv_handler svc))) \<noteq> Inr True"
    "now \<le> now'" "number \<noteq> 0" "number \<le> qc_released (service_core svc)"
  shows "qc_released (service_core svc') = qc_released (service_core svc) \<and>
    qc_next (service_core svc') = qc_next (service_core svc) \<and>
    re_status (release_eligibility (service_core svc') number now') =
      re_status (release_eligibility (service_core svc) number now')"
  using release_frame_unsaved [OF assms(1-4)] prune_eligibility(1) [OF assms(1,5-7)] by auto

lemma unsaved_release_invisible_witness:
  "qc_released (service_core (snd (release_frame durable_save (seconds 1100) example_service))) = 4"
proof -
  have unsaved: "fst (durable_save snapshot (epoch_seconds (seconds 1100)) (qh_store (qsv_handler example_service)))
      \<noteq> Inr True" for snapshot
    by (simp add: durable_save_def example_service_def)
  have "core_ok (service_core example_service)" "(3 :: u64) \<le> qc_released (service_core example_service)"
    unfolding example_service_parts(1) by (rule example_core_ok) (simp add: example_released_def)
  moreover obtain result svc' where
    run: "release_frame durable_save (seconds 1100) example_service = (result, svc')"
    by (cases "release_frame durable_save (seconds 1100) example_service")
  ultimately have "qc_released (service_core svc') = qc_released (service_core example_service)"
    using unsaved_release_invisible [OF _ example_service_parts(2) run unsaved order_refl, of 3] by simp
  then show ?thesis
    unfolding run example_service_parts(1) by (simp add: example_released_def)
qed

text \<open>C16. Crash safety of the release frames: from a state whose snapshot is stored, after any
  number of frames with any budgets and any behaviour of the store (refusals, exceptions,
  replies lost after the write), a process that restarts from the stored snapshot has issued
  the same numbers, has released at least as many, and every client that was eligible before
  the crash is eligible with the same release time after it.\<close>

theorem crash_safe:
  assumes "durable clock svc" "sorted (clock # map snd ticks)" "last (clock # map snd ticks) \<le> now"
    "same_config fresh (service_core (run_frames svc ticks))"
  shows "\<exists>core. core_restore fresh (ds_saved (qh_store (qsv_handler (run_frames svc ticks)))) now = Inr core \<and>
    qc_next core = qc_next (service_core (run_frames svc ticks)) \<and>
    qc_released (service_core (run_frames svc ticks)) \<le> qc_released core \<and>
    (\<forall>number. re_status (release_eligibility (service_core (run_frames svc ticks)) number now) = Eligible \<longrightarrow>
       release_eligibility core number now =
         release_eligibility (service_core (run_frames svc ticks)) number now)"
  using durable_recovers [OF run_frames_durable [OF assms(1,2)] assms(3,4)] by blast

theorem crash_safe_witness:
  "\<exists>core. core_restore (service_core (run_frames example_service [(Some example_budgets, seconds 1050)]))
     (ds_saved (qh_store (qsv_handler (run_frames example_service [(Some example_budgets, seconds 1050)]))))
     (seconds 1100) = Inr core"
proof -
  have "sorted (seconds 1000 # map snd [(Some example_budgets, seconds 1050)])"
    "last (seconds 1000 # map snd [(Some example_budgets, seconds 1050)]) \<le> seconds 1100"
    "same_config core core" for core
    by (simp_all add: same_config_def)
  from crash_safe [OF example_service_parts(3) this] show ?thesis by blast
qed

end
