(* ===== verification/Http_Server.thy ===== *)
theory Http_Server
  imports Http1 "HOL-Library.AList"
begin

text \<open>
  The HTTPS server loop (\<open>framework/network/src/http/http_server.cpp\<close>): connections, incremental
  parsing, deferred responses, back-pressure, half-closed peers and deadlines. The sockets and
  OpenSSL are scripts of outcomes (\<open>http_io\<close>, as in \<open>Byte_Framing\<close>); the event loop is the map of
  the registered interests; the handler is an argument with its own state and may throw.
  Every event is handled at one reading of the steady clock. A connection is taken from the
  map for the time of an operation, as the C++ code holds a reference to it; \<open>hc_wire\<close> records
  the bytes that reached the socket.
\<close>

record tls_stream_batch =
  sb_state :: tls_io_state
  sb_status :: receive_status
  sb_bytes :: "u8 list"

fun receive_stream :: "ssl_read list \<Rightarrow> u8 list \<Rightarrow> tls_stream_batch" where
  "receive_stream [] acc = \<lparr>sb_state = Want_read, sb_status = Open, sb_bytes = acc\<rparr>"
| "receive_stream (Ssl_data d # rest) acc = receive_stream rest (acc @ take 8192 d)"
| "receive_stream (Ssl_stop st # rest) acc =
     \<lparr>sb_state = st, sb_status = (if st = Tls_closed then Peer_closed else Open), sb_bytes = acc\<rparr>"

text \<open>The tokens are a 64-bit counter of the requests; it is taken as unbounded.\<close>

type_synonym http_token = nat

datatype handler_result = Handler_response http_response | Handler_deferred

type_synonym 'h http_handler = "http_request \<Rightarrow> http_token \<Rightarrow> 'h \<Rightarrow> (error + handler_result) \<times> 'h"

record http_server_config =
  hsc_max_head :: nat
  hsc_max_body :: nat
  hsc_max_pending_output :: nat
  hsc_max_connections :: nat
  hsc_parse_timeout :: duration
  hsc_idle_timeout :: duration

record http_connection =
  hc_tls :: tls_connection
  hc_parser :: "http_request http_parser"
  hc_input :: byte_buffer
  hc_last_activity :: time_point
  hc_parse_started_at :: time_point
  hc_handshake_complete :: bool
  hc_close_after_flush :: bool
  hc_parse_in_progress :: bool
  hc_awaiting :: "http_token option"
  hc_awaiting_keep_alive :: bool
  hc_peer_closed :: bool
  hc_registered :: bool
  hc_io_need :: tls_io_state
  hc_wire :: "u8 list"

type_synonym handle = nat

text \<open>The interest of a registered handle: whether to read, whether to write.\<close>

record http_server =
  hs_config :: http_server_config
  hs_connections :: "(handle \<times> http_connection) list"
  hs_interest :: "handle \<rightharpoonup> bool \<times> bool"
  hs_next_token :: http_token
  hs_awaiting :: "http_token \<rightharpoonup> handle"

record ready_event =
  ev_readable :: bool
  ev_writable :: bool
  ev_error :: bool

record http_io =
  io_handshake :: tls_io_state
  io_reads :: "ssl_read list"
  io_writes :: "ssl_write list"

section \<open>Connections\<close>

definition new_http_server :: "http_server_config \<Rightarrow> http_server" where
  "new_http_server cfg =
     \<lparr>hs_config = cfg, hs_connections = [], hs_interest = Map.empty, hs_next_token = 1,
      hs_awaiting = Map.empty\<rparr>"

definition status_for :: "http_status \<Rightarrow> int" where
  "status_for st =
     (case st of Http_payload_too_large \<Rightarrow> 413 | Http_headers_too_large \<Rightarrow> 431
        | Http_version_not_supported \<Rightarrow> 505 | _ \<Rightarrow> 400)"

definition has_pending_output :: "http_connection \<Rightarrow> bool" where
  "has_pending_output c \<longleftrightarrow> \<not> bb_empty (output_buffer (hc_tls c))"

definition max_input_bytes :: "http_connection \<Rightarrow> nat" where
  "max_input_bytes c = hp_max_head (hc_parser c) + hp_max_body (hc_parser c)"

definition new_http_connection :: "http_server_config \<Rightarrow> time_point \<Rightarrow> http_connection" where
  "new_http_connection cfg now =
     \<lparr>hc_tls = \<lparr>codec = \<lparr>max_payload_size = hsc_max_head cfg + hsc_max_body cfg\<rparr>,
        max_pending_output = hsc_max_pending_output cfg, input_buffer = new_buffer,
        output_buffer = new_buffer, retry_write_bytes = 0\<rparr>,
      hc_parser = new_request_parser 8192 16384, hc_input = new_buffer,
      hc_last_activity = now, hc_parse_started_at = now, hc_handshake_complete = False,
      hc_close_after_flush = False, hc_parse_in_progress = False, hc_awaiting = None,
      hc_awaiting_keep_alive = True, hc_peer_closed = False, hc_registered = True,
      hc_io_need = Want_read, hc_wire = []\<rparr>"

text \<open>\<open>accepted\<close> are the handles of the sockets the listener gives until it would block.\<close>

fun accept_connections :: "handle list \<Rightarrow> time_point \<Rightarrow> http_server \<Rightarrow> http_server" where
  "accept_connections [] now s = s"
| "accept_connections (h # accepted) now s =
     (if hsc_max_connections (hs_config s) \<le> length (hs_connections s)
      then accept_connections accepted now s
      else accept_connections accepted now
             (s\<lparr>hs_interest := (hs_interest s)(h \<mapsto> (True, False)),
                hs_connections :=
                  (if map_of (hs_connections s) h = None
                   then AList.update h (new_http_connection (hs_config s) now) (hs_connections s)
                   else hs_connections s)\<rparr>))"

definition put_connection :: "handle \<Rightarrow> http_connection \<Rightarrow> http_server \<Rightarrow> http_server" where
  "put_connection h c s = s\<lparr>hs_connections := AList.update h c (hs_connections s)\<rparr>"

definition close_connection :: "handle \<Rightarrow> http_connection \<Rightarrow> http_server \<Rightarrow> http_server" where
  "close_connection h c s =
     s\<lparr>hs_awaiting := (case hc_awaiting c of None \<Rightarrow> hs_awaiting s
                         | Some token \<Rightarrow> (hs_awaiting s)(token := None)),
       hs_interest := (if hc_registered c then (hs_interest s)(h := None) else hs_interest s),
       hs_connections := AList.delete h (hs_connections s)\<rparr>"

definition update_interest :: "handle \<Rightarrow> http_connection \<Rightarrow> http_server \<Rightarrow> http_connection \<times> http_server" where
  "update_interest h c s =
     (let wants_write = (hc_io_need c = Want_write \<or> has_pending_output c)
      in if hc_peer_closed c \<and> \<not> wants_write
         then if hc_registered c
              then (c\<lparr>hc_registered := False\<rparr>, s\<lparr>hs_interest := (hs_interest s)(h := None)\<rparr>)
              else (c, s)
         else (c\<lparr>hc_registered := True\<rparr>,
               s\<lparr>hs_interest := (hs_interest s)
                   (h \<mapsto> (\<not> hc_peer_closed c, hc_peer_closed c \<or> wants_write))\<rparr>))"

section \<open>Responses\<close>

definition reject_and_close :: "http_status \<Rightarrow> http_connection \<Rightarrow> http_connection" where
  "reject_and_close st c =
     (let wire = serialize_http1_response
            \<lparr>rs_status = status_for st, rs_headers = [], rs_body = []\<rparr> False
      in c\<lparr>hc_close_after_flush := True, hc_tls := snd (queue_bytes (hc_tls c) (as_bytes wire))\<rparr>)"

text \<open>The result says whether the connection is still there: full output closes it.\<close>

definition queue_response ::
  "handle \<Rightarrow> http_response \<Rightarrow> bool \<Rightarrow> http_connection \<times> http_server \<Rightarrow>
     bool \<times> http_connection \<times> http_server" where
  "queue_response h response keep_alive = (\<lambda>(c, s).
     (let c1 = c\<lparr>hc_close_after_flush := hc_close_after_flush c \<or> \<not> keep_alive\<rparr>;
          wire = serialize_http1_response response keep_alive
      in case queue_bytes (hc_tls c1) (as_bytes wire) of
           (queued, tls) \<Rightarrow>
             if queued then (True, c1\<lparr>hc_tls := tls\<rparr>, s)
             else (False, c1, close_connection h c1 s)))"

definition dispatch_request ::
  "'h http_handler \<Rightarrow> handle \<Rightarrow> time_point \<Rightarrow> http_request \<Rightarrow> http_connection \<times> http_server \<Rightarrow> 'h \<Rightarrow>
     (bool \<times> http_connection \<times> http_server) \<times> 'h" where
  "dispatch_request handler h now request = (\<lambda>(c, s) hst.
     (let c1 = c\<lparr>hc_parse_in_progress := False, hc_last_activity := now\<rparr>;
          keep_alive = wants_keep_alive request;
          token = hs_next_token s;
          s1 = s\<lparr>hs_next_token := token + 1\<rparr>
      in case handler request token hst of
           (outcome, hst') \<Rightarrow>
             (let response = (\<lambda>r. (queue_response h r keep_alive (c1, s1), hst'))
              in case outcome of
                   Inl e \<Rightarrow> response \<lparr>rs_status = 500, rs_headers = [], rs_body = []\<rparr>
                 | Inr (Handler_response r) \<Rightarrow> response r
                 | Inr Handler_deferred \<Rightarrow>
                     ((True, c1\<lparr>hc_awaiting := Some token, hc_awaiting_keep_alive := keep_alive\<rparr>,
                       s1\<lparr>hs_awaiting := (hs_awaiting s1)(token \<mapsto> h)\<rparr>), hst'))))"

section \<open>Parsing and dispatch\<close>

text \<open>A ready request shrinks the input or ends a body, so the loop over the pipelined
  requests ends.\<close>

definition parse_measure :: "'m http_parser \<Rightarrow> byte_buffer \<Rightarrow> nat" where
  "parse_measure p b = 2 * readable_bytes b + (if hp_phase p = Body_phase then 1 else 0)"

lemma request_head_not_ready: "parse_request_head max_body head \<noteq> Inl Http_ready"
  by (auto simp: parse_request_head_def parse_request_line_def Let_def split: option.splits sum.splits if_splits)

lemma consume_body_ready:
  assumes "consume_body append_body p b = Inr ((Http_ready, r), p', b')"
  shows "hp_phase p' = Head_phase \<and> readable_bytes b' \<le> readable_bytes b"
  using assms by (auto simp: consume_body_def Let_def dest: consume_readable split: sum.splits if_splits)

lemma try_parse_ready_decreases:
  assumes "request_try_parse p b = Inr ((Http_ready, r), p', b')"
  shows "parse_measure p' b' < parse_measure p b"
proof (cases "hp_phase p")
  case Body_phase
  then have "consume_body append_request_body p b = Inr ((Http_ready, r), p', b')"
    using assms by (simp add: request_try_parse_def try_parse_def)
  then show ?thesis
    using consume_body_ready Body_phase by (fastforce simp: parse_measure_def)
next
  case Head_phase
  obtain i message n b1 where step:
    "parse_request_head (hp_max_body p) (as_string_view (take (i + length head_terminator) (readable_data b))) =
       Inr (message, n)"
    "bb_consume b (i + length head_terminator) = Inr b1"
    "(if n = 0 then Inr ((Http_ready, Some message), p, b1)
      else consume_body append_request_body
             (p\<lparr>hp_phase := Body_phase, hp_remaining := n, hp_pending := message\<rparr>) b1) =
     Inr ((Http_ready, r), p', b')"
    using assms Head_phase request_head_not_ready
    by (auto simp: request_try_parse_def try_parse_def Let_def
        split: option.splits sum.splits if_splits)
  have "readable_bytes b1 < readable_bytes b"
    using consume_readable [OF step(2)] by (simp add: head_terminator_def)
  moreover have "hp_phase p' = Head_phase \<and> readable_bytes b' \<le> readable_bytes b1"
    using step(3) Head_phase by (auto dest: consume_body_ready split: if_splits)
  ultimately show ?thesis
    using Head_phase by (simp add: parse_measure_def)
qed

lemma dispatch_keeps_input:
  assumes "dispatch_request handler h now request (c, s) hst = ((True, c', s'), hst')"
  shows "hc_parser c' = hc_parser c \<and> hc_input c' = hc_input c"
  using assms by (auto simp: dispatch_request_def queue_response_def Let_def
      split: prod.splits sum.splits handler_result.splits if_splits)

function parse_and_dispatch ::
  "'h http_handler \<Rightarrow> handle \<Rightarrow> time_point \<Rightarrow> http_connection \<times> http_server \<Rightarrow> 'h \<Rightarrow>
     buffer_error + (bool \<times> http_connection \<times> http_server) \<times> 'h" where
  "parse_and_dispatch handler h now (c, s) hst =
     (if hc_awaiting c \<noteq> None \<or> hc_close_after_flush c then Inr ((True, c, s), hst)
      else case request_try_parse (hc_parser c) (hc_input c) of
             Inl e \<Rightarrow> Inl e
           | Inr ((st, request), p', b') \<Rightarrow>
               let c1 = c\<lparr>hc_parser := p', hc_input := b'\<rparr>
               in if st = Http_need_more_data then Inr ((True, c1, s), hst)
                  else if st \<noteq> Http_ready then Inr ((True, reject_and_close st c1, s), hst)
                  else case dispatch_request handler h now (the request) (c1, s) hst of
                         ((alive, c2, s2), hst') \<Rightarrow>
                           if \<not> alive then Inr ((False, c2, s2), hst')
                           else parse_and_dispatch handler h now (c2, s2) hst')"
  by pat_completeness auto
termination
proof (relation "measure (\<lambda>(handler, h, now, (c, s), hst). parse_measure (hc_parser c) (hc_input c))")
qed (auto dest!: try_parse_ready_decreases dispatch_keeps_input [OF sym])

declare parse_and_dispatch.simps [simp del]

section \<open>Events\<close>

definition settle_connection :: "handle \<Rightarrow> http_connection \<times> http_server \<Rightarrow> http_server" where
  "settle_connection h = (\<lambda>(c, s).
     (if (hc_close_after_flush c \<or> hc_peer_closed c) \<and> hc_awaiting c = None \<and> \<not> has_pending_output c
      then close_connection h c s
      else case update_interest h c s of (c', s') \<Rightarrow> put_connection h c' s'))"

definition flush_and_settle ::
  "handle \<Rightarrow> bool \<Rightarrow> ssl_write list \<Rightarrow> http_connection \<times> http_server \<Rightarrow> buffer_error + http_server" where
  "flush_and_settle h can_write writes = (\<lambda>(c, s).
     (if hc_handshake_complete c \<and> (can_write \<or> has_pending_output c)
      then (case flush_output (hc_tls c) writes [] of
              Inl e \<Rightarrow> Inl e
            | Inr (st, tls, wire) \<Rightarrow>
                (let c1 = c\<lparr>hc_tls := tls, hc_io_need := st, hc_wire := hc_wire c @ wire\<rparr>
                 in if st = Tls_closed \<or> st = Tls_failed then Inr (close_connection h c1 s)
                    else Inr (settle_connection h (c1, s))))
      else Inr (settle_connection h (c, s))))"

text \<open>The bytes of one readable event; the result is \<open>None\<close> when the connection was closed,
  otherwise whether the input was rejected. The parse deadline starts with the first byte of a
  request.\<close>

definition append_input :: "time_point \<Rightarrow> u8 list \<Rightarrow> http_connection \<Rightarrow> http_connection" where
  "append_input now bytes c =
     (let c1 = (if \<not> hc_parse_in_progress c \<and> hc_awaiting c = None
                then c\<lparr>hc_parse_started_at := now, hc_parse_in_progress := True\<rparr> else c)
      in c1\<lparr>hc_input := bb_append (hc_input c) bytes\<rparr>)"

definition receive_input ::
  "handle \<Rightarrow> time_point \<Rightarrow> ssl_read list \<Rightarrow> http_connection \<times> http_server \<Rightarrow>
     (bool \<times> http_connection) option \<times> http_server" where
  "receive_input h now reads = (\<lambda>(c, s).
     (let received = receive_stream reads [];
          c1 = c\<lparr>hc_io_need := sb_state received\<rparr>
      in if sb_state received = Tls_failed then (None, close_connection h c1 s)
         else let c2 = c1\<lparr>hc_peer_closed := hc_peer_closed c1 \<or> sb_status received = Peer_closed\<rparr>
              in if sb_bytes received = [] then (Some (False, c2), s)
                 else let c3 = append_input now (sb_bytes received) c2
                      in if max_input_bytes c3 < readable_bytes (hc_input c3)
                         then if hc_awaiting c3 \<noteq> None then (None, close_connection h c3 s)
                              else (Some (True, reject_and_close Http_headers_too_large c3), s)
                         else (Some (False, c3), s)))"

definition service_ready ::
  "'h http_handler \<Rightarrow> handle \<Rightarrow> time_point \<Rightarrow> ready_event \<Rightarrow> http_io \<Rightarrow> http_connection \<times> http_server \<Rightarrow> 'h \<Rightarrow>
     buffer_error + http_server \<times> 'h" where
  "service_ready handler h now ev io = (\<lambda>(c, s) hst.
     (let settle = (\<lambda>(c1, s1) hst1.
            case flush_and_settle h (ev_writable ev) (io_writes io) (c1, s1) of
              Inl e \<Rightarrow> Inl e | Inr s2 \<Rightarrow> Inr (s2, hst1))
      in if hc_handshake_complete c \<and> ev_readable ev
         then (case receive_input h now (io_reads io) (c, s) of
                 (None, s1) \<Rightarrow> Inr (s1, hst)
               | (Some (rejected, c1), s1) \<Rightarrow>
                   if rejected then settle (c1, s1) hst
                   else (case parse_and_dispatch handler h now (c1, s1) hst of
                           Inl e \<Rightarrow> Inl e
                         | Inr ((alive, c2, s2), hst2) \<Rightarrow>
                             if \<not> alive then Inr (s2, hst2) else settle (c2, s2) hst2))
         else settle (c, s) hst))"

definition service_connection ::
  "'h http_handler \<Rightarrow> handle \<Rightarrow> time_point \<Rightarrow> ready_event \<Rightarrow> http_io \<Rightarrow> http_connection \<times> http_server \<Rightarrow> 'h \<Rightarrow>
     buffer_error + http_server \<times> 'h" where
  "service_connection handler h now ev io = (\<lambda>(c, s) hst.
     (if ev_error ev then Inr (close_connection h c s, hst)
      else if hc_handshake_complete c then service_ready handler h now ev io (c, s) hst
      else let c1 = c\<lparr>hc_io_need := io_handshake io\<rparr>
           in if io_handshake io = Ready
              then service_ready handler h now ev io
                     (c1\<lparr>hc_handshake_complete := True, hc_last_activity := now\<rparr>, s) hst
              else if io_handshake io = Tls_closed \<or> io_handshake io = Tls_failed
              then Inr (close_connection h c1 s, hst)
              else service_ready handler h now ev io (c1, s) hst))"

definition complete_response ::
  "'h http_handler \<Rightarrow> time_point \<Rightarrow> ssl_write list \<Rightarrow> http_token \<Rightarrow> http_response \<Rightarrow> http_server \<Rightarrow> 'h \<Rightarrow>
     buffer_error + bool \<times> http_server \<times> 'h" where
  "complete_response handler now writes token response s hst =
     (case hs_awaiting s token of
        None \<Rightarrow> Inr (False, s, hst)
      | Some h \<Rightarrow>
          (let s1 = s\<lparr>hs_awaiting := (hs_awaiting s)(token := None)\<rparr>
           in case map_of (hs_connections s) h of
                None \<Rightarrow> Inr (False, s1, hst)
              | Some c \<Rightarrow>
                  (case queue_response h response (hc_awaiting_keep_alive c)
                          (c\<lparr>hc_awaiting := None, hc_last_activity := now\<rparr>, s1) of
                     (alive, c1, s2) \<Rightarrow>
                       if \<not> alive then Inr (False, s2, hst)
                       else let c2 = (if 0 < readable_bytes (hc_input c1)
                                      then c1\<lparr>hc_parse_started_at := now, hc_parse_in_progress := True\<rparr>
                                      else c1)
                            in case parse_and_dispatch handler h now (c2, s2) hst of
                                 Inl e \<Rightarrow> Inl e
                               | Inr ((alive2, c3, s3), hst3) \<Rightarrow>
                                   if \<not> alive2 then Inr (True, s3, hst3)
                                   else (case flush_and_settle h False writes (c3, s3) of
                                           Inl e \<Rightarrow> Inl e
                                         | Inr s4 \<Rightarrow> Inr (True, s4, hst3)))))"

section \<open>Deadlines and polling\<close>

definition connection_deadline :: "http_server_config \<Rightarrow> http_connection \<Rightarrow> time_point" where
  "connection_deadline cfg c =
     (if hc_parse_in_progress c then hc_parse_started_at c + hsc_parse_timeout cfg
      else hc_last_activity c + hsc_idle_timeout cfg)"

definition sweep_deadlines :: "time_point \<Rightarrow> http_server \<Rightarrow> http_server" where
  "sweep_deadlines now s =
     foldl (\<lambda>s' (h, c). close_connection h c s') s
       (filter (\<lambda>(h, c). connection_deadline (hs_config s) c \<le> now) (hs_connections s))"

text \<open>Milliseconds until the earliest deadline, never negative; \<open>None\<close> is the maximum of the
  type, which stands for no deadline.\<close>

definition time_to_earliest_deadline :: "time_point \<Rightarrow> http_server \<Rightarrow> int option" where
  "time_to_earliest_deadline now s =
     (let left = map (\<lambda>(h, c). let d = connection_deadline (hs_config s) c - now
                               in if 0 \<le> d then d div 1000000 else - ((- d) div 1000000))
                   (hs_connections s)
      in if left = [] then None else Some (max 0 (Min (set left))))"

datatype ready_item =
  Listener_ready "handle list"
| Connection_ready handle ready_event http_io

fun process_ready ::
  "'h http_handler \<Rightarrow> time_point \<Rightarrow> ready_item list \<Rightarrow> http_server \<Rightarrow> 'h \<Rightarrow> buffer_error + http_server \<times> 'h" where
  "process_ready handler now [] s hst = Inr (s, hst)"
| "process_ready handler now (Listener_ready accepted # items) s hst =
     process_ready handler now items (accept_connections accepted now s) hst"
| "process_ready handler now (Connection_ready h ev io # items) s hst =
     (case map_of (hs_connections s) h of
        None \<Rightarrow> process_ready handler now items s hst
      | Some c \<Rightarrow>
          (case service_connection handler h now ev io (c, s) hst of
             Inl e \<Rightarrow> Inl e
           | Inr (s', hst') \<Rightarrow> process_ready handler now items s' hst'))"

definition poll_once ::
  "'h http_handler \<Rightarrow> time_point \<Rightarrow> ready_item list \<Rightarrow> http_server \<Rightarrow> 'h \<Rightarrow> buffer_error + http_server \<times> 'h" where
  "poll_once handler now items s hst =
     (case process_ready handler now items s hst of
        Inl e \<Rightarrow> Inl e
      | Inr (s', hst') \<Rightarrow> Inr (sweep_deadlines now s', hst'))"

section \<open>The invariant of the server\<close>

text \<open>Connections have well-formed buffers; a token is awaited exactly by the connection it
  leads to, and has been issued; the event loop knows exactly the registered connections;
  and there are at most as many connections as configured.\<close>

definition http_conn_ok :: "http_connection \<Rightarrow> bool" where
  "http_conn_ok c \<longleftrightarrow> conn_ok (hc_tls c) \<and> bb_ok (hc_input c)"

definition server_ok :: "http_server \<Rightarrow> bool" where
  "server_ok s \<longleftrightarrow>
     distinct (map fst (hs_connections s)) \<and>
     length (hs_connections s) \<le> hsc_max_connections (hs_config s) \<and>
     (\<forall>h c. map_of (hs_connections s) h = Some c \<longrightarrow> http_conn_ok c \<and>
        (\<forall>t. hc_awaiting c = Some t \<longleftrightarrow> hs_awaiting s t = Some h) \<and>
        (hc_registered c \<longleftrightarrow> hs_interest s h \<noteq> None)) \<and>
     (\<forall>t h. hs_awaiting s t = Some h \<longrightarrow> map_of (hs_connections s) h \<noteq> None \<and> t < hs_next_token s) \<and>
     (\<forall>h. hs_interest s h \<noteq> None \<longrightarrow> map_of (hs_connections s) h \<noteq> None)"

abbreviation lookup :: "http_server \<Rightarrow> handle \<rightharpoonup> http_connection" where
  "lookup s \<equiv> map_of (hs_connections s)"

lemma lookup_put [simp]: "lookup (put_connection h c s) = (lookup s)(h \<mapsto> c)"
  by (simp add: put_connection_def update_conv')

lemma put_put [simp]: "put_connection h c' (put_connection h c s) = put_connection h c' s"
  by (simp add: put_connection_def)

lemma close_put [simp]: "close_connection h c' (put_connection h c s) = close_connection h c' s"
  by (simp add: put_connection_def close_connection_def delete_update_same split: option.split)

lemma put_fields [simp]:
  "hs_config (put_connection h c s) = hs_config s" "hs_interest (put_connection h c s) = hs_interest s"
  "hs_next_token (put_connection h c s) = hs_next_token s" "hs_awaiting (put_connection h c s) = hs_awaiting s"
  by (simp_all add: put_connection_def)

lemma server_ok_lookup:
  assumes "server_ok s" "lookup s h = Some c"
  shows "http_conn_ok c" "hc_awaiting c = Some t \<longleftrightarrow> hs_awaiting s t = Some h"
    "hc_registered c \<longleftrightarrow> hs_interest s h \<noteq> None"
  using assms by (auto simp: server_ok_def)

lemma put_keeps_keys:
  assumes "lookup s h = Some c"
  shows "map fst (hs_connections (put_connection h c' s)) = map fst (hs_connections s)"
  using assms by (auto simp: put_connection_def update_keys dest: map_of_SomeD intro: rev_image_eqI)

lemma put_ok:
  assumes "server_ok s" "lookup s h = Some c" "http_conn_ok c'" "hc_awaiting c' = hc_awaiting c"
    "hc_registered c' = hc_registered c"
  shows "server_ok (put_connection h c' s)"
proof -
  note keys = put_keeps_keys [OF assms(2), of c']
  have "length (hs_connections (put_connection h c' s)) = length (hs_connections s)"
    using keys by (metis length_map)
  then show ?thesis
    using assms keys by (auto simp: server_ok_def)
qed

text \<open>Any change of one connection, its token and its registration.\<close>

lemma put_linked_ok:
  assumes "server_ok s" "lookup s h = Some c" "http_conn_ok c'"
    "hs_connections s' = hs_connections s" "hs_config s' = hs_config s"
    "\<And>t. hc_awaiting c' = Some t \<longleftrightarrow> hs_awaiting s' t = Some h"
    "\<And>t h'. h' \<noteq> h \<Longrightarrow> hs_awaiting s' t = Some h' \<longleftrightarrow> hs_awaiting s t = Some h'"
    "\<And>t. hc_awaiting c' = Some t \<Longrightarrow> t < hs_next_token s'" "hs_next_token s \<le> hs_next_token s'"
    "hc_registered c' \<longleftrightarrow> hs_interest s' h \<noteq> None"
    "\<And>h'. h' \<noteq> h \<Longrightarrow> hs_interest s' h' = hs_interest s h'"
  shows "server_ok (put_connection h c' s')"
proof -
  have l: "lookup s' = lookup s" "lookup s' h = Some c"
    using assms(2,4) by simp_all
  note keys = put_keeps_keys [OF l(2), of c']
  then have len: "length (hs_connections (put_connection h c' s')) = length (hs_connections s)"
    using assms(4) by (metis length_map)
  have await: "hs_awaiting s' t = Some h' \<Longrightarrow> lookup (put_connection h c' s') h' \<noteq> None \<and> t < hs_next_token s'" for t h'
  proof (cases "h' = h")
    case True
    then show "hs_awaiting s' t = Some h' \<Longrightarrow> ?thesis"
      using assms(6,8) by simp
  next
    case False
    then show "hs_awaiting s' t = Some h' \<Longrightarrow> ?thesis"
      using assms(1,7,9) l unfolding server_ok_def by (fastforce intro: less_le_trans)
  qed
  have interest: "hs_interest s' h' \<noteq> None \<Longrightarrow> lookup (put_connection h c' s') h' \<noteq> None" for h'
    using assms(1,11) l by (cases "h' = h") (auto simp: server_ok_def)
  have conns: "http_conn_ok d \<and> (\<forall>t. hc_awaiting d = Some t \<longleftrightarrow> hs_awaiting s' t = Some h') \<and>
      (hc_registered d \<longleftrightarrow> hs_interest s' h' \<noteq> None)"
    if "lookup (put_connection h c' s') h' = Some d" for h' d
  proof (cases "h' = h")
    case True
    then show ?thesis
      using that assms(3,6,10) by auto
  next
    case False
    then have "lookup s h' = Some d"
      using that l by simp
    then show ?thesis
      using server_ok_lookup [OF assms(1)] assms(7,11) False by auto
  qed
  show ?thesis
    unfolding server_ok_def put_fields
    using keys len await interest conns assms(1,4,5) by (simp add: server_ok_def)
qed

lemma close_ok:
  assumes "server_ok s" "lookup s h = Some c0" "hc_awaiting c = hc_awaiting c0"
    "hc_registered c = hc_registered c0"
  shows "server_ok (close_connection h c s)" "lookup (close_connection h c s) h = None"
proof -
  let ?s = "close_connection h c s"
  have l: "lookup ?s = (lookup s)(h := None)"
    by (simp add: close_connection_def delete_conv')
  then show "lookup ?s h = None"
    by simp
  have keys: "distinct (map fst (hs_connections ?s))"
    using assms(1) by (simp add: close_connection_def server_ok_def distinct_delete)
  have len: "length (hs_connections ?s) \<le> hsc_max_connections (hs_config ?s)"
    using assms(1) order_trans [OF length_delete_le, of "hs_connections s" _ h]
    by (simp add: close_connection_def server_ok_def)
  have a: "hs_awaiting ?s t = Some h' \<longleftrightarrow> h' \<noteq> h \<and> hs_awaiting s t = Some h'" for t h'
  proof -
    have "hs_awaiting s t = Some h \<longleftrightarrow> hc_awaiting c = Some t" for t
      using server_ok_lookup(2) [OF assms(1,2)] assms(3) by simp
    from this [of t] this [of "the (hc_awaiting c)"] show ?thesis
      by (auto simp: close_connection_def split: option.splits)
  qed
  have i: "hs_interest ?s h' = (if h' = h then None else hs_interest s h')" for h'
    using server_ok_lookup(3) [OF assms(1,2)] assms(4)
    by (auto simp: close_connection_def)
  have "hs_next_token ?s = hs_next_token s"
    by (simp add: close_connection_def)
  then show "server_ok ?s"
    using keys len assms(1) unfolding server_ok_def l a i by auto
qed

text \<open>A connection in hand: the server is well formed once it is put back.\<close>

abbreviation in_hand :: "handle \<Rightarrow> http_connection \<Rightarrow> http_server \<Rightarrow> bool" where
  "in_hand h c s \<equiv> server_ok (put_connection h c s)"

lemma in_hand_lookup: "server_ok s \<Longrightarrow> lookup s h = Some c \<Longrightarrow> in_hand h c s"
  using put_ok server_ok_lookup(1) by blast

lemma in_hand_conn: "in_hand h c s \<Longrightarrow> http_conn_ok c"
  using server_ok_lookup(1) [of "put_connection h c s" h c] by simp

lemma in_hand_change:
  assumes "in_hand h c s" "http_conn_ok c'" "hc_awaiting c' = hc_awaiting c" "hc_registered c' = hc_registered c"
  shows "in_hand h c' s"
  using put_ok [OF assms(1), of h c c'] assms(2-4) by simp

lemma in_hand_close:
  assumes "in_hand h c s" "hc_awaiting c' = hc_awaiting c" "hc_registered c' = hc_registered c"
  shows "server_ok (close_connection h c' s)" "lookup (close_connection h c' s) h = None"
  using close_ok [OF assms(1), of h c c'] assms(2,3) by simp_all

text \<open>Tokens only move forwards: an answered token is never awaited again.\<close>

definition advances :: "http_server \<Rightarrow> http_server \<Rightarrow> bool" where
  "advances s s' \<longleftrightarrow>
     hs_config s' = hs_config s \<and> hs_next_token s \<le> hs_next_token s' \<and>
     (\<forall>t < hs_next_token s. hs_awaiting s t = None \<longrightarrow> hs_awaiting s' t = None)"

lemma advances_refl [simp]: "advances s s"
  by (simp add: advances_def)

lemma advances_trans [trans]: "advances s s1 \<Longrightarrow> advances s1 s2 \<Longrightarrow> advances s s2"
  by (auto simp: advances_def)

lemma advances_put [simp]:
  "advances s (put_connection h c s') = advances s s'" "advances (put_connection h c s) s' = advances s s'"
  by (simp_all add: advances_def)

lemma advances_close [simp]: "advances s (close_connection h c s)"
  by (auto simp: advances_def close_connection_def split: option.splits)

section \<open>Operations keep the invariant\<close>

lemma queue_bytes_ok: "conn_ok t \<Longrightarrow> conn_ok (snd (queue_bytes t p))"
  by (auto simp: queue_bytes_def conn_ok_def bb_ok_def bb_append_def readable_bytes_def)

lemma reject_ok:
  assumes "in_hand h c s"
  shows "in_hand h (reject_and_close st c) s"
  using in_hand_conn [OF assms] queue_bytes_ok
  by (intro in_hand_change [OF assms]) (simp_all add: reject_and_close_def http_conn_ok_def Let_def)

lemma queue_response_ok:
  assumes "queue_response h r keep_alive (c, s) = (alive, c', s')" "in_hand h c s"
  shows "if alive then s' = s \<and> in_hand h c' s \<and> hc_awaiting c' = hc_awaiting c
     else server_ok s' \<and> lookup s' h = None \<and> advances s s'"
proof -
  let ?c = "c\<lparr>hc_close_after_flush := hc_close_after_flush c \<or> \<not> keep_alive\<rparr>"
  obtain queued tls where q: "queue_bytes (hc_tls c) (as_bytes (serialize_http1_response r keep_alive)) = (queued, tls)"
    by (cases "queue_bytes (hc_tls c) (as_bytes (serialize_http1_response r keep_alive))")
  have tls: "conn_ok tls"
    using queue_bytes_ok [of "hc_tls c" "as_bytes (serialize_http1_response r keep_alive)"] q
      in_hand_conn [OF assms(2)] by (simp add: http_conn_ok_def)
  show ?thesis
  proof (cases queued)
    case True
    then have "alive \<and> s' = s \<and> c' = ?c\<lparr>hc_tls := tls\<rparr>"
      using assms(1) q by (simp add: queue_response_def Let_def)
    moreover have "in_hand h (?c\<lparr>hc_tls := tls\<rparr>) s"
      using tls in_hand_conn [OF assms(2)]
      by (intro in_hand_change [OF assms(2)]) (simp_all add: http_conn_ok_def)
    ultimately show ?thesis by simp
  next
    case False
    then have "\<not> alive \<and> s' = close_connection h ?c s"
      using assms(1) q by (auto simp: queue_response_def Let_def)
    then show ?thesis
      using in_hand_close [OF assms(2), of ?c] by simp
  qed
qed

lemma dispatch_ok:
  assumes "dispatch_request handler h now request (c, s) hst = ((alive, c', s'), hst')"
    "in_hand h c s" "hc_awaiting c = None"
  shows "advances s s' \<and> (if alive then in_hand h c' s' else server_ok s' \<and> lookup s' h = None)"
proof -
  let ?c = "c\<lparr>hc_parse_in_progress := False, hc_last_activity := now\<rparr>"
  let ?t = "hs_next_token s"
  let ?s = "s\<lparr>hs_next_token := ?t + 1\<rparr>"
  have conn: "http_conn_ok ?c"
    using in_hand_conn [OF assms(2)] by (simp add: http_conn_ok_def)
  have links: "hs_awaiting s t \<noteq> Some h" "hc_registered c \<longleftrightarrow> hs_interest s h \<noteq> None" for t
    using server_ok_lookup [OF assms(2), of h c] assms(3) by simp_all
  have hand: "in_hand h ?c ?s"
  proof -
    have "server_ok (put_connection h ?c (put_connection h c ?s))"
      by (rule put_linked_ok [OF assms(2), of h c])
        (use conn links assms(3) in \<open>simp_all add: put_connection_def update_conv' del: not_None_eq\<close>)
    then show ?thesis by simp
  qed
  have adv: "advances s ?s"
    by (simp add: advances_def)
  have respond: "?thesis" if "queue_response h r k (?c, ?s) = (alive, c', s')" for r k
  proof -
    have "if alive then s' = ?s \<and> in_hand h c' ?s \<and> hc_awaiting c' = hc_awaiting ?c
        else server_ok s' \<and> lookup s' h = None \<and> advances ?s s'"
      by (rule queue_response_ok [OF that hand])
    then show ?thesis
      using adv advances_trans [OF adv] by (auto split: if_splits)
  qed
  obtain outcome hst1 where out: "handler request ?t hst = (outcome, hst1)"
    by (cases "handler request ?t hst")
  show ?thesis
  proof (cases "outcome = Inr Handler_deferred")
    case True
    let ?d = "?c\<lparr>hc_awaiting := Some ?t, hc_awaiting_keep_alive := wants_keep_alive request\<rparr>"
    let ?s' = "?s\<lparr>hs_awaiting := (hs_awaiting s)(?t \<mapsto> h)\<rparr>"
    have run: "alive \<and> c' = ?d \<and> s' = ?s'"
      using assms(1) out True by (auto simp: dispatch_request_def Let_def)
    have fresh: "hs_awaiting s ?t = None"
      using assms(2) by (cases "hs_awaiting s ?t") (auto simp: server_ok_def)
    have "server_ok (put_connection h ?d (put_connection h c ?s'))"
      by (rule put_linked_ok [OF assms(2), of h c])
        (use conn links assms(3) fresh in \<open>auto simp: put_connection_def update_conv' http_conn_ok_def simp del: not_None_eq\<close>)
    moreover have "advances s ?s'"
      by (simp add: advances_def)
    ultimately show ?thesis
      using run by simp
  next
    case False
    then show ?thesis
      using assms(1) out respond
      by (auto simp: dispatch_request_def Let_def split: sum.splits handler_result.splits)
  qed
qed

lemma parse_and_dispatch_ok:
  "in_hand h c s \<Longrightarrow>
     \<exists>alive c' s' hst'. parse_and_dispatch handler h now (c, s) hst = Inr ((alive, c', s'), hst') \<and>
       advances s s' \<and> (if alive then in_hand h c' s' else server_ok s' \<and> lookup s' h = None)"
proof (induction handler h now "(c, s)" hst arbitrary: c s rule: parse_and_dispatch.induct)
  case (1 handler h now c s hst)
  note run = parse_and_dispatch.simps [of handler h now c s hst]
  show ?case
  proof (cases "hc_awaiting c \<noteq> None \<or> hc_close_after_flush c")
    case True
    then show ?thesis
      using "1.prems" by (auto simp: run)
  next
    case False
    then have idle: "hc_awaiting c = None"
      by simp
    have conn: "http_conn_ok c"
      using in_hand_conn [OF "1.prems"] .
    then obtain st request p' b' where parsed:
      "request_try_parse (hc_parser c) (hc_input c) = Inr ((st, request), p', b')" "bb_ok b'"
      using try_parse_view [of "hc_input c" parse_request_head append_request_body "hc_parser c"]
      unfolding request_try_parse_def http_conn_ok_def by (metis prod.collapse)
    let ?c1 = "c\<lparr>hc_parser := p', hc_input := b'\<rparr>"
    have hand: "in_hand h ?c1 s"
      using conn parsed(2) by (intro in_hand_change [OF "1.prems"]) (simp_all add: http_conn_ok_def)
    consider "st = Http_need_more_data" | "st \<noteq> Http_need_more_data" "st \<noteq> Http_ready" | "st = Http_ready"
      by blast
    then show ?thesis
    proof cases
      case 1
      then show ?thesis
        using False parsed(1) hand by (auto simp: run Let_def)
    next
      case 2
      then show ?thesis
        using False parsed(1) reject_ok [OF hand, of st] by (auto simp: run Let_def)
    next
      case 3
      obtain alive c2 s2 hst2 where d:
        "dispatch_request handler h now (the request) (?c1, s) hst = ((alive, c2, s2), hst2)"
        by (metis prod_cases3 surj_pair)
      have ok: "advances s s2 \<and> (if alive then in_hand h c2 s2 else server_ok s2 \<and> lookup s2 h = None)"
        by (rule dispatch_ok [OF d hand]) (simp add: idle)
      show ?thesis
      proof (cases alive)
        case True
        have "\<exists>alive c' s' hst'. parse_and_dispatch handler h now (c2, s2) hst2 = Inr ((alive, c', s'), hst') \<and>
            advances s2 s' \<and> (if alive then in_hand h c' s' else server_ok s' \<and> lookup s' h = None)"
          by (rule "1.hyps") (use False parsed(1) 3 d True ok in \<open>auto simp: Let_def\<close>)
        then obtain alive' c' s' hst' where rest:
          "parse_and_dispatch handler h now (c2, s2) hst2 = Inr ((alive', c', s'), hst')" "advances s2 s'"
          "if alive' then in_hand h c' s' else server_ok s' \<and> lookup s' h = None"
          by blast
        have "parse_and_dispatch handler h now (c, s) hst = Inr ((alive', c', s'), hst')"
          using False parsed(1) 3 d True rest(1) by (simp add: run Let_def)
        then show ?thesis
          using rest(2,3) ok advances_trans by blast
      next
        case dead: False
        then show ?thesis
          using False parsed(1) 3 d ok by (auto simp: run Let_def)
      qed
    qed
  qed
qed

lemma update_interest_ok:
  assumes "update_interest h c s = (c', s')" "in_hand h c s"
  shows "in_hand h c' s' \<and> advances s s'"
proof -
  have links: "hs_awaiting s t = Some h \<longleftrightarrow> hc_awaiting c = Some t" for t
    using server_ok_lookup [OF assms(2), of h c] by simp
  have tokens: "hc_awaiting c = Some t \<Longrightarrow> t < hs_next_token s" for t
    using assms(2) [unfolded server_ok_def] links [of t] by simp
  have reg: "hc_registered c \<longleftrightarrow> hs_interest s h \<noteq> None"
    using server_ok_lookup(3) [OF assms(2), of h c] by simp
  have conn: "http_conn_ok (c\<lparr>hc_registered := r\<rparr>)" for r
    using in_hand_conn [OF assms(2)] by (simp add: http_conn_ok_def)
  have fields: "hs_config s' = hs_config s \<and> hs_connections s' = hs_connections s \<and>
      hs_awaiting s' = hs_awaiting s \<and> hs_next_token s' = hs_next_token s \<and>
      c' = c\<lparr>hc_registered := hc_registered c'\<rparr> \<and> (hc_registered c' \<longleftrightarrow> hs_interest s' h \<noteq> None) \<and>
      (\<forall>h'. h' \<noteq> h \<longrightarrow> hs_interest s' h' = hs_interest s h')"
    using assms(1) reg by (cases c) (auto simp: update_interest_def Let_def split: if_splits)
  then obtain r where r: "c' = c\<lparr>hc_registered := r\<rparr>" "r \<longleftrightarrow> hs_interest s' h \<noteq> None"
    by blast
  have "server_ok (put_connection h c' (put_connection h c s'))"
    by (rule put_linked_ok [OF assms(2), of h c])
      (use fields r conn links tokens in \<open>simp_all add: put_connection_def update_conv' del: not_None_eq\<close>)
  then show ?thesis
    using fields by (simp add: advances_def)
qed

lemma settle_ok:
  assumes "in_hand h c s"
  shows "server_ok (settle_connection h (c, s)) \<and> advances s (settle_connection h (c, s))"
  using in_hand_close [OF assms] update_interest_ok [OF _ assms]
  by (auto simp: settle_connection_def split: prod.split)

lemma flush_and_settle_ok:
  assumes "in_hand h c s"
  shows "\<exists>s'. flush_and_settle h can_write writes (c, s) = Inr s' \<and> server_ok s' \<and> advances s s'"
proof -
  have conn: "conn_ok (hc_tls c)" "http_conn_ok c"
    using in_hand_conn [OF assms] by (simp_all add: http_conn_ok_def)
  obtain st tls wire where f: "flush_output (hc_tls c) writes [] = Inr (st, tls, wire)" "conn_ok tls"
    using flush_output_stream [of "hc_tls c" writes "[]"] conn(1) by (auto simp: conn_ok_def)
  let ?c = "c\<lparr>hc_tls := tls, hc_io_need := st, hc_wire := hc_wire c @ wire\<rparr>"
  have hand: "in_hand h ?c s"
    using conn f(2) by (intro in_hand_change [OF assms]) (simp_all add: http_conn_ok_def)
  show ?thesis
    using settle_ok [OF assms] settle_ok [OF hand] in_hand_close [OF assms, of ?c] f(1)
    by (simp add: flush_and_settle_def Let_def)
qed

lemma append_input_simps [simp]:
  "hc_tls (append_input now bytes c) = hc_tls c" "hc_awaiting (append_input now bytes c) = hc_awaiting c"
  "hc_registered (append_input now bytes c) = hc_registered c"
  "hc_input (append_input now bytes c) = bb_append (hc_input c) bytes"
  "hc_parser (append_input now bytes c) = hc_parser c" "hc_wire (append_input now bytes c) = hc_wire c"
  by (simp_all add: append_input_def Let_def)

lemma receive_input_ok:
  assumes "receive_input h now reads (c, s) = (r, s')" "in_hand h c s"
  shows "advances s s' \<and> (case r of None \<Rightarrow> server_ok s' \<and> lookup s' h = None
    | Some (rejected, c') \<Rightarrow> s' = s \<and> in_hand h c' s \<and>
        (hc_awaiting c \<noteq> None \<longrightarrow> \<not> rejected \<and> hc_awaiting c' = hc_awaiting c))"
proof -
  let ?received = "receive_stream reads []"
  let ?c2 = "c\<lparr>hc_io_need := sb_state ?received,
    hc_peer_closed := hc_peer_closed c \<or> sb_status ?received = Peer_closed\<rparr>"
  let ?c3 = "append_input now (sb_bytes ?received) ?c2"
  have conn: "conn_ok (hc_tls c)" "bb_ok (hc_input c)"
    using in_hand_conn [OF assms(2)] by (simp_all add: http_conn_ok_def)
  have change: "in_hand h c' s"
    if "hc_tls c' = hc_tls c" "hc_awaiting c' = hc_awaiting c" "hc_registered c' = hc_registered c"
      "bb_ok (hc_input c')" for c'
    using that conn by (intro in_hand_change [OF assms(2)]) (simp_all add: http_conn_ok_def)
  have hand: "in_hand h ?c2 s" "in_hand h ?c3 s"
    using conn(2) bb.put_ok by (auto intro!: change)
  have closed: "server_ok (close_connection h c' s) \<and> lookup (close_connection h c' s) h = None"
    if "hc_awaiting c' = hc_awaiting c" "hc_registered c' = hc_registered c" for c'
    using in_hand_close [OF assms(2) that] by simp
  show ?thesis
    using assms(1) hand reject_ok [OF hand(2)] closed [of "c\<lparr>hc_io_need := sb_state ?received\<rparr>"] closed [of ?c3]
    by (auto simp: receive_input_def Let_def split: if_splits)
qed

lemma service_ready_ok:
  assumes "in_hand h c s"
  shows "\<exists>s' hst'. service_ready handler h now ev io (c, s) hst = Inr (s', hst') \<and> server_ok s' \<and> advances s s'"
proof (cases "hc_handshake_complete c \<and> ev_readable ev")
  case False
  then show ?thesis
    using flush_and_settle_ok [OF assms, of "ev_writable ev" "io_writes io"]
    by (auto simp: service_ready_def Let_def)
next
  case True
  obtain r s1 where got: "receive_input h now (io_reads io) (c, s) = (r, s1)"
    by (cases "receive_input h now (io_reads io) (c, s)")
  note ok = receive_input_ok [OF got assms]
  show ?thesis
  proof (cases r)
    case None
    then show ?thesis
      using True got ok by (simp add: service_ready_def)
  next
    case (Some r1)
    then obtain rejected c1 where r1: "r = Some (rejected, c1)"
      by (cases r1) auto
    have hand: "s1 = s" "in_hand h c1 s"
      using ok r1 by simp_all
    show ?thesis
    proof (cases rejected)
      case rej: True
      then show ?thesis
        using True got r1 hand flush_and_settle_ok [OF hand(2), of "ev_writable ev" "io_writes io"]
        by (auto simp: service_ready_def Let_def)
    next
      case accepted: False
      obtain alive c2 s2 hst2 where p: "parse_and_dispatch handler h now (c1, s) hst = Inr ((alive, c2, s2), hst2)"
        "advances s s2" "if alive then in_hand h c2 s2 else server_ok s2 \<and> lookup s2 h = None"
        using parse_and_dispatch_ok [OF hand(2), where handler = handler and now = now and hst = hst] by blast
      show ?thesis
      proof (cases alive)
        case alive: True
        obtain s3 where "flush_and_settle h (ev_writable ev) (io_writes io) (c2, s2) = Inr s3"
          "server_ok s3" "advances s2 s3"
          using flush_and_settle_ok [of h c2 s2] p(3) alive by auto
        then show ?thesis
          using True got r1 hand accepted alive p(1) advances_trans [OF p(2)]
          by (simp add: service_ready_def)
      next
        case dead: False
        then show ?thesis
          using True got r1 hand accepted p by (simp add: service_ready_def)
      qed
    qed
  qed
qed

lemma service_connection_ok:
  assumes "in_hand h c s"
  shows "\<exists>s' hst'. service_connection handler h now ev io (c, s) hst = Inr (s', hst') \<and>
    server_ok s' \<and> advances s s'"
proof -
  have conn: "http_conn_ok c"
    using in_hand_conn [OF assms] .
  have change: "in_hand h c' s" if "hc_tls c' = hc_tls c" "hc_input c' = hc_input c"
    "hc_awaiting c' = hc_awaiting c" "hc_registered c' = hc_registered c" for c'
    using that conn by (intro in_hand_change [OF assms]) (simp_all add: http_conn_ok_def)
  let ?c = "c\<lparr>hc_io_need := io_handshake io\<rparr>"
  have "in_hand h ?c s" "in_hand h (?c\<lparr>hc_handshake_complete := True, hc_last_activity := now\<rparr>) s"
    by (auto intro!: change)
  note ready = service_ready_ok [OF assms] this [THEN service_ready_ok]
  show ?thesis
    using ready [where handler = handler and ev = ev and io = io and hst = hst and now = now]
      in_hand_close [OF assms, of c] in_hand_close [OF assms, of ?c]
    by (cases "io_handshake io = Ready") (simp_all add: service_connection_def Let_def)
qed

lemma complete_response_ok:
  assumes "server_ok s"
  shows "\<exists>r s' hst'. complete_response handler now writes token response s hst = Inr (r, s', hst') \<and>
    server_ok s' \<and> advances s s' \<and> hs_awaiting s' token = None \<and> (r \<longrightarrow> hs_awaiting s token \<noteq> None)"
proof (cases "hs_awaiting s token")
  case None
  then show ?thesis
    using assms by (auto simp: complete_response_def)
next
  case (Some h)
  then have "lookup s h \<noteq> None \<and> token < hs_next_token s"
    using assms unfolding server_ok_def by blast
  then obtain c where c: "lookup s h = Some c" "token < hs_next_token s"
    by blast
  have awaiting: "hc_awaiting c = Some token"
    using server_ok_lookup(2) [OF assms c(1)] Some by simp
  let ?s1 = "s\<lparr>hs_awaiting := (hs_awaiting s)(token := None)\<rparr>"
  let ?c = "c\<lparr>hc_awaiting := None, hc_last_activity := now\<rparr>"
  have link: "hs_awaiting s t = Some h \<Longrightarrow> t = token" for t
    using server_ok_lookup(2) [OF assms c(1), of t] awaiting by simp
  have hand: "in_hand h ?c ?s1"
  proof (rule put_linked_ok [OF assms c(1)])
    show "http_conn_ok ?c" "hc_registered ?c \<longleftrightarrow> hs_interest ?s1 h \<noteq> None"
      using server_ok_lookup [OF assms c(1)] by (simp_all add: http_conn_ok_def del: not_None_eq)
    show "hc_awaiting ?c = Some t \<longleftrightarrow> hs_awaiting ?s1 t = Some h" for t
      using link [of t] by auto
    show "hs_awaiting ?s1 t = Some h' \<longleftrightarrow> hs_awaiting s t = Some h'" if "h' \<noteq> h" for t h'
      using Some that by simp
  qed simp_all
  have adv: "advances s ?s1" "hs_awaiting ?s1 token = None" "token < hs_next_token ?s1"
    using c(2) by (auto simp: advances_def)
  have keep: "hs_awaiting s' token = None" if "advances ?s1 s'" for s'
    using that adv(2,3) by (simp add: advances_def)
  obtain alive c1 s2 where q: "queue_response h response (hc_awaiting_keep_alive c) (?c, ?s1) = (alive, c1, s2)"
    by (metis prod_cases3)
  note queued = queue_response_ok [OF q hand]
  show ?thesis
  proof (cases alive)
    case False
    then have "server_ok s2" "advances ?s1 s2"
      using queued by simp_all
    then show ?thesis
      using Some c(1) q False keep advances_trans [OF adv(1)] by (auto simp: complete_response_def Let_def)
  next
    case True
    then have hand1: "s2 = ?s1" "in_hand h c1 ?s1"
      using queued by simp_all
    let ?c2 = "if 0 < readable_bytes (hc_input c1)
      then c1\<lparr>hc_parse_started_at := now, hc_parse_in_progress := True\<rparr> else c1"
    have hand2: "in_hand h ?c2 ?s1"
      using in_hand_conn [OF hand1(2)] by (intro in_hand_change [OF hand1(2)]) (simp_all add: http_conn_ok_def)
    obtain alive2 c3 s3 hst3 where p:
      "parse_and_dispatch handler h now (?c2, ?s1) hst = Inr ((alive2, c3, s3), hst3)" "advances ?s1 s3"
      "if alive2 then in_hand h c3 s3 else server_ok s3 \<and> lookup s3 h = None"
      using parse_and_dispatch_ok [OF hand2, where handler = handler and now = now and hst = hst] by blast
    have run: "complete_response handler now writes token response s hst =
        (if \<not> alive2 then Inr (True, s3, hst3)
         else case flush_and_settle h False writes (c3, s3) of Inl e \<Rightarrow> Inl e | Inr s4 \<Rightarrow> Inr (True, s4, hst3))"
      using Some c(1) q True hand1(1) p(1) by (simp add: complete_response_def Let_def)
    show ?thesis
    proof (cases alive2)
      case False
      then show ?thesis
        using run p keep Some advances_trans [OF adv(1)] by auto
    next
      case True
      obtain s4 where s4: "flush_and_settle h False writes (c3, s3) = Inr s4" "server_ok s4" "advances s3 s4"
        using flush_and_settle_ok [of h c3 s3] p(3) True by auto
      note moved = advances_trans [OF p(2) s4(3)]
      have "complete_response handler now writes token response s hst = Inr (True, s4, hst3)"
        using run True s4(1) by simp
      then show ?thesis
        using s4(2) keep [OF moved] advances_trans [OF adv(1) moved] Some by blast
    qed
  qed
qed

lemma accept_one_ok:
  assumes "server_ok s" "lookup s h = None" "length (hs_connections s) < hsc_max_connections (hs_config s)"
  shows "server_ok (s\<lparr>hs_interest := (hs_interest s)(h \<mapsto> (True, False)),
      hs_connections := AList.update h (new_http_connection (hs_config s) now) (hs_connections s)\<rparr>)"
    (is "server_ok ?s")
proof -
  let ?c = "new_http_connection (hs_config s) now"
  have new: "h \<notin> fst ` set (hs_connections s)"
    using assms(2) by (simp add: map_of_eq_None_iff)
  have keys: "map fst (hs_connections ?s) = map fst (hs_connections s) @ [h]"
    using new by (simp add: update_keys)
  have "length (hs_connections ?s) = Suc (length (hs_connections s))"
    using arg_cong [OF keys, of length] by simp
  moreover have "distinct (map fst (hs_connections ?s))"
    using keys new assms(1) by (simp add: server_ok_def)
  moreover have c: "http_conn_ok ?c" "hc_awaiting ?c = None" "hc_registered ?c"
    by (simp_all add: new_http_connection_def http_conn_ok_def conn_ok_def)
  moreover have "hs_awaiting s t \<noteq> Some h" for t
    using assms(1,2) unfolding server_ok_def by blast
  ultimately show ?thesis
    using assms(1,3) unfolding server_ok_def
    by (auto simp: update_conv' split: if_splits)
qed

lemma accept_ok:
  "server_ok s \<Longrightarrow> distinct accepted \<Longrightarrow> \<forall>h \<in> set accepted. lookup s h = None \<Longrightarrow>
     server_ok (accept_connections accepted now s) \<and> advances s (accept_connections accepted now s)"
proof (induction accepted now s rule: accept_connections.induct)
  case (2 h accepted now s)
  show ?case
  proof (cases "hsc_max_connections (hs_config s) \<le> length (hs_connections s)")
    case True
    then show ?thesis
      using 2 by simp
  next
    case False
    let ?s = "s\<lparr>hs_interest := (hs_interest s)(h \<mapsto> (True, False)),
      hs_connections := AList.update h (new_http_connection (hs_config s) now) (hs_connections s)\<rparr>"
    have h: "lookup s h = None"
      using "2.prems"(3) by simp
    have "server_ok ?s"
      using False by (intro accept_one_ok [OF "2.prems"(1) h]) simp
    moreover have "\<forall>h' \<in> set accepted. lookup ?s h' = None" "advances s ?s"
      using "2.prems"(2,3) by (auto simp: update_conv' advances_def)
    ultimately show ?thesis
      using "2.IH"(2) [OF False] "2.prems"(2) False h advances_trans [of s ?s] by simp
  qed
qed simp

lemma sweep_list:
  "server_ok s \<Longrightarrow> distinct (map fst xs) \<Longrightarrow> \<forall>(h, c) \<in> set xs. lookup s h = Some c \<Longrightarrow>
     server_ok (foldl (\<lambda>s' (h, c). close_connection h c s') s xs) \<and>
     advances s (foldl (\<lambda>s' (h, c). close_connection h c s') s xs) \<and>
     lookup (foldl (\<lambda>s' (h, c). close_connection h c s') s xs) =
       (\<lambda>h. if h \<in> fst ` set xs then None else lookup s h)"
proof (induction xs arbitrary: s)
  case (Cons x xs)
  obtain h c where x: "x = (h, c)"
    by (cases x)
  have c: "lookup s h = Some c" "h \<notin> fst ` set xs"
    using Cons.prems(2,3) by (auto simp: x)
  let ?s = "close_connection h c s"
  have l: "lookup ?s = (lookup s)(h := None)"
    by (simp add: close_connection_def delete_conv')
  have "server_ok ?s"
    using close_ok(1) [OF Cons.prems(1) c(1)] by simp
  moreover have "\<forall>(h', c') \<in> set xs. lookup ?s h' = Some c'"
    using Cons.prems(3) c(2) by (force simp: x l)
  ultimately show ?case
    using Cons.IH [of ?s] Cons.prems(2) l advances_trans [of s ?s] by (auto simp: x)
qed simp

lemma sweep_ok:
  assumes "server_ok s"
  shows "server_ok (sweep_deadlines now s)" "advances s (sweep_deadlines now s)"
    "lookup (sweep_deadlines now s) h = (case lookup s h of
       Some c \<Rightarrow> if connection_deadline (hs_config s) c \<le> now then None else Some c | None \<Rightarrow> None)"
proof -
  let ?late = "\<lambda>(h, c). connection_deadline (hs_config s) c \<le> now"
  let ?xs = "filter ?late (hs_connections s)"
  have d: "distinct (map fst (hs_connections s))"
    using assms by (simp add: server_ok_def)
  have xs: "distinct (map fst ?xs)" "\<forall>(h, c) \<in> set ?xs. lookup s h = Some c"
    using d by (auto simp: distinct_map_filter)
  note swept = sweep_list [OF assms xs, folded sweep_deadlines_def]
  show "server_ok (sweep_deadlines now s)" "advances s (sweep_deadlines now s)"
    using swept by simp_all
  have "h \<in> fst ` set ?xs \<longleftrightarrow> (\<exists>c. lookup s h = Some c \<and> ?late (h, c))"
    using d by (force simp: map_of_eq_Some_iff)
  then show "lookup (sweep_deadlines now s) h = (case lookup s h of
       Some c \<Rightarrow> if connection_deadline (hs_config s) c \<le> now then None else Some c | None \<Rightarrow> None)"
    using swept by (auto split: option.split)
qed

text \<open>The system never hands out the handle of an open connection.\<close>

fun handles_fresh ::
  "'h http_handler \<Rightarrow> time_point \<Rightarrow> ready_item list \<Rightarrow> http_server \<Rightarrow> 'h \<Rightarrow> bool" where
  "handles_fresh handler now [] s hst = True"
| "handles_fresh handler now (Listener_ready accepted # items) s hst =
     (distinct accepted \<and> (\<forall>h \<in> set accepted. lookup s h = None) \<and>
      handles_fresh handler now items (accept_connections accepted now s) hst)"
| "handles_fresh handler now (Connection_ready h ev io # items) s hst =
     (case lookup s h of
        None \<Rightarrow> handles_fresh handler now items s hst
      | Some c \<Rightarrow>
          (case service_connection handler h now ev io (c, s) hst of
             Inl e \<Rightarrow> True
           | Inr (s', hst') \<Rightarrow> handles_fresh handler now items s' hst'))"

lemma process_ready_ok:
  "server_ok s \<Longrightarrow> handles_fresh handler now items s hst \<Longrightarrow>
     \<exists>s' hst'. process_ready handler now items s hst = Inr (s', hst') \<and> server_ok s' \<and> advances s s'"
proof (induction handler now items s hst rule: process_ready.induct)
  case (2 handler now accepted items s hst)
  have a: "server_ok (accept_connections accepted now s)" "advances s (accept_connections accepted now s)"
    using accept_ok [OF "2.prems"(1)] "2.prems"(2) by simp_all
  then show ?case
    using "2.IH" [OF a(1)] "2.prems"(2) advances_trans [OF a(2)] by auto
next
  case (3 handler now h ev io items s hst)
  show ?case
  proof (cases "lookup s h")
    case None
    then show ?thesis
      using 3 by simp
  next
    case (Some c)
    obtain s1 hst1 where one: "service_connection handler h now ev io (c, s) hst = Inr (s1, hst1)"
      "server_ok s1" "advances s s1"
      using service_connection_ok [OF in_hand_lookup [OF "3.prems"(1) Some],
          where handler = handler and now = now and ev = ev and io = io and hst = hst] by blast
    have "handles_fresh handler now items s1 hst1"
      using "3.prems"(2) Some one(1) by simp
    from "3.IH"(2) [OF Some one(1) refl one(2) this] show ?thesis
      using Some one(1,3) advances_trans by auto
  qed
qed auto

lemma poll_once_ok:
  assumes "server_ok s" "handles_fresh handler now items s hst"
  shows "\<exists>s' hst'. poll_once handler now items s hst = Inr (s', hst') \<and> server_ok s' \<and> advances s s' \<and>
    (\<forall>h c. lookup s' h = Some c \<longrightarrow> now < connection_deadline (hs_config s') c)"
proof -
  obtain s1 hst1 where one: "process_ready handler now items s hst = Inr (s1, hst1)" "server_ok s1" "advances s s1"
    using process_ready_ok [OF assms] by blast
  note swept = sweep_ok [OF one(2), of now]
  have "hs_config (sweep_deadlines now s1) = hs_config s1"
    using swept(2) by (simp add: advances_def)
  then show ?thesis
    using one(1) swept advances_trans [OF one(3) swept(2)]
    by (auto simp: poll_once_def split: option.splits if_splits)
qed

section \<open>What an event leaves alone\<close>

text \<open>All bytes written on a connection: those on the wire, then those still queued.\<close>

definition output_stream :: "http_connection \<Rightarrow> u8 list" where
  "output_stream c = hc_wire c @ readable_data (output_buffer (hc_tls c))"

definition same_requests :: "http_connection \<Rightarrow> http_connection \<Rightarrow> bool" where
  "same_requests c c' \<longleftrightarrow>
     hc_parser c' = hc_parser c \<and> hc_awaiting c' = hc_awaiting c \<and>
     hc_awaiting_keep_alive c' = hc_awaiting_keep_alive c \<and> output_stream c' = output_stream c"

definition same_deadline :: "http_connection \<Rightarrow> http_connection \<Rightarrow> bool" where
  "same_deadline c c' \<longleftrightarrow>
     hc_parse_in_progress c' = hc_parse_in_progress c \<and> hc_parse_started_at c' = hc_parse_started_at c \<and>
     hc_last_activity c' = hc_last_activity c"

lemma flush_and_settle_same:
  assumes "in_hand h c s" "flush_and_settle h can_write writes (c, s) = Inr s'" "lookup s' h = Some c'"
  shows "same_requests c c' \<and> same_deadline c c' \<and> hs_next_token s' = hs_next_token s"
proof -
  have settled: "(lookup (settle_connection h (d, s)) h = Some c' \<longrightarrow> same_requests d c' \<and> same_deadline d c') \<and>
      hs_next_token (settle_connection h (d, s)) = hs_next_token s" for d
    by (auto simp: settle_connection_def update_interest_def close_connection_def delete_conv' Let_def
        same_requests_def same_deadline_def output_stream_def)
  obtain st tls wire where f: "flush_output (hc_tls c) writes [] = Inr (st, tls, wire)"
    "wire @ readable_data (output_buffer tls) = readable_data (output_buffer (hc_tls c))"
    using flush_output_stream [of "hc_tls c" writes "[]"] in_hand_conn [OF assms(1)]
    by (auto simp: conn_ok_def http_conn_ok_def)
  let ?c = "c\<lparr>hc_tls := tls, hc_io_need := st, hc_wire := hc_wire c @ wire\<rparr>"
  have "same_requests c ?c" "same_deadline c ?c"
    using f(2) by (simp_all add: same_requests_def same_deadline_def output_stream_def)
  moreover have "lookup (close_connection h ?c s) h = None"
    by (simp add: close_connection_def delete_conv')
  ultimately show ?thesis
    using assms(2,3) f(1) settled [of c] settled [of ?c]
    by (auto simp: flush_and_settle_def Let_def same_requests_def same_deadline_def split: if_splits)
qed



lemma receive_input_same:
  assumes "receive_input h now reads (c, s) = (Some (rejected, c'), s')"
  shows "hc_parser c' = hc_parser c" "hc_awaiting c' = hc_awaiting c"
    "hc_awaiting_keep_alive c' = hc_awaiting_keep_alive c" "s' = s" "rejected \<Longrightarrow> hc_awaiting c = None"
    "\<not> rejected \<Longrightarrow> output_stream c' = output_stream c"
    "hc_parse_in_progress c \<Longrightarrow> hc_parse_in_progress c' \<and> hc_parse_started_at c' = hc_parse_started_at c"
  using assms
  by (auto simp: receive_input_def append_input_def output_stream_def reject_and_close_def Let_def
      split: if_splits)

lemma service_ready_cases:
  assumes "in_hand h c s" "service_ready handler h now ev io (c, s) hst = Inr (s', hst')"
    "lookup s' h = Some c'"
  obtains (settled) c1 s1 where "in_hand h c1 s1" "same_requests c1 c'" "same_deadline c1 c'"
      "hs_next_token s' = hs_next_token s1" "c1 = c" "s1 = s" "hst' = hst"
  | (rejected) c1 where "receive_input h now (io_reads io) (c, s) = (Some (True, c1), s)" "same_requests c1 c'"
      "same_deadline c1 c'" "hs_next_token s' = hs_next_token s" "hst' = hst"
  | (parsed) c1 c2 s2 where "receive_input h now (io_reads io) (c, s) = (Some (False, c1), s)"
      "in_hand h c1 s" "parse_and_dispatch handler h now (c1, s) hst = Inr ((True, c2, s2), hst')"
      "same_requests c2 c'" "same_deadline c2 c'" "hs_next_token s' = hs_next_token s2"
proof (cases "hc_handshake_complete c \<and> ev_readable ev")
  case False
  then have "flush_and_settle h (ev_writable ev) (io_writes io) (c, s) = Inr s'" "hst' = hst"
    using assms(2) by (auto simp: service_ready_def Let_def split: sum.splits)
  then show thesis
    using settled [OF assms(1)] flush_and_settle_same [OF assms(1) _ assms(3)] by blast
next
  case True
  obtain r s1 where got: "receive_input h now (io_reads io) (c, s) = (r, s1)"
    by (cases "receive_input h now (io_reads io) (c, s)")
  note ok = receive_input_ok [OF got assms(1)]
  show thesis
  proof (cases r)
    case None
    then show thesis
      using True got ok assms(2,3) by (simp add: service_ready_def)
  next
    case (Some r1)
    then obtain rej c1 where r1: "r = Some (rej, c1)"
      by (cases r1) auto
    have hand: "s1 = s" "in_hand h c1 s"
      using ok r1 by simp_all
    note got = got [unfolded hand(1)]
    show thesis
    proof (cases rej)
      case rej: True
      then have f: "flush_and_settle h (ev_writable ev) (io_writes io) (c1, s) = Inr s'" "hst' = hst"
        using True got r1 assms(2) by (auto simp: service_ready_def Let_def split: sum.splits)
      show thesis
        using rejected [of c1] flush_and_settle_same [OF hand(2) f(1) assms(3)] got r1 rej f(2) by simp
    next
      case accepted: False
      obtain alive c2 s2 hst2 where p: "parse_and_dispatch handler h now (c1, s) hst = Inr ((alive, c2, s2), hst2)"
        "advances s s2" "if alive then in_hand h c2 s2 else server_ok s2 \<and> lookup s2 h = None"
        using parse_and_dispatch_ok [OF hand(2), where handler = handler and now = now and hst = hst] by blast
      have alive: alive
        using True got r1 accepted p assms(2,3) by (cases alive) (auto simp: service_ready_def Let_def)
      then have f: "flush_and_settle h (ev_writable ev) (io_writes io) (c2, s2) = Inr s'" "hst' = hst2"
        using True got r1 accepted p(1) assms(2) by (auto simp: service_ready_def Let_def split: sum.splits)
      have "in_hand h c2 s2"
        using p(3) alive by simp
      from flush_and_settle_same [OF this f(1) assms(3)]
      show thesis
        using parsed [of c1 c2 s2] got r1 accepted hand(2) p(1) alive f(2) by simp
    qed
  qed
qed

lemma service_ready_awaiting:
  assumes "in_hand h c s" "service_ready handler h now ev io (c, s) hst = Inr (s', hst')"
    "lookup s' h = Some c'" "hc_awaiting c = Some t"
  shows "same_requests c c' \<and> hst' = hst"
  using assms(1-3)
proof (cases rule: service_ready_cases)
  case (parsed c1 c2 s2)
  note got = receive_input_same [OF parsed(1)]
  have "c2 = c1 \<and> hst' = hst"
    using parsed(3) got(2) assms(4) by (simp add: parse_and_dispatch.simps [of handler h now c1 s])
  then show ?thesis
    using parsed(4) got by (simp add: same_requests_def)
qed (use assms(4) receive_input_same(5) in auto)


text \<open>An event changes a connection only through \<open>service_ready\<close>, after the handshake.\<close>

lemma service_connection_ready:
  assumes "in_hand h c s" "service_connection handler h now ev io (c, s) hst = Inr (s', hst')"
    "lookup s' h = Some c'"
  obtains d where "in_hand h d s" "service_ready handler h now ev io (d, s) hst = Inr (s', hst')"
    "same_requests c d" "hc_parse_in_progress d = hc_parse_in_progress c"
    "hc_parse_started_at d = hc_parse_started_at c"
proof -
  have change: "in_hand h d s" if "hc_tls d = hc_tls c" "hc_input d = hc_input c"
    "hc_awaiting d = hc_awaiting c" "hc_registered d = hc_registered c" for d
    using that in_hand_conn [OF assms(1)] by (intro in_hand_change [OF assms(1)]) (simp_all add: http_conn_ok_def)
  have closed: "lookup (close_connection h d s) h = None" for d
    by (simp add: close_connection_def delete_conv')
  let ?c = "c\<lparr>hc_io_need := io_handshake io\<rparr>"
  let ?d = "?c\<lparr>hc_handshake_complete := True, hc_last_activity := now\<rparr>"
  have "service_ready handler h now ev io (c, s) hst = Inr (s', hst') \<or>
      service_ready handler h now ev io (?c, s) hst = Inr (s', hst') \<or>
      service_ready handler h now ev io (?d, s) hst = Inr (s', hst')"
    using assms(2,3) closed by (auto simp: service_connection_def Let_def split: if_splits)
  then show thesis
    using that [of c] that [of ?c] that [of ?d] assms(1) change [of ?c] change [of ?d]
    by (auto simp: same_requests_def output_stream_def)
qed

section \<open>Properties\<close>

inductive http_step :: "'h http_handler \<Rightarrow> http_server \<times> 'h \<Rightarrow> http_server \<times> 'h \<Rightarrow> bool"
  for handler where
  poll: "handles_fresh handler now items s hst \<Longrightarrow> poll_once handler now items s hst = Inr (s', hst') \<Longrightarrow>
     http_step handler (s, hst) (s', hst')"
| complete: "complete_response handler now writes token response s hst = Inr (answered, s', hst') \<Longrightarrow>
     http_step handler (s, hst) (s', hst')"

inductive_cases http_stepE: "http_step handler (s, hst) (s', hst')"

inductive http_run :: "'h http_handler \<Rightarrow> http_server \<times> 'h \<Rightarrow> http_server \<times> 'h \<Rightarrow> bool"
  for handler where
  start: "http_run handler st st"
| step: "http_run handler st (s, hst) \<Longrightarrow> http_step handler (s, hst) (s', hst') \<Longrightarrow>
     http_run handler st (s', hst')"

lemma http_step_ok:
  assumes "http_step handler (s, hst) (s', hst')" "server_ok s"
  shows "server_ok s' \<and> advances s s'"
  using assms(1)
proof (rule http_stepE)
  fix now items
  assume "handles_fresh handler now items s hst" "poll_once handler now items s hst = Inr (s', hst')"
  then show ?thesis
    using poll_once_ok [OF assms(2), of handler now items hst] by auto
next
  fix now writes token response answered
  assume "complete_response handler now writes token response s hst = Inr (answered, s', hst')"
  then show ?thesis
    using complete_response_ok [OF assms(2), of handler now writes token response hst] by auto
qed

lemma http_run_ok:
  "http_run handler st st' \<Longrightarrow> server_ok (fst st) \<Longrightarrow> server_ok (fst st') \<and> advances (fst st) (fst st')"
proof (induction rule: http_run.induct)
  case (step st s hst s' hst')
  then show ?case
    using http_step_ok [OF step.hyps(2)] advances_trans by auto
qed simp

lemma new_http_server_ok: "server_ok (new_http_server cfg)"
  by (simp add: server_ok_def new_http_server_def)

definition example_http_config :: http_server_config where
  "example_http_config =
     \<lparr>hsc_max_head = 8192, hsc_max_body = 16384, hsc_max_pending_output = 65536,
      hsc_max_connections = 1, hsc_parse_timeout = seconds 15, hsc_idle_timeout = seconds 60\<rparr>"

definition deferring :: "nat http_handler" where
  "deferring request token n = (Inr Handler_deferred, Suc n)"

definition example_accepted :: http_server where
  "example_accepted = accept_connections [5, 6] (seconds 1) (new_http_server example_http_config)"

lemma example_accepted_run:
  "http_run deferring (new_http_server example_http_config, 0) (example_accepted, 0)"
proof (rule http_run.step [OF http_run.start], rule http_step.poll)
  show "handles_fresh deferring (seconds 1) [Listener_ready [5, 6]] (new_http_server example_http_config) 0"
    by (simp add: new_http_server_def)
  have "connection_deadline example_http_config (new_http_connection example_http_config (seconds 1)) = seconds 61"
    by (simp add: connection_deadline_def new_http_connection_def example_http_config_def clock_defs)
  then show "poll_once deferring (seconds 1) [Listener_ready [5, 6]] (new_http_server example_http_config) 0 =
      Inr (example_accepted, 0)"
    by (simp add: poll_once_def example_accepted_def sweep_deadlines_def new_http_server_def
        example_http_config_def)
qed

text \<open>C17. The server stays consistent whatever clients, handler and sockets do: in every
  state reached by polls and late completions, each awaited token leads to the one connection
  that waits for it, the event loop knows exactly the registered connections, there are at
  most the configured number of connections, and a further poll neither raises nor leaves a
  connection whose deadline has passed.\<close>

theorem http_server_invariant:
  assumes "http_run handler (new_http_server cfg, hst0) (s, hst)" "handles_fresh handler now items s hst"
  shows "server_ok s \<and>
    (\<exists>s' hst'. poll_once handler now items s hst = Inr (s', hst') \<and>
       (\<forall>h c. lookup s' h = Some c \<longrightarrow> now < connection_deadline cfg c))"
proof -
  have ok: "server_ok s" "advances (new_http_server cfg) s"
    using http_run_ok [OF assms(1)] new_http_server_ok by auto
  obtain s' hst' where "poll_once handler now items s hst = Inr (s', hst')" "advances s s'"
    "\<forall>h c. lookup s' h = Some c \<longrightarrow> now < connection_deadline (hs_config s') c"
    using poll_once_ok [OF ok(1) assms(2)] by blast
  then show ?thesis
    using ok by (auto simp: advances_def new_http_server_def)
qed

theorem http_server_invariant_witness:
  "server_ok example_accepted \<and> length (hs_connections example_accepted) = 1 \<and>
   (\<exists>s' hst'. poll_once deferring (seconds 100) [] example_accepted 0 = Inr (s', hst') \<and>
      (\<forall>h c. lookup s' h = Some c \<longrightarrow> seconds 100 < connection_deadline example_http_config c))"
  using http_server_invariant [OF example_accepted_run, of "seconds 100" "[]"]
  by (simp add: example_accepted_def new_http_server_def example_http_config_def)

text \<open>C18. A deferred response is delivered at most once: after a token was completed, no later
  completion with that token is accepted, whatever happens in between.\<close>

theorem completed_at_most_once:
  assumes "server_ok s" "complete_response handler now writes token response s hst = Inr (True, s1, hst1)"
    "http_run handler (s1, hst1) (s2, hst2)"
  shows "complete_response handler now' writes' token response' s2 hst2 = Inr (False, s2, hst2)"
proof -
  have one: "server_ok s1" "advances s s1" "hs_awaiting s1 token = None" "hs_awaiting s token \<noteq> None"
    using complete_response_ok [OF assms(1), of handler now writes token response hst] assms(2) by auto
  have "token < hs_next_token s"
    using assms(1) one(4) unfolding server_ok_def by blast
  then have "token < hs_next_token s1"
    using one(2) by (simp add: advances_def)
  then have "hs_awaiting s2 token = None"
    using http_run_ok [OF assms(3)] one(1,3) by (simp add: advances_def)
  then show ?thesis
    by (simp add: complete_response_def)
qed

definition example_awaiting :: http_server where
  "example_awaiting =
     \<lparr>hs_config = example_http_config,
      hs_connections = [(5, (new_http_connection example_http_config 0)
        \<lparr>hc_awaiting := Some 1, hc_awaiting_keep_alive := False\<rparr>)],
      hs_interest = [5 \<mapsto> (True, False)], hs_next_token = 2, hs_awaiting = [1 \<mapsto> 5]\<rparr>"

lemma example_awaiting_ok: "server_ok example_awaiting"
  by (auto simp: server_ok_def example_awaiting_def http_conn_ok_def new_http_connection_def
      example_http_config_def conn_ok_def)

definition queued_response :: http_response where
  "queued_response = \<lparr>rs_status = 202, rs_headers = [], rs_body = []\<rparr>"

lemma example_complete:
  "\<exists>s1. complete_response deferring 0 [] 1 queued_response example_awaiting 0 = Inr (True, s1, 0)"
proof -
  have "serialize_http1_response queued_response False =
      ''HTTP/1.1 '' @ show_int 202 @ '' '' @ ''Accepted'' @ crlf @ ''Content-Length: '' @ show_nat 0 @ crlf @
      ''Connection: close'' @ crlf @ crlf"
    by (simp add: serialize_http1_response_def queued_response_def reason_phrase_def Let_def)
  moreover have "show_int 202 = ''202''" "show_nat 0 = ''0''"
    by code_simp+
  ultimately have "length (serialize_http1_response queued_response False) \<le> 65536"
    by simp
  then show ?thesis
    by (simp add: complete_response_def example_awaiting_def queue_response_def queue_bytes_def
        new_http_connection_def example_http_config_def parse_and_dispatch.simps
        flush_and_settle_def Let_def fits_pending_output_def readable_bytes_def new_buffer_def)
qed

theorem completed_at_most_once_witness:
  "\<exists>s1. complete_response deferring 0 [] 1 queued_response example_awaiting 0 = Inr (True, s1, 0) \<and>
     complete_response deferring 7 [] 1 queued_response s1 0 = Inr (False, s1, 0)"
proof -
  obtain s1 where first: "complete_response deferring 0 [] 1 queued_response example_awaiting 0 = Inr (True, s1, 0)"
    using example_complete by blast
  then show ?thesis
    using completed_at_most_once [OF example_awaiting_ok first http_run.start, of 7 "[]" queued_response] by auto
qed

text \<open>While a response is pending nothing of the pipeline moves: an event on a connection
  that awaits a deferred response, if it does not close it, calls no handler, parses no
  request and adds nothing to the stream of the responses.\<close>

lemma deferred_blocks_pipeline:
  assumes "server_ok s" "lookup s h = Some c" "hc_awaiting c = Some t"
    and "service_connection handler h now ev io (c, s) hst = Inr (s', hst')" "lookup s' h = Some c'"
  shows "hc_awaiting c' = Some t \<and> hc_parser c' = hc_parser c \<and> output_stream c' = output_stream c \<and>
    hst' = hst"
proof -
  have "in_hand h c s"
    by (rule in_hand_lookup [OF assms(1,2)])
  then obtain d where d: "in_hand h d s" "service_ready handler h now ev io (d, s) hst = Inr (s', hst')"
    "same_requests c d"
    using service_connection_ready [OF _ assms(4,5)] by blast
  have "hc_awaiting d = Some t"
    using d(3) assms(3) by (simp add: same_requests_def)
  from service_ready_awaiting [OF d(1,2) assms(5) this] this d(3)
  show ?thesis
    by (simp add: same_requests_def)
qed

definition one_byte :: http_io where
  "one_byte = \<lparr>io_handshake = Ready, io_reads = [Ssl_data [71]], io_writes = []\<rparr>"

definition readable :: ready_event where
  "readable = \<lparr>ev_readable = True, ev_writable = False, ev_error = False\<rparr>"

lemma example_awaiting_event:
  "\<exists>c s' c'. lookup example_awaiting 5 = Some c \<and> hc_awaiting c = Some 1 \<and>
     service_connection deferring 5 9 readable one_byte (c, example_awaiting) 0 = Inr (s', 0) \<and>
     lookup s' 5 = Some c'"
  by (simp add: example_awaiting_def new_http_connection_def example_http_config_def
      service_connection_def service_ready_def one_byte_def readable_def receive_input_def
      append_input_def max_input_bytes_def parse_and_dispatch.simps flush_and_settle_def
      settle_connection_def update_interest_def put_connection_def has_pending_output_def Let_def
      new_request_parser_def bb_empty_def readable_bytes_def
      bb_append_def readable_data_def new_buffer_def)

lemma deferred_blocks_pipeline_witness:
  "\<exists>c s' c'. lookup example_awaiting 5 = Some c \<and>
     service_connection deferring 5 9 readable one_byte (c, example_awaiting) 0 = Inr (s', 0) \<and>
     lookup s' 5 = Some c' \<and> hc_awaiting c' = Some 1 \<and> output_stream c' = output_stream c"
proof -
  obtain c s' c' where e: "lookup example_awaiting 5 = Some c" "hc_awaiting c = Some 1"
    "service_connection deferring 5 9 readable one_byte (c, example_awaiting) 0 = Inr (s', 0)"
    "lookup s' 5 = Some c'"
    using example_awaiting_event by blast
  show ?thesis
    using deferred_blocks_pipeline [OF example_awaiting_ok e] e by blast
qed






text \<open>Every connection is given the parser's own limits, whatever the configuration says.\<close>

lemma parser_ignores_configuration:
  "hp_max_head (hc_parser (new_http_connection cfg now)) = 8192 \<and>
   hp_max_body (hc_parser (new_http_connection cfg now)) = 16384"
  by (simp add: new_http_connection_def new_request_parser_def)

end
