(* ===== verification/Queue_Store.thy ===== *)
theory Queue_Store
  imports Queue_Ticketing Etcd_Server "HOL-Library.Sublist"
begin

text \<open>
  The store of the queue state (\<open>game/queue/src/queue_store.cpp\<close>): budgets, the snapshot and
  the issuance mappings in etcd, reached over its JSON gateway. The gateway is a function of
  path and body with its own state \<open>'w\<close>: it may answer anything or nothing. JSON text is
  parsed and printed by functions of the environment; every \<open>Json::exception\<close> that the code
  does not catch is an \<open>Inl\<close>.
\<close>

section \<open>Ranges\<close>

record range_page =
  rp_entries :: "(string \<times> string) list"
  rp_more :: bool

definition range_request :: "string \<Rightarrow> string \<Rightarrow> u64 \<Rightarrow> json" where
  "range_request key range_end limit =
     J_object ([(''key'', J_string (base64_encode key))] @
       (if range_end \<noteq> [] then [(''range_end'', J_string (base64_encode range_end))] else []) @
       (if 0 < limit then [(''limit'', J_string (show_nat (unat limit)))] else []))"

fun page_entries :: "json list \<Rightarrow> (string \<times> string) list \<Rightarrow> error + (string \<times> string) list option" where
  "page_entries [] entries = Inr (Some entries)"
| "page_entries (entry # rest) entries =
     (if \<not> is_object entry then Inr None
      else case string_member entry ''key'' of
             Inl e \<Rightarrow> Inl e
           | Inr key_text \<Rightarrow>
               (case string_member entry ''value'' of
                  Inl e \<Rightarrow> Inl e
                | Inr value_text \<Rightarrow>
                    (case (base64_decode key_text, base64_decode value_text) of
                       (Some key, Some val) \<Rightarrow> page_entries rest (entries @ [(key, val)])
                     | _ \<Rightarrow> Inr None)))"

definition decode_page :: "json \<Rightarrow> error + range_page option" where
  "decode_page response =
     (if \<not> is_object response \<or> json_find response ''error'' \<noteq> None then Inr None
      else case json_find response ''more'' of
             Some (J_bool has_more) \<Rightarrow>
               (case json_find response ''kvs'' of
                  None \<Rightarrow> Inr (if has_more then None else Some \<lparr>rp_entries = [], rp_more = has_more\<rparr>)
                | Some (J_array entries) \<Rightarrow>
                    map_sum id (map_option (\<lambda>kvs. \<lparr>rp_entries = kvs, rp_more = has_more\<rparr>)) (page_entries entries [])
                | Some _ \<Rightarrow> Inr None)
           | Some _ \<Rightarrow> Inr None
           | None \<Rightarrow>
               (case json_find response ''kvs'' of
                  None \<Rightarrow> Inr (Some \<lparr>rp_entries = [], rp_more = False\<rparr>)
                | Some (J_array entries) \<Rightarrow>
                    map_sum id (map_option (\<lambda>kvs. \<lparr>rp_entries = kvs, rp_more = False\<rparr>)) (page_entries entries [])
                | Some _ \<Rightarrow> Inr None))"

definition load_page ::
  "'w etcd \<Rightarrow> string \<Rightarrow> string \<Rightarrow> u64 \<Rightarrow> 'w \<Rightarrow> (error + range_page option) \<times> 'w" where
  "load_page env key range_end limit w =
     (case etcd_post env ''/v3/kv/range'' (etcd_dump env (range_request key range_end limit)) w of
        (None, w') \<Rightarrow> (Inr None, w')
      | (Some body, w') \<Rightarrow>
          (case etcd_parse env body of
             None \<Rightarrow> Inr None
           | Some response \<Rightarrow> decode_page response, w'))"

definition load_range ::
  "'w etcd \<Rightarrow> string \<Rightarrow> string \<Rightarrow> 'w \<Rightarrow> (error + (string \<times> string) list option) \<times> 'w" where
  "load_range env key range_end w =
     (case load_page env key range_end 0 w of
        (Inl e, w') \<Rightarrow> (Inl e, w')
      | (Inr None, w') \<Rightarrow> (Inr None, w')
      | (Inr (Some page), w') \<Rightarrow> (Inr (if rp_more page then None else Some (rp_entries page)), w'))"

section \<open>Fields\<close>

definition budget_integer :: "json \<Rightarrow> string \<Rightarrow> u64 option" where
  "budget_integer j key =
     (case json_find j key of
        Some (J_unsigned n) \<Rightarrow> Some n
      | Some (J_string digits) \<Rightarrow>
          (if digits = [] \<or> hd digits = CHR ''-'' then None
           else map_option word_of_nat (decimal_loop (2 ^ 64 - 1) 0 digits))
      | _ \<Rightarrow> None)"

definition snapshot_time :: "json \<Rightarrow> string \<Rightarrow> int option" where
  "snapshot_time j key =
     (case json_find j key of
        Some (J_unsigned n) \<Rightarrow> (if 2 ^ 63 - 1 < uint n then None else Some (uint n))
      | Some (J_integer i) \<Rightarrow> (if i < 0 then None else Some i)
      | _ \<Rightarrow> None)"

section \<open>Snapshots\<close>

definition batch_json :: "queue_release_batch \<Rightarrow> json" where
  "batch_json b =
     J_object [(''first_number'', J_unsigned (rb_first b)), (''last_number'', J_unsigned (rb_last b)),
       (''released_at'', J_integer (epoch_seconds (rb_released_at b)))]"

definition snapshot_json :: "queue_snapshot \<Rightarrow> int \<Rightarrow> error + json" where
  "snapshot_json s updated_at =
     (case snapshot_validate s of
        Inl e \<Rightarrow> Inl e
      | Inr _ \<Rightarrow>
          Inr (J_object
            [(''released_number'', J_unsigned (qs_released s)), (''next_number'', J_unsigned (qs_next s)),
             (''admit_rate'', J_unsigned (qs_admit_rate s)),
             (''release_batches_pruned_through'', J_unsigned (qs_pruned s)),
             (''release_batches'', J_array (map batch_json (qs_batches s))),
             (''updated_at'', J_integer updated_at)]))"

fun decode_batches :: "json list \<Rightarrow> queue_release_batch list option" where
  "decode_batches [] = Some []"
| "decode_batches (batch # rest) =
     (if \<not> is_object batch \<or> json_size batch \<noteq> 3 then None
      else case (budget_integer batch ''first_number'', budget_integer batch ''last_number'',
                 snapshot_time batch ''released_at'') of
             (Some first, Some last_number, Some released_at) \<Rightarrow>
               map_option
                 (\<lambda>bs. \<lparr>rb_first = first, rb_last = last_number, rb_released_at = seconds released_at\<rparr> # bs)
                 (decode_batches rest)
           | _ \<Rightarrow> None)"

definition decode_ledger :: "json \<Rightarrow> u64 \<Rightarrow> (u64 \<times> queue_release_batch list) option" where
  "decode_ledger snapshot released =
     (case (json_find snapshot ''release_batches_pruned_through'', json_find snapshot ''release_batches'') of
        (None, None) \<Rightarrow> Some (released, [])
      | (Some _, Some (J_array batches)) \<Rightarrow>
          (case budget_integer snapshot ''release_batches_pruned_through'' of
             None \<Rightarrow> None
           | Some pruned \<Rightarrow> map_option (Pair pruned) (decode_batches batches))
      | _ \<Rightarrow> None)"

definition decode_snapshot_value :: "json_parser \<Rightarrow> string \<Rightarrow> queue_snapshot option" where
  "decode_snapshot_value parse encoded =
     (case parse encoded of
        None \<Rightarrow> None
      | Some snapshot \<Rightarrow>
          (case (budget_integer snapshot ''released_number'', budget_integer snapshot ''next_number'',
                 budget_integer snapshot ''admit_rate'') of
             (Some released, Some next_number, Some rate) \<Rightarrow>
               if next_number \<le> released then None
               else (case decode_ledger snapshot released of
                       None \<Rightarrow> None
                     | Some (pruned, batches) \<Rightarrow>
                         let result = \<lparr>qs_released = released, qs_next = next_number, qs_admit_rate = rate,
                                       qs_pruned = pruned, qs_batches = batches\<rparr>
                         in case snapshot_validate result of Inl _ \<Rightarrow> None | Inr _ \<Rightarrow> Some result)
           | _ \<Rightarrow> None))"

section \<open>Issuance records\<close>

definition transaction_range_value :: "json \<Rightarrow> nat \<Rightarrow> string \<Rightarrow> error + string option" where
  "transaction_range_value response index expected_key =
     (case json_find response ''responses'' of
        Some (J_array responses) \<Rightarrow>
          (if length responses \<le> index then Inr None
           else case json_find (responses ! index) ''response_range'' of
                  Some (J_object members) \<Rightarrow>
                    (case json_find (J_object members) ''kvs'' of
                       Some (J_array [entry]) \<Rightarrow>
                         (case string_member entry ''key'' of
                            Inl e \<Rightarrow> Inl e
                          | Inr key_text \<Rightarrow>
                              (case string_member entry ''value'' of
                                 Inl e \<Rightarrow> Inl e
                               | Inr value_text \<Rightarrow>
                                   Inr (if base64_decode key_text = Some expected_key
                                        then base64_decode value_text else None)))
                     | _ \<Rightarrow> Inr None)
                | _ \<Rightarrow> Inr None)
      | _ \<Rightarrow> Inr None)"

definition recovered_issue_result ::
  "json_parser \<Rightarrow> json \<Rightarrow> string \<Rightarrow> string \<Rightarrow> int \<Rightarrow> error + queue_issue_result option" where
  "recovered_issue_result parse response issuance_key snapshot_key expires_at =
     (case transaction_range_value response 0 issuance_key of
        Inl e \<Rightarrow> Inl e
      | Inr issuance \<Rightarrow>
          (case transaction_range_value response 1 snapshot_key of
             Inl e \<Rightarrow> Inl e
           | Inr snapshot \<Rightarrow>
               (case (issuance, snapshot) of
                  (Some issuance_text, Some snapshot_text) \<Rightarrow>
                    (case parse issuance_text of
                       None \<Rightarrow> Inl (Json_error ''parse error'')
                     | Some j \<Rightarrow>
                         Inr (if \<not> is_object j \<or> json_size j \<noteq> 3 then None
                              else case (budget_integer j ''number'', snapshot_time j ''issued_at'',
                                         snapshot_time j ''identity_expires_at'',
                                         decode_snapshot_value parse snapshot_text) of
                                     (Some number, Some issued, Some expires, Some recovered) \<Rightarrow>
                                       if expires \<noteq> expires_at \<or> expires \<le> issued \<or> qs_next recovered \<le> number
                                       then None
                                       else Some \<lparr>qis_status = Queue_recovered, qis_number = number,
                                              qis_issued_at = seconds issued, qis_snapshot = recovered\<rparr>
                                   | _ \<Rightarrow> None))
                | _ \<Rightarrow> Inr None)))"

definition issuance_digest :: "sodium \<Rightarrow> generic_hash \<Rightarrow> string \<Rightarrow> error + string" where
  "issuance_digest na hash identity_jti =
     (if \<not> init_ok na then Inl sodium_failure
      else case hash 16 (as_bytes identity_jti) of
             None \<Rightarrow> Inl (Runtime_error ''failed to derive queue issuance digest'')
           | Some digest \<Rightarrow> Inr (digest_hex digest))"

definition corrupt_mapping :: error where
  "corrupt_mapping = Runtime_error ''queue issuance state check failed: corrupt mapping''"

fun check_mappings ::
  "json_parser \<Rightarrow> string \<Rightarrow> u64 \<Rightarrow> (string \<times> string) list \<Rightarrow> u64 set \<Rightarrow> error + u64 set" where
  "check_mappings parse key_prefix next_number [] active = Inr active"
| "check_mappings parse key_prefix next_number ((key, val) # rest) active =
     (let suffix = drop (min (length key) (length key_prefix)) key
      in if \<not> (prefix key_prefix key \<and> length suffix = 32 \<and> list_all lower_hex suffix)
         then Inl (Runtime_error ''queue issuance state check failed: corrupt key'')
         else case parse val of
                None \<Rightarrow> Inl corrupt_mapping
              | Some j \<Rightarrow>
                  (case (budget_integer j ''number'', snapshot_time j ''issued_at'',
                         snapshot_time j ''identity_expires_at'') of
                     (Some number, Some issued, Some expires) \<Rightarrow>
                       if \<not> is_object j \<or> json_size j \<noteq> 3 \<or> number = 0 \<or> next_number \<le> number \<or>
                          expires \<le> issued \<or> number \<in> active
                       then Inl corrupt_mapping
                       else check_mappings parse key_prefix next_number rest (insert number active)
                   | _ \<Rightarrow> Inl corrupt_mapping))"

text \<open>Every page with more to come brings a number below the next one that was not seen before,
  so the loop ends whatever etcd answers.\<close>

lemma check_mappings_Cons:
  assumes "check_mappings parse key_prefix next_number ((key, val) # rest) active = Inr active'"
  shows "\<exists>n. 0 < n \<and> n < next_number \<and> n \<notin> active \<and>
     check_mappings parse key_prefix next_number rest (insert n active) = Inr active'"
  using assms
  by (auto simp: Let_def word_gt_0 not_le split: if_splits option.splits)

declare check_mappings.simps(2) [simp del]

lemma check_mappings_active:
  "check_mappings parse key_prefix next_number entries active = Inr active' \<Longrightarrow>
     active \<subseteq> active' \<and> active' - active \<subseteq> {0<..<next_number} \<and>
     (entries \<noteq> [] \<longrightarrow> (\<exists>n. n \<in> active' - active))"
proof (induction entries arbitrary: active)
  case (Cons entry rest)
  obtain n where n: "0 < n" "n < next_number" "n \<notin> active"
    "check_mappings parse key_prefix next_number rest (insert n active) = Inr active'"
    using check_mappings_Cons [of parse key_prefix next_number "fst entry" "snd entry" rest active active']
      Cons.prems by auto
  have "insert n active \<subseteq> active'" "active' - insert n active \<subseteq> {0<..<next_number}"
    using Cons.IH [OF n(4)] by simp_all
  then show ?case
    using n(1-3) by auto
qed simp

text \<open>The numbers that are still free below \<open>next_number\<close>.\<close>

definition free_numbers :: "u64 \<Rightarrow> u64 set \<Rightarrow> u64 set" where
  "free_numbers next_number active = {0<..<next_number} - active"

lemma free_numbers_decrease:
  assumes "check_mappings parse key_prefix next_number entries active = Inr active'" "entries \<noteq> []"
  shows "card (free_numbers next_number active') < card (free_numbers next_number active)"
  using check_mappings_active [OF assms(1)] assms(2)
  by (intro psubset_card_mono) (auto simp: free_numbers_def)

function check_issuance ::
  "'w etcd \<Rightarrow> string \<Rightarrow> string \<Rightarrow> u64 \<Rightarrow> string \<Rightarrow> u64 set \<Rightarrow> 'w \<Rightarrow> (error + unit) \<times> 'w" where
  "check_issuance env key_prefix range_end next_number range_start active w =
     (case load_page env range_start range_end 1024 w of
        (Inl e, w') \<Rightarrow> (Inl e, w')
      | (Inr None, w') \<Rightarrow> (Inl (Runtime_error ''queue issuance state check failed: etcd unavailable''), w')
      | (Inr (Some page), w') \<Rightarrow>
          (case check_mappings (etcd_parse env) key_prefix next_number (rp_entries page) active of
             Inl e \<Rightarrow> (Inl e, w')
           | Inr active' \<Rightarrow>
               if \<not> rp_more page then (Inr (), w')
               else if rp_entries page = []
               then (Inl (Runtime_error ''queue issuance state check failed: invalid pagination''), w')
               else check_issuance env key_prefix range_end next_number
                      (fst (last (rp_entries page)) @ [CHR 0x00]) active' w'))"
  by pat_completeness auto
termination
  by (relation "measure (\<lambda>(env, key_prefix, range_end, next_number, range_start, active, w).
        card (free_numbers next_number active))") (auto intro: free_numbers_decrease)

declare check_issuance.simps [simp del]

definition validate_issuance_state ::
  "'w etcd \<Rightarrow> string \<Rightarrow> queue_snapshot \<Rightarrow> 'w \<Rightarrow> (error + unit) \<times> 'w" where
  "validate_issuance_state env issuance_prefix snapshot w =
     (let key_prefix = issuance_prefix @ ''/''
      in check_issuance env key_prefix (prefix_range_end key_prefix) (qs_next snapshot) key_prefix {} w)"

section \<open>The store\<close>

record etcd_queue_store =
  eqs_budget_prefix :: string
  eqs_snapshot_key :: string
  eqs_issuance_prefix :: string
  eqs_leases :: "int \<rightharpoonup> int"
  eqs_uncertain :: bool

fun drop_slashes :: "string \<Rightarrow> string" where
  "drop_slashes [] = []"
| "drop_slashes (c # reversed) =
     (if reversed \<noteq> [] \<and> c = CHR ''/'' then drop_slashes reversed else c # reversed)"

definition new_queue_store :: "string \<Rightarrow> string \<Rightarrow> string \<Rightarrow> error + etcd_queue_store" where
  "new_queue_store budget_prefix snapshot_key issuance_prefix =
     (let budget = rev (drop_slashes (rev budget_prefix));
          issuance = rev (drop_slashes (rev issuance_prefix))
      in if budget = [] \<or> snapshot_key = [] \<or> issuance = []
         then Inl (Invalid_argument ''invalid etcd queue store options'')
         else Inr \<lparr>eqs_budget_prefix = budget, eqs_snapshot_key = snapshot_key,
                eqs_issuance_prefix = issuance, eqs_leases = Map.empty, eqs_uncertain = False\<rparr>)"

definition unavailable_issue :: queue_issue_result where
  "unavailable_issue =
     \<lparr>qis_status = Queue_unavailable, qis_number = 0, qis_issued_at = 0,
      qis_snapshot = \<lparr>qs_released = 0, qs_next = 1, qs_admit_rate = 0, qs_pruned = 0, qs_batches = []\<rparr>\<rparr>"

text \<open>The lease of a bucket: the one on hand, otherwise a new one from etcd.\<close>

definition acquire_lease ::
  "'w etcd \<Rightarrow> (int \<rightharpoonup> int) \<Rightarrow> int \<Rightarrow> int \<Rightarrow> 'w \<Rightarrow> (int \<times> (int \<rightharpoonup> int)) option \<times> 'w" where
  "acquire_lease env leases bucket issued_at w =
     (case leases bucket of
        Some lease \<Rightarrow> (Some (lease, leases), w)
      | None \<Rightarrow>
          (case etcd_post env ''/v3/lease/grant''
                  (etcd_dump env (J_object [(''TTL'', J_string (show_int (bucket - issued_at)))])) w of
             (None, w') \<Rightarrow> (None, w')
           | (Some response, w') \<Rightarrow>
               (case etcd_parse env response of
                  None \<Rightarrow> None
                | Some body \<Rightarrow>
                    (case budget_integer body ''ID'' of
                       None \<Rightarrow> None
                     | Some lease_id \<Rightarrow>
                         if lease_id = 0 \<or> 2 ^ 63 - 1 < uint lease_id then None
                         else Some (uint lease_id, leases(bucket \<mapsto> uint lease_id))), w')))"

definition range_operation :: "string \<Rightarrow> json" where
  "range_operation key = J_object [(''requestRange'', J_object [(''key'', J_string (base64_encode key))])]"

definition issue_transaction :: "string \<Rightarrow> string \<Rightarrow> string \<Rightarrow> string \<Rightarrow> int \<Rightarrow> json" where
  "issue_transaction snapshot_key snapshot_value issuance_key issuance_value lease =
     J_object
       [(''compare'', J_array [J_object
           [(''key'', J_string (base64_encode issuance_key)), (''target'', J_string ''VERSION''),
            (''result'', J_string ''EQUAL''), (''version'', J_integer 0)]]),
        (''success'', J_array
          [J_object [(''requestPut'', J_object
             [(''key'', J_string (base64_encode snapshot_key)),
              (''value'', J_string (base64_encode snapshot_value))])],
           J_object [(''requestPut'', J_object
             [(''key'', J_string (base64_encode issuance_key)),
              (''value'', J_string (base64_encode issuance_value)),
              (''lease'', J_string (show_int lease))])]]),
        (''failure'', J_array [range_operation issuance_key, range_operation snapshot_key])]"

definition read_transaction :: "string \<Rightarrow> string \<Rightarrow> json" where
  "read_transaction snapshot_key issuance_key =
     J_object [(''success'', J_array [range_operation issuance_key, range_operation snapshot_key])]"

text \<open>What a compare miss or a lost answer is read as: the earlier issue, or uncertainty.\<close>

definition recover_or_fail ::
  "json_parser \<Rightarrow> json option \<Rightarrow> string \<Rightarrow> int \<Rightarrow> etcd_queue_store \<Rightarrow> queue_issue_result \<times> etcd_queue_store" where
  "recover_or_fail parse response issuance_key expires_at store =
     (let uncertain = (unavailable_issue, store\<lparr>eqs_uncertain := True\<rparr>)
      in case response of
           None \<Rightarrow> uncertain
         | Some body \<Rightarrow>
             (case recovered_issue_result parse body issuance_key (eqs_snapshot_key store) expires_at of
                Inr (Some recovered) \<Rightarrow> (recovered, store)
              | _ \<Rightarrow> uncertain))"

definition issue_committed ::
  "'w etcd \<Rightarrow> sodium \<Rightarrow> generic_hash \<Rightarrow> queue_issue_request \<Rightarrow> int \<Rightarrow> etcd_queue_store \<Rightarrow> 'w \<Rightarrow>
     (error + queue_issue_result) \<times> etcd_queue_store \<times> 'w" where
  "issue_committed env na hash request lease store w =
     (let issued_at = epoch_seconds (qir_issued_at request);
          expires_at = epoch_seconds (qir_identity_expires_at request);
          number = qs_next (qir_snapshot request);
          committed = (qir_snapshot request)\<lparr>qs_next := number + 1\<rparr>
      in case snapshot_json committed issued_at of
           Inl e \<Rightarrow> (Inl e, store, w)
         | Inr snapshot_value \<Rightarrow>
             (case issuance_digest na hash (qir_identity_jti request) of
                Inl e \<Rightarrow> (Inl e, store, w)
              | Inr digest \<Rightarrow>
                  (let issuance_key = eqs_issuance_prefix store @ ''/'' @ digest;
                       issuance_value = J_object
                         [(''number'', J_unsigned number), (''issued_at'', J_integer issued_at),
                          (''identity_expires_at'', J_integer expires_at)];
                       transaction = issue_transaction (eqs_snapshot_key store)
                         (etcd_dump env snapshot_value) issuance_key (etcd_dump env issuance_value) lease;
                       recover = (\<lambda>body. recover_or_fail (etcd_parse env) body issuance_key expires_at store)
                   in case etcd_post env ''/v3/kv/txn'' (etcd_dump env transaction) w of
                        (None, w1) \<Rightarrow>
                          (case etcd_post env ''/v3/kv/txn''
                                  (etcd_dump env (read_transaction (eqs_snapshot_key store) issuance_key)) w1 of
                             (response, w2) \<Rightarrow>
                               (case recover (Option.bind response (etcd_parse env)) of
                                  (result, store') \<Rightarrow> (Inr result, store', w2)))
                      | (Some response, w1) \<Rightarrow>
                          (case etcd_parse env response of
                             None \<Rightarrow> (Inr unavailable_issue, store\<lparr>eqs_uncertain := True\<rparr>, w1)
                           | Some body \<Rightarrow>
                               (case json_find body ''succeeded'' of
                                  Some (J_bool True) \<Rightarrow>
                                    (Inr \<lparr>qis_status = Queue_issued, qis_number = number,
                                       qis_issued_at = seconds issued_at, qis_snapshot = committed\<rparr>, store, w1)
                                | None \<Rightarrow>
                                    (case recover (Some body) of (result, store') \<Rightarrow> (Inr result, store', w1))
                                | Some (J_bool False) \<Rightarrow>
                                    (case recover (Some body) of (result, store') \<Rightarrow> (Inr result, store', w1))
                                | Some _ \<Rightarrow> (Inr unavailable_issue, store\<lparr>eqs_uncertain := True\<rparr>, w1))))))"

definition issue_or_recover ::
  "'w etcd \<Rightarrow> sodium \<Rightarrow> generic_hash \<Rightarrow> queue_issue_request \<Rightarrow> etcd_queue_store \<Rightarrow> 'w \<Rightarrow>
     (error + queue_issue_result) \<times> etcd_queue_store \<times> 'w" where
  "issue_or_recover env na hash request store w =
     (if eqs_uncertain store then (Inr unavailable_issue, store, w)
      else case snapshot_validate (qir_snapshot request) of
             Inl e \<Rightarrow> (Inl e, store, w)
           | Inr _ \<Rightarrow>
               (let issued_at = epoch_seconds (qir_issued_at request);
                    expires_at = epoch_seconds (qir_identity_expires_at request)
                in if qir_identity_jti request = [] \<or> issued_at < 0 \<or> expires_at \<le> issued_at \<or>
                      qs_next (qir_snapshot request) = - 1
                   then (Inl (Invalid_argument ''invalid queue issuance request''), store, w)
                   else let bucket = (expires_at + 60 - 1) div 60 * 60;
                            leases = (\<lambda>b. if b \<le> issued_at then None else eqs_leases store b)
                        in case acquire_lease env leases bucket issued_at w of
                             (None, w1) \<Rightarrow> (Inr unavailable_issue, store\<lparr>eqs_leases := leases\<rparr>, w1)
                           | (Some (lease, leases'), w1) \<Rightarrow>
                               issue_committed env na hash request lease (store\<lparr>eqs_leases := leases'\<rparr>) w1))"

section \<open>Budgets and snapshot\<close>

definition gateway_budgets :: "json_parser \<Rightarrow> (string \<times> string) list \<Rightarrow> gateway_budget list" where
  "gateway_budgets parse kvs =
     List.map_filter (\<lambda>(key, text_value).
       case parse text_value of
         None \<Rightarrow> None
       | Some budget \<Rightarrow>
           (case (budget_integer budget ''conn_free'', budget_integer budget ''fetch_free'') of
              (Some conn_free, Some fetch_free) \<Rightarrow>
                Some \<lparr>gw_conn_free = conn_free, gw_fetch_free = fetch_free\<rparr>
            | _ \<Rightarrow> None)) kvs"

definition realm_budgets :: "json_parser \<Rightarrow> (string \<times> string) list \<Rightarrow> realm_budget list" where
  "realm_budgets parse kvs =
     List.map_filter (\<lambda>(key, text_value).
       case parse text_value of
         None \<Rightarrow> None
       | Some budget \<Rightarrow>
           map_option (\<lambda>conn_free. \<lparr>rb_conn_free = conn_free\<rparr>) (budget_integer budget ''conn_free'')) kvs"

definition refresh_budgets ::
  "'w etcd \<Rightarrow> etcd_queue_store \<Rightarrow> 'w \<Rightarrow> (error + budget_aggregate option) \<times> 'w" where
  "refresh_budgets env store w =
     (let gateway_prefix = eqs_budget_prefix store @ ''/gateway/'';
          realm_prefix = eqs_budget_prefix store @ ''/realm/''
      in case load_range env gateway_prefix (prefix_range_end gateway_prefix) w of
           (Inl e, w1) \<Rightarrow> (Inl e, w1)
         | (Inr gateway_kvs, w1) \<Rightarrow>
             (case load_range env realm_prefix (prefix_range_end realm_prefix) w1 of
                (Inl e, w2) \<Rightarrow> (Inl e, w2)
              | (Inr realm_kvs, w2) \<Rightarrow>
                  (case (gateway_kvs, realm_kvs) of
                     (Some gateways, Some realms) \<Rightarrow>
                       Inr (Some (aggregate_budgets (gateway_budgets (etcd_parse env) gateways)
                              (realm_budgets (etcd_parse env) realms)))
                   | _ \<Rightarrow> Inr None, w2)))"

definition load_snapshot ::
  "'w etcd \<Rightarrow> etcd_queue_store \<Rightarrow> 'w \<Rightarrow> (error + queue_snapshot option) \<times> 'w" where
  "load_snapshot env store w =
     (case load_range env (eqs_snapshot_key store) [] w of
        (Inl e, w1) \<Rightarrow> (Inl e, w1)
      | (Inr None, w1) \<Rightarrow> (Inl (Runtime_error ''queue snapshot load failed: etcd unavailable''), w1)
      | (Inr (Some []), w1) \<Rightarrow>
          (let issuance_range = eqs_issuance_prefix store @ ''/''
           in case load_page env issuance_range (prefix_range_end issuance_range) 1 w1 of
                (Inl e, w2) \<Rightarrow> (Inl e, w2)
              | (Inr None, w2) \<Rightarrow>
                  (Inl (Runtime_error ''queue issuance state check failed: etcd unavailable''), w2)
              | (Inr (Some page), w2) \<Rightarrow>
                  (if rp_entries page \<noteq> []
                   then Inl (Runtime_error ''queue snapshot load failed: orphan issuance mappings'')
                   else Inr None, w2))
      | (Inr (Some ((key, text_value) # kvs)), w1) \<Rightarrow>
          (case decode_snapshot_value (etcd_parse env) text_value of
             None \<Rightarrow> (Inl (Runtime_error ''queue snapshot load failed: corrupt snapshot''), w1)
           | Some snapshot \<Rightarrow>
               (case validate_issuance_state env (eqs_issuance_prefix store) snapshot w1 of
                  (Inl e, w2) \<Rightarrow> (Inl e, w2)
                | (Inr _, w2) \<Rightarrow> (Inr (Some snapshot), w2))))"

definition save_snapshot ::
  "'w etcd \<Rightarrow> etcd_queue_store \<Rightarrow> queue_snapshot \<Rightarrow> int \<Rightarrow> 'w \<Rightarrow> (error + bool) \<times> 'w" where
  "save_snapshot env store snapshot updated_at w =
     (if eqs_uncertain store then (Inr False, w)
      else case snapshot_json snapshot updated_at of
             Inl e \<Rightarrow> (Inl e, w)
           | Inr j \<Rightarrow>
               (case etcd_post env ''/v3/kv/put''
                       (etcd_dump env (J_object
                          [(''key'', J_string (base64_encode (eqs_snapshot_key store))),
                           (''value'', J_string (base64_encode (etcd_dump env j)))])) w of
                  (body, w1) \<Rightarrow> (Inr (body \<noteq> None), w1)))"

section \<open>Round trip of the snapshot\<close>

text \<open>The stored snapshot keeps the release times to the second.\<close>

definition stored_batch :: "queue_release_batch \<Rightarrow> queue_release_batch" where
  "stored_batch b = b\<lparr>rb_released_at := seconds (epoch_seconds (rb_released_at b))\<rparr>"

definition stored_snapshot :: "queue_snapshot \<Rightarrow> queue_snapshot" where
  "stored_snapshot s = s\<lparr>qs_batches := map stored_batch (qs_batches s)\<rparr>"

definition stored_time :: "time_point \<Rightarrow> bool" where
  "stored_time t \<longleftrightarrow> 0 \<le> epoch_seconds t \<and> epoch_seconds t < 2 ^ 63"

lemma stored_batch_simps [simp]:
  "rb_first (stored_batch b) = rb_first b" "rb_last (stored_batch b) = rb_last b"
  "rb_released_at (stored_batch b) = seconds (epoch_seconds (rb_released_at b))"
  by (simp_all add: stored_batch_def)

lemma check_batches_stored:
  assumes "check_batches released bs expected previous = Some n"
    "rel_option (\<lambda>t' t. t' = seconds (epoch_seconds t)) previous' previous"
  shows "check_batches released (map stored_batch bs) expected previous' = Some n"
  using assms
proof (induction released bs expected previous arbitrary: previous' rule: check_batches.induct)
  case (2 released b bs expected previous)
  have "\<not> (case previous' of None \<Rightarrow> False | Some t \<Rightarrow> rb_released_at (stored_batch b) < t)"
    using 2(2,3) by (auto simp: not_less epoch_seconds_mono option_rel_Some1 option_rel_Some2
        split: option.splits if_splits)
  moreover have "check_batches released (map stored_batch bs) (rb_last b + 1) (Some (rb_released_at (stored_batch b))) =
      Some n"
    using 2(2) by (intro 2(1)) (auto split: if_splits)
  ultimately show ?case
    using 2(2) by (auto split: if_splits)
qed simp

lemma snapshot_validate_stored:
  "snapshot_validate s = Inr () \<Longrightarrow> snapshot_validate (stored_snapshot s) = Inr ()"
  using check_batches_stored [of "qs_released s" "qs_batches s" "qs_pruned s + 1" None _ None]
  by (auto simp: snapshot_validate_def stored_snapshot_def split: if_splits option.splits)

lemma decode_stored_batches:
  "\<forall>b \<in> set bs. stored_time (rb_released_at b) \<Longrightarrow>
     decode_batches (map (\<lambda>b. reread (batch_json b)) bs) = Some (map stored_batch bs)"
proof (induction bs)
  case (Cons b bs)
  have "word_of_int (epoch_seconds (rb_released_at b)) = (n :: u64) \<Longrightarrow>
      uint n = epoch_seconds (rb_released_at b)" for n
    using Cons.prems by (auto simp: stored_time_def uint_word_of_int_eq take_bit_int_eq_self)
  then show ?case
    using Cons by (auto simp: batch_json_def budget_integer_def snapshot_time_def stored_time_def stored_batch_def)
qed simp

lemma json_plain_batch: "stored_time (rb_released_at b) \<Longrightarrow> json_plain (batch_json b)"
  by (simp add: batch_json_def stored_time_def ascii_def)

lemma snapshot_round:
  assumes "json_library parse dump" "snapshot_json s t = Inr j" "\<forall>b \<in> set (qs_batches s). stored_time (rb_released_at b)"
    "0 \<le> t" "t < 2 ^ 63"
  shows "decode_snapshot_value parse (dump j) = Some (stored_snapshot s)"
proof -
  have plain: "json_plain j"
    using assms json_plain_batch
    by (auto simp: snapshot_json_def ascii_def list_all_iff split: sum.splits)
  have valid: "snapshot_validate s = Inr ()" and j: "j = J_object
            [(''released_number'', J_unsigned (qs_released s)), (''next_number'', J_unsigned (qs_next s)),
             (''admit_rate'', J_unsigned (qs_admit_rate s)),
             (''release_batches_pruned_through'', J_unsigned (qs_pruned s)),
             (''release_batches'', J_array (map batch_json (qs_batches s))),
             (''updated_at'', J_integer t)]"
    using assms(2) by (auto simp: snapshot_json_def split: sum.splits)
  have "qs_released s < qs_next s"
    using valid by (auto simp: snapshot_validate_def not_le split: if_splits)
  moreover have "\<lparr>qs_released = qs_released s, qs_next = qs_next s, qs_admit_rate = qs_admit_rate s,
      qs_pruned = qs_pruned s, qs_batches = map stored_batch (qs_batches s)\<rparr> = stored_snapshot s"
    by (simp add: stored_snapshot_def)
  ultimately show ?thesis
    using assms(1) plain snapshot_validate_stored [OF valid] decode_stored_batches [OF assms(3)]
    by (simp add: json_library_def decode_snapshot_value_def j budget_integer_def decode_ledger_def comp_def not_le)
qed

section \<open>Effort of the start-up check\<close>

text \<open>An environment that also counts its requests.\<close>

definition counting :: "'w etcd \<Rightarrow> ('w \<times> nat) etcd" where
  "counting env =
     \<lparr>etcd_parse = etcd_parse env, etcd_dump = etcd_dump env,
      etcd_post = (\<lambda>path body (w, n). case etcd_post env path body w of (r, w') \<Rightarrow> (r, (w', Suc n)))\<rparr>"

lemma load_page_counting:
  "load_page (counting env) key range_end limit (w, n) =
     (case load_page env key range_end limit w of (r, w') \<Rightarrow> (r, (w', Suc n)))"
  by (auto simp: load_page_def counting_def split: prod.splits option.splits)

lemma counting_parse [simp]: "etcd_parse (counting env) = etcd_parse env"
  by (simp add: counting_def)

lemma check_issuance_requests:
  "snd (snd (check_issuance (counting env) key_prefix range_end next_number range_start active (w, n))) \<le>
     Suc n + card (free_numbers next_number active)"
proof (induction env key_prefix range_end next_number range_start active w arbitrary: n
    rule: check_issuance.induct)
  case (1 env key_prefix range_end next_number range_start active w)
  obtain r w' where page: "load_page env range_start range_end 1024 w = (r, w')"
    by fastforce
  show ?case
  proof (cases "\<exists>page active'. r = Inr (Some page) \<and> rp_more page \<and> rp_entries page \<noteq> [] \<and>
      check_mappings (etcd_parse env) key_prefix next_number (rp_entries page) active = Inr active'")
    case False
    then show ?thesis
      by (auto simp: check_issuance.simps [of "counting env"] load_page_counting page
          split: sum.splits option.splits)
  next
    case True
    then obtain p active' where p: "r = Inr (Some p)" "rp_more p" "rp_entries p \<noteq> []"
      "check_mappings (etcd_parse env) key_prefix next_number (rp_entries p) active = Inr active'"
      by blast
    have "snd (snd (check_issuance (counting env) key_prefix range_end next_number
        (fst (last (rp_entries p)) @ [CHR 0x00]) active' (w', Suc n))) \<le>
        Suc (Suc n) + card (free_numbers next_number active')"
      using "1.IH" [of r w' "Some p" p active' "Suc n"] page p by simp
    moreover have "card (free_numbers next_number active') < card (free_numbers next_number active)"
      by (rule free_numbers_decrease [OF p(4,3)])
    ultimately show ?thesis
      using page p by (simp add: check_issuance.simps [of "counting env"] load_page_counting)
  qed
qed

lemma card_free_numbers: "card (free_numbers next_number {}) = unat next_number - 1"
proof -
  have "unat ` {0<..<next_number} = {0<..<unat next_number}"
  proof (intro equalityI subsetI)
    fix n assume "n \<in> {0<..<unat next_number}"
    then have "n < 2 ^ 64" and n: "0 < n" "n < unat next_number"
      using u64_unat_pow [of next_number] by (simp_all del: u64_unat_lt)
    then have "unat (word_of_nat n :: u64) = n"
      by (simp add: unsigned_of_nat take_bit_nat_eq_self)
    then have "(word_of_nat n :: u64) \<in> {0<..<next_number}" "n = unat (word_of_nat n :: u64)"
      using n by (simp_all add: word_less_nat_alt)
    then show "n \<in> unat ` {0<..<next_number}"
      by (rule rev_image_eqI)
  qed (auto simp: word_less_nat_alt)
  then have "card {0<..<next_number} = card {0<..<unat next_number}"
    using card_image [of unat "{0<..<next_number}"] by (simp add: inj_onI unsigned_word_eqI)
  then show ?thesis
    by (simp add: free_numbers_def)
qed

section \<open>Properties\<close>

text \<open>A stored snapshot is read as the one that was saved, its release times to the second,
  so a restart restores the watermarks and the ledger exactly.\<close>

lemma snapshot_value_round_trip:
  assumes "json_library parse dump" "snapshot_json s updated_at = Inr j"
    and "\<forall>b \<in> set (qs_batches s). stored_time (rb_released_at b)" "0 \<le> updated_at" "updated_at < 2 ^ 63"
  shows "decode_snapshot_value parse (dump j) = Some (stored_snapshot s)"
  by (rule snapshot_round [OF assms])

definition example_snapshot :: queue_snapshot where
  "example_snapshot =
     \<lparr>qs_released = 7, qs_next = 12, qs_admit_rate = 3, qs_pruned = 4,
      qs_batches = [\<lparr>rb_first = 5, rb_last = 7, rb_released_at = seconds 9 + 1\<rparr>]\<rparr>"

lemma example_snapshot_valid: "snapshot_validate example_snapshot = Inr ()"
  by (simp add: snapshot_validate_def example_snapshot_def)

lemma snapshot_value_round_trip_witness:
  "\<exists>j. snapshot_json example_snapshot 10 = Inr j \<and>
     decode_snapshot_value numbered_parse (numbered_dump j) =
       Some (example_snapshot\<lparr>qs_batches := [\<lparr>rb_first = 5, rb_last = 7, rb_released_at = seconds 9\<rparr>]\<rparr>)"
proof -
  obtain j where j: "snapshot_json example_snapshot 10 = Inr j"
    by (simp add: snapshot_json_def example_snapshot_valid)
  have "stored_snapshot example_snapshot =
      example_snapshot\<lparr>qs_batches := [\<lparr>rb_first = 5, rb_last = 7, rb_released_at = seconds 9\<rparr>]\<rparr>"
    by (simp add: stored_snapshot_def stored_batch_def example_snapshot_def epoch_seconds_def clock_defs)
  moreover have "\<forall>b \<in> set (qs_batches example_snapshot). stored_time (rb_released_at b)"
    by (simp add: example_snapshot_def stored_time_def epoch_seconds_def clock_defs)
  ultimately show ?thesis
    using snapshot_value_round_trip [OF numbered_library j] j by simp
qed

text \<open>C19. The start-up check of the issuance mappings ends whatever etcd answers, even if every
  page promises more: it makes at most as many requests as numbers were issued, plus one.\<close>

theorem issuance_check_terminates:
  "snd (snd (validate_issuance_state (counting env) issuance_prefix snapshot (w, n))) \<le>
     n + max 1 (unat (qs_next snapshot))"
proof -
  let ?range = "issuance_prefix @ ''/''"
  have "Suc n + (k - 1) \<le> n + max 1 k" for k :: nat
    by simp
  then show ?thesis
    using check_issuance_requests [of env ?range "prefix_range_end ?range" "qs_next snapshot" ?range "{}" w n]
    unfolding validate_issuance_state_def Let_def card_free_numbers by (rule order_trans [rotated])
qed

text \<open>An uncertain store neither gives a number nor writes a snapshot nor asks etcd.\<close>

lemma uncertain_store_is_silent:
  assumes "eqs_uncertain store"
  shows "issue_or_recover env na hash request store w = (Inr unavailable_issue, store, w)"
    and "save_snapshot env store snapshot updated_at w = (Inr False, w)"
  using assms by (simp_all add: issue_or_recover_def save_snapshot_def)

end
