(* ===== verification/Spec2Isabelle.thy ===== *)
theory Spec2Isabelle
  imports Gateway_Flow Chat_Rounds Scene_Shard Queue_Service Http_Server Queue_Issuance
begin

text \<open>
  RealmMesh is a distributed game server whose entrance is built for login surges. A client proves
  its account to the login verification service and gets an identity token; with it the queue
  service gives it a number, and, once the number is released, an admission grant; with the grant
  the gateway admits the identity once and hands it a session ticket; with the ticket the realm
  opens the session, inside which a character enters a scene. This development models the parts
  of that chain that decide something: credentials, queue, admission, the network edge that carries
  them, and the scene shard at its end.

  \<^bold>\<open>Theories, in the order of the chain.\<close>

  \<^item> \<open>RM_Prelude\<close>: words, bytes, errors as values, the clock (nanoseconds as unbounded
    integers, durations truncated as \<open>duration_cast\<close> does), decimal numbers and list lemmas.
    \<open>Replay_Guard\<close> is the locale of a guard that remembers what it has consumed;
    \<open>Ordered_Map\<close> is \<open>std::map\<close>; \<open>Double_Arith\<close> is the type \<open>double\<close> of the rate limiters,
    rounded after every operation.
  \<^item> \<open>Base64_Url\<close>, \<open>Flat_Json\<close>, \<open>Compact_Jws\<close>: \<open>base64url.cpp\<close>, \<open>json.cpp\<close>,
    \<open>compact_jws.cpp\<close>: the encodings of the credentials and the signature check.
    \<open>Identity_Token\<close>, \<open>Queue_Number\<close>, \<open>Admission_Grant\<close>, \<open>Session_Ticket\<close>: the four
    credentials of \<open>game/common\<close>: issue, validation, replay guards and redemption.
  \<^item> \<open>Queue_Core\<close>, \<open>Queue_Ticketing\<close>, \<open>Queue_Handler\<close>, \<open>Queue_Service\<close>: the queue
    service of \<open>game/queue\<close>: the ledger of released numbers, issue and query, the HTTP routes,
    and the release frame with its persistence and roll-back.
    \<open>Etcd_Codec\<close>, \<open>Queue_Store\<close>, \<open>Queue_Issuance\<close>: \<open>queue_store.cpp\<close>: what is stored in
    etcd, the start-up check, the transaction that issues or recovers a number, and what the queue
    service promises over it;
    \<open>Etcd_Server\<close>: the etcd gateway as an argument, and the laws it documents.
  \<^item> \<open>Admission_Store\<close>: \<open>admission_consumption_store.cpp\<close>: the memory store, which is the
    specification, and the compare-and-swap store in etcd, which refines it.
  \<^item> \<open>Gateway_Ingress\<close>, \<open>Gateway_Admission\<close>, \<open>Gateway_Login\<close>,
    \<open>Gateway_Flow\<close>: \<open>gateway_credential_ingress.cpp\<close>, the limits an attach passes before any
    signature is checked; \<open>gateway_admission.cpp\<close>, both credentials and the store behind one
    reservation; \<open>gateway_login_pipeline.cpp\<close> and \<open>gateway_login_config.cpp\<close>, the frame of
    the login pipeline with its sessions, intents and ports; and what the pipeline keeps, over the
    admission above.
  \<^item> \<open>Byte_Framing\<close>, \<open>Http1\<close>, \<open>Http_Server\<close>: \<open>framework/network\<close>: byte buffer and
    length-prefixed frames, the TLS receive and send loops, the HTTP/1.1 parsers and writer, and the
    poll loop of the HTTPS server with deferred responses.
  \<^item> \<open>Work_Pool\<close>, \<open>Edge_Source\<close>, \<open>Edge_Table\<close>, \<open>Edge_Runtime\<close>:
    \<open>framework/concurrency\<close> and \<open>framework/edge\<close>: the bounded queue and pool, the source
    address behind trusted proxies, the connection table, and the I/O thread of the edge between its
    transports and the business thread.
  \<^item> \<open>Scene_Messages\<close>, \<open>Scene_Shard\<close>: the messages between realm and scene with their
    validation (\<open>scene_internal_protocol.cpp\<close>, \<open>scene_protocol_validation.hpp\<close>) and the shard
    (\<open>scene_shard.cpp\<close>).
  \<^item> \<open>Utf8_Text\<close>, \<open>Wire_Envelope\<close>, \<open>Wire_Protocols\<close>: the checks of chat texts and
    character names (\<open>character_name.cpp\<close>, \<open>valid_chat_text\<close>), the envelope
    (\<open>envelope_codec.hpp\<close>) and the protocols between client, gateway, realm and scene
    (\<open>edge_protocol.cpp\<close>, \<open>realm_protocol.cpp\<close>, \<open>scene_protocol.cpp\<close>).
  \<^item> \<open>Chat_Messages\<close>, \<open>Chat_Channels\<close>, \<open>Chat_Rounds\<close>: the chat protocols
    (\<open>chat_protocol.cpp\<close>), the channels of a chat instance (\<open>chat_channels.cpp\<close>) with their
    invariant, and what an instance promises over its history.

  \<^bold>\<open>State and operations.\<close> A class is a record of its members, a method a function from the
  record to the result and the new record, an exception the left side of a sum; the branches are in
  the order of the code. Machine integers that can wrap are words (\<open>u32\<close>, \<open>u64\<close>);
  counters that the code bounds are natural numbers. Loops are structural recursion on what they
  consume (received bytes, buffered frames, keys of a page), so that all operations terminate by
  definition; the page walk of the start-up check, whose end depends on the server's answers, terminates because
  every page with more to come brings a number below the next one that was not seen before, and is proved to need
  at most as many requests as numbers were issued, plus one. A compare and
  swap tries at most \<open>max_cas_attempts\<close> (8) times, as the code does.

  \<^bold>\<open>Code outside the repository\<close> is an argument: libsodium (\<open>sodium\<close> with its laws
  \<open>sodium_laws\<close>), generichash, the etcd gateway, the JSON library of the stores,
  \<open>inet_pton\<close> and \<open>inet_ntop\<close>, and the message transports. Sockets, OpenSSL and the
  event loop are scripts of the outcomes of successive calls, over which the theorems quantify. Each
  law is shown to be satisfiable by a concrete instance (the \<open>toy\<close> and \<open>small\<close>
  definitions), and each property with hypotheses has a witness that runs it on one.

  \<^bold>\<open>Interfaces.\<close> The locales state what a component relies on (a first-in first-out
  buffer of bytes under the framing, the replay guard under credentials and tickets, an admission that
  keeps what could not be sent under the login pipeline, changes that are
  announced by events under the scene shard, a codec of numbered messages under every protocol) and are
  interpreted on the definitions of the component that
  provides it.

  \<^bold>\<open>What is shown.\<close> No credential is accepted in the place of another, each accepted one was
  signed by a known key and lies in its window, and issue and validation are inverse to each other;
  tickets and identity tokens are consumed once. The ledger of the queue stays consistent, released
  windows never move, a release that was not saved leaves no trace, and a restart from the store
  keeps every eligible client eligible; two login attempts never share a number, whatever fails in
  between, while the clock is not behind the releases. The stores in etcd take effect at one moment as the memory store does, and an identity
  is admitted once; so is a pair of credentials at the gateway, whose login pipeline ends every
  reservation once, hands nobody over without a confirmed commit, and reports an exact budget, while a
  source gets no more attempts than its rate grants, up to the rounding of doubles. Framing and HTTP parsing do not depend on how bytes are split, and the HTTPS
  server answers a deferred request once and in order. In every interleaving the work pool
  delivers each job at most once and comes to rest. Every connection that the edge announced is
  closed exactly once, and a forged forwarding header does not move the source. A scene shard keeps
  its bounds, its events and its snapshots agree, and its replies can always be sent. The checks of
  texts accept exactly the well-formed UTF-8 they describe, and a message that a protocol encoded is
  decoded to the same message by that protocol and by no other. A chat instance keeps its limits
  exactly, no round of it fails, and an accepted message that is repeated gets its first receipt again.

  \<^bold>\<open>Not modelled.\<close> Drivers and system calls (MongoDB, Lua, MsQuic, OpenSSL handshakes,
  epoll and kqueue, threads of the lease keepers), log output, process start-up and
  configuration files, the protobuf wire format, and the tools. The clock does not overflow here; the
  code's 64-bit nanoseconds do so in the year 2262. The log of the login pipeline is a record of calls
  kept by the model only. The token counter of the HTTPS server is unbounded here and 64 bits wide in
  the code. Coordinates are mathematical integers, and messages with equal serialisation are equal records.
\<close>

end
